(* ===== verification/RRTL_Prelude.thy ===== *)
theory RRTL_Prelude
  imports "HOL-Library.Word" "HOL-Library.Monad_Syntax"
begin

text \<open>
  Shared vocabulary of the development: the machine integers of the Rust sources, the
  formatting helpers their diagnostics use, and the generic lemmas on words, lists and
  options that the component theories rely on.

  A Rust \<open>u128\<close>, \<open>u64\<close> or \<open>u32\<close> is a word of that length, so \<open>wrapping_add\<close> is word
  addition.  An \<open>i128\<close> is kept as the same 128 bits and read by \<open>sint\<close>, which makes the
  casts \<open>as u128\<close> and \<open>as i128\<close> the identity.  A \<open>usize\<close> that indexes a vector is a
  \<open>nat\<close>; where the code truncates to \<open>usize\<close> (64 bits) the truncation is written out.
  A bit width (\<open>Width = u32\<close>) is a \<open>nat\<close>.  Arithmetic follows the profile with overflow
  checks (the one \<open>cargo test\<close> uses): an operation that would panic is \<open>None\<close>.
\<close>

unbundle bit_operations_syntax

type_synonym u32 = "32 word"
type_synonym u64 = "64 word"
type_synonym u128 = "128 word"
type_synonym i128 = "128 word"

named_theorems mask_simps \<open>masking a machine integer to a width\<close>
named_theorems limb_simps \<open>values of limb vectors\<close>

section \<open>Decimal and debug formatting\<close>

fun show_digits :: "nat \<Rightarrow> string \<Rightarrow> string" where
  "show_digits n acc =
     (let acc' = char_of (48 + n mod 10 :: nat) # acc
      in if n < 10 then acc' else show_digits (n div 10) acc')"

declare show_digits.simps [simp del]

definition show_nat :: "nat \<Rightarrow> string" where
  "show_nat n = show_digits n []"

definition show_int :: "int \<Rightarrow> string" where
  "show_int i = (if i < 0 then CHR ''-'' # show_nat (nat (- i)) else show_nat (nat i))"

section \<open>Words\<close>

text \<open>\<open>mask(width)\<close> of the sources is the library's \<open>mask\<close>, saturating at 128 bits.\<close>

lemma mask_word_ge [mask_simps]:
  "LENGTH('a::len) \<le> n \<Longrightarrow> (Bit_Operations.mask n :: 'a word) = - 1"
  by (rule bit_word_eqI) (simp add: bit_mask_iff)

lemma unat_and_mask: "unat (w AND Bit_Operations.mask n :: 'a::len word) = unat w mod 2 ^ n"
  by (simp flip: take_bit_eq_mask take_bit_eq_mod add: unsigned_take_bit_eq)

lemma uint_and_mask: "uint (w AND Bit_Operations.mask n :: 'a::len word) = uint w mod 2 ^ n"
  by (simp flip: take_bit_eq_mask take_bit_eq_mod add: unsigned_take_bit_eq)

lemma and_mask_idem [mask_simps]:
  "(w AND Bit_Operations.mask n) AND Bit_Operations.mask n = (w AND Bit_Operations.mask n :: 'a::len word)"
  by (simp add: and.assoc)

lemma and_mask_eq_iff_unat:
  "(w AND Bit_Operations.mask n = (w :: 'a::len word)) \<longleftrightarrow> unat w < 2 ^ n"
proof
  assume "w AND Bit_Operations.mask n = w"
  then have "unat w = unat w mod 2 ^ n" by (metis unat_and_mask)
  then show "unat w < 2 ^ n"
    using mod_less_divisor [of "2 ^ n" "unat w"] by simp
next
  assume "unat w < 2 ^ n"
  then show "w AND Bit_Operations.mask n = w"
    by (intro word_unat_eq_iff [THEN iffD2]) (simp add: unat_and_mask)
qed

lemma word_of_bool_neq_0 [simp]: "(of_bool b :: 'a::len word) \<noteq> 0 \<longleftrightarrow> b"
  by (cases b) auto

lemma unat_take_bit_word: "unat (take_bit n w :: 'a::len word) = unat w mod 2 ^ n"
  by (simp flip: take_bit_eq_mod add: unsigned_take_bit_eq)
lemma take_bit_word_ge: "LENGTH('a::len) \<le> n \<Longrightarrow> take_bit n (w :: 'a word) = w"
  by (rule bit_word_eqI) (auto simp: bit_simps)
lemma take_bit_word_add:
  "take_bit n (take_bit n a + take_bit n b :: 'a::len word) = take_bit n (a + b)"
proof (cases "LENGTH('a) \<le> n")
  case True then show ?thesis by (simp add: take_bit_word_ge)
next
  case False
  then show ?thesis
    by (intro word_unat_eq_iff [THEN iffD2])
       (simp add: unat_take_bit_word unat_word_ariths mod_mod_cancel le_imp_power_dvd mod_simps)
qed
lemma take_bit_word_mult:
  "take_bit n (take_bit n a * take_bit n b :: 'a::len word) = take_bit n (a * b)"
proof (cases "LENGTH('a) \<le> n")
  case True then show ?thesis by (simp add: take_bit_word_ge)
next
  case False
  then show ?thesis
    by (intro word_unat_eq_iff [THEN iffD2])
       (simp add: unat_take_bit_word unat_word_ariths mod_mod_cancel le_imp_power_dvd mod_simps)
qed
lemma uint_take_bit_word: "uint (take_bit n w :: 'a::len word) = uint w mod 2 ^ n"
  by (simp flip: take_bit_eq_mod add: unsigned_take_bit_eq)
lemma take_bit_word_diff:
  "take_bit n (take_bit n a - take_bit n b :: 'a::len word) = take_bit n (a - b)"
proof (cases "LENGTH('a) \<le> n")
  case True then show ?thesis by (simp add: take_bit_word_ge)
next
  case False
  then show ?thesis
    by (intro word_uint_eq_iff [THEN iffD2])
       (simp add: uint_take_bit_word uint_word_ariths mod_mod_cancel le_imp_power_dvd mod_simps)
qed
lemma take_bit_word_not: "take_bit n (NOT (take_bit n a) :: 'a::len word) = take_bit n (NOT a)"
  by (rule bit_word_eqI) (auto simp: bit_simps)
lemma push_bit_1_minus_1: "push_bit n 1 - 1 = (Bit_Operations.mask n :: 'a::len word)"
  by (simp add: mask_eq_exp_minus_1 push_bit_eq_mult)

lemma and_push_bit_1_eq_0_iff:
  fixes v :: "'a::len word"
  assumes "n < LENGTH('a)"
  shows "v AND push_bit n 1 = 0 \<longleftrightarrow> \<not> bit v n"
proof -
  have "v AND push_bit n 1 = (if bit v n then push_bit n 1 else 0)"
    by (rule bit_word_eqI) (auto simp: bit_simps bit_1_iff)
  moreover have "push_bit n 1 \<noteq> (0 :: 'a word)"
    using assms by (auto simp: bit_eq_iff bit_simps bit_1_iff intro!: exI [of _ n])
  ultimately show ?thesis by simp
qed


lemma sint_eq_uint_small:
  fixes v :: "'a::len word"
  assumes "uint v < 2 ^ (LENGTH('a) - 1)"
  shows "sint v = uint v"
proof -
  have "- (2 ^ (LENGTH('a) - 1)) \<le> uint v"
    by (rule order_trans [of _ 0]) simp_all
  with assms show ?thesis by (simp add: sint_uint signed_take_bit_int_eq_self_iff)
qed

lemma uint_push_bit_1: "n < LENGTH('a) \<Longrightarrow> uint (push_bit n 1 :: 'a::len word) = 2 ^ n"
  by transfer (simp add: take_bit_eq_mod)

lemma sint_push_bit_1: "n < LENGTH('a) - 1 \<Longrightarrow> sint (push_bit n 1 :: 'a::len word) = 2 ^ n"
  by (subst sint_eq_uint_small) (simp_all only: uint_push_bit_1, simp_all)

lemma sint_push_bit_127: "sint (push_bit 127 1 :: 128 word) = - (2 ^ 127)"
  by (simp add: push_bit_eq_mult)

lemma uint_take_bit_lt: "uint (take_bit n v :: 'a::len word) < 2 ^ n"
  by (simp add: uint_take_bit_word)

lemma signed_take_bit_uint:
  fixes v :: "'a::len word"
  assumes "0 < w"
  shows "signed_take_bit (w - 1) (uint v) = uint (take_bit w v) - 2 ^ w * of_bool (bit v (w - 1))"
proof -
  have "bit (uint v) (w - 1) = bit v (w - 1)"
    by (simp add: bit_uint_iff) (metis bit_word.rep_eq bit_take_bit_iff bit_imp_le_length)
  then show ?thesis
    using assms signed_take_bit_eq_take_bit_minus [of "w - 1" "uint v"]
    by (simp add: unsigned_take_bit_eq)
qed

lemma uint_take_bit_sign_clear:
  fixes v :: "'a::len word"
  assumes "0 < w" "\<not> bit v (w - 1)"
  shows "uint (take_bit w v) < 2 ^ (w - 1)"
proof -
  obtain k where k: "w = Suc k" using assms(1) by (cases w) auto
  have "take_bit (Suc k) v = take_bit k v"
    using assms(2) k by (intro bit_word_eqI) (auto simp: bit_take_bit_iff less_Suc_eq)
  then show ?thesis by (simp add: uint_take_bit_word k)
qed

lemma take_bit_of_bool_pos [simp]: "0 < n \<Longrightarrow> take_bit n (of_bool b :: 'a::len word) = of_bool b"
  by (cases b) (auto simp: take_bit_Suc_from_most intro!: bit_word_eqI simp: bit_simps bit_1_iff)

section \<open>Options and lists\<close>

lemma bind_eq_Some: "Option.bind x f = Some y \<longleftrightarrow> (\<exists>a. x = Some a \<and> f a = Some y)"
  by (cases x) auto

text \<open>A vector access of the sources: \<open>xs.get(i)\<close>.\<close>

definition vec_get :: "'a list \<Rightarrow> nat \<Rightarrow> 'a option" where
  "vec_get xs i = (if i < length xs then Some (xs ! i) else None)"

lemma vec_get_simps [simp]:
  "i < length xs \<Longrightarrow> vec_get xs i = Some (xs ! i)"
  "\<not> i < length xs \<Longrightarrow> vec_get xs i = None"
  by (auto simp: vec_get_def)

lemma vec_get_Some_iff: "vec_get xs i = Some x \<longleftrightarrow> i < length xs \<and> xs ! i = x"
  by (auto simp: vec_get_def)

lemma find_Some_in: "List.find P xs = Some x \<Longrightarrow> x \<in> set xs \<and> P x"
  by (auto simp: find_Some_iff)

lemma case_result_Inr [simp]:
  "(case r of Inl e \<Rightarrow> Some (Inl e) | Inr x \<Rightarrow> f x) = Some (Inr y) \<longleftrightarrow> (\<exists>x. r = Inr x \<and> f x = Some (Inr y))"
  by (cases r) auto

lemma concat_map_Nil_iff: "concat (map f xs) = [] \<longleftrightarrow> (\<forall>x \<in> set xs. f x = [])"
  by (induction xs) auto

lemma fold_grows:
  assumes "\<And>x g. F g \<subseteq> F (f x g)"
  shows "F g \<subseteq> F (fold f xs g)"
proof (induction xs arbitrary: g)
  case (Cons x xs)
  have "F g \<subseteq> F (f x g)" by (rule assms)
  also have "\<dots> \<subseteq> F (fold f xs (f x g))" by (rule Cons)
  finally show ?case by simp
qed simp

lemma list_all2_right:
  "list_all2 P xs ys \<Longrightarrow> (\<And>x y. x \<in> set xs \<Longrightarrow> P x y \<Longrightarrow> Q y) \<Longrightarrow> \<forall>y \<in> set ys. Q y"
  by (induction rule: list_all2_induct) auto

text \<open>A loop over a vector whose body may panic.\<close>

fun mapM :: "('a \<Rightarrow> 'b option) \<Rightarrow> 'a list \<Rightarrow> 'b list option" where
  "mapM f [] = Some []"
| "mapM f (x # xs) = do { y \<leftarrow> f x; ys \<leftarrow> mapM f xs; Some (y # ys) }"

lemma mapM_cong [fundef_cong]:
  "xs = ys \<Longrightarrow> (\<And>x. x \<in> set ys \<Longrightarrow> f x = g x) \<Longrightarrow> mapM f xs = mapM g ys"
proof (induction xs arbitrary: ys)
  case (Cons x xs)
  then show ?case by (cases ys) auto
qed simp

lemma mapM_Some_iff: "mapM f xs = Some ys \<longleftrightarrow> list_all2 (\<lambda>x y. f x = Some y) xs ys"
proof (induction xs arbitrary: ys)
  case (Cons x xs)
  then show ?case by (cases ys) (auto simp: bind_eq_Some list_all2_Cons1)
qed auto

lemma mapM_SomeD: "mapM f xs = Some ys \<Longrightarrow> list_all2 (\<lambda>x y. f x = Some y) xs ys"
  by (simp add: mapM_Some_iff)

lemma mapM_total: "(\<And>x. x \<in> set xs \<Longrightarrow> f x \<noteq> None) \<Longrightarrow> mapM f xs \<noteq> None"
proof (induction xs)
  case (Cons a xs)
  then obtain y ys where "f a = Some y" "mapM f xs = Some ys" by force
  then show ?case by simp
qed simp

lemma mapM_Some_map: "mapM (\<lambda>x. Some (f x)) xs = Some (map f xs)"
  by (induction xs) auto

lemma mapM_all: "\<forall>x \<in> set xs. f x = Some (g x) \<Longrightarrow> mapM f xs = Some (map g xs)"
  by (induction xs) auto

text \<open>The \<open>?\<close> of the sources on a \<open>Result\<close>, the error on the left.\<close>

definition and_then :: "'e + 'a \<Rightarrow> ('a \<Rightarrow> 'e + 'b) \<Rightarrow> 'e + 'b" where
  "and_then r f = (case r of Inl e \<Rightarrow> Inl e | Inr x \<Rightarrow> f x)"

lemma and_then_simps [simp]: "and_then (Inl e) f = Inl e" "and_then (Inr x) f = f x"
  by (simp_all add: and_then_def)

lemma and_then_Inr_iff: "and_then r f = Inr y \<longleftrightarrow> (\<exists>x. r = Inr x \<and> f x = Inr y)"
  by (cases r) simp_all

end
