(* ===== verification/Ir.thy ===== *)
theory Ir
  imports RRTL_Prelude
begin

text \<open>
  The intermediate representation of crate \<open>rrtl-ir\<close> (\<open>src/crates/rrtl-ir/src/lib.rs\<close>):
  bit types, expressions, signals, modules, designs and diagnostics, with the constructor
  functions the crate exports.  Structs are records, enums are datatypes; a \<open>HashMap\<close> or a
  \<open>Vec\<close> of the crate is a map or a list.
\<close>

section \<open>Bit types\<close>

type_synonym width = nat

datatype signedness = Unsigned | Signed

record bit_type =
  bt_width :: width
  bt_signedness :: signedness

definition BitType :: "width \<Rightarrow> signedness \<Rightarrow> bit_type" where
  "BitType w s = \<lparr>bt_width = w, bt_signedness = s\<rparr>"

definition is_signed :: "bit_type \<Rightarrow> bool" where
  "is_signed ty \<longleftrightarrow> bt_signedness ty = Signed"

definition uint_ty :: "width \<Rightarrow> bit_type" where
  "uint_ty w = BitType w Unsigned"

definition sint_ty :: "width \<Rightarrow> bit_type" where
  "sint_ty w = BitType w Signed"

definition bit_type_from_width :: "width \<Rightarrow> bit_type" where
  "bit_type_from_width w = uint_ty w"

lemma BitType_sel [simp]:
  "bt_width (BitType w s) = w" "bt_signedness (BitType w s) = s"
  by (simp_all add: BitType_def)

lemma BitType_eq [simp]: "BitType w s = BitType w' s' \<longleftrightarrow> w = w' \<and> s = s'"
  by (simp add: BitType_def)

lemma BitType_collapse [simp]: "BitType (bt_width ty) (bt_signedness ty) = ty"
  by (simp add: BitType_def)

lemma uint_ty_sel [simp]: "bt_width (uint_ty w) = w" "bt_signedness (uint_ty w) = Unsigned"
  by (simp_all add: uint_ty_def)

lemma sint_ty_sel [simp]: "bt_width (sint_ty w) = w" "bt_signedness (sint_ty w) = Signed"
  by (simp_all add: sint_ty_def)

lemma uint_ty_eq [simp]: "uint_ty w = uint_ty w' \<longleftrightarrow> w = w'"
  by (simp add: uint_ty_def)

lemma is_signed_simps [simp]:
  "\<not> is_signed (uint_ty w)" "is_signed (sint_ty w)" "is_signed (BitType w s) \<longleftrightarrow> s = Signed"
  by (simp_all add: is_signed_def)

section \<open>Signals and expressions\<close>

type_synonym module_id = nat
type_synonym signal_id = nat

record signal =
  sig_module :: module_id
  sig_id :: signal_id

datatype expr =
    Lit i128 bit_type
  | Sig signal
  | ENot expr
  | EAnd expr expr
  | EOr expr expr
  | EXor expr expr
  | EAdd expr expr
  | ESub expr expr
  | EMul expr expr
  | EEq expr expr
  | ENe expr expr
  | ELt expr expr
  | EMux expr expr expr
  | ESlice expr width width
  | EZext expr width
  | ESext expr width
  | ETrunc expr width
  | ECast expr signedness
  | EConcat "expr list"
  | EMemRead signal expr

definition signal_value :: "signal \<Rightarrow> expr" where
  "signal_value s = Sig s"

definition expr_from_signal :: "signal \<Rightarrow> expr" where
  "expr_from_signal s = Sig s"

definition eq_expr :: "expr \<Rightarrow> expr \<Rightarrow> expr" where "eq_expr a b = EEq a b"
definition ne_expr :: "expr \<Rightarrow> expr \<Rightarrow> expr" where "ne_expr a b = ENe a b"
definition lt_expr :: "expr \<Rightarrow> expr \<Rightarrow> expr" where "lt_expr a b = ELt a b"
definition slice_expr :: "expr \<Rightarrow> width \<Rightarrow> width \<Rightarrow> expr" where "slice_expr e lsb w = ESlice e lsb w"
definition zext_expr :: "expr \<Rightarrow> width \<Rightarrow> expr" where "zext_expr e w = EZext e w"
definition sext_expr :: "expr \<Rightarrow> width \<Rightarrow> expr" where "sext_expr e w = ESext e w"
definition trunc_expr :: "expr \<Rightarrow> width \<Rightarrow> expr" where "trunc_expr e w = ETrunc e w"
definition as_uint :: "expr \<Rightarrow> expr" where "as_uint e = ECast e Unsigned"
definition as_sint :: "expr \<Rightarrow> expr" where "as_sint e = ECast e Signed"

definition lit_u :: "u128 \<Rightarrow> width \<Rightarrow> expr" where "lit_u v w = Lit v (uint_ty w)"
definition lit :: "u128 \<Rightarrow> width \<Rightarrow> expr" where "lit v w = lit_u v w"
definition lit_s :: "i128 \<Rightarrow> width \<Rightarrow> expr" where "lit_s v w = Lit v (sint_ty w)"
definition mux :: "expr \<Rightarrow> expr \<Rightarrow> expr \<Rightarrow> expr" where "mux c t e = EMux c t e"
definition concat_expr :: "expr list \<Rightarrow> expr" where "concat_expr ps = EConcat ps"
definition mem_read :: "signal \<Rightarrow> expr \<Rightarrow> expr" where "mem_read m a = EMemRead m a"

definition expr_not :: "expr \<Rightarrow> expr" where "expr_not e = ENot e"
definition expr_add :: "expr \<Rightarrow> expr \<Rightarrow> expr" where "expr_add a b = EAdd a b"
definition expr_sub :: "expr \<Rightarrow> expr \<Rightarrow> expr" where "expr_sub a b = ESub a b"
definition expr_mul :: "expr \<Rightarrow> expr \<Rightarrow> expr" where "expr_mul a b = EMul a b"
definition expr_bitand :: "expr \<Rightarrow> expr \<Rightarrow> expr" where "expr_bitand a b = EAnd a b"
definition expr_bitor :: "expr \<Rightarrow> expr \<Rightarrow> expr" where "expr_bitor a b = EOr a b"
definition expr_bitxor :: "expr \<Rightarrow> expr \<Rightarrow> expr" where "expr_bitxor a b = EXor a b"

section \<open>State types, bundles and interfaces\<close>

record state_variant =
  sv_name :: string
  sv_value :: i128

record state_type =
  st_name :: string
  st_ty :: bit_type
  st_variants :: "state_variant list"

definition state_value_of :: "state_type \<Rightarrow> string \<Rightarrow> i128 option" where
  "state_value_of st n = map_option sv_value (List.find (\<lambda>v. sv_name v = n) (st_variants st))"

definition state_lit :: "state_type \<Rightarrow> string \<Rightarrow> expr option" where
  "state_lit st n = map_option (\<lambda>v. Lit v (st_ty st)) (state_value_of st n)"

datatype bundle_type = BundleType (bundle_name: string) (bundle_fields: "bundle_field list")
  and bundle_field = LeafField string bit_type | NestedField string bundle_type

record bundle_leaf =
  leaf_path :: "string list"
  leaf_ty :: bit_type

text \<open>
  \<open>collect_bundle_leaves\<close> pushes onto the caller's vector; the model returns what it pushes,
  under the prefix the caller holds.
\<close>

primrec collect_bundle_leaves :: "bundle_type \<Rightarrow> string list \<Rightarrow> bundle_leaf list"
  and collect_field_leaves :: "bundle_field \<Rightarrow> string list \<Rightarrow> bundle_leaf list" where
  "collect_bundle_leaves (BundleType n fs) prefix =
     concat (map (\<lambda>f. f prefix) (map collect_field_leaves fs))"
| "collect_field_leaves (LeafField n ty) prefix = [\<lparr>leaf_path = prefix @ [n], leaf_ty = ty\<rparr>]"
| "collect_field_leaves (NestedField n b) prefix = collect_bundle_leaves b (prefix @ [n])"

definition leaf_fields :: "bundle_type \<Rightarrow> bundle_leaf list" where
  "leaf_fields b = collect_bundle_leaves b []"

definition mk_bundle_type :: "string \<Rightarrow> bundle_field list \<Rightarrow> bundle_type" where
  "mk_bundle_type n fs = BundleType n fs"

definition field :: "string \<Rightarrow> bit_type \<Rightarrow> bundle_field" where "field n ty = LeafField n ty"
definition nested :: "string \<Rightarrow> bundle_type \<Rightarrow> bundle_field" where "nested n b = NestedField n b"

datatype interface_direction = DirInput | DirOutput
datatype interface_port_type = PortScalar bit_type | PortBundle bundle_type

definition port_type_from_width :: "width \<Rightarrow> interface_port_type" where
  "port_type_from_width w = PortScalar (uint_ty w)"

record interface_port =
  ip_name :: string
  ip_direction :: interface_direction
  ip_ty :: interface_port_type

record interface_type =
  it_name :: string
  it_ports :: "interface_port list"

definition mk_interface_type :: "string \<Rightarrow> interface_port list \<Rightarrow> interface_type" where
  "mk_interface_type n ps = \<lparr>it_name = n, it_ports = ps\<rparr>"

definition iface_input :: "string \<Rightarrow> interface_port_type \<Rightarrow> interface_port" where
  "iface_input n ty = \<lparr>ip_name = n, ip_direction = DirInput, ip_ty = ty\<rparr>"

definition iface_output :: "string \<Rightarrow> interface_port_type \<Rightarrow> interface_port" where
  "iface_output n ty = \<lparr>ip_name = n, ip_direction = DirOutput, ip_ty = ty\<rparr>"

section \<open>Modules and designs\<close>

datatype reset_kind = Sync | Async
datatype reset_polarity = ActiveHigh | ActiveLow

record reset =
  rst_signal :: signal
  rst_value :: i128
  rst_kind :: reset_kind
  rst_polarity :: reset_polarity

datatype signal_kind =
    KInput
  | KOutput
  | KInout
  | KWire
  | KReg "signal option" "reset option" "expr option"
  | KMem width width nat

record signal_info =
  si_handle :: signal
  si_name :: string
  si_width :: width
  si_ty :: bit_type
  si_kind :: signal_kind

record assignment =
  as_dst :: signal
  as_expr :: expr

record memory_write =
  mw_mem :: signal
  mw_clock :: signal
  mw_enable :: expr
  mw_addr :: expr
  mw_data :: expr

record initial_register_value =
  irv_signal :: signal
  irv_value :: i128

record initial_memory_value =
  imv_mem :: signal
  imv_addr :: nat
  imv_value :: i128

record assertion =
  a_name :: string
  a_clock :: "signal option"
  a_enable :: "expr option"
  a_condition :: expr
  a_message :: "string option"

text \<open>A cover point has the fields of an assertion.\<close>

record cover_point =
  c_name :: string
  c_clock :: "signal option"
  c_enable :: "expr option"
  c_condition :: expr
  c_message :: "string option"

record inst =
  in_name :: string
  in_module :: string
  in_connections :: "(string \<times> signal) list"

record state_signal =
  ss_signal :: signal
  ss_state_type :: state_type
  ss_reset_variant :: string

record bundle_signal_field =
  bsf_path :: "string list"
  bsf_signal :: signal

record bundle_signal =
  bs_name :: string
  bs_bundle_type :: bundle_type
  bs_fields :: "bundle_signal_field list"

datatype interface_signal_port_signals =
    PortScalarSignal signal
  | PortBundleSignals "bundle_signal_field list"

record interface_signal_port =
  isp_name :: string
  isp_direction :: interface_direction
  isp_signals :: interface_signal_port_signals

record interface_signal =
  is_name :: string
  is_interface_type :: interface_type
  is_ports :: "interface_signal_port list"

section \<open>Diagnostics\<close>

record diagnostic =
  d_code :: string
  d_message :: string
  d_module :: "string option"
  d_signal :: "string option"

definition new_diag :: "string \<Rightarrow> string \<Rightarrow> diagnostic" where
  "new_diag code msg = \<lparr>d_code = code, d_message = msg, d_module = None, d_signal = None\<rparr>"

definition with_module :: "diagnostic \<Rightarrow> string \<Rightarrow> diagnostic" where
  "with_module d m = d\<lparr>d_module := Some m\<rparr>"

definition with_signal :: "diagnostic \<Rightarrow> string \<Rightarrow> diagnostic" where
  "with_signal d s = d\<lparr>d_signal := Some s\<rparr>"

text \<open>An \<open>ErrorReport\<close> is its list of diagnostics.\<close>

type_synonym error_report = "diagnostic list"

definition report_is_empty :: "error_report \<Rightarrow> bool" where
  "report_is_empty r \<longleftrightarrow> r = []"

definition display_diagnostic :: "diagnostic \<Rightarrow> string" where
  "display_diagnostic d =
     d_code d @ '': '' @ d_message d
     @ (case d_module d of None \<Rightarrow> [] | Some m \<Rightarrow> '' [module: '' @ m @ '']'')
     @ (case d_signal d of None \<Rightarrow> [] | Some s \<Rightarrow> '' [signal: '' @ s @ '']'')
     @ [CHR 0x0A]"

definition display_report :: "error_report \<Rightarrow> string" where
  "display_report r = concat (map display_diagnostic r)"

section \<open>Module and design lookup\<close>

record rmodule =
  m_id :: module_id
  m_name :: string
  m_is_external :: bool
  m_signals :: "signal_info list"
  m_assignments :: "assignment list"
  m_memory_writes :: "memory_write list"
  m_initial_register_values :: "initial_register_value list"
  m_initial_memory_values :: "initial_memory_value list"
  m_assertions :: "assertion list"
  m_cover_points :: "cover_point list"
  m_instances :: "inst list"
  m_state_types :: "state_type list"
  m_state_signals :: "state_signal list"
  m_bundle_types :: "bundle_type list"
  m_bundle_signals :: "bundle_signal list"
  m_interface_types :: "interface_type list"
  m_interface_signals :: "interface_signal list"
  m_builder_diagnostics :: "diagnostic list"

definition module_signal :: "rmodule \<Rightarrow> signal \<Rightarrow> signal_info option" where
  "module_signal m s = (if sig_module s \<noteq> m_id m then None else vec_get (m_signals m) (sig_id s))"

text \<open>
  \<open>signal_mut\<close> hands out the slot for an in-place update; the model applies the caller's
  update to it and returns the module, or \<open>None\<close> where the code returns \<open>None\<close>.
\<close>

definition module_signal_mut ::
  "rmodule \<Rightarrow> signal \<Rightarrow> (signal_info \<Rightarrow> signal_info) \<Rightarrow> rmodule option" where
  "module_signal_mut m s f =
     (if sig_module s \<noteq> m_id m then None
      else if sig_id s < length (m_signals m)
      then Some (m\<lparr>m_signals := (m_signals m)[sig_id s := f (m_signals m ! sig_id s)]\<rparr>)
      else None)"

record design =
  ds_modules :: "rmodule list"

definition design_module :: "design \<Rightarrow> module_id \<Rightarrow> rmodule option" where
  "design_module d i = vec_get (ds_modules d) i"

definition design_module_mut :: "design \<Rightarrow> module_id \<Rightarrow> (rmodule \<Rightarrow> rmodule) \<Rightarrow> design option" where
  "design_module_mut d i f =
     (if i < length (ds_modules d)
      then Some (d\<lparr>ds_modules := (ds_modules d)[i := f (ds_modules d ! i)]\<rparr>) else None)"

definition find_module :: "design \<Rightarrow> string \<Rightarrow> rmodule option" where
  "find_module d n = List.find (\<lambda>m. m_name m = n) (ds_modules d)"

section \<open>Facts about the data model\<close>

lemma module_signal_in: "module_signal m s = Some si \<Longrightarrow> si \<in> set (m_signals m)"
  by (auto simp: module_signal_def vec_get_Some_iff split: if_splits)

lemma signal_eq_iff: "(s :: signal) = t \<longleftrightarrow> sig_module s = sig_module t \<and> sig_id s = sig_id t"
  by (cases s; cases t) simp

lemma module_signal_mut_lookup:
  assumes "module_signal_mut m s f = Some m'"
  shows "module_signal m' t = (if t = s then map_option f (module_signal m s) else module_signal m t)"
proof -
  have s: "sig_module s = m_id m" "sig_id s < length (m_signals m)"
    and m': "m' = m\<lparr>m_signals := (m_signals m)[sig_id s := f (m_signals m ! sig_id s)]\<rparr>"
    using assms by (simp_all add: module_signal_mut_def split: if_split_asm)
  show ?thesis
    using s by (simp add: module_signal_def m' vec_get_def signal_eq_iff nth_list_update)
qed

lemma module_signal_mut_None_iff:
  "module_signal_mut m s f = None \<longleftrightarrow> module_signal m s = None"
  by (auto simp: module_signal_mut_def module_signal_def vec_get_def)

lemma find_module_name: "find_module d n = Some m \<Longrightarrow> m_name m = n \<and> m \<in> set (ds_modules d)"
  by (auto simp: find_module_def dest: find_Some_in)

lemma state_lit_Some_iff:
  "state_lit st n = Some e \<longleftrightarrow> (\<exists>v. state_value_of st n = Some v \<and> e = Lit v (st_ty st))"
  by (auto simp: state_lit_def)

text \<open>The leaves under a prefix are the leaves at the root, each path prefixed.\<close>

lemma collect_leaves_prefix:
  "collect_bundle_leaves b prefix =
     map (\<lambda>l. l\<lparr>leaf_path := prefix @ leaf_path l\<rparr>) (collect_bundle_leaves b [])"
  "collect_field_leaves f prefix =
     map (\<lambda>l. l\<lparr>leaf_path := prefix @ leaf_path l\<rparr>) (collect_field_leaves f [])"
proof (induction b and f arbitrary: prefix and prefix)
  case (BundleType n fs)
  have eq: "map (\<lambda>f. collect_field_leaves f prefix) fs
      = map (\<lambda>f. map (\<lambda>l. l\<lparr>leaf_path := prefix @ leaf_path l\<rparr>) (collect_field_leaves f [])) fs"
    by (intro map_cong refl) (rule BundleType)
  show ?case
    by (simp add: map_concat comp_def) (rule arg_cong [where f = concat], rule eq)
next
  case (LeafField n ty)
  then show ?case by simp
next
  case (NestedField n b)
  have "collect_bundle_leaves b (prefix @ [n])
      = map (\<lambda>l. l\<lparr>leaf_path := (prefix @ [n]) @ leaf_path l\<rparr>) (collect_bundle_leaves b [])"
    by (rule NestedField)
  moreover have "collect_bundle_leaves b [n]
      = map (\<lambda>l. l\<lparr>leaf_path := [n] @ leaf_path l\<rparr>) (collect_bundle_leaves b [])"
    by (rule NestedField)
  ultimately show ?case by (simp only: collect_field_leaves.simps) (simp add: comp_def)
qed

text \<open>The derived debug form of a signal id.\<close>

definition debug_signal_id :: "signal_id \<Rightarrow> string" where
  "debug_signal_id n = ''SignalId('' @ show_nat n @ '')''"

end
