(* ===== verification/Expr_Type.thy ===== *)
theory Expr_Type
  imports Ir
begin

text \<open>
  The type checker for expressions and the value encoding of crate \<open>rrtl-core\<close>
  (\<open>src/crates/rrtl-core/src/lib.rs\<close>, \<open>expr_type\<close> to \<open>signed_value\<close>).  The code pushes
  diagnostics onto a vector it is passed; \<open>expr_type\<close> returns the type it computes together
  with the diagnostics it pushes, in order.  The relation \<open>has_type\<close> is the specification:
  the checker accepts an expression exactly when the relation gives it a type.
\<close>

section \<open>Value encoding\<close>

definition i128_min :: int where "i128_min = - (2 ^ 127)"
definition i128_max :: int where "i128_max = 2 ^ 127 - 1"

text \<open>Subtraction on \<open>i128\<close> with the overflow check: \<open>None\<close> is the panic.\<close>

definition i128_sub :: "i128 \<Rightarrow> i128 \<Rightarrow> i128 option" where
  "i128_sub a b =
     (if i128_min \<le> sint a - sint b \<and> sint a - sint b \<le> i128_max then Some (a - b) else None)"

definition fits_width :: "u128 \<Rightarrow> width \<Rightarrow> bool" where
  "fits_width v w \<longleftrightarrow> 128 \<le> w \<or> v < push_bit w 1"

definition fits_type :: "i128 \<Rightarrow> bit_type \<Rightarrow> bool" where
  "fits_type v ty =
     (if bt_width ty = 0 then False
      else if 128 \<le> bt_width ty then True
      else case bt_signedness ty of
        Unsigned \<Rightarrow> 0 \<le> sint v \<and> v < push_bit (bt_width ty) 1
      | Signed \<Rightarrow> - sint (push_bit (bt_width ty - 1) (1 :: i128)) \<le> sint v
                \<and> sint v \<le> sint (push_bit (bt_width ty - 1) (1 :: i128)) - 1)"

definition mask128 :: "width \<Rightarrow> u128" where
  "mask128 w = (if 128 \<le> w then - 1 else push_bit w 1 - 1)"

definition encode_value :: "i128 \<Rightarrow> bit_type \<Rightarrow> u128" where
  "encode_value v ty = v AND mask128 (bt_width ty)"

definition signed_value :: "u128 \<Rightarrow> width \<Rightarrow> i128 option" where
  "signed_value v w =
     (if w = 0 then Some 0
      else if 128 \<le> w then Some v
      else (let sign_bit = push_bit (w - 1) 1; v' = v AND mask128 w
            in if v' AND sign_bit = 0 then Some v' else i128_sub v' (push_bit w 1)))"

subsection \<open>Facts about the encoding\<close>

lemma mask128_eq: "mask128 w = Bit_Operations.mask w"
  unfolding mask128_def by (simp only: push_bit_1_minus_1) (simp add: mask_simps)

lemma encode_value_eq: "encode_value v ty = take_bit (bt_width ty) v"
  by (simp add: encode_value_def mask128_eq take_bit_eq_mask)

text \<open>The number a \<open>w\<close>-bit value denotes in two's complement; \<open>signed_value\<close> computes it, and
  panics at width 127 on a negative value, where \<open>1i128 << 127\<close> is the least \<open>i128\<close>.\<close>

definition sval :: "width \<Rightarrow> u128 \<Rightarrow> int" where
  "sval w v = (if w = 0 then 0 else signed_take_bit (min w 128 - 1) (uint v))"

lemma signed_value_cases:
  assumes "0 < w" "w < 128"
  shows "signed_value v w =
    (if bit v (w - 1) then i128_sub (take_bit w v) (push_bit w 1) else Some (take_bit w v))"
  using assms
  by (simp add: signed_value_def Let_def mask128_eq and_push_bit_1_eq_0_iff bit_take_bit_iff
      del: push_bit_of_1 flip: take_bit_eq_mask)

lemma signed_value_Some:
  assumes "w \<noteq> 127 \<or> \<not> bit v 126"
  shows "\<exists>r. signed_value v w = Some r \<and> sint r = sval w v"
proof -
  consider "w = 0" | "128 \<le> w" | "0 < w" "w < 128" by linarith
  then show ?thesis
  proof cases
    case 1 then show ?thesis by (simp add: signed_value_def sval_def)
  next
    case 2
    then show ?thesis
      by (simp add: signed_value_def sval_def sint_uint)
  next
    case 3
    have le: "(2::int) ^ w \<le> 2 ^ 127" using 3 by (intro power_increasing) auto
    have u: "uint (take_bit w v) < 2 ^ w" by (rule uint_take_bit_lt)
    then have s: "sint (take_bit w v) = uint (take_bit w v)"
      using le by (intro sint_eq_uint_small) auto
    show ?thesis
    proof (cases "bit v (w - 1)")
      case False
      then show ?thesis
        using 3 s by (simp add: signed_value_cases sval_def min_def signed_take_bit_uint [simplified])
    next
      case True
      then have "w < 127" using assms 3 by (cases "w = 127") auto
      then have p: "sint (push_bit w 1 :: 128 word) = 2 ^ w"
        by (intro sint_push_bit_1) simp
      have d: "sint (take_bit w v) - 2 ^ w < 2 ^ 127" "- (2 ^ 127) \<le> sint (take_bit w v) - 2 ^ w"
        using u s le uint_ge_0 [of "take_bit w v"] by linarith+
      have "sint (take_bit w v - push_bit w 1 :: 128 word) = sint (take_bit w v) - 2 ^ w"
        using d by (simp add: sint_word_diff p signed_take_bit_int_eq_self_iff del: push_bit_of_1)
      then show ?thesis
        using True 3 d s p
        by (simp add: signed_value_cases sval_def min_def signed_take_bit_uint [simplified] i128_sub_def
            i128_min_def i128_max_def del: push_bit_of_1)
    qed
  qed
qed

lemma signed_value_127: "signed_value v 127 = None \<longleftrightarrow> bit v 126"
proof -
  have "sint (take_bit 127 v) = uint (take_bit 127 v)"
    using uint_take_bit_lt [of 127 v] by (intro sint_eq_uint_small) simp
  moreover have "\<not> 1 + uint (take_bit 127 v) \<le> 0"
    using uint_ge_0 [of "take_bit 127 v"] by linarith
  ultimately show ?thesis
    by (simp add: signed_value_cases i128_sub_def sint_push_bit_127 i128_max_def del: push_bit_of_1)
qed
lemma fits_type_unsigned:
  assumes "fits_type v ty" "bt_signedness ty = Unsigned" "bt_width ty < 128"
  shows "take_bit (bt_width ty) v = v" "uint v < 2 ^ bt_width ty"
proof -
  have "v < push_bit (bt_width ty) 1"
    using assms by (simp add: fits_type_def split: if_splits)
  then show "uint v < 2 ^ bt_width ty"
    using assms(3) by (simp add: word_less_def uint_push_bit_1 del: push_bit_of_1)
  then show "take_bit (bt_width ty) v = v"
    by (intro word_uint_eq_iff [THEN iffD2]) (simp add: uint_take_bit_word)
qed

lemma fits_type_signed:
  assumes "fits_type v ty" "bt_signedness ty = Signed" "bt_width ty < 128"
  shows "- (2 ^ (bt_width ty - 1)) \<le> sint v" "sint v < 2 ^ (bt_width ty - 1)" "0 < bt_width ty"
  using assms by (simp_all add: fits_type_def sint_push_bit_1 del: push_bit_of_1 split: if_splits)

text \<open>Encoding a value that fits its type and reading it back is the identity.\<close>

lemma sval_encode_value:
  assumes "fits_type v ty" "bt_signedness ty = Signed" "bt_width ty \<le> 128"
  shows "sval (bt_width ty) (encode_value v ty) = sint v"
proof (cases "bt_width ty = 128")
  case True
  then show ?thesis by (simp add: sval_def encode_value_eq take_bit_word_ge sint_uint)
next
  case False
  with assms(3) have w: "bt_width ty < 128" by simp
  note f = fits_type_signed [OF assms(1,2) w]
  obtain n where n: "bt_width ty = Suc n" "n < 127"
    using w f(3) by (cases "bt_width ty") auto
  have "take_bit (Suc n) (uint v) = take_bit (Suc n) (sint v)"
    using n by (simp add: sint_uint take_bit_signed_take_bit)
  then have "signed_take_bit n (uint v) = signed_take_bit n (sint v)"
    by (metis signed_take_bit_eq_iff_take_bit_eq)
  also have "\<dots> = sint v" using f n by (simp add: signed_take_bit_int_eq_self_iff)
  finally show ?thesis
    using n by (simp add: sval_def encode_value_eq unsigned_take_bit_eq min_def signed_take_bit_take_bit)
qed

section \<open>Type inference with diagnostics\<close>

definition debug_signedness :: "signedness \<Rightarrow> string" where
  "debug_signedness s = (case s of Unsigned \<Rightarrow> ''Unsigned'' | Signed \<Rightarrow> ''Signed'')"

definition debug_bit_type :: "bit_type \<Rightarrow> string" where
  "debug_bit_type ty =
     ''BitType { width: '' @ show_nat (bt_width ty) @ '', signedness: ''
     @ debug_signedness (bt_signedness ty) @ '' }''"

definition mdiag :: "rmodule \<Rightarrow> string \<Rightarrow> string \<Rightarrow> diagnostic" where
  "mdiag m code msg = with_module (new_diag code msg) (m_name m)"

type_synonym type_result = "bit_type option \<times> diagnostic list"

definition signal_width :: "rmodule \<Rightarrow> signal \<Rightarrow> width option \<times> diagnostic list" where
  "signal_width m s =
     (case module_signal m s of
        None \<Rightarrow> (None, [mdiag m ''E_SIGNAL_SCOPE'' ''signal does not belong to this module''])
      | Some si \<Rightarrow> (Some (si_width si), []))"

definition signal_type :: "rmodule \<Rightarrow> signal \<Rightarrow> type_result" where
  "signal_type m s =
     (case module_signal m s of
        None \<Rightarrow> (None, [mdiag m ''E_SIGNAL_SCOPE'' ''signal does not belong to this module''])
      | Some si \<Rightarrow> (Some (si_ty si), []))"

definition same_type :: "rmodule \<Rightarrow> type_result \<Rightarrow> type_result \<Rightarrow> type_result" where
  "same_type m l r =
     (case (fst l, fst r) of
        (Some lt, Some rt) \<Rightarrow>
          if lt = rt then (Some lt, snd l @ snd r)
          else (None, snd l @ snd r @
                 [mdiag m ''E_EXPR_TYPE'' (''expression type mismatch: '' @ debug_bit_type lt
                    @ '' vs '' @ debug_bit_type rt)])
      | _ \<Rightarrow> (None, snd l @ snd r))"

definition same_numeric_type :: "rmodule \<Rightarrow> type_result \<Rightarrow> type_result \<Rightarrow> type_result" where
  "same_numeric_type m l r =
     (case (fst l, fst r) of
        (Some lt, Some rt) \<Rightarrow>
          if lt = rt then (Some lt, snd l @ snd r)
          else if bt_width lt = bt_width rt
          then (None, snd l @ snd r @
                 [mdiag m ''E_SIGNED_MIX'' (''mixed signedness requires an explicit cast: ''
                    @ debug_bit_type lt @ '' vs '' @ debug_bit_type rt)])
          else (None, snd l @ snd r @
                 [mdiag m ''E_EXPR_TYPE'' (''expression type mismatch: '' @ debug_bit_type lt
                    @ '' vs '' @ debug_bit_type rt)])
      | _ \<Rightarrow> (None, snd l @ snd r))"

text \<open>\<open>validate_extend_width\<close> is given the result of checking the operand, which the code
  computes only when the target width is not zero.\<close>

definition validate_extend_width ::
  "rmodule \<Rightarrow> type_result \<Rightarrow> width \<Rightarrow> string \<Rightarrow> string \<Rightarrow> unit option \<times> diagnostic list" where
  "validate_extend_width m r w zero_code width_code =
     (if w = 0
      then (None, [mdiag m zero_code ''extension width must be greater than zero''])
      else (Some (), snd r @
        (case fst r of
           Some ity \<Rightarrow>
             if w < bt_width ity
             then [mdiag m width_code
                    (''extension target width must be at least source width: target is ''
                     @ show_nat w @ '' bits, source is '' @ show_nat (bt_width ity) @ '' bits'')]
             else []
         | None \<Rightarrow> [])))"

fun expr_type :: "rmodule \<Rightarrow> expr \<Rightarrow> type_result" where
  "expr_type m (Lit v ty) =
     (if bt_width ty = 0
      then (None, [mdiag m ''E_LIT_WIDTH_ZERO'' ''literal width must be greater than zero''])
      else (Some ty,
        if fits_type v ty then []
        else [mdiag m ''E_LIT_VALUE_WIDTH'' (''literal value '' @ show_int (sint v)
                @ '' does not fit in '' @ debug_bit_type ty)]))"
| "expr_type m (Sig s) = signal_type m s"
| "expr_type m (ENot e) = expr_type m e"
| "expr_type m (EAnd l r) = same_type m (expr_type m l) (expr_type m r)"
| "expr_type m (EOr l r) = same_type m (expr_type m l) (expr_type m r)"
| "expr_type m (EXor l r) = same_type m (expr_type m l) (expr_type m r)"
| "expr_type m (EAdd l r) = same_numeric_type m (expr_type m l) (expr_type m r)"
| "expr_type m (ESub l r) = same_numeric_type m (expr_type m l) (expr_type m r)"
| "expr_type m (EMul l r) = same_numeric_type m (expr_type m l) (expr_type m r)"
| "expr_type m (EEq l r) =
     (Some (uint_ty 1), snd (same_numeric_type m (expr_type m l) (expr_type m r)))"
| "expr_type m (ENe l r) =
     (Some (uint_ty 1), snd (same_numeric_type m (expr_type m l) (expr_type m r)))"
| "expr_type m (ELt l r) =
     (Some (uint_ty 1), snd (same_numeric_type m (expr_type m l) (expr_type m r)))"
| "expr_type m (EMux c t e) =
     (let rc = expr_type m c;
          dc = (case fst rc of
                  Some ty \<Rightarrow>
                    if ty = uint_ty 1 then []
                    else [mdiag m ''E_MUX_COND_WIDTH''
                           (''mux condition must be unsigned 1 bit, found '' @ debug_bit_type ty)]
                | None \<Rightarrow> []);
          rb = same_type m (expr_type m t) (expr_type m e)
      in (fst rb, snd rc @ dc @ snd rb))"
| "expr_type m (ESlice e lsb w) =
     (if w = 0
      then (None, [mdiag m ''E_SLICE_WIDTH_ZERO'' ''slice width must be greater than zero''])
      else let r = expr_type m e
           in (Some (uint_ty w), snd r @
                (case fst r of
                   Some ity \<Rightarrow>
                     if bt_width ity < lsb + w
                     then [mdiag m ''E_SLICE_RANGE''
                            (''slice ['' @ show_nat (lsb + w - 1) @ '':'' @ show_nat lsb
                             @ ''] exceeds '' @ show_nat (bt_width ity) @ ''-bit expression'')]
                     else []
                 | None \<Rightarrow> [])))"
| "expr_type m (EZext e w) =
     (case validate_extend_width m (expr_type m e) w ''E_ZEXT_WIDTH_ZERO'' ''E_ZEXT_WIDTH'' of
        (None, ds) \<Rightarrow> (None, ds) | (Some _, ds) \<Rightarrow> (Some (uint_ty w), ds))"
| "expr_type m (ESext e w) =
     (case validate_extend_width m (expr_type m e) w ''E_SEXT_WIDTH_ZERO'' ''E_SEXT_WIDTH'' of
        (None, ds) \<Rightarrow> (None, ds) | (Some _, ds) \<Rightarrow> (Some (sint_ty w), ds))"
| "expr_type m (ETrunc e w) =
     (if w = 0
      then (None, [mdiag m ''E_TRUNC_WIDTH_ZERO'' ''trunc width must be greater than zero''])
      else case expr_type m e of
        (None, ds) \<Rightarrow> (None, ds)
      | (Some ity, ds) \<Rightarrow>
          (Some (BitType w (bt_signedness ity)), ds @
             (if bt_width ity < w
              then [mdiag m ''E_TRUNC_WIDTH''
                     (''trunc target width must be no greater than source width: target is ''
                      @ show_nat w @ '' bits, source is '' @ show_nat (bt_width ity) @ '' bits'')]
              else [])))"
| "expr_type m (ECast e sg) =
     (case expr_type m e of
        (None, ds) \<Rightarrow> (None, ds) | (Some ity, ds) \<Rightarrow> (Some (BitType (bt_width ity) sg), ds))"
| "expr_type m (EConcat ps) =
     (if ps = []
      then (None, [mdiag m ''E_CONCAT_EMPTY'' ''concat needs at least one part''])
      else let rs = map (expr_type m) ps
           in (Some (uint_ty (sum_list (map (\<lambda>r. case fst r of Some ty \<Rightarrow> bt_width ty | None \<Rightarrow> 0) rs))),
               concat (map snd rs)))"
| "expr_type m (EMemRead mem a) =
     (case module_signal m mem of
        None \<Rightarrow> (None, [mdiag m ''E_MEM_READ_TARGET'' ''memory read target is not in this module''])
      | Some info \<Rightarrow>
          (case si_kind info of
             KMem aw dw depth \<Rightarrow>
               (let r = expr_type m a
                in (Some (si_ty info), snd r @
                     (case fst r of
                        Some ty \<Rightarrow>
                          if ty = uint_ty aw then []
                          else [with_signal (mdiag m ''E_MEM_ADDR_WIDTH''
                                 (''memory read address type mismatch: memory address is ''
                                  @ debug_bit_type (uint_ty aw) @ '', expression is ''
                                  @ debug_bit_type ty)) (si_name info)]
                      | None \<Rightarrow> [])))
           | _ \<Rightarrow> (None, [with_signal (mdiag m ''E_MEM_READ_TARGET''
                            ''memory read target is not a memory'') (si_name info)])))"

definition expr_width :: "rmodule \<Rightarrow> expr \<Rightarrow> width option \<times> diagnostic list" where
  "expr_width m e = (map_option bt_width (fst (expr_type m e)), snd (expr_type m e))"

definition expr_type_no_diag :: "rmodule \<Rightarrow> expr \<Rightarrow> bit_type option" where
  "expr_type_no_diag m e = fst (expr_type m e)"

definition expr_width_no_diag :: "rmodule \<Rightarrow> expr \<Rightarrow> width option" where
  "expr_width_no_diag m e = fst (expr_width m e)"

section \<open>Signal dependencies of an expression\<close>

text \<open>\<open>collect_expr_signal_deps\<close> pushes onto a vector; the model returns what it pushes.
  A memory read depends on its address only: memories are state.\<close>

fun expr_signal_deps :: "expr \<Rightarrow> signal list" where
  "expr_signal_deps (Sig s) = [s]"
| "expr_signal_deps (Lit v ty) = []"
| "expr_signal_deps (ENot e) = expr_signal_deps e"
| "expr_signal_deps (ESlice e lsb w) = expr_signal_deps e"
| "expr_signal_deps (EZext e w) = expr_signal_deps e"
| "expr_signal_deps (ESext e w) = expr_signal_deps e"
| "expr_signal_deps (ETrunc e w) = expr_signal_deps e"
| "expr_signal_deps (ECast e sg) = expr_signal_deps e"
| "expr_signal_deps (EAnd l r) = expr_signal_deps l @ expr_signal_deps r"
| "expr_signal_deps (EOr l r) = expr_signal_deps l @ expr_signal_deps r"
| "expr_signal_deps (EXor l r) = expr_signal_deps l @ expr_signal_deps r"
| "expr_signal_deps (EAdd l r) = expr_signal_deps l @ expr_signal_deps r"
| "expr_signal_deps (ESub l r) = expr_signal_deps l @ expr_signal_deps r"
| "expr_signal_deps (EMul l r) = expr_signal_deps l @ expr_signal_deps r"
| "expr_signal_deps (EEq l r) = expr_signal_deps l @ expr_signal_deps r"
| "expr_signal_deps (ENe l r) = expr_signal_deps l @ expr_signal_deps r"
| "expr_signal_deps (ELt l r) = expr_signal_deps l @ expr_signal_deps r"
| "expr_signal_deps (EMux c t e) = expr_signal_deps c @ expr_signal_deps t @ expr_signal_deps e"
| "expr_signal_deps (EConcat ps) = concat (map expr_signal_deps ps)"
| "expr_signal_deps (EMemRead mem a) = expr_signal_deps a"

definition assignment_signal_deps :: "signal \<Rightarrow> expr \<Rightarrow> signal list" where
  "assignment_signal_deps dst e =
     (case e of
        EMux c t (Sig s) \<Rightarrow>
          if s = dst then expr_signal_deps c @ expr_signal_deps t else expr_signal_deps e
      | _ \<Rightarrow> expr_signal_deps e)"

section \<open>The typing relation\<close>

text \<open>The abstract specification of the checker: which expressions have which type.\<close>

inductive has_type :: "rmodule \<Rightarrow> expr \<Rightarrow> bit_type \<Rightarrow> bool" for m :: rmodule where
  T_Lit: "0 < bt_width ty \<Longrightarrow> fits_type v ty \<Longrightarrow> has_type m (Lit v ty) ty"
| T_Sig: "module_signal m s = Some si \<Longrightarrow> has_type m (Sig s) (si_ty si)"
| T_Not: "has_type m e ty \<Longrightarrow> has_type m (ENot e) ty"
| T_And: "has_type m l ty \<Longrightarrow> has_type m r ty \<Longrightarrow> has_type m (EAnd l r) ty"
| T_Or: "has_type m l ty \<Longrightarrow> has_type m r ty \<Longrightarrow> has_type m (EOr l r) ty"
| T_Xor: "has_type m l ty \<Longrightarrow> has_type m r ty \<Longrightarrow> has_type m (EXor l r) ty"
| T_Add: "has_type m l ty \<Longrightarrow> has_type m r ty \<Longrightarrow> has_type m (EAdd l r) ty"
| T_Sub: "has_type m l ty \<Longrightarrow> has_type m r ty \<Longrightarrow> has_type m (ESub l r) ty"
| T_Mul: "has_type m l ty \<Longrightarrow> has_type m r ty \<Longrightarrow> has_type m (EMul l r) ty"
| T_Eq: "has_type m l ty \<Longrightarrow> has_type m r ty \<Longrightarrow> has_type m (EEq l r) (uint_ty 1)"
| T_Ne: "has_type m l ty \<Longrightarrow> has_type m r ty \<Longrightarrow> has_type m (ENe l r) (uint_ty 1)"
| T_Lt: "has_type m l ty \<Longrightarrow> has_type m r ty \<Longrightarrow> has_type m (ELt l r) (uint_ty 1)"
| T_Mux: "has_type m c (uint_ty 1) \<Longrightarrow> has_type m t ty \<Longrightarrow> has_type m e ty \<Longrightarrow>
    has_type m (EMux c t e) ty"
| T_Slice: "has_type m e ty \<Longrightarrow> 0 < w \<Longrightarrow> lsb + w \<le> bt_width ty \<Longrightarrow>
    has_type m (ESlice e lsb w) (uint_ty w)"
| T_Zext: "has_type m e ty \<Longrightarrow> 0 < w \<Longrightarrow> bt_width ty \<le> w \<Longrightarrow> has_type m (EZext e w) (uint_ty w)"
| T_Sext: "has_type m e ty \<Longrightarrow> 0 < w \<Longrightarrow> bt_width ty \<le> w \<Longrightarrow> has_type m (ESext e w) (sint_ty w)"
| T_Trunc: "has_type m e ty \<Longrightarrow> 0 < w \<Longrightarrow> w \<le> bt_width ty \<Longrightarrow>
    has_type m (ETrunc e w) (BitType w (bt_signedness ty))"
| T_Cast: "has_type m e ty \<Longrightarrow> has_type m (ECast e sg) (BitType (bt_width ty) sg)"
| T_Concat: "list_all2 (has_type m) ps tys \<Longrightarrow> ps \<noteq> [] \<Longrightarrow>
    has_type m (EConcat ps) (uint_ty (sum_list (map bt_width tys)))"
| T_MemRead: "module_signal m mem = Some info \<Longrightarrow> si_kind info = KMem aw dw depth \<Longrightarrow>
    has_type m a (uint_ty aw) \<Longrightarrow> has_type m (EMemRead mem a) (si_ty info)"

inductive_cases has_type_LitE: "has_type m (Lit v ty) ty'"
inductive_cases has_type_SigE: "has_type m (Sig s) ty"
inductive_cases has_type_NotE: "has_type m (ENot e) ty"
inductive_cases has_type_AndE: "has_type m (EAnd l r) ty"
inductive_cases has_type_OrE: "has_type m (EOr l r) ty"
inductive_cases has_type_XorE: "has_type m (EXor l r) ty"
inductive_cases has_type_AddE: "has_type m (EAdd l r) ty"
inductive_cases has_type_SubE: "has_type m (ESub l r) ty"
inductive_cases has_type_MulE: "has_type m (EMul l r) ty"
inductive_cases has_type_EqE: "has_type m (EEq l r) ty"
inductive_cases has_type_NeE: "has_type m (ENe l r) ty"
inductive_cases has_type_LtE: "has_type m (ELt l r) ty"
inductive_cases has_type_MuxE: "has_type m (EMux c t e) ty"
inductive_cases has_type_SliceE: "has_type m (ESlice e lsb w) ty"
inductive_cases has_type_ZextE: "has_type m (EZext e w) ty"
inductive_cases has_type_SextE: "has_type m (ESext e w) ty"
inductive_cases has_type_TruncE: "has_type m (ETrunc e w) ty"
inductive_cases has_type_CastE: "has_type m (ECast e sg) ty"
inductive_cases has_type_ConcatE: "has_type m (EConcat ps) ty"
inductive_cases has_type_MemReadE: "has_type m (EMemRead mem a) ty"

lemmas has_type_elims = has_type_LitE has_type_SigE has_type_NotE has_type_AndE has_type_OrE
  has_type_XorE has_type_AddE has_type_SubE has_type_MulE has_type_EqE has_type_NeE has_type_LtE
  has_type_MuxE has_type_SliceE has_type_ZextE has_type_SextE has_type_TruncE has_type_CastE
  has_type_ConcatE has_type_MemReadE

text \<open>No type is inferred without a reason: a missing type comes with a diagnostic.\<close>

lemma same_type_None: "fst (same_type m l r) = None \<Longrightarrow> (fst l = None \<Longrightarrow> snd l \<noteq> []) \<Longrightarrow>
  (fst r = None \<Longrightarrow> snd r \<noteq> []) \<Longrightarrow> snd (same_type m l r) \<noteq> []"
  by (auto simp: same_type_def split: option.splits if_splits)

lemma same_numeric_type_None: "fst (same_numeric_type m l r) = None \<Longrightarrow>
  (fst l = None \<Longrightarrow> snd l \<noteq> []) \<Longrightarrow> (fst r = None \<Longrightarrow> snd r \<noteq> []) \<Longrightarrow>
  snd (same_numeric_type m l r) \<noteq> []"
  by (auto simp: same_numeric_type_def split: option.splits if_splits)

lemma validate_extend_width_None:
  "fst (validate_extend_width m r w zc wc) = None \<Longrightarrow> snd (validate_extend_width m r w zc wc) \<noteq> []"
  by (auto simp: validate_extend_width_def split: if_splits)

lemma expr_type_None_diag: "fst (expr_type m e) = None \<Longrightarrow> snd (expr_type m e) \<noteq> []"
proof (induction e)
  case (Sig s)
  then show ?case by (auto simp: signal_type_def split: option.splits)
next
  case (EMux c t e)
  then show ?case by (auto simp: Let_def dest!: same_type_None)
next
  case (EZext e w)
  then show ?case
    using validate_extend_width_None
      [of m "expr_type m e" w "''E_ZEXT_WIDTH_ZERO''" "''E_ZEXT_WIDTH''"]
    by (auto split: prod.splits option.splits)
next
  case (ESext e w)
  then show ?case
    using validate_extend_width_None
      [of m "expr_type m e" w "''E_SEXT_WIDTH_ZERO''" "''E_SEXT_WIDTH''"]
    by (auto split: prod.splits option.splits)
qed (auto simp: Let_def same_type_None same_numeric_type_None
      split: if_splits option.splits prod.splits signal_kind.splits)

lemma same_type_ok: "same_type m l r = (Some ty, []) \<longleftrightarrow> l = (Some ty, []) \<and> r = (Some ty, [])"
  by (cases l; cases r) (auto simp: same_type_def split: option.splits if_splits)

lemma same_numeric_type_ok:
  "same_numeric_type m l r = (Some ty, []) \<longleftrightarrow> l = (Some ty, []) \<and> r = (Some ty, [])"
  by (cases l; cases r) (auto simp: same_numeric_type_def split: option.splits if_splits)

lemma same_numeric_type_quiet:
  assumes "snd (same_numeric_type m (expr_type m l) (expr_type m r)) = []"
  shows "\<exists>ty. expr_type m l = (Some ty, []) \<and> expr_type m r = (Some ty, [])"
proof -
  have "fst (same_numeric_type m (expr_type m l) (expr_type m r)) \<noteq> None"
    using assms same_numeric_type_None expr_type_None_diag by metis
  then obtain ty where "same_numeric_type m (expr_type m l) (expr_type m r) = (Some ty, [])"
    using assms by (metis not_None_eq prod.collapse)
  then show ?thesis by (auto simp: same_numeric_type_ok)
qed

lemma validate_extend_width_ok:
  "validate_extend_width m r w zc wc = (Some (), []) \<longleftrightarrow>
     0 < w \<and> snd r = [] \<and> (\<forall>ty. fst r = Some ty \<longrightarrow> bt_width ty \<le> w)"
  by (auto simp: validate_extend_width_def split: option.splits)

text \<open>Where the checker is silent the operand has a type.\<close>

lemma expr_type_quiet: "snd (expr_type m e) = [] \<Longrightarrow> \<exists>ty. expr_type m e = (Some ty, [])"
  by (metis expr_type_None_diag not_None_eq prod.collapse)

lemma map_expr_type_quiet:
  assumes "\<And>p ty. p \<in> set ps \<Longrightarrow> expr_type m p = (Some ty, []) \<Longrightarrow> has_type m p ty"
    and "concat (map (\<lambda>p. snd (expr_type m p)) ps) = []"
  shows "\<exists>tys. list_all2 (has_type m) ps tys
      \<and> map (\<lambda>p. case fst (expr_type m p) of Some ty \<Rightarrow> bt_width ty | None \<Rightarrow> 0) ps = map bt_width tys"
  using assms
proof (induction ps)
  case (Cons p ps)
  then obtain tys where tys: "list_all2 (has_type m) ps tys"
    "map (\<lambda>p. case fst (expr_type m p) of Some ty \<Rightarrow> bt_width ty | None \<Rightarrow> 0) ps = map bt_width tys"
    by auto
  from Cons.prems(2) obtain ty where ty: "expr_type m p = (Some ty, [])"
    using expr_type_quiet by fastforce
  with Cons.prems(1) have "has_type m p ty" by simp
  with tys ty show ?case by (intro exI [of _ "ty # tys"]) simp
qed simp

lemma expr_type_sound: "expr_type m e = (Some ty, []) \<Longrightarrow> has_type m e ty"
proof (induction e arbitrary: ty)
  case (Sig s)
  then show ?case by (auto simp: signal_type_def split: option.splits intro: T_Sig)
next
  case (EMux c t e)
  from EMux.prems have c: "snd (expr_type m c) = []"
    and "same_type m (expr_type m t) (expr_type m e) = (Some ty, [])"
    by (auto simp: Let_def prod_eq_iff)
  then have b: "expr_type m t = (Some ty, [])" "expr_type m e = (Some ty, [])"
    by (simp_all add: same_type_ok)
  moreover have "fst (expr_type m c) = Some (uint_ty 1)"
    using EMux.prems expr_type_None_diag [of m c] by (auto simp: Let_def split: option.splits if_splits)
  ultimately show ?case
    using EMux.IH b c by (intro T_Mux) (auto simp: prod_eq_iff)
next
  case (ESlice e lsb w)
  then obtain ity where "expr_type m e = (Some ity, [])"
    using expr_type_quiet [of m e] by (auto simp: Let_def split: if_splits)
  with ESlice show ?case by (auto simp: Let_def split: if_splits intro: T_Slice)
next
  case (EZext e w)
  then have "validate_extend_width m (expr_type m e) w ''E_ZEXT_WIDTH_ZERO'' ''E_ZEXT_WIDTH'' = (Some (), [])"
    by (auto split: prod.splits option.splits)
  then have *: "0 < w" "snd (expr_type m e) = []" "\<forall>ty. fst (expr_type m e) = Some ty \<longrightarrow> bt_width ty \<le> w"
    by (simp_all add: validate_extend_width_ok)
  then obtain ity where "expr_type m e = (Some ity, [])" using expr_type_quiet by blast
  with * EZext show ?case
    by (auto split: prod.splits option.splits intro: T_Zext)
next
  case (ESext e w)
  then have "validate_extend_width m (expr_type m e) w ''E_SEXT_WIDTH_ZERO'' ''E_SEXT_WIDTH'' = (Some (), [])"
    by (auto split: prod.splits option.splits)
  then have *: "0 < w" "snd (expr_type m e) = []" "\<forall>ty. fst (expr_type m e) = Some ty \<longrightarrow> bt_width ty \<le> w"
    by (simp_all add: validate_extend_width_ok)
  then obtain ity where "expr_type m e = (Some ity, [])" using expr_type_quiet by blast
  with * ESext show ?case
    by (auto split: prod.splits option.splits intro: T_Sext)
next
  case (EConcat ps)
  then have "concat (map (\<lambda>p. snd (expr_type m p)) ps) = []" "ps \<noteq> []"
    by (auto simp: Let_def comp_def split: if_splits)
  with EConcat.IH obtain tys where tys: "list_all2 (has_type m) ps tys"
    "map (\<lambda>p. case fst (expr_type m p) of Some ty \<Rightarrow> bt_width ty | None \<Rightarrow> 0) ps = map bt_width tys"
    using map_expr_type_quiet by blast
  with EConcat.prems \<open>ps \<noteq> []\<close> have "ty = uint_ty (sum_list (map bt_width tys))"
    by (simp add: Let_def comp_def split: if_splits)
  with tys(1) \<open>ps \<noteq> []\<close> show ?case by (auto intro: T_Concat)
next
  case (EMemRead mem a)
  then obtain info aw dw depth where info: "module_signal m mem = Some info"
    "si_kind info = KMem aw dw depth" "ty = si_ty info" "snd (expr_type m a) = []"
    by (auto simp: Let_def split: option.splits signal_kind.splits)
  then obtain aty where a: "expr_type m a = (Some aty, [])" using expr_type_quiet by blast
  with EMemRead.prems info have "aty = uint_ty aw" by (auto simp: Let_def split: if_splits)
  with a EMemRead.IH info show ?case by (auto intro: T_MemRead)
qed (auto simp: same_type_ok same_numeric_type_ok simp del: One_nat_def
      split: if_splits prod.splits option.splits
      dest!: same_numeric_type_quiet intro: has_type.intros)

lemma expr_type_complete: "has_type m e ty \<Longrightarrow> expr_type m e = (Some ty, [])"
proof (induction rule: has_type.induct)
  case (T_Concat ps tys)
  have "map (\<lambda>p. case fst (expr_type m p) of Some ty \<Rightarrow> bt_width ty | None \<Rightarrow> 0) ps = map bt_width tys
      \<and> concat (map (\<lambda>p. snd (expr_type m p)) ps) = []"
    using T_Concat(1) by (induction rule: list_all2_induct) auto
  with T_Concat(2) show ?case by (simp add: Let_def comp_def)
qed (auto simp: signal_type_def same_type_def same_numeric_type_def Let_def
      validate_extend_width_def split: prod.splits)

lemma expr_type_iff_has_type: "expr_type m e = (Some ty, []) \<longleftrightarrow> has_type m e ty"
  using expr_type_sound expr_type_complete by blast

lemma has_type_unique: "has_type m e ty \<Longrightarrow> has_type m e ty' \<Longrightarrow> ty = ty'"
  by (simp flip: expr_type_iff_has_type)

lemma expr_type_no_diag_typed [simp]: "has_type m e ty \<Longrightarrow> expr_type_no_diag m e = Some ty"
  by (simp add: expr_type_no_diag_def expr_type_complete)

lemma expr_width_no_diag_typed [simp]: "has_type m e ty \<Longrightarrow> expr_width_no_diag m e = Some (bt_width ty)"
  by (simp add: expr_width_no_diag_def expr_width_def expr_type_complete)

end
