(* ===== verification/Limbs.thy ===== *)
theory Limbs
  imports Expr_Type
begin

text \<open>
  The limb arithmetic of the packed simulator (rrtl-sim-ir): a value of any width is a vector of
  32-bit limbs, least significant first, with the unused bits of the last limb zero.  The value
  of a vector is the integer \<open>lval\<close>; each operation is shown to be the integer operation
  modulo the width.
\<close>

section \<open>The operations\<close>

definition limbs :: "nat \<Rightarrow> nat" where
  "limbs width = max ((width + 31) div 32) 1"

definition final_limb_mask :: "nat \<Rightarrow> u32" where
  "final_limb_mask width =
     (let rem = width mod 32 in if rem = 0 then - 1 else push_bit rem 1 - 1)"

text \<open>\<open>Vec::resize\<close>, \<open>Vec::truncate\<close> and \<open>last_mut\<close>.\<close>

definition vec_resize :: "nat \<Rightarrow> 'a \<Rightarrow> 'a list \<Rightarrow> 'a list" where
  "vec_resize n x xs = take n xs @ replicate (n - length xs) x"

definition mask_last :: "nat \<Rightarrow> u32 list \<Rightarrow> u32 list" where
  "mask_last width xs =
     (if xs = [] then [] else butlast xs @ [last xs AND final_limb_mask width])"

definition mask_to_width :: "u32 list \<Rightarrow> nat \<Rightarrow> u32 list" where
  "mask_to_width xs width = mask_last width (vec_resize (limbs width) 0 (take (limbs width) xs))"

definition fit_limbs :: "u32 list \<Rightarrow> bit_type \<Rightarrow> u32 list" where
  "fit_limbs xs ty = mask_to_width (vec_resize (limbs (bt_width ty)) 0 xs) (bt_width ty)"

fun encode_loop :: "nat \<Rightarrow> u128 \<Rightarrow> u32 list" where
  "encode_loop 0 encoded = []"
| "encode_loop (Suc n) encoded = ucast encoded # encode_loop n (drop_bit 32 encoded)"

definition encode_limbs :: "i128 \<Rightarrow> bit_type \<Rightarrow> u32 list" where
  "encode_limbs v ty = mask_last (bt_width ty) (encode_loop (limbs (bt_width ty)) v)"

definition encode_u128_limbs :: "u128 \<Rightarrow> bit_type \<Rightarrow> u32 list" where
  "encode_u128_limbs v ty = mask_to_width (encode_loop (limbs (bt_width ty)) v) (bt_width ty)"

fun decode_loop :: "nat \<Rightarrow> u32 list \<Rightarrow> 'a::len word" where
  "decode_loop i [] = 0"
| "decode_loop i (x # xs) = push_bit (i * 32) (ucast x) OR decode_loop (Suc i) xs"

definition decode_u128_limbs :: "u32 list \<Rightarrow> u128" where
  "decode_u128_limbs xs = decode_loop 0 (take 4 xs)"

definition decode_usize :: "u32 list \<Rightarrow> nat" where
  "decode_usize xs =
     (if list_ex (\<lambda>limb. limb \<noteq> 0) (drop 2 xs) then 2 ^ 64 - 1
      else unat (decode_loop 0 (take 2 xs) :: u64))"

definition decode_bool :: "u32 list \<Rightarrow> bool" where
  "decode_bool xs \<longleftrightarrow> (case xs of [] \<Rightarrow> 0 | x # _ \<Rightarrow> x) AND 1 \<noteq> (0 :: u32)"

definition encode_bool :: "bool \<Rightarrow> u32 list" where
  "encode_bool b = [of_bool b]"

definition bit_not :: "u32 list \<Rightarrow> bit_type \<Rightarrow> u32 list" where
  "bit_not xs ty = fit_limbs (map (\<lambda>x. NOT x) (vec_resize (limbs (bt_width ty)) 0 xs)) ty"

definition bit_binop :: "(u32 \<Rightarrow> u32 \<Rightarrow> u32) \<Rightarrow> u32 list \<Rightarrow> u32 list \<Rightarrow> bit_type \<Rightarrow> u32 list" where
  "bit_binop f xs ys ty =
     (let n = limbs (bt_width ty)
      in mask_to_width (map2 f (vec_resize n 0 xs) (vec_resize n 0 ys)) (bt_width ty))"

fun add_loop :: "u64 \<Rightarrow> u32 list \<Rightarrow> u32 list \<Rightarrow> u32 list" where
  "add_loop carry (x # xs) (y # ys) =
     (let total = ucast x + ucast y + carry
      in ucast total # add_loop (drop_bit 32 total) xs ys)"
| "add_loop carry _ _ = []"

definition add_limbs :: "u32 list \<Rightarrow> u32 list \<Rightarrow> bit_type \<Rightarrow> u32 list" where
  "add_limbs xs ys ty =
     (let n = limbs (bt_width ty)
      in mask_to_width (add_loop 0 (vec_resize n 0 xs) (vec_resize n 0 ys)) (bt_width ty))"

fun sub_loop :: "u64 \<Rightarrow> u32 list \<Rightarrow> u32 list \<Rightarrow> u32 list" where
  "sub_loop borrow (x # xs) (y # ys) =
     (let subtrahend = ucast y + borrow; lhs_word = ucast x
      in ucast (lhs_word - subtrahend) # sub_loop (of_bool (lhs_word < subtrahend)) xs ys)"
| "sub_loop borrow _ _ = []"

definition sub_limbs :: "u32 list \<Rightarrow> u32 list \<Rightarrow> bit_type \<Rightarrow> u32 list" where
  "sub_limbs xs ys ty =
     (let n = limbs (bt_width ty)
      in mask_to_width (sub_loop 0 (vec_resize n 0 xs) (vec_resize n 0 ys)) (bt_width ty))"

text \<open>The columns of the schoolbook product, and the carry pass over them, in \<open>u128\<close>.\<close>

definition mul_step :: "u32 list \<Rightarrow> u32 list \<Rightarrow> nat \<times> nat \<Rightarrow> u128 list \<Rightarrow> u128 list" where
  "mul_step xs ys = (\<lambda>(i, j) accum.
     if i + j < length accum
     then accum[i + j := accum ! (i + j) + ucast (xs ! i) * ucast (ys ! j)] else accum)"

fun carry_loop :: "u128 \<Rightarrow> u128 list \<Rightarrow> u32 list" where
  "carry_loop carry [] = []"
| "carry_loop carry (a # as) =
     (let w = a + carry in ucast w # carry_loop (drop_bit 32 w) as)"

definition mul_limbs :: "u32 list \<Rightarrow> u32 list \<Rightarrow> bit_type \<Rightarrow> u32 list" where
  "mul_limbs xs ys ty =
     (let n = limbs (bt_width ty);
          accum = fold (mul_step (vec_resize n 0 xs) (vec_resize n 0 ys))
                    (List.product [0..<n] [0..<n]) (replicate (n * 2) 0)
      in mask_to_width (carry_loop 0 (take n accum)) (bt_width ty))"

definition eq_values :: "u32 list \<Rightarrow> u32 list \<Rightarrow> nat \<Rightarrow> bool" where
  "eq_values xs ys width \<longleftrightarrow>
     mask_to_width (vec_resize (limbs width) 0 xs) width = mask_to_width (vec_resize (limbs width) 0 ys) width"

definition get_bit :: "u32 list \<Rightarrow> nat \<Rightarrow> bool" where
  "get_bit xs b \<longleftrightarrow> b div 32 < length xs \<and> xs ! (b div 32) AND push_bit (b mod 32) 1 \<noteq> 0"

definition set_limb_bit :: "nat \<Rightarrow> u32 list \<Rightarrow> u32 list" where
  "set_limb_bit b xs =
     (let i = b div 32; ys = (if length xs \<le> i then vec_resize (i + 1) 0 xs else xs)
      in ys[i := ys ! i OR push_bit (b mod 32) 1])"

text \<open>Comparison from the last limb down, over the reversed vectors.\<close>

fun lt_loop :: "u32 list \<Rightarrow> u32 list \<Rightarrow> bool" where
  "lt_loop (x # xs) (y # ys) = (if x \<noteq> y then x < y else lt_loop xs ys)"
| "lt_loop _ _ = False"

text \<open>\<open>width - 1\<close> panics at width zero: \<open>None\<close>.\<close>

definition lt_values :: "u32 list \<Rightarrow> u32 list \<Rightarrow> nat \<Rightarrow> bool \<Rightarrow> bool option" where
  "lt_values xs ys width signd =
     (let lhs = mask_to_width (vec_resize (limbs width) 0 xs) width;
          rhs = mask_to_width (vec_resize (limbs width) 0 ys) width
      in if signd then
           (if width = 0 then None
            else if get_bit lhs (width - 1) \<noteq> get_bit rhs (width - 1) then Some (get_bit lhs (width - 1))
            else Some (lt_loop (rev lhs) (rev rhs)))
         else Some (lt_loop (rev lhs) (rev rhs)))"

definition slice_limbs :: "u32 list \<Rightarrow> nat \<Rightarrow> bit_type \<Rightarrow> u32 list" where
  "slice_limbs xs lsb ty =
     mask_to_width (fold (\<lambda>b out. if get_bit xs (lsb + b) then set_limb_bit b out else out)
       [0..<bt_width ty] (replicate (limbs (bt_width ty)) 0)) (bt_width ty)"

definition sext_limbs :: "u32 list \<Rightarrow> nat \<Rightarrow> bit_type \<Rightarrow> u32 list option" where
  "sext_limbs xs input_width ty =
     (if input_width = 0 then None
      else let sign = get_bit xs (input_width - 1);
               out = vec_resize (limbs (bt_width ty)) (if sign then - 1 else 0)
                       (fit_limbs xs (BitType input_width Unsigned));
               out' = (if sign then fold set_limb_bit [input_width..<bt_width ty] out else out)
           in Some (mask_to_width out' (bt_width ty)))"

fun concat_limb_loop :: "nat \<Rightarrow> (u32 list \<times> nat) list \<Rightarrow> u32 list \<Rightarrow> u32 list" where
  "concat_limb_loop offset [] out = out"
| "concat_limb_loop offset ((xs, width) # ps) out =
     concat_limb_loop (offset + width) ps
       (fold (\<lambda>b out. if get_bit xs b then set_limb_bit (offset + b) out else out) [0..<width] out)"

definition concat_limbs :: "(u32 list \<times> nat) list \<Rightarrow> bit_type \<Rightarrow> u32 list" where
  "concat_limbs parts ty =
     mask_to_width (concat_limb_loop 0 (rev parts) (replicate (limbs (bt_width ty)) 0)) (bt_width ty)"

section \<open>The value of a limb vector\<close>

definition lval :: "u32 list \<Rightarrow> int" where
  "lval xs = horner_sum uint (2 ^ 32) xs"

lemma lval_simps [simp]:
  "lval [] = 0" "lval (x # xs) = uint x + 2 ^ 32 * lval xs"
  by (simp_all add: lval_def)

lemma bit_lval: "bit (lval xs) n \<longleftrightarrow> n div 32 < length xs \<and> bit (xs ! (n div 32)) (n mod 32)"
  using bit_horner_sum_uint_exp_iff [where 'a = 32] by (simp add: lval_def)

lemma lval_nonneg: "0 \<le> lval xs"
  by (induction xs) simp_all

lemma lval_less: "lval xs < 2 ^ (32 * length xs)"
proof (induction xs)
  case (Cons x xs)
  have "uint x < 2 ^ 32" using uint_lt2p [of x] by simp
  with Cons have "uint x + 2 ^ 32 * lval xs < 2 ^ 32 + 2 ^ 32 * (2 ^ (32 * length xs) - 1)" by auto
  then show ?case by (simp add: power_add algebra_simps)
qed simp

lemma take_bit_lval: "32 * length xs \<le> n \<Longrightarrow> take_bit n (lval xs) = lval xs"
  using lval_less [of xs] lval_nonneg [of xs]
  by (intro take_bit_int_eq_self) (auto elim: less_le_trans)

lemma get_bit_iff: "get_bit xs b \<longleftrightarrow> bit (lval xs) b"
  by (simp add: get_bit_def bit_lval and_push_bit_1_eq_0_iff del: push_bit_of_1)

section \<open>Widths\<close>

lemma limbs_pos: "0 < limbs w"
  by (simp add: limbs_def)

lemma limbs_bound: "w \<le> 32 * limbs w"
  unfolding limbs_def max_def by presburger

lemma limbs_div: "0 < w \<Longrightarrow> n div 32 < limbs w \<longleftrightarrow> n < 32 * limbs w"
  by auto

lemma limbs_last: "0 < w \<Longrightarrow> limbs w - 1 = (w - 1) div 32"
  by (auto simp: limbs_def max_def)

lemma length_vec_resize [simp]: "length (vec_resize n x xs) = n"
  by (simp add: vec_resize_def)

lemma length_mask_last [simp]: "length (mask_last w xs) = length xs"
  by (cases xs rule: rev_cases) (simp_all add: mask_last_def)

lemma length_mask_to_width [simp]: "length (mask_to_width xs w) = limbs w"
  by (simp add: mask_to_width_def)

lemma length_fit_limbs [simp]: "length (fit_limbs xs ty) = limbs (bt_width ty)"
  by (simp add: fit_limbs_def)

lemma lval_replicate [simp]: "lval (replicate n 0) = 0"
  by (induction n) simp_all

lemma bit_final_limb_mask:
  "n < 32 \<Longrightarrow> bit (final_limb_mask w) n \<longleftrightarrow> w mod 32 = 0 \<or> n < w mod 32"
  by (simp add: final_limb_mask_def Let_def push_bit_1_minus_1 bit_mask_iff del: push_bit_of_1)

lemma bit_lval_resize: "bit (lval (vec_resize n 0 xs)) b \<longleftrightarrow> b < 32 * n \<and> bit (lval xs) b"
  by (auto simp: bit_lval vec_resize_def nth_append)

lemma lval_resize: "lval (vec_resize n 0 xs) = take_bit (32 * n) (lval xs)"
  by (rule bit_eqI) (simp add: bit_lval_resize bit_take_bit_iff)

text \<open>The position of a bit relative to the last limb.\<close>

lemma last_limb_bits:
  fixes n w :: nat
  assumes "0 < w"
  shows "n div 32 < (w - 1) div 32 \<Longrightarrow> n < w"
    and "n div 32 = (w - 1) div 32 \<Longrightarrow> w mod 32 = 0 \<or> n mod 32 < w mod 32 \<longleftrightarrow> n < w"
    and "(w - 1) div 32 < n div 32 \<Longrightarrow> \<not> n < w"
proof -
  define q r p s where "q = (w - 1) div 32" "r = (w - 1) mod 32" "p = n div 32" "s = n mod 32"
  then have w: "w = 32 * q + Suc r" "r < 32" and n: "n = 32 * p + s" "s < 32"
    using assms by simp_all
  have m: "w mod 32 = (if r = 31 then 0 else Suc r)"
  proof (cases "r = 31")
    case False
    with w(2) have "Suc r < 32" by simp
    with False show ?thesis by (simp add: w(1) del: mult_Suc_right)
  qed (simp add: w(1))
  show "n div 32 < (w - 1) div 32 \<Longrightarrow> n < w" "(w - 1) div 32 < n div 32 \<Longrightarrow> \<not> n < w"
    unfolding q_r_p_s_def(1,3) [symmetric] using w n by linarith+
  show "n div 32 = (w - 1) div 32 \<Longrightarrow> w mod 32 = 0 \<or> n mod 32 < w mod 32 \<longleftrightarrow> n < w"
    unfolding q_r_p_s_def(1,3,4) [symmetric] m using w n by (auto split: if_splits)
qed

lemma lval_mask_last:
  assumes "length xs = limbs w" "0 < w"
  shows "lval (mask_last w xs) = take_bit w (lval xs)"
proof (rule bit_eqI)
  fix n
  obtain ys y where xs: "xs = ys @ [y]" using assms limbs_pos [of w] by (cases xs rule: rev_cases) auto
  then have len: "length ys = (w - 1) div 32" using assms limbs_last [of w] by simp
  note pos = last_limb_bits [OF assms(2), of n]
  have bits: "bit (lval (mask_last w xs)) n \<longleftrightarrow>
      n div 32 < length xs \<and> bit (xs ! (n div 32)) (n mod 32) \<and>
      (n div 32 = length ys \<longrightarrow> w mod 32 = 0 \<or> n mod 32 < w mod 32)"
    by (auto simp: xs mask_last_def bit_lval nth_append bit_and_iff bit_final_limb_mask)
  have "bit (lval xs) n \<longleftrightarrow> n div 32 \<le> length ys \<and> bit (xs ! (n div 32)) (n mod 32)"
    by (auto simp: bit_lval xs)
  then show "bit (lval (mask_last w xs)) n \<longleftrightarrow> bit (take_bit w (lval xs)) n"
    using pos unfolding bits bit_take_bit_iff len by (auto simp: xs len)
qed

lemma lval_mask_to_width [limb_simps]: "0 < w \<Longrightarrow> lval (mask_to_width xs w) = take_bit w (lval xs)"
proof -
  assume w: "0 < w"
  have "vec_resize (limbs w) 0 (take (limbs w) xs) = vec_resize (limbs w) 0 xs"
    by (simp add: vec_resize_def)
  with w show ?thesis
    using limbs_bound [of w] by (simp add: mask_to_width_def lval_mask_last lval_resize min_absorb1)
qed

lemma lval_fit_limbs [limb_simps]:
  "0 < bt_width ty \<Longrightarrow> lval (fit_limbs xs ty) = take_bit (bt_width ty) (lval xs)"
  using limbs_bound [of "bt_width ty"] by (simp add: fit_limbs_def lval_mask_to_width lval_resize min_absorb1)

text \<open>Vectors of the same length with the same value are equal.\<close>

lemma radix_inject:
  fixes a b c d K :: int
  assumes "0 \<le> a" "a < K" "0 \<le> b" "b < K"
  shows "a + K * c = b + K * d \<longleftrightarrow> a = b \<and> c = d"
proof
  assume eq: "a + K * c = b + K * d"
  have "a = (a + K * c) mod K" "b = (b + K * d) mod K" using assms by simp_all
  with eq have "a = b" by simp
  with eq assms show "a = b \<and> c = d" by simp
qed simp

lemma lval_inject: "length xs = length ys \<Longrightarrow> lval xs = lval ys \<longleftrightarrow> xs = ys"
proof (induction xs ys rule: list_induct2)
  case (Cons x xs y ys)
  with radix_inject [of "uint x" "2 ^ 32" "uint y"] show ?case
    using uint_lt2p [of x] uint_lt2p [of y] by (simp add: word_uint_eq_iff)
qed simp

section \<open>Addition and subtraction\<close>

lemma take_bit_radix:
  "take_bit (32 + n) (a + 2 ^ 32 * b) = a mod 2 ^ 32 + 2 ^ 32 * take_bit n (a div 2 ^ 32 + b :: int)"
proof -
  have "(a + 2 ^ 32 * b) mod (2 ^ 32 * 2 ^ n) =
      2 ^ 32 * ((a + 2 ^ 32 * b) div 2 ^ 32 mod 2 ^ n) + (a + 2 ^ 32 * b) mod 2 ^ 32"
    by (rule zmod_zmult2_eq) simp
  then show ?thesis by (simp add: take_bit_eq_mod power_add mult.commute add.commute)
qed

lemma uint_drop_bit: "uint (drop_bit n w :: 'a::len word) = uint w div 2 ^ n"
  by (simp only: unsigned_drop_bit_eq) (simp add: drop_bit_eq_div unsigned_take_bit_eq [symmetric] take_bit_word_ge)

lemma uint_nonneg: "0 \<le> uint (x :: 'a::len word)"
  by simp

lemma uint_limb [simp]: "uint (ucast (x :: u32) :: u64) = uint x" "uint (ucast x :: u128) = uint x"
  by (simp_all add: uint_up_ucast is_up)

lemma lval_add_loop:
  assumes "length xs = length ys" "uint c \<le> 1"
  shows "lval (add_loop c xs ys) = take_bit (32 * length xs) (lval xs + lval ys + uint c)"
  using assms
proof (induction xs ys arbitrary: c rule: list_induct2)
  case (Cons x xs y ys)
  let ?t = "ucast x + ucast y + c :: u64"
  have t: "uint ?t = uint x + uint y + uint c"
    using Cons.prems uint_lt2p [of x] uint_lt2p [of y] by (simp add: uint_word_ariths uint_up_ucast is_up)
  have low: "uint (ucast ?t :: u32) = uint ?t mod 2 ^ 32" by (simp add: unsigned_ucast_eq take_bit_eq_mod)
  have high: "uint (drop_bit 32 ?t) = uint ?t div 2 ^ 32" by (rule uint_drop_bit)
  have carry: "uint (drop_bit 32 ?t) \<le> 1"
    unfolding high using t Cons.prems uint_lt2p [of x] uint_lt2p [of y] by simp
  have "lval (add_loop c (x # xs) (y # ys)) =
      uint ?t mod 2 ^ 32 + 2 ^ 32 * lval (add_loop (drop_bit 32 ?t) xs ys)"
    by (simp only: add_loop.simps Let_def lval_simps low)
  also have "\<dots> = uint ?t mod 2 ^ 32 + 2 ^ 32 * take_bit (32 * length xs) (uint ?t div 2 ^ 32 + (lval xs + lval ys))"
    using Cons.IH [OF carry] by (simp only: high add.commute [of "lval xs + lval ys"])
  also have "\<dots> = take_bit (32 + 32 * length xs) (uint ?t + 2 ^ 32 * (lval xs + lval ys))"
    by (rule take_bit_radix [symmetric])
  also have "uint ?t + 2 ^ 32 * (lval xs + lval ys) = lval (x # xs) + lval (y # ys) + uint c"
    unfolding t by (simp add: algebra_simps)
  finally show ?case by simp
qed simp

lemma lval_sub_loop:
  assumes "length xs = length ys" "uint b \<le> 1"
  shows "lval (sub_loop b xs ys) = take_bit (32 * length xs) (lval xs - lval ys - uint b)"
  using assms
proof (induction xs ys arbitrary: b rule: list_induct2)
  case (Cons x xs y ys)
  let ?s = "ucast y + b :: u64" and ?a = "uint x - uint y - uint b"
  have s: "uint ?s = uint y + uint b"
    using Cons.prems uint_lt2p [of y] by (simp add: uint_word_ariths uint_up_ucast is_up)
  have "uint (ucast x - ?s) = (uint x - uint ?s) mod 2 ^ 64"
    by (simp only: uint_word_ariths(2) uint_limb) simp
  then have low: "uint (ucast (ucast x - ?s) :: u32) = ?a mod 2 ^ 32"
    by (simp add: unsigned_ucast_eq take_bit_eq_mod mod_mod_cancel s del: uint_limb) (simp add: algebra_simps)
  have high: "uint (of_bool (ucast x < ?s) :: u64) = - (?a div 2 ^ 32)"
  proof (cases "uint x < uint ?s")
    case True
    then have "?a div 2 ^ 32 = - 1"
      using uint_lt2p [of y] uint_nonneg [of x] Cons.prems s
      by (intro int_div_pos_eq [of _ _ _ "?a + 2 ^ 32"]) (simp_all del: zero_le_numeral uint_nonneg unsigned_greater_eq)
    with True show ?thesis by (simp add: word_less_def)
  next
    case False
    have "uint x < 2 ^ 32" using uint_lt2p [of x] by simp
    with False have "?a div 2 ^ 32 = 0"
      using uint_nonneg [of y] uint_nonneg [of b] s by (intro div_pos_pos_trivial) linarith+
    with False show ?thesis by (simp add: word_less_def)
  qed
  have borrow: "uint (of_bool (ucast x < ?s) :: u64) \<le> 1" by (cases "ucast x < ?s") simp_all
  have "lval (sub_loop b (x # xs) (y # ys)) =
      ?a mod 2 ^ 32 + 2 ^ 32 * lval (sub_loop (of_bool (ucast x < ?s)) xs ys)"
    by (simp only: sub_loop.simps Let_def lval_simps low)
  also have "\<dots> = ?a mod 2 ^ 32 + 2 ^ 32 * take_bit (32 * length xs) (?a div 2 ^ 32 + (lval xs - lval ys))"
    by (simp only: Cons.IH [OF borrow] high) (simp add: algebra_simps)
  also have "\<dots> = take_bit (32 + 32 * length xs) (?a + 2 ^ 32 * (lval xs - lval ys))"
    by (rule take_bit_radix [symmetric])
  also have "?a + 2 ^ 32 * (lval xs - lval ys) = lval (x # xs) - lval (y # ys) - uint b"
    by (simp add: algebra_simps)
  finally show ?case by simp
qed simp

lemma length_add_loop [simp]: "length xs = length ys \<Longrightarrow> length (add_loop c xs ys) = length xs"
  by (induction xs ys arbitrary: c rule: list_induct2) (simp_all add: Let_def)

lemma length_sub_loop [simp]: "length xs = length ys \<Longrightarrow> length (sub_loop b xs ys) = length xs"
  by (induction xs ys arbitrary: b rule: list_induct2) (simp_all add: Let_def)

lemma lval_add_limbs [limb_simps]:
  assumes "0 < bt_width ty"
  shows "lval (add_limbs xs ys ty) = take_bit (bt_width ty) (lval xs + lval ys)"
proof -
  let ?w = "bt_width ty" and ?n = "32 * limbs (bt_width ty)"
  have "lval (add_limbs xs ys ty) = take_bit ?w (take_bit ?n (take_bit ?n (lval xs) + take_bit ?n (lval ys)))"
    using assms by (simp only: add_limbs_def Let_def lval_mask_to_width lval_resize lval_add_loop length_vec_resize)
      (simp add: lval_add_loop lval_resize)
  then show ?thesis using limbs_bound [of ?w] by (simp add: take_bit_add min_absorb1)
qed

lemma lval_sub_limbs [limb_simps]:
  assumes "0 < bt_width ty"
  shows "lval (sub_limbs xs ys ty) = take_bit (bt_width ty) (lval xs - lval ys)"
proof -
  let ?w = "bt_width ty" and ?n = "32 * limbs (bt_width ty)"
  have "lval (sub_limbs xs ys ty) = take_bit ?w (take_bit ?n (take_bit ?n (lval xs) - take_bit ?n (lval ys)))"
    using assms by (simp add: sub_limbs_def Let_def lval_mask_to_width lval_resize lval_sub_loop)
  then show ?thesis using limbs_bound [of ?w] by (simp add: take_bit_diff min_absorb1)
qed

section \<open>Multiplication\<close>

text \<open>The value of the columns, and their common bound: no column overflows.\<close>

definition cval :: "u128 list \<Rightarrow> int" where
  "cval acc = horner_sum uint (2 ^ 32) acc"

lemma cval_simps [simp]: "cval [] = 0" "cval (a # as) = uint a + 2 ^ 32 * cval as"
  by (simp_all add: cval_def)

lemma cval_update:
  "k < length acc \<Longrightarrow> cval (acc[k := v]) = cval acc + 2 ^ (32 * k) * (uint v - uint (acc ! k))"
proof (induction acc arbitrary: k)
  case (Cons a acc)
  show ?case
  proof (cases k)
    case (Suc k')
    with Cons show ?thesis by (simp add: right_diff_distrib distrib_left power_add)
  qed simp
qed simp

definition columns_below :: "int \<Rightarrow> u128 list \<Rightarrow> bool" where
  "columns_below b acc \<longleftrightarrow> (\<forall>a \<in> set acc. uint a \<le> b)"

lemma limb_product: "uint (ucast (x :: u32) * ucast (y :: u32) :: u128) = uint x * uint y"
  and limb_product_bound: "uint (x :: u32) * uint (y :: u32) \<le> 2 ^ 64 - 1"
proof -
  have "uint x * uint y \<le> (2 ^ 32 - 1) * (2 ^ 32 - 1)"
    using uint_lt2p [of x] uint_lt2p [of y] by (intro mult_mono) simp_all
  then show bound: "uint x * uint y \<le> 2 ^ 64 - 1" by simp
  have "uint (ucast x * ucast y :: u128) = uint x * uint y mod 2 ^ 128"
    by (simp only: uint_word_ariths(3) uint_limb) simp
  with bound show "uint (ucast x * ucast y :: u128) = uint x * uint y" by (simp add: mod_pos_pos_trivial)
qed

lemma mul_step_value:
  assumes "columns_below b acc" "b + 2 ^ 64 < 2 ^ 128" "i + j < length acc"
  shows "cval (mul_step xs ys (i, j) acc) = cval acc + 2 ^ (32 * (i + j)) * (uint (xs ! i) * uint (ys ! j))
    \<and> columns_below (b + 2 ^ 64) (mul_step xs ys (i, j) acc)
    \<and> length (mul_step xs ys (i, j) acc) = length acc"
proof -
  let ?v = "acc ! (i + j) + ucast (xs ! i) * ucast (ys ! j)"
  have col: "uint (acc ! (i + j)) \<le> b" using assms(1,3) by (simp add: columns_below_def)
  have "uint ?v = (uint (acc ! (i + j)) + uint (xs ! i) * uint (ys ! j)) mod 2 ^ 128"
    by (simp only: uint_word_ariths(1) limb_product) simp
  also have "\<dots> = uint (acc ! (i + j)) + uint (xs ! i) * uint (ys ! j)"
    using col assms(2) limb_product_bound [of "xs ! i" "ys ! j"] by (intro mod_pos_pos_trivial) simp_all
  finally have v: "uint ?v = uint (acc ! (i + j)) + uint (xs ! i) * uint (ys ! j)" .
  have "uint ?v \<le> b + 2 ^ 64" using v col limb_product_bound [of "xs ! i" "ys ! j"] by simp
  moreover have "columns_below (b + 2 ^ 64) acc" using assms(1) by (fastforce simp: columns_below_def)
  ultimately have "columns_below (b + 2 ^ 64) (acc[i + j := ?v])"
    using set_update_subset_insert [of acc "i + j" ?v] by (auto simp: columns_below_def)
  with assms(3) v show ?thesis by (simp add: mul_step_def cval_update)
qed

lemma mul_fold_value:
  assumes "columns_below b acc" "b + int (length ps) * 2 ^ 64 < 2 ^ 128"
    "\<forall>(i, j) \<in> set ps. i + j < length acc"
  shows "cval (fold (mul_step xs ys) ps acc) =
      cval acc + (\<Sum>(i, j) \<leftarrow> ps. 2 ^ (32 * (i + j)) * (uint (xs ! i) * uint (ys ! j)))
    \<and> columns_below (b + int (length ps) * 2 ^ 64) (fold (mul_step xs ys) ps acc)
    \<and> length (fold (mul_step xs ys) ps acc) = length acc"
  using assms
proof (induction ps arbitrary: b acc)
  case (Cons p ps)
  obtain i j where p: "p = (i, j)" by (cases p)
  have "b + 2 ^ 64 < 2 ^ 128" using Cons.prems(2) by (simp add: algebra_simps)
  note step = mul_step_value [OF Cons.prems(1) this, of i j xs ys]
  have ij: "i + j < length acc" using Cons.prems(3) by (simp add: p)
  have "b + 2 ^ 64 + int (length ps) * 2 ^ 64 < 2 ^ 128" using Cons.prems(2) by (simp add: algebra_simps)
  with Cons.IH [of "b + 2 ^ 64" "mul_step xs ys (i, j) acc"] Cons.prems(3) step [OF ij]
  show ?case by (simp add: p algebra_simps)
qed simp

lemma sum_list_product:
  "(\<Sum>(i, j) \<leftarrow> List.product is js. f i * g j) = (\<Sum>i \<leftarrow> is. f i) * (\<Sum>j \<leftarrow> js. (g j :: int))"
  by (induction "is") (simp_all add: algebra_simps sum_list_const_mult comp_def)

lemma lval_sum: "(\<Sum>i \<leftarrow> [0..<length xs]. 2 ^ (32 * i) * uint (xs ! i)) = lval xs"
proof -
  have "2 ^ (32 * i) = (2 ^ 32 :: int) ^ i" for i by (simp only: power_mult)
  then show ?thesis
    by (simp only: lval_def horner_sum_eq_sum) (simp add: sum_list_sum_nth mult.commute)
qed

lemma lval_carry_loop:
  assumes "columns_below b acc" "b < 2 ^ 127" "uint c < 2 ^ 96"
  shows "lval (carry_loop c acc) = take_bit (32 * length acc) (cval acc + uint c)"
  using assms
proof (induction acc arbitrary: c)
  case (Cons a as)
  have a: "uint a \<le> b" and as: "columns_below b as" using Cons.prems(1) by (simp_all add: columns_below_def)
  have "uint (a + c) = (uint a + uint c) mod 2 ^ 128" by (simp only: uint_word_ariths(1)) simp
  also have "\<dots> = uint a + uint c"
    using a Cons.prems(2,3) by (intro mod_pos_pos_trivial) simp_all
  finally have w: "uint (a + c) = uint a + uint c" .
  have low: "uint (ucast (a + c) :: u32) = uint (a + c) mod 2 ^ 32" by (simp add: unsigned_ucast_eq take_bit_eq_mod)
  have high: "uint (drop_bit 32 (a + c)) = uint (a + c) div 2 ^ 32" by (rule uint_drop_bit)
  have "uint (a + c) < 2 ^ 96 * 2 ^ 32" using w a Cons.prems(2,3) by simp
  then have "uint (a + c) div 2 ^ 32 \<le> (2 ^ 96 * 2 ^ 32 - 1) div 2 ^ 32" by (intro zdiv_mono1) simp_all
  then have carry: "uint (drop_bit 32 (a + c)) < 2 ^ 96" unfolding high by simp
  have "lval (carry_loop c (a # as)) =
      uint (a + c) mod 2 ^ 32 + 2 ^ 32 * lval (carry_loop (drop_bit 32 (a + c)) as)"
    by (simp only: carry_loop.simps Let_def lval_simps low)
  also have "\<dots> = uint (a + c) mod 2 ^ 32 + 2 ^ 32 * take_bit (32 * length as) (uint (a + c) div 2 ^ 32 + cval as)"
    using Cons.IH [OF as Cons.prems(2) carry] by (simp only: high add.commute [of "cval as"])
  also have "\<dots> = take_bit (32 + 32 * length as) (uint (a + c) + 2 ^ 32 * cval as)"
    by (rule take_bit_radix [symmetric])
  also have "uint (a + c) + 2 ^ 32 * cval as = cval (a # as) + uint c" unfolding w by simp
  finally show ?case by simp
qed simp

lemma cval_take: "n \<le> length acc \<Longrightarrow> take_bit (32 * n) (cval (take n acc)) = take_bit (32 * n) (cval acc)"
proof -
  assume n: "n \<le> length acc"
  have "cval acc = cval (take n acc) + (2 ^ 32) ^ n * cval (drop n acc)"
    using horner_sum_append [of uint "2 ^ 32" "take n acc" "drop n acc"] n by (simp add: cval_def min_absorb2)
  then show ?thesis by (simp add: take_bit_eq_mod power_mult)
qed

lemma limbs_square: "w < 2 ^ 32 \<Longrightarrow> int (limbs w * limbs w) * 2 ^ 64 < 2 ^ 127"
proof -
  assume "w < 2 ^ 32"
  then have "(w + 31) div 32 \<le> (2 ^ 32 + 31) div 32" by (intro div_le_mono) simp
  then have "int (limbs w) \<le> 2 ^ 27" by (simp add: limbs_def)
  then have "int (limbs w) * int (limbs w) \<le> 2 ^ 27 * 2 ^ 27" by (intro mult_mono) simp_all
  then show ?thesis by simp
qed

lemma lval_mul_loop:
  assumes len: "length xs = n" "length ys = n" and bound: "int (n * n) * 2 ^ 64 < 2 ^ 127"
  shows "lval (carry_loop 0 (take n (fold (mul_step xs ys) (List.product [0..<n] [0..<n]) (replicate (n * 2) 0))))
    = take_bit (32 * n) (lval xs * lval ys)"
proof -
  let ?ps = "List.product [0..<n] [0..<n]"
  let ?acc = "fold (mul_step xs ys) ?ps (replicate (n * 2) 0)"
  have "cval (replicate k 0) = 0" for k by (induction k) simp_all
  moreover have "columns_below 0 (replicate (n * 2) 0)" by (simp add: columns_below_def)
  moreover have "\<forall>(i, j) \<in> set ?ps. i + j < length (replicate (n * 2) (0 :: u128))" by auto
  ultimately have acc: "cval ?acc = (\<Sum>(i, j) \<leftarrow> ?ps. 2 ^ (32 * (i + j)) * (uint (xs ! i) * uint (ys ! j)))"
    "columns_below (int (n * n) * 2 ^ 64) ?acc" "length ?acc = n * 2"
    using mul_fold_value [of 0 "replicate (n * 2) 0" ?ps xs ys] bound by (simp_all add: length_product)
  have "cval ?acc = (\<Sum>(i, j) \<leftarrow> ?ps. (2 ^ (32 * i) * uint (xs ! i)) * (2 ^ (32 * j) * uint (ys ! j)))"
    unfolding acc(1) by (rule arg_cong [of _ _ sum_list]) (auto simp: power_add distrib_left)
  also have "\<dots> = lval xs * lval ys"
    unfolding sum_list_product using lval_sum [of xs] lval_sum [of ys] by (simp add: len)
  finally have prod: "cval ?acc = lval xs * lval ys" .
  have "columns_below (int (n * n) * 2 ^ 64) (take n ?acc)"
    using acc(2) by (auto simp: columns_below_def dest: in_set_takeD)
  from lval_carry_loop [OF this bound, of 0] show ?thesis
    using cval_take [of n ?acc] prod acc(3) by (simp add: min_absorb2)
qed

lemma lval_mul_limbs [limb_simps]:
  assumes "0 < bt_width ty" "bt_width ty < 2 ^ 32"
  shows "lval (mul_limbs xs ys ty) = take_bit (bt_width ty) (lval xs * lval ys)"
proof -
  let ?w = "bt_width ty" and ?n = "32 * limbs (bt_width ty)"
  have "lval (mul_limbs xs ys ty) = take_bit ?w (take_bit ?n (take_bit ?n (lval xs) * take_bit ?n (lval ys)))"
    using assms(1) lval_mul_loop [OF length_vec_resize length_vec_resize limbs_square [OF assms(2)]]
    by (simp only: mul_limbs_def Let_def lval_mask_to_width lval_resize)
  then show ?thesis using limbs_bound [of ?w] by (simp add: take_bit_mult min_absorb1)
qed

section \<open>Comparison\<close>

lemma mask_resize_value:
  "0 < w \<Longrightarrow> lval (mask_to_width (vec_resize (limbs w) 0 xs) w) = take_bit w (lval xs)"
  using limbs_bound [of w] by (simp add: lval_mask_to_width lval_resize min_absorb1)

lemma eq_values_iff [limb_simps]:
  "0 < w \<Longrightarrow> eq_values xs ys w \<longleftrightarrow> take_bit w (lval xs) = take_bit w (lval ys)"
  unfolding eq_values_def by (subst lval_inject [symmetric]) (simp_all add: mask_resize_value)

lemma radix_less:
  fixes a b c d K :: int
  assumes "0 \<le> a" "a < K" "0 \<le> b" "b < K" "c \<noteq> d"
  shows "a + K * c < b + K * d \<longleftrightarrow> c < d"
proof -
  have "x + K * z < y + K * u" if "z < u" "x < K" "0 \<le> y" for x y z u
  proof -
    have "K * z + K \<le> K * u" using that assms(1,2) mult_left_mono [of "z + 1" u K] by (simp add: distrib_left)
    with that show ?thesis by linarith
  qed
  from this [of c d a b] this [of d c b a] assms show ?thesis by linarith
qed

lemma lval_snoc: "lval (xs @ [x]) = lval xs + 2 ^ (32 * length xs) * uint x"
  using horner_sum_append [of uint "2 ^ 32" xs "[x]"] by (simp add: lval_def power_mult)

lemma lt_loop_iff:
  "length xs = length ys \<Longrightarrow> lt_loop (rev xs) (rev ys) \<longleftrightarrow> lval xs < lval ys"
proof (induction xs arbitrary: ys rule: rev_induct)
  case (snoc x xs)
  obtain ys' y where ys: "ys = ys' @ [y]" using snoc.prems by (cases ys rule: rev_cases) auto
  have len: "length xs = length ys'" using snoc.prems ys by simp
  show ?case
  proof (cases "x = y")
    case True
    with snoc.IH [OF len] len ys show ?thesis by (simp add: lval_snoc)
  next
    case False
    with radix_less [OF lval_nonneg lval_less lval_nonneg, of ys' xs "uint x" "uint y"]
      lval_less [of ys'] len ys
    show ?thesis by (simp add: lval_snoc word_less_def word_uint_eq_iff)
  qed
qed simp

lemma signed_less_iff:
  fixes a b :: int
  shows "signed_take_bit n a < signed_take_bit n b \<longleftrightarrow>
    (if bit a n \<noteq> bit b n then bit a n else take_bit (Suc n) a < take_bit (Suc n) b)"
proof -
  have eq: "signed_take_bit n c = take_bit (Suc n) c - of_bool (bit c n) * 2 ^ Suc n" for c :: int
    by (simp add: signed_take_bit_eq_take_bit_minus)
  have "take_bit (Suc n) c < 2 ^ Suc n + take_bit (Suc n) d" for c d :: int
    using take_bit_int_less_exp [of "Suc n" c] by (rule less_le_trans) simp
  from this [of a b] this [of b a] show ?thesis
    by (cases "bit a n"; cases "bit b n") (simp_all add: eq algebra_simps)
qed

lemma lt_values_iff [limb_simps]:
  assumes "0 < w"
  shows "lt_values xs ys w signd = Some (if signd
    then signed_take_bit (w - 1) (lval xs) < signed_take_bit (w - 1) (lval ys)
    else take_bit w (lval xs) < take_bit w (lval ys))"
proof -
  have sign: "get_bit (mask_to_width (vec_resize (limbs w) 0 zs) w) (w - 1) \<longleftrightarrow> bit (lval zs) (w - 1)" for zs
    using assms by (simp add: get_bit_iff mask_resize_value bit_take_bit_iff)
  have less: "lt_loop (rev (mask_to_width (vec_resize (limbs w) 0 xs) w)) (rev (mask_to_width (vec_resize (limbs w) 0 ys) w))
      \<longleftrightarrow> take_bit w (lval xs) < take_bit w (lval ys)"
    using assms by (simp add: lt_loop_iff mask_resize_value)
  show ?thesis
    using assms by (simp add: lt_values_def Let_def sign less signed_less_iff [of "w - 1"] del: One_nat_def)
qed

section \<open>Bitwise operations, slices, extension and concatenation\<close>

lemma bit_map2_limbs:
  assumes "length xs = length ys" "\<And>x y. (\<And>n. n < 32 \<Longrightarrow> bit (f x y) n \<longleftrightarrow> g (bit x n) (bit y n))"
  shows "n < 32 * length xs \<Longrightarrow> bit (lval (map2 f xs ys)) n \<longleftrightarrow> g (bit (lval xs) n) (bit (lval ys) n)"
proof -
  assume "n < 32 * length xs"
  then have "n div 32 < length ys" using assms(1) by auto
  with assms show ?thesis by (simp add: bit_lval)
qed

lemma bit_binop_value:
  assumes "0 < bt_width ty" "\<And>x y n. n < 32 \<Longrightarrow> bit (f x y) n \<longleftrightarrow> g (bit x n) (bit y n)"
  shows "bit (lval (bit_binop f xs ys ty)) n \<longleftrightarrow> n < bt_width ty \<and> g (bit (lval xs) n) (bit (lval ys) n)"
proof (cases "n < bt_width ty")
  case True
  then have "n < 32 * limbs (bt_width ty)" using limbs_bound less_le_trans by blast
  with True assms bit_map2_limbs [of "vec_resize (limbs (bt_width ty)) 0 xs" "vec_resize (limbs (bt_width ty)) 0 ys" f g n]
  show ?thesis by (simp add: bit_binop_def Let_def lval_mask_to_width bit_take_bit_iff bit_lval_resize)
qed (use assms(1) in \<open>simp add: bit_binop_def Let_def lval_mask_to_width bit_take_bit_iff\<close>)

lemma lval_bitwise [limb_simps]:
  assumes "0 < bt_width ty"
  shows "lval (bit_binop (AND) xs ys ty) = take_bit (bt_width ty) (lval xs AND lval ys)"
    and "lval (bit_binop (OR) xs ys ty) = take_bit (bt_width ty) (lval xs OR lval ys)"
    and "lval (bit_binop (XOR) xs ys ty) = take_bit (bt_width ty) (lval xs XOR lval ys)"
  using bit_binop_value [OF assms, where f = "(AND)" and g = "(\<and>)"]
    bit_binop_value [OF assms, where f = "(OR)" and g = "(\<or>)"]
    bit_binop_value [OF assms, where f = "(XOR)" and g = "(\<noteq>)"]
  by (auto simp: bit_eq_iff bit_simps)

lemma lval_bit_not [limb_simps]:
  assumes "0 < bt_width ty"
  shows "lval (bit_not xs ty) = take_bit (bt_width ty) (NOT (lval xs))"
proof (rule bit_eqI)
  fix n
  have "n < bt_width ty \<Longrightarrow> n < 32 * limbs (bt_width ty)" using limbs_bound less_le_trans by blast
  then show "bit (lval (bit_not xs ty)) n \<longleftrightarrow> bit (take_bit (bt_width ty) (NOT (lval xs))) n"
    using assms bit_lval_resize [of "limbs (bt_width ty)" xs n]
    by (auto simp: bit_not_def lval_fit_limbs bit_simps bit_lval)
qed

lemma bit_set_limb_bit: "bit (lval (set_limb_bit b xs)) n \<longleftrightarrow> n = b \<or> bit (lval xs) n"
proof -
  have eq: "n = b \<longleftrightarrow> n div 32 = b div 32 \<and> n mod 32 = b mod 32"
    by (metis mult_div_mod_eq)
  show ?thesis
    by (cases "n div 32 = b div 32")
       (auto simp: set_limb_bit_def Let_def bit_lval vec_resize_def nth_append eq nth_list_update
          bit_or_iff bit_push_bit_iff bit_1_iff simp del: push_bit_of_1)
qed

lemma bit_fold_set:
  "bit (lval (fold (\<lambda>b out. if P b then set_limb_bit (f b) out else out) bs xs)) n \<longleftrightarrow>
    (\<exists>b \<in> set bs. P b \<and> f b = n) \<or> bit (lval xs) n"
  by (induction bs arbitrary: xs) (auto simp: bit_set_limb_bit)

lemma lval_slice_limbs [limb_simps]:
  assumes "0 < bt_width ty"
  shows "lval (slice_limbs xs lsb ty) = take_bit (bt_width ty) (drop_bit lsb (lval xs))"
  using assms bit_fold_set [where f = "\<lambda>b. b" and P = "\<lambda>b. get_bit xs (lsb + b)"]
  by (intro bit_eqI) (auto simp: slice_limbs_def lval_mask_to_width bit_simps get_bit_iff)

lemma bit_lval_resize_ones:
  "bit (lval (vec_resize n (- 1) xs)) b \<longleftrightarrow> b < 32 * n \<and> (32 * length xs \<le> b \<or> bit (lval xs) b)"
  by (auto simp: bit_lval vec_resize_def nth_append)

lemma lval_sext_limbs [limb_simps]:
  assumes "0 < bt_width ty" "0 < iw"
  shows "\<exists>out. sext_limbs xs iw ty = Some out \<and> length out = limbs (bt_width ty)
    \<and> lval out = take_bit (bt_width ty) (signed_take_bit (iw - 1) (lval xs))"
proof -
  let ?w = "bt_width ty" and ?fit = "fit_limbs xs (BitType iw Unsigned)"
  let ?sign = "bit (lval xs) (iw - 1)"
  have fit: "bit (lval ?fit) n \<longleftrightarrow> n < iw \<and> bit (lval xs) n" "length ?fit = limbs iw" for n
    using assms(2) by (simp_all add: lval_fit_limbs bit_take_bit_iff)
  let ?out = "vec_resize (limbs ?w) (if ?sign then - 1 else 0) ?fit"
  let ?out' = "if ?sign then fold set_limb_bit [iw..<?w] ?out else ?out"
  have set: "bit (lval (fold set_limb_bit bs ys)) n \<longleftrightarrow> n \<in> set bs \<or> bit (lval ys) n" for bs ys n
    by (induction bs arbitrary: ys) (auto simp: bit_set_limb_bit)
  have "bit (lval ?out') n \<longleftrightarrow> bit (signed_take_bit (iw - 1) (lval xs)) n" if "n < ?w" for n
  proof -
    have n: "n < 32 * limbs ?w" using that limbs_bound less_le_trans by blast
    have iw: "32 * limbs iw \<le> n \<Longrightarrow> iw \<le> n" using limbs_bound [of iw] by simp
    show ?thesis
      using that assms n iw
      by (auto simp: set fit bit_lval_resize bit_lval_resize_ones bit_signed_take_bit_iff min_def not_le
          dest: le_antisym)
  qed
  then have "lval (mask_to_width ?out' ?w) = take_bit ?w (signed_take_bit (iw - 1) (lval xs))"
    using assms(1) by (intro bit_eqI) (auto simp: lval_mask_to_width bit_take_bit_iff)
  with assms(2) show ?thesis
    by (intro exI [of _ "mask_to_width ?out' ?w"]) (simp add: sext_limbs_def Let_def get_bit_iff)
qed

text \<open>The parts of a concatenation from the least significant one up.\<close>

fun concat_value :: "(int \<times> nat) list \<Rightarrow> int" where
  "concat_value [] = 0"
| "concat_value ((v, w) # ps) = concat_bit w v (concat_value ps)"

lemma bit_concat_limb_loop:
  "bit (lval (concat_limb_loop offset ps out)) n \<longleftrightarrow>
    bit (lval out) n \<or> offset \<le> n \<and> bit (concat_value (map (map_prod lval id) ps)) (n - offset)"
proof (induction ps arbitrary: offset out)
  case (Cons p ps)
  obtain xs w where p: "p = (xs, w)" by (cases p)
  have "(\<exists>b \<in> set [0..<w]. get_bit xs b \<and> offset + b = n) \<longleftrightarrow>
      offset \<le> n \<and> n - offset < w \<and> bit (lval xs) (n - offset)"
    by (auto simp: get_bit_iff)
  then show ?case
    using Cons.IH [of "offset + w"] bit_fold_set [where P = "get_bit xs" and f = "\<lambda>b. offset + b" and bs = "[0..<w]" and xs = out]
    by (auto simp: p bit_concat_bit_iff)
qed simp

lemma lval_concat_limbs [limb_simps]:
  assumes "0 < bt_width ty"
  shows "lval (concat_limbs ps ty) = take_bit (bt_width ty) (concat_value (rev (map (map_prod lval id) ps)))"
  using assms by (intro bit_eqI)
    (simp add: concat_limbs_def lval_mask_to_width bit_take_bit_iff bit_concat_limb_loop rev_map)

lemma length_concat_etc [simp]:
  "length (concat_limbs ps ty) = limbs (bt_width ty)" "length (slice_limbs xs lsb ty) = limbs (bt_width ty)"
  "length (add_limbs xs ys ty) = limbs (bt_width ty)" "length (sub_limbs xs ys ty) = limbs (bt_width ty)"
  "length (mul_limbs xs ys ty) = limbs (bt_width ty)" "length (bit_binop f xs ys ty) = limbs (bt_width ty)"
  "length (bit_not xs ty) = limbs (bt_width ty)"
  by (simp_all add: concat_limbs_def slice_limbs_def add_limbs_def sub_limbs_def mul_limbs_def
      bit_binop_def bit_not_def Let_def)

section \<open>Encoding and decoding\<close>

lemma lval_encode_loop: "lval (encode_loop n v) = take_bit (32 * n) (uint v)"
proof (induction n arbitrary: v)
  case (Suc n)
  have low: "uint (ucast v :: u32) = uint v mod 2 ^ 32" by (simp add: unsigned_ucast_eq take_bit_eq_mod)
  have "lval (encode_loop (Suc n) v) = uint v mod 2 ^ 32 + 2 ^ 32 * take_bit (32 * n) (uint v div 2 ^ 32)"
    by (simp only: encode_loop.simps lval_simps low Suc.IH uint_drop_bit)
  also have "\<dots> = take_bit (32 + 32 * n) (uint v)"
    using take_bit_radix [of "32 * n" "uint v" 0] by simp
  finally show ?case by simp
qed simp

lemma length_encode_loop [simp]: "length (encode_loop n v) = n"
  by (induction n arbitrary: v) simp_all

lemma lval_encode_limbs [limb_simps]:
  "0 < bt_width ty \<Longrightarrow> lval (encode_limbs v ty) = take_bit (bt_width ty) (uint v)"
  using limbs_bound [of "bt_width ty"]
  by (simp add: encode_limbs_def lval_mask_last lval_encode_loop min_absorb1)

lemma lval_encode_u128_limbs [limb_simps]:
  "0 < bt_width ty \<Longrightarrow> lval (encode_u128_limbs v ty) = take_bit (bt_width ty) (uint v)"
  using limbs_bound [of "bt_width ty"]
  by (simp add: encode_u128_limbs_def lval_mask_to_width lval_encode_loop min_absorb1)

lemma length_encode [simp]:
  "length (encode_limbs v ty) = limbs (bt_width ty)" "length (encode_u128_limbs v ty) = limbs (bt_width ty)"
  by (simp_all add: encode_limbs_def encode_u128_limbs_def)

lemma bit_decode_loop:
  "bit (decode_loop i xs :: 'a::len word) n \<longleftrightarrow>
    n < LENGTH('a) \<and> i * 32 \<le> n \<and> bit (lval xs) (n - i * 32)"
proof (induction xs arbitrary: i)
  case (Cons x xs)
  have head: "bit (lval (x # xs)) k \<longleftrightarrow> (if k < 32 then bit x k else bit (lval xs) (k - 32))" for k
    by (cases "k < 32") (auto simp: bit_lval le_div_geq le_mod_geq nth_Cons' simp del: lval_simps)
  have shift: "Suc i * 32 \<le> n \<longleftrightarrow> i * 32 \<le> n \<and> \<not> n - i * 32 < 32" "n - Suc i * 32 = n - i * 32 - 32"
    by auto
  have "bit (decode_loop i (x # xs) :: 'a word) n \<longleftrightarrow> n < LENGTH('a) \<and>
      (i * 32 \<le> n \<and> bit x (n - i * 32) \<or> Suc i * 32 \<le> n \<and> bit (lval xs) (n - Suc i * 32))"
    using Cons.IH [of "Suc i"] by (auto simp: bit_or_iff bit_push_bit_iff bit_ucast_iff)
  then show ?case unfolding shift head using bit_imp_le_length [of x "n - i * 32"] by auto
qed simp

lemma uint_decode_loop: "uint (decode_loop 0 xs :: 'a::len word) = take_bit LENGTH('a) (lval xs)"
  by (rule bit_eqI) (auto simp: bit_simps bit_decode_loop)

lemma lval_take: "lval (take n xs) = take_bit (32 * n) (lval xs)"
  by (rule bit_eqI) (auto simp: bit_take_bit_iff bit_lval)

lemma uint_decode_u128 [limb_simps]: "uint (decode_u128_limbs xs) = take_bit 128 (lval xs)"
  by (simp add: decode_u128_limbs_def uint_decode_loop lval_take)

lemma lval_drop_0_iff: "lval xs = 0 \<longleftrightarrow> (\<forall>x \<in> set xs. x = 0)"
  using lval_nonneg by (induction xs) (auto simp: add_nonneg_eq_0_iff uint_0_iff)

lemma lval_take_drop: "lval xs = lval (take n xs) + 2 ^ (32 * n) * lval (drop n xs)"
proof (cases "n \<le> length xs")
  case True
  then show ?thesis
    using horner_sum_append [of uint "2 ^ 32" "take n xs" "drop n xs"]
    by (simp add: lval_def power_mult min_absorb2)
qed simp

lemma decode_usize_value [limb_simps]: "int (decode_usize xs) = min (lval xs) (2 ^ 64 - 1)"
proof (cases "lval (drop 2 xs) = 0")
  case True
  then have "lval xs = lval (take 2 xs)" using lval_take_drop [of xs 2] by simp
  moreover have "lval (take 2 xs) < 2 ^ 64"
    using take_bit_int_less_exp [of 64 "lval xs"] by (simp add: lval_take)
  moreover have "\<not> list_ex (\<lambda>limb. limb \<noteq> 0) (drop 2 xs)"
    using True by (simp add: lval_drop_0_iff list_ex_iff)
  ultimately show ?thesis
    by (simp add: decode_usize_def uint_decode_loop lval_take flip: uint_nat)
next
  case False
  then have "1 \<le> lval (drop 2 xs)" using lval_nonneg [of "drop 2 xs"] by linarith
  then have "2 ^ 64 \<le> lval xs" using lval_take_drop [of xs 2] lval_nonneg [of "take 2 xs"] by simp
  moreover have "list_ex (\<lambda>limb. limb \<noteq> 0) (drop 2 xs)"
    using False by (auto simp: lval_drop_0_iff list_ex_iff)
  ultimately show ?thesis by (simp add: decode_usize_def)
qed

lemma decode_usize_less:
  assumes "n < 2 ^ 64"
  shows "decode_usize xs < n \<longleftrightarrow> lval xs < int n" and "decode_usize xs < n \<Longrightarrow> int (decode_usize xs) = lval xs"
proof -
  have n: "int n < 2 ^ 64" using assms by simp
  have a: "int (decode_usize xs) = min (lval xs) (2 ^ 64 - 1)" by (rule decode_usize_value)
  have "decode_usize xs < n \<longleftrightarrow> int (decode_usize xs) < int n" by simp
  with a n show "decode_usize xs < n \<longleftrightarrow> lval xs < int n" by linarith
  show "int (decode_usize xs) = lval xs" if "decode_usize xs < n"
    using that a n by linarith
qed

lemma decode_bool_iff [limb_simps]: "decode_bool xs \<longleftrightarrow> odd (lval xs)"
proof -
  have "odd x \<longleftrightarrow> odd (uint x)" for x :: u32 using bit_uint_iff [of x 0] by (simp add: bit_0)
  then show ?thesis by (cases xs) (simp_all add: decode_bool_def and_one_eq flip: odd_iff_mod_2_eq_one)
qed

lemma lval_encode_bool [limb_simps]: "lval (encode_bool b) = of_bool b"
  by (simp add: encode_bool_def)

end
