(* ===== verification/Packed_Ir.thy ===== *)
theory Packed_Ir
  imports Limbs
begin

text \<open>
  The packed simulation IR (rrtl-sim-ir): signals and memories flattened to layouts of limbs,
  expressions with their types, and the machine form in which every expression node is one
  instruction over value numbers.  The node kinds of both are the same enumeration, over boxed
  expressions in \<open>PackedExprKind\<close> and over value numbers in \<open>PackedInstrKind\<close>: one datatype with
  the operands as its parameter.  The reference semantics of a node is an integer function.
\<close>

section \<open>Layouts, signals and memories\<close>

record packed_layout =
  pl_width :: nat
  pl_ty :: bit_type
  pl_offset :: nat
  pl_limbs :: nat

datatype packed_signal_kind = PkInput | PkOutput | PkWire | PkReg

record packed_signal =
  ps_name :: string
  ps_source :: "signal option"
  ps_owner_path :: string
  ps_layout :: packed_layout
  ps_kind :: packed_signal_kind

record packed_memory =
  pm_name :: string
  pm_source :: signal
  pm_owner_path :: string
  pm_addr_width :: nat
  pm_depth :: nat
  pm_data_layout :: packed_layout
  pm_offset :: nat

record packed_reset =
  pr_signal :: nat
  pr_value :: "u32 list"
  pr_kind :: reset_kind
  pr_polarity :: reset_polarity

section \<open>Expressions, operations and programs\<close>

datatype 'v packed_kind =
    PLit "u32 list"
  | PSignal nat
  | PNot 'v
  | PAnd 'v 'v
  | POr 'v 'v
  | PXor 'v 'v
  | PAdd 'v 'v
  | PSub 'v 'v
  | PMul 'v 'v
  | PEq 'v 'v
  | PNe 'v 'v
  | PLt 'v 'v bool
  | PMux 'v 'v 'v
  | PSlice 'v nat
  | PZext 'v
  | PSext 'v
  | PTrunc 'v
  | PCast 'v
  | PConcat "'v list"
  | PMemRead nat 'v

datatype packed_expr = PExpr (pe_kind: "packed_expr packed_kind") (pe_ty: bit_type)

definition pe_width :: "packed_expr \<Rightarrow> nat" where
  "pe_width e = bt_width (pe_ty e)"

datatype packed_op =
    Assign nat packed_expr
  | CaptureReg nat packed_expr "packed_reset option"
  | MemoryWrite nat packed_expr packed_expr packed_expr

type_synonym packed_packet = "packed_op list"

record packed_streams =
  st_async_reset_comb :: "packed_packet list"
  st_comb :: "packed_packet list"
  st_tick_next :: "packed_packet list"
  st_tick_commit :: "packed_packet list"

record packed_program =
  pp_top :: string
  pp_signals :: "packed_signal list"
  pp_memories :: "packed_memory list"
  pp_streams :: packed_streams
  pp_top_signal_indices :: "signal \<rightharpoonup> nat"
  pp_total_signal_words :: nat
  pp_total_memory_words_per_lane :: nat
  pp_reg_clocks :: "nat \<rightharpoonup> nat"
  pp_mem_clocks :: "nat \<rightharpoonup> nat"

definition pp_signal_index :: "packed_program \<Rightarrow> signal \<rightharpoonup> nat" where
  "pp_signal_index p s = pp_top_signal_indices p s"

section \<open>The machine form\<close>

type_synonym value_id = nat

record packed_instr =
  in_dst :: value_id
  in_ty :: bit_type
  in_kind :: "value_id packed_kind"

datatype packed_effect =
    StoreSignal nat value_id
  | CaptureRegEffect nat value_id "packed_reset option"
  | MemoryWriteEffect nat value_id value_id value_id

record machine_packet =
  mp_instrs :: "packed_instr list"
  mp_effects :: "packed_effect list"

type_synonym packed_block = "machine_packet list"

record machine_streams =
  ms_async_reset_comb :: packed_block
  ms_comb :: packed_block
  ms_tick_next :: packed_block
  ms_tick_commit :: packed_block

record machine_program =
  mc_source :: packed_program
  mc_streams :: machine_streams

fun kind_operands :: "'v packed_kind \<Rightarrow> 'v list" where
  "kind_operands (PLit ls) = []"
| "kind_operands (PSignal i) = []"
| "kind_operands (PNot a) = [a]"
| "kind_operands (PZext a) = [a]"
| "kind_operands (PSext a) = [a]"
| "kind_operands (PTrunc a) = [a]"
| "kind_operands (PCast a) = [a]"
| "kind_operands (PSlice a lsb) = [a]"
| "kind_operands (PAnd a b) = [a, b]"
| "kind_operands (POr a b) = [a, b]"
| "kind_operands (PXor a b) = [a, b]"
| "kind_operands (PAdd a b) = [a, b]"
| "kind_operands (PSub a b) = [a, b]"
| "kind_operands (PMul a b) = [a, b]"
| "kind_operands (PEq a b) = [a, b]"
| "kind_operands (PNe a b) = [a, b]"
| "kind_operands (PLt a b s) = [a, b]"
| "kind_operands (PMux c t e) = [c, t, e]"
| "kind_operands (PConcat vs) = vs"
| "kind_operands (PMemRead m a) = [a]"

definition instr_value_deps :: "value_id packed_kind \<Rightarrow> value_id list" where
  "instr_value_deps k = kind_operands k"

fun effect_value_deps :: "packed_effect \<Rightarrow> value_id list" where
  "effect_value_deps (StoreSignal dst v) = [v]"
| "effect_value_deps (CaptureRegEffect dst v r) = [v]"
| "effect_value_deps (MemoryWriteEffect m en addr dat) = [en, addr, dat]"

lemma set_kind_operands [simp]: "set (kind_operands k) = set_packed_kind k"
  by (cases k) auto

lemma packed_kind_size [termination_simp]:
  "z \<in> set_packed_kind k \<Longrightarrow> f z < Suc (size_packed_kind f k)"
proof (cases k)
  case (PConcat zs)
  assume "z \<in> set_packed_kind k"
  with PConcat have "f z \<le> size_list f zs" by (intro size_list_estimation' [of z]) auto
  with PConcat show ?thesis by simp
qed auto

text \<open>The signals an expression reads, as \<open>expr_signal_deps\<close> collects them.\<close>

fun pe_signal_deps :: "packed_expr \<Rightarrow> nat set" where
  "pe_signal_deps (PExpr k ty) =
     (case k of PSignal i \<Rightarrow> {i} | _ \<Rightarrow> \<Union> (set (map pe_signal_deps (kind_operands k))))"

section \<open>The integer semantics of a node\<close>

text \<open>
  Operands are pairs of a value and a width.  \<open>S\<close> gives the value of a signal and \<open>R\<close> the word of
  a memory at an address; a condition is the least significant bit.
\<close>

fun node_value :: "(nat \<Rightarrow> int) \<Rightarrow> (nat \<Rightarrow> int \<Rightarrow> int) \<Rightarrow> (int \<times> nat) packed_kind \<Rightarrow> int" where
  "node_value S R (PLit ls) = lval ls"
| "node_value S R (PSignal i) = S i"
| "node_value S R (PNot a) = NOT (fst a)"
| "node_value S R (PAnd a b) = fst a AND fst b"
| "node_value S R (POr a b) = fst a OR fst b"
| "node_value S R (PXor a b) = fst a XOR fst b"
| "node_value S R (PAdd a b) = fst a + fst b"
| "node_value S R (PSub a b) = fst a - fst b"
| "node_value S R (PMul a b) = fst a * fst b"
| "node_value S R (PEq a b) = of_bool (take_bit (max (snd a) (snd b)) (fst a) = take_bit (max (snd a) (snd b)) (fst b))"
| "node_value S R (PNe a b) = of_bool (take_bit (max (snd a) (snd b)) (fst a) \<noteq> take_bit (max (snd a) (snd b)) (fst b))"
| "node_value S R (PLt a b signd) = of_bool
     (if signd then signed_take_bit (snd a - 1) (fst a) < signed_take_bit (snd a - 1) (fst b)
      else take_bit (snd a) (fst a) < take_bit (snd a) (fst b))"
| "node_value S R (PMux c t e) = (if odd (fst c) then fst t else fst e)"
| "node_value S R (PSlice a lsb) = drop_bit lsb (fst a)"
| "node_value S R (PZext a) = fst a"
| "node_value S R (PSext a) = signed_take_bit (snd a - 1) (fst a)"
| "node_value S R (PTrunc a) = fst a"
| "node_value S R (PCast a) = fst a"
| "node_value S R (PConcat ps) = concat_value (rev ps)"
| "node_value S R (PMemRead m a) = R m (fst a)"

fun pe_value :: "(nat \<Rightarrow> int) \<Rightarrow> (nat \<Rightarrow> int \<Rightarrow> int) \<Rightarrow> packed_expr \<Rightarrow> int" where
  "pe_value S R (PExpr k ty) =
     take_bit (bt_width ty) (node_value S R (map_packed_kind (\<lambda>e. (pe_value S R e, pe_width e)) k))"

lemma pe_value_nonneg: "0 \<le> pe_value S R e"
  by (cases e) simp

lemma pe_value_fits: "take_bit (pe_width e) (pe_value S R e) = pe_value S R e"
  by (cases e) (simp add: pe_width_def)

text \<open>The widths the operations are defined on.\<close>

definition width_ok :: "nat \<Rightarrow> bool" where
  "width_ok w \<longleftrightarrow> 0 < w \<and> w < 2 ^ 32"

end
