(* ===== verification/Levels.thy ===== *)
theory Levels
  imports RRTL_Prelude
begin

text \<open>
  Scheduling by level, as \<open>schedule_machine_instrs\<close> and \<open>schedule_assignments\<close> do it: a search
  with a table gives every item a level above the levels of the items it depends on, and the items
  are put into the buckets of their levels.
\<close>

section \<open>The loops\<close>

fun level_max :: "(nat \<Rightarrow> (nat \<rightharpoonup> nat) \<Rightarrow> (nat \<times> (nat \<rightharpoonup> nat)) option) \<Rightarrow> nat list \<Rightarrow> nat \<Rightarrow> (nat \<rightharpoonup> nat)
    \<Rightarrow> (nat \<times> (nat \<rightharpoonup> nat)) option" where
  "level_max rec [] acc memo = Some (acc, memo)"
| "level_max rec (d # ds) acc memo =
     do { (l, memo') \<leftarrow> rec d memo; level_max rec ds (max acc (l + 1)) memo' }"

definition place :: "nat \<Rightarrow> 'a \<Rightarrow> 'a list list \<Rightarrow> 'a list list" where
  "place l x ps =
     (let ps' = (if length ps \<le> l then ps @ replicate (l + 1 - length ps) [] else ps)
      in ps'[l := ps' ! l @ [x]])"

fun place_all :: "(nat \<Rightarrow> (nat \<rightharpoonup> nat) \<Rightarrow> (nat \<times> (nat \<rightharpoonup> nat)) option) \<Rightarrow> (nat \<Rightarrow> 'a) \<Rightarrow> nat list \<Rightarrow> (nat \<rightharpoonup> nat)
    \<Rightarrow> 'a list list \<Rightarrow> 'a list list option" where
  "place_all rec g [] memo buckets = Some buckets"
| "place_all rec g (i # is) memo buckets =
     do { (l, memo') \<leftarrow> rec i memo; place_all rec g is memo' (place l (g i) buckets) }"

section \<open>The table of levels\<close>

text \<open>A dependency has a smaller level.\<close>

definition levels_ok :: "(nat \<Rightarrow> nat list) \<Rightarrow> (nat \<rightharpoonup> nat) \<Rightarrow> bool" where
  "levels_ok deps memo \<longleftrightarrow> (\<forall>i l. memo i = Some l \<longrightarrow> (\<forall>d \<in> set (deps i). \<exists>l'. memo d = Some l' \<and> l' < l))"

text \<open>A step of the search below rank \<open>b\<close>: consistent, growing, silent from \<open>b\<close> on.\<close>

definition level_step :: "(nat \<Rightarrow> nat list) \<Rightarrow> (nat \<Rightarrow> nat) \<Rightarrow> nat \<Rightarrow> (nat \<rightharpoonup> nat) \<Rightarrow> (nat \<rightharpoonup> nat) \<Rightarrow> bool" where
  "level_step deps rank b memo memo' \<longleftrightarrow> levels_ok deps memo' \<and> memo \<subseteq>\<^sub>m memo' \<and> (\<forall>j. b \<le> rank j \<longrightarrow> memo' j = memo j)"

definition finds_level :: "(nat \<Rightarrow> nat list) \<Rightarrow> (nat \<Rightarrow> nat) \<Rightarrow> (nat \<Rightarrow> (nat \<rightharpoonup> nat) \<Rightarrow> (nat \<times> (nat \<rightharpoonup> nat)) option) \<Rightarrow> nat \<Rightarrow> bool" where
  "finds_level deps rank rec i \<longleftrightarrow> (\<forall>memo. levels_ok deps memo \<longrightarrow> (\<exists>l memo'. rec i memo = Some (l, memo')
     \<and> level_step deps rank (Suc (rank i)) memo memo' \<and> memo' i = Some l))"

lemma levels_ok_empty [simp]: "levels_ok deps Map.empty"
  by (simp add: levels_ok_def)

lemma level_step_refl: "levels_ok deps memo \<Longrightarrow> level_step deps rank b memo memo"
  by (simp add: level_step_def map_le_refl)

lemma level_step_trans:
  "level_step deps rank b m1 m2 \<Longrightarrow> level_step deps rank b m2 m3 \<Longrightarrow> level_step deps rank b m1 m3"
  by (auto simp: level_step_def intro: map_le_trans)

lemma level_step_mono: "level_step deps rank a m1 m2 \<Longrightarrow> a \<le> b \<Longrightarrow> level_step deps rank b m1 m2"
  by (auto simp: level_step_def)

lemma map_leD: "m \<subseteq>\<^sub>m m' \<Longrightarrow> m x = Some y \<Longrightarrow> m' x = Some y"
  by (auto simp: map_le_def dom_def)

lemma level_max_ok:
  assumes "\<And>d. d \<in> set ds \<Longrightarrow> finds_level deps rank rec d \<and> rank d < b" and "levels_ok deps memo"
  shows "\<exists>l memo'. level_max rec ds acc memo = Some (l, memo') \<and> level_step deps rank b memo memo'
    \<and> acc \<le> l \<and> (\<forall>d \<in> set ds. \<exists>l'. memo' d = Some l' \<and> l' < l)"
  using assms
proof (induction ds arbitrary: acc memo)
  case (Cons d ds)
  have d: "finds_level deps rank rec d" "Suc (rank d) \<le> b" using Cons.prems(1) [of d] by auto
  then obtain l1 m1 where step: "rec d memo = Some (l1, m1)" "level_step deps rank (Suc (rank d)) memo m1" "m1 d = Some l1"
    using Cons.prems(2) unfolding finds_level_def by blast
  then have "levels_ok deps m1" by (simp add: level_step_def)
  then obtain l m where rest: "level_max rec ds (max acc (l1 + 1)) m1 = Some (l, m)" "level_step deps rank b m1 m"
    "max acc (l1 + 1) \<le> l" "\<forall>d \<in> set ds. \<exists>l'. m d = Some l' \<and> l' < l"
    using Cons.IH [of m1 "max acc (l1 + 1)"] Cons.prems(1) by auto
  have "m d = Some l1" using rest(2) step(3) map_leD by (auto simp: level_step_def)
  with step rest level_step_trans [OF level_step_mono [OF step(2) d(2)] rest(2)] show ?case by auto
qed (auto simp: level_step_refl)

lemma levels_ok_insert:
  assumes "levels_ok deps m" "m i = None" "\<forall>d \<in> set (deps i). \<exists>l'. m d = Some l' \<and> l' < l"
  shows "levels_ok deps (m(i \<mapsto> l))"
  unfolding levels_ok_def
proof (intro allI impI ballI)
  fix j k d
  assume "(m(i \<mapsto> l)) j = Some k" "d \<in> set (deps j)"
  then have "\<exists>l'. m d = Some l' \<and> l' < k"
    using assms(1,3) unfolding levels_ok_def by (cases "j = i") auto
  then obtain l' where "m d = Some l'" "l' < k" by blast
  moreover have "d \<noteq> i" using \<open>m d = Some l'\<close> assms(2) by auto
  ultimately show "\<exists>l'. (m(i \<mapsto> l)) d = Some l' \<and> l' < k" by simp
qed

text \<open>One level of the search: the dependencies first, then the item.\<close>

lemma finds_level_step:
  assumes below: "\<And>d. d \<in> set (deps i) \<Longrightarrow> finds_level deps rank rec d"
    and rank: "\<And>d. d \<in> set (deps i) \<Longrightarrow> rank d < rank i"
    and step: "\<And>memo. rec' i memo = (case memo i of Some l \<Rightarrow> Some (l, memo)
      | None \<Rightarrow> do { (l, memo') \<leftarrow> level_max rec (deps i) 0 memo; Some (l, memo'(i \<mapsto> l)) })"
  shows "finds_level deps rank rec' i"
  unfolding finds_level_def
proof (intro allI impI)
  fix memo assume ok: "levels_ok deps memo"
  show "\<exists>l memo'. rec' i memo = Some (l, memo') \<and> level_step deps rank (Suc (rank i)) memo memo' \<and> memo' i = Some l"
  proof (cases "memo i")
    case None
    have "\<And>d. d \<in> set (deps i) \<Longrightarrow> finds_level deps rank rec d \<and> rank d < rank i" using below rank by blast
    from level_max_ok [OF this ok, where acc = 0] obtain l m where
      m: "level_max rec (deps i) 0 memo = Some (l, m)" "level_step deps rank (rank i) memo m"
      "\<forall>d \<in> set (deps i). \<exists>l'. m d = Some l' \<and> l' < l" by blast
    have "m i = None" using m(2) None by (simp add: level_step_def)
    with m(2,3) None have "level_step deps rank (Suc (rank i)) memo (m(i \<mapsto> l))"
      by (auto simp: level_step_def map_le_def intro: levels_ok_insert)
    with None m(1) step show ?thesis by simp
  qed (use ok step in \<open>auto simp: level_step_refl\<close>)
qed

section \<open>Buckets\<close>

lemma place_all_ok:
  "levels_ok deps memo \<Longrightarrow> \<forall>i \<in> set idx. finds_level deps rank rec i \<Longrightarrow>
    \<exists>F. levels_ok deps F \<and> memo \<subseteq>\<^sub>m F \<and> set idx \<subseteq> dom F \<and>
      place_all rec g idx memo buckets = Some (fold (\<lambda>i. place (the (F i)) (g i)) idx buckets)"
proof (induction idx arbitrary: memo buckets)
  case (Cons i idx)
  obtain l m where m: "rec i memo = Some (l, m)" "level_step deps rank (Suc (rank i)) memo m" "m i = Some l"
    using Cons.prems unfolding finds_level_def by auto
  have "levels_ok deps m" using m(2) by (simp add: level_step_def)
  then obtain F where F: "levels_ok deps F" "m \<subseteq>\<^sub>m F" "set idx \<subseteq> dom F"
    "place_all rec g idx m (place l (g i) buckets) = Some (fold (\<lambda>i. place (the (F i)) (g i)) idx (place l (g i) buckets))"
    using Cons.IH [of m "place l (g i) buckets"] Cons.prems(2) by auto
  have "F i = Some l" using map_leD [OF F(2) m(3)] .
  with F m show ?case
    by (intro exI [of _ F]) (auto simp: level_step_def intro: map_le_trans)
qed (auto simp: map_le_refl)

text \<open>Placing elements by level yields the buckets of the levels.\<close>

lemma fold_place:
  "\<exists>N. (\<forall>x \<in> set xs. f x < N) \<and>
    fold (\<lambda>x. place (f x) (g x)) xs [] = map (\<lambda>l. map g (filter (\<lambda>x. f x = l) xs)) [0..<N]"
proof (induction xs rule: rev_induct)
  case (snoc x xs)
  then obtain N where N: "\<forall>x \<in> set xs. f x < N"
    "fold (\<lambda>x. place (f x) (g x)) xs [] = map (\<lambda>l. map g (filter (\<lambda>x. f x = l) xs)) [0..<N]" by blast
  let ?M = "max N (Suc (f x))"
  have empty: "filter (\<lambda>x. f x = l) xs = []" if "N \<le> l" for l
    using N(1) that by (auto simp: filter_empty_conv)
  have "fold (\<lambda>x. place (f x) (g x)) (xs @ [x]) [] =
      map (\<lambda>l. map g (filter (\<lambda>x. f x = l) (xs @ [x]))) [0..<?M]"
    by (rule nth_equalityI)
       (auto simp: N(2) place_def Let_def nth_list_update nth_append max_def empty)
  moreover have "\<forall>y \<in> set (xs @ [x]). f y < ?M" using N(1) by (auto simp: less_max_iff_disj)
  ultimately show ?case by blast
qed simp

lemma place_all_buckets:
  assumes "\<forall>i \<in> set idx. finds_level deps rank rec i"
  shows "\<exists>L N. place_all rec g idx Map.empty [] = Some (map (\<lambda>l. map g (filter (\<lambda>i. L i = l) idx)) [0..<N])
    \<and> (\<forall>i \<in> set idx. L i < N) \<and> (\<forall>i \<in> set idx. \<forall>d \<in> set (deps i). L d < L i)"
proof -
  obtain F where F: "levels_ok deps F" "set idx \<subseteq> dom F"
    "place_all rec g idx Map.empty [] = Some (fold (\<lambda>i. place (the (F i)) (g i)) idx [])"
    using place_all_ok [OF levels_ok_empty assms, where buckets = "[]" and g = g] by auto
  obtain N where N: "\<forall>i \<in> set idx. the (F i) < N"
    "fold (\<lambda>i. place (the (F i)) (g i)) idx [] = map (\<lambda>l. map g (filter (\<lambda>i. the (F i) = l) idx)) [0..<N]"
    using fold_place [of idx "\<lambda>i. the (F i)" g] by blast
  have "the (F d) < the (F i)" if "i \<in> set idx" "d \<in> set (deps i)" for i d
  proof -
    obtain l where "F i = Some l" using F(2) \<open>i \<in> set idx\<close> by auto
    with F(1) that(2) show ?thesis unfolding levels_ok_def by fastforce
  qed
  with F(3) N show ?thesis by (intro exI [of _ "\<lambda>i. the (F i)"] exI [of _ N]) simp
qed

lemma set_bucket_range:
  "set (concat (map (\<lambda>l. map g (filter (\<lambda>i. L i = l) [0..<n])) [0..<N])) = g ` {i. i < n \<and> L i < (N :: nat)}"
  by (induction N) (auto simp: less_Suc_eq)

text \<open>Whatever the levels are, every item is placed.\<close>

lemma set_place: "set (concat (place l x buckets)) = insert x (set (concat buckets))"
proof -
  define ps where "ps = (if length buckets \<le> l then buckets @ replicate (l + 1 - length buckets) [] else buckets)"
  have ps: "set (concat ps) = set (concat buckets)" "l < length ps" by (auto simp: ps_def)
  have "set (concat (ps[l := ps ! l @ [x]])) = insert x (set (concat ps))"
  proof -
    have split: "ps = take l ps @ ps ! l # drop (Suc l) ps" using ps(2) by (rule id_take_nth_drop)
    have "ps[l := ps ! l @ [x]] = take l ps @ (ps ! l @ [x]) # drop (Suc l) ps" using ps(2) by (rule upd_conv_take_nth_drop)
    then have "set (concat (ps[l := ps ! l @ [x]])) = insert x (set (concat (take l ps @ ps ! l # drop (Suc l) ps)))" by auto
    with split show ?thesis by simp
  qed
  with ps(1) show ?thesis by (simp add: place_def Let_def ps_def [symmetric])
qed

lemma place_all_set:
  "place_all rec g idx memo buckets = Some bs \<Longrightarrow> set (concat bs) = set (concat buckets) \<union> g ` set idx"
proof (induction idx arbitrary: memo buckets)
  case (Cons i idx)
  then obtain l m where "rec i memo = Some (l, m)" "place_all rec g idx m (place l (g i) buckets) = Some bs"
    by (auto simp: bind_eq_Some)
  with Cons.IH show ?case using set_place [of l "g i" buckets] by (simp del: set_concat)
qed simp

lemma level_max_total: "\<forall>d \<in> set ds. \<forall>memo. rec d memo \<noteq> None \<Longrightarrow> \<exists>r. level_max rec ds acc memo = Some r"
proof (induction ds arbitrary: acc memo)
  case (Cons d ds)
  then obtain l m where "rec d memo = Some (l, m)" by (metis list.set_intros(1) not_None_eq prod.exhaust)
  with Cons show ?case by simp
qed simp

lemma place_all_total: "\<forall>i \<in> set idx. \<forall>memo. rec i memo \<noteq> None \<Longrightarrow> \<exists>r. place_all rec g idx memo buckets = Some r"
proof (induction idx arbitrary: memo buckets)
  case (Cons d ds)
  then obtain l m where "rec d memo = Some (l, m)" by (metis list.set_intros(1) not_None_eq prod.exhaust)
  with Cons show ?case by simp
qed simp

end
