(* ===== verification/Machine_Lower.thy ===== *)
theory Machine_Lower
  imports Packed_Ir Levels
begin

text \<open>
  Lowering of packed expressions to machine instructions (\<open>lower_packets_to_block\<close>): common
  subexpressions are shared through a memo table, and the instructions of a packet are grouped
  by dependency level.  An engine that executes single instructions correctly, the interface
  \<open>node_engine\<close>, computes the values of the expressions.
\<close>

section \<open>Lowering of expressions\<close>

record lowerer =
  lw_next :: nat
  lw_memo :: "packed_expr \<rightharpoonup> value_id"
  lw_instrs :: "packed_instr list"

definition new_lowerer :: "nat \<Rightarrow> lowerer" where
  "new_lowerer n = \<lparr>lw_next = n, lw_memo = Map.empty, lw_instrs = []\<rparr>"

fun lower_list :: "('e \<Rightarrow> 's \<Rightarrow> 'v \<times> 's) \<Rightarrow> 'e list \<Rightarrow> 's \<Rightarrow> 'v list \<times> 's" where
  "lower_list f [] s = ([], s)"
| "lower_list f (e # es) s =
     (let (v, s1) = f e s; (vs, s2) = lower_list f es s1 in (v # vs, s2))"

text \<open>The operands of a node are lowered in the order of the fields.\<close>

definition lower_one :: "('e \<Rightarrow> 's \<Rightarrow> 'v \<times> 's) \<Rightarrow> ('v \<Rightarrow> 'v packed_kind) \<Rightarrow> 'e \<Rightarrow> 's \<Rightarrow> 'v packed_kind \<times> 's" where
  "lower_one f c a s = (let (va, s1) = f a s in (c va, s1))"

definition lower_two ::
  "('e \<Rightarrow> 's \<Rightarrow> 'v \<times> 's) \<Rightarrow> ('v \<Rightarrow> 'v \<Rightarrow> 'v packed_kind) \<Rightarrow> 'e \<Rightarrow> 'e \<Rightarrow> 's \<Rightarrow> 'v packed_kind \<times> 's" where
  "lower_two f c a b s = (let (va, s1) = f a s; (vb, s2) = f b s1 in (c va vb, s2))"

fun lower_operands :: "('e \<Rightarrow> 's \<Rightarrow> 'v \<times> 's) \<Rightarrow> 'e packed_kind \<Rightarrow> 's \<Rightarrow> 'v packed_kind \<times> 's" where
  "lower_operands f (PLit ls) s = (PLit ls, s)"
| "lower_operands f (PSignal i) s = (PSignal i, s)"
| "lower_operands f (PNot a) s = lower_one f PNot a s"
| "lower_operands f (PAnd a b) s = lower_two f PAnd a b s"
| "lower_operands f (POr a b) s = lower_two f POr a b s"
| "lower_operands f (PXor a b) s = lower_two f PXor a b s"
| "lower_operands f (PAdd a b) s = lower_two f PAdd a b s"
| "lower_operands f (PSub a b) s = lower_two f PSub a b s"
| "lower_operands f (PMul a b) s = lower_two f PMul a b s"
| "lower_operands f (PEq a b) s = lower_two f PEq a b s"
| "lower_operands f (PNe a b) s = lower_two f PNe a b s"
| "lower_operands f (PLt a b signd) s = lower_two f (\<lambda>va vb. PLt va vb signd) a b s"
| "lower_operands f (PMux c t e) s =
     (let (vc, s1) = f c s; (vt, s2) = f t s1; (ve, s3) = f e s2 in (PMux vc vt ve, s3))"
| "lower_operands f (PSlice a lsb) s = lower_one f (\<lambda>va. PSlice va lsb) a s"
| "lower_operands f (PZext a) s = lower_one f PZext a s"
| "lower_operands f (PSext a) s = lower_one f PSext a s"
| "lower_operands f (PTrunc a) s = lower_one f PTrunc a s"
| "lower_operands f (PCast a) s = lower_one f PCast a s"
| "lower_operands f (PConcat as) s = (let (vs, s1) = lower_list f as s in (PConcat vs, s1))"
| "lower_operands f (PMemRead m a) s = lower_one f (PMemRead m) a s"

lemma lower_list_cong:
  "(\<And>e s. e \<in> set es \<Longrightarrow> f e s = g e s) \<Longrightarrow> lower_list f es s = lower_list g es s"
  by (induction es arbitrary: s) (auto split: prod.splits)

lemma lower_operands_cong [fundef_cong]:
  assumes "k = k'" "s = s'" "\<And>e s. e \<in> set_packed_kind k' \<Longrightarrow> f e s = g e s"
  shows "lower_operands f k s = lower_operands g k' s'"
  unfolding assms(1,2) using assms(3)
  by (cases k') (simp_all add: lower_one_def lower_two_def cong: lower_list_cong)

fun lower_packed_expr :: "packed_expr \<Rightarrow> lowerer \<Rightarrow> value_id \<times> lowerer" where
  "lower_packed_expr (PExpr k ty) s =
     (case lw_memo s (PExpr k ty) of
        Some v \<Rightarrow> (v, s)
      | None \<Rightarrow>
          (let (k', s') = lower_operands lower_packed_expr k s; v = lw_next s'
           in (v, \<lparr>lw_next = v + 1, lw_memo = (lw_memo s')(PExpr k ty \<mapsto> v),
                   lw_instrs = lw_instrs s' @ [\<lparr>in_dst = v, in_ty = ty, in_kind = k'\<rparr>]\<rparr>)))"

fun lower_op :: "packed_op \<Rightarrow> lowerer \<Rightarrow> packed_effect \<times> lowerer" where
  "lower_op (Assign dst e) s = (let (v, s1) = lower_packed_expr e s in (StoreSignal dst v, s1))"
| "lower_op (CaptureReg dst e r) s = (let (v, s1) = lower_packed_expr e s in (CaptureRegEffect dst v r, s1))"
| "lower_op (MemoryWrite m en addr dat) s =
     (let (ve, s1) = lower_packed_expr en s; (va, s2) = lower_packed_expr addr s1;
          (vd, s3) = lower_packed_expr dat s2
      in (MemoryWriteEffect m ve va vd, s3))"

section \<open>Scheduling by level\<close>

definition index_by_value :: "packed_instr list \<Rightarrow> value_id \<rightharpoonup> nat" where
  "index_by_value is = fold (\<lambda>(n, i) m. m(in_dst i \<mapsto> n)) (enumerate 0 is) Map.empty"

text \<open>The first argument bounds the recursion depth; \<open>None\<close> is running out of it.\<close>

fun machine_instr_level :: "nat \<Rightarrow> packed_instr list \<Rightarrow> (value_id \<rightharpoonup> nat) \<Rightarrow> nat \<Rightarrow> (nat \<rightharpoonup> nat)
    \<Rightarrow> (nat \<times> (nat \<rightharpoonup> nat)) option" where
  "machine_instr_level 0 is by_value i memo = None"
| "machine_instr_level (Suc n) is by_value i memo =
     (case memo i of
        Some l \<Rightarrow> Some (l, memo)
      | None \<Rightarrow>
          do { (l, memo') \<leftarrow> level_max (machine_instr_level n is by_value)
                 (List.map_filter by_value (instr_value_deps (in_kind (is ! i)))) 0 memo;
               Some (l, memo'(i \<mapsto> l)) })"

definition schedule_machine_instrs :: "packed_instr list \<Rightarrow> machine_packet list option" where
  "schedule_machine_instrs is =
     do { packets \<leftarrow> place_all (machine_instr_level (Suc (length is)) is (index_by_value is)) ((!) is) [0..<length is] Map.empty [];
          Some (map (\<lambda>p. \<lparr>mp_instrs = p, mp_effects = []\<rparr>) (filter (\<lambda>p. p \<noteq> []) packets)) }"

definition add_effects :: "packed_effect list \<Rightarrow> machine_packet list \<Rightarrow> machine_packet list" where
  "add_effects effs packets =
     (let ps = (if packets = [] then [\<lparr>mp_instrs = [], mp_effects = []\<rparr>] else packets)
      in butlast ps @ [(last ps)\<lparr>mp_effects := mp_effects (last ps) @ effs\<rparr>])"

fun lower_packets :: "packed_packet list \<Rightarrow> nat \<Rightarrow> packed_block option" where
  "lower_packets [] next = Some []"
| "lower_packets (ops # rest) next =
     (let (effs, s) = lower_list lower_op ops (new_lowerer next)
      in do { packets \<leftarrow> schedule_machine_instrs (lw_instrs s);
              block \<leftarrow> lower_packets rest (lw_next s);
              Some (add_effects effs packets @ block) })"

definition lower_packets_to_block :: "packed_packet list \<Rightarrow> packed_block option" where
  "lower_packets_to_block packets = lower_packets packets 0"

definition lower_to_machine_program :: "packed_program \<Rightarrow> machine_program option" where
  "lower_to_machine_program p =
     do { ar \<leftarrow> lower_packets_to_block (st_async_reset_comb (pp_streams p));
          cb \<leftarrow> lower_packets_to_block (st_comb (pp_streams p));
          tn \<leftarrow> lower_packets_to_block (st_tick_next (pp_streams p));
          tc \<leftarrow> lower_packets_to_block (st_tick_commit (pp_streams p));
          Some \<lparr>mc_source = p, mc_streams = \<lparr>ms_async_reset_comb = ar, ms_comb = cb,
                 ms_tick_next = tn, ms_tick_commit = tc\<rparr>\<rparr> }"

section \<open>What the instructions denote\<close>

text \<open>\<open>E\<close> assigns to each value number the expression it holds.\<close>

definition denotes :: "(value_id \<Rightarrow> packed_expr) \<Rightarrow> packed_instr \<Rightarrow> bool" where
  "denotes E i \<longleftrightarrow> E (in_dst i) = PExpr (map_packed_kind E (in_kind i)) (in_ty i)"

fun ssa_from :: "value_id set \<Rightarrow> packed_instr list \<Rightarrow> bool" where
  "ssa_from D [] \<longleftrightarrow> True"
| "ssa_from D (i # is) \<longleftrightarrow> set_packed_kind (in_kind i) \<subseteq> D \<and> in_dst i \<notin> D \<and> ssa_from (insert (in_dst i) D) is"

definition lowered :: "(packed_expr \<Rightarrow> bool) \<Rightarrow> nat \<Rightarrow> (value_id \<Rightarrow> packed_expr) \<Rightarrow> lowerer \<Rightarrow> bool" where
  "lowered P n0 E s \<longleftrightarrow>
     n0 \<le> lw_next s \<and> in_dst ` set (lw_instrs s) = {n0..<lw_next s} \<and> ssa_from {} (lw_instrs s) \<and>
     (\<forall>i \<in> set (lw_instrs s). denotes E i \<and> P (E (in_dst i))) \<and>
     (\<forall>e v. lw_memo s e = Some v \<longrightarrow> n0 \<le> v \<and> v < lw_next s \<and> E v = e)"

text \<open>\<open>E'\<close> extends \<open>E\<close> by values numbered from \<open>n\<close> on.\<close>

definition agree_below :: "nat \<Rightarrow> (nat \<Rightarrow> 'a) \<Rightarrow> (nat \<Rightarrow> 'a) \<Rightarrow> bool" where
  "agree_below n E E' \<longleftrightarrow> (\<forall>v < n. E' v = E v)"

lemma ssa_from_append:
  "ssa_from D (xs @ ys) \<longleftrightarrow> ssa_from D xs \<and> ssa_from (D \<union> in_dst ` set xs) ys"
  by (induction xs arbitrary: D) auto

lemma ssa_from_operands:
  "ssa_from D is \<Longrightarrow> i \<in> set is \<Longrightarrow> set_packed_kind (in_kind i) \<subseteq> D \<union> in_dst ` set is"
  by (induction "is" arbitrary: D) fastforce+

text \<open>What lowering one expression, with the memo table, establishes.\<close>

definition lowers ::
  "(packed_expr \<Rightarrow> bool) \<Rightarrow> nat \<Rightarrow> ('e \<Rightarrow> lowerer \<Rightarrow> 'v \<times> lowerer) \<Rightarrow> ((nat \<Rightarrow> packed_expr) \<Rightarrow> nat \<Rightarrow> 'e \<Rightarrow> 'v \<Rightarrow> bool) \<Rightarrow> 'e \<Rightarrow> bool" where
  "lowers P n0 f holds e \<longleftrightarrow> (\<forall>s E v s'. lowered P n0 E s \<longrightarrow> f e s = (v, s') \<longrightarrow>
     (\<exists>E'. lowered P n0 E' s' \<and> agree_below (lw_next s) E E' \<and> lw_next s \<le> lw_next s' \<and> holds E' (lw_next s') e v))"

definition holds_value :: "nat \<Rightarrow> (nat \<Rightarrow> packed_expr) \<Rightarrow> nat \<Rightarrow> packed_expr \<Rightarrow> value_id \<Rightarrow> bool" where
  "holds_value n0 E n e v \<longleftrightarrow> n0 \<le> v \<and> v < n \<and> E v = e"

definition holds_kind :: "nat \<Rightarrow> (nat \<Rightarrow> packed_expr) \<Rightarrow> nat \<Rightarrow> packed_expr packed_kind \<Rightarrow> value_id packed_kind \<Rightarrow> bool" where
  "holds_kind n0 E n k k' \<longleftrightarrow> (\<forall>v \<in> set_packed_kind k'. n0 \<le> v \<and> v < n) \<and> map_packed_kind E k' = k"

definition kept :: "((nat \<Rightarrow> packed_expr) \<Rightarrow> nat \<Rightarrow> 'e \<Rightarrow> 'v \<Rightarrow> bool) \<Rightarrow> bool" where
  "kept holds \<longleftrightarrow> (\<forall>E E' n n' e v. holds E n e v \<longrightarrow> agree_below n E E' \<longrightarrow> n \<le> n' \<longrightarrow> holds E' n' e v)"

lemma keptD: "kept holds \<Longrightarrow> holds E n e v \<Longrightarrow> agree_below n E E' \<Longrightarrow> n \<le> n' \<Longrightarrow> holds E' n' e v"
  unfolding kept_def by blast

lemma kept_value: "kept (holds_value n0)"
  by (auto simp: kept_def holds_value_def agree_below_def)

lemma agree_below_trans:
  "agree_below n E E' \<Longrightarrow> agree_below m E' E'' \<Longrightarrow> n \<le> m \<Longrightarrow> agree_below n E E''"
  by (auto simp: agree_below_def)

lemma lowersE:
  assumes "lowers P n0 f holds e" "f e s = (v, s')" "lowered P n0 E s"
  obtains E' where "lowered P n0 E' s'" "agree_below (lw_next s) E E'" "lw_next s \<le> lw_next s'"
    "holds E' (lw_next s') e v"
  using assms unfolding lowers_def by blast

lemma lower_list_lowers:
  assumes kept: "kept holds" and each: "\<And>e. e \<in> set es \<Longrightarrow> lowers P n0 f holds e"
  shows "lowers P n0 (lower_list f) (\<lambda>E n. list_all2 (holds E n)) es"
  unfolding lowers_def
proof (intro allI impI)
  fix s E vs s'
  assume "lowered P n0 E s" "lower_list f es s = (vs, s')"
  then show "\<exists>E'. lowered P n0 E' s' \<and> agree_below (lw_next s) E E' \<and> lw_next s \<le> lw_next s'
      \<and> list_all2 (holds E' (lw_next s')) es vs"
    using each
  proof (induction es arbitrary: s E vs)
    case Nil
    then show ?case by (auto simp: agree_below_def)
  next
    case (Cons e es)
    obtain v s1 ws where run: "f e s = (v, s1)" "lower_list f es s1 = (ws, s')" "vs = v # ws"
      using Cons.prems(2) by (auto split: prod.splits)
    have "lowers P n0 f (holds) e" using Cons.prems(3) by simp
    from lowersE [OF this run(1) Cons.prems(1)] obtain E1 where
      E1: "lowered P n0 E1 s1" "agree_below (lw_next s) E E1" "lw_next s \<le> lw_next s1"
      "holds E1 (lw_next s1) e v" .
    obtain E2 where E2: "lowered P n0 E2 s'" "agree_below (lw_next s1) E1 E2" "lw_next s1 \<le> lw_next s'"
      "list_all2 (holds E2 (lw_next s')) es ws"
      using Cons.IH [OF E1(1) run(2)] Cons.prems(3) by auto
    show ?case
      using E2 keptD [OF kept E1(4) E2(2,3)] agree_below_trans [OF E1(2) E2(2) E1(3)] E1(3) run(3)
      by (intro exI [of _ E2]) simp
  qed
qed

lemma list_all2_image: "list_all2 (\<lambda>e v. P v \<and> E v = e) es vs \<longleftrightarrow> (\<forall>v \<in> set vs. P v) \<and> map E vs = es"
  by (induction es arbitrary: vs) (auto simp: list_all2_Cons1 Cons_eq_map_conv map_eq_Cons_conv)

text \<open>Lowering the operands of a node is lowering the list of them.\<close>

lemma lower_operands_list:
  assumes "lower_operands f k s = (k', s')"
  shows "\<exists>vs. lower_list f (kind_operands k) s = (vs, s') \<and>
    (\<forall>E P. list_all2 (\<lambda>e v. P v \<and> E v = e) (kind_operands k) vs \<longrightarrow>
       (\<forall>v \<in> set_packed_kind k'. P v) \<and> map_packed_kind E k' = k)"
  using assms
  by (cases k) (auto simp: lower_one_def lower_two_def list_all2_image split: prod.splits prod.split_asm)

text \<open>\<open>P\<close> holds of the expressions and all their subexpressions.\<close>

definition hereditary :: "(packed_expr \<Rightarrow> bool) \<Rightarrow> bool" where
  "hereditary P \<longleftrightarrow> (\<forall>k ty. P (PExpr k ty) \<longrightarrow> (\<forall>e \<in> set_packed_kind k. P e))"

lemma lower_packed_expr_lowers:
  assumes her: "hereditary P"
  shows "P e \<Longrightarrow> lowers P n0 lower_packed_expr (holds_value n0) e"
proof (induction e)
  case (PExpr k ty)
  let ?e = "PExpr k ty"
  show ?case
    unfolding lowers_def
  proof (intro allI impI)
    fix s E v s'
    assume s: "lowered P n0 E s" and run: "lower_packed_expr ?e s = (v, s')"
    show "\<exists>E'. lowered P n0 E' s' \<and> agree_below (lw_next s) E E' \<and> lw_next s \<le> lw_next s'
      \<and> holds_value n0 E' (lw_next s') ?e v"
    proof (cases "lw_memo s ?e")
      case (Some w)
      with run s show ?thesis by (intro exI [of _ E]) (auto simp: lowered_def agree_below_def holds_value_def)
    next
      case None
      obtain k' s1 where operands: "lower_operands lower_packed_expr k s = (k', s1)" by fastforce
      obtain vs where vs: "lower_list lower_packed_expr (kind_operands k) s = (vs, s1)"
      and rebuild: "\<And>E P. list_all2 (\<lambda>e v. P v \<and> E v = e) (kind_operands k) vs \<Longrightarrow>
          (\<forall>v \<in> set_packed_kind k'. P v) \<and> map_packed_kind E k' = k"
        using lower_operands_list [OF operands] by blast
      have "lowers P n0 (lower_list lower_packed_expr) (\<lambda>E n. list_all2 (holds_value n0 E n)) (kind_operands k)"
        by (rule lower_list_lowers [OF kept_value])
          (use PExpr her in \<open>auto simp: hereditary_def\<close>)
      from lowersE [OF this vs s] obtain E1 where
        E1: "lowered P n0 E1 s1" "agree_below (lw_next s) E E1" "lw_next s \<le> lw_next s1"
        "list_all2 (holds_value n0 E1 (lw_next s1)) (kind_operands k) vs" .
      let ?v = "lw_next s1" and ?E = "E1(lw_next s1 := ?e)"
      have "list_all2 (\<lambda>e v. (n0 \<le> v \<and> v < ?v) \<and> E1 v = e) (kind_operands k) vs"
        using E1(4) by (simp add: holds_value_def [abs_def] conj_assoc)
      from rebuild [OF this] have k': "\<forall>v \<in> set_packed_kind k'. n0 \<le> v \<and> v < ?v" "map_packed_kind E1 k' = k"
        by simp_all
      have res: "v = ?v" "s' = \<lparr>lw_next = ?v + 1, lw_memo = (lw_memo s1)(?e \<mapsto> ?v),
          lw_instrs = lw_instrs s1 @ [\<lparr>in_dst = ?v, in_ty = ty, in_kind = k'\<rparr>]\<rparr>"
        using run None operands by (auto simp: Let_def)
      have same: "map_packed_kind ?E l = map_packed_kind E1 l" if "\<forall>v \<in> set_packed_kind l. v < ?v" for l
        using that by (intro packed_kind.map_cong) auto
      have dsts: "in_dst ` set (lw_instrs s1) = {n0..<?v}" "ssa_from {} (lw_instrs s1)"
        and den: "\<forall>i \<in> set (lw_instrs s1). denotes E1 i \<and> P (E1 (in_dst i))" and le: "n0 \<le> ?v"
        and memo: "\<forall>e v. lw_memo s1 e = Some v \<longrightarrow> n0 \<le> v \<and> v < ?v \<and> E1 v = e"
        using E1(1) by (simp_all add: lowered_def)
      have "denotes ?E i \<and> P (?E (in_dst i))" if "i \<in> set (lw_instrs s1)" for i
      proof -
        have "in_dst i < ?v" using that dsts(1) by auto
        moreover have "v < ?v" if "v \<in> set_packed_kind (in_kind i)" for v
          using ssa_from_operands [OF dsts(2) \<open>i \<in> set (lw_instrs s1)\<close>] that dsts(1) by auto
        ultimately show ?thesis using den that same [of "in_kind i"] by (auto simp: denotes_def)
      qed
      moreover have "denotes ?E \<lparr>in_dst = ?v, in_ty = ty, in_kind = k'\<rparr> \<and> P (?E ?v)"
        using same [of k'] k' PExpr.prems by (simp add: denotes_def)
      moreover have "n0 \<le> v \<and> v < Suc ?v \<and> v \<noteq> ?v \<and> E1 v = e" if "lw_memo s1 e = Some v" for e v
        using memo that by fastforce
      ultimately have "lowered P n0 ?E s'"
        using dsts le k'(1) unfolding lowered_def res(2)
        by (auto simp: ssa_from_append atLeastLessThanSuc)
      moreover have "agree_below (lw_next s) E ?E" using E1(2,3) by (auto simp: agree_below_def)
      ultimately show ?thesis
        using E1(3) le by (intro exI [of _ ?E]) (simp add: res holds_value_def)
    qed
  qed
qed

text \<open>An effect refers to the values of the operation's expressions.\<close>

fun effect_denotes :: "(value_id \<Rightarrow> packed_expr) \<Rightarrow> packed_op \<Rightarrow> packed_effect \<Rightarrow> bool" where
  "effect_denotes E (Assign dst e) (StoreSignal dst' v) \<longleftrightarrow> dst' = dst \<and> E v = e"
| "effect_denotes E (CaptureReg dst e r) (CaptureRegEffect dst' v r') \<longleftrightarrow> dst' = dst \<and> r' = r \<and> E v = e"
| "effect_denotes E (MemoryWrite m en addr dat) (MemoryWriteEffect m' ve va vd) \<longleftrightarrow>
     m' = m \<and> E ve = en \<and> E va = addr \<and> E vd = dat"
| "effect_denotes E _ _ \<longleftrightarrow> False"

definition holds_effect :: "nat \<Rightarrow> (nat \<Rightarrow> packed_expr) \<Rightarrow> nat \<Rightarrow> packed_op \<Rightarrow> packed_effect \<Rightarrow> bool" where
  "holds_effect n0 E n x eff \<longleftrightarrow>
     effect_denotes E x eff \<and> (\<forall>v \<in> set (effect_value_deps eff). n0 \<le> v \<and> v < n)"

lemma kept_effect: "kept (holds_effect n0)"
  unfolding kept_def
proof (intro allI impI)
  fix E E' :: "nat \<Rightarrow> packed_expr" and n n' x eff
  assume "holds_effect n0 E n x eff" "agree_below n E E'" "n \<le> n'"
  then show "holds_effect n0 E' n' x eff"
    by (cases x; cases eff) (auto simp: holds_effect_def agree_below_def)
qed

fun op_exprs :: "packed_op \<Rightarrow> packed_expr list" where
  "op_exprs (Assign dst e) = [e]"
| "op_exprs (CaptureReg dst e r) = [e]"
| "op_exprs (MemoryWrite m en addr dat) = [en, addr, dat]"

text \<open>Lowering the expressions of an operation is lowering the list of them.\<close>

lemma lower_op_list:
  assumes "lower_op x s = (eff, s')"
  shows "\<exists>vs. lower_list lower_packed_expr (op_exprs x) s = (vs, s') \<and>
    (\<forall>E P. list_all2 (\<lambda>e v. P v \<and> E v = e) (op_exprs x) vs \<longrightarrow>
       effect_denotes E x eff \<and> (\<forall>v \<in> set (effect_value_deps eff). P v))"
  using assms by (cases x) (auto simp del: lower_packed_expr.simps split: prod.splits prod.split_asm)

lemma lower_op_lowers:
  assumes "hereditary P" "\<forall>e \<in> set (op_exprs x). P e"
  shows "lowers P n0 lower_op (holds_effect n0) x"
  unfolding lowers_def
proof (intro allI impI)
  fix s E eff s'
  assume s: "lowered P n0 E s" and run: "lower_op x s = (eff, s')"
  obtain vs where vs: "lower_list lower_packed_expr (op_exprs x) s = (vs, s')"
    and eff: "\<And>E P. list_all2 (\<lambda>e v. P v \<and> E v = e) (op_exprs x) vs \<Longrightarrow>
      effect_denotes E x eff \<and> (\<forall>v \<in> set (effect_value_deps eff). P v)"
    using lower_op_list [OF run] by blast
  have "lowers P n0 (lower_list lower_packed_expr) (\<lambda>E n. list_all2 (holds_value n0 E n)) (op_exprs x)"
    by (rule lower_list_lowers [OF kept_value lower_packed_expr_lowers [OF assms(1)]]) (use assms(2) in simp)
  from lowersE [OF this vs s] obtain E' where
    E': "lowered P n0 E' s'" "agree_below (lw_next s) E E'" "lw_next s \<le> lw_next s'"
    "list_all2 (holds_value n0 E' (lw_next s')) (op_exprs x) vs" .
  have "list_all2 (\<lambda>e v. (n0 \<le> v \<and> v < lw_next s') \<and> E' v = e) (op_exprs x) vs"
    using E'(4) by (simp add: holds_value_def [abs_def] conj_assoc)
  from eff [OF this] have "holds_effect n0 E' (lw_next s') x eff" by (simp add: holds_effect_def)
  with E' show "\<exists>E'. lowered P n0 E' s' \<and> agree_below (lw_next s) E E' \<and> lw_next s \<le> lw_next s'
      \<and> holds_effect n0 E' (lw_next s') x eff" by blast
qed

lemma lower_ops_lowered:
  assumes "lower_list lower_op ops (new_lowerer n0) = (effs, s)"
    and "hereditary P" "\<forall>x \<in> set ops. \<forall>e \<in> set (op_exprs x). P e"
  shows "\<exists>E. lowered P n0 E s \<and> n0 \<le> lw_next s \<and> list_all2 (holds_effect n0 E (lw_next s)) ops effs"
proof -
  have s0: "lowered P n0 undefined (new_lowerer n0)" by (simp add: lowered_def new_lowerer_def)
  have "lowers P n0 (lower_list lower_op) (\<lambda>E n. list_all2 (holds_effect n0 E n)) ops"
    by (rule lower_list_lowers [OF kept_effect lower_op_lowers [OF assms(2)]]) (use assms(3) in simp)
  from lowersE [OF this assms(1) s0] obtain E where
    "lowered P n0 E s" "lw_next (new_lowerer n0) \<le> lw_next s" "list_all2 (holds_effect n0 E (lw_next s)) ops effs" .
  then show ?thesis by (auto simp: new_lowerer_def)
qed

section \<open>The schedule\<close>

text \<open>Every packet uses only values of earlier packets.\<close>

fun layered :: "value_id set \<Rightarrow> packed_instr list list \<Rightarrow> bool" where
  "layered D [] \<longleftrightarrow> True"
| "layered D (p # ps) \<longleftrightarrow> (\<forall>i \<in> set p. set_packed_kind (in_kind i) \<subseteq> D) \<and> distinct (map in_dst p)
     \<and> in_dst ` set p \<inter> D = {} \<and> layered (D \<union> in_dst ` set p) ps"

lemma layered_append:
  "layered D (ps @ qs) \<longleftrightarrow> layered D ps \<and> layered (D \<union> in_dst ` set (concat ps)) qs"
  by (induction ps arbitrary: D) (auto simp: Un_assoc image_Un)

lemma layered_filter: "layered D (filter (\<lambda>p. p \<noteq> []) ps) \<longleftrightarrow> layered D ps"
  by (induction ps arbitrary: D) auto

lemma layered_single: "distinct (map in_dst p) \<Longrightarrow> in_dst ` set p \<inter> D = {} \<Longrightarrow>
    \<forall>i \<in> set p. set_packed_kind (in_kind i) \<subseteq> D \<Longrightarrow> ssa_from D p"
proof (induction p arbitrary: D)
  case (Cons a p)
  then have "ssa_from (insert (in_dst a) D) p" by (intro Cons.IH) auto
  with Cons.prems show ?case by auto
qed simp

lemma layered_ssa: "layered D ps \<Longrightarrow> ssa_from D (concat ps)"
  by (induction ps arbitrary: D) (auto simp: ssa_from_append intro: layered_single)

lemma ssa_from_distinct: "ssa_from D is \<Longrightarrow> distinct (map in_dst is) \<and> in_dst ` set is \<inter> D = {}"
  by (induction "is" arbitrary: D) fastforce+

lemma ssa_from_earlier:
  "ssa_from D is \<Longrightarrow> i < length is \<Longrightarrow> v \<in> set_packed_kind (in_kind (is ! i)) \<Longrightarrow>
    v \<in> D \<or> (\<exists>j < i. in_dst (is ! j) = v)"
proof (induction "is" arbitrary: D i)
  case (Cons x xs)
  show ?case
  proof (cases i)
    case (Suc j)
    with Cons.IH [of "insert (in_dst x) D" j] Cons.prems show ?thesis
      by (auto intro: exI [of _ 0] exI [of _ "Suc _"])
  qed (use Cons.prems in auto)
qed simp

lemma index_by_value_eq:
  assumes "distinct (map in_dst is)"
  shows "index_by_value is v = Some j \<longleftrightarrow> j < length is \<and> in_dst (is ! j) = v"
  using assms unfolding index_by_value_def
proof (induction "is" arbitrary: v j rule: rev_induct)
  case (snoc x xs)
  from snoc.prems have "in_dst x \<notin> in_dst ` set xs" by simp
  then have "j < length xs \<Longrightarrow> in_dst (xs ! j) \<noteq> in_dst x" by (metis image_eqI nth_mem)
  with snoc show ?case by (auto simp: enumerate_append_eq nth_append less_Suc_eq)
qed simp

definition deps_at :: "packed_instr list \<Rightarrow> (value_id \<rightharpoonup> nat) \<Rightarrow> nat \<Rightarrow> nat list" where
  "deps_at is by_value i = List.map_filter by_value (instr_value_deps (in_kind (is ! i)))"

definition backward :: "packed_instr list \<Rightarrow> (value_id \<rightharpoonup> nat) \<Rightarrow> bool" where
  "backward is by_value \<longleftrightarrow> (\<forall>i < length is. \<forall>d \<in> set (deps_at is by_value i). d < i)"

lemma machine_instr_level_ok:
  assumes earlier: "backward is bv"
  shows "i < n \<Longrightarrow> i < length is \<Longrightarrow> finds_level (deps_at is bv) id (machine_instr_level n is bv) i"
proof (induction n arbitrary: i)
  case (Suc n)
  have below: "d < i" if "d \<in> set (deps_at is bv i)" for d
    using earlier Suc.prems(2) that by (simp add: backward_def)
  show ?case
  proof (rule finds_level_step)
    fix d assume d: "d \<in> set (deps_at is bv i)"
    with below show "id d < id i" by simp
    show "finds_level (deps_at is bv) id (machine_instr_level n is bv) d"
      by (rule Suc.IH) (use below [OF d] Suc.prems in linarith)+
  qed (simp add: deps_at_def cong: option.case_cong)
qed simp

lemma ssa_backward:
  assumes "ssa_from {} is"
  shows "backward is (index_by_value is)"
  unfolding backward_def
proof (intro allI impI ballI)
  fix i d
  assume i: "i < length is" and "d \<in> set (deps_at is (index_by_value is) i)"
  then obtain v where v: "v \<in> set_packed_kind (in_kind (is ! i))" "index_by_value is v = Some d"
    by (auto simp: deps_at_def instr_value_deps_def List.map_filter_def)
  obtain j where j: "j < i" "in_dst (is ! j) = v" using ssa_from_earlier [OF assms i v(1)] by auto
  have dist: "distinct (map in_dst is)" using ssa_from_distinct [OF assms] by simp
  then have "index_by_value is v = Some j" using j i by (simp add: index_by_value_eq)
  with v(2) j(1) show "d < i" by simp
qed

text \<open>Buckets by a level function that increases along dependencies are layered.\<close>

lemma buckets_layered:
  assumes dist: "distinct (map in_dst is)"
    and up: "\<And>i v. i < length is \<Longrightarrow> v \<in> set_packed_kind (in_kind (is ! i)) \<Longrightarrow>
      \<exists>j < length is. in_dst (is ! j) = v \<and> L j < L i"
  shows "layered {} (map (\<lambda>l. map ((!) is) (filter (\<lambda>i. L i = l) [0..<length is])) [0..<N])"
proof (induction N)
  case (Suc N)
  let ?B = "\<lambda>l. map ((!) is) (filter (\<lambda>i. L i = l) [0..<length is])"
  let ?D = "in_dst ` set (concat (map ?B [0..<N]))"
  have D: "?D = (\<lambda>i. in_dst (is ! i)) ` {i. i < length is \<and> L i < N}"
    unfolding set_bucket_range by (simp add: image_image)
  have inj: "in_dst (is ! i) = in_dst (is ! j) \<longleftrightarrow> i = j" if "i < length is" "j < length is" for i j
    using dist that nth_eq_iff_index_eq [of "map in_dst is" i j] by simp
  have B: "set (?B N) = (!) is ` {i. i < length is \<and> L i = N}" by auto
  have "set_packed_kind (in_kind x) \<subseteq> ?D" if x: "x \<in> set (?B N)" for x
  proof
    fix v assume "v \<in> set_packed_kind (in_kind x)"
    moreover obtain i where "i < length is" "L i = N" "x = is ! i" using x unfolding B by blast
    ultimately obtain j where "j < length is" "in_dst (is ! j) = v" "L j < N" using up by blast
    then show "v \<in> ?D" unfolding D by blast
  qed
  moreover have "distinct (map (\<lambda>i. in_dst (is ! i)) (filter (\<lambda>i. L i = N) [0..<length is]))"
    unfolding distinct_map inj_on_def using inj by simp
  then have dist: "distinct (map in_dst (?B N))" by (simp add: comp_def)
  moreover have "in_dst ` set (?B N) \<inter> ?D = {}" unfolding B D using inj by blast
  ultimately have "layered ?D [?B N]" unfolding layered.simps using dist by blast
  then have "layered {} (map ?B [0..<N] @ [?B N])" unfolding layered_append using Suc.IH by (simp only: Un_empty_left)
  then show ?case by (simp only: upt_Suc_append [OF le0] map_append list.map)
qed simp

lemma schedule_machine_instrs_ok:
  assumes ssa: "ssa_from {} is"
  shows "\<exists>packets. schedule_machine_instrs is = Some packets \<and> (\<forall>p \<in> set packets. mp_effects p = [])
    \<and> layered {} (map mp_instrs packets) \<and> set (concat (map mp_instrs packets)) = set is"
proof -
  let ?bv = "index_by_value is" and ?rec = "machine_instr_level (Suc (length is)) is (index_by_value is)"
  have dist: "distinct (map in_dst is)" using ssa_from_distinct [OF ssa] by simp
  have find: "\<forall>i \<in> set [0..<length is]. finds_level (deps_at is ?bv) id ?rec i"
    using machine_instr_level_ok [OF ssa_backward [OF ssa]] by (auto simp del: machine_instr_level.simps)
  obtain L N where run: "place_all ?rec ((!) is) [0..<length is] Map.empty [] =
      Some (map (\<lambda>l. map ((!) is) (filter (\<lambda>i. L i = l) [0..<length is])) [0..<N])"
    and N: "\<forall>i < length is. L i < N" and L: "\<forall>i < length is. \<forall>d \<in> set (deps_at is ?bv i). L d < L i"
    using place_all_buckets [OF find, of "(!) is"] by auto
  let ?B = "\<lambda>l. map ((!) is) (filter (\<lambda>i. L i = l) [0..<length is])"
  have "\<exists>j < length is. in_dst (is ! j) = v \<and> L j < L i"
    if i: "i < length is" and v: "v \<in> set_packed_kind (in_kind (is ! i))" for i v
  proof -
    obtain j where j: "j < i" "in_dst (is ! j) = v" using ssa_from_earlier [OF ssa i v] by auto
    then have "?bv v = Some j" using i dist by (simp add: index_by_value_eq)
    with v have "j \<in> set (deps_at is ?bv i)"
      by (auto simp: deps_at_def instr_value_deps_def List.map_filter_def image_iff)
    with L i j show ?thesis by (intro exI [of _ j]) simp
  qed
  then have "layered {} (map ?B [0..<N])" by (rule buckets_layered [OF dist])
  moreover have "set (concat (map ?B [0..<N])) = set is"
    unfolding set_bucket_range using N by (auto simp: in_set_conv_nth [of _ "is"])
  moreover have "concat (filter (\<lambda>p. p \<noteq> []) ps) = concat ps" for ps :: "packed_instr list list"
    by (induction ps) auto
  ultimately show ?thesis
    by (auto simp: schedule_machine_instrs_def run comp_def layered_filter simp del: set_concat machine_instr_level.simps)
qed

section \<open>Engines that execute nodes\<close>

text \<open>
  \<open>exec_all\<close> runs instructions in order.  An engine keeps a value for each value number, possibly one per lane, and executes one
  instruction at a time: it evaluates the node on the values of the operands, which must be
  present, in a state that is ready, and touches nothing else.  \<open>width\<close> is the width the engine has for a value.
\<close>

fun exec_all :: "('i \<Rightarrow> 's \<Rightarrow> 's option) \<Rightarrow> 'i list \<Rightarrow> 's \<Rightarrow> 's option" where
  "exec_all exec [] st = Some st"
| "exec_all exec (i # is) st = do { st' \<leftarrow> exec i st; exec_all exec is st' }"

locale node_engine =
  fixes exec :: "packed_instr \<Rightarrow> 's \<Rightarrow> 's option"
    and ready :: "'s \<Rightarrow> bool"
    and present :: "'s \<Rightarrow> value_id \<Rightarrow> bool"
    and slot_value :: "'s \<Rightarrow> value_id \<Rightarrow> 'l \<Rightarrow> int"
    and width :: "value_id \<Rightarrow> nat"
    and runnable :: "packed_instr \<Rightarrow> bool"
    and lane_ok :: "'l \<Rightarrow> bool"
    and S :: "'l \<Rightarrow> nat \<Rightarrow> int"
    and R :: "'l \<Rightarrow> nat \<Rightarrow> int \<Rightarrow> int"
  assumes exec_node: "runnable i \<Longrightarrow> ready st \<Longrightarrow> \<forall>v \<in> set_packed_kind (in_kind i). present st v \<Longrightarrow>
      \<exists>st'. exec i st = Some st' \<and> ready st' \<and> present st' (in_dst i) \<and>
        (\<forall>l. lane_ok l \<longrightarrow> slot_value st' (in_dst i) l = take_bit (bt_width (in_ty i))
           (node_value (S l) (R l) (map_packed_kind (\<lambda>v. (slot_value st v l, width v)) (in_kind i))))"
    and exec_other: "runnable i \<Longrightarrow> exec i st = Some st' \<Longrightarrow> v \<noteq> in_dst i \<Longrightarrow> present st v \<Longrightarrow>
      present st' v \<and> (\<forall>l. lane_ok l \<longrightarrow> slot_value st' v l = slot_value st v l)"
begin

definition holds :: "(value_id \<Rightarrow> packed_expr) \<Rightarrow> 's \<Rightarrow> value_id \<Rightarrow> bool" where
  "holds E st v \<longleftrightarrow> present st v \<and> (\<forall>l. lane_ok l \<longrightarrow> slot_value st v l = pe_value (S l) (R l) (E v))"

text \<open>Instructions in dependency order compute the expressions they denote.\<close>

lemma exec_all_computes:
  assumes "ssa_from D is" "\<forall>i \<in> set is. runnable i \<and> denotes E i"
    and "\<forall>i \<in> set is. \<forall>v \<in> set_packed_kind (in_kind i). width v = pe_width (E v)"
    and "\<forall>v \<in> D. holds E st v" "ready st"
  shows "\<exists>st'. exec_all exec is st = Some st' \<and> ready st' \<and> (\<forall>v \<in> D \<union> in_dst ` set is. holds E st' v)"
  using assms
proof (induction "is" arbitrary: D st)
  case (Cons i "is")
  have ops: "set_packed_kind (in_kind i) \<subseteq> D" "in_dst i \<notin> D" and run: "runnable i" and den: "denotes E i"
    using Cons.prems(1,2) by simp_all
  have "\<forall>v \<in> set_packed_kind (in_kind i). present st v"
    using ops(1) Cons.prems(4) by (auto simp: holds_def)
  from exec_node [OF run Cons.prems(5) this] obtain st1 where st1: "exec i st = Some st1" "ready st1" "present st1 (in_dst i)"
    "\<forall>l. lane_ok l \<longrightarrow> slot_value st1 (in_dst i) l = take_bit (bt_width (in_ty i))
       (node_value (S l) (R l) (map_packed_kind (\<lambda>v. (slot_value st v l, width v)) (in_kind i)))"
    by blast
  have "map_packed_kind (\<lambda>v. (slot_value st v l, width v)) (in_kind i) =
      map_packed_kind (\<lambda>e. (pe_value (S l) (R l) e, pe_width e)) (map_packed_kind E (in_kind i))"
    if "lane_ok l" for l
    unfolding packed_kind.map_comp using that ops(1) Cons.prems(3,4)
    by (intro packed_kind.map_cong refl) (auto simp: holds_def)
  then have "holds E st1 (in_dst i)"
    using st1(3,4) den by (simp add: holds_def denotes_def)
  moreover have "holds E st1 v" if "v \<in> D" for v
    using exec_other [OF run st1(1)] that ops(2) Cons.prems(4) by (metis holds_def)
  ultimately have "\<forall>v \<in> insert (in_dst i) D. holds E st1 v" by blast
  with Cons.IH [of "insert (in_dst i) D" st1] Cons.prems(1-3) show ?case by (simp add: st1(1,2))
qed simp

end

section \<open>What a lowered block is\<close>

text \<open>
  \<open>packet_lowered P E n n' ops effs is\<close>: the instructions compute, under \<open>E\<close>, the values numbered
  from \<open>n\<close> up to \<open>n'\<close>, and the effects are those of the operations.
\<close>

definition packet_lowered ::
  "(packed_expr \<Rightarrow> bool) \<Rightarrow> (value_id \<Rightarrow> packed_expr) \<Rightarrow> nat \<Rightarrow> nat \<Rightarrow> packed_op list \<Rightarrow> packed_effect list \<Rightarrow> packed_instr list \<Rightarrow> bool" where
  "packet_lowered P E n n' ops effs is \<longleftrightarrow>
     n \<le> n' \<and> (ops = [] \<longrightarrow> n' = n) \<and> ssa_from {} is \<and> in_dst ` set is = {n..<n'} \<and> (\<forall>i \<in> set is. denotes E i \<and> P (E (in_dst i)))
     \<and> list_all2 (holds_effect n E n') ops effs"

fun block_lowered :: "(packed_expr \<Rightarrow> bool) \<Rightarrow> (value_id \<Rightarrow> packed_expr) \<Rightarrow> nat \<Rightarrow> packed_packet list \<Rightarrow> packed_block \<Rightarrow> bool" where
  "block_lowered P E n [] block \<longleftrightarrow> block = []"
| "block_lowered P E n (ops # rest) block \<longleftrightarrow>
     (\<exists>n' effs packets block'. block = add_effects effs packets @ block'
        \<and> (\<forall>p \<in> set packets. mp_effects p = []) \<and> layered {} (map mp_instrs packets)
        \<and> packet_lowered P E n n' ops effs (concat (map mp_instrs packets)) \<and> block_lowered P E n' rest block')"

lemma packet_lowered_cong:
  assumes "packet_lowered P E n n' ops effs is" "\<And>v. n \<le> v \<Longrightarrow> v < n' \<Longrightarrow> E' v = E v"
  shows "packet_lowered P E' n n' ops effs is"
proof -
  have dsts: "in_dst ` set is = {n..<n'}" and ssa: "ssa_from {} is" using assms(1) by (auto simp: packet_lowered_def)
  have same: "E' v = E v" if "v \<in> in_dst ` set is" for v using assms(2) that dsts by auto
  have "denotes E' i \<and> P (E' (in_dst i))" if "i \<in> set is" for i
  proof -
    have "map_packed_kind E' (in_kind i) = map_packed_kind E (in_kind i)"
      using ssa_from_operands [OF ssa that] same by (intro packed_kind.map_cong) auto
    moreover have "E' (in_dst i) = E (in_dst i)" using same that by simp
    ultimately show ?thesis using assms(1) that by (auto simp: denotes_def packet_lowered_def)
  qed
  moreover have "holds_effect n E' n' x eff" if "holds_effect n E n' x eff" for x eff
    using that assms(2) by (cases x; cases eff) (auto simp: holds_effect_def)
  ultimately show ?thesis using assms(1) by (auto simp: packet_lowered_def elim: list_all2_mono)
qed

lemma block_lowered_cong:
  "block_lowered P E n ps block \<Longrightarrow> (\<And>v. n \<le> v \<Longrightarrow> E' v = E v) \<Longrightarrow> block_lowered P E' n ps block"
proof (induction ps arbitrary: n block)
  case (Cons ops rest)
  then obtain n' effs packets block' where b: "block = add_effects effs packets @ block'"
    "\<forall>p \<in> set packets. mp_effects p = []" "layered {} (map mp_instrs packets)"
    "packet_lowered P E n n' ops effs (concat (map mp_instrs packets))" "block_lowered P E n' rest block'"
    by auto
  have "n \<le> n'" using b(4) by (simp add: packet_lowered_def)
  then have "block_lowered P E' n' rest block'" using Cons.IH [OF b(5)] Cons.prems(2) by simp
  moreover have "packet_lowered P E' n n' ops effs (concat (map mp_instrs packets))"
    using packet_lowered_cong [OF b(4)] Cons.prems(2) by blast
  ultimately show ?case using b(1-3) by auto
qed simp

lemma lower_packets_ok:
  assumes her: "hereditary P"
  shows "\<forall>ops \<in> set ps. \<forall>x \<in> set ops. \<forall>e \<in> set (op_exprs x). P e \<Longrightarrow>
    \<exists>block E. lower_packets ps n = Some block \<and> block_lowered P E n ps block"
proof (induction ps arbitrary: n)
  case (Cons ops rest)
  obtain effs s where run: "lower_list lower_op ops (new_lowerer n) = (effs, s)" by fastforce
  obtain E where E: "lowered P n E s" "n \<le> lw_next s" "list_all2 (holds_effect n E (lw_next s)) ops effs"
    using lower_ops_lowered [OF run her] Cons.prems by auto
  have empty: "ops = [] \<longrightarrow> lw_next s = n" using run by (auto simp: new_lowerer_def)
  have ssa: "ssa_from {} (lw_instrs s)" and rest: "in_dst ` set (lw_instrs s) = {n..<lw_next s}"
    "\<forall>i \<in> set (lw_instrs s). denotes E i \<and> P (E (in_dst i))" using E(1) by (simp_all add: lowered_def)
  obtain packets where p: "schedule_machine_instrs (lw_instrs s) = Some packets"
    "\<forall>p \<in> set packets. mp_effects p = []" "layered {} (map mp_instrs packets)"
    "set (concat (map mp_instrs packets)) = set (lw_instrs s)"
    using schedule_machine_instrs_ok [OF ssa] by blast
  obtain block E' where block: "lower_packets rest (lw_next s) = Some block" "block_lowered P E' (lw_next s) rest block"
    using Cons.IH [of "lw_next s"] Cons.prems by auto
  let ?E = "\<lambda>v. if v < lw_next s then E v else E' v"
  have "packet_lowered P E n (lw_next s) ops effs (concat (map mp_instrs packets))"
    using E(2,3) rest layered_ssa [OF p(3)] empty unfolding packet_lowered_def p(4) by blast
  then have "packet_lowered P ?E n (lw_next s) ops effs (concat (map mp_instrs packets))"
    by (rule packet_lowered_cong) simp
  moreover have "block_lowered P ?E (lw_next s) rest block"
    using block_lowered_cong [OF block(2), of ?E] by simp
  ultimately have "block_lowered P ?E n (ops # rest) (add_effects effs packets @ block)"
    using p(2,3) by auto
  moreover have "lower_packets (ops # rest) n = Some (add_effects effs packets @ block)"
    by (simp add: run p(1) block(1))
  ultimately show ?case by blast
qed simp

lemma lower_to_machine_program_total: "\<exists>mc. lower_to_machine_program p = Some mc \<and> mc_source mc = p"
proof -
  have "\<exists>b. lower_packets_to_block ps = Some b" for ps
    using lower_packets_ok [of "\<lambda>_. True" ps 0] by (auto simp: lower_packets_to_block_def hereditary_def)
  then show ?thesis unfolding lower_to_machine_program_def by (metis bind.bind_lunit machine_program.select_convs(1))
qed

end
