(* ===== verification/Packed_Sim.thy ===== *)
theory Packed_Sim
  imports Machine_Lower
begin

text \<open>
  The lane-packed machine interpreter (\<open>PackedSimulator\<close> in rrtl-sim-ir): values are kept in one
  vector of 32-bit words, limb-major, with the lanes of a limb next to each other; memories lane
  by lane.  The working values of a block are slots laid out in the same way.  Indexing out of
  range panics: \<open>None\<close>.
\<close>

section \<open>Slots\<close>

record value_slot =
  vs_limbs :: nat
  vs_width :: nat
  vs_words :: "u32 list"
  vs_valid :: bool

definition vec_set :: "'a list \<Rightarrow> nat \<Rightarrow> 'a \<Rightarrow> 'a list option" where
  "vec_set xs i v = (if i < length xs then Some (xs[i := v]) else None)"

definition slot_lanes :: "value_slot \<Rightarrow> nat" where
  "slot_lanes s = (if vs_limbs s = 0 then 0 else length (vs_words s) div vs_limbs s)"

definition slot_prepare :: "nat \<Rightarrow> nat \<Rightarrow> nat \<Rightarrow> value_slot \<Rightarrow> value_slot" where
  "slot_prepare width n lanes s =
     s\<lparr>vs_width := width, vs_limbs := n, vs_valid := True,
       vs_words := (if length (vs_words s) \<noteq> n * lanes then vec_resize (n * lanes) 0 (vs_words s)
                    else vs_words s)\<rparr>"

definition slot_lane :: "value_slot \<Rightarrow> nat \<Rightarrow> u32 list option" where
  "slot_lane s lane =
     (if \<not> vs_valid s then Some [0]
      else mapM (\<lambda>limb. vec_get (vs_words s) (limb * slot_lanes s + lane)) [0..<vs_limbs s])"

text \<open>A run of writes of words, each at its index.\<close>

fun write_words :: "(nat \<times> u32) list \<Rightarrow> u32 list \<Rightarrow> u32 list option" where
  "write_words [] ws = Some ws"
| "write_words ((i, v) # ivs) ws = do { ws' \<leftarrow> vec_set ws i v; write_words ivs ws' }"

definition slot_set_lane :: "value_slot \<Rightarrow> nat \<Rightarrow> u32 list \<Rightarrow> value_slot option" where
  "slot_set_lane s lane v =
     do { ws \<leftarrow> write_words (map (\<lambda>limb.
            (limb * slot_lanes s + lane,
             let w = (if limb < length v then v ! limb else 0)
             in if limb = vs_limbs s - 1 then w AND final_limb_mask (vs_width s) else w))
            [0..<vs_limbs s]) (vs_words s);
          Some (s\<lparr>vs_words := ws, vs_valid := True\<rparr>) }"

type_synonym block_cache = "bit_type option list"

definition block_cache_of :: "packed_block \<Rightarrow> block_cache option" where
  "block_cache_of block =
     (let instrs = concat (map mp_instrs block);
          size = (if instrs = [] then 0 else Max (set (map in_dst instrs)) + 1)
      in fold (\<lambda>i r. do { types \<leftarrow> r; vec_set types (in_dst i) (Some (in_ty i)) }) instrs
           (Some (replicate size None)))"

definition value_width :: "block_cache \<Rightarrow> value_id \<Rightarrow> nat" where
  "value_width cache v =
     (case vec_get cache v of Some (Some ty) \<Rightarrow> bt_width ty | _ \<Rightarrow> 1)"

definition reset_slots :: "block_cache \<Rightarrow> nat \<Rightarrow> value_slot list \<Rightarrow> value_slot list" where
  "reset_slots cache lanes slots =
     (let slots1 = (if length slots \<noteq> length cache
                    then replicate (length cache) \<lparr>vs_limbs = 1, vs_width = 1, vs_words = replicate lanes 0, vs_valid = False\<rparr>
                    else slots)
      in map2 (\<lambda>s ty. let ty' = (case ty of None \<Rightarrow> BitType 1 Unsigned | Some t \<Rightarrow> t);
                          n = limbs (bt_width ty') * lanes
               in s\<lparr>vs_width := bt_width ty', vs_limbs := limbs (bt_width ty'), vs_valid := False,
                    vs_words := (if length (vs_words s) \<noteq> n then vec_resize n 0 (vs_words s) else vs_words s)\<rparr>)
           slots1 cache)"

section \<open>The simulator state\<close>

record register_capture =
  rc_signal :: nat
  rc_layout :: packed_layout
  rc_values :: "u32 list"

record stream_caches =
  sc_async_reset_comb :: block_cache
  sc_comb :: block_cache
  sc_tick_next :: block_cache
  sc_tick_commit :: block_cache

record stream_slots =
  ss_async_reset_comb :: "value_slot list"
  ss_comb :: "value_slot list"
  ss_tick_next :: "value_slot list"
  ss_tick_commit :: "value_slot list"

text \<open>\<open>pk_captures\<close> holds the first \<open>register_capture_count\<close> entries of \<open>register_captures\<close>.\<close>

record packed_simulator =
  pk_program :: packed_program
  pk_machine :: machine_program
  pk_execution :: stream_caches
  pk_workspaces :: stream_slots
  pk_lanes :: nat
  pk_values :: "u32 list"
  pk_memories :: "u32 list"
  pk_captures :: "register_capture list"

section \<open>Loads and stores\<close>

definition load_layout :: "packed_simulator \<Rightarrow> packed_layout \<Rightarrow> nat \<Rightarrow> u32 list option" where
  "load_layout s l lane =
     do { ws \<leftarrow> mapM (\<lambda>limb. vec_get (pk_values s) ((pl_offset l + limb) * pk_lanes s + lane)) [0..<pl_limbs l];
          Some (mask_to_width ws (pl_width l)) }"

definition load_signal :: "packed_simulator \<Rightarrow> nat \<Rightarrow> nat \<Rightarrow> u32 list option" where
  "load_signal s i lane = do { sg \<leftarrow> vec_get (pp_signals (pk_program s)) i; load_layout s (ps_layout sg) lane }"

definition memory_word_index :: "packed_simulator \<Rightarrow> packed_memory \<Rightarrow> nat \<Rightarrow> nat \<Rightarrow> nat \<Rightarrow> nat" where
  "memory_word_index s m lane addr limb =
     lane * pp_total_memory_words_per_lane (pk_program s) + pm_offset m
       + addr * pl_limbs (pm_data_layout m) + limb"

definition load_memory :: "packed_simulator \<Rightarrow> packed_memory \<Rightarrow> nat \<Rightarrow> nat \<Rightarrow> u32 list option" where
  "load_memory s m lane addr =
     do { ws \<leftarrow> mapM (\<lambda>limb. vec_get (pk_memories s) (memory_word_index s m lane addr limb))
            [0..<pl_limbs (pm_data_layout m)];
          Some (mask_to_width ws (pl_width (pm_data_layout m))) }"

definition store_layout :: "packed_simulator \<Rightarrow> packed_layout \<Rightarrow> nat \<Rightarrow> u32 list \<Rightarrow> packed_simulator option" where
  "store_layout s l lane v =
     (let stored = fit_limbs v (pl_ty l)
      in do { ivs \<leftarrow> mapM (\<lambda>limb. do { w \<leftarrow> vec_get stored limb;
                Some ((pl_offset l + limb) * pk_lanes s + lane, w) }) [0..<pl_limbs l];
              ws \<leftarrow> write_words ivs (pk_values s);
              Some (s\<lparr>pk_values := ws\<rparr>) })"

definition store_memory :: "packed_simulator \<Rightarrow> nat \<Rightarrow> nat \<Rightarrow> nat \<Rightarrow> u32 list \<Rightarrow> packed_simulator option" where
  "store_memory s memory lane addr v =
     do { m \<leftarrow> vec_get (pp_memories (pk_program s)) memory;
          let stored = fit_limbs v (pl_ty (pm_data_layout m))
          in do { ws \<leftarrow> write_words (map (\<lambda>limb. (memory_word_index s m lane addr limb, stored ! limb))
                    [0..<length stored]) (pk_memories s);
                  Some (s\<lparr>pk_memories := ws\<rparr>) } }"

text \<open>\<open>copy_from_slice\<close> of one limb of all lanes; the slices must have the same length.\<close>

definition copy_lanes :: "packed_simulator \<Rightarrow> packed_layout \<Rightarrow> u32 list \<Rightarrow> packed_simulator option" where
  "copy_lanes s l words =
     (let lanes = pk_lanes s
      in do { ivs \<leftarrow> mapM (\<lambda>(limb, lane). do { w \<leftarrow> vec_get words (limb * lanes + lane);
                Some ((pl_offset l + limb) * lanes + lane, w) }) (List.product [0..<pl_limbs l] [0..<lanes]);
              ws \<leftarrow> write_words ivs (pk_values s);
              Some (s\<lparr>pk_values := ws\<rparr>) })"

definition store_signal_slot :: "packed_simulator \<Rightarrow> nat \<Rightarrow> value_slot \<Rightarrow> packed_simulator option" where
  "store_signal_slot s i slot =
     do { sg \<leftarrow> vec_get (pp_signals (pk_program s)) i;
          let l = ps_layout sg
          in if vs_limbs slot = pl_limbs l \<and> length (vs_words slot) = pl_limbs l * pk_lanes s
             then copy_lanes s l (vs_words slot) else None }"

definition packed_reset_asserted :: "packed_simulator \<Rightarrow> packed_reset \<Rightarrow> nat \<Rightarrow> bool option" where
  "packed_reset_asserted s r lane =
     do { v \<leftarrow> load_signal s (pr_signal r) lane;
          Some (case pr_polarity r of ActiveHigh \<Rightarrow> decode_bool v | ActiveLow \<Rightarrow> \<not> decode_bool v) }"

section \<open>Instructions\<close>

definition machine_value :: "value_slot list \<Rightarrow> value_id \<Rightarrow> nat \<Rightarrow> u32 list option" where
  "machine_value slots v lane = do { s \<leftarrow> vec_get slots v; slot_lane s lane }"

text \<open>
  One node on limb vectors.  An operand is its value, which may panic, with its width; a case
  takes the operands it uses, in the order of the code.
\<close>

fun node_limbs :: "(nat \<Rightarrow> u32 list option) \<Rightarrow> (nat \<Rightarrow> nat \<Rightarrow> u32 list option) \<Rightarrow> bit_type
    \<Rightarrow> (u32 list option \<times> nat) packed_kind \<Rightarrow> u32 list option" where
  "node_limbs load rd ty (PLit ls) = Some ls"
| "node_limbs load rd ty (PSignal i) = load i"
| "node_limbs load rd ty (PNot a) = do { x \<leftarrow> fst a; Some (bit_not x ty) }"
| "node_limbs load rd ty (PAnd a b) = do { x \<leftarrow> fst a; y \<leftarrow> fst b; Some (bit_binop (AND) x y ty) }"
| "node_limbs load rd ty (POr a b) = do { x \<leftarrow> fst a; y \<leftarrow> fst b; Some (bit_binop (OR) x y ty) }"
| "node_limbs load rd ty (PXor a b) = do { x \<leftarrow> fst a; y \<leftarrow> fst b; Some (bit_binop (XOR) x y ty) }"
| "node_limbs load rd ty (PAdd a b) = do { x \<leftarrow> fst a; y \<leftarrow> fst b; Some (add_limbs x y ty) }"
| "node_limbs load rd ty (PSub a b) = do { x \<leftarrow> fst a; y \<leftarrow> fst b; Some (sub_limbs x y ty) }"
| "node_limbs load rd ty (PMul a b) = do { x \<leftarrow> fst a; y \<leftarrow> fst b; Some (mul_limbs x y ty) }"
| "node_limbs load rd ty (PEq a b) =
     do { x \<leftarrow> fst a; y \<leftarrow> fst b; Some (encode_bool (eq_values x y (max (snd a) (snd b)))) }"
| "node_limbs load rd ty (PNe a b) =
     do { x \<leftarrow> fst a; y \<leftarrow> fst b; Some (encode_bool (\<not> eq_values x y (max (snd a) (snd b)))) }"
| "node_limbs load rd ty (PLt a b signd) =
     do { x \<leftarrow> fst a; y \<leftarrow> fst b; r \<leftarrow> lt_values x y (snd a) signd; Some (encode_bool r) }"
| "node_limbs load rd ty (PMux c t e) = do { x \<leftarrow> fst c; if decode_bool x then fst t else fst e }"
| "node_limbs load rd ty (PSlice a lsb) = do { x \<leftarrow> fst a; Some (slice_limbs x lsb ty) }"
| "node_limbs load rd ty (PZext a) = do { x \<leftarrow> fst a; Some (fit_limbs x ty) }"
| "node_limbs load rd ty (PTrunc a) = do { x \<leftarrow> fst a; Some (fit_limbs x ty) }"
| "node_limbs load rd ty (PCast a) = do { x \<leftarrow> fst a; Some (fit_limbs x ty) }"
| "node_limbs load rd ty (PSext a) = do { x \<leftarrow> fst a; sext_limbs x (snd a) ty }"
| "node_limbs load rd ty (PConcat ps) =
     do { xs \<leftarrow> mapM fst ps; Some (concat_limbs (zip xs (map snd ps)) ty) }"
| "node_limbs load rd ty (PMemRead m a) = do { x \<leftarrow> fst a; rd m (decode_usize x) }"

definition memory_read :: "packed_simulator \<Rightarrow> nat \<Rightarrow> bit_type \<Rightarrow> nat \<Rightarrow> nat \<Rightarrow> u32 list option" where
  "memory_read s lane ty memory addr =
     do { m \<leftarrow> vec_get (pp_memories (pk_program s)) memory;
          if addr < pm_depth m then load_memory s m lane addr else Some (replicate (limbs (bt_width ty)) 0) }"

definition eval_machine_instr_lane ::
  "packed_simulator \<Rightarrow> block_cache \<Rightarrow> packed_instr \<Rightarrow> nat \<Rightarrow> value_slot list \<Rightarrow> u32 list option" where
  "eval_machine_instr_lane s cache i lane slots =
     do { v \<leftarrow> node_limbs (\<lambda>j. load_signal s j lane) (memory_read s lane (in_ty i)) (in_ty i)
            (map_packed_kind (\<lambda>v. (machine_value slots v lane, value_width cache v)) (in_kind i));
          Some (fit_limbs v (in_ty i)) }"

fun set_lanes :: "(nat \<Rightarrow> value_slot list \<Rightarrow> u32 list option) \<Rightarrow> value_id \<Rightarrow> nat list \<Rightarrow> value_slot list
    \<Rightarrow> value_slot list option" where
  "set_lanes f dst [] slots = Some slots"
| "set_lanes f dst (lane # ls) slots =
     do { v \<leftarrow> f lane slots; sl \<leftarrow> vec_get slots dst; sl' \<leftarrow> slot_set_lane sl lane v;
          set_lanes f dst ls (slots[dst := sl']) }"

definition eval_machine_instr_into ::
  "packed_simulator \<Rightarrow> block_cache \<Rightarrow> packed_instr \<Rightarrow> value_slot list \<Rightarrow> value_slot list option" where
  "eval_machine_instr_into s cache i slots =
     do { sl \<leftarrow> vec_get slots (in_dst i);
          set_lanes (eval_machine_instr_lane s cache i) (in_dst i) [0..<pk_lanes s]
            (slots[in_dst i := slot_prepare (bt_width (in_ty i)) (limbs (bt_width (in_ty i))) (pk_lanes s) sl]) }"

section \<open>Effects and blocks\<close>

text \<open>A loop over the lanes that changes the simulator.\<close>

fun for_lanes :: "(nat \<Rightarrow> 's \<Rightarrow> 's option) \<Rightarrow> nat list \<Rightarrow> 's \<Rightarrow> 's option" where
  "for_lanes f [] s = Some s"
| "for_lanes f (lane # ls) s = do { s' \<leftarrow> f lane s; for_lanes f ls s' }"

definition store_signal_lane :: "packed_simulator \<Rightarrow> nat \<Rightarrow> nat \<Rightarrow> u32 list \<Rightarrow> packed_simulator option" where
  "store_signal_lane s i lane v =
     do { sg \<leftarrow> vec_get (pp_signals (pk_program s)) i; store_layout s (ps_layout sg) lane v }"

definition async_reset_lane :: "value_slot list \<Rightarrow> nat \<Rightarrow> value_id \<Rightarrow> packed_reset \<Rightarrow> nat
    \<Rightarrow> packed_simulator \<Rightarrow> packed_simulator option" where
  "async_reset_lane slots dst v r lane s =
     do { asserted \<leftarrow> packed_reset_asserted s r lane;
          if asserted then do { x \<leftarrow> machine_value slots v lane; store_signal_lane s dst lane x } else Some s }"

definition memory_write_lane :: "value_slot list \<Rightarrow> nat \<Rightarrow> value_id \<Rightarrow> value_id \<Rightarrow> value_id \<Rightarrow> nat
    \<Rightarrow> packed_simulator \<Rightarrow> packed_simulator option" where
  "memory_write_lane slots memory en addr dat lane s =
     do { e \<leftarrow> machine_value slots en lane;
          if decode_bool e then
            do { a \<leftarrow> machine_value slots addr lane;
                 m \<leftarrow> vec_get (pp_memories (pk_program s)) memory;
                 if decode_usize a < pm_depth m then
                   do { v \<leftarrow> machine_value slots dat lane; store_memory s memory lane (decode_usize a) v }
                 else Some s }
          else Some s }"

fun execute_machine_effect :: "value_slot list \<Rightarrow> packed_effect \<Rightarrow> packed_simulator \<Rightarrow> packed_simulator option" where
  "execute_machine_effect slots (StoreSignal dst v) s =
     do { sl \<leftarrow> vec_get slots v; store_signal_slot s dst sl }"
| "execute_machine_effect slots (CaptureRegEffect dst v r) s =
     (case r of
        None \<Rightarrow> Some s
      | Some rst \<Rightarrow>
          if pr_kind rst \<noteq> Async then Some s
          else for_lanes (async_reset_lane slots dst v rst) [0..<pk_lanes s] s)"
| "execute_machine_effect slots (MemoryWriteEffect memory en addr dat) s =
     for_lanes (memory_write_lane slots memory en addr dat) [0..<pk_lanes s] s"

text \<open>
  The loop over the packets of a block, with the handling of one effect as a parameter: the same
  loop executes a block and captures registers.
\<close>

fun run_block :: "(value_slot list \<Rightarrow> packed_effect \<Rightarrow> packed_simulator \<Rightarrow> packed_simulator option) \<Rightarrow> block_cache
    \<Rightarrow> packed_block \<Rightarrow> packed_simulator \<times> value_slot list \<Rightarrow> (packed_simulator \<times> value_slot list) option" where
  "run_block eff cache [] (s, slots) = Some (s, slots)"
| "run_block eff cache (p # ps) (s, slots) =
     do { slots' \<leftarrow> exec_all (eval_machine_instr_into s cache) (mp_instrs p) slots;
          s' \<leftarrow> exec_all (eff slots') (mp_effects p) s;
          run_block eff cache ps (s', slots') }"

definition execute_machine_block :: "packed_block \<Rightarrow> block_cache \<Rightarrow> packed_simulator \<times> value_slot list
    \<Rightarrow> (packed_simulator \<times> value_slot list) option" where
  "execute_machine_block block cache = (\<lambda>(s, slots).
     run_block execute_machine_effect cache block (s, reset_slots cache (pk_lanes s) slots))"

definition capture_lane_values :: "packed_simulator \<Rightarrow> packed_layout \<Rightarrow> value_id \<Rightarrow> packed_reset option
    \<Rightarrow> value_slot list \<Rightarrow> nat \<Rightarrow> (nat \<times> u32) list option" where
  "capture_lane_values s l v r slots lane =
     do { asserted \<leftarrow> (case r of None \<Rightarrow> Some False | Some rst \<Rightarrow> packed_reset_asserted s rst lane);
          x \<leftarrow> (if asserted then Some (fit_limbs (case r of None \<Rightarrow> [] | Some rst \<Rightarrow> pr_value rst) (pl_ty l))
                else machine_value slots v lane);
          mapM (\<lambda>limb. do { w \<leftarrow> vec_get x limb; Some (limb * pk_lanes s + lane, w) }) [0..<pl_limbs l] }"

definition capture_register_value :: "value_slot list \<Rightarrow> nat \<Rightarrow> value_id \<Rightarrow> packed_reset option
    \<Rightarrow> packed_simulator \<Rightarrow> packed_simulator option" where
  "capture_register_value slots i v r s =
     do { sg \<leftarrow> vec_get (pp_signals (pk_program s)) i;
          let l = ps_layout sg
          in do { ivs \<leftarrow> mapM (capture_lane_values s l v r slots) [0..<pk_lanes s];
                  ws \<leftarrow> write_words (concat ivs) (replicate (pl_limbs l * pk_lanes s) 0);
                  Some (s\<lparr>pk_captures := pk_captures s @ [\<lparr>rc_signal = i, rc_layout = l, rc_values = ws\<rparr>]\<rparr>) } }"

fun capture_effect :: "value_slot list \<Rightarrow> packed_effect \<Rightarrow> packed_simulator \<Rightarrow> packed_simulator option" where
  "capture_effect slots (CaptureRegEffect dst v r) s = capture_register_value slots dst v r s"
| "capture_effect slots _ s = Some s"

definition capture_machine_registers :: "packed_block \<Rightarrow> block_cache \<Rightarrow> packed_simulator \<times> value_slot list
    \<Rightarrow> (packed_simulator \<times> value_slot list) option" where
  "capture_machine_registers block cache = (\<lambda>(s, slots).
     run_block capture_effect cache block (s, reset_slots cache (pk_lanes s) slots))"

fun commit_captures :: "register_capture list \<Rightarrow> packed_simulator \<Rightarrow> packed_simulator option" where
  "commit_captures [] s = Some s"
| "commit_captures (c # cs) s =
     (if length (rc_values c) \<noteq> pl_limbs (rc_layout c) * pk_lanes s then None
      else do { s' \<leftarrow> copy_lanes s (rc_layout c) (rc_values c); commit_captures cs s' })"

definition commit_register_captures :: "packed_simulator \<Rightarrow> packed_simulator option" where
  "commit_register_captures s = commit_captures (pk_captures s) s"

definition commit_register_captures_clocked :: "nat set \<Rightarrow> packed_simulator \<Rightarrow> packed_simulator option" where
  "commit_register_captures_clocked active s =
     commit_captures (filter (\<lambda>c. case pp_reg_clocks (pk_program s) (rc_signal c) of
         None \<Rightarrow> True | Some clock \<Rightarrow> clock \<in> active) (pk_captures s)) s"

section \<open>Streams and clock edges\<close>

definition execute_async_reset_comb :: "packed_simulator \<Rightarrow> packed_simulator option" where
  "execute_async_reset_comb s =
     (let block = ms_async_reset_comb (mc_streams (pk_machine s))
      in if block = [] then Some s
         else do { (s', slots) \<leftarrow> execute_machine_block block (sc_async_reset_comb (pk_execution s))
                     (s, ss_async_reset_comb (pk_workspaces s));
                   Some (s'\<lparr>pk_workspaces := (pk_workspaces s')\<lparr>ss_async_reset_comb := slots\<rparr>\<rparr>) })"

definition execute_comb :: "packed_simulator \<Rightarrow> packed_simulator option" where
  "execute_comb s =
     (let block = ms_comb (mc_streams (pk_machine s))
      in if block = [] then Some s
         else do { (s', slots) \<leftarrow> execute_machine_block block (sc_comb (pk_execution s))
                     (s, ss_comb (pk_workspaces s));
                   Some (s'\<lparr>pk_workspaces := (pk_workspaces s')\<lparr>ss_comb := slots\<rparr>\<rparr>) })"

definition execute_tick_commit :: "packed_simulator \<Rightarrow> packed_simulator option" where
  "execute_tick_commit s =
     (let block = ms_tick_commit (mc_streams (pk_machine s))
      in if block = [] then Some s
         else do { (s', slots) \<leftarrow> execute_machine_block block (sc_tick_commit (pk_execution s))
                     (s, ss_tick_commit (pk_workspaces s));
                   Some (s'\<lparr>pk_workspaces := (pk_workspaces s')\<lparr>ss_tick_commit := slots\<rparr>\<rparr>) })"

definition capture_register_stream :: "packed_simulator \<Rightarrow> packed_simulator option" where
  "capture_register_stream s =
     (let s0 = s\<lparr>pk_captures := []\<rparr>; block = ms_tick_next (mc_streams (pk_machine s))
      in if block = [] then Some s0
         else do { (s', slots) \<leftarrow> capture_machine_registers block (sc_tick_next (pk_execution s))
                     (s0, ss_tick_next (pk_workspaces s));
                   Some (s'\<lparr>pk_workspaces := (pk_workspaces s')\<lparr>ss_tick_next := slots\<rparr>\<rparr>) })"

definition packed_eval_combinational :: "packed_simulator \<Rightarrow> packed_simulator option" where
  "packed_eval_combinational s = do { s1 \<leftarrow> execute_comb s; execute_async_reset_comb s1 }"

definition tick_from_evaluated_no_post_eval :: "packed_simulator \<Rightarrow> packed_simulator option" where
  "tick_from_evaluated_no_post_eval s =
     do { s1 \<leftarrow> capture_register_stream s; s2 \<leftarrow> execute_tick_commit s1; commit_register_captures s2 }"

definition packed_tick :: "packed_simulator \<Rightarrow> packed_simulator option" where
  "packed_tick s =
     do { s1 \<leftarrow> packed_eval_combinational s; s2 \<leftarrow> tick_from_evaluated_no_post_eval s1;
          packed_eval_combinational s2 }"

fun tick_steps :: "nat \<Rightarrow> packed_simulator \<Rightarrow> packed_simulator option" where
  "tick_steps 0 s = Some s"
| "tick_steps (Suc n) s =
     do { s1 \<leftarrow> tick_from_evaluated_no_post_eval s; s2 \<leftarrow> packed_eval_combinational s1; tick_steps n s2 }"

definition packed_tick_many :: "nat \<Rightarrow> packed_simulator \<Rightarrow> packed_simulator option" where
  "packed_tick_many steps s =
     (if steps = 0 then Some s else do { s1 \<leftarrow> packed_eval_combinational s; tick_steps steps s1 })"

end
