(* ===== verification/Packed_Refine.thy ===== *)
theory Packed_Refine
  imports Packed_Sim
begin

text \<open>
  The lane-packed interpreter refines an abstract machine: in every lane, signals and memory words
  are integers, and a packet evaluates its expressions in the state before it and applies its
  operations in order.
\<close>

section \<open>Words of a limb-major vector\<close>

text \<open>The word at a row and a lane.\<close>

definition word_at :: "u32 list \<Rightarrow> nat \<Rightarrow> nat \<Rightarrow> nat \<Rightarrow> u32" where
  "word_at ws lanes row lane = ws ! (row * lanes + lane)"

definition rows_at :: "u32 list \<Rightarrow> nat \<Rightarrow> nat \<Rightarrow> nat \<Rightarrow> nat \<Rightarrow> u32 list" where
  "rows_at ws lanes off n lane = map (\<lambda>i. word_at ws lanes (off + i) lane) [0..<n]"

lemma length_rows_at [simp]: "length (rows_at ws lanes off n lane) = n"
  by (simp add: rows_at_def)

lemma row_index_less: "lane < lanes \<Longrightarrow> row < rows \<Longrightarrow> row * lanes + lane < rows * (lanes :: nat)"
proof -
  assume *: "lane < lanes" "row < rows"
  have "row * lanes + lane < row * lanes + lanes" using *(1) by simp
  also have "\<dots> = Suc row * lanes" by simp
  also have "\<dots> \<le> rows * lanes" using *(2) by (intro mult_le_mono1) simp
  finally show ?thesis .
qed

lemma row_index_inject:
  "lane < lanes \<Longrightarrow> lane' < (lanes :: nat) \<Longrightarrow> row * lanes + lane = row' * lanes + lane' \<longleftrightarrow> row = row' \<and> lane = lane'"
  by (metis add.commute div_mult_self1 less_nat_zero_code mod_mult_self1 mod_less div_less add_0 mod_mult_self3)

lemma mapM_vec_get:
  "\<forall>i \<in> set is. f i < length xs \<Longrightarrow> mapM (\<lambda>i. vec_get xs (f i)) is = Some (map (\<lambda>i. xs ! f i) is)"
  by (induction "is") (simp_all add: vec_get_def)

lemma write_words_ok:
  "\<forall>(i, v) \<in> set ivs. i < length ws \<Longrightarrow> distinct (map fst ivs) \<Longrightarrow>
    \<exists>ws'. write_words ivs ws = Some ws' \<and> length ws' = length ws
      \<and> (\<forall>(i, v) \<in> set ivs. ws' ! i = v) \<and> (\<forall>i. i \<notin> fst ` set ivs \<longrightarrow> ws' ! i = ws ! i)"
proof (induction ivs arbitrary: ws)
  case (Cons p ivs)
  obtain i v where p: "p = (i, v)" by (cases p)
  have i: "i < length ws" "i \<notin> fst ` set ivs" using Cons.prems by (auto simp: p)
  obtain ws' where ws': "write_words ivs (ws[i := v]) = Some ws'" "length ws' = length ws"
    "\<forall>(i, v) \<in> set ivs. ws' ! i = v" "\<forall>j. j \<notin> fst ` set ivs \<longrightarrow> ws' ! j = ws[i := v] ! j"
    using Cons.IH [of "ws[i := v]"] Cons.prems by (auto simp: p)
  have "ws' ! i = v" using ws'(4) i by simp
  moreover have "ws' ! j = ws ! j" if "j \<notin> fst ` set (p # ivs)" for j
    using ws'(4) that by (simp add: p)
  ultimately show ?case using ws'(1-3) i(1) by (auto simp: p vec_set_def)
qed simp

text \<open>Writing the rows of one lane, and the rows of all lanes.\<close>

lemma write_lane:
  assumes "lane < lanes" "length ws = rows * lanes" "off + n \<le> rows"
  shows "\<exists>ws'. write_words (map (\<lambda>i. ((off + i) * lanes + lane, f i)) [0..<n]) ws = Some ws'
    \<and> length ws' = length ws
    \<and> (\<forall>row lane'. lane' < lanes \<longrightarrow> word_at ws' lanes row lane' =
         (if lane' = lane \<and> off \<le> row \<and> row < off + n then f (row - off) else word_at ws lanes row lane'))"
proof -
  let ?ivs = "map (\<lambda>i. ((off + i) * lanes + lane, f i)) [0..<n]"
  have "\<forall>(i, v) \<in> set ?ivs. i < length ws"
    using row_index_less [OF assms(1), of _ rows] assms(2,3) by auto
  moreover have "distinct (map fst ?ivs)"
    using assms(1) row_index_inject by (auto simp: distinct_map inj_on_def comp_def)
  ultimately obtain ws' where ws': "write_words ?ivs ws = Some ws'" "length ws' = length ws"
    "\<forall>(i, v) \<in> set ?ivs. ws' ! i = v" "\<forall>i. i \<notin> fst ` set ?ivs \<longrightarrow> ws' ! i = ws ! i"
    using write_words_ok by blast
  have "word_at ws' lanes row lane' =
      (if lane' = lane \<and> off \<le> row \<and> row < off + n then f (row - off) else word_at ws lanes row lane')"
    if lane': "lane' < lanes" for row lane'
  proof (cases "lane' = lane \<and> off \<le> row \<and> row < off + n")
    case True
    then have "(row * lanes + lane', f (row - off)) \<in> set ?ivs" by (auto simp: image_iff intro: bexI [of _ "row - off"])
    with ws'(3) True show ?thesis by (auto simp: word_at_def)
  next
    case False
    have "row * lanes + lane' \<noteq> (off + i) * lanes + lane" if "i < n" for i
      using False that row_index_inject [OF lane' assms(1), of row "off + i"] by auto
    then have "row * lanes + lane' \<notin> fst ` set ?ivs" by (auto simp: image_iff)
    with ws'(4) have "ws' ! (row * lanes + lane') = ws ! (row * lanes + lane')" by blast
    with False show ?thesis by (auto simp: word_at_def)
  qed
  with ws'(1,2) show ?thesis by blast
qed

lemma write_all_lanes:
  assumes "length ws = rows * lanes" "off + n \<le> rows"
  shows "\<exists>ws'. write_words (map (\<lambda>(i, lane). ((off + i) * lanes + lane, f i lane)) (List.product [0..<n] [0..<lanes])) ws
      = Some ws' \<and> length ws' = length ws
    \<and> (\<forall>row lane. lane < lanes \<longrightarrow> word_at ws' lanes row lane =
         (if off \<le> row \<and> row < off + n then f (row - off) lane else word_at ws lanes row lane))"
proof -
  let ?ivs = "map (\<lambda>(i, lane). ((off + i) * lanes + lane, f i lane)) (List.product [0..<n] [0..<lanes])"
  have "\<forall>(i, v) \<in> set ?ivs. i < length ws"
    using row_index_less [of _ lanes _ rows] assms by auto
  moreover have "distinct (map fst ?ivs)"
    by (auto simp: distinct_map inj_on_def comp_def case_prod_beta distinct_product row_index_inject)
  ultimately obtain ws' where ws': "write_words ?ivs ws = Some ws'" "length ws' = length ws"
    "\<forall>(i, v) \<in> set ?ivs. ws' ! i = v" "\<forall>i. i \<notin> fst ` set ?ivs \<longrightarrow> ws' ! i = ws ! i"
    using write_words_ok by blast
  have "word_at ws' lanes row lane =
      (if off \<le> row \<and> row < off + n then f (row - off) lane else word_at ws lanes row lane)"
    if lane: "lane < lanes" for row lane
  proof (cases "off \<le> row \<and> row < off + n")
    case True
    then have "(row * lanes + lane, f (row - off) lane) \<in> set ?ivs"
      using lane by (auto intro!: image_eqI [where x = "(row - off, lane)"])
    with ws'(3) True show ?thesis by (auto simp: word_at_def)
  next
    case False
    have "row * lanes + lane \<noteq> (off + i) * lanes + lane'" if "i < n" "lane' < lanes" for i lane'
      using False that lane row_index_inject [of lane lanes lane' row "off + i"] by auto
    then have "row * lanes + lane \<notin> fst ` set ?ivs" by (auto simp: image_iff)
    with ws'(4) have "ws' ! (row * lanes + lane) = ws ! (row * lanes + lane)" by blast
    with False show ?thesis by (auto simp: word_at_def)
  qed
  with ws'(1,2) show ?thesis by blast
qed

section \<open>Slots\<close>

definition slot_ok :: "nat \<Rightarrow> value_slot \<Rightarrow> bool" where
  "slot_ok lanes s \<longleftrightarrow> vs_valid s \<and> width_ok (vs_width s) \<and> vs_limbs s = limbs (vs_width s)
     \<and> length (vs_words s) = vs_limbs s * lanes"

definition slot_words :: "nat \<Rightarrow> value_slot \<Rightarrow> nat \<Rightarrow> u32 list" where
  "slot_words lanes s lane = rows_at (vs_words s) lanes 0 (vs_limbs s) lane"

lemma slot_lanes_ok: "vs_limbs s = limbs w \<Longrightarrow> length (vs_words s) = vs_limbs s * lanes \<Longrightarrow> slot_lanes s = lanes"
  using limbs_pos [of w] by (simp add: slot_lanes_def)

lemma slot_lane_ok:
  assumes "slot_ok lanes s" "lane < lanes"
  shows "slot_lane s lane = Some (slot_words lanes s lane)"
proof -
  have "slot_lanes s = lanes" using assms(1) slot_lanes_ok by (auto simp: slot_ok_def)
  moreover have "\<forall>i \<in> set [0..<vs_limbs s]. i * lanes + lane < length (vs_words s)"
    using assms row_index_less by (auto simp: slot_ok_def)
  ultimately show ?thesis
    using assms(1) by (simp add: slot_lane_def mapM_vec_get slot_words_def rows_at_def word_at_def slot_ok_def)
qed

lemma slot_set_lane_ok:
  assumes s: "vs_limbs s = limbs (vs_width s)" "length (vs_words s) = vs_limbs s * lanes" "width_ok (vs_width s)"
    and "lane < lanes" "length v = limbs (vs_width s)"
  shows "\<exists>s'. slot_set_lane s lane v = Some s' \<and> slot_ok lanes s' \<and> vs_width s' = vs_width s
    \<and> slot_words lanes s' lane = mask_last (vs_width s) v
    \<and> (\<forall>l < lanes. l \<noteq> lane \<longrightarrow> slot_words lanes s' l = slot_words lanes s l)"
proof -
  have lanes: "slot_lanes s = lanes" using s(1,2) by (rule slot_lanes_ok)
  let ?f = "\<lambda>limb. let w = (if limb < length v then v ! limb else 0)
             in if limb = vs_limbs s - 1 then w AND final_limb_mask (vs_width s) else w"
  obtain ws where ws: "write_words (map (\<lambda>limb. ((0 + limb) * lanes + lane, ?f limb)) [0..<vs_limbs s]) (vs_words s) = Some ws"
    "length ws = length (vs_words s)"
    "\<forall>row lane'. lane' < lanes \<longrightarrow> word_at ws lanes row lane' =
       (if lane' = lane \<and> 0 \<le> row \<and> row < 0 + vs_limbs s then ?f (row - 0) else word_at (vs_words s) lanes row lane')"
    using write_lane [OF assms(4) s(2), of 0 "vs_limbs s" ?f] by auto
  let ?s = "s\<lparr>vs_words := ws, vs_valid := True\<rparr>"
  have "slot_set_lane s lane v = Some ?s" using ws(1) by (simp add: slot_set_lane_def lanes)
  moreover have "slot_words lanes ?s lane = mask_last (vs_width s) v"
  proof -
    have "v \<noteq> []" using assms(5) limbs_pos [of "vs_width s"] by auto
    have "map ?f [0..<length v] = mask_last (vs_width s) v"
      using \<open>v \<noteq> []\<close> by (intro nth_equalityI)
        (auto simp: mask_last_def nth_append nth_butlast last_conv_nth Let_def s(1) assms(5) [symmetric]
          dest: le_neq_implies_less)
    moreover have "slot_words lanes ?s lane = map ?f [0..<vs_limbs s]"
      using ws(3) assms(4) by (simp add: slot_words_def rows_at_def)
    ultimately show ?thesis using assms(5) s(1) by simp
  qed
  moreover have "slot_words lanes ?s l = slot_words lanes s l" if "l < lanes" "l \<noteq> lane" for l
    using ws(3) that by (simp add: slot_words_def rows_at_def)
  ultimately show ?thesis using s ws(2) by (intro exI [of _ ?s]) (simp add: slot_ok_def)
qed

section \<open>Nodes\<close>

lemma mapM_fst_some: "mapM fst (map (\<lambda>v. (Some (X v), W v)) vs) = Some (map X vs)"
  by (induction vs) simp_all

lemma node_limbs_value:
  assumes w: "width_ok (bt_width ty)" "\<forall>v \<in> set_packed_kind k. width_ok (W v)"
    and load: "\<And>i. k = PSignal i \<Longrightarrow> \<exists>ls. load i = Some ls \<and> lval ls = S i"
    and read: "\<And>m a. k = PMemRead m a \<Longrightarrow> \<exists>ls. rd m (decode_usize (X a)) = Some ls \<and> lval ls = R m (lval (X a))"
  shows "\<exists>out. node_limbs load rd ty (map_packed_kind (\<lambda>v. (Some (X v), W v)) k) = Some out
    \<and> lval (fit_limbs out ty) = take_bit (bt_width ty) (node_value S R (map_packed_kind (\<lambda>v. (lval (X v), W v)) k))"
proof -
  have pos: "0 < bt_width ty" "bt_width ty < 2 ^ 32" using w(1) by (simp_all add: width_ok_def)
  have ops: "0 < W v" if "v \<in> set_packed_kind k" for v using w(2) that by (simp add: width_ok_def)
  show ?thesis
  proof (cases k)
    case (PSext a)
    then have "0 < W a" using ops by simp
    from lval_sext_limbs [OF pos(1) this, of "X a"] show ?thesis
      using PSext pos by (auto simp: lval_fit_limbs)
  next
    case (PConcat vs)
    have "map (map_prod lval id) (zip (map X vs) (map W vs)) = map (\<lambda>v. (lval (X v), W v)) vs"
      by (simp add: zip_map_map comp_def zip_same_conv_map)
    then show ?thesis using PConcat pos
      by (simp add: mapM_fst_some comp_def lval_concat_limbs lval_fit_limbs)
  next
    case (PSignal i)
    with load [of i] pos show ?thesis by (auto simp: lval_fit_limbs)
  next
    case (PMemRead m a)
    with read [of m a] pos show ?thesis by (auto simp: lval_fit_limbs)
  qed (use pos ops in \<open>auto simp: limb_simps max_def\<close>)
qed

section \<open>Well-formed programs and simulators\<close>

definition layout_ok :: "packed_layout \<Rightarrow> bool" where
  "layout_ok l \<longleftrightarrow> width_ok (pl_width l) \<and> pl_width l = bt_width (pl_ty l) \<and> pl_limbs l = limbs (pl_width l)"

definition disjoint_ranges :: "(nat \<times> nat) list \<Rightarrow> bool" where
  "disjoint_ranges rs \<longleftrightarrow> (\<forall>i < length rs. \<forall>j < length rs. i \<noteq> j \<longrightarrow>
     fst (rs ! i) + snd (rs ! i) \<le> fst (rs ! j) \<or> fst (rs ! j) + snd (rs ! j) \<le> fst (rs ! i))"

definition signal_range :: "packed_signal \<Rightarrow> nat \<times> nat" where
  "signal_range sg = (pl_offset (ps_layout sg), pl_limbs (ps_layout sg))"

definition memory_range :: "packed_memory \<Rightarrow> nat \<times> nat" where
  "memory_range m = (pm_offset m, pm_depth m * pl_limbs (pm_data_layout m))"

text \<open>The largest depth is the largest \<open>usize\<close>.\<close>

definition layouts_wf :: "packed_program \<Rightarrow> bool" where
  "layouts_wf p \<longleftrightarrow>
     (\<forall>sg \<in> set (pp_signals p). layout_ok (ps_layout sg)
        \<and> pl_offset (ps_layout sg) + pl_limbs (ps_layout sg) \<le> pp_total_signal_words p)
     \<and> disjoint_ranges (map signal_range (pp_signals p))
     \<and> (\<forall>m \<in> set (pp_memories p). layout_ok (pm_data_layout m) \<and> pm_depth m < 2 ^ 64
        \<and> pm_offset m + pm_depth m * pl_limbs (pm_data_layout m) \<le> pp_total_memory_words_per_lane p)
     \<and> disjoint_ranges (map memory_range (pp_memories p))"

definition storage_ok :: "packed_simulator \<Rightarrow> bool" where
  "storage_ok s \<longleftrightarrow> layouts_wf (pk_program s)
     \<and> length (pk_values s) = pp_total_signal_words (pk_program s) * pk_lanes s
     \<and> length (pk_memories s) = pk_lanes s * pp_total_memory_words_per_lane (pk_program s)"

text \<open>The values a lane holds.\<close>

definition layout_value :: "packed_simulator \<Rightarrow> packed_layout \<Rightarrow> nat \<Rightarrow> int" where
  "layout_value s l lane =
     take_bit (pl_width l) (lval (rows_at (pk_values s) (pk_lanes s) (pl_offset l) (pl_limbs l) lane))"

definition lane_signal :: "packed_simulator \<Rightarrow> nat \<Rightarrow> nat \<Rightarrow> int" where
  "lane_signal s lane i =
     (if i < length (pp_signals (pk_program s))
      then layout_value s (ps_layout (pp_signals (pk_program s) ! i)) lane else 0)"

definition memory_words :: "packed_simulator \<Rightarrow> packed_memory \<Rightarrow> nat \<Rightarrow> nat \<Rightarrow> u32 list" where
  "memory_words s m lane addr =
     map (\<lambda>limb. pk_memories s ! memory_word_index s m lane addr limb) [0..<pl_limbs (pm_data_layout m)]"

definition lane_memory :: "packed_simulator \<Rightarrow> nat \<Rightarrow> nat \<Rightarrow> int \<Rightarrow> int" where
  "lane_memory s lane i a =
     (if i < length (pp_memories (pk_program s))
      then let m = pp_memories (pk_program s) ! i
           in if 0 \<le> a \<and> a < int (pm_depth m)
              then take_bit (pl_width (pm_data_layout m)) (lval (memory_words s m lane (nat a))) else 0
      else 0)"

lemma storage_signal:
  assumes "storage_ok s" "i < length (pp_signals (pk_program s))"
  shows "layout_ok (ps_layout (pp_signals (pk_program s) ! i))"
    and "pl_offset (ps_layout (pp_signals (pk_program s) ! i)) + pl_limbs (ps_layout (pp_signals (pk_program s) ! i))
      \<le> pp_total_signal_words (pk_program s)"
  using assms by (auto simp: storage_ok_def layouts_wf_def)

lemma load_layout_ok:
  assumes s: "storage_ok s" and l: "layout_ok l" "pl_offset l + pl_limbs l \<le> pp_total_signal_words (pk_program s)"
    and "lane < pk_lanes s"
  shows "\<exists>ls. load_layout s l lane = Some ls \<and> lval ls = layout_value s l lane \<and> length ls = pl_limbs l"
proof -
  have "\<forall>i \<in> set [0..<pl_limbs l]. (pl_offset l + i) * pk_lanes s + lane < length (pk_values s)"
    using row_index_less [OF assms(4)] s l(2) by (auto simp: storage_ok_def)
  then show ?thesis
    using l(1) by (simp add: load_layout_def mapM_vec_get layout_ok_def width_ok_def lval_mask_to_width
        layout_value_def rows_at_def word_at_def)
qed

lemma load_signal_ok:
  assumes "storage_ok s" "i < length (pp_signals (pk_program s))" "lane < pk_lanes s"
  shows "\<exists>ls. load_signal s i lane = Some ls \<and> lval ls = lane_signal s lane i"
  using load_layout_ok [OF assms(1) storage_signal [OF assms(1,2)] assms(3)] assms(2)
  by (auto simp: load_signal_def vec_get_def lane_signal_def)

lemma memory_index_less:
  assumes s: "storage_ok s" and m: "m \<in> set (pp_memories (pk_program s))"
    and "lane < pk_lanes s" "addr < pm_depth m" "limb < pl_limbs (pm_data_layout m)"
  shows "memory_word_index s m lane addr limb < length (pk_memories s)"
    and "pm_offset m + addr * pl_limbs (pm_data_layout m) + limb < pp_total_memory_words_per_lane (pk_program s)"
proof -
  have "addr * pl_limbs (pm_data_layout m) + limb < pm_depth m * pl_limbs (pm_data_layout m)"
    using row_index_less [OF assms(5,4)] .
  moreover have "pm_offset m + pm_depth m * pl_limbs (pm_data_layout m) \<le> pp_total_memory_words_per_lane (pk_program s)"
    using s m by (auto simp: storage_ok_def layouts_wf_def)
  ultimately show in_lane: "pm_offset m + addr * pl_limbs (pm_data_layout m) + limb < pp_total_memory_words_per_lane (pk_program s)"
    by linarith
  show "memory_word_index s m lane addr limb < length (pk_memories s)"
    using row_index_less [OF in_lane assms(3)] s by (simp add: memory_word_index_def storage_ok_def add.assoc)
qed

lemma load_memory_ok:
  assumes s: "storage_ok s" and m: "m \<in> set (pp_memories (pk_program s))"
    and "lane < pk_lanes s" "addr < pm_depth m"
  shows "\<exists>ls. load_memory s m lane addr = Some ls
    \<and> lval ls = take_bit (pl_width (pm_data_layout m)) (lval (memory_words s m lane addr))"
proof -
  have "\<forall>limb \<in> set [0..<pl_limbs (pm_data_layout m)]. memory_word_index s m lane addr limb < length (pk_memories s)"
    using memory_index_less(1) [OF assms] by simp
  moreover have "width_ok (pl_width (pm_data_layout m))"
    using s m by (auto simp: storage_ok_def layouts_wf_def layout_ok_def)
  ultimately show ?thesis
    by (simp add: load_memory_def mapM_vec_get memory_words_def lval_mask_to_width width_ok_def)
qed

lemma memory_read_ok:
  assumes s: "storage_ok s" and i: "i < length (pp_memories (pk_program s))" and lane: "lane < pk_lanes s"
  shows "\<exists>ls. memory_read s lane ty i (decode_usize xs) = Some ls \<and> lval ls = lane_memory s lane i (lval xs)"
proof -
  let ?m = "pp_memories (pk_program s) ! i" and ?a = "decode_usize xs"
  have m: "?m \<in> set (pp_memories (pk_program s))" using i by simp
  then have ok: "layout_ok (pm_data_layout ?m)" "pm_depth ?m < 2 ^ 64"
    using s by (auto simp: storage_ok_def layouts_wf_def)
  have less: "?a < pm_depth ?m \<longleftrightarrow> lval xs < int (pm_depth ?m)" by (rule decode_usize_less [OF ok(2)])
  show ?thesis
  proof (cases "?a < pm_depth ?m")
    case True
    then have "lval xs = int ?a" using decode_usize_less(2) [OF ok(2)] by simp
    then have nat: "nat (lval xs) = ?a" by simp
    obtain ls where "load_memory s ?m lane ?a = Some ls"
      "lval ls = take_bit (pl_width (pm_data_layout ?m)) (lval (memory_words s ?m lane ?a))"
      using load_memory_ok [OF s m lane True] by blast
    then show ?thesis
      using True i less lval_nonneg [of xs] nat
      by (simp add: memory_read_def lane_memory_def Let_def)
  next
    case False
    then show ?thesis using i less by (simp add: memory_read_def lane_memory_def Let_def)
  qed
qed

section \<open>Executing one instruction\<close>

definition value_present :: "packed_simulator \<Rightarrow> block_cache \<Rightarrow> value_slot list \<Rightarrow> value_id \<Rightarrow> bool" where
  "value_present s cache slots v \<longleftrightarrow>
     v < length slots \<and> slot_ok (pk_lanes s) (slots ! v) \<and> vs_width (slots ! v) = value_width cache v"

definition lane_value :: "packed_simulator \<Rightarrow> value_slot list \<Rightarrow> value_id \<Rightarrow> nat \<Rightarrow> int" where
  "lane_value s slots v lane = lval (slot_words (pk_lanes s) (slots ! v) lane)"

definition instr_runnable :: "packed_simulator \<Rightarrow> block_cache \<Rightarrow> packed_instr \<Rightarrow> bool" where
  "instr_runnable s cache i \<longleftrightarrow>
     storage_ok s \<and> width_ok (bt_width (in_ty i)) \<and> in_dst i < length cache
     \<and> value_width cache (in_dst i) = bt_width (in_ty i) \<and> in_dst i \<notin> set_packed_kind (in_kind i)
     \<and> (\<forall>v \<in> set_packed_kind (in_kind i). width_ok (value_width cache v))
     \<and> (\<forall>j. in_kind i = PSignal j \<longrightarrow> j < length (pp_signals (pk_program s)))
     \<and> (\<forall>m a. in_kind i = PMemRead m a \<longrightarrow> m < length (pp_memories (pk_program s)))"

lemma machine_value_present:
  assumes "value_present s cache slots v" "lane < pk_lanes s"
  shows "machine_value slots v lane = Some (slot_words (pk_lanes s) (slots ! v) lane)"
  using assms by (simp add: machine_value_def value_present_def slot_lane_ok)

lemma eval_instr_lane_ok:
  assumes run: "instr_runnable s cache i" and ops: "\<forall>v \<in> set_packed_kind (in_kind i). value_present s cache slots v"
    and lane: "lane < pk_lanes s"
  shows "\<exists>out. eval_machine_instr_lane s cache i lane slots = Some out
    \<and> length out = limbs (bt_width (in_ty i))
    \<and> lval out = take_bit (bt_width (in_ty i)) (node_value (lane_signal s lane) (lane_memory s lane)
        (map_packed_kind (\<lambda>v. (lane_value s slots v lane, value_width cache v)) (in_kind i)))"
proof -
  let ?X = "\<lambda>v. slot_words (pk_lanes s) (slots ! v) lane"
  have kind: "map_packed_kind (\<lambda>v. (machine_value slots v lane, value_width cache v)) (in_kind i)
      = map_packed_kind (\<lambda>v. (Some (?X v), value_width cache v)) (in_kind i)"
    using ops machine_value_present [OF _ lane] by (intro packed_kind.map_cong) auto
  have st: "storage_ok s" using run by (simp add: instr_runnable_def)
  have "\<exists>ls. load_signal s j lane = Some ls \<and> lval ls = lane_signal s lane j" if "in_kind i = PSignal j" for j
    using load_signal_ok [OF st _ lane] run that by (simp add: instr_runnable_def)
  moreover have "\<exists>ls. memory_read s lane (in_ty i) m (decode_usize (?X a)) = Some ls
      \<and> lval ls = lane_memory s lane m (lval (?X a))" if "in_kind i = PMemRead m a" for m a
    using memory_read_ok [OF st _ lane] run that by (simp add: instr_runnable_def)
  ultimately have "\<exists>out. node_limbs (\<lambda>j. load_signal s j lane) (memory_read s lane (in_ty i)) (in_ty i)
        (map_packed_kind (\<lambda>v. (Some (?X v), value_width cache v)) (in_kind i)) = Some out
      \<and> lval (fit_limbs out (in_ty i)) = take_bit (bt_width (in_ty i)) (node_value (lane_signal s lane) (lane_memory s lane)
          (map_packed_kind (\<lambda>v. (lval (?X v), value_width cache v)) (in_kind i)))"
    using run by (intro node_limbs_value) (simp_all add: instr_runnable_def)
  then show ?thesis by (auto simp: eval_machine_instr_lane_def kind lane_value_def)
qed

lemma mask_last_fits:
  assumes "length xs = limbs w" "0 < w" "take_bit w (lval xs) = lval xs"
  shows "mask_last w xs = xs"
  by (subst lval_inject [symmetric]) (simp_all add: lval_mask_last assms)

lemma set_lanes_other:
  "set_lanes f dst ls slots = Some slots' \<Longrightarrow> length slots' = length slots \<and> (\<forall>v. v \<noteq> dst \<longrightarrow> slots' ! v = slots ! v)"
proof (induction ls arbitrary: slots)
  case (Cons lane ls)
  then obtain sl where "set_lanes f dst ls (slots[dst := sl]) = Some slots'"
    by (auto simp: bind_eq_Some)
  from Cons.IH [OF this] show ?case by simp
qed simp

lemma set_lanes_ok:
  assumes "\<And>lane slots'. lane \<in> set ls \<Longrightarrow> length slots' = length slots \<Longrightarrow>
      (\<forall>v. v \<noteq> dst \<longrightarrow> slots' ! v = slots ! v) \<Longrightarrow> f lane slots' = Some (V lane)"
    and "\<forall>lane \<in> set ls. lane < lanes \<and> length (V lane) = limbs w"
    and "dst < length slots" "slot_ok lanes (slots ! dst)" "vs_width (slots ! dst) = w" "distinct ls"
  shows "\<exists>sl. set_lanes f dst ls slots = Some (slots[dst := sl]) \<and> slot_ok lanes sl \<and> vs_width sl = w
    \<and> (\<forall>lane < lanes. slot_words lanes sl lane =
         (if lane \<in> set ls then mask_last w (V lane) else slot_words lanes (slots ! dst) lane))"
  using assms
proof (induction ls arbitrary: slots)
  case Nil
  then show ?case by (auto intro!: exI [of _ "slots ! dst"])
next
  case (Cons lane ls)
  have sl: "vs_limbs (slots ! dst) = limbs (vs_width (slots ! dst))"
    "length (vs_words (slots ! dst)) = vs_limbs (slots ! dst) * lanes" "width_ok (vs_width (slots ! dst))"
    using Cons.prems(4) by (simp_all add: slot_ok_def)
  have "f lane slots = Some (V lane)" using Cons.prems(1) by simp
  moreover obtain sl1 where sl1: "slot_set_lane (slots ! dst) lane (V lane) = Some sl1" "slot_ok lanes sl1"
    "vs_width sl1 = w" "slot_words lanes sl1 lane = mask_last w (V lane)"
    "\<forall>l < lanes. l \<noteq> lane \<longrightarrow> slot_words lanes sl1 l = slot_words lanes (slots ! dst) l"
    using slot_set_lane_ok [OF sl, of lane "V lane"] Cons.prems(2,5) by auto
  moreover obtain sl2 where sl2: "set_lanes f dst ls (slots[dst := sl1]) = Some (slots[dst := sl1, dst := sl2])"
    "slot_ok lanes sl2" "vs_width sl2 = w"
    "\<forall>l < lanes. slot_words lanes sl2 l =
       (if l \<in> set ls then mask_last w (V l) else slot_words lanes (slots[dst := sl1] ! dst) l)"
    using Cons.IH [of "slots[dst := sl1]"] Cons.prems sl1(2,3) by (auto simp: nth_list_update)
  ultimately show ?case using Cons.prems(3,6) by (intro exI [of _ sl2]) auto
qed

lemma slot_prepare_ok:
  "width_ok w \<Longrightarrow> slot_ok lanes (slot_prepare w (limbs w) lanes sl) \<and> vs_width (slot_prepare w (limbs w) lanes sl) = w"
  by (simp add: slot_ok_def slot_prepare_def)

lemma eval_instr_into_ok:
  assumes run: "instr_runnable s cache i" and len: "length slots = length cache"
    and ops: "\<forall>v \<in> set_packed_kind (in_kind i). value_present s cache slots v"
  shows "\<exists>sl. eval_machine_instr_into s cache i slots = Some (slots[in_dst i := sl])
    \<and> slot_ok (pk_lanes s) sl \<and> vs_width sl = bt_width (in_ty i)
    \<and> (\<forall>lane < pk_lanes s. lval (slot_words (pk_lanes s) sl lane) =
        take_bit (bt_width (in_ty i)) (node_value (lane_signal s lane) (lane_memory s lane)
          (map_packed_kind (\<lambda>v. (lane_value s slots v lane, value_width cache v)) (in_kind i))))"
proof -
  let ?w = "bt_width (in_ty i)" and ?d = "in_dst i"
  let ?N = "\<lambda>lane. take_bit ?w (node_value (lane_signal s lane) (lane_memory s lane)
      (map_packed_kind (\<lambda>v. (lane_value s slots v lane, value_width cache v)) (in_kind i)))"
  let ?slots = "slots[?d := slot_prepare ?w (limbs ?w) (pk_lanes s) (slots ! ?d)]"
  define V where "V lane = the (eval_machine_instr_lane s cache i lane slots)" for lane
  have w: "width_ok ?w" and d: "?d < length slots" "?d \<notin> set_packed_kind (in_kind i)"
    using run len by (simp_all add: instr_runnable_def)
  have V: "eval_machine_instr_lane s cache i lane slots = Some (V lane) \<and> length (V lane) = limbs ?w \<and> lval (V lane) = ?N lane"
    if "lane < pk_lanes s" for lane
    using eval_instr_lane_ok [OF run ops that] by (auto simp: V_def)
  have other: "eval_machine_instr_lane s cache i lane slots' = Some (V lane)"
    if "lane \<in> set [0..<pk_lanes s]" "length slots' = length ?slots" "\<forall>v. v \<noteq> ?d \<longrightarrow> slots' ! v = ?slots ! v"
    for lane slots'
  proof -
    have "map_packed_kind (\<lambda>v. (machine_value slots' v lane, value_width cache v)) (in_kind i) =
        map_packed_kind (\<lambda>v. (machine_value slots v lane, value_width cache v)) (in_kind i)"
    proof (intro packed_kind.map_cong refl)
      fix v assume "v \<in> set_packed_kind (in_kind i)"
      with d(2) have "v \<noteq> ?d" by blast
      with that(2,3) show "(machine_value slots' v lane, value_width cache v) = (machine_value slots v lane, value_width cache v)"
        by (simp add: machine_value_def vec_get_def)
    qed
    then show ?thesis using V [of lane] that(1) by (simp add: eval_machine_instr_lane_def)
  qed
  obtain sl where sl: "set_lanes (eval_machine_instr_lane s cache i) ?d [0..<pk_lanes s] ?slots = Some (?slots[?d := sl])"
    "slot_ok (pk_lanes s) sl" "vs_width sl = ?w"
    "\<forall>lane < pk_lanes s. slot_words (pk_lanes s) sl lane = mask_last ?w (V lane)"
    using set_lanes_ok [of "[0..<pk_lanes s]" ?slots ?d "eval_machine_instr_lane s cache i" V "pk_lanes s" ?w]
      other V d(1) slot_prepare_ok [OF w] by auto
  have "lval (slot_words (pk_lanes s) sl lane) = ?N lane" if "lane < pk_lanes s" for lane
    using sl(4) V [OF that] that w by (simp add: lval_mask_last width_ok_def)
  with sl(1-3) d(1) show ?thesis
    by (intro exI [of _ sl]) (simp add: eval_machine_instr_into_def)
qed

interpretation lanes: node_engine "eval_machine_instr_into s cache" "\<lambda>slots. length slots = length cache"
  "value_present s cache" "lane_value s" "value_width cache" "instr_runnable s cache"
  "\<lambda>lane. lane < pk_lanes s" "lane_signal s" "lane_memory s" for s cache
proof
  fix i slots
  assume run: "instr_runnable s cache i" and len: "length slots = length cache"
    and ops: "\<forall>v \<in> set_packed_kind (in_kind i). value_present s cache slots v"
  have d: "in_dst i < length slots" "value_width cache (in_dst i) = bt_width (in_ty i)"
    using run len by (simp_all add: instr_runnable_def)
  from eval_instr_into_ok [OF run len ops] d len
  show "\<exists>slots'. eval_machine_instr_into s cache i slots = Some slots' \<and> length slots' = length cache \<and>
      value_present s cache slots' (in_dst i) \<and>
      (\<forall>l. l < pk_lanes s \<longrightarrow> lane_value s slots' (in_dst i) l = take_bit (bt_width (in_ty i))
         (node_value (lane_signal s l) (lane_memory s l)
            (map_packed_kind (\<lambda>v. (lane_value s slots v l, value_width cache v)) (in_kind i))))"
    by (auto simp: value_present_def lane_value_def)
next
  fix i slots slots' v
  assume run: "instr_runnable s cache i" and "eval_machine_instr_into s cache i slots = Some slots'"
    and "v \<noteq> in_dst i" "value_present s cache slots v"
  then show "value_present s cache slots' v \<and> (\<forall>l. l < pk_lanes s \<longrightarrow> lane_value s slots' v l = lane_value s slots v l)"
    by (auto simp: eval_machine_instr_into_def bind_eq_Some value_present_def lane_value_def dest!: set_lanes_other)
qed

end
