(* ===== verification/Packed_Block.thy ===== *)
theory Packed_Block
  imports Packed_Refine
begin

text \<open>
  Execution of whole blocks: stores change one signal or memory word of one lane, effects are the
  operations they were lowered from, and a block is the sequence of its packets on every lane.
\<close>

section \<open>Stores\<close>

lemma range_apart:
  assumes "disjoint_ranges (map f xs)" "i < length xs" "j < length xs" "i \<noteq> j"
    and "fst (f (xs ! i)) \<le> k" "k < fst (f (xs ! i)) + snd (f (xs ! i))"
    and "fst (f (xs ! j)) \<le> k'" "k' < fst (f (xs ! j)) + snd (f (xs ! j))"
  shows "k \<noteq> k'"
proof -
  have "fst (f (xs ! i)) + snd (f (xs ! i)) \<le> fst (f (xs ! j)) \<or> fst (f (xs ! j)) + snd (f (xs ! j)) \<le> fst (f (xs ! i))"
    using assms(1-4) by (simp add: disjoint_ranges_def)
  with assms(5-8) show ?thesis by linarith
qed

abbreviation signal_layout :: "packed_simulator \<Rightarrow> nat \<Rightarrow> packed_layout" where
  "signal_layout s i \<equiv> ps_layout (pp_signals (pk_program s) ! i)"

abbreviation signal_count :: "packed_simulator \<Rightarrow> nat" where
  "signal_count s \<equiv> length (pp_signals (pk_program s))"

text \<open>A change of the rows of one signal leaves the other signals.\<close>

lemma lane_signal_rows:
  assumes s: "storage_ok s" and i: "i < signal_count s" and j: "j \<noteq> i" and l: "l < pk_lanes s"
    and keep: "\<And>row. \<not> (pl_offset (signal_layout s i) \<le> row \<and> row < pl_offset (signal_layout s i) + pl_limbs (signal_layout s i))
      \<Longrightarrow> word_at ws (pk_lanes s) row l = word_at (pk_values s) (pk_lanes s) row l"
  shows "lane_signal (s\<lparr>pk_values := ws\<rparr>) l j = lane_signal s l j"
proof (cases "j < signal_count s")
  case True
  have dis: "disjoint_ranges (map signal_range (pp_signals (pk_program s)))"
    using s by (simp add: storage_ok_def layouts_wf_def)
  have "rows_at ws (pk_lanes s) (pl_offset (signal_layout s j)) (pl_limbs (signal_layout s j)) l =
      rows_at (pk_values s) (pk_lanes s) (pl_offset (signal_layout s j)) (pl_limbs (signal_layout s j)) l"
    unfolding rows_at_def
  proof (intro map_cong refl keep notI)
    fix k assume "k \<in> set [0..<pl_limbs (signal_layout s j)]"
      "pl_offset (signal_layout s i) \<le> pl_offset (signal_layout s j) + k \<and>
       pl_offset (signal_layout s j) + k < pl_offset (signal_layout s i) + pl_limbs (signal_layout s i)"
    then show False
      using range_apart [OF dis i True j [symmetric], of "pl_offset (signal_layout s j) + k" "pl_offset (signal_layout s j) + k"]
      by (simp add: signal_range_def)
  qed
  then show ?thesis using True by (simp add: lane_signal_def layout_value_def)
qed (simp add: lane_signal_def)

lemma lane_memory_values [simp]: "lane_memory (s\<lparr>pk_values := ws\<rparr>) = lane_memory s"
  by (intro ext) (simp add: lane_memory_def memory_words_def memory_word_index_def Let_def)

lemma storage_ok_values:
  "storage_ok s \<Longrightarrow> length ws = length (pk_values s) \<Longrightarrow> storage_ok (s\<lparr>pk_values := ws\<rparr>)"
  by (simp add: storage_ok_def)

lemma store_signal_lane_ok:
  assumes s: "storage_ok s" and i: "i < signal_count s" and lane: "lane < pk_lanes s"
  shows "\<exists>ws. store_signal_lane s i lane v = Some (s\<lparr>pk_values := ws\<rparr>) \<and> storage_ok (s\<lparr>pk_values := ws\<rparr>)
    \<and> (\<forall>l < pk_lanes s. lane_signal (s\<lparr>pk_values := ws\<rparr>) l =
        (if l = lane then (lane_signal s l)(i := take_bit (pl_width (signal_layout s i)) (lval v)) else lane_signal s l))"
proof -
  let ?l = "signal_layout s i" and ?lanes = "pk_lanes s"
  have l: "layout_ok ?l" "pl_offset ?l + pl_limbs ?l \<le> pp_total_signal_words (pk_program s)"
    using storage_signal [OF s i] by simp_all
  let ?st = "fit_limbs v (pl_ty ?l)"
  have len: "length ?st = pl_limbs ?l" using l(1) by (simp add: layout_ok_def)
  have "mapM (\<lambda>limb. do { w \<leftarrow> vec_get ?st limb; Some ((pl_offset ?l + limb) * ?lanes + lane, w) }) [0..<pl_limbs ?l]
      = Some (map (\<lambda>limb. ((pl_offset ?l + limb) * ?lanes + lane, ?st ! limb)) [0..<pl_limbs ?l])"
    by (rule mapM_all) (simp add: len del: length_fit_limbs)
  moreover obtain ws where ws:
    "write_words (map (\<lambda>limb. ((pl_offset ?l + limb) * ?lanes + lane, ?st ! limb)) [0..<pl_limbs ?l]) (pk_values s) = Some ws"
    "length ws = length (pk_values s)"
    "\<forall>row l'. l' < ?lanes \<longrightarrow> word_at ws ?lanes row l' =
       (if l' = lane \<and> pl_offset ?l \<le> row \<and> row < pl_offset ?l + pl_limbs ?l then ?st ! (row - pl_offset ?l)
        else word_at (pk_values s) ?lanes row l')"
    using write_lane [OF lane _ l(2), of "pk_values s" "\<lambda>limb. ?st ! limb"] s by (auto simp: storage_ok_def)
  ultimately have "store_signal_lane s i lane v = Some (s\<lparr>pk_values := ws\<rparr>)"
    using i by (simp add: store_signal_lane_def store_layout_def Let_def)
  moreover have "lane_signal (s\<lparr>pk_values := ws\<rparr>) l' =
      (if l' = lane then (lane_signal s l')(i := take_bit (pl_width ?l) (lval v)) else lane_signal s l')"
    if l': "l' < ?lanes" for l'
  proof
    fix j
    have other: "lane_signal (s\<lparr>pk_values := ws\<rparr>) l' j = lane_signal s l' j" if "j \<noteq> i"
      by (rule lane_signal_rows [OF s i that l']) (use ws(3) l' in auto)
    have "rows_at ws ?lanes (pl_offset ?l) (pl_limbs ?l) lane = map (\<lambda>k. ?st ! k) [0..<pl_limbs ?l]"
      unfolding rows_at_def using ws(3) lane by (intro map_cong) simp_all
    then have "rows_at ws ?lanes (pl_offset ?l) (pl_limbs ?l) lane = ?st"
      using map_nth [of ?st] by (simp only: len)
    then have this_lane: "lane_signal (s\<lparr>pk_values := ws\<rparr>) lane i = take_bit (pl_width ?l) (lval v)"
      using i l(1) by (simp add: lane_signal_def layout_value_def lval_fit_limbs layout_ok_def width_ok_def)
    have "rows_at ws ?lanes (pl_offset ?l) (pl_limbs ?l) l' = rows_at (pk_values s) ?lanes (pl_offset ?l) (pl_limbs ?l) l'"
      if "l' \<noteq> lane"
      unfolding rows_at_def using ws(3) l' that by (intro map_cong) simp_all
    then have "lane_signal (s\<lparr>pk_values := ws\<rparr>) l' i = lane_signal s l' i" if "l' \<noteq> lane"
      using i that by (simp add: lane_signal_def layout_value_def)
    with other this_lane show "lane_signal (s\<lparr>pk_values := ws\<rparr>) l' j =
        (if l' = lane then (lane_signal s l')(i := take_bit (pl_width ?l) (lval v)) else lane_signal s l') j"
      by (cases "j = i") auto
  qed
  ultimately show ?thesis using storage_ok_values [OF s ws(2)] by blast
qed

lemma copy_lanes_ok:
  assumes s: "storage_ok s" and i: "i < signal_count s" and len: "length words = pl_limbs (signal_layout s i) * pk_lanes s"
  shows "\<exists>ws. copy_lanes s (signal_layout s i) words = Some (s\<lparr>pk_values := ws\<rparr>) \<and> storage_ok (s\<lparr>pk_values := ws\<rparr>)
    \<and> (\<forall>l < pk_lanes s. lane_signal (s\<lparr>pk_values := ws\<rparr>) l = (lane_signal s l)(i :=
        take_bit (pl_width (signal_layout s i)) (lval (rows_at words (pk_lanes s) 0 (pl_limbs (signal_layout s i)) l))))"
proof -
  let ?l = "signal_layout s i" and ?lanes = "pk_lanes s"
  have l: "pl_offset ?l + pl_limbs ?l \<le> pp_total_signal_words (pk_program s)"
    using storage_signal [OF s i] by simp
  let ?p = "List.product [0..<pl_limbs ?l] [0..<?lanes]"
  have "mapM (\<lambda>(limb, lane). do { w \<leftarrow> vec_get words (limb * ?lanes + lane);
        Some ((pl_offset ?l + limb) * ?lanes + lane, w) }) ?p
      = Some (map (\<lambda>(limb, lane). ((pl_offset ?l + limb) * ?lanes + lane, words ! (limb * ?lanes + lane))) ?p)"
    using row_index_less [of _ ?lanes _ "pl_limbs ?l"] len
    by (intro mapM_all) auto
  moreover obtain ws where ws:
    "write_words (map (\<lambda>(limb, lane). ((pl_offset ?l + limb) * ?lanes + lane, words ! (limb * ?lanes + lane))) ?p) (pk_values s) = Some ws"
    "length ws = length (pk_values s)"
    "\<forall>row lane. lane < ?lanes \<longrightarrow> word_at ws ?lanes row lane =
       (if pl_offset ?l \<le> row \<and> row < pl_offset ?l + pl_limbs ?l then words ! ((row - pl_offset ?l) * ?lanes + lane)
        else word_at (pk_values s) ?lanes row lane)"
    using write_all_lanes [OF _ l, of "pk_values s" ?lanes "\<lambda>limb lane. words ! (limb * ?lanes + lane)"] s
    by (auto simp: storage_ok_def)
  ultimately have "copy_lanes s ?l words = Some (s\<lparr>pk_values := ws\<rparr>)"
    by (simp add: copy_lanes_def Let_def)
  moreover have "lane_signal (s\<lparr>pk_values := ws\<rparr>) l = (lane_signal s l)(i :=
      take_bit (pl_width ?l) (lval (rows_at words ?lanes 0 (pl_limbs ?l) l)))" if l: "l < ?lanes" for l
  proof
    fix j
    have other: "lane_signal (s\<lparr>pk_values := ws\<rparr>) l j = lane_signal s l j" if "j \<noteq> i"
      by (rule lane_signal_rows [OF s i that l]) (use ws(3) l in auto)
    have "rows_at ws ?lanes (pl_offset ?l) (pl_limbs ?l) l = rows_at words ?lanes 0 (pl_limbs ?l) l"
      unfolding rows_at_def using ws(3) l by (intro map_cong) (simp_all add: word_at_def)
    with other i show "lane_signal (s\<lparr>pk_values := ws\<rparr>) l j = ((lane_signal s l)(i :=
        take_bit (pl_width ?l) (lval (rows_at words ?lanes 0 (pl_limbs ?l) l)))) j"
      by (simp add: lane_signal_def layout_value_def)
  qed
  ultimately show ?thesis using storage_ok_values [OF s ws(2)] by blast
qed

abbreviation memory_count :: "packed_simulator \<Rightarrow> nat" where
  "memory_count s \<equiv> length (pp_memories (pk_program s))"

lemma memory_index_inject:
  assumes s: "storage_ok s" and i: "i < memory_count s" "j < memory_count s"
    and lane: "lane < pk_lanes s" "lane' < pk_lanes s"
    and addr: "addr < pm_depth (pp_memories (pk_program s) ! i)" "addr' < pm_depth (pp_memories (pk_program s) ! j)"
    and limb: "limb < pl_limbs (pm_data_layout (pp_memories (pk_program s) ! i))"
      "limb' < pl_limbs (pm_data_layout (pp_memories (pk_program s) ! j))"
    and eq: "memory_word_index s (pp_memories (pk_program s) ! i) lane addr limb =
      memory_word_index s (pp_memories (pk_program s) ! j) lane' addr' limb'"
  shows "i = j \<and> lane = lane' \<and> addr = addr' \<and> limb = limb'"
proof -
  let ?T = "pp_total_memory_words_per_lane (pk_program s)"
  let ?mi = "pp_memories (pk_program s) ! i" and ?mj = "pp_memories (pk_program s) ! j"
  let ?k = "pm_offset ?mi + addr * pl_limbs (pm_data_layout ?mi) + limb"
  let ?k' = "pm_offset ?mj + addr' * pl_limbs (pm_data_layout ?mj) + limb'"
  have "?k < ?T" "?k' < ?T"
    using memory_index_less(2) [OF s nth_mem [OF i(1)] lane(1) addr(1) limb(1)]
      memory_index_less(2) [OF s nth_mem [OF i(2)] lane(2) addr(2) limb(2)] by simp_all
  moreover have "lane * ?T + ?k = lane' * ?T + ?k'" using eq by (simp add: memory_word_index_def)
  ultimately have same: "lane = lane'" "?k = ?k'" using row_index_inject by auto
  have dis: "disjoint_ranges (map memory_range (pp_memories (pk_program s)))"
    using s by (simp add: storage_ok_def layouts_wf_def)
  have "addr * pl_limbs (pm_data_layout ?mi) + limb < pm_depth ?mi * pl_limbs (pm_data_layout ?mi)"
    "addr' * pl_limbs (pm_data_layout ?mj) + limb' < pm_depth ?mj * pl_limbs (pm_data_layout ?mj)"
    using row_index_less limb addr by blast+
  then have "i = j"
    using range_apart [OF dis i, of ?k ?k'] same(2) by (auto simp: memory_range_def add.assoc)
  with same limb show ?thesis by (auto simp: row_index_inject)
qed

text \<open>Writing one word of one memory in one lane.\<close>

lemma store_memory_ok:
  assumes s: "storage_ok s" and i: "i < memory_count s" and lane: "lane < pk_lanes s"
    and addr: "addr < pm_depth (pp_memories (pk_program s) ! i)"
  shows "\<exists>ws. store_memory s i lane addr v = Some (s\<lparr>pk_memories := ws\<rparr>) \<and> storage_ok (s\<lparr>pk_memories := ws\<rparr>)
    \<and> (\<forall>l < pk_lanes s. lane_memory (s\<lparr>pk_memories := ws\<rparr>) l =
        (if l = lane then (lane_memory s l)(i := (lane_memory s l i)(int addr :=
           take_bit (pl_width (pm_data_layout (pp_memories (pk_program s) ! i))) (lval v))) else lane_memory s l))"
proof -
  let ?m = "pp_memories (pk_program s) ! i" and ?M = "pk_memories s"
  let ?l = "pm_data_layout ?m"
  have m: "?m \<in> set (pp_memories (pk_program s))" using i by simp
  then have l: "layout_ok ?l" using s by (auto simp: storage_ok_def layouts_wf_def)
  let ?st = "fit_limbs v (pl_ty ?l)"
  have len: "length ?st = pl_limbs ?l" using l by (simp add: layout_ok_def)
  let ?ivs = "map (\<lambda>limb. (memory_word_index s ?m lane addr limb, ?st ! limb)) [0..<pl_limbs ?l]"
  have "\<forall>(k, w) \<in> set ?ivs. k < length ?M" using memory_index_less(1) [OF s m lane addr] by auto
  moreover have "distinct (map fst ?ivs)"
    by (auto simp: distinct_map inj_on_def comp_def memory_word_index_def)
  ultimately obtain ws where ws: "write_words ?ivs ?M = Some ws" "length ws = length ?M"
    "\<forall>(k, w) \<in> set ?ivs. ws ! k = w" "\<forall>k. k \<notin> fst ` set ?ivs \<longrightarrow> ws ! k = ?M ! k"
    using write_words_ok by blast
  let ?s = "s\<lparr>pk_memories := ws\<rparr>"
  have run: "store_memory s i lane addr v = Some ?s"
    using i ws(1) by (simp add: store_memory_def Let_def len del: length_fit_limbs)
  have index: "memory_word_index ?s = memory_word_index s"
    by (intro ext) (simp add: memory_word_index_def)
  have word: "memory_words ?s ?m lane addr = ?st"
  proof (rule nth_equalityI)
    fix k assume "k < length (memory_words ?s ?m lane addr)"
    then have k: "k < pl_limbs ?l" by (simp add: memory_words_def)
    then have "(memory_word_index s ?m lane addr k, ?st ! k) \<in> set ?ivs" by auto
    with ws(3) have "ws ! memory_word_index s ?m lane addr k = ?st ! k" by fast
    with k show "memory_words ?s ?m lane addr ! k = ?st ! k" by (simp add: memory_words_def index)
  qed (simp add: memory_words_def len del: length_fit_limbs)
  have other: "memory_words ?s (pp_memories (pk_program s) ! j) l' a = memory_words s (pp_memories (pk_program s) ! j) l' a"
    if c: "j < memory_count s" "l' < pk_lanes s" "a < pm_depth (pp_memories (pk_program s) ! j)"
      "\<not> (j = i \<and> l' = lane \<and> a = addr)" for j l' a
  proof -
    have "memory_word_index s (pp_memories (pk_program s) ! j) l' a k \<notin> fst ` set ?ivs"
      if k: "k < pl_limbs (pm_data_layout (pp_memories (pk_program s) ! j))" for k
    proof
      assume "memory_word_index s (pp_memories (pk_program s) ! j) l' a k \<in> fst ` set ?ivs"
      then obtain k' where "k' < pl_limbs ?l"
        "memory_word_index s (pp_memories (pk_program s) ! j) l' a k = memory_word_index s ?m lane addr k'" by auto
      from memory_index_inject [OF s c(1) i c(2) lane c(3) addr k this] c(4) show False by blast
    qed
    with ws(4) show ?thesis by (simp add: memory_words_def index)
  qed
  have "lane_memory ?s l' = (if l' = lane then (lane_memory s l')(i := (lane_memory s l' i)(int addr :=
      take_bit (pl_width ?l) (lval v))) else lane_memory s l')" if l': "l' < pk_lanes s" for l'
  proof (intro ext)
    fix j a
    show "lane_memory ?s l' j a = (if l' = lane then (lane_memory s l')(i := (lane_memory s l' i)(int addr :=
        take_bit (pl_width ?l) (lval v))) else lane_memory s l') j a"
    proof (cases "j < memory_count s \<and> 0 \<le> a \<and> a < int (pm_depth (pp_memories (pk_program s) ! j))")
      case True
      then have a: "nat a < pm_depth (pp_memories (pk_program s) ! j)" "a = int addr \<longleftrightarrow> nat a = addr" by auto
      show ?thesis
      proof (cases "j = i \<and> l' = lane \<and> nat a = addr")
        case here: True
        with True a have "lane_memory ?s l' j a = take_bit (pl_width ?l) (lval ?st)"
          by (simp add: lane_memory_def Let_def word)
        with here a l show ?thesis by (simp add: lval_fit_limbs layout_ok_def width_ok_def)
      next
        case False
        with other [of j l' "nat a"] True a l' have "lane_memory ?s l' j a = lane_memory s l' j a"
          by (simp add: lane_memory_def Let_def)
        with False a show ?thesis by auto
      qed
    next
      case False
      then have "lane_memory ?s l' j a = lane_memory s l' j a" by (auto simp: lane_memory_def Let_def)
      moreover have "\<not> (j = i \<and> a = int addr)" using False i addr by auto
      ultimately show ?thesis by auto
    qed
  qed
  moreover have "storage_ok ?s" using s ws(2) by (simp add: storage_ok_def)
  ultimately show ?thesis using run by blast
qed

end
