(* ===== verification/Packed_Spec.thy ===== *)
theory Packed_Spec
  imports Packed_Block
begin

text \<open>
  The abstract machine of the packed engine and its refinement: a lane is a pair of the integer
  values of its signals and of its memory words.  A packet evaluates its expressions in the state
  before it and applies its operations in order; a block runs its packets; a clock edge computes
  the next register values, applies the memory writes and commits.
\<close>

section \<open>The abstract machine\<close>

type_synonym lane_state = "(nat \<Rightarrow> int) \<times> (nat \<Rightarrow> int \<Rightarrow> int)"

definition reset_active :: "(nat \<Rightarrow> int) \<Rightarrow> packed_reset \<Rightarrow> bool" where
  "reset_active S r = (case pr_polarity r of ActiveHigh \<Rightarrow> odd (S (pr_signal r)) | ActiveLow \<Rightarrow> even (S (pr_signal r)))"

definition eval_in :: "lane_state \<Rightarrow> packed_expr \<Rightarrow> int" where
  "eval_in st e = pe_value (fst st) (snd st) e"

text \<open>
  \<open>op_spec p st0 x st\<close>: the expressions of \<open>x\<close> are evaluated in \<open>st0\<close>, its effect is on \<open>st\<close>.  A
  register capture acts within a block only as an asynchronous reset.
\<close>

fun op_spec :: "packed_program \<Rightarrow> lane_state \<Rightarrow> packed_op \<Rightarrow> lane_state \<Rightarrow> lane_state" where
  "op_spec p st0 (Assign d e) (S, R) = (S(d := eval_in st0 e), R)"
| "op_spec p st0 (CaptureReg d e r) (S, R) =
     (case r of
        None \<Rightarrow> (S, R)
      | Some rst \<Rightarrow> if pr_kind rst = Async \<and> reset_active S rst then (S(d := eval_in st0 e), R) else (S, R))"
| "op_spec p st0 (MemoryWrite m en a x) (S, R) =
     (if odd (eval_in st0 en) \<and> eval_in st0 a < int (pm_depth (pp_memories p ! m))
      then (S, R(m := (R m)(eval_in st0 a := eval_in st0 x))) else (S, R))"

definition packet_spec :: "packed_program \<Rightarrow> packed_packet \<Rightarrow> lane_state \<Rightarrow> lane_state" where
  "packet_spec p ops st = fold (op_spec p st) ops st"

definition block_spec :: "packed_program \<Rightarrow> packed_packet list \<Rightarrow> lane_state \<Rightarrow> lane_state" where
  "block_spec p = fold (packet_spec p)"

fun capture_spec :: "packed_program \<Rightarrow> lane_state \<Rightarrow> lane_state \<Rightarrow> packed_op \<Rightarrow> (nat \<times> int) list" where
  "capture_spec p st0 st (CaptureReg d e r) =
     [(d, case r of
            None \<Rightarrow> eval_in st0 e
          | Some rst \<Rightarrow> if reset_active (fst st) rst
                       then take_bit (pl_width (ps_layout (pp_signals p ! d))) (lval (pr_value rst))
                       else eval_in st0 e)]"
| "capture_spec p st0 st _ = []"

definition next_registers :: "packed_program \<Rightarrow> lane_state \<Rightarrow> (nat \<times> int) list" where
  "next_registers p st = concat (map (capture_spec p st st) (concat (st_tick_next (pp_streams p))))"

definition commit_spec :: "(nat \<times> int) list \<Rightarrow> (nat \<Rightarrow> int) \<Rightarrow> nat \<Rightarrow> int" where
  "commit_spec = fold (\<lambda>(d, v) S. S(d := v))"

definition settle_spec :: "packed_program \<Rightarrow> lane_state \<Rightarrow> lane_state" where
  "settle_spec p st = block_spec p (st_async_reset_comb (pp_streams p)) (block_spec p (st_comb (pp_streams p)) st)"

definition edge_spec :: "packed_program \<Rightarrow> lane_state \<Rightarrow> lane_state" where
  "edge_spec p st = apfst (commit_spec (next_registers p st)) (block_spec p (st_tick_commit (pp_streams p)) st)"

definition tick_spec :: "packed_program \<Rightarrow> lane_state \<Rightarrow> lane_state" where
  "tick_spec p st = settle_spec p (edge_spec p (settle_spec p st))"

section \<open>Well-formed operations\<close>

fun expr_ok :: "packed_program \<Rightarrow> packed_expr \<Rightarrow> bool" where
  "expr_ok p (PExpr k ty) \<longleftrightarrow> width_ok (bt_width ty)
     \<and> (case k of PSignal i \<Rightarrow> i < length (pp_signals p) | PMemRead m a \<Rightarrow> m < length (pp_memories p) | _ \<Rightarrow> True)
     \<and> (\<forall>e \<in> set (kind_operands k). expr_ok p e)"

fun op_ok :: "packed_program \<Rightarrow> packed_op \<Rightarrow> bool" where
  "op_ok p (Assign d e) \<longleftrightarrow> d < length (pp_signals p) \<and> expr_ok p e
     \<and> pe_width e = pl_width (ps_layout (pp_signals p ! d))"
| "op_ok p (CaptureReg d e r) \<longleftrightarrow> d < length (pp_signals p) \<and> expr_ok p e
     \<and> pe_width e = pl_width (ps_layout (pp_signals p ! d))
     \<and> (case r of None \<Rightarrow> True | Some rst \<Rightarrow> pr_signal rst < length (pp_signals p))"
| "op_ok p (MemoryWrite m en a x) \<longleftrightarrow> m < length (pp_memories p) \<and> expr_ok p en \<and> expr_ok p a \<and> expr_ok p x
     \<and> pe_width x = pl_width (pm_data_layout (pp_memories p ! m))"

definition stream_ok :: "packed_program \<Rightarrow> packed_packet list \<Rightarrow> bool" where
  "stream_ok p ps \<longleftrightarrow> (\<forall>ops \<in> set ps. \<forall>x \<in> set ops. op_ok p x)"

lemma expr_ok_hereditary: "hereditary (expr_ok p)"
  by (simp add: hereditary_def)

lemma expr_ok_width: "expr_ok p e \<Longrightarrow> width_ok (pe_width e)"
  by (cases e) (simp add: pe_width_def)

lemma op_ok_exprs: "op_ok p x \<Longrightarrow> \<forall>e \<in> set (op_exprs x). expr_ok p e"
  by (cases x) simp_all

lemma stream_ok_exprs: "stream_ok p ps \<Longrightarrow> \<forall>ops \<in> set ps. \<forall>x \<in> set ops. \<forall>e \<in> set (op_exprs x). expr_ok p e"
  unfolding stream_ok_def using op_ok_exprs by blast

section \<open>The types of the values of a block\<close>

lemma fold_types:
  assumes "\<forall>i \<in> set is. in_dst i < length types \<and> in_ty i = T (in_dst i)"
    and "\<forall>v \<in> D. types ! v = Some (T v)" "D \<subseteq> {..<length types}"
  shows "\<exists>cache. fold (\<lambda>i r. do { types \<leftarrow> r; vec_set types (in_dst i) (Some (in_ty i)) }) is (Some types) = Some cache
    \<and> length cache = length types \<and> (\<forall>v \<in> D \<union> in_dst ` set is. cache ! v = Some (T v))"
  using assms
proof (induction "is" arbitrary: types D)
  case (Cons i "is")
  let ?types = "types[in_dst i := Some (in_ty i)]"
  have "\<forall>v \<in> insert (in_dst i) D. ?types ! v = Some (T v)" "insert (in_dst i) D \<subseteq> {..<length ?types}"
    using Cons.prems by (auto simp: nth_list_update)
  with Cons.IH [of ?types "insert (in_dst i) D"] Cons.prems(1) show ?case by (auto simp: vec_set_def)
qed simp

definition cache_covers :: "(value_id \<Rightarrow> packed_expr) \<Rightarrow> packed_block \<Rightarrow> block_cache \<Rightarrow> bool" where
  "cache_covers E block cache \<longleftrightarrow> (\<forall>i \<in> set (concat (map mp_instrs block)).
     in_dst i < length cache \<and> cache ! in_dst i = Some (pe_ty (E (in_dst i))))"

lemma block_lowered_denotes:
  "block_lowered P E n ps block \<Longrightarrow> \<forall>i \<in> set (concat (map mp_instrs block)). denotes E i"
proof (induction ps arbitrary: n block)
  case (Cons ops rest)
  then obtain n' effs packets block' where b: "block = add_effects effs packets @ block'"
    "packet_lowered P E n n' ops effs (concat (map mp_instrs packets))" "block_lowered P E n' rest block'" by auto
  have "concat (map mp_instrs (add_effects effs packets)) = concat (map mp_instrs packets)"
    by (cases packets rule: rev_cases) (simp_all add: add_effects_def)
  with b Cons.IH [OF b(3)] show ?case by (auto simp: packet_lowered_def)
qed simp

lemma block_cache_ok:
  assumes "block_lowered P E n ps block"
  shows "\<exists>cache. block_cache_of block = Some cache \<and> cache_covers E block cache"
proof -
  define ins where "ins = concat (map mp_instrs block)"
  define size where "size = (if ins = [] then 0 else Max (set (map in_dst ins)) + 1)"
  have size: "in_dst i < size" if "i \<in> set ins" for i
  proof -
    have "in_dst i \<le> Max (set (map in_dst ins))" using that by (intro Max_ge) auto
    moreover have "ins \<noteq> []" using that by auto
    ultimately show ?thesis by (simp add: size_def)
  qed
  moreover have "in_ty i = pe_ty (E (in_dst i))" if "i \<in> set ins" for i
    using bspec [OF block_lowered_denotes [OF assms, folded ins_def] that] by (simp add: denotes_def)
  ultimately obtain cache where "fold (\<lambda>i r. do { types \<leftarrow> r; vec_set types (in_dst i) (Some (in_ty i)) }) ins
      (Some (replicate size None)) = Some cache" "length cache = size"
    "\<forall>v \<in> in_dst ` set ins. cache ! v = Some (pe_ty (E v))"
    using fold_types [of ins "replicate size None" "\<lambda>v. pe_ty (E v)" "{}"] by auto
  moreover have "block_cache_of block = fold (\<lambda>i r. do { types \<leftarrow> r; vec_set types (in_dst i) (Some (in_ty i)) }) ins
      (Some (replicate size None))"
    by (simp only: block_cache_of_def Let_def ins_def size_def)
  ultimately show ?thesis using size unfolding cache_covers_def ins_def [symmetric] by auto
qed

section \<open>Effects\<close>

definition lane_state :: "packed_simulator \<Rightarrow> nat \<Rightarrow> lane_state" where
  "lane_state s l = (lane_signal s l, lane_memory s l)"

definition same_program :: "packed_simulator \<Rightarrow> packed_simulator \<Rightarrow> bool" where
  "same_program s s' \<longleftrightarrow> pk_program s' = pk_program s \<and> pk_machine s' = pk_machine s
     \<and> pk_execution s' = pk_execution s \<and> pk_lanes s' = pk_lanes s"

lemma same_program_refl [simp]: "same_program s s"
  by (simp add: same_program_def)

lemma same_program_trans: "same_program s s' \<Longrightarrow> same_program s' s'' \<Longrightarrow> same_program s s''"
  by (simp add: same_program_def)

text \<open>\<open>refines s s' F\<close>: the simulator goes on in the same setting, and lane \<open>l\<close> changes by \<open>F l\<close>.\<close>

definition refines :: "packed_simulator \<Rightarrow> packed_simulator \<Rightarrow> (nat \<Rightarrow> lane_state \<Rightarrow> lane_state) \<Rightarrow> bool" where
  "refines s s' F \<longleftrightarrow> same_program s s' \<and> pk_captures s' = pk_captures s \<and> storage_ok s'
     \<and> (\<forall>l < pk_lanes s. lane_state s' l = F l (lane_state s l))"

lemma refines_same: "storage_ok s \<Longrightarrow> (\<And>l. F l (lane_state s l) = lane_state s l) \<Longrightarrow> refines s s F"
  by (simp add: refines_def)

lemma refines_trans:
  "refines s s' F \<Longrightarrow> refines s' s'' G \<Longrightarrow> (\<And>l x. l < pk_lanes s \<Longrightarrow> H l x = G l (F l x)) \<Longrightarrow> refines s s'' H"
  by (auto simp: refines_def same_program_def)

lemma refinesD:
  assumes "refines s s' F"
  shows "storage_ok s'" "pk_program s' = pk_program s" "pk_lanes s' = pk_lanes s" "same_program s s'"
    and "l < pk_lanes s \<Longrightarrow> lane_state s' l = F l (lane_state s l)"
  using assms by (simp_all add: refines_def same_program_def)

text \<open>A loop over the lanes in which every step changes its own lane.\<close>

lemma for_lanes_refines:
  assumes step: "\<And>lane s. lane < pk_lanes s0 \<Longrightarrow> same_program s0 s \<Longrightarrow> storage_ok s \<Longrightarrow>
      \<exists>s'. f lane s = Some s' \<and> refines s s' (\<lambda>l x. if l = lane then G l x else x)"
    and "same_program s0 s" "storage_ok s" "distinct ls" "\<forall>l \<in> set ls. l < pk_lanes s0"
  shows "\<exists>s'. for_lanes f ls s = Some s' \<and> refines s s' (\<lambda>l x. if l \<in> set ls then G l x else x)"
  using assms(2-)
proof (induction ls arbitrary: s)
  case Nil
  then show ?case by (simp add: refines_same)
next
  case (Cons lane ls)
  obtain s1 where s1: "f lane s = Some s1" "refines s s1 (\<lambda>l x. if l = lane then G l x else x)"
    using step [OF _ Cons.prems(1,2)] Cons.prems(4) by auto
  obtain s2 where s2: "for_lanes f ls s1 = Some s2" "refines s1 s2 (\<lambda>l x. if l \<in> set ls then G l x else x)"
    using Cons.IH [of s1] Cons.prems same_program_trans [OF _ refinesD(4) [OF s1(2)]] refinesD(1) [OF s1(2)] by auto
  have "refines s s2 (\<lambda>l x. if l \<in> set (lane # ls) then G l x else x)"
    by (rule refines_trans [OF s1(2) s2(2)]) (use Cons.prems(3) in auto)
  with s1(1) s2(1) show ?case by simp
qed

lemma all_lanes_refines:
  assumes "\<And>lane s. lane < pk_lanes s0 \<Longrightarrow> same_program s0 s \<Longrightarrow> storage_ok s \<Longrightarrow>
      \<exists>s'. f lane s = Some s' \<and> refines s s' (\<lambda>l x. if l = lane then G l x else x)"
    and "same_program s0 s" "storage_ok s"
  shows "\<exists>s'. for_lanes f [0..<pk_lanes s] s = Some s' \<and> refines s s' G"
proof -
  have "pk_lanes s = pk_lanes s0" using assms(2) by (simp add: same_program_def)
  with for_lanes_refines [of s0 f G s "[0..<pk_lanes s]"] assms obtain s' where
    "for_lanes f [0..<pk_lanes s] s = Some s'" "refines s s' (\<lambda>l x. if l \<in> set [0..<pk_lanes s] then G l x else x)" by auto
  then show ?thesis by (auto simp: refines_def)
qed

lemma reset_asserted_ok:
  assumes "storage_ok s" "pr_signal r < signal_count s" "l < pk_lanes s"
  shows "packed_reset_asserted s r l = Some (reset_active (fst (lane_state s l)) r)"
proof -
  obtain ls where "load_signal s (pr_signal r) l = Some ls" "lval ls = lane_signal s l (pr_signal r)"
    using load_signal_ok [OF assms] by blast
  then show ?thesis
    by (simp add: packed_reset_asserted_def reset_active_def lane_state_def decode_bool_iff split: reset_polarity.split)
qed

text \<open>The values of a packet, computed in the state \<open>s0\<close> before its effects.\<close>

definition value_holds :: "packed_simulator \<Rightarrow> block_cache \<Rightarrow> (value_id \<Rightarrow> packed_expr) \<Rightarrow> value_slot list \<Rightarrow> value_id \<Rightarrow> bool" where
  "value_holds s0 cache E slots v \<longleftrightarrow> value_present s0 cache slots v \<and> value_width cache v = pe_width (E v)
     \<and> (\<forall>l < pk_lanes s0. lane_value s0 slots v l = eval_in (lane_state s0 l) (E v))"

lemma value_holds_machine:
  assumes "value_holds s0 cache E slots v" "same_program s0 s" "l < pk_lanes s0"
  shows "\<exists>ls. machine_value slots v l = Some ls \<and> length ls = limbs (pe_width (E v)) \<and> lval ls = eval_in (lane_state s0 l) (E v)"
  using assms machine_value_present [of s0 cache slots v l]
  by (auto simp: value_holds_def lane_value_def value_present_def slot_ok_def slot_words_def)

lemma store_effect_refines:
  assumes s: "same_program s0 s" "storage_ok s" and x: "op_ok (pk_program s) (Assign d (E v))"
    and v: "value_holds s0 cache E slots v"
  shows "\<exists>s'. execute_machine_effect slots (StoreSignal d v) s = Some s'
    \<and> refines s s' (\<lambda>l. op_spec p (lane_state s0 l) (Assign d (E v)))"
proof -
  let ?l = "signal_layout s d"
  have d: "d < signal_count s" "pe_width (E v) = pl_width ?l" using x by simp_all
  have lanes: "pk_lanes s0 = pk_lanes s" using s(1) by (simp add: same_program_def)
  have slot: "v < length slots" "slot_ok (pk_lanes s) (slots ! v)" "vs_width (slots ! v) = pl_width ?l"
    using v d(2) lanes by (simp_all add: value_holds_def value_present_def)
  have limbs: "vs_limbs (slots ! v) = pl_limbs ?l"
    using slot(2,3) storage_signal(1) [OF s(2) d(1)] by (simp add: slot_ok_def layout_ok_def)
  have len: "length (vs_words (slots ! v)) = pl_limbs ?l * pk_lanes s" using slot(2) limbs by (simp add: slot_ok_def)
  obtain ws where ws: "copy_lanes s ?l (vs_words (slots ! v)) = Some (s\<lparr>pk_values := ws\<rparr>)" "storage_ok (s\<lparr>pk_values := ws\<rparr>)"
    "\<forall>l < pk_lanes s. lane_signal (s\<lparr>pk_values := ws\<rparr>) l = (lane_signal s l)(d :=
        take_bit (pl_width ?l) (lval (rows_at (vs_words (slots ! v)) (pk_lanes s) 0 (pl_limbs ?l) l)))"
    using copy_lanes_ok [OF s(2) d(1) len] by blast
  have "take_bit (pl_width ?l) (lval (rows_at (vs_words (slots ! v)) (pk_lanes s) 0 (pl_limbs ?l) l)) = eval_in (lane_state s0 l) (E v)"
    if "l < pk_lanes s" for l
    using v that lanes limbs pe_value_fits [of "E v"] d(2)
    by (simp add: value_holds_def lane_value_def slot_words_def eval_in_def)
  then have "refines s (s\<lparr>pk_values := ws\<rparr>) (\<lambda>l. op_spec p (lane_state s0 l) (Assign d (E v)))"
    using ws(2,3) by (simp add: refines_def same_program_def lane_state_def)
  with ws(1) slot(1) d(1) len limbs show ?thesis by (simp add: store_signal_slot_def)
qed

lemma async_effect_refines:
  assumes s: "same_program s0 s" "storage_ok s" and x: "op_ok (pk_program s) (CaptureReg d (E v) r)"
    and v: "value_holds s0 cache E slots v"
  shows "\<exists>s'. execute_machine_effect slots (CaptureRegEffect d v r) s = Some s'
    \<and> refines s s' (\<lambda>l. op_spec p (lane_state s0 l) (CaptureReg d (E v) r))"
proof (cases "r = None \<or> pr_kind (the r) \<noteq> Async")
  case True
  then show ?thesis using s(2) by (auto simp: lane_state_def split: option.splits intro!: refines_same)
next
  case False
  then obtain rst where r: "r = Some rst" "pr_kind rst = Async" by auto
  let ?G = "\<lambda>l. op_spec p (lane_state s0 l) (CaptureReg d (E v) r)"
  have prog: "pk_program s = pk_program s0" using s(1) by (simp add: same_program_def)
  have "\<exists>s2. async_reset_lane slots d v rst lane s1 = Some s2 \<and> refines s1 s2 (\<lambda>l x. if l = lane then ?G l x else x)"
    if lane: "lane < pk_lanes s0" and s1: "same_program s0 s1" "storage_ok s1" for lane s1
  proof -
    have eq: "pk_lanes s1 = pk_lanes s0" "pk_program s1 = pk_program s0" using s1(1) by (simp_all add: same_program_def)
    have d: "d < signal_count s1" "pr_signal rst < signal_count s1" "pe_width (E v) = pl_width (signal_layout s1 d)"
      using x r by (simp_all add: eq prog)
    have asserted: "packed_reset_asserted s1 rst lane = Some (reset_active (fst (lane_state s1 lane)) rst)"
      using reset_asserted_ok [OF s1(2) d(2)] lane by (simp add: eq)
    show ?thesis
    proof (cases "reset_active (fst (lane_state s1 lane)) rst")
      case True
      obtain ls where ls: "machine_value slots v lane = Some ls" "lval ls = eval_in (lane_state s0 lane) (E v)"
        using value_holds_machine [OF v s1(1) lane] by blast
      obtain ws where ws: "store_signal_lane s1 d lane ls = Some (s1\<lparr>pk_values := ws\<rparr>)" "storage_ok (s1\<lparr>pk_values := ws\<rparr>)"
        "\<forall>l < pk_lanes s1. lane_signal (s1\<lparr>pk_values := ws\<rparr>) l = (if l = lane then (lane_signal s1 l)(d :=
            take_bit (pl_width (signal_layout s1 d)) (lval ls)) else lane_signal s1 l)"
        using store_signal_lane_ok [OF s1(2) d(1), of lane ls] lane by (auto simp: eq)
      have "take_bit (pl_width (signal_layout s1 d)) (lval ls) = eval_in (lane_state s0 lane) (E v)"
        using pe_value_fits [of "E v"] d(3) by (simp add: ls(2) eval_in_def)
      with ws True r have "refines s1 (s1\<lparr>pk_values := ws\<rparr>) (\<lambda>l x. if l = lane then ?G l x else x)"
        by (simp add: refines_def same_program_def lane_state_def)
      with True ws(1) ls(1) show ?thesis by (simp add: async_reset_lane_def asserted)
    next
      case False
      then show ?thesis using r s1(2)
        by (auto simp: async_reset_lane_def asserted refines_def lane_state_def)
    qed
  qed
  from all_lanes_refines [OF this s] r show ?thesis by simp
qed

lemma write_effect_refines:
  assumes s: "same_program s0 s" "storage_ok s" and x: "op_ok (pk_program s) (MemoryWrite m (E en) (E a) (E v))"
    and vals: "value_holds s0 cache E slots en" "value_holds s0 cache E slots a" "value_holds s0 cache E slots v"
  shows "\<exists>s'. execute_machine_effect slots (MemoryWriteEffect m en a v) s = Some s'
    \<and> refines s s' (\<lambda>l. op_spec (pk_program s) (lane_state s0 l) (MemoryWrite m (E en) (E a) (E v)))"
proof -
  let ?G = "\<lambda>l. op_spec (pk_program s) (lane_state s0 l) (MemoryWrite m (E en) (E a) (E v))"
  have prog: "pk_program s = pk_program s0" using s(1) by (simp add: same_program_def)
  let ?m = "pp_memories (pk_program s0) ! m"
  have "\<exists>s2. memory_write_lane slots m en a v lane s1 = Some s2 \<and> refines s1 s2 (\<lambda>l x. if l = lane then ?G l x else x)"
    if lane: "lane < pk_lanes s0" and s1: "same_program s0 s1" "storage_ok s1" for lane s1
  proof -
    have eq: "pk_lanes s1 = pk_lanes s0" "pk_program s1 = pk_program s0" using s1(1) by (simp_all add: same_program_def)
    have m: "m < memory_count s1" "pe_width (E v) = pl_width (pm_data_layout ?m)" using x by (simp_all add: eq prog)
    then have "?m \<in> set (pp_memories (pk_program s1))" by (simp add: eq)
    then have depth: "pm_depth ?m < 2 ^ 64" using s1(2) unfolding storage_ok_def layouts_wf_def by blast
    obtain es where es: "machine_value slots en lane = Some es" "lval es = eval_in (lane_state s0 lane) (E en)"
      using value_holds_machine [OF vals(1) s1(1) lane] by blast
    obtain as where as: "machine_value slots a lane = Some as" "lval as = eval_in (lane_state s0 lane) (E a)"
      using value_holds_machine [OF vals(2) s1(1) lane] by blast
    obtain vs where vs: "machine_value slots v lane = Some vs" "lval vs = eval_in (lane_state s0 lane) (E v)"
      using value_holds_machine [OF vals(3) s1(1) lane] by blast
    have small: "decode_usize as < pm_depth ?m \<longleftrightarrow> lval as < int (pm_depth ?m)"
      and addr: "decode_usize as < pm_depth ?m \<Longrightarrow> int (decode_usize as) = lval as"
      using decode_usize_less [OF depth] by simp_all
    show ?thesis
    proof (cases "odd (lval es) \<and> lval as < int (pm_depth ?m)")
      case True
      then have a: "decode_usize as < pm_depth (pp_memories (pk_program s1) ! m)" using small eq by simp
      obtain ws where ws: "store_memory s1 m lane (decode_usize as) vs = Some (s1\<lparr>pk_memories := ws\<rparr>)"
        "storage_ok (s1\<lparr>pk_memories := ws\<rparr>)"
        "\<forall>l < pk_lanes s1. lane_memory (s1\<lparr>pk_memories := ws\<rparr>) l = (if l = lane then (lane_memory s1 l)(m :=
            (lane_memory s1 l m)(int (decode_usize as) := take_bit (pl_width (pm_data_layout (pp_memories (pk_program s1) ! m))) (lval vs)))
            else lane_memory s1 l)"
        using store_memory_ok [OF s1(2) m(1) _ a, of lane vs] lane by (auto simp: eq)
      have "take_bit (pl_width (pm_data_layout ?m)) (lval vs) = lval vs"
        using pe_value_fits [of "E v"] m(2) by (simp add: vs(2) eval_in_def)
      then have "refines s1 (s1\<lparr>pk_memories := ws\<rparr>) (\<lambda>l x. if l = lane then ?G l x else x)"
        using ws(2,3) True addr small es(2) as(2) vs(2)
        by (simp add: refines_def same_program_def lane_state_def lane_signal_def layout_value_def eq prog fun_eq_iff)
      moreover have "memory_write_lane slots m en a v lane s1 = Some (s1\<lparr>pk_memories := ws\<rparr>)"
        using True ws(1) a m(1) by (simp add: memory_write_lane_def es(1) as(1) vs(1) decode_bool_iff)
      ultimately show ?thesis by blast
    next
      case False
      then have "memory_write_lane slots m en a v lane s1 = Some s1"
        using small m(1) by (auto simp: memory_write_lane_def es(1) as(1) decode_bool_iff eq)
      moreover have "refines s1 s1 (\<lambda>l x. if l = lane then ?G l x else x)"
        using False es(2) as(2) s1(2) by (intro refines_same) (auto simp: lane_state_def prog)
      ultimately show ?thesis by blast
    qed
  qed
  from all_lanes_refines [OF this s] show ?thesis by simp
qed

lemma effect_refines:
  assumes s: "same_program s0 s" "storage_ok s" and x: "op_ok (pk_program s) x" "effect_denotes E x eff"
    and vals: "\<forall>v \<in> set (effect_value_deps eff). value_holds s0 cache E slots v"
  shows "\<exists>s'. execute_machine_effect slots eff s = Some s' \<and> refines s s' (\<lambda>l. op_spec (pk_program s) (lane_state s0 l) x)"
proof (cases x)
  case (Assign d e)
  with x(2) obtain v where eff: "eff = StoreSignal d v" "x = Assign d (E v)" by (cases eff) auto
  show ?thesis using x(1) vals unfolding eff by (intro store_effect_refines [OF s, where cache = cache]) simp_all
next
  case (CaptureReg d e r)
  with x(2) obtain v where eff: "eff = CaptureRegEffect d v r" "x = CaptureReg d (E v) r" by (cases eff) auto
  show ?thesis using x(1) vals unfolding eff by (intro async_effect_refines [OF s, where cache = cache]) simp_all
next
  case (MemoryWrite m en a d)
  with x(2) obtain ve va vd where eff: "eff = MemoryWriteEffect m ve va vd" "x = MemoryWrite m (E ve) (E va) (E vd)"
    by (cases eff) auto
  show ?thesis using x(1) vals unfolding eff by (intro write_effect_refines [OF s, where cache = cache]) simp_all
qed

end
