(* ===== verification/Packed_Run.thy ===== *)
theory Packed_Run
  imports Packed_Spec
begin

text \<open>
  Running a lowered block.  The same loop executes a block and captures registers, with a handler
  for the effects: the interface \<open>block_handler\<close>.
\<close>

section \<open>Values of a packet\<close>

lemma ssa_from_irrefl: "ssa_from D is \<Longrightarrow> i \<in> set is \<Longrightarrow> in_dst i \<notin> set_packed_kind (in_kind i)"
  by (induction "is" arbitrary: D) auto

lemma cached_width: "v < length cache \<Longrightarrow> cache ! v = Some (pe_ty e) \<Longrightarrow> value_width cache v = pe_width e"
  by (simp add: value_width_def vec_get_def pe_width_def)

definition covered :: "(value_id \<Rightarrow> packed_expr) \<Rightarrow> block_cache \<Rightarrow> packed_instr list \<Rightarrow> bool" where
  "covered E cache is \<longleftrightarrow> (\<forall>i \<in> set is. in_dst i < length cache \<and> cache ! in_dst i = Some (pe_ty (E (in_dst i))))"

lemma packet_values:
  assumes s: "storage_ok s" and low: "packet_lowered (expr_ok (pk_program s)) E n n' ops effs is"
    and cov: "covered E cache is" and len: "length slots = length cache"
  shows "\<exists>slots'. exec_all (eval_machine_instr_into s cache) is slots = Some slots' \<and> length slots' = length cache
    \<and> (\<forall>v. n \<le> v \<and> v < n' \<longrightarrow> value_holds s cache E slots' v)"
proof -
  have ssa: "ssa_from {} is" and dsts: "in_dst ` set is = {n..<n'}"
    and den: "\<forall>i \<in> set is. denotes E i \<and> expr_ok (pk_program s) (E (in_dst i))" using low by (simp_all add: packet_lowered_def)
  have ok: "value_width cache v = pe_width (E v) \<and> width_ok (pe_width (E v))" if "v \<in> in_dst ` set is" for v
    using that cov den cached_width [of v cache "E v"] expr_ok_width by (auto simp: covered_def)
  have operands: "value_width cache v = pe_width (E v) \<and> width_ok (pe_width (E v))"
    if "i \<in> set is" "v \<in> set_packed_kind (in_kind i)" for i v
    using ok ssa_from_operands [OF ssa that(1)] that(2) by blast
  have "instr_runnable s cache i \<and> denotes E i" if i: "i \<in> set is" for i
  proof -
    have E: "E (in_dst i) = PExpr (map_packed_kind E (in_kind i)) (in_ty i)"
      and e: "expr_ok (pk_program s) (E (in_dst i))" using den i by (auto simp: denotes_def)
    have "bt_width (in_ty i) = pe_width (E (in_dst i))" using E by (simp add: pe_width_def)
    with ok [of "in_dst i"] i have w: "width_ok (bt_width (in_ty i))" "value_width cache (in_dst i) = bt_width (in_ty i)"
      by auto
    have "\<forall>j. in_kind i = PSignal j \<longrightarrow> j < length (pp_signals (pk_program s))"
      "\<forall>m a. in_kind i = PMemRead m a \<longrightarrow> m < length (pp_memories (pk_program s))"
      using e unfolding E by auto
    with w s i cov den ssa_from_irrefl [OF ssa i] operands [OF i] show ?thesis
      by (simp add: instr_runnable_def covered_def)
  qed
  moreover have "\<forall>i \<in> set is. \<forall>v \<in> set_packed_kind (in_kind i). value_width cache v = pe_width (E v)" using operands by blast
  ultimately obtain slots' where "exec_all (eval_machine_instr_into s cache) is slots = Some slots'" "length slots' = length cache"
    "\<forall>v \<in> {} \<union> in_dst ` set is. lanes.holds s cache E slots' v"
    using lanes.exec_all_computes [OF ssa, of s cache E slots] len by auto
  moreover have "value_holds s cache E slots' v" if "n \<le> v" "v < n'" "lanes.holds s cache E slots' v" for v
    using that ok [of v] dsts by (auto simp: value_holds_def lanes.holds_def lane_state_def eval_in_def)
  ultimately show ?thesis using dsts by auto
qed

section \<open>Handlers\<close>

text \<open>The values that are captured for a lane, and what a run keeps.\<close>

definition captured :: "packed_simulator \<Rightarrow> nat \<Rightarrow> (nat \<times> int) list" where
  "captured s l = map (\<lambda>c. (rc_signal c, take_bit (pl_width (rc_layout c))
     (lval (rows_at (rc_values c) (pk_lanes s) 0 (pl_limbs (rc_layout c)) l)))) (pk_captures s)"

definition capture_ok :: "packed_simulator \<Rightarrow> register_capture \<Rightarrow> bool" where
  "capture_ok s c \<longleftrightarrow> rc_signal c < signal_count s \<and> rc_layout c = signal_layout s (rc_signal c)
     \<and> length (rc_values c) = pl_limbs (rc_layout c) * pk_lanes s"

definition goes_on :: "packed_simulator \<Rightarrow> packed_simulator \<Rightarrow> bool" where
  "goes_on s0 s \<longleftrightarrow> pk_program s = pk_program s0 \<and> pk_machine s = pk_machine s0 \<and> pk_execution s = pk_execution s0
     \<and> pk_lanes s = pk_lanes s0 \<and> storage_ok s \<and> (\<forall>c \<in> set (pk_captures s). capture_ok s c)"

type_synonym full_state = "lane_state \<times> (nat \<times> int) list"

definition full_state :: "packed_simulator \<Rightarrow> nat \<Rightarrow> full_state" where
  "full_state s l = (lane_state s l, captured s l)"

lemma goes_on_trans: "goes_on s s' \<Longrightarrow> goes_on s' s'' \<Longrightarrow> goes_on s s''"
  by (simp add: goes_on_def)

lemma goes_onD: "goes_on s0 s \<Longrightarrow> storage_ok s" "goes_on s0 s \<Longrightarrow> pk_program s = pk_program s0"
    "goes_on s0 s \<Longrightarrow> pk_lanes s = pk_lanes s0" "goes_on s0 s \<Longrightarrow> goes_on s s"
  by (simp_all add: goes_on_def)

text \<open>One packet and a block, for the effect of an operation as a parameter.\<close>

type_synonym op_step = "packed_program \<Rightarrow> lane_state \<Rightarrow> packed_op \<Rightarrow> full_state \<Rightarrow> full_state"

definition packet_step :: "op_step \<Rightarrow> packed_program \<Rightarrow> packed_packet \<Rightarrow> full_state \<Rightarrow> full_state" where
  "packet_step step p ops st = fold (step p (fst st)) ops st"

lemma exec_all_append: "exec_all exec (xs @ ys) st = do { st' \<leftarrow> exec_all exec xs st; exec_all exec ys st' }"
  by (induction xs arbitrary: st) (simp_all cong: Option.bind_cong)

lemma run_block_packet:
  assumes "\<forall>p \<in> set packets. mp_effects p = []"
  shows "run_block eff cache (add_effects effs packets @ rest) (s, slots) =
    do { slots' \<leftarrow> exec_all (eval_machine_instr_into s cache) (concat (map mp_instrs packets)) slots;
         s' \<leftarrow> exec_all (eff slots') effs s; run_block eff cache rest (s', slots') }"
proof (cases "packets = []")
  case False
  then obtain ps q where packets: "packets = ps @ [q]" by (cases packets rule: rev_cases) auto
  have "run_block eff cache (ps @ q' # rest) (s, slots) =
      do { slots' \<leftarrow> exec_all (eval_machine_instr_into s cache) (concat (map mp_instrs (ps @ [q']))) slots;
           s' \<leftarrow> exec_all (eff slots') (mp_effects q') s; run_block eff cache rest (s', slots') }"
    if "\<forall>p \<in> set ps. mp_effects p = []" for q'
    using that by (induction ps arbitrary: slots) (simp_all add: exec_all_append)
  with assms show ?thesis by (simp add: packets add_effects_def)
qed (simp add: add_effects_def)

definition implements :: "packed_program \<Rightarrow> packed_packet list \<Rightarrow> packed_block \<Rightarrow> bool" where
  "implements p ps block \<longleftrightarrow> (\<exists>E. block_lowered (expr_ok p) E 0 ps block)"

lemma lowering_implements:
  assumes "lower_packets_to_block ps = Some block" "stream_ok p ps"
  shows "implements p ps block"
  using lower_packets_ok [OF expr_ok_hereditary stream_ok_exprs [OF assms(2)], of 0] assms(1)
  by (auto simp: lower_packets_to_block_def implements_def)

locale block_handler =
  fixes eff :: "value_slot list \<Rightarrow> packed_effect \<Rightarrow> packed_simulator \<Rightarrow> packed_simulator option"
    and step :: op_step
  assumes effect_step: "goes_on s0 s \<Longrightarrow> op_ok (pk_program s0) x \<Longrightarrow> effect_denotes E x f \<Longrightarrow>
      \<forall>v \<in> set (effect_value_deps f). value_holds s0 cache E slots v \<Longrightarrow>
      \<exists>s'. eff slots f s = Some s' \<and> goes_on s0 s'
        \<and> (\<forall>l < pk_lanes s0. full_state s' l = step (pk_program s0) (lane_state s0 l) x (full_state s l))"
begin

lemma effects_step:
  assumes "list_all2 (holds_effect n E n') ops effs" "goes_on s0 s" "\<forall>x \<in> set ops. op_ok (pk_program s0) x"
    and "\<forall>v. n \<le> v \<and> v < n' \<longrightarrow> value_holds s0 cache E slots v"
  shows "\<exists>s'. exec_all (eff slots) effs s = Some s' \<and> goes_on s0 s'
    \<and> (\<forall>l < pk_lanes s0. full_state s' l = fold (step (pk_program s0) (lane_state s0 l)) ops (full_state s l))"
  using assms
proof (induction arbitrary: s rule: list_all2_induct)
  case (Cons x ops f effs)
  have "effect_denotes E x f" "\<forall>v \<in> set (effect_value_deps f). value_holds s0 cache E slots v"
    using Cons.hyps(1) Cons.prems(3) by (auto simp: holds_effect_def)
  with effect_step [OF Cons.prems(1)] Cons.prems(2) obtain s1 where s1: "eff slots f s = Some s1" "goes_on s0 s1"
    "\<forall>l < pk_lanes s0. full_state s1 l = step (pk_program s0) (lane_state s0 l) x (full_state s l)" by force
  from Cons.IH [OF s1(2)] Cons.prems(2,3) s1(1,3) show ?case by auto
qed simp

lemma block_step:
  assumes "block_lowered (expr_ok (pk_program s)) E n ps block" "stream_ok (pk_program s) ps" "goes_on s s"
    and "cache_covers E block cache" "length slots = length cache"
  shows "\<exists>s' slots'. run_block eff cache block (s, slots) = Some (s', slots') \<and> goes_on s s'
    \<and> (\<forall>l < pk_lanes s. full_state s' l = fold (packet_step step (pk_program s)) ps (full_state s l))"
  using assms
proof (induction ps arbitrary: n block s slots)
  case (Cons ops rest)
  obtain n' effs packets block' where b: "block = add_effects effs packets @ block'"
    "\<forall>p \<in> set packets. mp_effects p = []"
    "packet_lowered (expr_ok (pk_program s)) E n n' ops effs (concat (map mp_instrs packets))"
    "block_lowered (expr_ok (pk_program s)) E n' rest block'" using Cons.prems(1) by auto
  have "concat (map mp_instrs (add_effects effs packets)) = concat (map mp_instrs packets)"
    by (cases packets rule: rev_cases) (simp_all add: add_effects_def)
  then have cov: "covered E cache (concat (map mp_instrs packets))" "cache_covers E block' cache"
    using Cons.prems(4) by (simp_all add: b(1) cache_covers_def covered_def del: set_concat)
  obtain slots1 where slots1: "exec_all (eval_machine_instr_into s cache) (concat (map mp_instrs packets)) slots = Some slots1"
    "length slots1 = length cache" "\<forall>v. n \<le> v \<and> v < n' \<longrightarrow> value_holds s cache E slots1 v"
    using packet_values [OF goes_onD(1) [OF Cons.prems(3)] b(3) cov(1) Cons.prems(5)] by blast
  have ops: "\<forall>x \<in> set ops. op_ok (pk_program s) x" "stream_ok (pk_program s) rest"
    using Cons.prems(2) by (simp_all add: stream_ok_def)
  have "list_all2 (holds_effect n E n') ops effs" using b(3) by (simp add: packet_lowered_def)
  from effects_step [OF this Cons.prems(3) ops(1) slots1(3)] obtain s1 where
    s1: "exec_all (eff slots1) effs s = Some s1" "goes_on s s1"
    "\<forall>l < pk_lanes s. full_state s1 l = packet_step step (pk_program s) ops (full_state s l)"
    by (auto simp: packet_step_def full_state_def)
  obtain s2 slots2 where s2: "run_block eff cache block' (s1, slots1) = Some (s2, slots2)" "goes_on s1 s2"
    "\<forall>l < pk_lanes s1. full_state s2 l = fold (packet_step step (pk_program s1)) rest (full_state s1 l)"
    using Cons.IH [of s1 n' block' slots1] b(4) ops(2) cov(2) slots1(2) goes_onD [OF s1(2)] by auto
  have "run_block eff cache block (s, slots) = Some (s2, slots2)"
    by (simp add: b(1) run_block_packet [OF b(2)] slots1(1) s1(1) s2(1))
  then show ?case using goes_on_trans [OF s1(2) s2(2)] s2(3) s1(3) goes_onD [OF s1(2)] by auto
qed simp

text \<open>A block that implements a stream of the program runs to the end.\<close>

lemma stream_step:
  assumes "implements (pk_program s) ps block" "block_cache_of block = Some cache"
    and "stream_ok (pk_program s) ps" "goes_on s s"
  shows "\<exists>s' slots'. run_block eff cache block (s, reset_slots cache (pk_lanes s) slots) = Some (s', slots')
    \<and> goes_on s s' \<and> (\<forall>l < pk_lanes s. full_state s' l = fold (packet_step step (pk_program s)) ps (full_state s l))"
proof -
  obtain E where E: "block_lowered (expr_ok (pk_program s)) E 0 ps block"
    using assms(1) by (auto simp: implements_def)
  moreover have "cache_covers E block cache" using block_cache_ok [OF E] assms(2) by auto
  moreover have "length (reset_slots cache (pk_lanes s) slots) = length cache" by (simp add: reset_slots_def Let_def)
  ultimately show ?thesis using block_step assms(3,4) by blast
qed

end

end
