(* ===== verification/Packed_Tick.thy ===== *)
theory Packed_Tick
  imports Packed_Run
begin

text \<open>
  Settling and clock edges of the packed engine refine the abstract machine on every lane.
\<close>

section \<open>The two handlers\<close>

definition exec_step :: op_step where
  "exec_step p st0 x fs = (op_spec p st0 x (fst fs), snd fs)"

definition capture_step :: op_step where
  "capture_step p st0 x fs = (fst fs, snd fs @ capture_spec p st0 (fst fs) x)"

interpretation exec_handler: block_handler execute_machine_effect exec_step
proof
  fix s0 s x E f cache slots
  assume g: "goes_on s0 s" and x: "op_ok (pk_program s0) x" "effect_denotes E x f"
    and v: "\<forall>v \<in> set (effect_value_deps f). value_holds s0 cache E slots v"
  have same: "same_program s0 s" using g by (simp add: same_program_def goes_on_def)
  obtain s' where s': "execute_machine_effect slots f s = Some s'"
    "refines s s' (\<lambda>l. op_spec (pk_program s) (lane_state s0 l) x)"
    using effect_refines [OF same goes_onD(1) [OF g] _ x(2) v] x(1) goes_onD(2) [OF g] by auto
  have keep: "pk_captures s' = pk_captures s" "same_program s s'" "storage_ok s'" using s'(2) by (simp_all add: refines_def)
  have "captured s' l = captured s l" for l using keep by (simp add: captured_def same_program_def)
  moreover have "goes_on s0 s'" using g keep by (auto simp: goes_on_def same_program_def capture_ok_def)
  ultimately show "\<exists>s'. execute_machine_effect slots f s = Some s' \<and> goes_on s0 s'
      \<and> (\<forall>l < pk_lanes s0. full_state s' l = exec_step (pk_program s0) (lane_state s0 l) x (full_state s l))"
    using s'(1) refinesD(5) [OF s'(2)] goes_onD(2,3) [OF g]
    by (intro exI [of _ s']) (simp add: full_state_def exec_step_def)
qed

lemma distinct_concat_map:
  "distinct xs \<Longrightarrow> \<forall>x \<in> set xs. distinct (f x) \<Longrightarrow> \<forall>x \<in> set xs. \<forall>y \<in> set xs. x \<noteq> y \<longrightarrow> set (f x) \<inter> set (f y) = {} \<Longrightarrow>
    distinct (concat (map f xs))"
  by (induction xs) auto

lemma write_lane_rows:
  assumes "\<forall>lane < lanes. length (X lane) = n"
  shows "\<exists>ws. write_words (concat (map (\<lambda>lane. map (\<lambda>limb. (limb * lanes + lane, X lane ! limb)) [0..<n]) [0..<lanes]))
      (replicate (n * lanes) 0) = Some ws \<and> length ws = n * lanes \<and> (\<forall>lane < lanes. rows_at ws lanes 0 n lane = X lane)"
proof -
  let ?ivs = "concat (map (\<lambda>lane. map (\<lambda>limb. (limb * lanes + lane, X lane ! limb)) [0..<n]) [0..<lanes])"
  have "\<forall>(i, v) \<in> set ?ivs. i < length (replicate (n * lanes) (0 :: u32))" using row_index_less by auto
  moreover have "distinct (concat (map (\<lambda>lane. map (\<lambda>limb. limb * lanes + lane) [0..<n]) [0..<lanes]))"
    by (rule distinct_concat_map) (auto simp: distinct_map inj_on_def row_index_inject)
  then have "distinct (map fst ?ivs)" by (simp add: map_concat comp_def)
  ultimately obtain ws where ws: "write_words ?ivs (replicate (n * lanes) 0) = Some ws" "length ws = n * lanes"
    "\<forall>(i, v) \<in> set ?ivs. ws ! i = v" using write_words_ok [of ?ivs "replicate (n * lanes) 0"] by auto
  have "rows_at ws lanes 0 n lane = X lane" if lane: "lane < lanes" for lane
  proof (rule nth_equalityI)
    fix k assume "k < length (rows_at ws lanes 0 n lane)"
    then have k: "k < n" by simp
    with lane have "(k * lanes + lane, X lane ! k) \<in> set ?ivs"
      by (auto intro!: bexI [of _ lane] image_eqI [where x = k])
    with ws(3) k show "rows_at ws lanes 0 n lane ! k = X lane ! k" by (auto simp: rows_at_def word_at_def)
  qed (use assms lane in simp)
  with ws(1,2) show ?thesis by blast
qed

lemma lane_state_captures [simp]: "lane_state (s\<lparr>pk_captures := cs\<rparr>) = lane_state s"
  by (intro ext) (simp add: lane_state_def lane_signal_def layout_value_def lane_memory_def memory_words_def
      memory_word_index_def Let_def fun_eq_iff)

lemma storage_ok_captures [simp]: "storage_ok (s\<lparr>pk_captures := cs\<rparr>) = storage_ok s"
  by (simp add: storage_ok_def)

lemma capture_lane_ok:
  assumes s: "goes_on s0 s" and x: "op_ok (pk_program s0) (CaptureReg d (E v) r)"
    and v: "value_holds s0 cache E slots v" and l: "l < pk_lanes s0"
  shows "\<exists>xs. capture_lane_values s (signal_layout s d) v r slots l =
      Some (map (\<lambda>limb. (limb * pk_lanes s + l, xs ! limb)) [0..<pl_limbs (signal_layout s d)])
    \<and> length xs = pl_limbs (signal_layout s d)
    \<and> capture_spec (pk_program s0) (lane_state s0 l) (lane_state s l) (CaptureReg d (E v) r) =
       [(d, take_bit (pl_width (signal_layout s d)) (lval xs))]"
proof -
  let ?l = "signal_layout s d"
  have eq: "pk_lanes s = pk_lanes s0" "pk_program s = pk_program s0" "storage_ok s" using s by (simp_all add: goes_on_def)
  have same: "same_program s0 s" using s by (simp add: same_program_def goes_on_def)
  have d: "d < signal_count s" "pe_width (E v) = pl_width ?l" using x by (simp_all add: eq)
  have lay: "layout_ok ?l" using storage_signal [OF eq(3) d(1)] by simp
  obtain ls where ls: "machine_value slots v l = Some ls" "length ls = limbs (pe_width (E v))"
    "lval ls = eval_in (lane_state s0 l) (E v)" using value_holds_machine [OF v same l] by blast
  have fits: "take_bit (pl_width ?l) (lval ls) = eval_in (lane_state s0 l) (E v)"
    using pe_value_fits [of "E v"] d(2) by (simp add: ls(3) eval_in_def)
  let ?on = "case r of None \<Rightarrow> False | Some rst \<Rightarrow> reset_active (fst (lane_state s l)) rst"
  have asserted: "(case r of None \<Rightarrow> Some False | Some rst \<Rightarrow> packed_reset_asserted s rst l) = Some ?on"
    using reset_asserted_ok [OF eq(3)] x l by (auto simp: eq split: option.splits)
  let ?xs = "if ?on then fit_limbs (case r of None \<Rightarrow> [] | Some rst \<Rightarrow> pr_value rst) (pl_ty ?l) else ls"
  have len: "length ?xs = pl_limbs ?l" using lay ls(2) d(2) by (auto simp: layout_ok_def)
  have "capture_lane_values s ?l v r slots l =
      mapM (\<lambda>limb. do { w \<leftarrow> vec_get ?xs limb; Some (limb * pk_lanes s + l, w) }) [0..<pl_limbs ?l]"
    unfolding capture_lane_values_def asserted by (simp add: ls(1))
  also have "\<dots> = Some (map (\<lambda>limb. (limb * pk_lanes s + l, ?xs ! limb)) [0..<pl_limbs ?l])"
    by (rule mapM_all) (use len in \<open>simp add: vec_get_def del: length_fit_limbs\<close>)
  finally have run: "capture_lane_values s ?l v r slots l = Some (map (\<lambda>limb. (limb * pk_lanes s + l, ?xs ! limb)) [0..<pl_limbs ?l])" .
  have "capture_spec (pk_program s0) (lane_state s0 l) (lane_state s l) (CaptureReg d (E v) r) =
       [(d, take_bit (pl_width ?l) (lval ?xs))]"
    using lay fits by (auto simp: eq layout_ok_def width_ok_def lval_fit_limbs split: option.splits)
  with run len show ?thesis by blast
qed

interpretation capture_handler: block_handler capture_effect capture_step
proof
  fix s0 s x E f cache slots
  assume g: "goes_on s0 s" and x: "op_ok (pk_program s0) x" "effect_denotes E x f"
    and vals: "\<forall>v \<in> set (effect_value_deps f). value_holds s0 cache E slots v"
  show "\<exists>s'. capture_effect slots f s = Some s' \<and> goes_on s0 s'
      \<and> (\<forall>l < pk_lanes s0. full_state s' l = capture_step (pk_program s0) (lane_state s0 l) x (full_state s l))"
  proof (cases x)
    case (CaptureReg d e r)
    with x(2) obtain v where f: "f = CaptureRegEffect d v r" "x = CaptureReg d (E v) r" by (cases f) auto
    let ?l = "signal_layout s d" and ?lanes = "pk_lanes s"
    have eq: "pk_lanes s = pk_lanes s0" "pk_program s = pk_program s0" using g by (simp_all add: goes_on_def)
    have d: "d < signal_count s" using x(1) by (simp add: f eq)
    have "\<forall>l \<in> {..<pk_lanes s0}. \<exists>xs. capture_lane_values s ?l v r slots l =
        Some (map (\<lambda>limb. (limb * ?lanes + l, xs ! limb)) [0..<pl_limbs ?l]) \<and> length xs = pl_limbs ?l
      \<and> capture_spec (pk_program s0) (lane_state s0 l) (lane_state s l) (CaptureReg d (E v) r) =
         [(d, take_bit (pl_width ?l) (lval xs))]"
      using capture_lane_ok [OF g, where cache = cache and slots = slots] x(1) vals unfolding f by simp
    from bchoice [OF this] obtain X where "\<forall>l \<in> {..<pk_lanes s0}. capture_lane_values s ?l v r slots l =
        Some (map (\<lambda>limb. (limb * ?lanes + l, X l ! limb)) [0..<pl_limbs ?l]) \<and> length (X l) = pl_limbs ?l
      \<and> capture_spec (pk_program s0) (lane_state s0 l) (lane_state s l) (CaptureReg d (E v) r) =
         [(d, take_bit (pl_width ?l) (lval (X l)))]" ..
    then have X: "\<And>l. l < pk_lanes s0 \<Longrightarrow> capture_lane_values s ?l v r slots l =
        Some (map (\<lambda>limb. (limb * ?lanes + l, X l ! limb)) [0..<pl_limbs ?l])"
      "\<And>l. l < pk_lanes s0 \<Longrightarrow> length (X l) = pl_limbs ?l"
      "\<And>l. l < pk_lanes s0 \<Longrightarrow> capture_spec (pk_program s0) (lane_state s0 l) (lane_state s l) (CaptureReg d (E v) r) =
         [(d, take_bit (pl_width ?l) (lval (X l)))]" by (simp_all del: capture_spec.simps)
    obtain ws where ws: "write_words (concat (map (\<lambda>l. map (\<lambda>limb. (limb * ?lanes + l, X l ! limb)) [0..<pl_limbs ?l]) [0..<?lanes]))
        (replicate (pl_limbs ?l * ?lanes) 0) = Some ws" "length ws = pl_limbs ?l * ?lanes"
      "\<forall>l < ?lanes. rows_at ws ?lanes 0 (pl_limbs ?l) l = X l"
      using write_lane_rows [of ?lanes X "pl_limbs ?l"] X(2) eq by auto
    let ?s = "s\<lparr>pk_captures := pk_captures s @ [\<lparr>rc_signal = d, rc_layout = ?l, rc_values = ws\<rparr>]\<rparr>"
    have "mapM (capture_lane_values s ?l v r slots) [0..<?lanes] =
        Some (map (\<lambda>l. map (\<lambda>limb. (limb * ?lanes + l, X l ! limb)) [0..<pl_limbs ?l]) [0..<?lanes])"
      by (rule mapM_all) (use X(1) eq in simp)
    then have "capture_effect slots f s = Some ?s"
      using ws(1) d by (simp add: f capture_register_value_def)
    moreover have "goes_on s0 ?s" using g d ws(2) by (auto simp: goes_on_def capture_ok_def)
    moreover have "full_state ?s l = capture_step (pk_program s0) (lane_state s0 l) x (full_state s l)" if "l < pk_lanes s0" for l
      using X(3) [OF that] ws(3) that eq by (simp add: full_state_def capture_step_def captured_def f del: capture_spec.simps)
    ultimately show ?thesis by blast
  next
    case (Assign d e)
    with x(2) g show ?thesis by (cases f) (auto simp: capture_step_def full_state_def)
  next
    case (MemoryWrite m en a e)
    with x(2) g show ?thesis by (cases f) (auto simp: capture_step_def full_state_def)
  qed
qed

section \<open>Whole streams\<close>

lemma exec_packets: "fold (packet_step exec_step p) ps = apfst (block_spec p ps)"
proof
  fix fs :: full_state
  obtain st cs where fs: "fs = (st, cs)" by fastforce
  have "fold (exec_step p st0) ops (st, cs) = (fold (op_spec p st0) ops st, cs)" for st0 ops st
    by (induction ops arbitrary: st) (simp_all add: exec_step_def)
  then have "fold (packet_step exec_step p) ps (st, cs) = (block_spec p ps st, cs)"
    by (induction ps arbitrary: st) (simp_all add: packet_step_def block_spec_def packet_spec_def)
  with fs show "fold (packet_step exec_step p) ps fs = apfst (block_spec p ps) fs" by simp
qed

lemma capture_packets:
  "fold (packet_step capture_step p) ps (st, cs) = (st, cs @ concat (map (capture_spec p st st) (concat ps)))"
proof -
  have "fold (capture_step p st) ops (st, cs) = (st, cs @ concat (map (capture_spec p st st) ops))" for ops cs
    by (induction ops arbitrary: cs) (simp_all add: capture_step_def)
  then show ?thesis by (induction ps arbitrary: cs) (simp_all add: packet_step_def)
qed

definition machine_implements :: "packed_program \<Rightarrow> machine_program \<Rightarrow> bool" where
  "machine_implements p mc \<longleftrightarrow> implements p (st_async_reset_comb (pp_streams p)) (ms_async_reset_comb (mc_streams mc))
     \<and> implements p (st_comb (pp_streams p)) (ms_comb (mc_streams mc))
     \<and> implements p (st_tick_next (pp_streams p)) (ms_tick_next (mc_streams mc))
     \<and> implements p (st_tick_commit (pp_streams p)) (ms_tick_commit (mc_streams mc))"

definition streams_ok :: "packed_program \<Rightarrow> bool" where
  "streams_ok p \<longleftrightarrow> stream_ok p (st_async_reset_comb (pp_streams p)) \<and> stream_ok p (st_comb (pp_streams p))
     \<and> stream_ok p (st_tick_next (pp_streams p)) \<and> stream_ok p (st_tick_commit (pp_streams p))"

text \<open>What the constructor establishes about the parts that no operation changes.\<close>

definition simulator_ok :: "packed_simulator \<Rightarrow> bool" where
  "simulator_ok s \<longleftrightarrow>
     (let p = pk_program s; ms = mc_streams (pk_machine s); cs = pk_execution s in
       machine_implements p (pk_machine s)
       \<and> streams_ok p
       \<and> block_cache_of (ms_async_reset_comb ms) = Some (sc_async_reset_comb cs)
       \<and> block_cache_of (ms_comb ms) = Some (sc_comb cs)
       \<and> block_cache_of (ms_tick_next ms) = Some (sc_tick_next cs)
       \<and> block_cache_of (ms_tick_commit ms) = Some (sc_tick_commit cs))
     \<and> goes_on s s"

lemma goes_on_workspaces [simp]: "goes_on s (s'\<lparr>pk_workspaces := w\<rparr>) = goes_on s s'"
  by (simp add: goes_on_def storage_ok_def capture_ok_def)

lemma full_state_workspaces [simp]: "full_state (s\<lparr>pk_workspaces := w\<rparr>) = full_state s"
  by (intro ext) (simp add: full_state_def captured_def lane_state_def lane_signal_def layout_value_def lane_memory_def
      memory_words_def memory_word_index_def Let_def fun_eq_iff)

lemma simulator_ok_goes_on: "simulator_ok s \<Longrightarrow> goes_on s s' \<Longrightarrow> simulator_ok s'"
  by (simp add: simulator_ok_def goes_on_def Let_def)

lemma lowering_machine_implements:
  assumes "lower_to_machine_program p = Some mc" "streams_ok p"
  shows "machine_implements p mc"
  using assms lowering_implements
  by (auto simp: lower_to_machine_program_def bind_eq_Some machine_implements_def streams_ok_def)

text \<open>A run of a stream, and the record update of its workspace.\<close>

definition stream_run :: "packed_simulator \<Rightarrow> (full_state \<Rightarrow> full_state) \<Rightarrow> packed_simulator option \<Rightarrow> bool" where
  "stream_run s F r \<longleftrightarrow> (\<exists>s'. r = Some s' \<and> goes_on s s' \<and> (\<forall>l < pk_lanes s. full_state s' l = F (full_state s l)))"

lemma stream_run_bind:
  assumes "stream_run s F r" "\<And>s'. goes_on s s' \<Longrightarrow> stream_run s' G (k s')"
  shows "stream_run s (\<lambda>x. G (F x)) (r \<bind> k)"
proof -
  obtain s1 where s1: "r = Some s1" "goes_on s s1" "\<forall>l < pk_lanes s. full_state s1 l = F (full_state s l)"
    using assms(1) by (auto simp: stream_run_def)
  obtain s2 where s2: "k s1 = Some s2" "goes_on s1 s2" "\<forall>l < pk_lanes s1. full_state s2 l = G (full_state s1 l)"
    using assms(2) [OF s1(2)] by (auto simp: stream_run_def)
  then show ?thesis using s1 goes_on_trans [OF s1(2) s2(2)] goes_onD(3) [OF s1(2)] by (simp add: stream_run_def)
qed

context block_handler
begin

lemma stream_run_block:
  assumes "implements (pk_program s) ps block" "block_cache_of block = Some cache"
    and "stream_ok (pk_program s) ps" "goes_on s s" "\<And>s' w. upd s' w = s'\<lparr>pk_workspaces := f s' w\<rparr>"
  shows "stream_run s (fold (packet_step step (pk_program s)) ps) (if block = [] then Some s
      else do { (s', slots') \<leftarrow> run_block eff cache block (s, reset_slots cache (pk_lanes s) slots); Some (upd s' slots') })"
proof -
  obtain s' slots' where run: "run_block eff cache block (s, reset_slots cache (pk_lanes s) slots) = Some (s', slots')"
    "goes_on s s'" "\<forall>l < pk_lanes s. full_state s' l = fold (packet_step step (pk_program s)) ps (full_state s l)"
    using stream_step [OF assms(1-4)] by blast
  show ?thesis
  proof (cases "block = []")
    case True
    with run have "s' = s" by simp
    with True run show ?thesis by (simp add: stream_run_def)
  next
    case False
    with run show ?thesis by (simp add: stream_run_def assms(5))
  qed
qed

end

section \<open>Settling and clock edges\<close>

lemma execute_comb_run:
  assumes "simulator_ok s"
  shows "stream_run s (apfst (block_spec (pk_program s) (st_comb (pp_streams (pk_program s))))) (execute_comb s)"
  using exec_handler.stream_run_block [of s "st_comb (pp_streams (pk_program s))" "ms_comb (mc_streams (pk_machine s))"
      "sc_comb (pk_execution s)" "\<lambda>s' w. s'\<lparr>pk_workspaces := (pk_workspaces s')\<lparr>ss_comb := w\<rparr>\<rparr>"
      "\<lambda>s' w. (pk_workspaces s')\<lparr>ss_comb := w\<rparr>" "ss_comb (pk_workspaces s)"] assms
  by (simp add: machine_implements_def streams_ok_def execute_comb_def execute_machine_block_def exec_packets simulator_ok_def Let_def split del: if_split cong: if_cong)

lemma execute_async_reset_comb_run:
  assumes "simulator_ok s"
  shows "stream_run s (apfst (block_spec (pk_program s) (st_async_reset_comb (pp_streams (pk_program s))))) (execute_async_reset_comb s)"
  using exec_handler.stream_run_block [of s "st_async_reset_comb (pp_streams (pk_program s))"
      "ms_async_reset_comb (mc_streams (pk_machine s))" "sc_async_reset_comb (pk_execution s)"
      "\<lambda>s' w. s'\<lparr>pk_workspaces := (pk_workspaces s')\<lparr>ss_async_reset_comb := w\<rparr>\<rparr>"
      "\<lambda>s' w. (pk_workspaces s')\<lparr>ss_async_reset_comb := w\<rparr>" "ss_async_reset_comb (pk_workspaces s)"] assms
  by (simp add: machine_implements_def streams_ok_def execute_async_reset_comb_def execute_machine_block_def exec_packets simulator_ok_def Let_def split del: if_split cong: if_cong)

lemma execute_tick_commit_run:
  assumes "simulator_ok s"
  shows "stream_run s (apfst (block_spec (pk_program s) (st_tick_commit (pp_streams (pk_program s))))) (execute_tick_commit s)"
  using exec_handler.stream_run_block [of s "st_tick_commit (pp_streams (pk_program s))"
      "ms_tick_commit (mc_streams (pk_machine s))" "sc_tick_commit (pk_execution s)"
      "\<lambda>s' w. s'\<lparr>pk_workspaces := (pk_workspaces s')\<lparr>ss_tick_commit := w\<rparr>\<rparr>"
      "\<lambda>s' w. (pk_workspaces s')\<lparr>ss_tick_commit := w\<rparr>" "ss_tick_commit (pk_workspaces s)"] assms
  by (simp add: machine_implements_def streams_ok_def execute_tick_commit_def execute_machine_block_def exec_packets simulator_ok_def Let_def split del: if_split cong: if_cong)

lemma goes_on_no_captures: "goes_on s s \<Longrightarrow> goes_on s (s\<lparr>pk_captures := []\<rparr>)"
  by (simp add: goes_on_def)

lemma capture_register_stream_run:
  assumes "simulator_ok s"
  shows "stream_run s (\<lambda>fs. (fst fs, next_registers (pk_program s) (fst fs))) (capture_register_stream s)"
proof -
  let ?s = "s\<lparr>pk_captures := []\<rparr>"
  have g: "goes_on s ?s" using assms by (simp add: simulator_ok_def goes_on_no_captures)
  then have "simulator_ok ?s" by (rule simulator_ok_goes_on [OF assms])
  then have "stream_run ?s (fold (packet_step capture_step (pk_program s)) (st_tick_next (pp_streams (pk_program s)))) (capture_register_stream s)"
    using capture_handler.stream_run_block [of ?s "st_tick_next (pp_streams (pk_program s))"
      "ms_tick_next (mc_streams (pk_machine s))" "sc_tick_next (pk_execution s)"
      "\<lambda>s' w. s'\<lparr>pk_workspaces := (pk_workspaces s')\<lparr>ss_tick_next := w\<rparr>\<rparr>"
      "\<lambda>s' w. (pk_workspaces s')\<lparr>ss_tick_next := w\<rparr>" "ss_tick_next (pk_workspaces s)"]
    by (simp add: machine_implements_def streams_ok_def capture_register_stream_def capture_machine_registers_def simulator_ok_def Let_def split del: if_split cong: if_cong)
  moreover have "full_state ?s l = (fst (full_state s l), [])" for l
    by (simp add: full_state_def captured_def)
  ultimately show ?thesis
    using goes_on_trans [OF g] by (fastforce simp: stream_run_def capture_packets next_registers_def)
qed

lemma commit_captures_run:
  assumes "goes_on s s" "\<forall>c \<in> set cs. capture_ok s c"
  shows "\<exists>s'. commit_captures cs s = Some s' \<and> goes_on s s' \<and> pk_captures s' = pk_captures s
    \<and> (\<forall>l < pk_lanes s. lane_state s' l = apfst (commit_spec (map (\<lambda>c. (rc_signal c, take_bit (pl_width (rc_layout c))
        (lval (rows_at (rc_values c) (pk_lanes s) 0 (pl_limbs (rc_layout c)) l)))) cs)) (lane_state s l))"
  using assms
proof (induction cs arbitrary: s)
  case Nil
  then show ?case by (simp add: commit_spec_def apfst_def map_prod_def case_prod_beta)
next
  case (Cons c cs)
  have c: "rc_signal c < signal_count s" "rc_layout c = signal_layout s (rc_signal c)"
    "length (rc_values c) = pl_limbs (rc_layout c) * pk_lanes s" using Cons.prems(2) by (simp_all add: capture_ok_def)
  obtain ws where ws: "copy_lanes s (rc_layout c) (rc_values c) = Some (s\<lparr>pk_values := ws\<rparr>)" "storage_ok (s\<lparr>pk_values := ws\<rparr>)"
    "\<forall>l < pk_lanes s. lane_signal (s\<lparr>pk_values := ws\<rparr>) l = (lane_signal s l)(rc_signal c :=
        take_bit (pl_width (rc_layout c)) (lval (rows_at (rc_values c) (pk_lanes s) 0 (pl_limbs (rc_layout c)) l)))"
    using copy_lanes_ok [OF goes_onD(1) [OF Cons.prems(1)] c(1), of "rc_values c"] c(2,3) by auto
  let ?s = "s\<lparr>pk_values := ws\<rparr>"
  have g: "goes_on s ?s" "\<forall>c \<in> set cs. capture_ok ?s c" using Cons.prems ws(2) by (auto simp: goes_on_def capture_ok_def)
  obtain s' where s': "commit_captures cs ?s = Some s'" "goes_on ?s s'" "pk_captures s' = pk_captures s"
    "\<forall>l < pk_lanes s. lane_state s' l = apfst (commit_spec (map (\<lambda>c. (rc_signal c, take_bit (pl_width (rc_layout c))
        (lval (rows_at (rc_values c) (pk_lanes s) 0 (pl_limbs (rc_layout c)) l)))) cs)) (lane_state ?s l)"
    using Cons.IH [OF goes_onD(4) [OF g(1)] g(2)] by auto
  have "lane_state ?s l = apfst (\<lambda>S. S(rc_signal c := take_bit (pl_width (rc_layout c))
      (lval (rows_at (rc_values c) (pk_lanes s) 0 (pl_limbs (rc_layout c)) l)))) (lane_state s l)" if "l < pk_lanes s" for l
    using ws(3) that by (simp add: lane_state_def)
  with s' ws(1) c(3) goes_on_trans [OF g(1) s'(2)] show ?case by (simp add: commit_spec_def apfst_def map_prod_def case_prod_beta)
qed

text \<open>\<open>lane_run s F r\<close>: the operation succeeds, keeps the simulator well formed, and changes lane states by \<open>F\<close>.\<close>

definition lane_run :: "packed_simulator \<Rightarrow> (lane_state \<Rightarrow> lane_state) \<Rightarrow> packed_simulator option \<Rightarrow> bool" where
  "lane_run s F r \<longleftrightarrow> (\<exists>s'. r = Some s' \<and> goes_on s s' \<and> (\<forall>l < pk_lanes s. lane_state s' l = F (lane_state s l)))"

lemma stream_run_lane:
  "stream_run s F r \<Longrightarrow> (\<And>fs. fst (F fs) = G (fst fs)) \<Longrightarrow> lane_run s G r"
  unfolding stream_run_def lane_run_def full_state_def by (metis fst_conv)

lemma lane_run_bind:
  assumes "lane_run s F r" "\<And>s'. goes_on s s' \<Longrightarrow> lane_run s' G (k s')"
  shows "lane_run s (\<lambda>x. G (F x)) (r \<bind> k)"
proof -
  obtain s1 where s1: "r = Some s1" "goes_on s s1" "\<forall>l < pk_lanes s. lane_state s1 l = F (lane_state s l)"
    using assms(1) by (auto simp: lane_run_def)
  obtain s2 where s2: "k s1 = Some s2" "goes_on s1 s2" "\<forall>l < pk_lanes s1. lane_state s2 l = G (lane_state s1 l)"
    using assms(2) [OF s1(2)] by (auto simp: lane_run_def)
  then show ?thesis using s1 goes_on_trans [OF s1(2) s2(2)] goes_onD(3) [OF s1(2)] by (simp add: lane_run_def)
qed

lemma settle_run:
  assumes "simulator_ok s"
  shows "lane_run s (settle_spec (pk_program s)) (packed_eval_combinational s)"
proof -
  have "stream_run s' (apfst (block_spec (pk_program s) (st_async_reset_comb (pp_streams (pk_program s))))) (execute_async_reset_comb s')"
    if "goes_on s s'" for s'
    using execute_async_reset_comb_run [OF simulator_ok_goes_on [OF assms that]] goes_onD(2) [OF that] by simp
  from stream_run_bind [OF execute_comb_run [OF assms] this] show ?thesis
    unfolding packed_eval_combinational_def by (rule stream_run_lane) (simp_all add: settle_spec_def)
qed

lemma edge_run:
  assumes "simulator_ok s"
  shows "lane_run s (edge_spec (pk_program s)) (tick_from_evaluated_no_post_eval s)"
proof -
  let ?p = "pk_program s"
  have "stream_run s' (apfst (block_spec ?p (st_tick_commit (pp_streams ?p)))) (execute_tick_commit s')"
    if "goes_on s s'" for s'
    using execute_tick_commit_run [OF simulator_ok_goes_on [OF assms that]] goes_onD(2) [OF that] by simp
  from stream_run_bind [OF capture_register_stream_run [OF assms] this]
  obtain s2 where s2: "capture_register_stream s \<bind> execute_tick_commit = Some s2" "goes_on s s2"
    "\<forall>l < pk_lanes s. full_state s2 l = (block_spec ?p (st_tick_commit (pp_streams ?p)) (lane_state s l), next_registers ?p (lane_state s l))"
    by (auto simp: stream_run_def full_state_def)
  have "\<forall>c \<in> set (pk_captures s2). capture_ok s2 c" using s2(2) by (simp add: goes_on_def)
  from commit_captures_run [OF goes_onD(4) [OF s2(2)] this] obtain s3 where
    s3: "commit_register_captures s2 = Some s3" "goes_on s2 s3"
    "\<forall>l < pk_lanes s2. lane_state s3 l = apfst (commit_spec (captured s2 l)) (lane_state s2 l)"
    by (auto simp: commit_register_captures_def captured_def)
  have "lane_state s3 l = edge_spec ?p (lane_state s l)" if "l < pk_lanes s" for l
    using s3(3) s2(3) that goes_onD(3) [OF s2(2)] by (simp add: edge_spec_def full_state_def)
  moreover have "tick_from_evaluated_no_post_eval s = Some s3"
    using s2(1) s3(1) by (auto simp: tick_from_evaluated_no_post_eval_def bind_eq_Some)
  ultimately show ?thesis using goes_on_trans [OF s2(2) s3(2)] by (simp add: lane_run_def)
qed

lemma settle_run_after:
  "simulator_ok s \<Longrightarrow> goes_on s s' \<Longrightarrow> lane_run s' (settle_spec (pk_program s)) (packed_eval_combinational s')"
  using settle_run [OF simulator_ok_goes_on] goes_onD(2) by fastforce

lemma edge_run_after:
  "simulator_ok s \<Longrightarrow> goes_on s s' \<Longrightarrow> lane_run s' (edge_spec (pk_program s)) (tick_from_evaluated_no_post_eval s')"
  using edge_run [OF simulator_ok_goes_on] goes_onD(2) by fastforce

lemma tick_run:
  assumes "simulator_ok s"
  shows "lane_run s (tick_spec (pk_program s)) (packed_tick s)"
proof -
  have "lane_run s' (\<lambda>x. settle_spec (pk_program s) (edge_spec (pk_program s) x))
      (do { s2 \<leftarrow> tick_from_evaluated_no_post_eval s'; packed_eval_combinational s2 })" if g: "goes_on s s'" for s'
    by (rule lane_run_bind [OF edge_run_after [OF assms g]])
      (rule settle_run_after [OF assms goes_on_trans [OF g]])
  from lane_run_bind [OF settle_run [OF assms] this] show ?thesis
    by (simp add: packed_tick_def tick_spec_def [abs_def])
qed

lemma tick_steps_run:
  assumes "simulator_ok s" "goes_on s s'"
  shows "lane_run s' ((\<lambda>x. settle_spec (pk_program s) (edge_spec (pk_program s) x)) ^^ n) (tick_steps n s')"
  using assms(2)
proof (induction n arbitrary: s')
  case 0
  then show ?case by (simp add: lane_run_def goes_on_def)
next
  case (Suc n)
  have "lane_run s1 (\<lambda>x. ((\<lambda>x. settle_spec (pk_program s) (edge_spec (pk_program s) x)) ^^ n) (settle_spec (pk_program s) x))
      (do { s2 \<leftarrow> packed_eval_combinational s1; tick_steps n s2 })" if g: "goes_on s' s1" for s1
    by (rule lane_run_bind [OF settle_run_after [OF assms(1) goes_on_trans [OF Suc.prems g]]])
      (rule Suc.IH [OF goes_on_trans [OF goes_on_trans [OF Suc.prems g]]])
  from lane_run_bind [OF edge_run_after [OF assms(1) Suc.prems] this] show ?case
    by (simp add: funpow_Suc_right comp_def del: funpow.simps)
qed

lemma tick_many_run:
  assumes "simulator_ok s"
  shows "lane_run s (\<lambda>x. if n = 0 then x
      else ((\<lambda>x. settle_spec (pk_program s) (edge_spec (pk_program s) x)) ^^ n) (settle_spec (pk_program s) x)) (packed_tick_many n s)"
proof (cases "n = 0")
  case True
  then show ?thesis using assms by (simp add: packed_tick_many_def lane_run_def simulator_ok_def)
next
  case False
  with lane_run_bind [OF settle_run [OF assms] tick_steps_run [OF assms]] show ?thesis
    by (simp add: packed_tick_many_def)
qed

end
