(* ===== verification/Packed_Analysis.thy ===== *)
theory Packed_Analysis
  imports Packed_Tick "HOL-Library.AList"
begin

text \<open>
  The verifier of machine blocks (\<open>analyze_machine_block\<close>): every value is defined once and used
  only after the packet that defines it, every reference is in range; and its summary of a block.
  A hash map of values is the list of its entries, of which only lookups and counts are taken.
\<close>

section \<open>Summaries\<close>

datatype value_use_kind = InstructionInput | EffectInput

record value_use =
  vu_packet :: nat
  vu_kind :: value_use_kind

record value_analysis =
  va_ty :: bit_type
  va_defined_packet :: nat
  va_uses :: "value_use list"
  va_last_use_packet :: "nat option"

datatype instr_class = ClLiteral | ClSignalLoad | ClBitwise | ClArithmetic | ClCompare | ClSelect | ClBitMovement | ClMemoryRead

record class_counts =
  cc_literal :: nat
  cc_signal_load :: nat
  cc_bitwise :: nat
  cc_arithmetic :: nat
  cc_compare :: nat
  cc_select :: nat
  cc_bit_movement :: nat
  cc_memory_read :: nat

definition no_counts :: class_counts where
  "no_counts = \<lparr>cc_literal = 0, cc_signal_load = 0, cc_bitwise = 0, cc_arithmetic = 0, cc_compare = 0,
     cc_select = 0, cc_bit_movement = 0, cc_memory_read = 0\<rparr>"

fun count_class :: "instr_class \<Rightarrow> class_counts \<Rightarrow> class_counts" where
  "count_class ClLiteral c = c\<lparr>cc_literal := cc_literal c + 1\<rparr>"
| "count_class ClSignalLoad c = c\<lparr>cc_signal_load := cc_signal_load c + 1\<rparr>"
| "count_class ClBitwise c = c\<lparr>cc_bitwise := cc_bitwise c + 1\<rparr>"
| "count_class ClArithmetic c = c\<lparr>cc_arithmetic := cc_arithmetic c + 1\<rparr>"
| "count_class ClCompare c = c\<lparr>cc_compare := cc_compare c + 1\<rparr>"
| "count_class ClSelect c = c\<lparr>cc_select := cc_select c + 1\<rparr>"
| "count_class ClBitMovement c = c\<lparr>cc_bit_movement := cc_bit_movement c + 1\<rparr>"
| "count_class ClMemoryRead c = c\<lparr>cc_memory_read := cc_memory_read c + 1\<rparr>"

fun machine_instr_class :: "'v packed_kind \<Rightarrow> instr_class" where
  "machine_instr_class (PLit ls) = ClLiteral"
| "machine_instr_class (PSignal i) = ClSignalLoad"
| "machine_instr_class (PNot a) = ClBitwise"
| "machine_instr_class (PAnd a b) = ClBitwise"
| "machine_instr_class (POr a b) = ClBitwise"
| "machine_instr_class (PXor a b) = ClBitwise"
| "machine_instr_class (PAdd a b) = ClArithmetic"
| "machine_instr_class (PSub a b) = ClArithmetic"
| "machine_instr_class (PMul a b) = ClArithmetic"
| "machine_instr_class (PEq a b) = ClCompare"
| "machine_instr_class (PNe a b) = ClCompare"
| "machine_instr_class (PLt a b s) = ClCompare"
| "machine_instr_class (PMux c t e) = ClSelect"
| "machine_instr_class (PSlice a lsb) = ClBitMovement"
| "machine_instr_class (PZext a) = ClBitMovement"
| "machine_instr_class (PSext a) = ClBitMovement"
| "machine_instr_class (PTrunc a) = ClBitMovement"
| "machine_instr_class (PCast a) = ClBitMovement"
| "machine_instr_class (PConcat vs) = ClBitMovement"
| "machine_instr_class (PMemRead m a) = ClMemoryRead"

record packet_analysis =
  pa_instr_count :: nat
  pa_effect_count :: nat
  pa_class_counts :: class_counts

record block_analysis =
  ba_packets :: "packet_analysis list"
  ba_values :: "(value_id \<times> value_analysis) list"
  ba_instr_count :: nat
  ba_effect_count :: nat
  ba_max_packet_width :: nat
  ba_max_live_values :: nat
  ba_avg_live_values_x100 :: nat
  ba_max_packet_memory_reads :: nat

record machine_analysis =
  ma_async_reset_comb :: block_analysis
  ma_comb :: block_analysis
  ma_tick_next :: block_analysis
  ma_tick_commit :: block_analysis
  ma_instr_count :: nat
  ma_effect_count :: nat
  ma_max_packet_width :: nat
  ma_max_live_values :: nat
  ma_avg_live_values_x100 :: nat
  ma_max_packet_memory_reads :: nat

section \<open>The checks\<close>

definition validate_signal_index :: "nat \<Rightarrow> packed_program \<Rightarrow> string \<Rightarrow> diagnostic list" where
  "validate_signal_index i p ctx =
     (if length (pp_signals p) \<le> i
      then [new_diag ''E_SIM_IR_MACHINE_SIGNAL'' (ctx @ '' references signal index '' @ show_nat i
             @ '', but packed program has '' @ show_nat (length (pp_signals p)) @ '' signals'')]
      else [])"

definition validate_memory_index :: "nat \<Rightarrow> packed_program \<Rightarrow> string \<Rightarrow> diagnostic list" where
  "validate_memory_index m p ctx =
     (if length (pp_memories p) \<le> m
      then [new_diag ''E_SIM_IR_MACHINE_MEMORY'' (ctx @ '' references memory index '' @ show_nat m
             @ '', but packed program has '' @ show_nat (length (pp_memories p)) @ '' memories'')]
      else [])"

definition validate_machine_instr_refs :: "packed_instr \<Rightarrow> packed_program \<Rightarrow> diagnostic list" where
  "validate_machine_instr_refs i p =
     (case in_kind i of
        PSignal s \<Rightarrow> validate_signal_index s p ''machine signal load''
      | PMemRead m a \<Rightarrow> validate_memory_index m p ''machine memory read''
      | _ \<Rightarrow> [])"

fun validate_machine_effect_refs :: "packed_effect \<Rightarrow> packed_program \<Rightarrow> diagnostic list" where
  "validate_machine_effect_refs (StoreSignal dst v) p = validate_signal_index dst p ''machine store''"
| "validate_machine_effect_refs (CaptureRegEffect dst v r) p =
     validate_signal_index dst p ''machine register capture''
       @ (case r of None \<Rightarrow> [] | Some rst \<Rightarrow> validate_signal_index (pr_signal rst) p ''machine reset condition'')"
| "validate_machine_effect_refs (MemoryWriteEffect m en a v) p = validate_memory_index m p ''machine memory write''"

definition debug_value :: "value_id \<Rightarrow> string" where
  "debug_value v = ''PackedValueId('' @ show_nat v @ '')''"

type_synonym analysis_state = "(value_id \<times> value_analysis) list \<times> diagnostic list"

definition record_machine_value_use :: "nat \<Rightarrow> value_use_kind \<Rightarrow> bool \<Rightarrow> value_id \<Rightarrow> analysis_state \<Rightarrow> analysis_state" where
  "record_machine_value_use packet kind allow v = (\<lambda>(vals, ds).
     case map_of vals v of
       None \<Rightarrow> (vals, ds @ [new_diag ''E_SIM_IR_MACHINE_USE_BEFORE_DEF''
           (''machine value '' @ debug_value v @ '' is used before it is defined'')])
     | Some a \<Rightarrow>
         if packet < va_defined_packet a \<or> \<not> allow \<and> va_defined_packet a = packet
         then (vals, ds @ [new_diag ''E_SIM_IR_MACHINE_USE_BEFORE_DEF''
           (''machine value '' @ debug_value v @ '' is used in packet '' @ show_nat packet
            @ '' before an earlier packet defines it'')])
         else (AList.map_entry v (\<lambda>a. a\<lparr>va_uses := va_uses a @ [\<lparr>vu_packet = packet, vu_kind = kind\<rparr>],
                 va_last_use_packet := Some (case va_last_use_packet a of None \<Rightarrow> packet | Some l \<Rightarrow> max l packet)\<rparr>) vals, ds))"

definition define_machine_value :: "nat \<Rightarrow> packed_instr \<Rightarrow> analysis_state \<Rightarrow> analysis_state" where
  "define_machine_value packet i = (\<lambda>(vals, ds).
     case map_of vals (in_dst i) of
       Some _ \<Rightarrow> (vals, ds @ [new_diag ''E_SIM_IR_MACHINE_DUP_VALUE''
           (''machine value '' @ debug_value (in_dst i) @ '' is defined more than once'')])
     | None \<Rightarrow> (vals @ [(in_dst i, \<lparr>va_ty = in_ty i, va_defined_packet = packet, va_uses = [], va_last_use_packet = None\<rparr>)], ds))"

definition analyze_instr :: "packed_program \<Rightarrow> nat \<Rightarrow> packed_instr \<Rightarrow> analysis_state \<Rightarrow> analysis_state" where
  "analyze_instr p packet i = (\<lambda>(vals, ds).
     define_machine_value packet i
       (fold (record_machine_value_use packet InstructionInput False) (instr_value_deps (in_kind i))
          (vals, ds @ validate_machine_instr_refs i p)))"

definition analyze_effect :: "packed_program \<Rightarrow> nat \<Rightarrow> packed_effect \<Rightarrow> analysis_state \<Rightarrow> analysis_state" where
  "analyze_effect p packet eff = (\<lambda>(vals, ds).
     fold (record_machine_value_use packet EffectInput True) (effect_value_deps eff)
       (vals, ds @ validate_machine_effect_refs eff p))"

definition analyze_packet :: "packed_program \<Rightarrow> nat \<times> machine_packet \<Rightarrow> analysis_state \<Rightarrow> analysis_state" where
  "analyze_packet p = (\<lambda>(k, pk) st.
     fold (analyze_effect p k) (mp_effects pk) (fold (analyze_instr p k) (mp_instrs pk) st))"

definition packet_classes :: "machine_packet \<Rightarrow> class_counts" where
  "packet_classes pk = fold (\<lambda>i. count_class (machine_instr_class (in_kind i))) (mp_instrs pk) no_counts"

definition live_value_counts :: "(value_id \<times> value_analysis) list \<Rightarrow> nat \<Rightarrow> nat list" where
  "live_value_counts vals n = map (\<lambda>k. length (filter (\<lambda>(v, a).
     case va_last_use_packet a of None \<Rightarrow> False | Some l \<Rightarrow> va_defined_packet a \<le> k \<and> k < l) vals)) [0..<n]"

definition max_of :: "nat list \<Rightarrow> nat" where
  "max_of xs = fold max xs 0"

definition analyze_machine_block :: "packed_block \<Rightarrow> packed_program \<Rightarrow> error_report + block_analysis" where
  "analyze_machine_block block p =
     (let (vals, ds) = fold (analyze_packet p) (enumerate 0 block) ([], []) in
      if ds \<noteq> [] then Inl ds
      else let live = live_value_counts vals (length block)
        in Inr \<lparr>ba_packets = map (\<lambda>pk. \<lparr>pa_instr_count = length (mp_instrs pk), pa_effect_count = length (mp_effects pk),
                  pa_class_counts = packet_classes pk\<rparr>) block,
                ba_values = vals,
                ba_instr_count = sum_list (map (\<lambda>pk. length (mp_instrs pk)) block),
                ba_effect_count = sum_list (map (\<lambda>pk. length (mp_effects pk)) block),
                ba_max_packet_width = max_of (map (\<lambda>pk. length (mp_instrs pk)) block),
                ba_max_live_values = max_of live,
                ba_avg_live_values_x100 = (if live = [] then 0 else sum_list live * 100 div length live),
                ba_max_packet_memory_reads = max_of (map (\<lambda>pk. cc_memory_read (packet_classes pk)) block)\<rparr>)"

definition average_live_values_x100 :: "block_analysis list \<Rightarrow> nat" where
  "average_live_values_x100 bs =
     (let total = sum_list (map (\<lambda>b. length (ba_packets b)) bs)
      in if total = 0 then 0 else sum_list (map (\<lambda>b. ba_avg_live_values_x100 b * length (ba_packets b)) bs) div total)"

definition analyze_machine_program :: "machine_program \<Rightarrow> error_report + machine_analysis" where
  "analyze_machine_program mc =
     (let src = mc_source mc; ms = mc_streams mc in
      and_then (analyze_machine_block (ms_async_reset_comb ms) src) (\<lambda>ar.
      and_then (analyze_machine_block (ms_comb ms) src) (\<lambda>cb.
      and_then (analyze_machine_block (ms_tick_next ms) src) (\<lambda>tn.
      and_then (analyze_machine_block (ms_tick_commit ms) src) (\<lambda>tc.
        let bs = [ar, cb, tn, tc] in
          Inr \<lparr>ma_async_reset_comb = ar, ma_comb = cb, ma_tick_next = tn, ma_tick_commit = tc,
               ma_instr_count = sum_list (map ba_instr_count bs),
               ma_effect_count = sum_list (map ba_effect_count bs),
               ma_max_packet_width = max_of (map ba_max_packet_width bs),
               ma_max_live_values = max_of (map ba_max_live_values bs),
               ma_avg_live_values_x100 = average_live_values_x100 bs,
               ma_max_packet_memory_reads = max_of (map ba_max_packet_memory_reads bs)\<rparr>)))))"

section \<open>What acceptance means\<close>

definition instr_refs_ok :: "packed_program \<Rightarrow> packed_instr \<Rightarrow> bool" where
  "instr_refs_ok p i \<longleftrightarrow>
     (case in_kind i of PSignal s \<Rightarrow> s < length (pp_signals p) | PMemRead m a \<Rightarrow> m < length (pp_memories p) | _ \<Rightarrow> True)"

fun effect_refs_ok :: "packed_program \<Rightarrow> packed_effect \<Rightarrow> bool" where
  "effect_refs_ok p (StoreSignal dst v) \<longleftrightarrow> dst < length (pp_signals p)"
| "effect_refs_ok p (CaptureRegEffect dst v r) \<longleftrightarrow> dst < length (pp_signals p)
     \<and> (case r of None \<Rightarrow> True | Some rst \<Rightarrow> pr_signal rst < length (pp_signals p))"
| "effect_refs_ok p (MemoryWriteEffect m en a v) \<longleftrightarrow> m < length (pp_memories p)"

text \<open>\<open>block_valid p D block\<close>: the block may follow the definitions \<open>D\<close>.\<close>

fun block_valid :: "packed_program \<Rightarrow> value_id set \<Rightarrow> packed_block \<Rightarrow> bool" where
  "block_valid p D [] \<longleftrightarrow> True"
| "block_valid p D (pk # rest) \<longleftrightarrow>
     (\<forall>i \<in> set (mp_instrs pk). set (instr_value_deps (in_kind i)) \<subseteq> D \<and> instr_refs_ok p i)
     \<and> distinct (map in_dst (mp_instrs pk)) \<and> in_dst ` set (mp_instrs pk) \<inter> D = {}
     \<and> (\<forall>eff \<in> set (mp_effects pk). set (effect_value_deps eff) \<subseteq> D \<union> in_dst ` set (mp_instrs pk) \<and> effect_refs_ok p eff)
     \<and> block_valid p (D \<union> in_dst ` set (mp_instrs pk)) rest"

lemma validate_instr_Nil: "validate_machine_instr_refs i p = [] \<longleftrightarrow> instr_refs_ok p i"
  by (simp add: validate_machine_instr_refs_def instr_refs_ok_def validate_signal_index_def validate_memory_index_def
      not_le split: packed_kind.split)

lemma validate_effect_Nil: "validate_machine_effect_refs eff p = [] \<longleftrightarrow> effect_refs_ok p eff"
  by (cases eff) (auto simp: validate_signal_index_def validate_memory_index_def not_le split: option.splits)

text \<open>The packet in which a value is defined, in a state of the analysis.\<close>

definition defined_at :: "analysis_state \<Rightarrow> value_id \<rightharpoonup> nat" where
  "defined_at st v = map_option va_defined_packet (map_of (fst st) v)"

definition use_ok :: "bool \<Rightarrow> nat \<Rightarrow> nat option \<Rightarrow> bool" where
  "use_ok allow k d \<longleftrightarrow> (case d of None \<Rightarrow> False | Some j \<Rightarrow> j < k \<or> allow \<and> j = k)"

lemma record_use_state:
  "defined_at (record_machine_value_use k kind allow v st) = defined_at st"
  "snd (record_machine_value_use k kind allow v st) = [] \<longleftrightarrow> snd st = [] \<and> use_ok allow k (defined_at st v)"
proof -
  have "map_option va_defined_packet (map_of (AList.map_entry v (\<lambda>a. a\<lparr>va_uses := f a, va_last_use_packet := g a\<rparr>) vals) w) =
      map_option va_defined_packet (map_of vals w)" for f g vals w
    by (simp add: map_of_map_entry split: option.split)
  then show "defined_at (record_machine_value_use k kind allow v st) = defined_at st"
    by (auto simp: record_machine_value_use_def defined_at_def fun_eq_iff split: prod.split option.split)
  show "snd (record_machine_value_use k kind allow v st) = [] \<longleftrightarrow> snd st = [] \<and> use_ok allow k (defined_at st v)"
    by (auto simp: record_machine_value_use_def defined_at_def use_ok_def split: prod.split option.split)
qed

lemma fold_uses:
  "defined_at (fold (record_machine_value_use k kind allow) vs st) = defined_at st
   \<and> (snd (fold (record_machine_value_use k kind allow) vs st) = [] \<longleftrightarrow> snd st = [] \<and> (\<forall>v \<in> set vs. use_ok allow k (defined_at st v)))"
  by (induction vs arbitrary: st) (auto simp: record_use_state)

lemma define_state:
  "defined_at (define_machine_value k i st) = (case defined_at st (in_dst i) of None \<Rightarrow> (defined_at st)(in_dst i \<mapsto> k) | Some _ \<Rightarrow> defined_at st)"
  "snd (define_machine_value k i st) = [] \<longleftrightarrow> snd st = [] \<and> defined_at st (in_dst i) = None"
  by (auto simp: define_machine_value_def defined_at_def fun_eq_iff map_add_def split: prod.split option.split)

lemma analyze_instr_state:
  "defined_at (analyze_instr p k i st) =
     (case defined_at st (in_dst i) of None \<Rightarrow> (defined_at st)(in_dst i \<mapsto> k) | Some _ \<Rightarrow> defined_at st)"
  "snd (analyze_instr p k i st) = [] \<longleftrightarrow> snd st = [] \<and> instr_refs_ok p i
     \<and> (\<forall>v \<in> set (instr_value_deps (in_kind i)). use_ok False k (defined_at st v)) \<and> defined_at st (in_dst i) = None"
proof -
  obtain vals ds where st: "st = (vals, ds)" by fastforce
  have same: "defined_at (vals, ds @ e) = defined_at st" for e by (simp add: defined_at_def st fun_eq_iff)
  show "defined_at (analyze_instr p k i st) =
     (case defined_at st (in_dst i) of None \<Rightarrow> (defined_at st)(in_dst i \<mapsto> k) | Some _ \<Rightarrow> defined_at st)"
    by (simp add: analyze_instr_def st define_state fold_uses same [unfolded st] split: option.split)
  show "snd (analyze_instr p k i st) = [] \<longleftrightarrow> snd st = [] \<and> instr_refs_ok p i
     \<and> (\<forall>v \<in> set (instr_value_deps (in_kind i)). use_ok False k (defined_at st v)) \<and> defined_at st (in_dst i) = None"
    by (auto simp: analyze_instr_def st define_state fold_uses same [unfolded st] validate_instr_Nil)
qed

lemma analyze_effect_state:
  "defined_at (analyze_effect p k eff st) = defined_at st"
  "snd (analyze_effect p k eff st) = [] \<longleftrightarrow> snd st = [] \<and> effect_refs_ok p eff
     \<and> (\<forall>v \<in> set (effect_value_deps eff). use_ok True k (defined_at st v))"
proof -
  obtain vals ds where st: "st = (vals, ds)" by fastforce
  have same: "defined_at (vals, ds @ e) = defined_at st" for e by (simp add: defined_at_def st fun_eq_iff)
  show "defined_at (analyze_effect p k eff st) = defined_at st"
    by (simp add: analyze_effect_def st fold_uses same [unfolded st])
  show "snd (analyze_effect p k eff st) = [] \<longleftrightarrow> snd st = [] \<and> effect_refs_ok p eff
     \<and> (\<forall>v \<in> set (effect_value_deps eff). use_ok True k (defined_at st v))"
    by (auto simp: analyze_effect_def st fold_uses same [unfolded st] validate_effect_Nil)
qed

text \<open>The values defined before packet \<open>k\<close> are \<open>D\<close>, those of packet \<open>k\<close> so far are \<open>N\<close>.\<close>

definition defined_sets :: "nat \<Rightarrow> value_id set \<Rightarrow> value_id set \<Rightarrow> analysis_state \<Rightarrow> bool" where
  "defined_sets k D N st \<longleftrightarrow> dom (defined_at st) = D \<union> N \<and> D \<inter> N = {}
     \<and> (\<forall>v \<in> D. the (defined_at st v) < k) \<and> (\<forall>v \<in> N. defined_at st v = Some k)"

lemma defined_sets_use:
  assumes "defined_sets k D N st"
  shows "use_ok False k (defined_at st v) \<longleftrightarrow> v \<in> D" "use_ok True k (defined_at st v) \<longleftrightarrow> v \<in> D \<union> N"
    "defined_at st v = None \<longleftrightarrow> v \<notin> D \<union> N"
proof -
  have "v \<in> D \<union> N \<longleftrightarrow> (\<exists>j. defined_at st v = Some j)" using assms unfolding defined_sets_def by blast
  moreover have "v \<in> D \<Longrightarrow> the (defined_at st v) < k" "v \<in> N \<Longrightarrow> defined_at st v = Some k"
    using assms unfolding defined_sets_def by blast+
  ultimately show "use_ok False k (defined_at st v) \<longleftrightarrow> v \<in> D" "use_ok True k (defined_at st v) \<longleftrightarrow> v \<in> D \<union> N"
    "defined_at st v = None \<longleftrightarrow> v \<notin> D \<union> N"
    by (auto simp: use_ok_def split: option.splits)
qed

lemma fold_instrs:
  assumes "defined_sets k D N st"
  shows "(snd (fold (analyze_instr p k) is st) = [] \<longleftrightarrow> snd st = []
      \<and> (\<forall>i \<in> set is. set (instr_value_deps (in_kind i)) \<subseteq> D \<and> instr_refs_ok p i)
      \<and> distinct (map in_dst is) \<and> in_dst ` set is \<inter> (D \<union> N) = {})
    \<and> defined_sets k D (N \<union> (in_dst ` set is - D)) (fold (analyze_instr p k) is st)"
  using assms
proof (induction "is" arbitrary: N st)
  case (Cons i "is")
  let ?st = "analyze_instr p k i st" and ?N = "N \<union> ({in_dst i} - D)"
  note use = defined_sets_use [OF Cons.prems]
  have "defined_sets k D ?N ?st"
  proof (cases "in_dst i \<in> D \<union> N")
    case True
    then obtain j where "defined_at st (in_dst i) = Some j" using use(3) [of "in_dst i"] by auto
    moreover have "?N = N" using True by auto
    ultimately show ?thesis using Cons.prems by (simp add: defined_sets_def analyze_instr_state)
  next
    case False
    then have "defined_at st (in_dst i) = None" using use(3) by simp
    with False Cons.prems show ?thesis by (auto simp: defined_sets_def analyze_instr_state)
  qed
  note IH = Cons.IH [OF this]
  have "?N \<union> (in_dst ` set is - D) = N \<union> (in_dst ` set (i # is) - D)" by auto
  with IH have "defined_sets k D (N \<union> (in_dst ` set (i # is) - D)) (fold (analyze_instr p k) (i # is) st)" by simp
  moreover have "snd (fold (analyze_instr p k) (i # is) st) = [] \<longleftrightarrow> snd st = []
      \<and> (\<forall>i \<in> set (i # is). set (instr_value_deps (in_kind i)) \<subseteq> D \<and> instr_refs_ok p i)
      \<and> distinct (map in_dst (i # is)) \<and> in_dst ` set (i # is) \<inter> (D \<union> N) = {}"
    using IH use by (auto simp: analyze_instr_state) (metis image_eqI)+
  ultimately show ?case by blast
qed simp

lemma fold_effects:
  "defined_sets k D N st \<Longrightarrow> (snd (fold (analyze_effect p k) effs st) = [] \<longleftrightarrow> snd st = []
      \<and> (\<forall>eff \<in> set effs. set (effect_value_deps eff) \<subseteq> D \<union> N \<and> effect_refs_ok p eff))
    \<and> defined_sets k D N (fold (analyze_effect p k) effs st)"
proof (induction effs arbitrary: st)
  case (Cons eff effs)
  have "defined_sets k D N (analyze_effect p k eff st)" using Cons.prems by (simp add: defined_sets_def analyze_effect_state)
  from Cons.IH [OF this] defined_sets_use [OF Cons.prems] show ?case by (auto simp: analyze_effect_state)
qed simp

lemma fold_packets:
  "defined_sets k D {} st \<Longrightarrow> snd (fold (analyze_packet p) (enumerate k block) st) = [] \<longleftrightarrow> snd st = [] \<and> block_valid p D block"
proof (induction block arbitrary: k D st)
  case (Cons pk block)
  let ?st1 = "fold (analyze_instr p k) (mp_instrs pk) st"
  let ?st2 = "fold (analyze_effect p k) (mp_effects pk) ?st1"
  let ?N = "in_dst ` set (mp_instrs pk) - D"
  note one = fold_instrs [OF Cons.prems, of p "mp_instrs pk"]
  then have st1: "defined_sets k D ?N ?st1" by simp
  note two = fold_effects [OF st1, of p "mp_effects pk"]
  then have "defined_sets (Suc k) (D \<union> ?N) {} ?st2"
    by (auto simp: defined_sets_def less_Suc_eq)
  moreover have "D \<union> ?N = D \<union> in_dst ` set (mp_instrs pk)" by auto
  ultimately have "snd (fold (analyze_packet p) (enumerate (Suc k) block) ?st2) = [] \<longleftrightarrow>
      snd ?st2 = [] \<and> block_valid p (D \<union> in_dst ` set (mp_instrs pk)) block" using Cons.IH by metis
  with one two \<open>D \<union> ?N = D \<union> in_dst ` set (mp_instrs pk)\<close> show ?case by (auto simp: analyze_packet_def)
qed simp

lemma analyze_machine_block_iff: "(\<exists>a. analyze_machine_block block p = Inr a) \<longleftrightarrow> block_valid p {} block"
proof -
  have "defined_sets 0 {} {} ([], [])" by (simp add: defined_sets_def defined_at_def dom_def)
  from fold_packets [OF this, of p block] show ?thesis
    by (auto simp: analyze_machine_block_def Let_def split: prod.split)
qed

section \<open>Lowered blocks are accepted\<close>

lemma block_valid_region:
  assumes "packets \<noteq> []" "\<forall>pk \<in> set packets. mp_effects pk = []" "layered D' (map mp_instrs packets)" "D' \<subseteq> D"
    and "in_dst ` set (concat (map mp_instrs packets)) \<inter> D = {}"
    and "\<forall>i \<in> set (concat (map mp_instrs packets)). instr_refs_ok p i"
    and "\<forall>eff \<in> set effs. set (effect_value_deps eff) \<subseteq> D \<union> in_dst ` set (concat (map mp_instrs packets)) \<and> effect_refs_ok p eff"
    and "block_valid p (D \<union> in_dst ` set (concat (map mp_instrs packets))) rest"
  shows "block_valid p D (add_effects effs packets @ rest)"
  using assms
proof (induction packets arbitrary: D' D)
  case (Cons pk packets)
  let ?d = "in_dst ` set (mp_instrs pk)"
  have "\<forall>i \<in> set (mp_instrs pk). set (instr_value_deps (in_kind i)) \<subseteq> D'"
    using Cons.prems(3) by (simp add: instr_value_deps_def)
  then have pk: "\<forall>i \<in> set (mp_instrs pk). set (instr_value_deps (in_kind i)) \<subseteq> D \<and> instr_refs_ok p i"
    using Cons.prems(4,6) by auto
  moreover have "distinct (map in_dst (mp_instrs pk))" using Cons.prems(3) by simp
  moreover have "?d \<inter> D = {}" using Cons.prems(5) by auto
  ultimately have pk: "\<forall>i \<in> set (mp_instrs pk). set (instr_value_deps (in_kind i)) \<subseteq> D \<and> instr_refs_ok p i"
    "distinct (map in_dst (mp_instrs pk))" "?d \<inter> D = {}" by blast+
  show ?case
  proof (cases "packets = []")
    case True
    with Cons.prems(2,7,8) pk show ?thesis by (simp add: add_effects_def)
  next
    case False
    have eq: "add_effects effs (pk # packets) = pk # add_effects effs packets"
      using False by (simp add: add_effects_def Let_def)
    have lay: "layered (D' \<union> ?d) (map mp_instrs packets)" using Cons.prems(3) by simp
    define N where "N = in_dst ` set (concat (map mp_instrs packets))"
    have all: "in_dst ` set (concat (map mp_instrs (pk # packets))) = ?d \<union> N" by (simp add: N_def image_Un)
    have "ssa_from (D' \<union> ?d) (concat (map mp_instrs packets))" using layered_ssa [OF lay] .
    from ssa_from_distinct [OF this] have "N \<inter> ?d = {}" by (auto simp: N_def)
    moreover have "N \<inter> D = {}" using Cons.prems(5) unfolding all by blast
    ultimately have N: "N \<inter> (D \<union> ?d) = {}" by blast
    have un: "D \<union> (?d \<union> N) = (D \<union> ?d) \<union> N" by blast
    have effs: "\<forall>eff \<in> set effs. set (effect_value_deps eff) \<subseteq> (D \<union> ?d) \<union> N \<and> effect_refs_ok p eff"
      using Cons.prems(7) unfolding all un .
    have rest: "block_valid p ((D \<union> ?d) \<union> N) rest" using Cons.prems(8) unfolding all un .
    have refs: "\<forall>i \<in> set (concat (map mp_instrs packets)). instr_refs_ok p i" using Cons.prems(6) by simp
    have "D' \<union> ?d \<subseteq> D \<union> ?d" "\<forall>pk \<in> set packets. mp_effects pk = []" using Cons.prems(2,4) by auto
    then have "block_valid p (D \<union> ?d) (add_effects effs packets @ rest)"
      using Cons.IH [OF False _ lay _ N [unfolded N_def] refs effs [unfolded N_def] rest [unfolded N_def]] by simp
    with pk Cons.prems(2) show ?thesis by (simp add: eq)
  qed
qed simp

lemma denotes_refs_ok: "denotes E i \<Longrightarrow> expr_ok p (E (in_dst i)) \<Longrightarrow> instr_refs_ok p i"
  by (cases "in_kind i") (simp_all add: denotes_def instr_refs_ok_def)

lemma effect_denotes_refs_ok: "effect_denotes E x eff \<Longrightarrow> op_ok p x \<Longrightarrow> effect_refs_ok p eff"
  by (cases x; cases eff) simp_all

lemma block_lowered_valid:
  assumes "block_lowered (expr_ok p) E n ps block" "stream_ok p ps" "D \<subseteq> {..<n}"
  shows "block_valid p D block"
  using assms
proof (induction ps arbitrary: n block D)
  case (Cons ops rest)
  from Cons.prems(1) obtain n' effs packets block' where b: "block = add_effects effs packets @ block'"
    "\<forall>p \<in> set packets. mp_effects p = []" "layered {} (map mp_instrs packets)"
    "packet_lowered (expr_ok p) E n n' ops effs (concat (map mp_instrs packets))"
    "block_lowered (expr_ok p) E n' rest block'" by auto
  have low: "n \<le> n'" "in_dst ` set (concat (map mp_instrs packets)) = {n..<n'}"
    "\<forall>i \<in> set (concat (map mp_instrs packets)). denotes E i \<and> expr_ok p (E (in_dst i))"
    "list_all2 (holds_effect n E n') ops effs" using b(4) by (simp_all add: packet_lowered_def del: set_concat)
  have rest: "block_valid p (D \<union> {n..<n'}) block'"
  proof (rule Cons.IH [OF b(5)])
    show "stream_ok p rest" using Cons.prems(2) by (simp add: stream_ok_def)
    show "D \<union> {n..<n'} \<subseteq> {..<n'}" using Cons.prems(3) low(1) by auto
  qed
  have effs: "\<forall>eff \<in> set effs. set (effect_value_deps eff) \<subseteq> {n..<n'} \<and> effect_refs_ok p eff"
  proof (rule list_all2_right [OF low(4)])
    fix x eff assume "x \<in> set ops" and h: "holds_effect n E n' x eff"
    then have "op_ok p x" using Cons.prems(2) by (simp add: stream_ok_def)
    with h effect_denotes_refs_ok [of E x eff p]
    show "set (effect_value_deps eff) \<subseteq> {n..<n'} \<and> effect_refs_ok p eff" by (auto simp: holds_effect_def)
  qed
  show ?case
  proof (cases "packets = []")
    case True
    then have "{n..<n'} = {}" using low(2) by simp
    with True effs rest show ?thesis by (auto simp: b(1) add_effects_def)
  next
    case False
    have "{n..<n'} \<inter> D = {}" using Cons.prems(3) by auto
    moreover have "\<forall>i \<in> set (concat (map mp_instrs packets)). instr_refs_ok p i" using low(3) denotes_refs_ok by blast
    moreover have "\<forall>eff \<in> set effs. set (effect_value_deps eff) \<subseteq> D \<union> {n..<n'} \<and> effect_refs_ok p eff" using effs by blast
    ultimately show ?thesis using block_valid_region [OF False b(2,3), of D p effs block'] rest
      unfolding b(1) low(2) by simp
  qed
qed simp

lemma lowered_stream_valid:
  assumes "lower_packets_to_block ps = Some block" "stream_ok p ps"
  shows "block_valid p {} block"
proof -
  obtain E where "block_lowered (expr_ok p) E 0 ps block"
    using lower_packets_ok [OF expr_ok_hereditary stream_ok_exprs [OF assms(2)], of 0] assms(1)
    by (auto simp: lower_packets_to_block_def)
  then show ?thesis using block_lowered_valid assms(2) by blast
qed

lemma analyze_machine_program_iff:
  "(\<exists>a. analyze_machine_program mc = Inr a) \<longleftrightarrow>
     (\<forall>block \<in> {ms_async_reset_comb (mc_streams mc), ms_comb (mc_streams mc), ms_tick_next (mc_streams mc),
        ms_tick_commit (mc_streams mc)}. block_valid (mc_source mc) {} block)"
proof -
  have "(\<exists>a. analyze_machine_program mc = Inr a) \<longleftrightarrow>
     (\<forall>block \<in> {ms_async_reset_comb (mc_streams mc), ms_comb (mc_streams mc), ms_tick_next (mc_streams mc),
        ms_tick_commit (mc_streams mc)}. \<exists>a. analyze_machine_block block (mc_source mc) = Inr a)"
    by (auto simp: analyze_machine_program_def Let_def and_then_Inr_iff)
  then show ?thesis by (simp only: analyze_machine_block_iff)
qed

end
