(* ===== verification/Packed_Schedule.thy ===== *)
theory Packed_Schedule
  imports Packed_Analysis
begin

text \<open>
  The scheduling pass on machine blocks (\<open>optimize_machine_block\<close>): the instructions between two
  packets with effects are rescheduled by list scheduling into packets of bounded width and
  number of memory reads.  An index of a vector or a subtraction that panics is \<open>None\<close>.
\<close>

section \<open>Options and priorities\<close>

record schedule_options =
  so_max_packet_width :: "nat option"
  so_max_memory_reads_per_packet :: "nat option"
  so_liveness_priority :: bool

record schedule_priority =
  sp_final_use_operands :: nat
  sp_latest_operand_last_use :: nat

datatype ordering = Less | Equal | Greater

definition cmp_nat :: "nat \<Rightarrow> nat \<Rightarrow> ordering" where
  "cmp_nat a b = (if a < b then Less else if a = b then Equal else Greater)"

fun then_with :: "ordering \<Rightarrow> ordering \<Rightarrow> ordering" where
  "then_with Equal o2 = o2"
| "then_with o1 o2 = o1"

definition usize_max :: nat where
  "usize_max = 2 ^ 64 - 1"

definition is_memory_read :: "packed_instr \<Rightarrow> bool" where
  "is_memory_read i \<longleftrightarrow> (case in_kind i of PMemRead m a \<Rightarrow> True | _ \<Rightarrow> False)"

definition memory_read_allowed :: "packed_instr \<Rightarrow> nat \<Rightarrow> nat option \<Rightarrow> bool" where
  "memory_read_allowed i reads cap \<longleftrightarrow> \<not> is_memory_read i \<or> (case cap of None \<Rightarrow> True | Some c \<Rightarrow> reads < c)"

definition last_uses :: "packed_instr list \<Rightarrow> (value_id \<rightharpoonup> nat) \<Rightarrow> packed_effect list \<Rightarrow> value_id \<rightharpoonup> nat" where
  "last_uses is by_value effs =
     (let note_use = (\<lambda>n dep m. if by_value dep = None then m
            else m(dep \<mapsto> (case m dep of None \<Rightarrow> n | Some l \<Rightarrow> max l n)));
          m1 = fold (\<lambda>(n, i). fold (note_use n) (instr_value_deps (in_kind i))) (enumerate 0 is) Map.empty
      in fold (\<lambda>eff. fold (note_use (length is)) (effect_value_deps eff)) effs m1)"

definition schedule_priorities :: "packed_instr list \<Rightarrow> (value_id \<rightharpoonup> nat) \<Rightarrow> packed_effect list \<Rightarrow> schedule_priority list" where
  "schedule_priorities is by_value effs =
     (let last = last_uses is by_value effs
      in map (\<lambda>(n, i). let deps = filter (\<lambda>d. by_value d \<noteq> None) (instr_value_deps (in_kind i)) in
             \<lparr>sp_final_use_operands = length (filter (\<lambda>d. last d = Some n) deps),
              sp_latest_operand_last_use =
                (let ls = List.map_filter last deps in if ls = [] then usize_max else fold max ls 0)\<rparr>)
           (enumerate 0 is))"

definition compare_schedule_priority :: "schedule_priority list \<Rightarrow> nat \<Rightarrow> nat \<Rightarrow> ordering" where
  "compare_schedule_priority pr lhs rhs =
     then_with (cmp_nat (sp_final_use_operands (pr ! lhs)) (sp_final_use_operands (pr ! rhs)))
       (then_with (cmp_nat (sp_latest_operand_last_use (pr ! rhs)) (sp_latest_operand_last_use (pr ! lhs)))
         (cmp_nat rhs lhs))"

text \<open>\<open>max_by\<close> keeps the later of two elements unless the earlier one is greater.\<close>

fun max_by :: "('a \<Rightarrow> 'a \<Rightarrow> ordering) \<Rightarrow> 'a list \<Rightarrow> 'a option" where
  "max_by cmp [] = None"
| "max_by cmp (x # xs) = Some (fold (\<lambda>y acc. if cmp acc y = Greater then acc else y) xs x)"

definition position :: "('a \<Rightarrow> bool) \<Rightarrow> 'a list \<Rightarrow> nat option" where
  "position P xs = map_option fst (List.find (\<lambda>(n, x). P x) (enumerate 0 xs))"

definition select_ready_position ::
  "nat list \<Rightarrow> packed_instr list \<Rightarrow> bool list \<Rightarrow> schedule_priority list \<Rightarrow> nat \<Rightarrow> schedule_options \<Rightarrow> nat option" where
  "select_ready_position ready is scheduled pr reads opts =
     (let eligible = (\<lambda>i. \<not> scheduled ! i \<and> memory_read_allowed (is ! i) reads (so_max_memory_reads_per_packet opts))
      in if \<not> so_liveness_priority opts then position eligible ready
         else map_option fst (max_by (\<lambda>(p, l) (q, r). compare_schedule_priority pr l r)
                (filter (\<lambda>(n, i). eligible i) (enumerate 0 ready))))"

section \<open>List scheduling\<close>

definition dependency_vectors :: "packed_instr list \<Rightarrow> (value_id \<rightharpoonup> nat) \<Rightarrow> nat list list \<times> nat list" where
  "dependency_vectors is by_value =
     fold (\<lambda>(n, i). fold (\<lambda>dep (dependents, remaining).
         case by_value dep of
           None \<Rightarrow> (dependents, remaining)
         | Some j \<Rightarrow> (dependents[j := dependents ! j @ [n]], remaining[n := remaining ! n + 1])) (instr_value_deps (in_kind i)))
       (enumerate 0 is) (replicate (length is) [], replicate (length is) 0)"

record sched =
  sd_ready :: "nat list"
  sd_queued :: "bool list"
  sd_scheduled :: "bool list"
  sd_selected :: "nat list"
  sd_reads :: nat

definition remove_at :: "nat \<Rightarrow> 'a list \<Rightarrow> 'a list" where
  "remove_at n xs = take n xs @ drop (Suc n) xs"

text \<open>
  The inner loop fills one packet.  Every turn removes one element of the ready list, so that its
  length bounds the number of turns.
\<close>

fun fill_packet :: "nat \<Rightarrow> schedule_options \<Rightarrow> packed_instr list \<Rightarrow> schedule_priority list \<Rightarrow> sched \<Rightarrow> sched" where
  "fill_packet 0 opts is pr s = s"
| "fill_packet (Suc n) opts is pr s =
     (if length (sd_selected s) < (case so_max_packet_width opts of None \<Rightarrow> usize_max | Some w \<Rightarrow> w)
      then (case select_ready_position (sd_ready s) is (sd_scheduled s) pr (sd_reads s) opts of
              None \<Rightarrow> s
            | Some pos \<Rightarrow>
                let i = sd_ready s ! pos; s1 = s\<lparr>sd_ready := remove_at pos (sd_ready s)\<rparr>
                in if sd_scheduled s ! i then fill_packet n opts is pr s1
                   else fill_packet n opts is pr
                     (s1\<lparr>sd_queued := (sd_queued s)[i := False], sd_scheduled := (sd_scheduled s)[i := True],
                         sd_selected := sd_selected s @ [i],
                         sd_reads := sd_reads s + (if is_memory_read (is ! i) then 1 else 0)\<rparr>))
      else s)"

definition decrement :: "nat \<Rightarrow> nat list \<Rightarrow> nat list option" where
  "decrement d remaining =
     (if d < length remaining \<and> 0 < remaining ! d then Some (remaining[d := remaining ! d - 1]) else None)"

fun release :: "nat list list \<Rightarrow> nat list \<Rightarrow> nat list \<Rightarrow> nat list option" where
  "release dependents [] remaining = Some remaining"
| "release dependents (i # is) remaining =
     do { r \<leftarrow> fold (\<lambda>d r. Option.bind r (decrement d)) (dependents ! i) (Some remaining); release dependents is r }"

definition requeue :: "nat list \<Rightarrow> sched \<Rightarrow> sched" where
  "requeue remaining s =
     fold (\<lambda>(i, deps) s. if deps = 0 \<and> \<not> sd_scheduled s ! i \<and> \<not> sd_queued s ! i
         then s\<lparr>sd_ready := sd_ready s @ [i], sd_queued := (sd_queued s)[i := True]\<rparr> else s) (enumerate 0 remaining) s"

text \<open>The outer loop; a turn that does not stop schedules an instruction.\<close>

function schedule_packets :: "schedule_options \<Rightarrow> packed_instr list \<Rightarrow> schedule_priority list \<Rightarrow> nat list list
    \<Rightarrow> sched \<Rightarrow> nat list \<Rightarrow> nat \<Rightarrow> packed_instr list list \<Rightarrow> (packed_instr list list \<times> nat) option" where
  "schedule_packets opts is pr dependents s remaining count packets =
     (if count < length is
      then let s1 = fill_packet (length (sd_ready s)) opts is pr (s\<lparr>sd_selected := [], sd_reads := 0\<rparr>)
        in if sd_selected s1 = [] then Some (packets, count)
           else do { remaining' \<leftarrow> release dependents (sd_selected s1) remaining;
                     schedule_packets opts is pr dependents (requeue remaining' s1) remaining'
                       (count + length (sd_selected s1)) (packets @ [map ((!) is) (sd_selected s1)]) }
      else Some (packets, count))"
  by pat_completeness auto

termination
  by (relation "measure (\<lambda>(opts, is, pr, dependents, s, remaining, count, packets). length is - count)")
    (auto simp: Let_def intro!: diff_less_mono2)

declare schedule_packets.simps [simp del]

fun chunks :: "nat \<Rightarrow> 'a list \<Rightarrow> 'a list list" where
  "chunks w xs = (if xs = [] \<or> w = 0 then [] else take w xs # chunks w (drop w xs))"

declare chunks.simps [simp del]

definition schedule_machine_region ::
  "packed_instr list \<Rightarrow> packed_effect list \<Rightarrow> schedule_options \<Rightarrow> machine_packet list option" where
  "schedule_machine_region is effs opts =
     (if is = [] then Some (if effs = [] then [] else [\<lparr>mp_instrs = [], mp_effects = effs\<rparr>])
      else let by_value = index_by_value is;
               (dependents, remaining) = dependency_vectors is by_value;
               pr = schedule_priorities is by_value effs;
               ready = filter (\<lambda>i. remaining ! i = 0) [0..<length is];
               s = \<lparr>sd_ready = ready, sd_queued = map (\<lambda>i. i \<in> set ready) [0..<length is],
                    sd_scheduled = replicate (length is) False, sd_selected = [], sd_reads = 0\<rparr>
        in do { (packets, count) \<leftarrow> schedule_packets opts is pr dependents s remaining 0 [];
                if count \<noteq> length is
                then let w = (case so_max_packet_width opts of None \<Rightarrow> max (length is) 1 | Some w \<Rightarrow> w) in
                  if w = 0 then None
                  else Some (map (\<lambda>(n, c). \<lparr>mp_instrs = c,
                         mp_effects = (if n + 1 = (length is + w - 1) div w then effs else [])\<rparr>) (enumerate 0 (chunks w is)))
                else if packets = [] then None
                else Some (add_effects effs (map (\<lambda>p. \<lparr>mp_instrs = p, mp_effects = []\<rparr>) packets)) })"

section \<open>Blocks and programs\<close>

fun optimize_loop :: "schedule_options \<Rightarrow> packed_block \<Rightarrow> packed_instr list \<Rightarrow> packed_block \<Rightarrow> packed_block option" where
  "optimize_loop opts [] region out =
     (if region = [] then Some out
      else do { ps \<leftarrow> schedule_machine_region region [] opts; Some (out @ ps) })"
| "optimize_loop opts (pk # rest) region out =
     (let region' = region @ mp_instrs pk in
      if mp_effects pk \<noteq> []
      then do { ps \<leftarrow> schedule_machine_region region' (mp_effects pk) opts; optimize_loop opts rest [] (out @ ps) }
      else if mp_instrs pk = [] \<and> region' = [] then optimize_loop opts rest region' (out @ [pk])
      else optimize_loop opts rest region' out)"

definition optimize_machine_block ::
  "packed_block \<Rightarrow> packed_program \<Rightarrow> schedule_options \<Rightarrow> (error_report + packed_block) option" where
  "optimize_machine_block block p opts =
     (case analyze_machine_block block p of
        Inl e \<Rightarrow> Some (Inl e)
      | Inr _ \<Rightarrow>
          if so_max_packet_width opts = None \<and> so_max_memory_reads_per_packet opts = None \<and> \<not> so_liveness_priority opts
          then Some (Inr block)
          else if so_max_packet_width opts = Some 0
          then Some (Inl [new_diag ''E_SIM_IR_SCHEDULE_WIDTH'' ''max packet width must be greater than zero''])
          else if so_max_memory_reads_per_packet opts = Some 0
          then Some (Inl [new_diag ''E_SIM_IR_SCHEDULE_MEMORY_READS'' ''max memory reads per packet must be greater than zero''])
          else do { optimized \<leftarrow> optimize_loop opts block [] [];
                    Some (and_then (analyze_machine_block optimized p) (\<lambda>_. Inr optimized)) })"

definition optimize_machine_program :: "machine_program \<Rightarrow> schedule_options \<Rightarrow> (error_report + machine_program) option" where
  "optimize_machine_program mc opts =
     (case analyze_machine_program mc of
        Inl e \<Rightarrow> Some (Inl e)
      | Inr _ \<Rightarrow>
          let src = mc_source mc; ms = mc_streams mc in
          case optimize_machine_block (ms_async_reset_comb ms) src opts of
            None \<Rightarrow> None | Some (Inl e) \<Rightarrow> Some (Inl e)
          | Some (Inr ar) \<Rightarrow>
          case optimize_machine_block (ms_comb ms) src opts of
            None \<Rightarrow> None | Some (Inl e) \<Rightarrow> Some (Inl e)
          | Some (Inr cb) \<Rightarrow>
          case optimize_machine_block (ms_tick_next ms) src opts of
            None \<Rightarrow> None | Some (Inl e) \<Rightarrow> Some (Inl e)
          | Some (Inr tn) \<Rightarrow>
          case optimize_machine_block (ms_tick_commit ms) src opts of
            None \<Rightarrow> None | Some (Inl e) \<Rightarrow> Some (Inl e)
          | Some (Inr tc) \<Rightarrow>
              let mc' = \<lparr>mc_source = src, mc_streams = \<lparr>ms_async_reset_comb = ar, ms_comb = cb,
                     ms_tick_next = tn, ms_tick_commit = tc\<rparr>\<rparr>
              in Some (and_then (analyze_machine_program mc') (\<lambda>_. Inr mc')))"

section \<open>Selection\<close>

lemma position_Some: "position P xs = Some n \<Longrightarrow> n < length xs \<and> P (xs ! n)"
  by (auto simp: position_def find_Some_iff nth_enumerate_eq)

lemma position_None: "position P xs = None \<longleftrightarrow> (\<forall>x \<in> set xs. \<not> P x)"
proof -
  have "set xs = snd ` set (enumerate 0 xs)" by (metis list.set_map map_snd_enumerate)
  then show ?thesis by (fastforce simp: position_def find_None_iff)
qed

lemma max_by_Some: "max_by cmp xs = Some x \<Longrightarrow> x \<in> set xs"
proof (cases xs)
  case (Cons y ys)
  have "fold (\<lambda>y acc. if cmp acc y = Greater then acc else y) ys z \<in> insert z (set ys)" for z
    by (induction ys arbitrary: z) fastforce+
  then show "max_by cmp xs = Some x \<Longrightarrow> x \<in> set xs" by (auto simp: Cons)
qed simp

lemma max_by_None: "max_by cmp xs = None \<longleftrightarrow> xs = []"
  by (cases xs) simp_all

lemma select_ready_Some:
  assumes "select_ready_position ready is scheduled pr reads opts = Some pos"
  shows "pos < length ready" "\<not> scheduled ! (ready ! pos)"
    "memory_read_allowed (is ! (ready ! pos)) reads (so_max_memory_reads_per_packet opts)"
proof -
  have "pos < length ready \<and> \<not> scheduled ! (ready ! pos)
      \<and> memory_read_allowed (is ! (ready ! pos)) reads (so_max_memory_reads_per_packet opts)"
  proof (cases "so_liveness_priority opts")
    case True
    with assms obtain i where "(pos, i) \<in> set (filter (\<lambda>(n, i). \<not> scheduled ! i
        \<and> memory_read_allowed (is ! i) reads (so_max_memory_reads_per_packet opts)) (enumerate 0 ready))"
      by (auto simp: select_ready_position_def dest!: max_by_Some)
    then show ?thesis by (auto simp: in_set_enumerate_eq)
  next
    case False
    with assms show ?thesis by (auto simp: select_ready_position_def dest: position_Some)
  qed
  then show "pos < length ready" "\<not> scheduled ! (ready ! pos)"
    "memory_read_allowed (is ! (ready ! pos)) reads (so_max_memory_reads_per_packet opts)" by simp_all
qed

lemma select_ready_None:
  assumes "select_ready_position ready is scheduled pr reads opts = None" "i \<in> set ready" "\<not> scheduled ! i"
  shows "\<not> memory_read_allowed (is ! i) reads (so_max_memory_reads_per_packet opts)"
proof (cases "so_liveness_priority opts")
  case True
  obtain n where "n < length ready" "ready ! n = i" using assms(2) by (auto simp: in_set_conv_nth)
  then have "(n, i) \<in> set (enumerate 0 ready)" by (simp add: in_set_enumerate_eq)
  with True assms show ?thesis by (auto simp: select_ready_position_def max_by_None filter_empty_conv)
next
  case False
  with assms show ?thesis by (auto simp: select_ready_position_def position_None)
qed

lemma set_remove_at: "distinct xs \<Longrightarrow> n < length xs \<Longrightarrow> set (remove_at n xs) = set xs - {xs ! n} \<and> distinct (remove_at n xs)"
proof -
  assume *: "distinct xs" "n < length xs"
  have split: "xs = take n xs @ xs ! n # drop (Suc n) xs" using *(2) by (rule id_take_nth_drop)
  then have "distinct (take n xs @ xs ! n # drop (Suc n) xs)" using *(1) by simp
  moreover have "set xs = set (take n xs @ xs ! n # drop (Suc n) xs)" using split by simp
  ultimately show ?thesis by (auto simp: remove_at_def)
qed

section \<open>One packet\<close>

definition within :: "schedule_options \<Rightarrow> packed_instr list \<Rightarrow> bool" where
  "within opts is \<longleftrightarrow> (case so_max_packet_width opts of None \<Rightarrow> True | Some w \<Rightarrow> length is \<le> w)
     \<and> (case so_max_memory_reads_per_packet opts of None \<Rightarrow> True | Some c \<Rightarrow> length (filter is_memory_read is) \<le> c)"

text \<open>While a packet is filled from the ready set \<open>R\<close>, with \<open>S\<close> scheduled and \<open>Q\<close> queued before.\<close>

definition filling :: "nat \<Rightarrow> schedule_options \<Rightarrow> packed_instr list \<Rightarrow> nat set \<Rightarrow> nat set \<Rightarrow> nat set \<Rightarrow> sched \<Rightarrow> bool" where
  "filling n opts is R S Q s \<longleftrightarrow>
     distinct (sd_ready s) \<and> distinct (sd_selected s) \<and> set (sd_selected s) \<inter> set (sd_ready s) = {}
     \<and> set (sd_selected s) \<union> set (sd_ready s) = R \<and> R \<subseteq> {..<n} \<and> R \<inter> S = {}
     \<and> length (sd_queued s) = n \<and> length (sd_scheduled s) = n
     \<and> (\<forall>i < n. sd_scheduled s ! i \<longleftrightarrow> i \<in> S \<union> set (sd_selected s))
     \<and> (\<forall>i < n. sd_queued s ! i \<longleftrightarrow> i \<in> Q - set (sd_selected s))
     \<and> sd_reads s = length (filter is_memory_read (map ((!) is) (sd_selected s)))
     \<and> within opts (map ((!) is) (sd_selected s))"

lemma filling_step:
  assumes f: "filling n opts is R S Q s"
    and width: "length (sd_selected s) < (case so_max_packet_width opts of None \<Rightarrow> usize_max | Some w \<Rightarrow> w)"
    and sel: "select_ready_position (sd_ready s) is (sd_scheduled s) pr (sd_reads s) opts = Some pos"
  shows "filling n opts is R S Q (s\<lparr>sd_ready := remove_at pos (sd_ready s),
      sd_queued := (sd_queued s)[sd_ready s ! pos := False], sd_scheduled := (sd_scheduled s)[sd_ready s ! pos := True],
      sd_selected := sd_selected s @ [sd_ready s ! pos],
      sd_reads := sd_reads s + (if is_memory_read (is ! (sd_ready s ! pos)) then 1 else 0)\<rparr>)"
proof -
  let ?i = "sd_ready s ! pos"
  note sel' = select_ready_Some [OF sel]
  have i: "?i \<in> set (sd_ready s)" using sel'(1) by simp
  have dr: "distinct (sd_ready s)" using f by (simp add: filling_def)
  have rem: "set (remove_at pos (sd_ready s)) = set (sd_ready s) - {?i}" "distinct (remove_at pos (sd_ready s))"
    using set_remove_at [OF dr sel'(1)] by simp_all
  have "within opts (map ((!) is) (sd_selected s @ [?i]))"
    using width sel'(3) f
    by (auto simp: within_def filling_def memory_read_allowed_def split: option.splits)
  moreover have "?i < n" using f i by (auto simp: filling_def)
  ultimately show ?thesis
    using f i rem unfolding filling_def by (auto simp: nth_list_update)
qed

lemma fill_packet_filling:
  "filling n opts is R S Q s \<Longrightarrow> filling n opts is R S Q (fill_packet k opts is pr s)"
proof (induction k arbitrary: s)
  case (Suc k)
  show ?case
  proof (cases "length (sd_selected s) < (case so_max_packet_width opts of None \<Rightarrow> usize_max | Some w \<Rightarrow> w)")
    case width: True
    show ?thesis
    proof (cases "select_ready_position (sd_ready s) is (sd_scheduled s) pr (sd_reads s) opts")
      case (Some pos)
      with width Suc.IH [OF filling_step [OF Suc.prems width Some]] select_ready_Some(2) [OF Some]
      show ?thesis by (simp add: Let_def)
    qed (use Suc.prems in simp)
  qed (use Suc.prems in simp)
qed simp

lemma fill_packet_selected: "\<exists>new. sd_selected (fill_packet k opts is pr s) = sd_selected s @ new"
proof (induction k arbitrary: s)
  case (Suc k)
  let ?s1 = "\<lambda>pos. s\<lparr>sd_ready := remove_at pos (sd_ready s)\<rparr>"
  let ?s2 = "\<lambda>pos. (?s1 pos)\<lparr>sd_queued := (sd_queued s)[sd_ready s ! pos := False],
      sd_scheduled := (sd_scheduled s)[sd_ready s ! pos := True], sd_selected := sd_selected s @ [sd_ready s ! pos],
      sd_reads := sd_reads s + (if is_memory_read (is ! (sd_ready s ! pos)) then 1 else 0)\<rparr>"
  have "\<exists>new. sd_selected (fill_packet k opts is pr (?s1 pos)) = sd_selected s @ new" for pos
    using Suc.IH [of "?s1 pos"] by simp
  moreover have "\<exists>new. sd_selected (fill_packet k opts is pr (?s2 pos)) = sd_selected s @ new" for pos
    using Suc.IH [of "?s2 pos"] by auto
  ultimately show ?case by (auto simp: Let_def simp del: fill_packet.simps(1) split: option.split)
qed simp

definition options_ok :: "schedule_options \<Rightarrow> bool" where
  "options_ok opts \<longleftrightarrow> so_max_packet_width opts \<noteq> Some 0 \<and> so_max_memory_reads_per_packet opts \<noteq> Some 0"

lemma fill_packet_nonempty:
  assumes "filling n opts is R S Q s" "sd_selected s = []" "sd_ready s \<noteq> []" "options_ok opts"
  shows "sd_selected (fill_packet (length (sd_ready s)) opts is pr s) \<noteq> []"
proof -
  obtain i where i: "i \<in> set (sd_ready s)" using assms(3) by (cases "sd_ready s") auto
  have "\<not> sd_scheduled s ! i" "sd_reads s = 0" using i assms(1,2) by (auto simp: filling_def)
  moreover have "memory_read_allowed (is ! i) 0 (so_max_memory_reads_per_packet opts)"
    using assms(4) by (auto simp: memory_read_allowed_def options_ok_def split: option.split)
  ultimately obtain pos where pos: "select_ready_position (sd_ready s) is (sd_scheduled s) pr (sd_reads s) opts = Some pos"
    using select_ready_None [OF _ i] by fastforce
  have width: "0 < (case so_max_packet_width opts of None \<Rightarrow> usize_max | Some w \<Rightarrow> w)"
    using assms(4) by (auto simp: options_ok_def usize_max_def split: option.split)
  obtain k where k: "length (sd_ready s) = Suc k" using assms(3) by (cases "sd_ready s") auto
  let ?s2 = "s\<lparr>sd_ready := remove_at pos (sd_ready s), sd_queued := (sd_queued s)[sd_ready s ! pos := False],
      sd_scheduled := (sd_scheduled s)[sd_ready s ! pos := True], sd_selected := sd_selected s @ [sd_ready s ! pos],
      sd_reads := sd_reads s + (if is_memory_read (is ! (sd_ready s ! pos)) then 1 else 0)\<rparr>"
  have "fill_packet (length (sd_ready s)) opts is pr s = fill_packet k opts is pr ?s2"
    using select_ready_Some(2) [OF pos] pos width by (simp add: k assms(2) Let_def)
  with fill_packet_selected [of k opts "is" pr ?s2] show ?thesis by auto
qed

section \<open>Releasing and queueing\<close>

lemma decrements:
  assumes "\<forall>d < length rem. count_list ds d \<le> rem ! d" "set ds \<subseteq> {..<length rem}"
  shows "\<exists>rem'. fold (\<lambda>d r. Option.bind r (decrement d)) ds (Some rem) = Some rem' \<and> length rem' = length rem
    \<and> (\<forall>d < length rem. rem' ! d = rem ! d - count_list ds d)"
  using assms
proof (induction ds arbitrary: rem)
  case (Cons d ds)
  have d: "d < length rem" "0 < rem ! d" using Cons.prems by (auto dest: spec [of _ d])
  have "count_list ds e \<le> rem[d := rem ! d - 1] ! e" if "e < length rem" for e
    using Cons.prems(1) that d by (auto simp: nth_list_update dest!: spec [of _ e])
  with Cons.IH [of "rem[d := rem ! d - 1]"] Cons.prems(2) obtain rem' where
    "fold (\<lambda>d r. Option.bind r (decrement d)) ds (Some (rem[d := rem ! d - 1])) = Some rem'" "length rem' = length rem"
    "\<forall>e < length rem. rem' ! e = rem[d := rem ! d - 1] ! e - count_list ds e" by auto
  moreover have "decrement d rem = Some (rem[d := rem ! d - 1])" using d by (simp add: decrement_def)
  ultimately show ?case using d by (auto simp: nth_list_update)
qed simp

definition pending :: "nat list \<Rightarrow> nat set \<Rightarrow> nat" where
  "pending ds S = length (filter (\<lambda>j. j \<notin> S) ds)"

lemma pending_insert: "j \<notin> S \<Longrightarrow> pending ds S = pending ds (insert j S) + count_list ds j"
  by (induction ds) (auto simp: pending_def)

text \<open>The edges of the dependency vectors, with multiplicity.\<close>

definition edges_ok :: "nat \<Rightarrow> (nat \<Rightarrow> nat list) \<Rightarrow> nat list list \<Rightarrow> bool" where
  "edges_ok n deps dependents \<longleftrightarrow> length dependents = n \<and>
     (\<forall>j < n. set (dependents ! j) \<subseteq> {..<n} \<and> (\<forall>i < n. count_list (dependents ! j) i = count_list (deps i) j))"

lemma release_ok:
  assumes "edges_ok n deps dependents" "length rem = n" "\<forall>i < n. rem ! i = pending (deps i) S"
    and "set sel \<subseteq> {..<n}" "distinct sel" "set sel \<inter> S = {}"
  shows "\<exists>rem'. release dependents sel rem = Some rem' \<and> length rem' = n \<and> (\<forall>i < n. rem' ! i = pending (deps i) (S \<union> set sel))"
  using assms
proof (induction sel arbitrary: rem S)
  case (Cons j sel)
  have j: "j < n" "j \<notin> S" using Cons.prems by auto
  have edges: "set (dependents ! j) \<subseteq> {..<n}" "\<forall>i < n. count_list (dependents ! j) i = count_list (deps i) j"
    using Cons.prems(1) j by (simp_all add: edges_ok_def)
  have "\<forall>d < length rem. count_list (dependents ! j) d \<le> rem ! d"
    using Cons.prems(2,3) edges(2) pending_insert [OF j(2)] by simp
  with decrements [of rem "dependents ! j"] edges(1) Cons.prems(2) obtain rem1 where
    rem1: "fold (\<lambda>d r. Option.bind r (decrement d)) (dependents ! j) (Some rem) = Some rem1" "length rem1 = n"
    "\<forall>d < n. rem1 ! d = rem ! d - count_list (dependents ! j) d" by auto
  have "\<forall>i < n. rem1 ! i = pending (deps i) (insert j S)"
    using rem1(3) edges(2) Cons.prems(3) pending_insert [OF j(2)] by simp
  from Cons.IH [OF Cons.prems(1) rem1(2) this] Cons.prems(4-6) rem1(1) show ?case by auto
qed simp

lemma requeue_ok:
  assumes "length rem \<le> length (sd_queued s)"
  shows "requeue rem s = s\<lparr>sd_ready := sd_ready s @ filter (\<lambda>i. rem ! i = 0 \<and> \<not> sd_scheduled s ! i \<and> \<not> sd_queued s ! i) [0..<length rem],
     sd_queued := map (\<lambda>i. sd_queued s ! i \<or> i < length rem \<and> rem ! i = 0 \<and> \<not> sd_scheduled s ! i) [0..<length (sd_queued s)]\<rparr>"
  using assms
proof (induction rem rule: rev_induct)
  case Nil
  then show ?case by (simp add: requeue_def map_nth)
next
  case (snoc d rem)
  let ?n = "length rem"
  let ?C = "\<lambda>i. rem ! i = 0 \<and> \<not> sd_scheduled s ! i \<and> \<not> sd_queued s ! i"
  let ?s = "s\<lparr>sd_ready := sd_ready s @ filter ?C [0..<?n],
     sd_queued := map (\<lambda>i. sd_queued s ! i \<or> i < ?n \<and> rem ! i = 0 \<and> \<not> sd_scheduled s ! i) [0..<length (sd_queued s)]\<rparr>"
  have eq: "requeue rem s = ?s" using snoc by simp
  have n: "?n < length (sd_queued s)" using snoc.prems by simp
  have "requeue (rem @ [d]) s = (if d = 0 \<and> \<not> sd_scheduled ?s ! ?n \<and> \<not> sd_queued ?s ! ?n
      then ?s\<lparr>sd_ready := sd_ready ?s @ [?n], sd_queued := (sd_queued ?s)[?n := True]\<rparr> else ?s)"
    by (simp add: requeue_def enumerate_append_eq eq [unfolded requeue_def])
  moreover have "filter (\<lambda>i. (rem @ [d]) ! i = 0 \<and> \<not> sd_scheduled s ! i \<and> \<not> sd_queued s ! i) [0..<length (rem @ [d])] =
      filter ?C [0..<?n] @ (if d = 0 \<and> \<not> sd_scheduled s ! ?n \<and> \<not> sd_queued s ! ?n then [?n] else [])"
  proof -
    have "filter (\<lambda>i. (rem @ [d]) ! i = 0 \<and> \<not> sd_scheduled s ! i \<and> \<not> sd_queued s ! i) [0..<?n] = filter ?C [0..<?n]"
      by (rule filter_cong) (simp_all add: nth_append)
    then show ?thesis by simp
  qed
  moreover have "map (\<lambda>i. sd_queued s ! i \<or> i < length (rem @ [d]) \<and> (rem @ [d]) ! i = 0 \<and> \<not> sd_scheduled s ! i) [0..<length (sd_queued s)] =
      (if d = 0 \<and> \<not> sd_scheduled s ! ?n \<and> \<not> sd_queued s ! ?n then (sd_queued ?s)[?n := True] else sd_queued ?s)"
    using n by (intro nth_equalityI) (auto simp: nth_list_update nth_append less_Suc_eq)
  ultimately show ?case using n by simp
qed

section \<open>The whole schedule\<close>

definition scheduling :: "nat \<Rightarrow> (nat \<Rightarrow> nat list) \<Rightarrow> nat set \<Rightarrow> sched \<Rightarrow> nat list \<Rightarrow> bool" where
  "scheduling n deps S s rem \<longleftrightarrow>
     distinct (sd_ready s) \<and> set (sd_ready s) \<subseteq> {..<n} \<and> S \<subseteq> {..<n}
     \<and> length (sd_queued s) = n \<and> length (sd_scheduled s) = n \<and> length rem = n
     \<and> (\<forall>i < n. sd_scheduled s ! i \<longleftrightarrow> i \<in> S) \<and> (\<forall>i < n. sd_queued s ! i \<longleftrightarrow> i \<in> set (sd_ready s))
     \<and> (\<forall>i < n. rem ! i = pending (deps i) S)
     \<and> (\<forall>i < n. i \<in> set (sd_ready s) \<longleftrightarrow> i \<notin> S \<and> pending (deps i) S = 0)"

fun good_layers :: "schedule_options \<Rightarrow> packed_instr list \<Rightarrow> nat \<Rightarrow> (nat \<Rightarrow> nat list) \<Rightarrow> nat set \<Rightarrow> nat list list \<Rightarrow> bool" where
  "good_layers opts is n deps S [] \<longleftrightarrow> S = {..<n}"
| "good_layers opts is n deps S (L # Ls) \<longleftrightarrow>
     L \<noteq> [] \<and> distinct L \<and> set L \<subseteq> {..<n} - S \<and> (\<forall>i \<in> set L. set (deps i) \<subseteq> S)
     \<and> within opts (map ((!) is) L) \<and> good_layers opts is n deps (S \<union> set L) Ls"

lemma pending_0: "pending ds S = 0 \<longleftrightarrow> set ds \<subseteq> S"
  by (auto simp: pending_def filter_empty_conv)

lemma scheduling_step:
  fixes opts pr ins
  assumes inv: "scheduling n deps S s rem" and more: "S \<noteq> {..<n}" and opts: "options_ok opts"
    and edges: "edges_ok n deps dependents" and earlier: "\<forall>i < n. \<forall>d \<in> set (deps i). d < i"
  defines "s1 \<equiv> fill_packet (length (sd_ready s)) opts ins pr (s\<lparr>sd_selected := [], sd_reads := 0\<rparr>)"
  shows "sd_selected s1 \<noteq> [] \<and> distinct (sd_selected s1) \<and> set (sd_selected s1) \<subseteq> {..<n} - S
    \<and> (\<forall>i \<in> set (sd_selected s1). set (deps i) \<subseteq> S) \<and> within opts (map ((!) ins) (sd_selected s1))
    \<and> (\<exists>rem'. release dependents (sd_selected s1) rem = Some rem'
         \<and> scheduling n deps (S \<union> set (sd_selected s1)) (requeue rem' s1) rem')"
proof -
  let ?s0 = "s\<lparr>sd_selected := [], sd_reads := 0\<rparr>" and ?R = "set (sd_ready s)" and ?sel = "sd_selected s1"
  have lens: "length (sd_queued s) = n" "length (sd_scheduled s) = n" "length rem = n" "?R \<subseteq> {..<n}" "S \<subseteq> {..<n}"
    and ready: "\<And>i. i < n \<Longrightarrow> i \<in> ?R \<longleftrightarrow> i \<notin> S \<and> set (deps i) \<subseteq> S"
    and pend: "\<forall>i < n. rem ! i = pending (deps i) S"
    using inv by (simp_all add: scheduling_def pending_0)
  have "filling n opts ins ?R S ?R ?s0"
    using inv ready lens by (auto simp: filling_def scheduling_def within_def split: option.split)
  note f0 = this
  then have f: "filling n opts ins ?R S ?R s1" unfolding s1_def by (rule fill_packet_filling)
  have "\<exists>i. i < n \<and> i \<notin> S" using more lens(5) by blast
  then obtain i where i: "i < n" "i \<notin> S" "\<forall>j < i. \<not> (j < n \<and> j \<notin> S)"
    using exists_least_iff [of "\<lambda>i. i < n \<and> i \<notin> S"] by blast
  have "set (deps i) \<subseteq> S"
  proof
    fix d assume "d \<in> set (deps i)"
    then have "d < i" using earlier i(1) by blast
    with i(1,3) show "d \<in> S" by auto
  qed
  then have "i \<in> ?R" using ready i by blast
  then have "sd_ready ?s0 \<noteq> []" by auto
  from fill_packet_nonempty [OF f0 _ this opts, of pr] have nonempty: "?sel \<noteq> []" by (simp add: s1_def)
  have sel: "distinct ?sel" "set ?sel \<subseteq> ?R" "?sel = [] \<or> True" "set (sd_ready s1) = ?R - set ?sel" "distinct (sd_ready s1)"
    "length (sd_queued s1) = n" "length (sd_scheduled s1) = n" "within opts (map ((!) ins) ?sel)"
    and bits: "\<forall>i < n. sd_scheduled s1 ! i \<longleftrightarrow> i \<in> S \<union> set ?sel" "\<forall>i < n. sd_queued s1 ! i \<longleftrightarrow> i \<in> set (sd_ready s1)"
    using f unfolding filling_def by blast+
  have range: "set ?sel \<subseteq> {..<n} - S" using sel(2) lens(4) ready by auto
  obtain rem' where rem': "release dependents ?sel rem = Some rem'" "length rem' = n"
    "\<forall>i < n. rem' ! i = pending (deps i) (S \<union> set ?sel)"
    using release_ok [OF edges lens(3) pend _ sel(1)] range by auto
  let ?s2 = "requeue rem' s1" and ?S = "S \<union> set ?sel"
  have s2: "?s2 = s1\<lparr>sd_ready := sd_ready s1 @ filter (\<lambda>i. rem' ! i = 0 \<and> \<not> sd_scheduled s1 ! i \<and> \<not> sd_queued s1 ! i) [0..<n],
     sd_queued := map (\<lambda>i. sd_queued s1 ! i \<or> i < n \<and> rem' ! i = 0 \<and> \<not> sd_scheduled s1 ! i) [0..<n]\<rparr>"
    using requeue_ok [of rem' s1] rem'(2) sel(6) by simp
  have mem: "i \<in> set (sd_ready ?s2) \<longleftrightarrow> i \<notin> ?S \<and> set (deps i) \<subseteq> ?S" if "i < n" for i
    using that ready [OF that] bits rem'(3) sel(4) by (auto simp: s2 pending_0)
  have "distinct (sd_ready ?s2)" using sel(5) bits(2) by (auto simp: s2)
  moreover have "set (sd_ready ?s2) \<subseteq> {..<n}" using sel(4) lens(4) by (auto simp: s2)
  moreover have "\<forall>i < n. sd_queued ?s2 ! i \<longleftrightarrow> i \<in> set (sd_ready ?s2)" using bits by (auto simp: s2)
  moreover have "\<forall>i < n. sd_scheduled ?s2 ! i \<longleftrightarrow> i \<in> ?S" using bits(1) by (simp add: s2)
  moreover have "length (sd_queued ?s2) = n" "length (sd_scheduled ?s2) = n" using sel(6,7) by (simp_all add: s2)
  ultimately have "scheduling n deps ?S ?s2 rem'"
    using mem rem'(2,3) lens(5) range by (auto simp: scheduling_def pending_0)
  moreover have "\<forall>i \<in> set ?sel. set (deps i) \<subseteq> S" using sel(2) lens(4) ready by blast
  ultimately show ?thesis using nonempty sel(1,8) range rem'(1) by blast
qed

lemma schedule_packets_ok:
  assumes "options_ok opts" "edges_ok (length is) deps dependents" "\<forall>i < length is. \<forall>d \<in> set (deps i). d < i"
    and "scheduling (length is) deps S s rem" "count = card S"
  shows "\<exists>layers. schedule_packets opts is pr dependents s rem count packets =
      Some (packets @ map (map ((!) is)) layers, length is) \<and> good_layers opts is (length is) deps S layers"
  using assms(4,5)
proof (induction "length is - count" arbitrary: S s rem count packets rule: less_induct)
  case less
  have S: "S \<subseteq> {..<length is}" "finite S" using less.prems(1) by (auto simp: scheduling_def intro: finite_subset)
  then have card: "count \<le> length is" "count = length is \<longleftrightarrow> S = {..<length is}"
    using card_mono [of "{..<length is}" S] card_subset_eq [of "{..<length is}" S] less.prems(2) by auto
  show ?case
  proof (cases "count < length is")
    case True
    let ?s1 = "fill_packet (length (sd_ready s)) opts is pr (s\<lparr>sd_selected := [], sd_reads := 0\<rparr>)"
    have "S \<noteq> {..<length is}" using True card by simp
    from scheduling_step [OF less.prems(1) this assms(1-3), where pr = pr and ins = "is"]
    obtain rem' where step: "sd_selected ?s1 \<noteq> []" "distinct (sd_selected ?s1)" "set (sd_selected ?s1) \<subseteq> {..<length is} - S"
      "\<forall>i \<in> set (sd_selected ?s1). set (deps i) \<subseteq> S" "within opts (map ((!) is) (sd_selected ?s1))"
      "release dependents (sd_selected ?s1) rem = Some rem'"
      "scheduling (length is) deps (S \<union> set (sd_selected ?s1)) (requeue rem' ?s1) rem'" by blast
    have "count + length (sd_selected ?s1) = card (S \<union> set (sd_selected ?s1))"
      using less.prems(2) S(2) step(2,3) by (subst card_Un_disjoint) (auto simp: distinct_card)
    moreover have "length is - (count + length (sd_selected ?s1)) < length is - count"
      using True step(1) by (intro diff_less_mono2) auto
    ultimately obtain layers where "schedule_packets opts is pr dependents (requeue rem' ?s1) rem'
        (count + length (sd_selected ?s1)) (packets @ [map ((!) is) (sd_selected ?s1)]) =
        Some ((packets @ [map ((!) is) (sd_selected ?s1)]) @ map (map ((!) is)) layers, length is)"
      "good_layers opts is (length is) deps (S \<union> set (sd_selected ?s1)) layers"
      using less.hyps [OF _ step(7)] by blast
    with True step show ?thesis
      by (intro exI [of _ "sd_selected ?s1 # layers"]) (simp add: schedule_packets.simps [of opts "is" pr dependents s] Let_def)
  next
    case False
    with card have "S = {..<length is}" "count = length is" by auto
    then show ?thesis by (intro exI [of _ "[]"]) (simp add: schedule_packets.simps)
  qed
qed

section \<open>Dependency vectors\<close>

lemma edges_of_instr:
  assumes "\<forall>d j. bv d = Some j \<longrightarrow> j < n" "length D = n" "length R = n" "m < n"
  shows "\<exists>D' R'. fold (\<lambda>dep (dependents, remaining). case bv dep of None \<Rightarrow> (dependents, remaining)
        | Some j \<Rightarrow> (dependents[j := dependents ! j @ [m]], remaining[m := remaining ! m + 1])) ds (D, R) = (D', R')
    \<and> length D' = n \<and> length R' = n \<and> (\<forall>j < n. D' ! j = D ! j @ replicate (count_list (List.map_filter bv ds) j) m)
    \<and> (\<forall>i < n. R' ! i = R ! i + (if i = m then length (List.map_filter bv ds) else 0))"
  using assms
proof (induction ds arbitrary: D R)
  case (Cons d ds)
  show ?case
  proof (cases "bv d")
    case None
    with Cons.IH [OF Cons.prems] show ?thesis by (simp add: List.map_filter_simps split del: if_split cong: if_cong)
  next
    case (Some j)
    with Cons.prems(1) have j: "j < n" by blast
    obtain D' R' where "fold (\<lambda>dep (dependents, remaining). case bv dep of None \<Rightarrow> (dependents, remaining)
        | Some j \<Rightarrow> (dependents[j := dependents ! j @ [m]], remaining[m := remaining ! m + 1])) ds
          (D[j := D ! j @ [m]], R[m := R ! m + 1]) = (D', R')"
      "length D' = n" "length R' = n"
      "\<forall>i < n. D' ! i = D[j := D ! j @ [m]] ! i @ replicate (count_list (List.map_filter bv ds) i) m"
      "\<forall>i < n. R' ! i = R[m := R ! m + 1] ! i + (if i = m then length (List.map_filter bv ds) else 0)"
      using Cons.IH [of "D[j := D ! j @ [m]]" "R[m := R ! m + 1]"] Cons.prems by auto
    with Some j Cons.prems show ?thesis by (auto simp: List.map_filter_simps nth_list_update)
  qed
qed (simp add: List.map_filter_simps)

lemma count_list_replicate: "count_list (replicate k x) y = (if x = y then k else 0)"
  by (induction k) auto

lemma dependency_edges:
  assumes bv: "\<forall>d j. bv d = Some j \<longrightarrow> j < n" and "length xs \<le> n"
  shows "\<exists>D R. fold (\<lambda>(m, i). fold (\<lambda>dep (dependents, remaining). case bv dep of None \<Rightarrow> (dependents, remaining)
        | Some j \<Rightarrow> (dependents[j := dependents ! j @ [m]], remaining[m := remaining ! m + 1])) (instr_value_deps (in_kind i)))
      (enumerate 0 xs) (replicate n [], replicate n 0) = (D, R)
    \<and> length D = n \<and> length R = n
    \<and> (\<forall>j < n. set (D ! j) \<subseteq> {..<n} \<and> (\<forall>i < n. count_list (D ! j) i = (if i < length xs then count_list (deps_at xs bv i) j else 0)))
    \<and> (\<forall>i < n. R ! i = (if i < length xs then length (deps_at xs bv i) else 0))"
  using assms(2)
proof (induction xs rule: rev_induct)
  case (snoc x xs)
  let ?m = "length xs" and ?ds = "instr_value_deps (in_kind x)"
  have m: "?m < n" using snoc.prems by simp
  have at: "deps_at (xs @ [x]) bv i = (if i < ?m then deps_at xs bv i else List.map_filter bv ?ds)" if "i < Suc ?m" for i
    using that by (auto simp: deps_at_def nth_append less_Suc_eq)
  obtain D R where DR: "fold (\<lambda>(m, i). fold (\<lambda>dep (dependents, remaining). case bv dep of None \<Rightarrow> (dependents, remaining)
        | Some j \<Rightarrow> (dependents[j := dependents ! j @ [m]], remaining[m := remaining ! m + 1])) (instr_value_deps (in_kind i)))
      (enumerate 0 xs) (replicate n [], replicate n 0) = (D, R)" "length D = n" "length R = n"
    "\<forall>j < n. set (D ! j) \<subseteq> {..<n} \<and> (\<forall>i < n. count_list (D ! j) i = (if i < ?m then count_list (deps_at xs bv i) j else 0))"
    "\<forall>i < n. R ! i = (if i < ?m then length (deps_at xs bv i) else 0)"
    using snoc by auto
  obtain D' R' where D': "fold (\<lambda>dep (dependents, remaining). case bv dep of None \<Rightarrow> (dependents, remaining)
        | Some j \<Rightarrow> (dependents[j := dependents ! j @ [?m]], remaining[?m := remaining ! ?m + 1])) ?ds (D, R) = (D', R')"
    "length D' = n" "length R' = n"
    "\<forall>j < n. D' ! j = D ! j @ replicate (count_list (List.map_filter bv ?ds) j) ?m"
    "\<forall>i < n. R' ! i = R ! i + (if i = ?m then length (List.map_filter bv ?ds) else 0)"
    using edges_of_instr [OF bv DR(2,3) m, of ?ds] by blast
  have "count_list (D' ! j) i = (if i < Suc ?m then count_list (deps_at (xs @ [x]) bv i) j else 0)" if "j < n" "i < n" for i j
    using D'(4) DR(4) that at by (simp add: count_list_replicate)
  moreover have "set (D' ! j) \<subseteq> {..<n}" if "j < n" for j using D'(4) DR(4) that m by auto
  moreover have "R' ! i = (if i < Suc ?m then length (deps_at (xs @ [x]) bv i) else 0)" if "i < n" for i
    using D'(5) DR(5) that at by simp
  ultimately show ?case using DR(1) D'(1-3) by (auto simp: enumerate_append_eq)
qed simp

section \<open>Regions\<close>

lemma ssa_from_operand_index:
  assumes ssa: "ssa_from D is" and i: "i < length is" and v: "v \<in> set_packed_kind (in_kind (is ! i))"
  shows "v \<in> D \<or> (\<exists>j \<in> set (deps_at is (index_by_value is) i). in_dst (is ! j) = v)"
proof -
  have dist: "distinct (map in_dst is)" using ssa_from_distinct [OF ssa] by simp
  have "\<exists>j \<in> set (deps_at is (index_by_value is) i). in_dst (is ! j) = v" if j: "j < i" "in_dst (is ! j) = v" for j
  proof -
    have "index_by_value is v = Some j" using index_by_value_eq [OF dist] i j by simp
    then have "j \<in> set (deps_at is (index_by_value is) i)"
      using v by (force simp: deps_at_def List.map_filter_def instr_value_deps_def)
    with j(2) show ?thesis by blast
  qed
  with ssa_from_earlier [OF ssa i v] show ?thesis by blast
qed

lemma ssa_from_deps_earlier:
  assumes ssa: "ssa_from D is" and i: "i < length is" and d: "d \<in> set (deps_at is (index_by_value is) i)"
  shows "d < i"
proof -
  have dist: "distinct (map in_dst is)" and out: "in_dst ` set is \<inter> D = {}" using ssa_from_distinct [OF ssa] by simp_all
  obtain v where v: "v \<in> set_packed_kind (in_kind (is ! i))" "index_by_value is v = Some d"
    using d by (auto simp: deps_at_def List.map_filter_def instr_value_deps_def)
  then have dv: "d < length is" "in_dst (is ! d) = v" using index_by_value_eq [OF dist] by simp_all
  then have "v \<notin> D" using out by fastforce
  then obtain j where j: "j < i" "in_dst (is ! j) = v" using ssa_from_earlier [OF ssa i v(1)] by blast
  then have "map in_dst is ! j = map in_dst is ! d" using dv i by simp
  then have "j = d" using nth_eq_iff_index_eq [OF dist] i j(1) dv(1) by simp
  with j(1) show ?thesis by simp
qed

lemma good_layers_layered:
  assumes dist: "distinct (map in_dst is)" and out: "in_dst ` set is \<inter> D = {}"
    and ops: "\<And>i v. i < length is \<Longrightarrow> v \<in> set_packed_kind (in_kind (is ! i)) \<Longrightarrow> v \<in> D \<or> (\<exists>j \<in> set (deps i). in_dst (is ! j) = v)"
  shows "good_layers opts is (length is) deps S Ls \<Longrightarrow> S \<subseteq> {..<length is} \<Longrightarrow>
    layered (D \<union> (\<lambda>j. in_dst (is ! j)) ` S) (map (map ((!) is)) Ls)
    \<and> set (concat (map (map ((!) is)) Ls)) = (!) is ` ({..<length is} - S) \<and> (\<forall>L \<in> set Ls. within opts (map ((!) is) L))"
proof (induction Ls arbitrary: S)
  case (Cons L Ls)
  let ?d = "\<lambda>j. in_dst (is ! j)"
  have L: "distinct L" "set L \<subseteq> {..<length is} - S" "\<forall>i \<in> set L. set (deps i) \<subseteq> S" "within opts (map ((!) is) L)"
    "good_layers opts is (length is) deps (S \<union> set L) Ls" using Cons.prems by simp_all
  have inj: "?d i = ?d j \<longleftrightarrow> i = j" if "i < length is" "j < length is" for i j
    using nth_eq_iff_index_eq [OF dist, of i j] that by simp
  have sub: "S \<union> set L \<subseteq> {..<length is}" using L(2) Cons.prems(2) by blast
  have IH: "layered (D \<union> ?d ` (S \<union> set L)) (map (map ((!) is)) Ls)"
    "set (concat (map (map ((!) is)) Ls)) = (!) is ` ({..<length is} - (S \<union> set L))" "\<forall>L \<in> set Ls. within opts (map ((!) is) L)"
    using Cons.IH [OF L(5) sub] by blast+
  have ops_in: "set_packed_kind (in_kind x) \<subseteq> D \<union> ?d ` S" if x: "x \<in> set (map ((!) is) L)" for x
  proof
    fix v assume "v \<in> set_packed_kind (in_kind x)"
    moreover obtain i where i: "i \<in> set L" "x = is ! i" using x by auto
    ultimately show "v \<in> D \<union> ?d ` S" using ops [of i v] L(2,3) by blast
  qed
  have "inj_on ?d (set L)" using inj L(2) by (intro inj_onI) (auto simp: subset_iff)
  with L(1) have "distinct (map ?d L)" by (simp add: distinct_map)
  then have dist_L: "distinct (map in_dst (map ((!) is) L))" by (simp add: comp_def)
  have "?d i \<notin> D \<union> ?d ` S" if "i \<in> set L" for i
  proof -
    have i: "i < length is" "i \<notin> S" using that L(2) by auto
    then have "?d i \<notin> D" using out nth_mem [OF i(1)] by blast
    moreover have "?d i \<notin> ?d ` S" using inj i Cons.prems(2) by (auto simp: subset_iff)
    ultimately show ?thesis by blast
  qed
  then have disj: "in_dst ` set (map ((!) is) L) \<inter> (D \<union> ?d ` S) = {}" by auto
  have "D \<union> ?d ` S \<union> in_dst ` set (map ((!) is) L) = D \<union> ?d ` (S \<union> set L)" by (auto simp: image_Un image_image)
  with IH(1) ops_in dist_L disj have "layered (D \<union> ?d ` S) (map (map ((!) is)) (L # Ls))" by simp
  moreover have "set (concat (map (map ((!) is)) (L # Ls))) = (!) is ` ({..<length is} - S)"
  proof -
    have "set (concat (map (map ((!) is)) (L # Ls))) = (!) is ` set L \<union> (!) is ` ({..<length is} - (S \<union> set L))"
      using IH(2) by (simp del: set_concat)
    also have "\<dots> = (!) is ` ({..<length is} - S)" unfolding image_Un [symmetric]
      by (rule arg_cong [where f = "image ((!) is)"]) (use L(2) in auto)
    finally show ?thesis .
  qed
  ultimately show ?case using IH(3) L(4) by (simp del: set_concat)
qed simp

definition effect_free :: "packed_instr list list \<Rightarrow> machine_packet list" where
  "effect_free ps = map (\<lambda>p. \<lparr>mp_instrs = p, mp_effects = []\<rparr>) ps"

lemma schedule_region_ok:
  assumes ssa: "ssa_from D is" and nonempty: "is \<noteq> []" and opts: "options_ok opts"
  shows "\<exists>ps. schedule_machine_region is effs opts = Some (add_effects effs (effect_free ps)) \<and> ps \<noteq> []
    \<and> layered D ps \<and> set (concat ps) = set is \<and> (\<forall>p \<in> set ps. within opts p)"
proof -
  let ?bv = "index_by_value is" and ?n = "length is"
  let ?deps = "deps_at is ?bv"
  have dist: "distinct (map in_dst is)" and out: "in_dst ` set is \<inter> D = {}" using ssa_from_distinct [OF ssa] by simp_all
  have bv: "\<forall>d j. ?bv d = Some j \<longrightarrow> j < ?n" using index_by_value_eq [OF dist] by simp
  obtain dep rem where vec: "dependency_vectors is ?bv = (dep, rem)" "length dep = ?n" "length rem = ?n"
    "\<forall>j < ?n. set (dep ! j) \<subseteq> {..<?n} \<and> (\<forall>i < ?n. count_list (dep ! j) i = count_list (?deps i) j)"
    "\<forall>i < ?n. rem ! i = length (?deps i)"
    using dependency_edges [OF bv le_refl] unfolding dependency_vectors_def by auto
  then have edges: "edges_ok ?n ?deps dep" by (simp add: edges_ok_def)
  let ?ready = "filter (\<lambda>i. rem ! i = 0) [0..<?n]"
  let ?s = "\<lparr>sd_ready = ?ready, sd_queued = map (\<lambda>i. i \<in> set ?ready) [0..<?n],
      sd_scheduled = replicate ?n False, sd_selected = [], sd_reads = 0\<rparr>"
  have "scheduling ?n ?deps {} ?s rem"
    using vec(3,5) by (auto simp: scheduling_def pending_def)
  from schedule_packets_ok [OF opts edges _ this, of 0 "schedule_priorities is ?bv effs" "[]"] ssa_from_deps_earlier [OF ssa]
  obtain Ls where Ls: "schedule_packets opts is (schedule_priorities is ?bv effs) dep ?s rem 0 [] = Some (map (map ((!) is)) Ls, ?n)"
    "good_layers opts is ?n ?deps {} Ls" by auto
  let ?ps = "map (map ((!) is)) Ls"
  have lay: "layered D ?ps" "set (concat ?ps) = (!) is ` {..<?n}" "\<forall>L \<in> set Ls. within opts (map ((!) is) L)"
    using good_layers_layered [OF dist out ssa_from_operand_index [OF ssa] Ls(2)] by auto
  have all: "(!) is ` {..<?n} = set is" by (auto simp: in_set_conv_nth)
  with lay(2) nonempty have "?ps \<noteq> []" by auto
  moreover from this Ls(1) have "schedule_machine_region is effs opts = Some (add_effects effs (effect_free ?ps))"
    using nonempty by (simp add: schedule_machine_region_def vec(1) Let_def effect_free_def)
  ultimately show ?thesis using lay all by (intro exI [of _ ?ps]) (simp del: set_concat)
qed

end
