(* ===== verification/Packed_Optimize.thy ===== *)
theory Packed_Optimize
  imports Packed_Schedule
begin

text \<open>
  The scheduling pass keeps blocks valid, bounds the packets, keeps the effects in order, and
  keeps the meaning of lowered blocks: an optimised machine program simulates the same packed
  program.
\<close>

section \<open>Valid blocks\<close>

lemma effects_of_region: "concat (map mp_effects (add_effects effs (effect_free ps))) = effs"
proof -
  have none: "concat (map mp_effects (effect_free qs)) = []" for qs
    by (induction qs) (simp_all add: effect_free_def)
  show ?thesis by (cases ps rule: rev_cases) (use none in \<open>simp_all add: add_effects_def effect_free_def del: concat_eq_Nil_conv\<close>)
qed

lemma instrs_of_region: "map mp_instrs (add_effects effs (effect_free ps)) = (if ps = [] then [[]] else ps)"
  by (cases ps rule: rev_cases) (simp_all add: add_effects_def effect_free_def comp_def)

definition region_ok :: "packed_program \<Rightarrow> value_id set \<Rightarrow> packed_instr list \<Rightarrow> bool" where
  "region_ok p D region \<longleftrightarrow> ssa_from D region \<and> (\<forall>i \<in> set region. instr_refs_ok p i)"

text \<open>A packet that follows a region may be added to it.\<close>

lemma region_ok_append:
  assumes "region_ok p D region" "block_valid p (D \<union> in_dst ` set region) (pk # rest)"
  shows "region_ok p D (region @ mp_instrs pk)"
    and "block_valid p (D \<union> in_dst ` set (region @ mp_instrs pk)) rest"
proof -
  have "layered (D \<union> in_dst ` set region) [mp_instrs pk]" using assms(2) by (auto simp: instr_value_deps_def)
  from layered_ssa [OF this] have "ssa_from (D \<union> in_dst ` set region) (mp_instrs pk)" by simp
  then show "region_ok p D (region @ mp_instrs pk)"
    using assms by (auto simp: region_ok_def ssa_from_append)
  show "block_valid p (D \<union> in_dst ` set (region @ mp_instrs pk)) rest"
    using assms(2) by (simp add: image_Un Un_assoc)
qed

text \<open>What scheduling one region gives.\<close>

lemma schedule_region_valid:
  assumes ok: "region_ok p D region" and opts: "options_ok opts"
    and effs: "\<forall>eff \<in> set effs. set (effect_value_deps eff) \<subseteq> D \<union> in_dst ` set region \<and> effect_refs_ok p eff"
    and nonempty: "region \<noteq> [] \<or> effs \<noteq> []"
  shows "\<exists>ps. schedule_machine_region region effs opts = Some (add_effects effs (effect_free ps))
    \<and> layered D ps \<and> set (concat ps) = set region \<and> (\<forall>p \<in> set ps. within opts p)
    \<and> (\<forall>rest. block_valid p (D \<union> in_dst ` set region) rest \<longrightarrow> block_valid p D (add_effects effs (effect_free ps) @ rest))"
proof (cases "region = []")
  case True
  then have "schedule_machine_region region effs opts = Some (add_effects effs (effect_free []))"
    using nonempty by (simp add: schedule_machine_region_def add_effects_def effect_free_def)
  moreover have "block_valid p D (add_effects effs (effect_free []) @ rest)" if "block_valid p D rest" for rest
    using effs True that by (simp add: add_effects_def effect_free_def)
  ultimately show ?thesis using True by (intro exI [of _ "[]"]) simp
next
  case False
  have ssa: "ssa_from D region" using ok by (simp add: region_ok_def)
  obtain ps where ps: "schedule_machine_region region effs opts = Some (add_effects effs (effect_free ps))" "ps \<noteq> []"
    "layered D ps" "set (concat ps) = set region" "\<forall>p \<in> set ps. within opts p"
    using schedule_region_ok [OF ssa False opts] by blast
  have instrs: "map mp_instrs (effect_free ps) = ps" by (simp add: effect_free_def comp_def)
  have "block_valid p D (add_effects effs (effect_free ps) @ rest)"
    if "block_valid p (D \<union> in_dst ` set region) rest" for rest
  proof (rule block_valid_region)
    show "layered D (map mp_instrs (effect_free ps))" using ps(3) instrs by simp
    show "in_dst ` set (concat (map mp_instrs (effect_free ps))) \<inter> D = {}"
      using ssa_from_distinct [OF ssa] unfolding instrs ps(4) by blast
    show "\<forall>i \<in> set (concat (map mp_instrs (effect_free ps))). instr_refs_ok p i"
      using ok unfolding instrs ps(4) region_ok_def by blast
  qed (use ps(2,4) effs that instrs in \<open>auto simp: effect_free_def simp del: set_concat\<close>)
  with ps show ?thesis by blast
qed

lemma within_empty: "within opts []"
  by (simp add: within_def split: option.split)

lemma region_within: "\<forall>p \<in> set ps. within opts p \<Longrightarrow> \<forall>pk \<in> set (add_effects effs (effect_free ps)). within opts (mp_instrs pk)"
proof -
  assume *: "\<forall>p \<in> set ps. within opts p"
  have "\<forall>is \<in> set (map mp_instrs (add_effects effs (effect_free ps))). within opts is"
    unfolding instrs_of_region using * within_empty by auto
  then show ?thesis by simp
qed

lemma optimize_loop_valid:
  assumes opts: "options_ok opts"
  shows "region_ok p D region \<Longrightarrow> block_valid p (D \<union> in_dst ` set region) rest \<Longrightarrow>
    \<exists>res. optimize_loop opts rest region out = Some (out @ res) \<and> block_valid p D res
      \<and> (\<forall>pk \<in> set res. within opts (mp_instrs pk)) \<and> concat (map mp_effects res) = concat (map mp_effects rest)
      \<and> set (concat (map mp_instrs res)) = set region \<union> set (concat (map mp_instrs rest))"
proof (induction rest arbitrary: D region out)
  case Nil
  show ?case
  proof (cases "region = []")
    case False
    obtain ps where ps: "schedule_machine_region region [] opts = Some (add_effects [] (effect_free ps))"
      "set (concat ps) = set region" "\<forall>p \<in> set ps. within opts p"
      "\<forall>rest. block_valid p (D \<union> in_dst ` set region) rest \<longrightarrow> block_valid p D (add_effects [] (effect_free ps) @ rest)"
      using schedule_region_valid [OF Nil(1) opts, of "[]"] False by auto
    have "block_valid p D (add_effects [] (effect_free ps))" using ps(4) [rule_format, of "[]"] by simp
    with False ps(1-3) show ?thesis
      using region_within [OF ps(3)] effects_of_region [of "[]" ps] instrs_of_region [of "[]" ps]
      by (intro exI [of _ "add_effects [] (effect_free ps)"]) (auto simp del: set_concat concat_eq_Nil_conv)
  qed simp
next
  case (Cons pk rest)
  let ?region = "region @ mp_instrs pk"
  note app = region_ok_append [OF Cons.prems]
  show ?case
  proof (cases "mp_effects pk = []")
    case False
    have effs: "\<forall>eff \<in> set (mp_effects pk). set (effect_value_deps eff) \<subseteq> D \<union> in_dst ` set ?region \<and> effect_refs_ok p eff"
      using Cons.prems(2) by (simp add: image_Un Un_assoc)
    obtain ps where ps: "schedule_machine_region ?region (mp_effects pk) opts = Some (add_effects (mp_effects pk) (effect_free ps))"
      "set (concat ps) = set ?region" "\<forall>p \<in> set ps. within opts p"
      "\<forall>rest. block_valid p (D \<union> in_dst ` set ?region) rest \<longrightarrow> block_valid p D (add_effects (mp_effects pk) (effect_free ps) @ rest)"
      using schedule_region_valid [OF app(1) opts effs] False by blast
    have "region_ok p (D \<union> in_dst ` set ?region) []" by (simp add: region_ok_def)
    then obtain res where res: "optimize_loop opts rest [] (out @ add_effects (mp_effects pk) (effect_free ps)) =
        Some ((out @ add_effects (mp_effects pk) (effect_free ps)) @ res)" "block_valid p (D \<union> in_dst ` set ?region) res"
      "\<forall>pk \<in> set res. within opts (mp_instrs pk)" "concat (map mp_effects res) = concat (map mp_effects rest)"
      "set (concat (map mp_instrs res)) = set (concat (map mp_instrs rest))"
      using Cons.IH [of "D \<union> in_dst ` set ?region" "[]" "out @ add_effects (mp_effects pk) (effect_free ps)"] app(2) by auto
    let ?res = "add_effects (mp_effects pk) (effect_free ps) @ res"
    have "set (concat (map mp_instrs (add_effects (mp_effects pk) (effect_free ps)))) = set ?region"
      unfolding instrs_of_region using ps(2) by auto
    then have "set (concat (map mp_instrs ?res)) = set region \<union> set (concat (map mp_instrs (pk # rest)))"
      using res(5) by (simp add: Un_assoc)
    moreover have "concat (map mp_effects ?res) = concat (map mp_effects (pk # rest))"
      using effects_of_region [of "mp_effects pk" ps] res(4) by simp
    moreover have "\<forall>pk \<in> set ?res. within opts (mp_instrs pk)" using region_within [OF ps(3)] res(3) by auto
    moreover have "block_valid p D ?res" using ps(4) res(2) by blast
    moreover have "optimize_loop opts (pk # rest) region out = Some (out @ ?res)"
      using False ps(1) res(1) by (simp add: Let_def)
    ultimately show ?thesis by blast
  next
    case True
    show ?thesis
    proof (cases "mp_instrs pk = [] \<and> ?region = []")
      case empty: True
      then have "region_ok p D ?region" "block_valid p (D \<union> in_dst ` set ?region) rest" using app by simp_all
      from Cons.IH [OF this, of "out @ [pk]"] obtain res where res: "optimize_loop opts rest ?region (out @ [pk]) = Some ((out @ [pk]) @ res)"
        "block_valid p D res" "\<forall>pk \<in> set res. within opts (mp_instrs pk)" "concat (map mp_effects res) = concat (map mp_effects rest)"
        "set (concat (map mp_instrs res)) = set ?region \<union> set (concat (map mp_instrs rest))" by blast
      with True empty show ?thesis
        by (intro exI [of _ "pk # res"]) (auto simp: Let_def within_empty simp del: set_concat)
    next
      case False
      from Cons.IH [OF app, of out] True False show ?thesis by (auto simp: Let_def Un_assoc simp del: set_concat)
    qed
  qed
qed

section \<open>Lowered blocks\<close>

text \<open>The packets of one operation list, after a pending region.\<close>

lemma optimize_loop_region:
  assumes opts: "options_ok opts" and effs: "effs \<noteq> []"
  shows "\<forall>pk \<in> set packets. mp_effects pk = [] \<Longrightarrow> ssa_from D (region @ concat (map mp_instrs packets)) \<Longrightarrow>
    \<exists>ps. optimize_loop opts (add_effects effs packets @ rest) region out =
        optimize_loop opts rest [] (out @ add_effects effs (effect_free ps))
      \<and> layered D ps \<and> set (concat ps) = set (region @ concat (map mp_instrs packets))"
proof (induction packets arbitrary: region out)
  case Nil
  show ?case
  proof (cases "region = []")
    case True
    then show ?thesis using effs
      by (intro exI [of _ "[]"]) (simp add: add_effects_def effect_free_def schedule_machine_region_def)
  next
    case False
    from schedule_region_ok [OF _ False opts, of D effs] Nil(2) effs show ?thesis
      by (auto simp: add_effects_def [of effs "[]"] simp del: set_concat)
  qed
next
  case (Cons pk packets)
  let ?region = "region @ mp_instrs pk"
  have pk: "mp_effects pk = []" using Cons.prems(1) by simp
  have ssa: "ssa_from D (?region @ concat (map mp_instrs packets))" using Cons.prems(2) by simp
  show ?case
  proof (cases "packets = []")
    case True
    have one: "optimize_loop opts (add_effects effs (pk # packets) @ rest) region out =
        do { ps \<leftarrow> schedule_machine_region ?region effs opts; optimize_loop opts rest [] (out @ ps) }"
      using True pk effs by (simp add: add_effects_def Let_def)
    show ?thesis
    proof (cases "?region = []")
      case empty: True
      then have "schedule_machine_region ?region effs opts = Some (add_effects effs (effect_free []))"
        using effs by (simp add: schedule_machine_region_def add_effects_def effect_free_def)
      then show ?thesis unfolding one using empty True by (intro exI [of _ "[]"]) simp
    next
      case False
      have "ssa_from D ?region" using ssa by (simp add: ssa_from_append)
      from schedule_region_ok [OF this False opts, of effs] show ?thesis
        unfolding one using True by (auto simp del: set_concat)
    qed
  next
    case False
    then have eq: "add_effects effs (pk # packets) = pk # add_effects effs packets" by (simp add: add_effects_def Let_def)
    show ?thesis
    proof (cases "mp_instrs pk = [] \<and> ?region = []")
      case empty: True
      then obtain ps where ps: "optimize_loop opts (add_effects effs packets @ rest) [] (out @ [pk]) =
          optimize_loop opts rest [] ((out @ [pk]) @ add_effects effs (effect_free ps))" "layered D ps"
        "set (concat ps) = set (concat (map mp_instrs packets))"
        using Cons.IH [of "[]" "out @ [pk]"] Cons.prems(1) ssa by auto
      let ?ps = "if ps = [] then [[], []] else [] # ps"
      have "pk # add_effects effs (effect_free ps) = add_effects effs (effect_free ?ps)"
        using empty pk by (cases pk) (simp add: add_effects_def effect_free_def Let_def)
      then have "optimize_loop opts (add_effects effs (pk # packets) @ rest) region out =
          optimize_loop opts rest [] (out @ add_effects effs (effect_free ?ps))"
        using empty pk ps(1) by (simp add: eq Let_def)
      moreover have "concat ?ps = concat ps" "layered D ?ps" using ps(2) by simp_all
      moreover have "region @ concat (map mp_instrs (pk # packets)) = concat (map mp_instrs packets)" using empty by simp
      ultimately show ?thesis using ps(3) by metis
    next
      case nonempty: False
      have "optimize_loop opts (add_effects effs (pk # packets) @ rest) region out =
          optimize_loop opts (add_effects effs packets @ rest) ?region out"
        using nonempty pk by (auto simp: eq Let_def)
      with Cons.IH [of ?region out] Cons.prems(1) ssa show ?thesis by (auto simp del: set_concat)
    qed
  qed
qed

lemma optimize_loop_empties:
  "\<forall>pk \<in> set packets. mp_effects pk = [] \<and> mp_instrs pk = [] \<Longrightarrow>
    optimize_loop opts (packets @ rest) [] out = optimize_loop opts rest [] (out @ packets)"
proof (induction packets arbitrary: out)
  case (Cons pk packets)
  have "optimize_loop opts (pk # (packets @ rest)) [] out = optimize_loop opts (packets @ rest) [] (out @ [pk])"
    using Cons.prems by simp
  also have "\<dots> = optimize_loop opts rest [] ((out @ [pk]) @ packets)" by (rule Cons.IH) (use Cons.prems in simp)
  finally show ?case by simp
qed simp

lemma packet_lowered_reorder:
  assumes "packet_lowered P E n n' ops effs is" "layered {} ps" "set (concat ps) = set is"
  shows "packet_lowered P E n n' ops effs (concat ps)"
  using assms(1) layered_ssa [OF assms(2)] by (simp add: packet_lowered_def assms(3) del: set_concat)

lemma optimize_loop_lowered:
  assumes opts: "options_ok opts"
  shows "block_lowered P E n ops_list block \<Longrightarrow>
    \<exists>block'. optimize_loop opts block [] out = Some (out @ block') \<and> block_lowered P E n ops_list block'"
proof (induction ops_list arbitrary: n block out)
  case (Cons ops rest)
  from Cons.prems obtain n' effs packets block1 where b: "block = add_effects effs packets @ block1"
    "\<forall>p \<in> set packets. mp_effects p = []" "layered {} (map mp_instrs packets)"
    "packet_lowered P E n n' ops effs (concat (map mp_instrs packets))" "block_lowered P E n' rest block1" by auto
  show ?case
  proof (cases "effs = []")
    case True
    have "ops = []" using b(4) True by (simp add: packet_lowered_def)
    then have "in_dst ` set (concat (map mp_instrs packets)) = {}" using b(4) by (auto simp: packet_lowered_def)
    then have "\<forall>pk \<in> set (add_effects effs packets). mp_effects pk = [] \<and> mp_instrs pk = []"
      using b(2) True by (cases packets rule: rev_cases) (auto simp: add_effects_def)
    from optimize_loop_empties [OF this] have "optimize_loop opts block [] out = optimize_loop opts block1 [] (out @ add_effects effs packets)"
      by (simp add: b(1))
    moreover obtain block' where "optimize_loop opts block1 [] (out @ add_effects effs packets) = Some ((out @ add_effects effs packets) @ block')"
      "block_lowered P E n' rest block'" using Cons.IH [OF b(5)] by blast
    moreover have "block_lowered P E n (ops # rest) (add_effects effs packets @ block')"
      unfolding block_lowered.simps using b(2-4) \<open>block_lowered P E n' rest block'\<close> by blast
    ultimately show ?thesis by (intro exI [of _ "add_effects effs packets @ block'"]) simp
  next
    case False
    have "ssa_from {} ([] @ concat (map mp_instrs packets))" using layered_ssa [OF b(3)] by simp
    from optimize_loop_region [OF opts False b(2) this, of block1 out] obtain ps where
      ps: "optimize_loop opts block [] out = optimize_loop opts block1 [] (out @ add_effects effs (effect_free ps))"
      "layered {} ps" "set (concat ps) = set (concat (map mp_instrs packets))" by (auto simp: b(1))
    obtain block' where res: "optimize_loop opts block1 [] (out @ add_effects effs (effect_free ps)) =
        Some ((out @ add_effects effs (effect_free ps)) @ block')" "block_lowered P E n' rest block'"
      using Cons.IH [OF b(5)] by blast
    have instrs: "map mp_instrs (effect_free ps) = ps" by (simp add: effect_free_def comp_def)
    have "block_lowered P E n (ops # rest) (add_effects effs (effect_free ps) @ block')"
    proof -
      have "packet_lowered P E n n' ops effs (concat (map mp_instrs (effect_free ps)))"
        unfolding instrs by (rule packet_lowered_reorder [OF b(4) ps(2,3)])
      moreover have "\<forall>pk \<in> set (effect_free ps). mp_effects pk = []" by (simp add: effect_free_def)
      moreover have "layered {} (map mp_instrs (effect_free ps))" unfolding instrs by (rule ps(2))
      ultimately show ?thesis unfolding block_lowered.simps using res(2) by blast
    qed
    with ps(1) res(1) show ?thesis by (intro exI [of _ "add_effects effs (effect_free ps) @ block'"]) simp
  qed
qed simp

section \<open>Blocks and programs\<close>

definition options_off :: "schedule_options \<Rightarrow> bool" where
  "options_off opts \<longleftrightarrow> so_max_packet_width opts = None \<and> so_max_memory_reads_per_packet opts = None \<and> \<not> so_liveness_priority opts"

lemma within_off: "options_off opts \<Longrightarrow> within opts is"
  by (simp add: within_def options_off_def)

text \<open>The result of the pass on an accepted block, with options that the code accepts.\<close>

lemma optimize_block_valid:
  assumes valid: "block_valid p {} block" and opts: "options_ok opts"
  shows "\<exists>res. optimize_machine_block block p opts = Some (Inr res) \<and> block_valid p {} res
    \<and> (\<forall>pk \<in> set res. within opts (mp_instrs pk)) \<and> concat (map mp_effects res) = concat (map mp_effects block)
    \<and> set (concat (map mp_instrs res)) = set (concat (map mp_instrs block))"
proof -
  obtain a where a: "analyze_machine_block block p = Inr a" using valid analyze_machine_block_iff by blast
  show ?thesis
  proof (cases "options_off opts")
    case True
    with a valid within_off show ?thesis by (auto simp: optimize_machine_block_def options_off_def simp del: set_concat)
  next
    case False
    have "region_ok p {} []" by (simp add: region_ok_def)
    with optimize_loop_valid [OF opts this, of block "[]"] valid obtain res where
      res: "optimize_loop opts block [] [] = Some res" "block_valid p {} res" "\<forall>pk \<in> set res. within opts (mp_instrs pk)"
      "concat (map mp_effects res) = concat (map mp_effects block)"
      "set (concat (map mp_instrs res)) = set (concat (map mp_instrs block))"
      by (auto simp del: set_concat concat_eq_Nil_conv)
    obtain b where "analyze_machine_block res p = Inr b" using res(2) analyze_machine_block_iff by blast
    then have "optimize_machine_block block p opts = Some (Inr res)"
      using False opts a res(1) by (auto simp: optimize_machine_block_def options_off_def options_ok_def)
    with res(2-5) show ?thesis by blast
  qed
qed

lemma optimize_block_implements:
  assumes "implements p ps block" "options_ok opts" "optimize_machine_block block p opts = Some (Inr res)"
  shows "implements p ps res"
proof (cases "options_off opts")
  case True
  with assms show ?thesis by (auto simp: optimize_machine_block_def options_off_def split: sum.splits)
next
  case False
  obtain E where E: "block_lowered (expr_ok p) E 0 ps block" using assms(1) by (auto simp: implements_def)
  obtain block' where b: "optimize_loop opts block [] [] = Some block'" "block_lowered (expr_ok p) E 0 ps block'"
    using optimize_loop_lowered [OF assms(2) E, of "[]"] by auto
  have "res = block'"
    using assms(3) False b(1) assms(2)
    by (auto simp: optimize_machine_block_def options_off_def options_ok_def and_then_Inr_iff split: sum.splits if_splits)
  with b(2) show ?thesis by (auto simp: implements_def)
qed

lemma optimize_program_ok:
  assumes valid: "\<exists>a. analyze_machine_program mc = Inr a" and opts: "options_ok opts" and impl: "machine_implements p mc"
    and src: "mc_source mc = p"
  shows "\<exists>mc'. optimize_machine_program mc opts = Some (Inr mc') \<and> (\<exists>a. analyze_machine_program mc' = Inr a)
    \<and> mc_source mc' = p \<and> machine_implements p mc'"
proof -
  let ?ms = "mc_streams mc"
  have v: "block_valid p {} (ms_async_reset_comb ?ms)" "block_valid p {} (ms_comb ?ms)" "block_valid p {} (ms_tick_next ?ms)"
    "block_valid p {} (ms_tick_commit ?ms)" using valid src by (simp_all add: analyze_machine_program_iff)
  obtain ar cb tn tc where
    r: "optimize_machine_block (ms_async_reset_comb ?ms) p opts = Some (Inr ar)" "block_valid p {} ar"
      "optimize_machine_block (ms_comb ?ms) p opts = Some (Inr cb)" "block_valid p {} cb"
      "optimize_machine_block (ms_tick_next ?ms) p opts = Some (Inr tn)" "block_valid p {} tn"
      "optimize_machine_block (ms_tick_commit ?ms) p opts = Some (Inr tc)" "block_valid p {} tc"
    using optimize_block_valid [OF v(1) opts] optimize_block_valid [OF v(2) opts] optimize_block_valid [OF v(3) opts]
      optimize_block_valid [OF v(4) opts] by blast
  let ?mc = "\<lparr>mc_source = p, mc_streams = \<lparr>ms_async_reset_comb = ar, ms_comb = cb, ms_tick_next = tn, ms_tick_commit = tc\<rparr>\<rparr>"
  obtain a where a: "analyze_machine_program mc = Inr a" using valid by blast
  have an: "\<exists>a. analyze_machine_program ?mc = Inr a" using r by (simp add: analyze_machine_program_iff)
  then obtain b where b: "analyze_machine_program ?mc = Inr b" by blast
  have "optimize_machine_program mc opts = Some (Inr ?mc)"
    using a b r src by (simp add: optimize_machine_program_def Let_def)
  moreover have "machine_implements p ?mc"
    using impl optimize_block_implements [OF _ opts r(1)] optimize_block_implements [OF _ opts r(3)]
      optimize_block_implements [OF _ opts r(5)] optimize_block_implements [OF _ opts r(7)]
    by (simp add: machine_implements_def)
  ultimately show ?thesis using an by simp
qed

end
