(* ===== verification/Packed_Api.thy ===== *)
theory Packed_Api
  imports Packed_Optimize
begin

text \<open>
  The interface of \<open>PackedSimulator\<close>: the constructor, driving and reading signals and memories,
  and the snapshot of the storage.  An operation that changes the simulator returns it with a
  result, as the code may have stored some lanes before it reports an error; \<open>None\<close> is a panic.
\<close>

section \<open>The constructor\<close>

definition stream_caches_of :: "machine_program \<Rightarrow> stream_caches option" where
  "stream_caches_of mc =
     (let ms = mc_streams mc
      in do { ar \<leftarrow> block_cache_of (ms_async_reset_comb ms); cb \<leftarrow> block_cache_of (ms_comb ms);
              tn \<leftarrow> block_cache_of (ms_tick_next ms); tc \<leftarrow> block_cache_of (ms_tick_commit ms);
              Some \<lparr>sc_async_reset_comb = ar, sc_comb = cb, sc_tick_next = tn, sc_tick_commit = tc\<rparr> })"

definition stream_slots_of :: "stream_caches \<Rightarrow> nat \<Rightarrow> stream_slots" where
  "stream_slots_of cs lanes =
     \<lparr>ss_async_reset_comb = reset_slots (sc_async_reset_comb cs) lanes [],
      ss_comb = reset_slots (sc_comb cs) lanes [],
      ss_tick_next = reset_slots (sc_tick_next cs) lanes [],
      ss_tick_commit = reset_slots (sc_tick_commit cs) lanes []\<rparr>"

definition initial_simulator :: "packed_program \<Rightarrow> machine_program \<Rightarrow> stream_caches \<Rightarrow> nat \<Rightarrow> packed_simulator" where
  "initial_simulator p mc cs lanes =
     \<lparr>pk_program = p, pk_machine = mc, pk_execution = cs, pk_workspaces = stream_slots_of cs lanes,
      pk_lanes = lanes, pk_values = replicate (pp_total_signal_words p * lanes) 0,
      pk_memories = replicate (pp_total_memory_words_per_lane p * lanes) 0, pk_captures = []\<rparr>"

definition new_packed_simulator :: "packed_program \<Rightarrow> nat \<Rightarrow> (error_report + packed_simulator) option" where
  "new_packed_simulator p lanes =
     (if lanes = 0
      then Some (Inl [new_diag ''E_SIM_IR_LANES'' ''packed simulator requires at least one lane''])
      else do { mc \<leftarrow> lower_to_machine_program p;
                case analyze_machine_program mc of
                  Inl e \<Rightarrow> Some (Inl e)
                | Inr _ \<Rightarrow> do { cs \<leftarrow> stream_caches_of mc;
                               s \<leftarrow> packed_eval_combinational (initial_simulator p mc cs lanes);
                               Some (Inr s) } })"

section \<open>Snapshots\<close>

record packed_storage =
  sg_values :: "u32 list"
  sg_memories :: "u32 list"

type_synonym sim_result = "(packed_simulator \<times> (error_report + unit)) option"

definition snapshot_storage :: "packed_simulator \<Rightarrow> packed_storage" where
  "snapshot_storage s = \<lparr>sg_values = pk_values s, sg_memories = pk_memories s\<rparr>"

definition restore_storage :: "packed_storage \<Rightarrow> packed_simulator \<Rightarrow> packed_simulator \<times> (error_report + unit)" where
  "restore_storage st s =
     (let expected_values = pp_total_signal_words (pk_program s) * pk_lanes s;
          expected_memories = pp_total_memory_words_per_lane (pk_program s) * pk_lanes s
      in if length (sg_values st) \<noteq> expected_values
         then (s, Inl [new_diag ''E_SIM_IR_STORAGE_VALUES'' (''expected '' @ show_nat expected_values
                @ '' packed signal words, got '' @ show_nat (length (sg_values st)))])
         else if length (sg_memories st) \<noteq> expected_memories
         then (s, Inl [new_diag ''E_SIM_IR_STORAGE_MEMORIES'' (''expected '' @ show_nat expected_memories
                @ '' packed memory words, got '' @ show_nat (length (sg_memories st)))])
         else (s\<lparr>pk_values := sg_values st, pk_memories := sg_memories st\<rparr>, Inr ()))"

section \<open>Driving signals\<close>

definition signal_index :: "packed_simulator \<Rightarrow> signal \<Rightarrow> error_report + nat" where
  "signal_index s x =
     (case pp_signal_index (pk_program s) x of
        Some i \<Rightarrow> Inr i
      | None \<Rightarrow> Inl [new_diag ''E_SIM_IR_SIGNAL''
                 (''signal '' @ debug_signal_id (sig_id x) @ '' is not part of this packed program'')])"

text \<open>\<open>?\<close> in an operation that changes the simulator, and the settling at the end of one.\<close>

definition or_fail :: "packed_simulator \<Rightarrow> error_report + 'a \<Rightarrow> ('a \<Rightarrow> sim_result) \<Rightarrow> sim_result" where
  "or_fail s r k = (case r of Inl e \<Rightarrow> Some (s, Inl e) | Inr x \<Rightarrow> k x)"

definition then_settle :: "sim_result \<Rightarrow> sim_result" where
  "then_settle r = do { (s, e) \<leftarrow> r;
     (case e of Inl _ \<Rightarrow> Some (s, e)
      | Inr _ \<Rightarrow> do { s' \<leftarrow> packed_eval_combinational s; Some (s', Inr ()) }) }"

fun store_lanes :: "packed_layout \<Rightarrow> (nat \<times> u32 list) list \<Rightarrow> packed_simulator \<Rightarrow> sim_result" where
  "store_lanes l [] s = Some (s, Inr ())"
| "store_lanes l ((lane, v) # vs) s =
     (if length v \<noteq> pl_limbs l
      then Some (s, Inl [new_diag ''E_SIM_IR_LANE_VALUES''
             (''expected '' @ show_nat (pl_limbs l) @ '' limbs, got '' @ show_nat (length v))])
      else do { s' \<leftarrow> store_layout s l lane v; store_lanes l vs s' })"

definition set_packed_signal_limbs :: "nat \<Rightarrow> u32 list list \<Rightarrow> packed_simulator \<Rightarrow> sim_result" where
  "set_packed_signal_limbs i vs s =
     (if length vs \<noteq> pk_lanes s
      then Some (s, Inl [new_diag ''E_SIM_IR_LANE_VALUES''
             (''expected '' @ show_nat (pk_lanes s) @ '' lane values, got '' @ show_nat (length vs))])
      else do { sg \<leftarrow> vec_get (pp_signals (pk_program s)) i;
                then_settle (store_lanes (ps_layout sg) (enumerate 0 vs) s) })"

definition set_signal_limbs :: "signal \<Rightarrow> u32 list list \<Rightarrow> packed_simulator \<Rightarrow> sim_result" where
  "set_signal_limbs x vs s = or_fail s (signal_index s x) (\<lambda>i. set_packed_signal_limbs i vs s)"

definition set_signal :: "signal \<Rightarrow> u128 list \<Rightarrow> packed_simulator \<Rightarrow> sim_result" where
  "set_signal x vs s = or_fail s (signal_index s x) (\<lambda>i.
     do { sg \<leftarrow> vec_get (pp_signals (pk_program s)) i;
          set_signal_limbs x (map (\<lambda>v. encode_u128_limbs v (pl_ty (ps_layout sg))) vs) s })"

definition set_packed_signal_replicated_limbs :: "nat \<Rightarrow> u32 list \<Rightarrow> packed_simulator \<Rightarrow> packed_simulator option" where
  "set_packed_signal_replicated_limbs i v s =
     do { sg \<leftarrow> vec_get (pp_signals (pk_program s)) i;
          for_lanes (\<lambda>lane s. store_layout s (ps_layout sg) lane v) [0..<pk_lanes s] s }"

definition set_packed_signal_replicated :: "nat \<Rightarrow> u128 \<Rightarrow> packed_simulator \<Rightarrow> packed_simulator option" where
  "set_packed_signal_replicated i v s =
     do { sg \<leftarrow> vec_get (pp_signals (pk_program s)) i;
          set_packed_signal_replicated_limbs i (encode_u128_limbs v (pl_ty (ps_layout sg))) s }"

definition set_signal_replicated :: "signal \<Rightarrow> u128 \<Rightarrow> packed_simulator \<Rightarrow> sim_result" where
  "set_signal_replicated x v s = or_fail s (signal_index s x) (\<lambda>i.
     do { s' \<leftarrow> set_packed_signal_replicated i v s; then_settle (Some (s', Inr ())) })"

fun encode_signals :: "packed_simulator \<Rightarrow> (signal \<times> u128) list \<Rightarrow> (error_report + (nat \<times> u32 list) list) option" where
  "encode_signals s [] = Some (Inr [])"
| "encode_signals s ((x, v) # xvs) =
     (case signal_index s x of
        Inl e \<Rightarrow> Some (Inl e)
      | Inr i \<Rightarrow> do { sg \<leftarrow> vec_get (pp_signals (pk_program s)) i;
                     r \<leftarrow> encode_signals s xvs;
                     Some (and_then r (\<lambda>rest. Inr ((i, encode_u128_limbs v (pl_ty (ps_layout sg))) # rest))) })"

definition set_signals_replicated_raw :: "(signal \<times> u128) list \<Rightarrow> packed_simulator \<Rightarrow> sim_result" where
  "set_signals_replicated_raw xvs s =
     do { r \<leftarrow> encode_signals s xvs;
          or_fail s r (\<lambda>encoded.
            do { s' \<leftarrow> exec_all (\<lambda>(i, v). set_packed_signal_replicated_limbs i v) encoded s; Some (s', Inr ()) }) }"

definition set_signals_replicated :: "(signal \<times> u128) list \<Rightarrow> packed_simulator \<Rightarrow> sim_result" where
  "set_signals_replicated xvs s = then_settle (set_signals_replicated_raw xvs s)"

section \<open>Reading signals\<close>

definition get_signal_limbs :: "packed_simulator \<Rightarrow> signal \<Rightarrow> (error_report + u32 list list) option" where
  "get_signal_limbs s x =
     (case signal_index s x of
        Inl e \<Rightarrow> Some (Inl e)
      | Inr i \<Rightarrow> do { sg \<leftarrow> vec_get (pp_signals (pk_program s)) i;
                     vs \<leftarrow> mapM (load_layout s (ps_layout sg)) [0..<pk_lanes s]; Some (Inr vs) })"

definition get_signal :: "packed_simulator \<Rightarrow> signal \<Rightarrow> (error_report + u128 list) option" where
  "get_signal s x = do { r \<leftarrow> get_signal_limbs s x; Some (and_then r (\<lambda>vs. Inr (map decode_u128_limbs vs))) }"

definition get_signal_lane_limbs :: "packed_simulator \<Rightarrow> signal \<Rightarrow> nat \<Rightarrow> (error_report + u32 list) option" where
  "get_signal_lane_limbs s x lane =
     (if lane \<ge> pk_lanes s
      then Some (Inl [new_diag ''E_SIM_IR_LANE'' (''lane '' @ show_nat lane @ '' is out of range for ''
             @ show_nat (pk_lanes s) @ '' lanes'')])
      else case signal_index s x of
        Inl e \<Rightarrow> Some (Inl e)
      | Inr i \<Rightarrow> do { sg \<leftarrow> vec_get (pp_signals (pk_program s)) i;
                     v \<leftarrow> load_layout s (ps_layout sg) lane; Some (Inr v) })"

definition get_signal_lane :: "packed_simulator \<Rightarrow> signal \<Rightarrow> nat \<Rightarrow> (error_report + u128) option" where
  "get_signal_lane s x lane =
     do { r \<leftarrow> get_signal_lane_limbs s x lane; Some (and_then r (\<lambda>v. Inr (decode_u128_limbs v))) }"

section \<open>Memories\<close>

definition memory_signal_index :: "packed_simulator \<Rightarrow> signal \<Rightarrow> error_report + nat" where
  "memory_signal_index s x =
     (case position (\<lambda>m. pm_source m = x) (pp_memories (pk_program s)) of
        Some i \<Rightarrow> Inr i
      | None \<Rightarrow> Inl [new_diag ''E_SIM_IR_MEMORY''
                 (''memory '' @ debug_signal_id (sig_id x) @ '' is not part of this packed program'')])"

fun store_memory_words :: "nat \<Rightarrow> packed_memory \<Rightarrow> nat \<Rightarrow> (nat \<times> u32 list) list \<Rightarrow> packed_simulator \<Rightarrow> sim_result" where
  "store_memory_words i m lane [] s = Some (s, Inr ())"
| "store_memory_words i m lane ((addr, v) # vs) s =
     (if length v \<noteq> pl_limbs (pm_data_layout m)
      then Some (s, Inl [new_diag ''E_SIM_IR_MEMORY_VALUES'' (''expected ''
             @ show_nat (pl_limbs (pm_data_layout m)) @ '' limbs per memory word, got '' @ show_nat (length v))])
      else do { s' \<leftarrow> store_memory s i lane addr v; store_memory_words i m lane vs s' })"

fun store_memory_lanes :: "nat \<Rightarrow> packed_memory \<Rightarrow> (nat \<times> u32 list list) list \<Rightarrow> packed_simulator \<Rightarrow> sim_result" where
  "store_memory_lanes i m [] s = Some (s, Inr ())"
| "store_memory_lanes i m ((lane, ws) # rest) s =
     (if length ws \<noteq> pm_depth m
      then Some (s, Inl [new_diag ''E_SIM_IR_MEMORY_VALUES'' (''expected '' @ show_nat (pm_depth m)
             @ '' memory words, got '' @ show_nat (length ws))])
      else do { (s', e) \<leftarrow> store_memory_words i m lane (enumerate 0 ws) s;
                (case e of Inl _ \<Rightarrow> Some (s', e) | Inr _ \<Rightarrow> store_memory_lanes i m rest s') })"

definition set_memory_index_limbs :: "nat \<Rightarrow> u32 list list list \<Rightarrow> packed_simulator \<Rightarrow> sim_result" where
  "set_memory_index_limbs i lws s =
     (if length lws \<noteq> pk_lanes s
      then Some (s, Inl [new_diag ''E_SIM_IR_MEMORY_VALUES'' (''expected '' @ show_nat (pk_lanes s)
             @ '' lanes of memory values, got '' @ show_nat (length lws))])
      else do { m \<leftarrow> vec_get (pp_memories (pk_program s)) i;
                then_settle (store_memory_lanes i m (enumerate 0 lws) s) })"

definition set_memory_limbs :: "signal \<Rightarrow> u32 list list list \<Rightarrow> packed_simulator \<Rightarrow> sim_result" where
  "set_memory_limbs x lws s = or_fail s (memory_signal_index s x) (\<lambda>i. set_memory_index_limbs i lws s)"

definition set_memory :: "signal \<Rightarrow> u128 list list \<Rightarrow> packed_simulator \<Rightarrow> sim_result" where
  "set_memory x lws s = or_fail s (memory_signal_index s x) (\<lambda>i.
     do { m \<leftarrow> vec_get (pp_memories (pk_program s)) i;
          let ty = pl_ty (pm_data_layout m)
          in if bt_width ty > 128
             then Some (s, Inl [new_diag ''E_SIM_IR_WIDE_MEMORY''
                    ''use set_memory_limbs for memories wider than 128 bits''])
             else set_memory_limbs x (map (map (\<lambda>w. encode_u128_limbs w ty)) lws) s })"

definition set_memory_replicated :: "signal \<Rightarrow> u128 list \<Rightarrow> packed_simulator \<Rightarrow> sim_result" where
  "set_memory_replicated x ws s = set_memory x (replicate (pk_lanes s) ws) s"

definition get_memory_limbs :: "packed_simulator \<Rightarrow> signal \<Rightarrow> (error_report + u32 list list list) option" where
  "get_memory_limbs s x =
     (case memory_signal_index s x of
        Inl e \<Rightarrow> Some (Inl e)
      | Inr i \<Rightarrow> do { m \<leftarrow> vec_get (pp_memories (pk_program s)) i;
                     vs \<leftarrow> mapM (\<lambda>lane. mapM (load_memory s m lane) [0..<pm_depth m]) [0..<pk_lanes s];
                     Some (Inr vs) })"

definition get_memory :: "packed_simulator \<Rightarrow> signal \<Rightarrow> (error_report + u128 list list) option" where
  "get_memory s x =
     (case memory_signal_index s x of
        Inl e \<Rightarrow> Some (Inl e)
      | Inr i \<Rightarrow> do { m \<leftarrow> vec_get (pp_memories (pk_program s)) i;
          if pl_width (pm_data_layout m) > 128
          then Some (Inl [new_diag ''E_SIM_IR_WIDE_MEMORY''
                 ''use get_memory_limbs for memories wider than 128 bits''])
          else do { r \<leftarrow> get_memory_limbs s x; Some (and_then r (\<lambda>vs. Inr (map (map decode_u128_limbs) vs))) } })"

definition peek_memory_lanes :: "packed_simulator \<Rightarrow> nat \<Rightarrow> nat \<Rightarrow> u32 list list option option" where
  "peek_memory_lanes s memory addr =
     (case vec_get (pp_memories (pk_program s)) memory of
        None \<Rightarrow> Some None
      | Some m \<Rightarrow> if addr \<ge> pm_depth m then Some None
                 else do { vs \<leftarrow> mapM (\<lambda>lane. load_memory s m lane addr) [0..<pk_lanes s]; Some (Some vs) })"

end
