(* ===== verification/Packed_Drive.thy ===== *)
theory Packed_Drive
  imports Packed_Api
begin

text \<open>
  The interface of the packed simulator on the abstract machine: the constructor gives a well
  formed simulator with every lane settled from zero; a driven signal holds the driven value on
  its lane and nothing else changes; reading gives the value of the lane.
\<close>

section \<open>The constructor\<close>

lemma stream_caches_total:
  assumes "machine_implements p mc"
  shows "\<exists>cs. stream_caches_of mc = Some cs \<and> block_cache_of (ms_async_reset_comb (mc_streams mc)) = Some (sc_async_reset_comb cs)
    \<and> block_cache_of (ms_comb (mc_streams mc)) = Some (sc_comb cs)
    \<and> block_cache_of (ms_tick_next (mc_streams mc)) = Some (sc_tick_next cs)
    \<and> block_cache_of (ms_tick_commit (mc_streams mc)) = Some (sc_tick_commit cs)"
proof -
  have cache: "\<exists>c. block_cache_of block = Some c" if "implements p ps block" for ps block
    using that block_cache_ok by (fastforce simp: implements_def)
  obtain a b c d where "block_cache_of (ms_async_reset_comb (mc_streams mc)) = Some a"
    "block_cache_of (ms_comb (mc_streams mc)) = Some b" "block_cache_of (ms_tick_next (mc_streams mc)) = Some c"
    "block_cache_of (ms_tick_commit (mc_streams mc)) = Some d"
    using assms unfolding machine_implements_def by (elim conjE) (drule cache, elim exE)+
  then show ?thesis by (simp add: stream_caches_of_def Let_def)
qed

lemma lval_zero: "\<forall>x \<in> set xs. x = 0 \<Longrightarrow> lval xs = 0"
  by (simp add: lval_drop_0_iff)

definition zero_state :: lane_state where
  "zero_state = (\<lambda>_. 0, \<lambda>_ _. 0)"

lemma initial_simulator_ok:
  assumes "machine_implements p mc" "streams_ok p" "layouts_wf p" "stream_caches_of mc = Some cs"
  shows "simulator_ok (initial_simulator p mc cs lanes)"
  using stream_caches_total [OF assms(1)] assms
  by (auto simp: simulator_ok_def initial_simulator_def goes_on_def storage_ok_def Let_def)

lemma initial_lane_state:
  assumes "layouts_wf p" "l < lanes"
  shows "lane_state (initial_simulator p mc cs lanes) l = zero_state"
proof -
  let ?s = "initial_simulator p mc cs lanes"
  have st: "storage_ok ?s" using assms(1) by (simp add: storage_ok_def initial_simulator_def)
  have p: "pk_program ?s = p" "pk_lanes ?s = lanes" by (simp_all add: initial_simulator_def)
  have "lane_signal ?s l i = 0" for i
  proof (cases "i < length (pp_signals p)")
    case True
    let ?l = "signal_layout ?s i"
    have w: "word_at (pk_values ?s) lanes (pl_offset ?l + k) l = 0" if k: "k < pl_limbs ?l" for k
    proof -
      have "pl_offset ?l + k < pp_total_signal_words p" using storage_signal(2) [OF st] True k by (fastforce simp: p)
      with row_index_less [OF assms(2) this] show ?thesis by (simp add: word_at_def initial_simulator_def)
    qed
    have "lval (rows_at (pk_values ?s) lanes (pl_offset ?l) (pl_limbs ?l) l) = 0"
      by (rule lval_zero) (auto simp: rows_at_def w)
    with True show ?thesis by (simp add: lane_signal_def layout_value_def p)
  qed (simp add: lane_signal_def p)
  moreover have "lane_memory ?s l i a = 0" for i a
  proof (cases "i < length (pp_memories p) \<and> 0 \<le> a \<and> a < int (pm_depth (pp_memories p ! i))")
    case True
    let ?m = "pp_memories p ! i"
    have a: "nat a < pm_depth ?m" using True by linarith
    have "memory_word_index ?s ?m l (nat a) k < pp_total_memory_words_per_lane p * lanes"
      if "k < pl_limbs (pm_data_layout ?m)" for k
      using memory_index_less(1) [OF st, of ?m l "nat a" k] True assms(2) a that
      by (simp add: p initial_simulator_def)
    then have "lval (memory_words ?s ?m l (nat a)) = 0"
      by (intro lval_zero) (auto simp: memory_words_def initial_simulator_def)
    with True show ?thesis by (simp add: lane_memory_def p)
  qed (auto simp: lane_memory_def p Let_def)
  ultimately show ?thesis by (simp add: lane_state_def zero_state_def fun_eq_iff)
qed

lemma new_packed_simulator_runs:
  assumes p: "layouts_wf p" "streams_ok p" "lanes \<noteq> 0"
  shows "\<exists>s. new_packed_simulator p lanes = Some (Inr s) \<and> simulator_ok s \<and> pk_program s = p \<and> pk_lanes s = lanes
    \<and> (\<forall>l < lanes. lane_state s l = settle_spec p zero_state)"
proof -
  obtain mc where mc: "lower_to_machine_program p = Some mc" "mc_source mc = p"
    using lower_to_machine_program_total by blast
  have imp: "machine_implements p mc" by (rule lowering_machine_implements [OF mc(1) p(2)])
  have "\<exists>a. analyze_machine_program mc = Inr a"
    unfolding analyze_machine_program_iff mc(2)
    using mc(1) p(2) lowered_stream_valid by (auto simp: lower_to_machine_program_def streams_ok_def bind_eq_Some)
  then obtain a where a: "analyze_machine_program mc = Inr a" ..
  obtain cs where cs: "stream_caches_of mc = Some cs" using stream_caches_total [OF imp] by blast
  let ?s = "initial_simulator p mc cs lanes"
  have ok: "simulator_ok ?s" by (rule initial_simulator_ok [OF imp p(2,1) cs])
  have s0: "pk_program ?s = p" "pk_lanes ?s = lanes" by (simp_all add: initial_simulator_def)
  obtain s where s: "packed_eval_combinational ?s = Some s" "goes_on ?s s"
    "\<forall>l < lanes. lane_state s l = settle_spec p (lane_state ?s l)"
    using settle_run [OF ok] by (auto simp: lane_run_def s0)
  have "new_packed_simulator p lanes = Some (Inr s)"
    using mc(1) a cs s(1) p(3) by (simp add: new_packed_simulator_def)
  with s simulator_ok_goes_on [OF ok s(2)] goes_onD(2,3) [OF s(2)] initial_lane_state [OF p(1)] show ?thesis
    by (auto simp: s0)
qed

section \<open>Driving\<close>

lemma goes_on_values:
  "goes_on s s \<Longrightarrow> storage_ok (s\<lparr>pk_values := ws\<rparr>) \<Longrightarrow> goes_on s (s\<lparr>pk_values := ws\<rparr>)"
  by (simp add: goes_on_def capture_ok_def)

lemma goes_on_memories:
  "goes_on s s \<Longrightarrow> storage_ok (s\<lparr>pk_memories := ws\<rparr>) \<Longrightarrow> goes_on s (s\<lparr>pk_memories := ws\<rparr>)"
  by (simp add: goes_on_def capture_ok_def)

text \<open>A signal is given a value, which it holds modulo its width.\<close>

definition drive :: "packed_program \<Rightarrow> nat \<Rightarrow> int \<Rightarrow> lane_state \<Rightarrow> lane_state" where
  "drive p i v = apfst (\<lambda>S. S(i := take_bit (pl_width (ps_layout (pp_signals p ! i))) v))"

definition drive_word :: "packed_program \<Rightarrow> nat \<Rightarrow> nat \<Rightarrow> int \<Rightarrow> lane_state \<Rightarrow> lane_state" where
  "drive_word p m a v = apsnd (\<lambda>R. R(m := (R m)(int a := take_bit (pl_width (pm_data_layout (pp_memories p ! m))) v)))"

lemma store_layout_drives:
  assumes s: "goes_on s s" and i: "i < signal_count s" and lane: "lane < pk_lanes s"
  shows "\<exists>s'. store_layout s (signal_layout s i) lane v = Some s' \<and> goes_on s s'
    \<and> (\<forall>l < pk_lanes s. lane_state s' l = (if l = lane then drive (pk_program s) i (lval v) (lane_state s l) else lane_state s l))"
proof -
  obtain ws where ws: "store_signal_lane s i lane v = Some (s\<lparr>pk_values := ws\<rparr>)" "storage_ok (s\<lparr>pk_values := ws\<rparr>)"
    "\<forall>l < pk_lanes s. lane_signal (s\<lparr>pk_values := ws\<rparr>) l =
        (if l = lane then (lane_signal s l)(i := take_bit (pl_width (signal_layout s i)) (lval v)) else lane_signal s l)"
    using store_signal_lane_ok [OF goes_onD(1) [OF s] i lane] by blast
  from ws(1) i have "store_layout s (signal_layout s i) lane v = Some (s\<lparr>pk_values := ws\<rparr>)"
    by (simp add: store_signal_lane_def)
  with ws(3) goes_on_values [OF s ws(2)] show ?thesis by (simp add: lane_state_def drive_def)
qed

text \<open>A list of values for lanes: what lane \<open>l\<close> becomes.\<close>

lemma store_lanes_ok:
  assumes "goes_on s s" "i < signal_count s" "distinct (map fst vs)"
    and "\<forall>(lane, v) \<in> set vs. lane < pk_lanes s \<and> length v = pl_limbs (signal_layout s i)"
  shows "\<exists>s'. store_lanes (signal_layout s i) vs s = Some (s', Inr ()) \<and> goes_on s s'
    \<and> (\<forall>l < pk_lanes s. lane_state s' l = (case map_of vs l of None \<Rightarrow> lane_state s l
        | Some v \<Rightarrow> drive (pk_program s) i (lval v) (lane_state s l)))"
  using assms
proof (induction vs arbitrary: s)
  case (Cons x vs)
  obtain lane v where x: "x = (lane, v)" by (cases x)
  obtain s1 where s1: "store_layout s (signal_layout s i) lane v = Some s1" "goes_on s s1"
    "\<forall>l < pk_lanes s. lane_state s1 l = (if l = lane then drive (pk_program s) i (lval v) (lane_state s l) else lane_state s l)"
    using store_layout_drives [OF Cons.prems(1,2), of lane v] Cons.prems(4) x by auto
  have eq: "pk_program s1 = pk_program s" "pk_lanes s1 = pk_lanes s" using s1(2) by (simp_all add: goes_on_def)
  obtain s2 where s2: "store_lanes (signal_layout s i) vs s1 = Some (s2, Inr ())" "goes_on s1 s2"
    "\<forall>l < pk_lanes s. lane_state s2 l = (case map_of vs l of None \<Rightarrow> lane_state s1 l
        | Some v \<Rightarrow> drive (pk_program s) i (lval v) (lane_state s1 l))"
    using Cons.IH [of s1, unfolded eq] Cons.prems goes_onD(4) [OF s1(2)] by auto
  have "lane \<notin> fst ` set vs" using Cons.prems(3) x by simp
  then have "map_of vs lane = None" by (simp add: map_of_eq_None_iff)
  then have "lane_state s2 l = (case map_of (x # vs) l of None \<Rightarrow> lane_state s l
      | Some v \<Rightarrow> drive (pk_program s) i (lval v) (lane_state s l))" if "l < pk_lanes s" for l
    using s1(3) s2(3) that x by (auto split: option.splits)
  with s1(1) s2(1) goes_on_trans [OF s1(2) s2(2)] Cons.prems(4) x show ?case by auto
qed simp

lemma then_settle_ok:
  assumes "simulator_ok s" "r = Some (s', Inr ())" "goes_on s s'"
  shows "\<exists>s2. then_settle r = Some (s2, Inr ()) \<and> goes_on s s2
    \<and> (\<forall>l < pk_lanes s. lane_state s2 l = settle_spec (pk_program s) (lane_state s' l))"
proof -
  obtain s2 where "packed_eval_combinational s' = Some s2" "goes_on s' s2"
    "\<forall>l < pk_lanes s'. lane_state s2 l = settle_spec (pk_program s) (lane_state s' l)"
    using settle_run_after [OF assms(1,3)] by (auto simp: lane_run_def)
  with assms(2) goes_on_trans [OF assms(3)] goes_onD(3) [OF assms(3)] show ?thesis
    by (simp add: then_settle_def)
qed

lemma map_of_enumerate: "map_of (enumerate 0 vs) l = (if l < length vs then Some (vs ! l) else None)"
proof -
  have "distinct (map fst (enumerate 0 vs))" by simp
  moreover have "(l, vs ! l) \<in> set (enumerate 0 vs)" if "l < length vs" using that by (auto simp: in_set_enumerate_eq)
  ultimately have "l < length vs \<Longrightarrow> map_of (enumerate 0 vs) l = Some (vs ! l)" by simp
  moreover have "\<not> l < length vs \<Longrightarrow> map_of (enumerate 0 vs) l = None"
    by (auto simp: map_of_eq_None_iff in_set_enumerate_eq)
  ultimately show ?thesis by simp
qed

lemma simulator_goes_on: "simulator_ok s \<Longrightarrow> goes_on s s"
  by (simp add: simulator_ok_def)

lemma set_packed_signal_limbs_ok:
  assumes s: "simulator_ok s" and i: "i < signal_count s" and len: "length vs = pk_lanes s"
    and limbs: "\<forall>v \<in> set vs. length v = pl_limbs (signal_layout s i)"
  shows "\<exists>s'. set_packed_signal_limbs i vs s = Some (s', Inr ()) \<and> goes_on s s'
    \<and> (\<forall>l < pk_lanes s. lane_state s' l =
        settle_spec (pk_program s) (drive (pk_program s) i (lval (vs ! l)) (lane_state s l)))"
proof -
  obtain s1 where s1: "store_lanes (signal_layout s i) (enumerate 0 vs) s = Some (s1, Inr ())" "goes_on s s1"
    "\<forall>l < pk_lanes s. lane_state s1 l = (case map_of (enumerate 0 vs) l of None \<Rightarrow> lane_state s l
        | Some v \<Rightarrow> drive (pk_program s) i (lval v) (lane_state s l))"
  proof -
    have "\<forall>(lane, v) \<in> set (enumerate 0 vs). lane < pk_lanes s \<and> length v = pl_limbs (signal_layout s i)"
      using len limbs by (auto simp: in_set_enumerate_eq)
    then show thesis using store_lanes_ok [OF simulator_goes_on [OF s] i, of "enumerate 0 vs"] that by auto
  qed
  obtain s2 where "then_settle (Some (s1, Inr ())) = Some (s2, Inr ())" "goes_on s s2"
    "\<forall>l < pk_lanes s. lane_state s2 l = settle_spec (pk_program s) (lane_state s1 l)"
    using then_settle_ok [OF s refl s1(2)] by blast
  with s1 i len show ?thesis by (auto simp: set_packed_signal_limbs_def vec_get_def map_of_enumerate)
qed

lemma store_lanes_replicated:
  assumes "length v = pl_limbs l"
  shows "store_lanes l (map (\<lambda>lane. (lane, v)) ls) s =
    map_option (\<lambda>s'. (s', Inr ())) (for_lanes (\<lambda>lane s. store_layout s l lane v) ls s)"
proof (induction ls arbitrary: s)
  case (Cons a ls)
  then show ?case by (cases "store_layout s l a v") (simp_all add: assms)
qed simp

lemma set_replicated_limbs_ok:
  assumes s: "goes_on s s" and i: "i < signal_count s" and v: "length v = pl_limbs (signal_layout s i)"
  shows "\<exists>s'. set_packed_signal_replicated_limbs i v s = Some s' \<and> goes_on s s'
    \<and> (\<forall>l < pk_lanes s. lane_state s' l = drive (pk_program s) i (lval v) (lane_state s l))"
proof -
  let ?vs = "map (\<lambda>lane. (lane, v)) [0..<pk_lanes s]"
  have d: "distinct (map fst ?vs)" by (simp add: comp_def)
  have "map_of ?vs l = Some v" if "l < pk_lanes s" for l
    by (rule map_of_is_SomeI [OF d]) (use that in auto)
  with store_lanes_ok [OF s i d] v i show ?thesis
    by (auto simp: store_lanes_replicated set_packed_signal_replicated_limbs_def vec_get_def)
qed

section \<open>Reading\<close>

lemma load_lanes_ok:
  assumes s: "storage_ok s" and i: "i < signal_count s"
  shows "\<exists>vs. mapM (load_layout s (signal_layout s i)) [0..<pk_lanes s] = Some vs
    \<and> map lval vs = map (\<lambda>l. lane_signal s l i) [0..<pk_lanes s]
    \<and> (\<forall>v \<in> set vs. length v = pl_limbs (signal_layout s i))"
proof -
  have "\<forall>lane \<in> {..<pk_lanes s}. \<exists>ls. load_layout s (signal_layout s i) lane = Some ls
      \<and> lval ls = lane_signal s lane i \<and> length ls = pl_limbs (signal_layout s i)"
    using load_layout_ok [OF s storage_signal [OF s i]] i by (simp add: lane_signal_def)
  from bchoice [OF this] obtain f where f: "\<forall>lane \<in> {..<pk_lanes s}. load_layout s (signal_layout s i) lane = Some (f lane)
      \<and> lval (f lane) = lane_signal s lane i \<and> length (f lane) = pl_limbs (signal_layout s i)" ..
  then have "mapM (load_layout s (signal_layout s i)) [0..<pk_lanes s] = Some (map f [0..<pk_lanes s])"
    by (intro mapM_all) simp
  with f show ?thesis by auto
qed

lemma get_signal_limbs_ok:
  assumes "storage_ok s" "pp_signal_index (pk_program s) x = Some i" "i < signal_count s"
  shows "\<exists>vs. get_signal_limbs s x = Some (Inr vs) \<and> map lval vs = map (\<lambda>l. lane_signal s l i) [0..<pk_lanes s]
    \<and> (\<forall>v \<in> set vs. length v = pl_limbs (signal_layout s i))"
  using load_lanes_ok [OF assms(1,3)] assms(2,3)
  by (auto simp: get_signal_limbs_def signal_index_def vec_get_def)

lemma lane_signal_fits:
  "take_bit (pl_width (signal_layout s i)) (lane_signal s l i) = lane_signal s l i"
  by (simp add: lane_signal_def layout_value_def)

lemma get_signal_ok:
  assumes "storage_ok s" "pp_signal_index (pk_program s) x = Some i" "i < signal_count s"
  shows "\<exists>vs. get_signal s x = Some (Inr vs)
    \<and> map uint vs = map (\<lambda>l. take_bit 128 (lane_signal s l i)) [0..<pk_lanes s]"
proof -
  obtain ls where ls: "get_signal_limbs s x = Some (Inr ls)" "map lval ls = map (\<lambda>l. lane_signal s l i) [0..<pk_lanes s]"
    using get_signal_limbs_ok [OF assms] by blast
  have "map uint (map decode_u128_limbs ls) = map (take_bit 128) (map lval ls)" by (simp add: uint_decode_u128)
  also have "\<dots> = map (\<lambda>l. take_bit 128 (lane_signal s l i)) [0..<pk_lanes s]" unfolding ls(2) by simp
  finally show ?thesis using ls(1) by (simp add: get_signal_def)
qed

section \<open>Memories\<close>

text \<open>The words of a memory of one lane, stored one after the other.\<close>

definition drive_words :: "packed_program \<Rightarrow> nat \<Rightarrow> (nat \<times> u32 list) list \<Rightarrow> lane_state \<Rightarrow> lane_state" where
  "drive_words p m = fold (\<lambda>(a, w). drive_word p m a (lval w))"

lemma store_memory_drives:
  assumes s: "goes_on s s" and m: "m < memory_count s" and lane: "lane < pk_lanes s"
    and a: "a < pm_depth (pp_memories (pk_program s) ! m)"
  shows "\<exists>s'. store_memory s m lane a v = Some s' \<and> goes_on s s'
    \<and> (\<forall>l < pk_lanes s. lane_state s' l = (if l = lane then drive_word (pk_program s) m a (lval v) (lane_state s l) else lane_state s l))"
proof -
  obtain ws where ws: "store_memory s m lane a v = Some (s\<lparr>pk_memories := ws\<rparr>)" "storage_ok (s\<lparr>pk_memories := ws\<rparr>)"
    "\<forall>l < pk_lanes s. lane_memory (s\<lparr>pk_memories := ws\<rparr>) l =
        (if l = lane then (lane_memory s l)(m := (lane_memory s l m)(int a :=
           take_bit (pl_width (pm_data_layout (pp_memories (pk_program s) ! m))) (lval v))) else lane_memory s l)"
    using store_memory_ok [OF goes_onD(1) [OF s] m lane a] by blast
  moreover have "lane_signal (s\<lparr>pk_memories := ws\<rparr>) = lane_signal s"
    by (intro ext) (simp add: lane_signal_def layout_value_def)
  ultimately show ?thesis using goes_on_memories [OF s ws(2)] by (simp add: lane_state_def drive_word_def)
qed

lemma store_memory_words_ok:
  assumes "goes_on s s" "m < memory_count s" "lane < pk_lanes s"
    and "\<forall>(a, w) \<in> set ws. a < pm_depth (pp_memories (pk_program s) ! m)
      \<and> length w = pl_limbs (pm_data_layout (pp_memories (pk_program s) ! m))"
  shows "\<exists>s'. store_memory_words m (pp_memories (pk_program s) ! m) lane ws s = Some (s', Inr ()) \<and> goes_on s s'
    \<and> (\<forall>l < pk_lanes s. lane_state s' l = (if l = lane then drive_words (pk_program s) m ws (lane_state s l) else lane_state s l))"
  using assms
proof (induction ws arbitrary: s)
  case (Cons x ws)
  obtain a w where x: "x = (a, w)" by (cases x)
  obtain s1 where s1: "store_memory s m lane a w = Some s1" "goes_on s s1"
    "\<forall>l < pk_lanes s. lane_state s1 l = (if l = lane then drive_word (pk_program s) m a (lval w) (lane_state s l) else lane_state s l)"
    using store_memory_drives [OF Cons.prems(1-3), of a w] Cons.prems(4) x by auto
  have eq: "pk_program s1 = pk_program s" "pk_lanes s1 = pk_lanes s" using s1(2) by (simp_all add: goes_on_def)
  obtain s2 where s2: "store_memory_words m (pp_memories (pk_program s) ! m) lane ws s1 = Some (s2, Inr ())" "goes_on s1 s2"
    "\<forall>l < pk_lanes s. lane_state s2 l = (if l = lane then drive_words (pk_program s) m ws (lane_state s1 l) else lane_state s1 l)"
    using Cons.IH [of s1, unfolded eq] Cons.prems goes_onD(4) [OF s1(2)] by auto
  have "lane_state s2 l = (if l = lane then drive_words (pk_program s) m (x # ws) (lane_state s l) else lane_state s l)"
    if "l < pk_lanes s" for l
    using s1(3) s2(3) that x by (simp add: drive_words_def)
  with s1(1) s2(1) goes_on_trans [OF s1(2) s2(2)] Cons.prems(4) x show ?case by auto
qed (simp add: drive_words_def)

lemma store_memory_lanes_ok:
  assumes "goes_on s s" "m < memory_count s" "distinct (map fst lws)"
    and "\<forall>(lane, ws) \<in> set lws. lane < pk_lanes s \<and> length ws = pm_depth (pp_memories (pk_program s) ! m)
      \<and> (\<forall>w \<in> set ws. length w = pl_limbs (pm_data_layout (pp_memories (pk_program s) ! m)))"
  shows "\<exists>s'. store_memory_lanes m (pp_memories (pk_program s) ! m) lws s = Some (s', Inr ()) \<and> goes_on s s'
    \<and> (\<forall>l < pk_lanes s. lane_state s' l = (case map_of lws l of None \<Rightarrow> lane_state s l
        | Some ws \<Rightarrow> drive_words (pk_program s) m (enumerate 0 ws) (lane_state s l)))"
  using assms
proof (induction lws arbitrary: s)
  case (Cons x lws)
  obtain lane ws where x: "x = (lane, ws)" by (cases x)
  have ok: "lane < pk_lanes s" "length ws = pm_depth (pp_memories (pk_program s) ! m)"
    "\<forall>(a, w) \<in> set (enumerate 0 ws). a < pm_depth (pp_memories (pk_program s) ! m)
      \<and> length w = pl_limbs (pm_data_layout (pp_memories (pk_program s) ! m))"
    using Cons.prems(4) x by (auto simp: in_set_enumerate_eq)
  obtain s1 where s1: "store_memory_words m (pp_memories (pk_program s) ! m) lane (enumerate 0 ws) s = Some (s1, Inr ())" "goes_on s s1"
    "\<forall>l < pk_lanes s. lane_state s1 l = (if l = lane then drive_words (pk_program s) m (enumerate 0 ws) (lane_state s l) else lane_state s l)"
    using store_memory_words_ok [OF Cons.prems(1,2) ok(1,3)] by blast
  have eq: "pk_program s1 = pk_program s" "pk_lanes s1 = pk_lanes s" using s1(2) by (simp_all add: goes_on_def)
  obtain s2 where s2: "store_memory_lanes m (pp_memories (pk_program s) ! m) lws s1 = Some (s2, Inr ())" "goes_on s1 s2"
    "\<forall>l < pk_lanes s. lane_state s2 l = (case map_of lws l of None \<Rightarrow> lane_state s1 l
        | Some ws \<Rightarrow> drive_words (pk_program s) m (enumerate 0 ws) (lane_state s1 l))"
    using Cons.IH [of s1, unfolded eq] Cons.prems goes_onD(4) [OF s1(2)] by auto
  have "lane \<notin> fst ` set lws" using Cons.prems(3) x by simp
  then have "map_of lws lane = None" by (simp add: map_of_eq_None_iff)
  then have "lane_state s2 l = (case map_of (x # lws) l of None \<Rightarrow> lane_state s l
      | Some ws \<Rightarrow> drive_words (pk_program s) m (enumerate 0 ws) (lane_state s l))" if "l < pk_lanes s" for l
    using s1(3) s2(3) that x by (auto split: option.splits)
  with s1(1) s2(1) goes_on_trans [OF s1(2) s2(2)] ok(2) x show ?case by simp
qed simp

lemma set_memory_index_limbs_ok:
  assumes s: "simulator_ok s" and m: "m < memory_count s" and len: "length lws = pk_lanes s"
    and words: "\<forall>ws \<in> set lws. length ws = pm_depth (pp_memories (pk_program s) ! m)
      \<and> (\<forall>w \<in> set ws. length w = pl_limbs (pm_data_layout (pp_memories (pk_program s) ! m)))"
  shows "\<exists>s'. set_memory_index_limbs m lws s = Some (s', Inr ()) \<and> goes_on s s'
    \<and> (\<forall>l < pk_lanes s. lane_state s' l =
        settle_spec (pk_program s) (drive_words (pk_program s) m (enumerate 0 (lws ! l)) (lane_state s l)))"
proof -
  have "\<forall>(lane, ws) \<in> set (enumerate 0 lws). lane < pk_lanes s \<and> length ws = pm_depth (pp_memories (pk_program s) ! m)
      \<and> (\<forall>w \<in> set ws. length w = pl_limbs (pm_data_layout (pp_memories (pk_program s) ! m)))"
    using len words by (auto simp: in_set_enumerate_eq)
  then obtain s1 where s1: "store_memory_lanes m (pp_memories (pk_program s) ! m) (enumerate 0 lws) s = Some (s1, Inr ())" "goes_on s s1"
    "\<forall>l < pk_lanes s. lane_state s1 l = (case map_of (enumerate 0 lws) l of None \<Rightarrow> lane_state s l
        | Some ws \<Rightarrow> drive_words (pk_program s) m (enumerate 0 ws) (lane_state s l))"
    using store_memory_lanes_ok [OF simulator_goes_on [OF s] m, of "enumerate 0 lws"] by auto
  obtain s2 where "then_settle (Some (s1, Inr ())) = Some (s2, Inr ())" "goes_on s s2"
    "\<forall>l < pk_lanes s. lane_state s2 l = settle_spec (pk_program s) (lane_state s1 l)"
    using then_settle_ok [OF s refl s1(2)] by blast
  with s1 m len show ?thesis by (auto simp: set_memory_index_limbs_def vec_get_def map_of_enumerate)
qed

text \<open>What the words are afterwards.\<close>

lemma drive_words_memory:
  assumes "distinct (map fst ws)"
  shows "drive_words p m ws (S, R) = (S, R(m := \<lambda>a. case map_of (map (apfst int) ws) a of None \<Rightarrow> R m a
     | Some w \<Rightarrow> take_bit (pl_width (pm_data_layout (pp_memories p ! m))) (lval w)))"
  using assms
proof (induction ws arbitrary: R)
  case (Cons x ws)
  obtain a w where x: "x = (a, w)" by (cases x)
  have "map_of (map (apfst int) ws) (int a) = None" using Cons.prems x
    by (force simp: map_of_eq_None_iff)
  with Cons show ?case by (auto simp: x drive_words_def drive_word_def fun_eq_iff split: option.splits)
qed (simp add: drive_words_def)

section \<open>Snapshots\<close>

lemma restore_storage_fails_iff:
  "(\<exists>e. snd (restore_storage st s) = Inl e) \<longleftrightarrow>
     \<not> (length (sg_values st) = pp_total_signal_words (pk_program s) * pk_lanes s
      \<and> length (sg_memories st) = pp_total_memory_words_per_lane (pk_program s) * pk_lanes s)"
  by (auto simp: restore_storage_def Let_def)

lemma lane_state_storage:
  assumes "pk_program s' = pk_program s" "pk_lanes s' = pk_lanes s" "pk_values s' = pk_values s" "pk_memories s' = pk_memories s"
  shows "lane_state s' = lane_state s"
  using assms by (intro ext) (simp add: lane_state_def lane_signal_def layout_value_def lane_memory_def memory_words_def
      memory_word_index_def Let_def fun_eq_iff)

lemma restore_snapshot:
  assumes "simulator_ok s" "goes_on s s'"
  shows "\<exists>s2. restore_storage (snapshot_storage s) s' = (s2, Inr ()) \<and> goes_on s s2
    \<and> lane_state s2 = lane_state s \<and> snapshot_storage s2 = snapshot_storage s"
proof -
  let ?s = "s'\<lparr>pk_values := pk_values s, pk_memories := pk_memories s\<rparr>"
  have s: "storage_ok s" using assms(1) by (simp add: simulator_ok_def goes_on_def)
  have "restore_storage (snapshot_storage s) s' = (?s, Inr ())"
    using s assms(2) by (simp add: restore_storage_def snapshot_storage_def storage_ok_def goes_on_def)
  moreover have "goes_on s ?s" using s assms(2) by (auto simp: goes_on_def storage_ok_def capture_ok_def)
  moreover have "lane_state ?s = lane_state s" using assms(2) by (intro lane_state_storage) (simp_all add: goes_on_def)
  ultimately show ?thesis by (auto simp: snapshot_storage_def)
qed

end
