(* ===== verification/Packed_Reach.thy ===== *)
theory Packed_Reach
  imports Packed_Drive
begin

text \<open>
  The states a client can bring a packed simulator into, and the invariant of them: an operation
  that reports an error, after it stored some of its values, leaves the simulator well formed.
\<close>

section \<open>Reachable simulators\<close>

inductive packed_reachable :: "packed_program \<Rightarrow> packed_simulator \<Rightarrow> bool" for p where
  built: "new_packed_simulator p lanes = Some (Inr s) \<Longrightarrow> packed_reachable p s"
| driven: "packed_reachable p s \<Longrightarrow> set_signal_limbs x vs s = Some (s', r) \<Longrightarrow> packed_reachable p s'"
| driven_raw: "packed_reachable p s \<Longrightarrow> set_signals_replicated_raw xvs s = Some (s', r) \<Longrightarrow> packed_reachable p s'"
| written: "packed_reachable p s \<Longrightarrow> set_memory_limbs x ws s = Some (s', r) \<Longrightarrow> packed_reachable p s'"
| restored: "packed_reachable p s \<Longrightarrow> restore_storage st s = (s', r) \<Longrightarrow> packed_reachable p s'"
| settled: "packed_reachable p s \<Longrightarrow> packed_eval_combinational s = Some s' \<Longrightarrow> packed_reachable p s'"
| edge: "packed_reachable p s \<Longrightarrow> tick_from_evaluated_no_post_eval s = Some s' \<Longrightarrow> packed_reachable p s'"
| ticked: "packed_reachable p s \<Longrightarrow> packed_tick s = Some s' \<Longrightarrow> packed_reachable p s'"
| ticked_many: "packed_reachable p s \<Longrightarrow> packed_tick_many n s = Some s' \<Longrightarrow> packed_reachable p s'"

definition program_ok :: "packed_program \<Rightarrow> bool" where
  "program_ok p \<longleftrightarrow> layouts_wf p \<and> streams_ok p \<and> (\<forall>i \<in> ran (pp_top_signal_indices p). i < length (pp_signals p))"

text \<open>An operation that always returns, and leaves a simulator that goes on.\<close>

definition returns :: "packed_simulator \<Rightarrow> sim_result \<Rightarrow> bool" where
  "returns s res \<longleftrightarrow> (\<exists>s' r. res = Some (s', r) \<and> goes_on s s')"

lemma returns_now [intro, simp]: "goes_on s s' \<Longrightarrow> returns s (Some (s', r))"
  by (simp add: returns_def)

lemma returns_trans: "returns s' res \<Longrightarrow> goes_on s s' \<Longrightarrow> returns s res"
  using goes_on_trans by (fastforce simp: returns_def)

lemma returns_settle:
  assumes "simulator_ok s" "returns s res"
  shows "returns s (then_settle res)"
proof -
  obtain s1 r where r: "res = Some (s1, r)" "goes_on s s1" using assms(2) by (auto simp: returns_def)
  obtain s2 where "packed_eval_combinational s1 = Some s2" "goes_on s1 s2"
    using settle_run_after [OF assms(1) r(2)] by (auto simp: lane_run_def)
  with r goes_on_trans [OF r(2)] show ?thesis by (cases r) (auto simp: then_settle_def)
qed

lemma enumerate_below: "length xs = n \<Longrightarrow> \<forall>(i, x) \<in> set (enumerate 0 xs). i < n"
  by (auto simp: in_set_enumerate_eq)

lemma store_lanes_returns:
  assumes "goes_on s s" "i < signal_count s" "\<forall>(lane, v) \<in> set vs. lane < pk_lanes s"
  shows "returns s (store_lanes (signal_layout s i) vs s)"
  using assms
proof (induction vs arbitrary: s)
  case (Cons x vs)
  obtain lane v where x: "x = (lane, v)" by (cases x)
  obtain s1 where s1: "store_layout s (signal_layout s i) lane v = Some s1" "goes_on s s1"
    using store_layout_drives [OF Cons.prems(1,2), of lane v] Cons.prems(3) x by auto
  have eq: "pk_program s1 = pk_program s" "pk_lanes s1 = pk_lanes s" using s1(2) by (simp_all add: goes_on_def)
  have "returns s1 (store_lanes (signal_layout s i) vs s1)"
    using Cons.IH [of s1, unfolded eq] Cons.prems goes_onD(4) [OF s1(2)] by auto
  from returns_trans [OF this s1(2)] s1(1) Cons.prems(1) x show ?case by auto
qed simp

lemma store_memory_words_returns:
  assumes "goes_on s s" "m < memory_count s" "lane < pk_lanes s"
    and "\<forall>(a, w) \<in> set ws. a < pm_depth (pp_memories (pk_program s) ! m)"
  shows "returns s (store_memory_words m (pp_memories (pk_program s) ! m) lane ws s)"
  using assms
proof (induction ws arbitrary: s)
  case (Cons x ws)
  obtain a w where x: "x = (a, w)" by (cases x)
  obtain s1 where s1: "store_memory s m lane a w = Some s1" "goes_on s s1"
    using store_memory_drives [OF Cons.prems(1-3), of a w] Cons.prems(4) x by auto
  have eq: "pk_program s1 = pk_program s" "pk_lanes s1 = pk_lanes s" using s1(2) by (simp_all add: goes_on_def)
  have "returns s1 (store_memory_words m (pp_memories (pk_program s) ! m) lane ws s1)"
    using Cons.IH [of s1, unfolded eq] Cons.prems goes_onD(4) [OF s1(2)] by auto
  from returns_trans [OF this s1(2)] s1(1) Cons.prems(1) x show ?case by auto
qed simp

lemma store_memory_lanes_returns:
  assumes "goes_on s s" "m < memory_count s" "\<forall>(lane, ws) \<in> set lws. lane < pk_lanes s"
  shows "returns s (store_memory_lanes m (pp_memories (pk_program s) ! m) lws s)"
  using assms
proof (induction lws arbitrary: s)
  case (Cons x lws)
  obtain lane ws where x: "x = (lane, ws)" by (cases x)
  show ?case
  proof (cases "length ws = pm_depth (pp_memories (pk_program s) ! m)")
    case True
    have "returns s (store_memory_words m (pp_memories (pk_program s) ! m) lane (enumerate 0 ws) s)"
      using store_memory_words_returns [OF Cons.prems(1,2) _ enumerate_below [OF True]] Cons.prems(3) x by simp
    then obtain s1 r where s1: "store_memory_words m (pp_memories (pk_program s) ! m) lane (enumerate 0 ws) s = Some (s1, r)"
      "goes_on s s1" by (auto simp: returns_def)
    have eq: "pk_program s1 = pk_program s" "pk_lanes s1 = pk_lanes s" using s1(2) by (simp_all add: goes_on_def)
    have "returns s1 (store_memory_lanes m (pp_memories (pk_program s) ! m) lws s1)"
      using Cons.IH [of s1, unfolded eq] Cons.prems goes_onD(4) [OF s1(2)] by auto
    from returns_trans [OF this s1(2)] s1 True x show ?thesis by (cases r) auto
  qed (use Cons.prems(1) x in simp)
qed simp

text \<open>Every operation of the interface returns.\<close>

lemma index_in_range:
  "program_ok (pk_program s) \<Longrightarrow> signal_index s x = Inr i \<Longrightarrow> i < signal_count s"
  by (auto simp: program_ok_def signal_index_def pp_signal_index_def ran_def split: option.splits)

lemma memory_index_in_range: "memory_signal_index s x = Inr m \<Longrightarrow> m < memory_count s"
  using position_Some by (auto simp: memory_signal_index_def split: option.splits)

lemma or_fail_returns:
  assumes "goes_on s s" "\<And>x. r = Inr x \<Longrightarrow> returns s (k x)"
  shows "returns s (or_fail s r k)"
  using assms by (cases r) (auto simp: or_fail_def)

lemma set_signal_limbs_returns:
  assumes s: "simulator_ok s" and p: "program_ok (pk_program s)"
  shows "returns s (set_signal_limbs x vs s)"
  unfolding set_signal_limbs_def
proof (rule or_fail_returns [OF simulator_goes_on [OF s]])
  fix i assume "signal_index s x = Inr i"
  then have i: "i < signal_count s" by (rule index_in_range [OF p])
  have "returns s (store_lanes (signal_layout s i) (enumerate 0 vs) s)" if "length vs = pk_lanes s"
    by (rule store_lanes_returns [OF simulator_goes_on [OF s] i enumerate_below [OF that]])
  with i returns_settle [OF s] simulator_goes_on [OF s] show "returns s (set_packed_signal_limbs i vs s)"
    by (auto simp: set_packed_signal_limbs_def vec_get_def)
qed

lemma encoded_length:
  "storage_ok s \<Longrightarrow> i < signal_count s \<Longrightarrow> length (encode_u128_limbs v (pl_ty (signal_layout s i))) = pl_limbs (signal_layout s i)"
  using storage_signal(1) [of s i] by (simp add: layout_ok_def)

lemma encoded_value:
  "storage_ok s \<Longrightarrow> i < signal_count s \<Longrightarrow>
     lval (encode_u128_limbs v (pl_ty (signal_layout s i))) = take_bit (pl_width (signal_layout s i)) (uint v)"
  using storage_signal(1) [of s i] by (simp add: layout_ok_def width_ok_def lval_encode_u128_limbs)

lemma encode_signals_ok:
  assumes "program_ok (pk_program s)" "storage_ok s"
  shows "\<exists>r. encode_signals s xvs = Some r \<and> (\<forall>ivs. r = Inr ivs \<longrightarrow>
    list_all2 (\<lambda>(x, v) (i, ls). signal_index s x = Inr i \<and> i < signal_count s
      \<and> ls = encode_u128_limbs v (pl_ty (signal_layout s i))) xvs ivs)"
proof (induction xvs)
  case (Cons xv xvs)
  obtain x v where x: "xv = (x, v)" by (cases xv)
  show ?case
  proof (cases "signal_index s x")
    case (Inr i)
    then have i: "i < signal_count s" by (rule index_in_range [OF assms(1)])
    from Cons.IH obtain r where r: "encode_signals s xvs = Some r" "\<forall>ivs. r = Inr ivs \<longrightarrow>
      list_all2 (\<lambda>(x, v) (i, ls). signal_index s x = Inr i \<and> i < signal_count s
        \<and> ls = encode_u128_limbs v (pl_ty (signal_layout s i))) xvs ivs" by blast
    with Inr i x show ?thesis by (cases r) (auto simp: vec_get_def)
  qed (simp add: x)
qed simp

text \<open>Driving several signals of all lanes in order.\<close>

definition drive_all :: "packed_program \<Rightarrow> (nat \<times> int) list \<Rightarrow> lane_state \<Rightarrow> lane_state" where
  "drive_all p = fold (\<lambda>(i, v). drive p i v)"

lemma drive_encoded_ok:
  assumes "goes_on s s" "\<forall>(i, ls) \<in> set ivs. i < signal_count s \<and> length ls = pl_limbs (signal_layout s i)"
  shows "\<exists>s'. exec_all (\<lambda>(i, v). set_packed_signal_replicated_limbs i v) ivs s = Some s' \<and> goes_on s s'
    \<and> (\<forall>l < pk_lanes s. lane_state s' l = drive_all (pk_program s) (map (apsnd lval) ivs) (lane_state s l))"
  using assms
proof (induction ivs arbitrary: s)
  case (Cons iv ivs)
  obtain i v where iv: "iv = (i, v)" by (cases iv)
  obtain s1 where s1: "set_packed_signal_replicated_limbs i v s = Some s1" "goes_on s s1"
    "\<forall>l < pk_lanes s. lane_state s1 l = drive (pk_program s) i (lval v) (lane_state s l)"
    using set_replicated_limbs_ok [OF Cons.prems(1), of i v] Cons.prems(2) iv by auto
  have eq: "pk_program s1 = pk_program s" "pk_lanes s1 = pk_lanes s" using s1(2) by (simp_all add: goes_on_def)
  obtain s2 where s2: "exec_all (\<lambda>(i, v). set_packed_signal_replicated_limbs i v) ivs s1 = Some s2" "goes_on s1 s2"
    "\<forall>l < pk_lanes s. lane_state s2 l = drive_all (pk_program s) (map (apsnd lval) ivs) (lane_state s1 l)"
    using Cons.IH [of s1, unfolded eq] Cons.prems(2) goes_onD(4) [OF s1(2)] by auto
  with s1 goes_on_trans [OF s1(2) s2(2)] iv show ?case by (auto simp: drive_all_def)
qed (simp add: drive_all_def)

lemma set_signals_raw_returns:
  assumes s: "simulator_ok s" and p: "program_ok (pk_program s)"
  shows "returns s (set_signals_replicated_raw xvs s)"
proof -
  have st: "storage_ok s" using simulator_goes_on [OF s] by (rule goes_onD)
  obtain r where r: "encode_signals s xvs = Some r" "\<And>ivs. r = Inr ivs \<Longrightarrow>
    list_all2 (\<lambda>(x, v) (i, ls). signal_index s x = Inr i \<and> i < signal_count s
      \<and> ls = encode_u128_limbs v (pl_ty (signal_layout s i))) xvs ivs"
    using encode_signals_ok [OF p st] by blast
  have "returns s (or_fail s r (\<lambda>encoded. do { s' \<leftarrow> exec_all (\<lambda>(i, v). set_packed_signal_replicated_limbs i v) encoded s; Some (s', Inr ()) }))"
  proof (rule or_fail_returns [OF simulator_goes_on [OF s]])
    fix ivs assume "r = Inr ivs"
    from r(2) [OF this] have "\<forall>(i, ls) \<in> set ivs. i < signal_count s \<and> length ls = pl_limbs (signal_layout s i)"
      by (induction rule: list_all2_induct) (use encoded_length [OF st] in auto)
    from drive_encoded_ok [OF simulator_goes_on [OF s] this]
    show "returns s (do { s' \<leftarrow> exec_all (\<lambda>(i, v). set_packed_signal_replicated_limbs i v) ivs s; Some (s', Inr ()) })" by auto
  qed
  with r(1) show ?thesis by (simp add: set_signals_replicated_raw_def)
qed

lemma set_memory_limbs_returns:
  assumes s: "simulator_ok s"
  shows "returns s (set_memory_limbs x lws s)"
  unfolding set_memory_limbs_def
proof (rule or_fail_returns [OF simulator_goes_on [OF s]])
  fix m assume "memory_signal_index s x = Inr m"
  then have m: "m < memory_count s" by (rule memory_index_in_range)
  have "returns s (store_memory_lanes m (pp_memories (pk_program s) ! m) (enumerate 0 lws) s)" if "length lws = pk_lanes s"
    by (rule store_memory_lanes_returns [OF simulator_goes_on [OF s] m enumerate_below [OF that]])
  with m returns_settle [OF s] simulator_goes_on [OF s] show "returns s (set_memory_index_limbs m lws s)"
    by (auto simp: set_memory_index_limbs_def vec_get_def)
qed

lemma restore_goes_on:
  assumes "simulator_ok s" "restore_storage st s = (s', r)"
  shows "goes_on s s'"
  using assms by (auto simp: restore_storage_def simulator_ok_def goes_on_def storage_ok_def capture_ok_def Let_def
      split: if_splits)

lemma new_packed_simulator_lanes: "new_packed_simulator p lanes = Some (Inr s) \<Longrightarrow> lanes \<noteq> 0"
  by (auto simp: new_packed_simulator_def split: if_splits)

lemma returnsD: "returns s res \<Longrightarrow> res = Some (s', r) \<Longrightarrow> goes_on s s'"
  by (auto simp: returns_def)

lemma lane_runD: "lane_run s F res \<Longrightarrow> res = Some s' \<Longrightarrow> goes_on s s'"
  by (auto simp: lane_run_def)

lemma packed_reachable_ok:
  assumes "packed_reachable p s" "program_ok p"
  shows "simulator_ok s \<and> pk_program s = p"
proof -
  have keep: "simulator_ok s' \<and> pk_program s' = p" if "simulator_ok s \<and> pk_program s = p" "goes_on s s'" for s s'
    using that simulator_ok_goes_on goes_onD(2) by auto
  from assms show ?thesis
  proof (induction rule: packed_reachable.induct)
    case (built lanes s)
    then show ?case using new_packed_simulator_runs [of p lanes] new_packed_simulator_lanes by (auto simp: program_ok_def)
  next
    case (driven s x vs s' r)
    then show ?case using returnsD [OF set_signal_limbs_returns] keep by blast
  next
    case (driven_raw s xvs s' r)
    then show ?case using returnsD [OF set_signals_raw_returns] keep by blast
  next
    case (written s x ws s' r)
    then show ?case using returnsD [OF set_memory_limbs_returns] keep by blast
  next
    case (restored s st s' r)
    then show ?case using restore_goes_on keep by blast
  next
    case (settled s s')
    then show ?case using lane_runD [OF settle_run] keep by blast
  next
    case (edge s s')
    then show ?case using lane_runD [OF edge_run] keep by blast
  next
    case (ticked s s')
    then show ?case using lane_runD [OF tick_run] keep by blast
  next
    case (ticked_many s n s')
    then show ?case using lane_runD [OF tick_many_run] keep by blast
  qed
qed

end
