(* ===== verification/Packed_Order.thy ===== *)
theory Packed_Order
  imports Packed_Reach
begin

text \<open>
  When settling is final: a combinational stream in which no assignment reads a signal that is
  assigned in its own packet or later, each signal once, leaves a state in which every
  assignment holds, and running it again changes nothing.
\<close>

section \<open>Ordered streams\<close>

fun op_assigns :: "packed_op \<Rightarrow> nat list" where
  "op_assigns (Assign d e) = [d]"
| "op_assigns _ = []"

definition stream_assigns :: "packed_packet list \<Rightarrow> nat set" where
  "stream_assigns ps = set (concat (map op_assigns (concat ps)))"

fun op_reads_none :: "nat set \<Rightarrow> packed_op \<Rightarrow> bool" where
  "op_reads_none D (Assign d e) \<longleftrightarrow> pe_signal_deps e \<inter> D = {}"
| "op_reads_none D _ \<longleftrightarrow> False"

fun ordered_comb :: "packed_packet list \<Rightarrow> bool" where
  "ordered_comb [] \<longleftrightarrow> True"
| "ordered_comb (ops # rest) \<longleftrightarrow> (\<forall>x \<in> set ops. op_reads_none (stream_assigns (ops # rest)) x)
     \<and> distinct (concat (map op_assigns ops)) \<and> set (concat (map op_assigns ops)) \<inter> stream_assigns rest = {}
     \<and> ordered_comb rest"

fun op_holds :: "lane_state \<Rightarrow> packed_op \<Rightarrow> bool" where
  "op_holds st (Assign d e) \<longleftrightarrow> fst st d = eval_in st e"
| "op_holds st _ \<longleftrightarrow> False"

definition stream_holds :: "packed_packet list \<Rightarrow> lane_state \<Rightarrow> bool" where
  "stream_holds ps st \<longleftrightarrow> (\<forall>x \<in> set (concat ps). op_holds st x)"

section \<open>An expression depends on the signals it reads\<close>

lemma node_value_cong:
  assumes "\<And>v. v \<in> set_packed_kind k \<Longrightarrow> f v = g v" "\<And>i. k = PSignal i \<Longrightarrow> S i = S' i"
  shows "node_value S R (map_packed_kind f k) = node_value S' R (map_packed_kind g k)"
proof -
  have eq: "map_packed_kind f k = map_packed_kind g k" by (rule packed_kind.map_cong0) (rule assms(1))
  have "node_value S R k' = node_value S' R k'" if "\<forall>i. k' = PSignal i \<longrightarrow> S i = S' i" for k'
    using that by (cases k') simp_all
  moreover have "\<forall>i. map_packed_kind g k = PSignal i \<longrightarrow> S i = S' i" using assms(2) by (cases k) auto
  ultimately show ?thesis unfolding eq by blast
qed

lemma pe_value_cong:
  "\<forall>i \<in> pe_signal_deps e. S i = S' i \<Longrightarrow> pe_value S R e = pe_value S' R e"
proof (induction e)
  case (PExpr k ty)
  have sub: "pe_signal_deps e \<subseteq> pe_signal_deps (PExpr k ty)" if "e \<in> set_packed_kind k" for e
    using that by (cases k) auto
  have "node_value S R (map_packed_kind (\<lambda>e. (pe_value S R e, pe_width e)) k) =
      node_value S' R (map_packed_kind (\<lambda>e. (pe_value S' R e, pe_width e)) k)"
  proof (rule node_value_cong)
    fix e assume "e \<in> set_packed_kind k"
    with PExpr.IH [OF this] PExpr.prems sub show "(pe_value S R e, pe_width e) = (pe_value S' R e, pe_width e)" by blast
  qed (use PExpr.prems in auto)
  then show ?case by simp
qed

section \<open>Running an ordered stream\<close>

lemma holds_again: "stream_holds ps st \<Longrightarrow> block_spec p ps st = st"
proof (induction ps)
  case (Cons ops ps)
  have "fold (op_spec p st) xs st = st" if "\<forall>x \<in> set xs. op_holds st x" for xs
    using that
  proof (induction xs)
    case (Cons x xs)
    obtain S R where st: "st = (S, R)" by (cases st)
    have "op_holds st x" using Cons.prems by simp
    then have "op_spec p st x st = st" by (cases x) (auto simp: st fun_upd_idem_iff)
    with Cons show ?case by simp
  qed simp
  from this [of ops] have "packet_spec p ops st = st" using Cons.prems by (simp add: stream_holds_def packet_spec_def)
  moreover have "block_spec p ps st = st" by (rule Cons.IH) (use Cons.prems in \<open>auto simp: stream_holds_def\<close>)
  ultimately show ?case by (simp add: block_spec_def)
qed (simp add: block_spec_def)

text \<open>Operations that read none of the signals in \<open>D\<close>, and assign only signals in \<open>D\<close>.\<close>

lemma run_ops:
  assumes "\<forall>x \<in> set xs. op_reads_none D x" "distinct (concat (map op_assigns xs))" "set (concat (map op_assigns xs)) \<subseteq> D"
  shows "\<exists>S'. fold (op_spec p (S0, R)) xs (S, R) = (S', R) \<and> (\<forall>i. i \<notin> set (concat (map op_assigns xs)) \<longrightarrow> S' i = S i)
    \<and> (\<forall>d e. Assign d e \<in> set xs \<longrightarrow> S' d = eval_in (S0, R) e)"
  using assms
proof (induction xs arbitrary: S)
  case (Cons x xs)
  then obtain d e where x: "x = Assign d e" by (cases x) auto
  have "\<exists>S'. fold (op_spec p (S0, R)) xs (S(d := eval_in (S0, R) e), R) = (S', R)
    \<and> (\<forall>i. i \<notin> set (concat (map op_assigns xs)) \<longrightarrow> S' i = (S(d := eval_in (S0, R) e)) i)
    \<and> (\<forall>d' e'. Assign d' e' \<in> set xs \<longrightarrow> S' d' = eval_in (S0, R) e')"
    by (rule Cons.IH) (use Cons.prems x in auto)
  then obtain S' where S': "fold (op_spec p (S0, R)) xs (S(d := eval_in (S0, R) e), R) = (S', R)"
    "\<And>i. i \<notin> set (concat (map op_assigns xs)) \<Longrightarrow> S' i = (S(d := eval_in (S0, R) e)) i"
    "\<And>d' e'. Assign d' e' \<in> set xs \<Longrightarrow> S' d' = eval_in (S0, R) e'" by blast
  have "d \<notin> set (concat (map op_assigns xs))" using Cons.prems(2) x by simp
  with S'(2) [of d] have "S' d = eval_in (S0, R) e" by simp
  with S' x show ?case by (intro exI [of _ S']) auto
qed simp

lemma ordered_assign: "\<forall>x \<in> set ops. op_reads_none D x \<Longrightarrow> x \<in> set ops \<Longrightarrow> \<exists>d e. x = Assign d e \<and> pe_signal_deps e \<inter> D = {}"
  by (cases x) force+

lemma run_ordered:
  assumes "ordered_comb ps"
  shows "\<exists>S'. block_spec p ps (S, R) = (S', R) \<and> (\<forall>i. i \<notin> stream_assigns ps \<longrightarrow> S' i = S i) \<and> stream_holds ps (S', R)"
  using assms
proof (induction ps arbitrary: S)
  case (Cons ops rest)
  let ?D = "stream_assigns (ops # rest)" and ?d = "set (concat (map op_assigns ops))"
  have sub: "?d \<subseteq> ?D" "stream_assigns rest \<subseteq> ?D" by (auto simp: stream_assigns_def)
  have reads: "\<forall>x \<in> set ops. op_reads_none ?D x" and dis: "?d \<inter> stream_assigns rest = {}"
    and dist: "distinct (concat (map op_assigns ops))" and rest: "ordered_comb rest"
    using Cons.prems by (simp_all del: set_concat)
  obtain S1 where S1: "packet_spec p ops (S, R) = (S1, R)" "\<And>i. i \<notin> ?d \<Longrightarrow> S1 i = S i"
    "\<And>d e. Assign d e \<in> set ops \<Longrightarrow> S1 d = eval_in (S, R) e"
    using run_ops [OF reads dist sub(1), of p S R S] unfolding packet_spec_def by blast
  obtain S2 where S2: "block_spec p rest (S1, R) = (S2, R)" "\<And>i. i \<notin> stream_assigns rest \<Longrightarrow> S2 i = S1 i"
    "stream_holds rest (S2, R)" using Cons.IH [OF rest, of S1] by blast
  have keep: "S2 i = S i" if "i \<notin> ?D" for i
    using S1(2) [OF contra_subsetD [OF sub(1) that]] S2(2) [OF contra_subsetD [OF sub(2) that]] by simp
  have "op_holds (S2, R) x" if x: "x \<in> set ops" for x
  proof -
    obtain d e where d: "x = Assign d e" "pe_signal_deps e \<inter> ?D = {}" using ordered_assign [OF reads x] by blast
    then have "d \<in> ?d" using x by force
    then have "d \<notin> stream_assigns rest" using dis by blast
    then have "S2 d = S1 d" by (rule S2(2))
    moreover have "pe_value S R e = pe_value S2 R e"
    proof (rule pe_value_cong, rule ballI)
      fix i assume "i \<in> pe_signal_deps e"
      with d(2) have "i \<notin> ?D" by blast
      then show "S i = S2 i" by (rule keep [symmetric])
    qed
    ultimately show ?thesis using S1(3) x d by (simp add: eval_in_def)
  qed
  with S2(3) have "stream_holds (ops # rest) (S2, R)" by (auto simp: stream_holds_def)
  with S1(1) S2(1) keep show ?case by (auto simp: block_spec_def)
qed (simp add: block_spec_def stream_holds_def)

lemma settle_holds:
  assumes "ordered_comb (st_comb (pp_streams p))" "st_async_reset_comb (pp_streams p) = []"
  shows "stream_holds (st_comb (pp_streams p)) (settle_spec p st)"
    and "settle_spec p (settle_spec p st) = settle_spec p st"
    and "snd (settle_spec p st) = snd st"
    and "i \<notin> stream_assigns (st_comb (pp_streams p)) \<Longrightarrow> fst (settle_spec p st) i = fst st i"
proof -
  obtain S R where st: "st = (S, R)" by (cases st)
  have none: "block_spec p (st_async_reset_comb (pp_streams p)) x = x" for x using assms(2) by (simp add: block_spec_def)
  obtain S' where S': "block_spec p (st_comb (pp_streams p)) (S, R) = (S', R)"
    "\<forall>i. i \<notin> stream_assigns (st_comb (pp_streams p)) \<longrightarrow> S' i = S i" "stream_holds (st_comb (pp_streams p)) (S', R)"
    using run_ordered [OF assms(1)] by blast
  then show "stream_holds (st_comb (pp_streams p)) (settle_spec p st)" "snd (settle_spec p st) = snd st"
    "settle_spec p (settle_spec p st) = settle_spec p st"
    using holds_again by (simp_all add: settle_spec_def none st)
  from S' show "i \<notin> stream_assigns (st_comb (pp_streams p)) \<Longrightarrow> fst (settle_spec p st) i = fst st i"
    by (simp add: settle_spec_def none st)
qed

lemma ticks_fuse:
  assumes "\<And>st. settle_spec p (settle_spec p st) = settle_spec p st" "0 < n"
  shows "(tick_spec p ^^ n) st = ((\<lambda>x. settle_spec p (edge_spec p x)) ^^ n) (settle_spec p st)"
  using assms(2)
proof (induction n rule: nat_induct_non_zero)
  case (Suc n)
  let ?y = "((\<lambda>x. settle_spec p (edge_spec p x)) ^^ n) (settle_spec p st)"
  have "settle_spec p ?y = ?y" using assms(1) Suc.hyps by (cases n) simp_all
  with Suc show ?case by (simp add: tick_spec_def)
qed (simp add: tick_spec_def)

text \<open>Packed ticks one after the other.\<close>

fun repeat_tick :: "nat \<Rightarrow> packed_simulator \<Rightarrow> packed_simulator option" where
  "repeat_tick 0 s = Some s"
| "repeat_tick (Suc n) s = do { s' \<leftarrow> packed_tick s; repeat_tick n s' }"

lemma repeat_tick_run:
  assumes "simulator_ok s"
  shows "lane_run s (tick_spec (pk_program s) ^^ n) (repeat_tick n s)"
  using assms
proof (induction n arbitrary: s)
  case 0
  then show ?case by (simp add: lane_run_def simulator_goes_on)
next
  case (Suc n)
  have "lane_run s' (tick_spec (pk_program s) ^^ n) (repeat_tick n s')" if "goes_on s s'" for s'
    using Suc.IH [OF simulator_ok_goes_on [OF Suc.prems that]] goes_onD(2) [OF that] by simp
  from lane_run_bind [OF tick_run [OF Suc.prems] this] show ?case by (simp add: funpow_Suc_right comp_def del: funpow.simps)
qed

end
