(* ===== verification/Cycle_Search.thy ===== *)
theory Cycle_Search
  imports Expr_Type
begin

text \<open>
  The depth-first cycle searches of crate \<open>rrtl-core\<close> (\<open>has_cycle\<close> and \<open>has_hierarchy_cycle\<close> in
  \<open>src/crates/rrtl-core/src/lib.rs\<close>) and the reachability loop of \<open>module_comb_port_deps\<close>.
  A \<open>HashSet\<close> is a list whose head is the last insertion, so \<open>visited\<close> is in finishing order;
  a \<open>HashMap\<close> of edge lists is an association list.  The recursion takes fuel; \<open>dfs_total\<close>
  shows that one more than the number of nodes is enough.
\<close>

section \<open>Edge maps\<close>

type_synonym 'a edges = "('a \<times> 'a list) list"

definition edge_keys :: "'a edges \<Rightarrow> 'a list" where
  "edge_keys g = map fst g"

definition edges_of :: "'a edges \<Rightarrow> 'a \<Rightarrow> 'a list" where
  "edges_of g s = (case map_of g s of None \<Rightarrow> [] | Some ds \<Rightarrow> ds)"

text \<open>\<open>entry(k).or_default().extend(ds)\<close>.\<close>

fun extend_entry :: "'a \<Rightarrow> 'a list \<Rightarrow> 'a edges \<Rightarrow> 'a edges" where
  "extend_entry k ds [] = [(k, ds)]"
| "extend_entry k ds ((k', ds') # g) =
     (if k' = k then (k, ds' @ ds) # g else (k', ds') # extend_entry k ds g)"

lemma edge_keys_extend: "set (edge_keys (extend_entry k ds g)) = insert k (set (edge_keys g))"
  by (induction k ds g rule: extend_entry.induct) (auto simp: edge_keys_def)

lemma edges_of_extend:
  "edges_of (extend_entry k ds g) s = edges_of g s @ (if s = k then ds else [])"
  by (induction k ds g rule: extend_entry.induct) (auto simp: edges_of_def)

section \<open>The search\<close>

fun dfs_deps :: "('a \<Rightarrow> 'a list \<Rightarrow> 'a list \<Rightarrow> (bool \<times> 'a list \<times> 'a list) option) \<Rightarrow> ('a \<Rightarrow> bool)
    \<Rightarrow> 'a list \<Rightarrow> 'a list \<Rightarrow> 'a list \<Rightarrow> (bool \<times> 'a list \<times> 'a list) option" where
  "dfs_deps rec guard [] visiting visited = Some (False, visiting, visited)"
| "dfs_deps rec guard (d # ds) visiting visited =
     (if guard d
      then do { (cycle, visiting', visited') \<leftarrow> rec d visiting visited;
                if cycle then Some (True, visiting', visited')
                else dfs_deps rec guard ds visiting' visited' }
      else dfs_deps rec guard ds visiting visited)"

fun dfs_cycle :: "nat \<Rightarrow> ('a \<Rightarrow> bool) \<Rightarrow> ('a \<Rightarrow> 'a list) \<Rightarrow> 'a \<Rightarrow> 'a list \<Rightarrow> 'a list
    \<Rightarrow> (bool \<times> 'a list \<times> 'a list) option" where
  "dfs_cycle 0 guard succ s visiting visited = None"
| "dfs_cycle (Suc n) guard succ s visiting visited =
     (if s \<in> set visited then Some (False, visiting, visited)
      else if s \<in> set visiting then Some (True, visiting, visited)
      else do { (cycle, visiting', visited') \<leftarrow>
                  dfs_deps (dfs_cycle n guard succ) guard (succ s) (s # visiting) visited;
                if cycle then Some (True, visiting', visited')
                else Some (False, removeAll s visiting', s # visited') })"

text \<open>\<open>has_cycle\<close> follows only edges to keys of the graph; \<open>has_hierarchy_cycle\<close> follows all.\<close>

definition has_cycle :: "'a edges \<Rightarrow> 'a \<Rightarrow> 'a list \<Rightarrow> 'a list \<Rightarrow> (bool \<times> 'a list \<times> 'a list) option" where
  "has_cycle g s visiting visited =
     dfs_cycle (Suc (length g)) (\<lambda>d. d \<in> set (edge_keys g)) (edges_of g) s visiting visited"

definition hierarchy_nodes :: "'a edges \<Rightarrow> 'a list" where
  "hierarchy_nodes g = edge_keys g @ concat (map snd g)"

definition has_hierarchy_cycle ::
  "'a edges \<Rightarrow> 'a \<Rightarrow> 'a list \<Rightarrow> 'a list \<Rightarrow> (bool \<times> 'a list \<times> 'a list) option" where
  "has_hierarchy_cycle g s visiting visited =
     dfs_cycle (Suc (Suc (length (hierarchy_nodes g)))) (\<lambda>d. True) (edges_of g) s visiting visited"

section \<open>Soundness: no cycle found means an evaluation order\<close>

text \<open>The visited nodes, newest first: the dependencies of each come after it.\<close>

fun topo :: "('a \<Rightarrow> bool) \<Rightarrow> ('a \<Rightarrow> 'a list) \<Rightarrow> 'a list \<Rightarrow> bool" where
  "topo guard succ [] \<longleftrightarrow> True"
| "topo guard succ (v # vs) \<longleftrightarrow>
     v \<notin> set vs \<and> (\<forall>d \<in> set (succ v). guard d \<longrightarrow> d \<in> set vs) \<and> topo guard succ vs"

fun level_in :: "'a list \<Rightarrow> 'a \<Rightarrow> nat" where
  "level_in [] s = 0"
| "level_in (v # vs) s = (if s = v then length vs else level_in vs s)"

lemma level_in_less: "s \<in> set vs \<Longrightarrow> level_in vs s < length vs"
  by (induction vs) auto

lemma topo_level:
  "topo guard succ vs \<Longrightarrow> s \<in> set vs \<Longrightarrow> d \<in> set (succ s) \<Longrightarrow> guard d \<Longrightarrow>
     d \<in> set vs \<and> level_in vs d < level_in vs s"
proof (induction vs)
  case (Cons v vs)
  show ?case
  proof (cases "s = v")
    case True
    with Cons.prems have "d \<in> set vs" "d \<noteq> v" by auto
    with True level_in_less show ?thesis by auto
  next
    case False
    with Cons have "d \<in> set vs \<and> level_in vs d < level_in vs s" by simp
    with Cons.prems False show ?thesis by auto
  qed
qed simp

definition clean_state :: "('a \<Rightarrow> bool) \<Rightarrow> ('a \<Rightarrow> 'a list) \<Rightarrow> 'a list \<Rightarrow> 'a list \<Rightarrow> bool" where
  "clean_state guard succ visiting visited \<longleftrightarrow>
     topo guard succ visited \<and> set visiting \<inter> set visited = {}"

lemma dfs_deps_clean:
  assumes rec: "\<And>d ving ved g v. rec d ving ved = Some (False, g, v) \<Longrightarrow> clean_state guard succ ving ved \<Longrightarrow>
      g = ving \<and> clean_state guard succ g v \<and> insert d (set ved) \<subseteq> set v"
  shows "dfs_deps rec guard ds ving ved = Some (False, g, v) \<Longrightarrow> clean_state guard succ ving ved \<Longrightarrow>
    g = ving \<and> clean_state guard succ g v \<and> set (filter guard ds) \<union> set ved \<subseteq> set v"
proof (induction ds arbitrary: ved)
  case (Cons d ds)
  show ?case
  proof (cases "guard d")
    case True
    then obtain g1 v1 where 1: "rec d ving ved = Some (False, g1, v1)"
      and 2: "dfs_deps rec guard ds g1 v1 = Some (False, g, v)"
      using Cons.prems(1) by (auto simp: bind_eq_Some split: if_split_asm)
    from rec [OF 1 Cons.prems(2)] have "g1 = ving" "clean_state guard succ ving v1" "insert d (set ved) \<subseteq> set v1"
      by auto
    with Cons.IH [of v1] 2 True show ?thesis by auto
  next
    case False
    with Cons show ?thesis by auto
  qed
qed simp

lemma dfs_cycle_clean:
  "dfs_cycle n guard succ s ving ved = Some (False, g, v) \<Longrightarrow> clean_state guard succ ving ved \<Longrightarrow>
     g = ving \<and> clean_state guard succ g v \<and> insert s (set ved) \<subseteq> set v"
proof (induction n arbitrary: s ving ved g v)
  case (Suc n)
  show ?case
  proof (cases "s \<in> set ved")
    case True
    with Suc.prems show ?thesis by auto
  next
    case False
    with Suc.prems(1) have fresh: "s \<notin> set ving" by (auto split: if_split_asm)
    obtain v1 g1 where deps: "dfs_deps (dfs_cycle n guard succ) guard (succ s) (s # ving) ved = Some (False, g1, v1)"
      and res: "g = removeAll s g1" "v = s # v1"
      using Suc.prems(1) False fresh by (auto simp: bind_eq_Some split: if_split_asm)
    have "clean_state guard succ (s # ving) ved"
      using Suc.prems(2) False by (simp add: clean_state_def)
    from dfs_deps_clean [OF Suc.IH deps this]
    have "g1 = s # ving" "clean_state guard succ g1 v1" "set (filter guard (succ s)) \<union> set ved \<subseteq> set v1"
      by auto
    with fresh show ?thesis by (auto simp: res clean_state_def)
  qed
qed simp

section \<open>Completeness: a cycle found is a cycle\<close>

definition dep_rel :: "('a \<Rightarrow> bool) \<Rightarrow> ('a \<Rightarrow> 'a list) \<Rightarrow> ('a \<times> 'a) set" where
  "dep_rel guard succ = {(a, b). b \<in> set (succ a) \<and> guard b}"

fun dfs_path :: "('a \<times> 'a) set \<Rightarrow> 'a \<Rightarrow> 'a list \<Rightarrow> bool" where
  "dfs_path E s [] \<longleftrightarrow> True"
| "dfs_path E s (x # xs) \<longleftrightarrow> (x, s) \<in> E \<and> dfs_path E x xs"

lemma dfs_path_trancl: "dfs_path E s xs \<Longrightarrow> x \<in> set xs \<Longrightarrow> (x, s) \<in> E\<^sup>+"
  by (induction xs arbitrary: s) (auto intro: trancl_into_trancl)

lemma dfs_deps_cycle:
  assumes rec: "\<And>d ved g v. guard d \<Longrightarrow> d \<in> set ds \<Longrightarrow> rec d ving ved = Some (True, g, v) \<Longrightarrow> \<exists>x. (x, x) \<in> E\<^sup>+"
    and keep: "\<And>d ved g v. rec d ving ved = Some (False, g, v) \<Longrightarrow> g = ving"
  shows "dfs_deps rec guard ds ving ved = Some (True, g, v) \<Longrightarrow> \<exists>x. (x, x) \<in> E\<^sup>+"
  using rec
proof (induction ds arbitrary: ved)
  case (Cons d ds)
  show ?case
  proof (cases "guard d")
    case True
    with Cons.prems(1) obtain c g1 v1 where 1: "rec d ving ved = Some (c, g1, v1)"
      "if c then Some (True, g1, v1) = Some (True, g, v) else dfs_deps rec guard ds g1 v1 = Some (True, g, v)"
      by (auto simp: bind_eq_Some split: if_split_asm)
    show ?thesis
    proof (cases c)
      case True
      with 1 \<open>guard d\<close> Cons.prems(2) [of d ved] show ?thesis by auto
    next
      case False
      with 1 keep have "dfs_deps rec guard ds ving v1 = Some (True, g, v)" by auto
      then show ?thesis using Cons.IH Cons.prems(2) by (meson list.set_intros(2))
    qed
  qed (use Cons in auto)
qed simp

lemma dfs_cycle_keep: "dfs_cycle n guard succ s ving ved = Some (False, g, v) \<Longrightarrow> g = ving"
proof (induction n arbitrary: s ving ved g v)
  case (Suc n)
  have deps: "dfs_deps (dfs_cycle n guard succ) guard ds ving ved = Some (False, g, v) \<Longrightarrow> g = ving"
    for ds ving ved g v
  proof (induction ds arbitrary: ved)
    case (Cons d ds)
    show ?case
    proof (cases "guard d")
      case True
      with Cons.prems obtain g1 v1 where 1: "dfs_cycle n guard succ d ving ved = Some (False, g1, v1)"
        and 2: "dfs_deps (dfs_cycle n guard succ) guard ds g1 v1 = Some (False, g, v)"
        by (auto simp: bind_eq_Some split: if_split_asm)
      from 2 have "dfs_deps (dfs_cycle n guard succ) guard ds ving v1 = Some (False, g, v)"
        unfolding Suc.IH [OF 1] .
      then show ?thesis by (rule Cons.IH)
    qed (use Cons in simp)
  qed simp
  show ?case
    using Suc.prems by (auto simp: bind_eq_Some split: if_split_asm dest!: deps)
qed simp

lemma dfs_cycle_found:
  "dfs_cycle n guard succ s ving ved = Some (True, g, v) \<Longrightarrow> dfs_path (dep_rel guard succ) s ving \<Longrightarrow>
     \<exists>x. (x, x) \<in> (dep_rel guard succ)\<^sup>+"
proof (induction n arbitrary: s ving ved g v)
  case (Suc n)
  show ?case
  proof (cases "s \<in> set ving")
    case True
    then show ?thesis using dfs_path_trancl [OF Suc.prems(2)] by blast
  next
    case False
    then have deps: "dfs_deps (dfs_cycle n guard succ) guard (succ s) (s # ving) ved = Some (True, g, v)"
      using Suc.prems(1) by (auto simp: bind_eq_Some split: if_split_asm)
    show ?thesis
    proof (rule dfs_deps_cycle [OF _ _ deps])
      fix d ved g v
      assume "guard d" "d \<in> set (succ s)" "dfs_cycle n guard succ d (s # ving) ved = Some (True, g, v)"
      then show "\<exists>x. (x, x) \<in> (dep_rel guard succ)\<^sup>+"
        using Suc.prems(2) by (intro Suc.IH [of d "s # ving"]) (simp_all add: dep_rel_def)
    qed (rule dfs_cycle_keep)
  qed
qed simp

section \<open>Termination: the fuel is enough\<close>

lemma dfs_deps_total:
  assumes "\<And>d ved. guard d \<Longrightarrow> d \<in> set ds \<Longrightarrow> rec d ving ved \<noteq> None"
    and "\<And>d ved g v. rec d ving ved = Some (False, g, v) \<Longrightarrow> g = ving"
  shows "dfs_deps rec guard ds ving ved \<noteq> None"
  using assms(1)
proof (induction ds arbitrary: ved)
  case (Cons d ds)
  show ?case
  proof (cases "guard d")
    case True
    then obtain c g v where r: "rec d ving ved = Some (c, g, v)"
      using Cons.prems [of d ved] by (cases "rec d ving ved") auto
    show ?thesis
    proof (cases c)
      case False
      then have "g = ving" using assms(2) [of d ved g v] r by simp
      then show ?thesis using True r False Cons by simp
    qed (use True r in simp)
  qed (use Cons in simp)
qed simp

lemma dfs_total:
  assumes "finite N" "\<And>x d. x \<in> N \<Longrightarrow> d \<in> set (succ x) \<Longrightarrow> guard d \<Longrightarrow> d \<in> N"
  shows "s \<in> N \<Longrightarrow> card (N - set ving) < n \<Longrightarrow> dfs_cycle n guard succ s ving ved \<noteq> None"
proof (induction n arbitrary: s ving ved)
  case (Suc n)
  show ?case
  proof (cases "s \<in> set ving")
    case False
    have "card (N - set (s # ving)) < card (N - set ving)"
      using assms(1) Suc.prems(1) False by (intro psubset_card_mono) auto
    then have "dfs_deps (dfs_cycle n guard succ) guard (succ s) (s # ving) ved \<noteq> None"
      using Suc.prems assms(2) dfs_cycle_keep
      by (intro dfs_deps_total Suc.IH) (auto dest: dfs_cycle_keep)
    then show ?thesis by (auto split: if_split)
  qed auto
qed simp

end
