(* ===== verification/Validate.thy ===== *)
theory Validate
  imports Cycle_Search
begin

text \<open>
  Validation of a module of crate \<open>rrtl-core\<close> (\<open>validate_signal_names\<close> to
  \<open>validate_registers\<close> in \<open>src/crates/rrtl-core/src/lib.rs\<close>).  A check pushes diagnostics onto
  a vector it is passed; its model returns what it pushes, in order.  The order in which the
  code iterates over a \<open>HashMap\<close> is the parameter \<open>ord\<close>, which permutes the keys, one field
  for each type of key.
\<close>

record hash_order =
  ho_signals :: "signal list \<Rightarrow> signal list"
  ho_paths :: "string list list \<Rightarrow> string list list"
  ho_names :: "string list \<Rightarrow> string list"

definition hash_iteration :: "hash_order \<Rightarrow> bool" where
  "hash_iteration ord \<longleftrightarrow> (\<forall>xs. set (ho_signals ord xs) = set xs) \<and>
     (\<forall>xs. set (ho_paths ord xs) = set xs) \<and> (\<forall>xs. set (ho_names ord xs) = set xs)"

definition sdiag :: "rmodule \<Rightarrow> signal_info \<Rightarrow> string \<Rightarrow> string \<Rightarrow> diagnostic" where
  "sdiag m si code msg = with_signal (mdiag m code msg) (si_name si)"

definition signal_label :: "rmodule \<Rightarrow> signal \<Rightarrow> string" where
  "signal_label m s =
     (case module_signal m s of None \<Rightarrow> debug_signal_id (sig_id s) | Some si \<Rightarrow> si_name si)"

text \<open>The two forms of check on a width and on a type.\<close>

definition expect_one_bit ::
  "width option \<times> diagnostic list \<Rightarrow> (width \<Rightarrow> diagnostic) \<Rightarrow> diagnostic list" where
  "expect_one_bit r f =
     snd r @ (case fst r of None \<Rightarrow> [] | Some w \<Rightarrow> if w = 1 then [] else [f w])"

definition expect_type ::
  "type_result \<Rightarrow> bit_type \<Rightarrow> (bit_type \<Rightarrow> diagnostic) \<Rightarrow> diagnostic list" where
  "expect_type r want f =
     snd r @ (case fst r of None \<Rightarrow> [] | Some ty \<Rightarrow> if ty = want then [] else [f ty])"

section \<open>Signals\<close>

fun signal_name_loop :: "rmodule \<Rightarrow> string list \<Rightarrow> signal_info list \<Rightarrow> diagnostic list" where
  "signal_name_loop m seen [] = []"
| "signal_name_loop m seen (si # sis) =
     (if si_name si = [] then [mdiag m ''E_SIGNAL_NAME_EMPTY'' ''signal name is empty''] else [])
     @ (if si_name si \<in> set seen
        then [sdiag m si ''E_SIGNAL_NAME_DUP'' (''duplicate signal name `'' @ si_name si @ ''`'')]
        else [])
     @ signal_name_loop m (si_name si # seen) sis"

definition validate_signal_names :: "rmodule \<Rightarrow> diagnostic list" where
  "validate_signal_names m = signal_name_loop m [] (m_signals m)"

definition signal_width_diags :: "rmodule \<Rightarrow> signal_info \<Rightarrow> diagnostic list" where
  "signal_width_diags m si =
     (if si_width si = 0
      then [sdiag m si ''E_WIDTH_ZERO'' ''signal width must be greater than zero''] else [])
     @ (case si_kind si of
          KMem aw dw depth \<Rightarrow>
            (if aw = 0 \<or> dw = 0 \<or> depth = 0
             then [sdiag m si ''E_MEM_SHAPE''
                    ''memory address width, data width, and depth must be non-zero''] else [])
            @ (if aw < 64 \<and> 2 ^ aw < depth
               then [sdiag m si ''E_MEM_DEPTH_WIDTH''
                      (''memory depth '' @ show_nat depth @ '' exceeds '' @ show_nat aw
                       @ ''-bit address space'')] else [])
        | _ \<Rightarrow> [])"

definition validate_signal_widths :: "rmodule \<Rightarrow> diagnostic list" where
  "validate_signal_widths m = concat (map (signal_width_diags m) (m_signals m))"

section \<open>Assignments and memory writes\<close>

definition assignment_diags :: "rmodule \<Rightarrow> assignment \<Rightarrow> diagnostic list" where
  "assignment_diags m a =
     (case module_signal m (as_dst a) of
        None \<Rightarrow> [mdiag m ''E_ASSIGN_DST'' ''assignment destination is not in this module'']
      | Some dst \<Rightarrow>
          (case si_kind dst of
             KInput \<Rightarrow> [sdiag m dst ''E_ASSIGN_INPUT'' ''cannot assign to an input'']
           | KInout \<Rightarrow> [sdiag m dst ''E_ASSIGN_INOUT'' ''cannot assign to an inout'']
           | KReg clk rst nxt \<Rightarrow> [sdiag m dst ''E_ASSIGN_REG'' ''registers must be driven with `next`'']
           | KMem aw dw depth \<Rightarrow>
               [sdiag m dst ''E_ASSIGN_MEM'' ''memories must be driven with `mem_write` ports'']
           | KOutput \<Rightarrow> []
           | KWire \<Rightarrow> [])
          @ expect_type (expr_type m (as_expr a)) (si_ty dst)
              (\<lambda>ty. sdiag m dst ''E_ASSIGN_TYPE''
                (''assignment type mismatch: destination is '' @ debug_bit_type (si_ty dst)
                 @ '', expression is '' @ debug_bit_type ty)))"

definition driven :: "rmodule \<Rightarrow> signal list" where
  "driven m = filter (\<lambda>s. module_signal m s \<noteq> None) (map as_dst (m_assignments m))"

definition multi_driver_diags ::
  "hash_order \<Rightarrow> rmodule \<Rightarrow> signal list \<Rightarrow> string \<Rightarrow> diagnostic list" where
  "multi_driver_diags ord m ds what =
     concat (map (\<lambda>s. if 1 < count_list ds s
         then [with_signal (mdiag m ''E_MULTI_DRIVER''
                (''signal `'' @ signal_label m s @ ''` has '' @ show_nat (count_list ds s) @ what))
                (signal_label m s)]
         else []) (ho_signals ord (remdups ds)))"

definition validate_assignments :: "hash_order \<Rightarrow> rmodule \<Rightarrow> diagnostic list" where
  "validate_assignments ord m =
     concat (map (assignment_diags m) (m_assignments m))
     @ multi_driver_diags ord m (driven m) '' continuous drivers''"

definition memory_write_diags :: "rmodule \<Rightarrow> memory_write \<Rightarrow> diagnostic list" where
  "memory_write_diags m w =
     (case module_signal m (mw_mem w) of
        None \<Rightarrow> [mdiag m ''E_MEM_WRITE_TARGET'' ''memory write target is not in this module'']
      | Some mem \<Rightarrow>
          (case si_kind mem of
             KMem aw dw depth \<Rightarrow>
               expect_one_bit (signal_width m (mw_clock w))
                 (\<lambda>n. sdiag m mem ''E_MEM_CLOCK_WIDTH''
                   (''memory write clock must be 1 bit, found '' @ show_nat n @ '' bits''))
               @ expect_one_bit (expr_width m (mw_enable w))
                 (\<lambda>n. sdiag m mem ''E_MEM_ENABLE_WIDTH''
                   (''memory write enable must be 1 bit, found '' @ show_nat n @ '' bits''))
               @ expect_type (expr_type m (mw_addr w)) (uint_ty aw)
                 (\<lambda>ty. sdiag m mem ''E_MEM_ADDR_WIDTH''
                   (''memory write address type mismatch: memory address is ''
                    @ debug_bit_type (uint_ty aw) @ '', expression is '' @ debug_bit_type ty))
               @ expect_type (expr_type m (mw_data w)) (si_ty mem)
                 (\<lambda>ty. sdiag m mem ''E_MEM_DATA_WIDTH''
                   (''memory write data type mismatch: memory data is ''
                    @ debug_bit_type (si_ty mem) @ '', expression is '' @ debug_bit_type ty))
           | _ \<Rightarrow> [sdiag m mem ''E_MEM_WRITE_TARGET'' ''memory write target is not a memory'']))"

definition validate_memory_writes :: "rmodule \<Rightarrow> diagnostic list" where
  "validate_memory_writes m = concat (map (memory_write_diags m) (m_memory_writes m))"

section \<open>Initial values\<close>

definition is_reg_kind :: "signal_kind \<Rightarrow> bool" where
  "is_reg_kind k = (case k of KReg clk rst nxt \<Rightarrow> True | _ \<Rightarrow> False)"

fun initial_register_loop :: "rmodule \<Rightarrow> signal list \<Rightarrow> initial_register_value list \<Rightarrow> diagnostic list" where
  "initial_register_loop m seen [] = []"
| "initial_register_loop m seen (i # is) =
     (case module_signal m (irv_signal i) of
        None \<Rightarrow>
          mdiag m ''E_INITIAL_REG_TARGET'' ''initial register target is not in this module''
          # initial_register_loop m seen is
      | Some si \<Rightarrow>
          (if is_reg_kind (si_kind si) then []
           else [sdiag m si ''E_INITIAL_REG_TARGET'' ''initial target is not a register''])
          @ (if irv_signal i \<in> set seen
             then [sdiag m si ''E_INITIAL_REG_DUP''
                    (''register `'' @ si_name si @ ''` has multiple initial values'')] else [])
          @ (if fits_type (irv_value i) (si_ty si) then []
             else [sdiag m si ''E_INITIAL_REG_VALUE''
                    (''initial value does not fit in '' @ debug_bit_type (si_ty si))])
          @ initial_register_loop m (irv_signal i # seen) is)"

fun initial_memory_loop ::
  "rmodule \<Rightarrow> (signal \<times> nat) list \<Rightarrow> initial_memory_value list \<Rightarrow> diagnostic list" where
  "initial_memory_loop m seen [] = []"
| "initial_memory_loop m seen (i # is) =
     (case module_signal m (imv_mem i) of
        None \<Rightarrow>
          mdiag m ''E_INITIAL_MEM_TARGET'' ''initial memory target is not in this module''
          # initial_memory_loop m seen is
      | Some mem \<Rightarrow>
          (case si_kind mem of
             KMem aw dw depth \<Rightarrow>
               (if depth \<le> imv_addr i
                then [sdiag m mem ''E_INITIAL_MEM_ADDR''
                       (''initial memory address '' @ show_nat (imv_addr i) @ '' exceeds depth ''
                        @ show_nat depth)] else [])
               @ (if (imv_mem i, imv_addr i) \<in> set seen
                  then [sdiag m mem ''E_INITIAL_MEM_DUP''
                         (''memory `'' @ si_name mem @ ''` address '' @ show_nat (imv_addr i)
                          @ '' has multiple initial values'')] else [])
               @ (if fits_type (imv_value i) (si_ty mem) then []
                  else [sdiag m mem ''E_INITIAL_MEM_VALUE''
                         (''initial memory value does not fit in '' @ debug_bit_type (si_ty mem))])
               @ initial_memory_loop m ((imv_mem i, imv_addr i) # seen) is
           | _ \<Rightarrow>
               sdiag m mem ''E_INITIAL_MEM_TARGET'' ''initial target is not a memory''
               # initial_memory_loop m seen is))"

definition validate_initial_values :: "rmodule \<Rightarrow> diagnostic list" where
  "validate_initial_values m =
     initial_register_loop m [] (m_initial_register_values m)
     @ initial_memory_loop m [] (m_initial_memory_values m)"

section \<open>Assertions and cover points\<close>

fun assertion_diags_loop :: "rmodule \<Rightarrow> string list \<Rightarrow> assertion list \<Rightarrow> diagnostic list" where
  "assertion_diags_loop m seen [] = []"
| "assertion_diags_loop m seen (a # as) =
     (if a_name a = [] then [mdiag m ''E_ASSERT_NAME_EMPTY'' ''assertion name is empty''] else [])
     @ (if a_name a \<in> set seen
        then [mdiag m ''E_ASSERT_NAME_DUP'' (''duplicate assertion name `'' @ a_name a @ ''`'')]
        else [])
     @ expect_type (expr_type m (a_condition a)) (uint_ty 1)
         (\<lambda>ty. mdiag m ''E_ASSERT_CONDITION_TYPE''
           (''assertion condition must be uint(1), found '' @ debug_bit_type ty))
     @ (case a_enable a of None \<Rightarrow> []
        | Some en \<Rightarrow> expect_type (expr_type m en) (uint_ty 1)
            (\<lambda>ty. mdiag m ''E_ASSERT_ENABLE_TYPE''
              (''assertion enable must be uint(1), found '' @ debug_bit_type ty)))
     @ (case a_clock a of None \<Rightarrow> []
        | Some clk \<Rightarrow> expect_one_bit (signal_width m clk)
            (\<lambda>n. mdiag m ''E_ASSERT_CLOCK_WIDTH''
              (''assertion clock must be 1 bit, found '' @ show_nat n @ '' bits'')))
     @ assertion_diags_loop m (a_name a # seen) as"

definition validate_assertions :: "rmodule \<Rightarrow> diagnostic list" where
  "validate_assertions m = assertion_diags_loop m [] (m_assertions m)"

fun cover_diags_loop :: "rmodule \<Rightarrow> string list \<Rightarrow> cover_point list \<Rightarrow> diagnostic list" where
  "cover_diags_loop m seen [] = []"
| "cover_diags_loop m seen (c # cs) =
     (if c_name c = [] then [mdiag m ''E_COVER_NAME_EMPTY'' ''cover point name is empty''] else [])
     @ (if c_name c \<in> set seen
        then [mdiag m ''E_COVER_NAME_DUP'' (''duplicate cover point name `'' @ c_name c @ ''`'')]
        else [])
     @ expect_type (expr_type m (c_condition c)) (uint_ty 1)
         (\<lambda>ty. mdiag m ''E_COVER_CONDITION_TYPE''
           (''cover condition must be uint(1), found '' @ debug_bit_type ty))
     @ (case c_enable c of None \<Rightarrow> []
        | Some en \<Rightarrow> expect_type (expr_type m en) (uint_ty 1)
            (\<lambda>ty. mdiag m ''E_COVER_ENABLE_TYPE''
              (''cover enable must be uint(1), found '' @ debug_bit_type ty)))
     @ (case c_clock c of None \<Rightarrow> []
        | Some clk \<Rightarrow> expect_one_bit (signal_width m clk)
            (\<lambda>n. mdiag m ''E_COVER_CLOCK_WIDTH''
              (''cover clock must be 1 bit, found '' @ show_nat n @ '' bits'')))
     @ cover_diags_loop m (c_name c # seen) cs"

definition validate_cover_points :: "rmodule \<Rightarrow> diagnostic list" where
  "validate_cover_points m = cover_diags_loop m [] (m_cover_points m)"

section \<open>Registers\<close>

definition register_diags :: "rmodule \<Rightarrow> signal_info \<Rightarrow> diagnostic list" where
  "register_diags m si =
     (case si_kind si of
        KReg clk rst nxt \<Rightarrow>
          (case clk of
             None \<Rightarrow> [sdiag m si ''E_REG_CLOCK_MISSING'' ''register has no clock'']
           | Some c \<Rightarrow> expect_one_bit (signal_width m c)
               (\<lambda>n. sdiag m si ''E_CLOCK_WIDTH''
                 (''register clock must be 1 bit, found '' @ show_nat n @ '' bits'')))
          @ (case rst of None \<Rightarrow> []
             | Some r \<Rightarrow>
                 expect_one_bit (signal_width m (rst_signal r))
                   (\<lambda>n. sdiag m si ''E_RESET_WIDTH''
                     (''register reset must be 1 bit, found '' @ show_nat n @ '' bits''))
                 @ (if fits_type (rst_value r) (si_ty si) then []
                    else [sdiag m si ''E_RESET_VALUE_WIDTH''
                           (''reset value does not fit in '' @ debug_bit_type (si_ty si))]))
          @ (case nxt of
               None \<Rightarrow> [sdiag m si ''E_REG_NEXT_MISSING'' ''register has no next expression'']
             | Some e \<Rightarrow> expect_type (expr_type m e) (si_ty si)
                 (\<lambda>ty. sdiag m si ''E_REG_NEXT_TYPE''
                   (''register next type mismatch: register is '' @ debug_bit_type (si_ty si)
                    @ '', expression is '' @ debug_bit_type ty)))
      | _ \<Rightarrow> [])"

definition validate_registers :: "rmodule \<Rightarrow> diagnostic list" where
  "validate_registers m = concat (map (register_diags m) (m_signals m))"

section \<open>External modules\<close>

definition is_port_kind :: "signal_kind \<Rightarrow> bool" where
  "is_port_kind k \<longleftrightarrow> k = KInput \<or> k = KOutput \<or> k = KInout"

definition validate_external_module :: "rmodule \<Rightarrow> diagnostic list" where
  "validate_external_module m =
     (if m_assertions m = [] then []
      else [mdiag m ''E_EXTERN_MODULE_ASSERTION'' ''external modules may not contain assertions''])
     @ (if m_cover_points m = [] then []
        else [mdiag m ''E_EXTERN_MODULE_COVER'' ''external modules may not contain cover points''])
     @ (if m_initial_register_values m = [] \<and> m_initial_memory_values m = [] then []
        else [mdiag m ''E_EXTERN_MODULE_INITIAL'' ''external modules may not contain initial values''])
     @ concat (map (\<lambda>si. if is_port_kind (si_kind si) then []
          else [sdiag m si ''E_EXTERN_MODULE_SIGNAL''
                 ''external modules may only contain input, output, and inout ports'']) (m_signals m))
     @ (if m_assignments m = [] \<and> m_memory_writes m = [] \<and> m_instances m = [] \<and> m_state_types m = []
          \<and> m_state_signals m = [] \<and> m_bundle_types m = [] \<and> m_bundle_signals m = []
          \<and> m_interface_types m = [] \<and> m_interface_signals m = [] then []
        else [mdiag m ''E_EXTERN_MODULE_BODY''
               ''external modules may only declare scalar input, output, and inout ports''])"

section \<open>What the checks accept\<close>

lemma expect_type_quiet [simp]:
  "expect_type (expr_type m e) want f = [] \<longleftrightarrow> has_type m e want"
proof -
  have "expect_type (expr_type m e) want f = [] \<longleftrightarrow> expr_type m e = (Some want, [])"
    using expr_type_quiet [of m e] by (auto simp: expect_type_def split: option.splits)
  then show ?thesis by (simp add: expr_type_iff_has_type)
qed

lemma expect_one_bit_expr [simp]:
  "expect_one_bit (expr_width m e) f = [] \<longleftrightarrow> (\<exists>ty. has_type m e ty \<and> bt_width ty = 1)"
proof -
  have "expect_one_bit (expr_width m e) f = [] \<longleftrightarrow> (\<exists>ty. expr_type m e = (Some ty, []) \<and> bt_width ty = 1)"
    using expr_type_quiet [of m e] by (auto simp: expect_one_bit_def expr_width_def split: option.splits)
  then show ?thesis by (simp add: expr_type_iff_has_type)
qed

lemma expect_one_bit_signal [simp]:
  "expect_one_bit (signal_width m s) f = [] \<longleftrightarrow> (\<exists>si. module_signal m s = Some si \<and> si_width si = 1)"
  by (auto simp: expect_one_bit_def signal_width_def split: option.splits)

definition assignment_ok :: "rmodule \<Rightarrow> assignment \<Rightarrow> bool" where
  "assignment_ok m a \<longleftrightarrow> (\<exists>dst. module_signal m (as_dst a) = Some dst \<and>
     (si_kind dst = KOutput \<or> si_kind dst = KWire) \<and> has_type m (as_expr a) (si_ty dst))"

lemma assignment_diags_quiet: "assignment_diags m a = [] \<longleftrightarrow> assignment_ok m a"
  by (auto simp: assignment_diags_def assignment_ok_def split: option.splits signal_kind.splits)

lemma count_list_distinct: "distinct xs \<longleftrightarrow> (\<forall>x \<in> set xs. count_list xs x \<le> 1)"
proof (induction xs)
  case (Cons a xs)
  show ?case
  proof
    assume "distinct (a # xs)"
    then show "\<forall>x \<in> set (a # xs). count_list (a # xs) x \<le> 1"
      using Cons by (auto simp: count_list_0_iff)
  next
    assume *: "\<forall>x \<in> set (a # xs). count_list (a # xs) x \<le> 1"
    then have "count_list xs a = 0" by auto
    then have "a \<notin> set xs" by (simp add: count_list_0_iff)
    moreover have "\<forall>x \<in> set xs. count_list xs x \<le> 1"
      using * by (metis count_list.simps(2) le_add1 le_trans list.set_intros(2) order_refl)
    ultimately show "distinct (a # xs)" using Cons by simp
  qed
qed simp

lemma multi_driver_quiet:
  "hash_iteration ord \<Longrightarrow> multi_driver_diags ord m ds what = [] \<longleftrightarrow> distinct ds"
  unfolding multi_driver_diags_def concat_map_Nil_iff
  by (auto simp: hash_iteration_def count_list_distinct not_less)

lemma validate_assignments_quiet:
  assumes "hash_iteration ord"
  shows "validate_assignments ord m = [] \<longleftrightarrow>
    list_all (assignment_ok m) (m_assignments m) \<and> distinct (map as_dst (m_assignments m))"
proof -
  have "driven m = map as_dst (m_assignments m)" if "list_all (assignment_ok m) (m_assignments m)"
    using that by (force simp: driven_def list_all_iff assignment_ok_def intro!: filter_True)
  then show ?thesis
    using multi_driver_quiet [OF assms]
    by (auto simp: validate_assignments_def assignment_diags_quiet list_all_iff)
qed

definition write_ok :: "rmodule \<Rightarrow> memory_write \<Rightarrow> bool" where
  "write_ok m w \<longleftrightarrow> (\<exists>mem aw dw depth clk ty. module_signal m (mw_mem w) = Some mem \<and>
     si_kind mem = KMem aw dw depth \<and> module_signal m (mw_clock w) = Some clk \<and> si_width clk = 1 \<and>
     has_type m (mw_enable w) ty \<and> bt_width ty = 1 \<and> has_type m (mw_addr w) (uint_ty aw) \<and>
     has_type m (mw_data w) (si_ty mem))"

lemma memory_write_diags_quiet: "memory_write_diags m w = [] \<longleftrightarrow> write_ok m w"
  by (auto simp: memory_write_diags_def write_ok_def split: option.splits signal_kind.splits)

definition register_ok :: "rmodule \<Rightarrow> signal_info \<Rightarrow> bool" where
  "register_ok m si \<longleftrightarrow> (\<forall>clk rst nxt. si_kind si = KReg clk rst nxt \<longrightarrow>
     (\<exists>c csi e. clk = Some c \<and> module_signal m c = Some csi \<and> si_width csi = 1 \<and>
        nxt = Some e \<and> has_type m e (si_ty si)) \<and>
     (\<forall>r. rst = Some r \<longrightarrow> fits_type (rst_value r) (si_ty si) \<and>
        (\<exists>rsi. module_signal m (rst_signal r) = Some rsi \<and> si_width rsi = 1)))"

lemma register_diags_quiet: "register_diags m si = [] \<longleftrightarrow> register_ok m si"
  by (cases "si_kind si") (auto simp: register_diags_def register_ok_def split: option.splits)

lemma signal_names_quiet:
  "signal_name_loop m seen sis = [] \<longleftrightarrow>
     distinct (map si_name sis) \<and> set (map si_name sis) \<inter> set seen = {} \<and> [] \<notin> set (map si_name sis)"
  by (induction sis arbitrary: seen) auto

end
