(* ===== verification/Validate_Types.thy ===== *)
theory Validate_Types
  imports Validate
begin

text \<open>
  Validation of state types, bundles and interfaces (\<open>validate_state_types\<close> to
  \<open>validate_interface_signal_bundle_port\<close> in \<open>src/crates/rrtl-core/src/lib.rs\<close>), on strings of
  ASCII characters.
\<close>

section \<open>State types\<close>

definition is_ascii_alphanumeric :: "char \<Rightarrow> bool" where
  "is_ascii_alphanumeric c \<longleftrightarrow> (let n = of_char c :: nat in
     48 \<le> n \<and> n \<le> 57 \<or> 65 \<le> n \<and> n \<le> 90 \<or> 97 \<le> n \<and> n \<le> 122)"

definition to_ascii_uppercase :: "char \<Rightarrow> char" where
  "to_ascii_uppercase c = (let n = of_char c :: nat in
     if 97 \<le> n \<and> n \<le> 122 then char_of (n - 32) else c)"

definition sanitize_sv_ident :: "string \<Rightarrow> string" where
  "sanitize_sv_ident n =
     map (\<lambda>c. if is_ascii_alphanumeric c then to_ascii_uppercase c else CHR ''_'') n"

definition state_sv_type_name :: "string \<Rightarrow> string" where
  "state_sv_type_name n = sanitize_sv_ident n @ ''_t''"

fun state_variant_loop :: "rmodule \<Rightarrow> state_type \<Rightarrow> string list \<Rightarrow> string list \<Rightarrow> i128 list
    \<Rightarrow> state_variant list \<Rightarrow> diagnostic list" where
  "state_variant_loop m st names sv_names vals [] = []"
| "state_variant_loop m st names sv_names vals (v # vs) =
     (let svn = sanitize_sv_ident (st_name st) @ ''_'' @ sanitize_sv_ident (sv_name v)
      in (if sv_name v = []
          then [mdiag m ''E_STATE_VARIANT_NAME''
                 (''state type `'' @ st_name st @ ''` has an empty variant name'')] else [])
         @ (if sv_name v \<in> set names
            then [mdiag m ''E_STATE_VARIANT_DUP''
                   (''state type `'' @ st_name st @ ''` has duplicate variant `'' @ sv_name v @ ''`'')] else [])
         @ (if svn \<in> set sv_names
            then [mdiag m ''E_STATE_VARIANT_SV_NAME_DUP''
                   (''state variant `'' @ st_name st @ ''.'' @ sv_name v
                    @ ''` sanitizes to duplicate SystemVerilog enum literal `'' @ svn @ ''`'')] else [])
         @ (if sv_value v \<in> set vals
            then [mdiag m ''E_STATE_ENCODING_DUP''
                   (''state type `'' @ st_name st @ ''` has duplicate encoding `''
                    @ show_int (sint (sv_value v)) @ ''`'')] else [])
         @ (if fits_type (sv_value v) (st_ty st) then []
            else [mdiag m ''E_STATE_ENCODING_RANGE''
                   (''state variant `'' @ st_name st @ ''.'' @ sv_name v @ ''` value ''
                    @ show_int (sint (sv_value v)) @ '' does not fit in '' @ debug_bit_type (st_ty st))])
         @ state_variant_loop m st (sv_name v # names) (svn # sv_names) (sv_value v # vals) vs)"

fun state_type_loop :: "rmodule \<Rightarrow> string list \<Rightarrow> string list \<Rightarrow> state_type list \<Rightarrow> diagnostic list" where
  "state_type_loop m names sv_names [] = []"
| "state_type_loop m names sv_names (st # sts) =
     (let svn = state_sv_type_name (st_name st)
      in (if st_name st = [] then [mdiag m ''E_STATE_TYPE_NAME'' ''state type name is empty''] else [])
         @ (if st_name st \<in> set names
            then [mdiag m ''E_STATE_TYPE_DUP'' (''duplicate state type `'' @ st_name st @ ''`'')] else [])
         @ (if svn \<in> set sv_names
            then [mdiag m ''E_STATE_TYPE_SV_NAME_DUP''
                   (''state type `'' @ st_name st
                    @ ''` sanitizes to duplicate SystemVerilog enum type `'' @ svn @ ''`'')] else [])
         @ (if bt_width (st_ty st) = 0
            then [mdiag m ''E_STATE_TYPE_WIDTH''
                   (''state type `'' @ st_name st @ ''` must have non-zero width'')] else [])
         @ state_variant_loop m st [] [] [] (st_variants st)
         @ state_type_loop m (st_name st # names) (svn # sv_names) sts)"

definition state_signal_diags :: "rmodule \<Rightarrow> state_signal \<Rightarrow> diagnostic list" where
  "state_signal_diags m ss =
     (case module_signal m (ss_signal ss) of
        None \<Rightarrow> [mdiag m ''E_STATE_SIGNAL'' ''state signal does not belong to this module'']
      | Some si \<Rightarrow>
          (if si_ty si = st_ty (ss_state_type ss) then []
           else [sdiag m si ''E_STATE_SIGNAL_TYPE''
                  (''state signal `'' @ si_name si @ ''` has type '' @ debug_bit_type (si_ty si)
                   @ '', expected '' @ debug_bit_type (st_ty (ss_state_type ss)))])
          @ (if state_value_of (ss_state_type ss) (ss_reset_variant ss) = None
             then [sdiag m si ''E_STATE_RESET_VARIANT''
                    (''state type `'' @ st_name (ss_state_type ss) @ ''` has no reset variant `''
                     @ ss_reset_variant ss @ ''`'')] else []))"

definition validate_state_types :: "rmodule \<Rightarrow> diagnostic list" where
  "validate_state_types m =
     state_type_loop m [] [] (m_state_types m)
     @ concat (map (state_signal_diags m) (m_state_signals m))"

section \<open>Bundle types\<close>

definition validate_bundle_field_name :: "rmodule \<Rightarrow> string \<Rightarrow> string \<Rightarrow> string list \<Rightarrow> diagnostic list" where
  "validate_bundle_field_name m ctx n seen =
     (if n = [] then [mdiag m ''E_BUNDLE_FIELD_NAME''
                       (''bundle type `'' @ ctx @ ''` has an empty field name'')] else [])
     @ (if n \<in> set seen then [mdiag m ''E_BUNDLE_FIELD_DUP''
                               (''bundle type `'' @ ctx @ ''` has duplicate field `'' @ n @ ''`'')] else [])"

fun validate_bundle_type_fields :: "rmodule \<Rightarrow> bundle_type \<Rightarrow> string \<Rightarrow> diagnostic list"
and bundle_fields_loop :: "rmodule \<Rightarrow> string \<Rightarrow> string list \<Rightarrow> bundle_field list \<Rightarrow> diagnostic list" where
  "validate_bundle_type_fields m (BundleType bn fs) ctx =
     (if fs = [] then [mdiag m ''E_BUNDLE_TYPE_EMPTY'' (''bundle type `'' @ ctx @ ''` has no fields'')]
      else [])
     @ bundle_fields_loop m ctx [] fs"
| "bundle_fields_loop m ctx seen [] = []"
| "bundle_fields_loop m ctx seen (LeafField n ty # fs) =
     validate_bundle_field_name m ctx n seen
     @ (if bt_width ty = 0
        then [mdiag m ''E_BUNDLE_FIELD_WIDTH''
               (''bundle field `'' @ ctx @ ''.'' @ n @ ''` must have non-zero width'')] else [])
     @ bundle_fields_loop m ctx (n # seen) fs"
| "bundle_fields_loop m ctx seen (NestedField n b # fs) =
     validate_bundle_field_name m ctx n seen
     @ (if bundle_name b = []
        then [mdiag m ''E_BUNDLE_TYPE_NAME''
               (''nested bundle field `'' @ ctx @ ''.'' @ n @ ''` has an empty type name'')] else [])
     @ validate_bundle_type_fields m b (ctx @ ''.'' @ n)
     @ bundle_fields_loop m ctx (n # seen) fs"

fun join_path :: "string list \<Rightarrow> string" where
  "join_path [] = []"
| "join_path [p] = p"
| "join_path (p # ps) = p @ ''.'' @ join_path ps"

definition expected_fields :: "bundle_type \<Rightarrow> (string list \<times> bit_type) list" where
  "expected_fields b = map (\<lambda>l. (leaf_path l, leaf_ty l)) (leaf_fields b)"

text \<open>
  The loop over the fields of a bundle signal; the two callers differ in the diagnostic codes
  (the prefix \<open>code\<close>) and in what they call the signal (\<open>subject\<close>).
\<close>

fun bundle_signal_field_loop :: "rmodule \<Rightarrow> string \<Rightarrow> string \<Rightarrow> (string list \<rightharpoonup> bit_type) \<Rightarrow> string list list
    \<Rightarrow> bundle_signal_field list \<Rightarrow> diagnostic list" where
  "bundle_signal_field_loop m code subject expected seen [] = []"
| "bundle_signal_field_loop m code subject expected seen (f # fs) =
     (if bsf_path f \<in> set seen
      then [mdiag m (code @ ''_DUP'') (subject @ '' has duplicate field `'' @ join_path (bsf_path f) @ ''`'')]
      else [])
     @ (case expected (bsf_path f) of
          None \<Rightarrow> [mdiag m code (subject @ '' has unexpected field `'' @ join_path (bsf_path f) @ ''`'')]
        | Some ty \<Rightarrow>
            (case module_signal m (bsf_signal f) of
               None \<Rightarrow> [mdiag m code (subject @ '' field `'' @ join_path (bsf_path f)
                         @ ''` references an invalid signal'')]
             | Some si \<Rightarrow>
                 if si_ty si = ty then []
                 else [sdiag m si (code @ ''_TYPE'')
                        (subject @ '' field `'' @ join_path (bsf_path f) @ ''` has type ''
                         @ debug_bit_type (si_ty si) @ '', expected '' @ debug_bit_type ty)]))
     @ bundle_signal_field_loop m code subject expected (bsf_path f # seen) fs"

definition bundle_signal_fields_diags :: "hash_order \<Rightarrow> rmodule \<Rightarrow> string \<Rightarrow> string \<Rightarrow> bundle_type
    \<Rightarrow> bundle_signal_field list \<Rightarrow> diagnostic list" where
  "bundle_signal_fields_diags ord m code subject b fs =
     bundle_signal_field_loop m code subject (map_of (rev (expected_fields b))) [] fs
     @ concat (map (\<lambda>p. if p \<in> set (map bsf_path fs) then []
          else [mdiag m (code @ ''_MISSING'') (subject @ '' is missing field `'' @ join_path p @ ''`'')])
        (ho_paths ord (remdups (map fst (expected_fields b)))))"

fun bundle_type_loop :: "rmodule \<Rightarrow> string list \<Rightarrow> bundle_type list \<Rightarrow> diagnostic list" where
  "bundle_type_loop m seen [] = []"
| "bundle_type_loop m seen (b # bs) =
     (if bundle_name b = [] then [mdiag m ''E_BUNDLE_TYPE_NAME'' ''bundle type name is empty''] else [])
     @ (if bundle_name b \<in> set seen
        then [mdiag m ''E_BUNDLE_TYPE_DUP'' (''duplicate bundle type `'' @ bundle_name b @ ''`'')] else [])
     @ validate_bundle_type_fields m b (bundle_name b)
     @ bundle_type_loop m (bundle_name b # seen) bs"

fun bundle_signal_loop :: "hash_order \<Rightarrow> rmodule \<Rightarrow> string list \<Rightarrow> bundle_signal list \<Rightarrow> diagnostic list" where
  "bundle_signal_loop ord m seen [] = []"
| "bundle_signal_loop ord m seen (b # bs) =
     (if bs_name b = [] then [mdiag m ''E_BUNDLE_SIGNAL_NAME'' ''bundle signal name is empty''] else [])
     @ (if bs_name b \<in> set seen
        then [mdiag m ''E_BUNDLE_SIGNAL_DUP'' (''duplicate bundle signal `'' @ bs_name b @ ''`'')] else [])
     @ bundle_signal_fields_diags ord m ''E_BUNDLE_SIGNAL_FIELD'' (''bundle signal `'' @ bs_name b @ ''`'')
         (bs_bundle_type b) (bs_fields b)
     @ bundle_signal_loop ord m (bs_name b # seen) bs"

definition validate_bundle_types :: "hash_order \<Rightarrow> rmodule \<Rightarrow> diagnostic list" where
  "validate_bundle_types ord m =
     bundle_type_loop m [] (m_bundle_types m) @ bundle_signal_loop ord m [] (m_bundle_signals m)"

section \<open>Interface types\<close>

definition validate_interface_port ::
  "rmodule \<Rightarrow> interface_type \<Rightarrow> interface_port \<Rightarrow> string list \<Rightarrow> diagnostic list" where
  "validate_interface_port m it p seen =
     (if ip_name p = []
      then [mdiag m ''E_INTERFACE_PORT_NAME''
             (''interface type `'' @ it_name it @ ''` has an empty port name'')] else [])
     @ (if ip_name p \<in> set seen
        then [mdiag m ''E_INTERFACE_PORT_DUP''
               (''interface type `'' @ it_name it @ ''` has duplicate port `'' @ ip_name p @ ''`'')] else [])
     @ (case ip_ty p of
          PortScalar ty \<Rightarrow>
            (if bt_width ty = 0
             then [mdiag m ''E_INTERFACE_PORT_WIDTH''
                    (''interface type `'' @ it_name it @ ''` scalar port `'' @ ip_name p
                     @ ''` must have non-zero width'')] else [])
        | PortBundle b \<Rightarrow> validate_bundle_type_fields m b (it_name it @ ''.'' @ ip_name p))"

fun interface_port_loop :: "rmodule \<Rightarrow> interface_type \<Rightarrow> string list \<Rightarrow> interface_port list \<Rightarrow> diagnostic list" where
  "interface_port_loop m it seen [] = []"
| "interface_port_loop m it seen (p # ps) =
     validate_interface_port m it p seen @ interface_port_loop m it (ip_name p # seen) ps"

fun interface_type_loop :: "rmodule \<Rightarrow> string list \<Rightarrow> interface_type list \<Rightarrow> diagnostic list" where
  "interface_type_loop m seen [] = []"
| "interface_type_loop m seen (it # its) =
     (if it_name it = [] then [mdiag m ''E_INTERFACE_TYPE_NAME'' ''interface type name is empty''] else [])
     @ (if it_name it \<in> set seen
        then [mdiag m ''E_INTERFACE_TYPE_DUP'' (''duplicate interface type `'' @ it_name it @ ''`'')] else [])
     @ (if it_ports it = []
        then [mdiag m ''E_INTERFACE_TYPE_EMPTY'' (''interface type `'' @ it_name it @ ''` has no ports'')] else [])
     @ interface_port_loop m it [] (it_ports it)
     @ interface_type_loop m (it_name it # seen) its"

definition validate_interface_signal_bundle_port :: "hash_order \<Rightarrow> rmodule \<Rightarrow> interface_signal \<Rightarrow> string
    \<Rightarrow> bundle_type \<Rightarrow> bundle_signal_field list \<Rightarrow> diagnostic list" where
  "validate_interface_signal_bundle_port ord m isg pn b fs =
     bundle_signal_fields_diags ord m ''E_INTERFACE_SIGNAL_FIELD''
       (''interface signal `'' @ is_name isg @ ''` port `'' @ pn @ ''`'') b fs"

definition validate_interface_signal_port :: "hash_order \<Rightarrow> rmodule \<Rightarrow> interface_signal \<Rightarrow> interface_port
    \<Rightarrow> interface_signal_port \<Rightarrow> diagnostic list" where
  "validate_interface_signal_port ord m isg ep p =
     (case (ip_ty ep, isp_signals p) of
        (PortScalar ty, PortScalarSignal s) \<Rightarrow>
          (case module_signal m s of
             None \<Rightarrow> [mdiag m ''E_INTERFACE_SIGNAL_PORT''
                       (''interface signal `'' @ is_name isg @ ''` scalar port `'' @ isp_name p
                        @ ''` references an invalid signal'')]
           | Some si \<Rightarrow>
               if si_ty si = ty then []
               else [sdiag m si ''E_INTERFACE_SIGNAL_PORT_TYPE''
                      (''interface signal `'' @ is_name isg @ ''` scalar port `'' @ isp_name p
                       @ ''` has type '' @ debug_bit_type (si_ty si) @ '', expected ''
                       @ debug_bit_type ty)])
      | (PortBundle b, PortBundleSignals fs) \<Rightarrow>
          validate_interface_signal_bundle_port ord m isg (isp_name p) b fs
      | (PortScalar ty, PortBundleSignals fs) \<Rightarrow>
          [mdiag m ''E_INTERFACE_SIGNAL_PORT_KIND''
            (''interface signal `'' @ is_name isg @ ''` port `'' @ isp_name p
             @ ''` is a bundle, expected scalar'')]
      | (PortBundle b, PortScalarSignal s) \<Rightarrow>
          [mdiag m ''E_INTERFACE_SIGNAL_PORT_KIND''
            (''interface signal `'' @ is_name isg @ ''` port `'' @ isp_name p
             @ ''` is scalar, expected bundle'')])"

definition debug_direction :: "interface_direction \<Rightarrow> string" where
  "debug_direction dir = (case dir of DirInput \<Rightarrow> ''Input'' | DirOutput \<Rightarrow> ''Output'')"

fun interface_signal_port_loop :: "hash_order \<Rightarrow> rmodule \<Rightarrow> interface_signal \<Rightarrow> (string \<rightharpoonup> interface_port)
    \<Rightarrow> string list \<Rightarrow> interface_signal_port list \<Rightarrow> diagnostic list" where
  "interface_signal_port_loop ord m isg expected seen [] = []"
| "interface_signal_port_loop ord m isg expected seen (p # ps) =
     (if isp_name p \<in> set seen
      then [mdiag m ''E_INTERFACE_SIGNAL_PORT_DUP''
             (''interface signal `'' @ is_name isg @ ''` has duplicate port `'' @ isp_name p @ ''`'')] else [])
     @ (case expected (isp_name p) of
          None \<Rightarrow> [mdiag m ''E_INTERFACE_SIGNAL_PORT''
                    (''interface signal `'' @ is_name isg @ ''` has unexpected port `'' @ isp_name p @ ''`'')]
        | Some ep \<Rightarrow>
            (if isp_direction p = ip_direction ep then []
             else [mdiag m ''E_INTERFACE_SIGNAL_DIRECTION''
                    (''interface signal `'' @ is_name isg @ ''` port `'' @ isp_name p
                     @ ''` has direction '' @ debug_direction (isp_direction p) @ '', expected ''
                     @ debug_direction (ip_direction ep))])
            @ validate_interface_signal_port ord m isg ep p)
     @ interface_signal_port_loop ord m isg expected (isp_name p # seen) ps"

fun interface_signal_loop :: "hash_order \<Rightarrow> rmodule \<Rightarrow> string list \<Rightarrow> interface_signal list \<Rightarrow> diagnostic list" where
  "interface_signal_loop ord m seen [] = []"
| "interface_signal_loop ord m seen (isg # isgs) =
     (let expected = map (\<lambda>p. (ip_name p, p)) (it_ports (is_interface_type isg))
      in (if is_name isg = []
          then [mdiag m ''E_INTERFACE_SIGNAL_NAME'' ''interface signal name is empty''] else [])
         @ (if is_name isg \<in> set seen
            then [mdiag m ''E_INTERFACE_SIGNAL_DUP''
                   (''duplicate interface signal `'' @ is_name isg @ ''`'')] else [])
         @ interface_signal_port_loop ord m isg (map_of (rev expected)) [] (is_ports isg)
         @ concat (map (\<lambda>n. if n \<in> set (map isp_name (is_ports isg)) then []
              else [mdiag m ''E_INTERFACE_SIGNAL_PORT_MISSING''
                     (''interface signal `'' @ is_name isg @ ''` is missing port `'' @ n @ ''`'')])
            (ho_names ord (remdups (map fst expected))))
         @ interface_signal_loop ord m (is_name isg # seen) isgs)"

definition validate_interface_types :: "hash_order \<Rightarrow> rmodule \<Rightarrow> diagnostic list" where
  "validate_interface_types ord m =
     interface_type_loop m [] (m_interface_types m)
     @ interface_signal_loop ord m [] (m_interface_signals m)"

section \<open>What the bundle checks accept\<close>

definition field_ok :: "rmodule \<Rightarrow> (string list \<rightharpoonup> bit_type) \<Rightarrow> bundle_signal_field \<Rightarrow> bool" where
  "field_ok m expected f \<longleftrightarrow> (\<exists>si. module_signal m (bsf_signal f) = Some si \<and>
     expected (bsf_path f) = Some (si_ty si))"

lemma bundle_field_loop_quiet:
  "bundle_signal_field_loop m code subject expected seen fs = [] \<longleftrightarrow>
     list_all (field_ok m expected) fs \<and> distinct (map bsf_path fs)
     \<and> set (map bsf_path fs) \<inter> set seen = {}"
  by (induction fs arbitrary: seen) (auto simp: field_ok_def split: option.splits)

lemma bundle_signal_fields_quiet:
  assumes "hash_iteration ord"
  shows "bundle_signal_fields_diags ord m code subject b fs = [] \<longleftrightarrow>
    list_all (field_ok m (map_of (rev (expected_fields b)))) fs \<and> distinct (map bsf_path fs)
    \<and> set (map bsf_path fs) = leaf_path ` set (leaf_fields b)"
proof -
  have keys: "set (ho_paths ord (remdups (map fst (expected_fields b)))) = leaf_path ` set (leaf_fields b)"
    using assms by (force simp: hash_iteration_def expected_fields_def)
  have sub: "bsf_path f \<in> leaf_path ` set (leaf_fields b)"
    if "field_ok m (map_of (rev (expected_fields b))) f" for f
    using that by (auto simp: field_ok_def expected_fields_def dest!: map_of_SomeD)
  show ?thesis
    unfolding bundle_signal_fields_diags_def append_is_Nil_conv bundle_field_loop_quiet concat_map_Nil_iff keys
    using sub by (auto simp: list_all_iff)
qed

lemma sanitize_idem: "sanitize_sv_ident (sanitize_sv_ident n) = sanitize_sv_ident n"
proof -
  have us: "\<not> is_ascii_alphanumeric CHR ''_''" by (simp add: is_ascii_alphanumeric_def)
  have "(if is_ascii_alphanumeric d then to_ascii_uppercase d else CHR ''_'') = d"
    if "d = (if is_ascii_alphanumeric c then to_ascii_uppercase c else CHR ''_'')" for c d
  proof (cases "is_ascii_alphanumeric c")
    case False
    with that us show ?thesis by simp
  next
    case True
    let ?n = "of_char c :: nat"
    show ?thesis
    proof (cases "97 \<le> ?n \<and> ?n \<le> 122")
      case True
      with that \<open>is_ascii_alphanumeric c\<close> have "(of_char d :: nat) = ?n - 32"
        by (auto simp: to_ascii_uppercase_def Let_def)
      with True show ?thesis by (auto simp: to_ascii_uppercase_def is_ascii_alphanumeric_def Let_def)
    next
      case False
      with that True have "d = c" by (auto simp: to_ascii_uppercase_def Let_def)
      with that True show ?thesis by simp
    qed
  qed
  then show ?thesis by (simp add: sanitize_sv_ident_def)
qed

end
