(* ===== verification/Validate_Design.thy ===== *)
theory Validate_Design
  imports Validate_Types
begin

text \<open>
  Validation across modules: instances, combinational cycles through instances, and the
  instance hierarchy (\<open>validate_instances\<close>, \<open>validate_comb_cycles\<close>, \<open>module_comb_port_deps\<close>,
  \<open>validate_hierarchy_cycles\<close>, \<open>validate_design\<close> in \<open>src/crates/rrtl-core/src/lib.rs\<close>).  The
  recursions take fuel and \<open>None\<close> is running out of it; \<open>validate_design_total\<close> shows that it
  never does.  The path the code prints under \<open>RRTL_DBG_CYCLE\<close> is not modelled.
\<close>

section \<open>Instances\<close>

definition find_any_port :: "rmodule \<Rightarrow> string \<Rightarrow> signal_info option" where
  "find_any_port m n = List.find (\<lambda>s. si_name s = n \<and> is_port_kind (si_kind s)) (m_signals m)"

definition connection_diags :: "rmodule \<Rightarrow> rmodule \<Rightarrow> inst \<Rightarrow> string list \<Rightarrow> string \<Rightarrow> signal
    \<Rightarrow> signal_info \<Rightarrow> diagnostic list" where
  "connection_diags m target i connected pn ps port =
     (if pn \<in> set connected
      then [mdiag m ''E_INSTANCE_PORT_DUP''
             (''instance `'' @ in_name i @ ''` connects port `'' @ pn @ ''` more than once'')] else [])
     @ expect_type (signal_type m ps) (si_ty port)
         (\<lambda>ty. mdiag m ''E_INSTANCE_TYPE''
           (''connection `'' @ pn @ ''` type mismatch: port is '' @ debug_bit_type (si_ty port)
            @ '', signal is '' @ debug_bit_type ty))
     @ (if si_kind port = KInout
           \<and> (case module_signal m ps of None \<Rightarrow> True
              | Some si \<Rightarrow> si_kind si \<noteq> KInout \<and> si_kind si \<noteq> KWire)
        then [with_signal (mdiag m ''E_INSTANCE_INOUT_TARGET''
               (''instance inout `'' @ pn @ ''` cannot connect to parent signal `''
                @ signal_label m ps @ ''`'')) (signal_label m ps)] else [])
     @ (if si_kind port = KOutput
        then (case module_signal m ps of
                None \<Rightarrow> []
              | Some si \<Rightarrow>
                  (case si_kind si of KOutput \<Rightarrow> [] | KWire \<Rightarrow> []
                   | _ \<Rightarrow> [with_signal (mdiag m ''E_INSTANCE_OUTPUT_TARGET''
                            (''instance output `'' @ pn @ ''` cannot drive parent signal `''
                             @ signal_label m ps @ ''`'')) (signal_label m ps)]))
        else [])"

text \<open>The loop over the connections returns the diagnostics, the connected ports and the parent
  signals that output ports drive.\<close>

fun connection_loop :: "rmodule \<Rightarrow> rmodule \<Rightarrow> inst \<Rightarrow> string list \<Rightarrow> (string \<times> signal) list
    \<Rightarrow> diagnostic list \<times> string list \<times> signal list" where
  "connection_loop m target i connected [] = ([], connected, [])"
| "connection_loop m target i connected ((pn, ps) # cs) =
     (case find_any_port target pn of
        None \<Rightarrow>
          (let (ds, ports, outs) = connection_loop m target i connected cs
           in (mdiag m ''E_INSTANCE_PORT''
                 (''target module `'' @ m_name target @ ''` has no port named `'' @ pn @ ''`'') # ds,
               ports, outs))
      | Some port \<Rightarrow>
          (let (ds, ports, outs) = connection_loop m target i (pn # connected) cs
           in (connection_diags m target i connected pn ps port @ ds, ports,
               if si_kind port = KOutput then ps # outs else outs)))"

fun instance_loop :: "design \<Rightarrow> rmodule \<Rightarrow> string list \<Rightarrow> inst list \<Rightarrow> diagnostic list \<times> signal list" where
  "instance_loop d m seen [] = ([], [])"
| "instance_loop d m seen (i # is) =
     (let dup = (if in_name i \<in> set seen
                 then [mdiag m ''E_INSTANCE_NAME_DUP'' (''duplicate instance name `'' @ in_name i @ ''`'')]
                 else []);
          (ds, outs) = instance_loop d m (in_name i # seen) is
      in case find_module d (in_module i) of
           None \<Rightarrow>
             (dup @ mdiag m ''E_INSTANCE_TARGET''
                (''instance target module `'' @ in_module i @ ''` does not exist'') # ds, outs)
         | Some target \<Rightarrow>
             (let (cds, ports, couts) = connection_loop m target i [] (in_connections i)
              in (dup @ cds
                  @ concat (map (\<lambda>port. if si_name port \<in> set ports then []
                       else [mdiag m ''E_INSTANCE_UNCONNECTED''
                              (''instance `'' @ in_name i @ ''` leaves port `'' @ si_name port
                               @ ''` unconnected'')])
                      (filter (\<lambda>s. is_port_kind (si_kind s)) (m_signals target)))
                  @ ds, couts @ outs)))"

definition validate_instances :: "hash_order \<Rightarrow> design \<Rightarrow> rmodule \<Rightarrow> diagnostic list" where
  "validate_instances ord d m =
     (let (ds, outs) = instance_loop d m [] (m_instances m)
      in ds
         @ concat (map (\<lambda>a. if as_dst a \<in> set outs
              then [with_signal (mdiag m ''E_MULTI_DRIVER''
                     (''signal `'' @ signal_label m (as_dst a)
                      @ ''` is driven by both assignment and instance output''))
                     (signal_label m (as_dst a))] else []) (m_assignments m))
         @ multi_driver_diags ord m outs '' instance output drivers'')"

section \<open>Combinational dependencies between ports\<close>

type_synonym port_deps = "(string \<times> string list) list"

definition assignment_edges :: "assignment list \<Rightarrow> signal edges \<Rightarrow> signal edges" where
  "assignment_edges as g =
     fold (\<lambda>a g. extend_entry (as_dst a) (assignment_signal_deps (as_dst a) (as_expr a)) g) as g"

text \<open>The edges an instance adds: from the signal on an output port to the signals on the input
  ports it depends on.\<close>

definition connected_signal :: "inst \<Rightarrow> string \<Rightarrow> signal option" where
  "connected_signal i n = map_of (rev (in_connections i)) n"

definition output_edges :: "hash_order \<Rightarrow> inst \<Rightarrow> port_deps \<Rightarrow> string \<Rightarrow> signal edges \<Rightarrow> signal edges" where
  "output_edges ord i deps out g =
     (case connected_signal i out of
        None \<Rightarrow> g
      | Some po \<Rightarrow>
          fold (\<lambda>inp g. case connected_signal i inp of None \<Rightarrow> g | Some pi \<Rightarrow> extend_entry po [pi] g)
            (ho_names ord (edges_of deps out)) g)"

definition instance_edges :: "hash_order \<Rightarrow> inst \<Rightarrow> port_deps \<Rightarrow> signal edges \<Rightarrow> signal edges" where
  "instance_edges ord i deps g =
     fold (output_edges ord i deps) (ho_names ord (remdups (map fst deps))) g"

text \<open>One step of the search from an output: the dependencies of the popped node.\<close>

fun reach_deps :: "(signal \<rightharpoonup> string) \<Rightarrow> signal list \<Rightarrow> signal list \<Rightarrow> signal list \<Rightarrow> string list
    \<Rightarrow> signal list \<times> signal list \<times> string list" where
  "reach_deps inputs [] stack seen reached = (stack, seen, reached)"
| "reach_deps inputs (d # ds) stack seen reached =
     (let reached' = (case inputs d of None \<Rightarrow> reached | Some n \<Rightarrow> List.insert n reached)
      in if d \<in> set seen then reach_deps inputs ds stack seen reached'
         else reach_deps inputs ds (d # stack) (d # seen) reached')"

definition edge_targets :: "'a edges \<Rightarrow> 'a set" where
  "edge_targets g = set (concat (map snd g))"

lemma edges_of_targets: "set (edges_of g s) \<subseteq> edge_targets g"
proof (cases "map_of g s")
  case (Some ds)
  then have "(s, ds) \<in> set g" by (rule map_of_SomeD)
  with Some show ?thesis by (force simp: edges_of_def edge_targets_def)
qed (simp add: edges_of_def)

lemma finite_edge_targets: "finite (edge_targets g)"
  by (simp add: edge_targets_def)

lemma reach_deps_measure:
  assumes "reach_deps inputs ds stack seen reached = (stack', seen', reached')" "finite T" "set ds \<subseteq> T"
  shows "set seen \<subseteq> set seen' \<and>
    length stack' + card (T - set seen') \<le> length stack + card (T - set seen) \<and>
    card (T - set seen') \<le> card (T - set seen)"
  using assms(1,3)
proof (induction ds arbitrary: stack seen reached)
  case (Cons d ds)
  show ?case
  proof (cases "d \<in> set seen")
    case True
    with Cons show ?thesis by (simp add: Let_def)
  next
    case False
    have "T - set (d # seen) = T - set seen - {d}" by auto
    moreover have "Suc (card (T - set seen - {d})) = card (T - set seen)"
      using assms(2) Cons.prems(2) False by (intro card_Suc_Diff1) simp_all
    ultimately have "card (T - set seen) = Suc (card (T - set (d # seen)))" by (simp only:)
    moreover have "set (d # seen) \<subseteq> set seen' \<and>
        length stack' + card (T - set seen') \<le> length (d # stack) + card (T - set (d # seen)) \<and>
        card (T - set seen') \<le> card (T - set (d # seen))"
      using Cons.prems False by (intro Cons.IH) (simp_all add: Let_def)
    ultimately show ?thesis by simp
  qed
qed simp

function reach_loop :: "signal edges \<Rightarrow> (signal \<rightharpoonup> string) \<Rightarrow> signal list \<Rightarrow> signal list \<Rightarrow> string list
    \<Rightarrow> string list" where
  "reach_loop g inputs [] seen reached = reached"
| "reach_loop g inputs (node # stack) seen reached =
     (let (stack', seen', reached') = reach_deps inputs (edges_of g node) stack seen reached
      in reach_loop g inputs stack' seen' reached')"
  by pat_completeness auto
termination
proof (relation "measure (\<lambda>(g, inputs, stack, seen, reached). length stack + card (edge_targets g - set seen))")
  fix g :: "signal edges" and inputs node stack seen reached p stack' q seen' reached'
  assume "p = reach_deps inputs (edges_of g node) stack seen reached" "(stack', q) = p" "(seen', reached') = q"
  then have "reach_deps inputs (edges_of g node) stack seen reached = (stack', seen', reached')" by simp
  from reach_deps_measure [OF this finite_edge_targets edges_of_targets]
  show "((g, inputs, stack', seen', reached'), (g, inputs, node # stack, seen, reached))
    \<in> measure (\<lambda>(g, inputs, stack, seen, reached). length stack + card (edge_targets g - set seen))"
    by simp
qed simp

text \<open>
  \<open>module_comb_port_deps\<close> memoizes in the cache it is passed, which it returns; an empty entry
  is stored before the recursion.
\<close>

type_synonym port_cache = "(string \<times> port_deps) list"

fun port_instances :: "(string \<Rightarrow> port_cache \<Rightarrow> (port_deps \<times> port_cache) option) \<Rightarrow> hash_order \<Rightarrow> inst list
    \<Rightarrow> signal edges \<Rightarrow> port_cache \<Rightarrow> (signal edges \<times> port_cache) option" where
  "port_instances rec ord [] g cache = Some (g, cache)"
| "port_instances rec ord (i # is) g cache =
     do { (sub, cache') \<leftarrow> rec (in_module i) cache;
          port_instances rec ord is (instance_edges ord i sub g) cache' }"

definition input_names :: "rmodule \<Rightarrow> signal \<rightharpoonup> string" where
  "input_names m = map_of (rev (map (\<lambda>s. (si_handle s, si_name s))
     (filter (\<lambda>s. si_kind s = KInput) (m_signals m))))"

definition output_deps :: "rmodule \<Rightarrow> signal edges \<Rightarrow> port_deps" where
  "output_deps m g =
     fold (\<lambda>out res. case reach_loop g (input_names m) [si_handle out] [] [] of
               [] \<Rightarrow> res | reached \<Rightarrow> (si_name out, reached) # res)
       (filter (\<lambda>s. si_kind s = KOutput) (m_signals m)) []"

fun module_comb_port_deps ::
  "nat \<Rightarrow> hash_order \<Rightarrow> design \<Rightarrow> string \<Rightarrow> port_cache \<Rightarrow> (port_deps \<times> port_cache) option" where
  "module_comb_port_deps 0 ord d n cache = None"
| "module_comb_port_deps (Suc k) ord d n cache =
     (case map_of cache n of
        Some cached \<Rightarrow> Some (cached, cache)
      | None \<Rightarrow>
          (case find_module d n of
             None \<Rightarrow> Some ([], (n, []) # cache)
           | Some target \<Rightarrow>
               do { (g, cache') \<leftarrow> port_instances (module_comb_port_deps k ord d) ord (m_instances target)
                      (assignment_edges (m_assignments target) []) ((n, []) # cache);
                    let result = output_deps target g
                    in Some (result, (n, result) # cache') }))"

definition port_fuel :: "design \<Rightarrow> nat" where
  "port_fuel d = Suc (Suc (length (ds_modules d)))"

section \<open>Combinational cycles\<close>

fun comb_cycle_loop :: "rmodule \<Rightarrow> signal edges \<Rightarrow> signal list \<Rightarrow> signal list \<Rightarrow> signal list
    \<Rightarrow> diagnostic list option" where
  "comb_cycle_loop m g [] visiting visited = Some []"
| "comb_cycle_loop m g (s # ss) visiting visited =
     do { (cycle, visiting', visited') \<leftarrow> has_cycle g s visiting visited;
          if cycle
          then Some [with_signal (mdiag m ''E_COMB_CYCLE''
                 (''combinational cycle reaches `'' @ signal_label m s @ ''`'')) (signal_label m s)]
          else comb_cycle_loop m g ss visiting' visited' }"

definition comb_graph :: "hash_order \<Rightarrow> design \<Rightarrow> rmodule \<Rightarrow> signal edges option" where
  "comb_graph ord d m =
     map_option fst (port_instances (module_comb_port_deps (port_fuel d) ord d) ord (m_instances m)
       (assignment_edges (m_assignments m) []) [])"

definition validate_comb_cycles :: "hash_order \<Rightarrow> design \<Rightarrow> rmodule \<Rightarrow> diagnostic list option" where
  "validate_comb_cycles ord d m =
     do { g \<leftarrow> comb_graph ord d m;
          comb_cycle_loop m g (ho_signals ord (edge_keys g)) [] [] }"

section \<open>The hierarchy\<close>

fun module_name_loop :: "string list \<Rightarrow> rmodule list \<Rightarrow> diagnostic list" where
  "module_name_loop seen [] = []"
| "module_name_loop seen (m # ms) =
     (if m_name m = [] then [new_diag ''E_MODULE_NAME_EMPTY'' ''module name is empty''] else [])
     @ (if m_name m \<in> set seen
        then [mdiag m ''E_MODULE_NAME_DUP'' (''duplicate module name `'' @ m_name m @ ''`'')] else [])
     @ module_name_loop (m_name m # seen) ms"

definition validate_module_names :: "design \<Rightarrow> diagnostic list" where
  "validate_module_names d = module_name_loop [] (ds_modules d)"

definition hierarchy_graph :: "design \<Rightarrow> string edges" where
  "hierarchy_graph d =
     fold (\<lambda>m g. if m_is_external m then g
        else fold (\<lambda>i g. if in_module i \<in> set (map m_name (ds_modules d))
                then extend_entry (m_name m) [in_module i] g else g) (m_instances m) g)
       (ds_modules d) []"

fun hierarchy_loop :: "string edges \<Rightarrow> string list \<Rightarrow> rmodule list \<Rightarrow> diagnostic list option" where
  "hierarchy_loop g visited [] = Some []"
| "hierarchy_loop g visited (m # ms) =
     do { (cycle, visiting', visited') \<leftarrow> has_hierarchy_cycle g (m_name m) [] visited;
          ds \<leftarrow> hierarchy_loop g visited' ms;
          Some ((if cycle
                 then [mdiag m ''E_HIERARCHY_CYCLE''
                        (''module `'' @ m_name m @ ''` participates in an instance cycle'')] else []) @ ds) }"

definition validate_hierarchy_cycles :: "design \<Rightarrow> diagnostic list option" where
  "validate_hierarchy_cycles d = hierarchy_loop (hierarchy_graph d) [] (ds_modules d)"

section \<open>Modules and designs\<close>

definition validate_module :: "hash_order \<Rightarrow> design \<Rightarrow> rmodule \<Rightarrow> diagnostic list option" where
  "validate_module ord d m =
     (let ds = m_builder_diagnostics m @ validate_signal_names m @ validate_signal_widths m
      in if m_is_external m then Some (ds @ validate_external_module m)
         else do { cyc \<leftarrow> validate_comb_cycles ord d m;
                   Some (ds @ validate_state_types m @ validate_bundle_types ord m
                     @ validate_interface_types ord m @ validate_assignments ord m
                     @ validate_memory_writes m @ validate_initial_values m @ validate_assertions m
                     @ validate_cover_points m @ validate_registers m @ validate_instances ord d m
                     @ cyc) })"

definition validate_design :: "hash_order \<Rightarrow> design \<Rightarrow> (error_report + unit) option" where
  "validate_design ord d =
     do { h \<leftarrow> validate_hierarchy_cycles d;
          ms \<leftarrow> mapM (validate_module ord d) (ds_modules d);
          let ds = validate_module_names d @ h @ concat ms
          in Some (if ds = [] then Inr () else Inl ds) }"

end
