(* ===== verification/Scalar_Eval.thy ===== *)
theory Scalar_Eval
  imports Expr_Type
begin

text \<open>
  Expression evaluation in the scalar simulator (\<open>Simulator::eval_expr\<close> in
  \<open>src/crates/rrtl-core/src/lib.rs\<close>), against a reference semantics.  The code evaluates on
  whole \<open>u128\<close> values and masks only when a value is stored, sliced, extended or truncated;
  the reference \<open>sem\<close> masks every node to the width of its type.  \<open>mask_safe\<close> says where the
  two must agree, and the last section shows where they do not.
\<close>

type_synonym sig_values = "signal \<rightharpoonup> u128"
type_synonym sig_memories = "signal \<rightharpoonup> u128 list"

definition get_value :: "sig_values \<Rightarrow> signal \<Rightarrow> u128" where
  "get_value V s = (case V s of None \<Rightarrow> 0 | Some v \<Rightarrow> v)"

text \<open>\<open>x as usize\<close> on a 64-bit target, and \<open>u128\<close> shifts with the overflow check.\<close>

definition as_usize :: "u128 \<Rightarrow> nat" where
  "as_usize v = unat (take_bit 64 v)"

definition shl_u128 :: "u128 \<Rightarrow> nat \<Rightarrow> u128 option" where
  "shl_u128 v n = (if n < 128 then Some (push_bit n v) else None)"

definition shr_u128 :: "u128 \<Rightarrow> nat \<Rightarrow> u128 option" where
  "shr_u128 v n = (if n < 128 then Some (drop_bit n v) else None)"

definition u128_from_bool :: "bool \<Rightarrow> u128" where
  "u128_from_bool b = of_bool b"

text \<open>The loop of the \<open>Concat\<close> case, over the parts from the last to the first.\<close>

fun concat_loop :: "(u128 option \<times> width option) list \<Rightarrow> u128 \<Rightarrow> width \<Rightarrow> u128 option" where
  "concat_loop [] value shift = Some value"
| "concat_loop ((v, w) # ps) value shift =
     do { x \<leftarrow> v; y \<leftarrow> shl_u128 x shift;
          concat_loop ps (value OR y) (shift + (case w of None \<Rightarrow> 0 | Some n \<Rightarrow> n)) }"

fun eval_expr :: "rmodule \<Rightarrow> sig_values \<Rightarrow> sig_memories \<Rightarrow> expr \<Rightarrow> u128 option" where
  "eval_expr m V M (Lit v ty) = Some (encode_value v ty)"
| "eval_expr m V M (Sig s) = Some (get_value V s)"
| "eval_expr m V M (ENot e) = do { a \<leftarrow> eval_expr m V M e; Some (NOT a) }"
| "eval_expr m V M (EAnd l r) =
     do { a \<leftarrow> eval_expr m V M l; b \<leftarrow> eval_expr m V M r; Some (a AND b) }"
| "eval_expr m V M (EOr l r) =
     do { a \<leftarrow> eval_expr m V M l; b \<leftarrow> eval_expr m V M r; Some (a OR b) }"
| "eval_expr m V M (EXor l r) =
     do { a \<leftarrow> eval_expr m V M l; b \<leftarrow> eval_expr m V M r; Some (a XOR b) }"
| "eval_expr m V M (EAdd l r) =
     do { a \<leftarrow> eval_expr m V M l; b \<leftarrow> eval_expr m V M r; Some (a + b) }"
| "eval_expr m V M (ESub l r) =
     do { a \<leftarrow> eval_expr m V M l; b \<leftarrow> eval_expr m V M r; Some (a - b) }"
| "eval_expr m V M (EMul l r) =
     do { a \<leftarrow> eval_expr m V M l; b \<leftarrow> eval_expr m V M r; Some (a * b) }"
| "eval_expr m V M (EEq l r) =
     do { a \<leftarrow> eval_expr m V M l; b \<leftarrow> eval_expr m V M r; Some (u128_from_bool (a = b)) }"
| "eval_expr m V M (ENe l r) =
     do { a \<leftarrow> eval_expr m V M l; b \<leftarrow> eval_expr m V M r; Some (u128_from_bool (a \<noteq> b)) }"
| "eval_expr m V M (ELt l r) =
     (let lty = (case expr_type_no_diag m l of None \<Rightarrow> uint_ty 128 | Some ty \<Rightarrow> ty)
      in do { a \<leftarrow> eval_expr m V M l;
              if is_signed lty
              then do { sa \<leftarrow> signed_value a (bt_width lty);
                        b \<leftarrow> eval_expr m V M r;
                        sb \<leftarrow> signed_value b (bt_width lty);
                        Some (u128_from_bool (sint sa < sint sb)) }
              else do { b \<leftarrow> eval_expr m V M r; Some (u128_from_bool (a < b)) } })"
| "eval_expr m V M (EMux c t e) =
     do { x \<leftarrow> eval_expr m V M c; if x \<noteq> 0 then eval_expr m V M t else eval_expr m V M e }"
| "eval_expr m V M (ESlice e lsb w) =
     do { a \<leftarrow> eval_expr m V M e; b \<leftarrow> shr_u128 a lsb; Some (b AND mask128 w) }"
| "eval_expr m V M (EZext e w) = do { a \<leftarrow> eval_expr m V M e; Some (a AND mask128 w) }"
| "eval_expr m V M (ETrunc e w) = do { a \<leftarrow> eval_expr m V M e; Some (a AND mask128 w) }"
| "eval_expr m V M (ESext e w) =
     (let ity = (case expr_type_no_diag m e of None \<Rightarrow> uint_ty w | Some ty \<Rightarrow> ty)
      in do { a \<leftarrow> eval_expr m V M e; s \<leftarrow> signed_value a (bt_width ity);
              Some (encode_value s (sint_ty w)) })"
| "eval_expr m V M (ECast e sg) = eval_expr m V M e"
| "eval_expr m V M (EConcat ps) =
     concat_loop (rev (map (\<lambda>p. (eval_expr m V M p, expr_width_no_diag m p)) ps)) 0 0"
| "eval_expr m V M (EMemRead mem a) =
     do { x \<leftarrow> eval_expr m V M a;
          Some (case M mem of None \<Rightarrow> 0
                | Some memory \<Rightarrow> (case vec_get memory (as_usize x) of None \<Rightarrow> 0 | Some v \<Rightarrow> v)) }"

section \<open>The reference semantics\<close>

definition type_width :: "rmodule \<Rightarrow> expr \<Rightarrow> width" where
  "type_width m e = (case expr_type_no_diag m e of None \<Rightarrow> 0 | Some ty \<Rightarrow> bt_width ty)"

definition type_signed :: "rmodule \<Rightarrow> expr \<Rightarrow> bool" where
  "type_signed m e = (case expr_type_no_diag m e of None \<Rightarrow> False | Some ty \<Rightarrow> is_signed ty)"

text \<open>The value of a concatenation: the first part holds the most significant bits.\<close>

definition concat_bits :: "(u128 \<times> width) list \<Rightarrow> u128" where
  "concat_bits ps = foldl (\<lambda>acc (v, w). push_bit w acc OR take_bit w v) 0 ps"

fun sem :: "rmodule \<Rightarrow> sig_values \<Rightarrow> sig_memories \<Rightarrow> expr \<Rightarrow> u128" where
  "sem m V M (Lit v ty) = take_bit (bt_width ty) v"
| "sem m V M (Sig s) = take_bit (type_width m (Sig s)) (get_value V s)"
| "sem m V M (ENot e) = take_bit (type_width m e) (NOT (sem m V M e))"
| "sem m V M (EAnd l r) = sem m V M l AND sem m V M r"
| "sem m V M (EOr l r) = sem m V M l OR sem m V M r"
| "sem m V M (EXor l r) = sem m V M l XOR sem m V M r"
| "sem m V M (EAdd l r) = take_bit (type_width m l) (sem m V M l + sem m V M r)"
| "sem m V M (ESub l r) = take_bit (type_width m l) (sem m V M l - sem m V M r)"
| "sem m V M (EMul l r) = take_bit (type_width m l) (sem m V M l * sem m V M r)"
| "sem m V M (EEq l r) = of_bool (sem m V M l = sem m V M r)"
| "sem m V M (ENe l r) = of_bool (sem m V M l \<noteq> sem m V M r)"
| "sem m V M (ELt l r) =
     of_bool (if type_signed m l
              then sval (type_width m l) (sem m V M l) < sval (type_width m l) (sem m V M r)
              else sem m V M l < sem m V M r)"
| "sem m V M (EMux c t e) = (if sem m V M c \<noteq> 0 then sem m V M t else sem m V M e)"
| "sem m V M (ESlice e lsb w) = take_bit w (drop_bit lsb (sem m V M e))"
| "sem m V M (EZext e w) = sem m V M e"
| "sem m V M (ETrunc e w) = take_bit w (sem m V M e)"
| "sem m V M (ESext e w) = take_bit w (word_of_int (sval (type_width m e) (sem m V M e)))"
| "sem m V M (ECast e sg) = sem m V M e"
| "sem m V M (EConcat ps) = concat_bits (map (\<lambda>p. (sem m V M p, type_width m p)) ps)"
| "sem m V M (EMemRead mem a) =
     take_bit (type_width m (EMemRead mem a))
       (case M mem of None \<Rightarrow> 0
        | Some memory \<Rightarrow> (case vec_get memory (as_usize (sem m V M a)) of None \<Rightarrow> 0 | Some v \<Rightarrow> v))"

section \<open>Where evaluation is exact\<close>

text \<open>
  \<open>eval_safe\<close>: no subterm is wider than 128 bits, and no signed comparison or sign extension
  reads a 127-bit value.  \<open>clean\<close>: the code's result has no bit above the type's width.
  \<open>mask_safe\<close>: every operand whose high bits matter is clean.
\<close>

fun eval_safe :: "rmodule \<Rightarrow> expr \<Rightarrow> bool" where
  "eval_safe m (Lit v ty) \<longleftrightarrow> bt_width ty \<le> 128"
| "eval_safe m (Sig s) \<longleftrightarrow> type_width m (Sig s) \<le> 128"
| "eval_safe m (ENot e) \<longleftrightarrow> eval_safe m e"
| "eval_safe m (EAnd l r) \<longleftrightarrow> eval_safe m l \<and> eval_safe m r"
| "eval_safe m (EOr l r) \<longleftrightarrow> eval_safe m l \<and> eval_safe m r"
| "eval_safe m (EXor l r) \<longleftrightarrow> eval_safe m l \<and> eval_safe m r"
| "eval_safe m (EAdd l r) \<longleftrightarrow> eval_safe m l \<and> eval_safe m r"
| "eval_safe m (ESub l r) \<longleftrightarrow> eval_safe m l \<and> eval_safe m r"
| "eval_safe m (EMul l r) \<longleftrightarrow> eval_safe m l \<and> eval_safe m r"
| "eval_safe m (EEq l r) \<longleftrightarrow> eval_safe m l \<and> eval_safe m r"
| "eval_safe m (ENe l r) \<longleftrightarrow> eval_safe m l \<and> eval_safe m r"
| "eval_safe m (ELt l r) \<longleftrightarrow> eval_safe m l \<and> eval_safe m r
     \<and> (type_signed m l \<longrightarrow> type_width m l \<noteq> 127)"
| "eval_safe m (EMux c t e) \<longleftrightarrow> eval_safe m c \<and> eval_safe m t \<and> eval_safe m e"
| "eval_safe m (ESlice e lsb w) \<longleftrightarrow> eval_safe m e"
| "eval_safe m (EZext e w) \<longleftrightarrow> eval_safe m e \<and> w \<le> 128"
| "eval_safe m (ESext e w) \<longleftrightarrow> eval_safe m e \<and> w \<le> 128 \<and> type_width m e \<noteq> 127"
| "eval_safe m (ETrunc e w) \<longleftrightarrow> eval_safe m e"
| "eval_safe m (ECast e sg) \<longleftrightarrow> eval_safe m e"
| "eval_safe m (EConcat ps) \<longleftrightarrow> (\<forall>p \<in> set ps. eval_safe m p \<and> 0 < type_width m p)
     \<and> sum_list (map (type_width m) ps) \<le> 128"
| "eval_safe m (EMemRead mem a) \<longleftrightarrow> eval_safe m a
     \<and> type_width m (EMemRead mem a) \<le> 128"

fun clean :: "expr \<Rightarrow> bool" where
  "clean (Lit v ty) = True"
| "clean (Sig s) = True"
| "clean (ENot e) = False"
| "clean (EAnd l r) = (clean l \<or> clean r)"
| "clean (EOr l r) = (clean l \<and> clean r)"
| "clean (EXor l r) = (clean l \<and> clean r)"
| "clean (EAdd l r) = False"
| "clean (ESub l r) = False"
| "clean (EMul l r) = False"
| "clean (EEq l r) = True"
| "clean (ENe l r) = True"
| "clean (ELt l r) = True"
| "clean (EMux c t e) = (clean t \<and> clean e)"
| "clean (ESlice e lsb w) = True"
| "clean (EZext e w) = True"
| "clean (ESext e w) = True"
| "clean (ETrunc e w) = True"
| "clean (ECast e sg) = clean e"
| "clean (EConcat ps) = True"
| "clean (EMemRead mem a) = True"

fun mask_safe :: "rmodule \<Rightarrow> expr \<Rightarrow> bool" where
  "mask_safe m (Lit v ty) = True"
| "mask_safe m (Sig s) = True"
| "mask_safe m (ENot e) = mask_safe m e"
| "mask_safe m (EAnd l r) = (mask_safe m l \<and> mask_safe m r)"
| "mask_safe m (EOr l r) = (mask_safe m l \<and> mask_safe m r)"
| "mask_safe m (EXor l r) = (mask_safe m l \<and> mask_safe m r)"
| "mask_safe m (EAdd l r) = (mask_safe m l \<and> mask_safe m r)"
| "mask_safe m (ESub l r) = (mask_safe m l \<and> mask_safe m r)"
| "mask_safe m (EMul l r) = (mask_safe m l \<and> mask_safe m r)"
| "mask_safe m (EEq l r) = (mask_safe m l \<and> mask_safe m r \<and> clean l \<and> clean r)"
| "mask_safe m (ENe l r) = (mask_safe m l \<and> mask_safe m r \<and> clean l \<and> clean r)"
| "mask_safe m (ELt l r) = (mask_safe m l \<and> mask_safe m r \<and> (type_signed m l \<or> clean l \<and> clean r))"
| "mask_safe m (EMux c t e) = (mask_safe m c \<and> mask_safe m t \<and> mask_safe m e \<and> clean c)"
| "mask_safe m (ESlice e lsb w) = mask_safe m e"
| "mask_safe m (EZext e w) = (mask_safe m e \<and> clean e)"
| "mask_safe m (ESext e w) = mask_safe m e"
| "mask_safe m (ETrunc e w) = mask_safe m e"
| "mask_safe m (ECast e sg) = mask_safe m e"
| "mask_safe m (EConcat ps) = (\<forall>p \<in> set ps. mask_safe m p \<and> clean p)"
| "mask_safe m (EMemRead mem a) = (mask_safe m a \<and> clean a)"

text \<open>The store invariant: every stored value fits the width of its signal or memory.\<close>

definition store_ok :: "rmodule \<Rightarrow> sig_values \<Rightarrow> sig_memories \<Rightarrow> bool" where
  "store_ok m V M \<longleftrightarrow>
     (\<forall>s si v. module_signal m s = Some si \<longrightarrow> V s = Some v \<longrightarrow> take_bit (bt_width (si_ty si)) v = v) \<and>
     (\<forall>s si mem v. module_signal m s = Some si \<longrightarrow> M s = Some mem \<longrightarrow> v \<in> set mem \<longrightarrow>
        take_bit (bt_width (si_ty si)) v = v)"

section \<open>Agreement with the reference semantics\<close>

lemma type_width_typed [simp]: "has_type m e ty \<Longrightarrow> type_width m e = bt_width ty"
  by (simp add: type_width_def)

lemma type_signed_typed [simp]: "has_type m e ty \<Longrightarrow> type_signed m e \<longleftrightarrow> is_signed ty"
  by (simp add: type_signed_def)

lemma concat_bits_snoc: "concat_bits (ps @ [(v, w)]) = push_bit w (concat_bits ps) OR take_bit w v"
  by (simp add: concat_bits_def)

lemma concat_loop_eq:
  assumes "\<forall>(v, w) \<in> set qs. take_bit w v = v \<and> 0 < w" "shift + sum_list (map snd qs) \<le> 128"
  shows "concat_loop (map (\<lambda>(v, w). (Some v, Some w)) qs) acc shift
    = Some (acc OR push_bit shift (concat_bits (rev qs)))"
  using assms
proof (induction qs arbitrary: acc shift)
  case Nil
  then show ?case by (simp add: concat_bits_def)
next
  case (Cons q qs)
  obtain v w where q: "q = (v, w)" by (cases q)
  with Cons.prems have "shift < 128" "take_bit w v = v" by auto
  with Cons q show ?case
    by (simp add: shl_u128_def concat_bits_snoc push_bit_or ac_simps or.assoc)
qed

lemma concat_bits_fits_aux:
  fixes ps :: "(u128 \<times> width) list"
  shows "take_bit (n + sum_list (map snd ps)) (foldl (\<lambda>acc (v, w). push_bit w acc OR take_bit w v) a ps)
   = foldl (\<lambda>acc (v, w). push_bit w acc OR take_bit w v) (take_bit n a) ps"
proof (induction ps arbitrary: n a)
  case (Cons p ps)
  obtain v w where p: "p = (v, w)" by (cases p)
  have "take_bit (n + w) (push_bit w a OR take_bit w v) = push_bit w (take_bit n a) OR take_bit w v"
    by (rule bit_word_eqI) (auto simp: bit_simps)
  with Cons [of "n + w"] p show ?case by (simp add: add.assoc)
qed simp

lemma concat_bits_fits: "take_bit (sum_list (map snd ps)) (concat_bits ps) = concat_bits ps"
  using concat_bits_fits_aux [of 0 ps 0] by (simp add: concat_bits_def)

lemma sval_take_bit: "w \<le> 128 \<Longrightarrow> sval w (take_bit w v) = sval w v"
  by (cases w) (auto simp: sval_def unsigned_take_bit_eq signed_take_bit_take_bit min_def)

lemma eval_safe_width: "has_type m e ty \<Longrightarrow> eval_safe m e \<Longrightarrow> bt_width ty \<le> 128"
proof (induction rule: has_type.induct)
  case (T_Concat ps tys)
  from T_Concat(1) have "map (type_width m) ps = map bt_width tys"
    by (induction rule: list_all2_induct) auto
  with T_Concat(3) show ?case by simp
next
  case (T_MemRead mem info aw dw depth a)
  then have "has_type m (EMemRead mem a) (si_ty info)" by (intro has_type.T_MemRead)
  with T_MemRead show ?case by simp
next
  case (T_Sig s si)
  then have "has_type m (Sig s) (si_ty si)" by (intro has_type.T_Sig)
  with T_Sig show ?case by simp
qed auto

lemma sem_fits: "has_type m e ty \<Longrightarrow> eval_safe m e \<Longrightarrow> take_bit (bt_width ty) (sem m V M e) = sem m V M e"
proof (induction rule: has_type.induct)
  case (T_Concat ps tys)
  from T_Concat(1) have *: "map (type_width m) ps = map bt_width tys"
    by (induction rule: list_all2_induct) auto
  show ?case
    using concat_bits_fits [of "map (\<lambda>p. (sem m V M p, type_width m p)) ps"] *
    by (simp add: comp_def)
next
  case (T_Zext e ty w)
  then show ?case by simp (metis min.absorb2 take_bit_take_bit)
next
  case (T_MemRead mem info aw dw depth a)
  then have "has_type m (EMemRead mem a) (si_ty info)" by (intro has_type.T_MemRead)
  then show ?case by simp
next
  case (T_Sig s si)
  then have "has_type m (Sig s) (si_ty si)" by (intro has_type.T_Sig)
  then show ?case by simp
qed (auto simp: take_bit_and take_bit_or take_bit_xor take_bit_of_bool_pos)

lemma store_ok_value:
  "store_ok m V M \<Longrightarrow> module_signal m s = Some si \<Longrightarrow>
     take_bit (bt_width (si_ty si)) (get_value V s) = get_value V s"
  by (auto simp: store_ok_def get_value_def split: option.splits)

lemma store_ok_memory:
  "store_ok m V M \<Longrightarrow> module_signal m s = Some si \<Longrightarrow> M s = Some mem \<Longrightarrow> v \<in> set mem \<Longrightarrow>
     take_bit (bt_width (si_ty si)) v = v"
  by (auto simp: store_ok_def)

definition agrees :: "rmodule \<Rightarrow> sig_values \<Rightarrow> sig_memories \<Rightarrow> expr \<Rightarrow> bit_type \<Rightarrow> bool" where
  "agrees m V M e ty \<longleftrightarrow> (\<exists>v. eval_expr m V M e = Some v
     \<and> take_bit (bt_width ty) v = sem m V M e \<and> (clean e \<longrightarrow> v = sem m V M e))"

lemma agreesE:
  assumes "agrees m V M e ty"
  obtains v where "eval_expr m V M e = Some v" "take_bit (bt_width ty) v = sem m V M e"
    "clean e \<longrightarrow> v = sem m V M e"
  using assms by (auto simp: agrees_def)

lemma agrees_concat:
  assumes "list_all2 (\<lambda>p ty. agrees m V M p ty \<and> clean p \<and> has_type m p ty
      \<and> take_bit (bt_width ty) (sem m V M p) = sem m V M p \<and> 0 < type_width m p) ps tys"
    and "sum_list (map (type_width m) ps) \<le> 128"
  shows "eval_expr m V M (EConcat ps) = Some (sem m V M (EConcat ps))"
proof -
  define qs where "qs = map (\<lambda>p. (sem m V M p, type_width m p)) ps"
  have parts: "map (\<lambda>p. (eval_expr m V M p, expr_width_no_diag m p)) ps
      = map (\<lambda>(v, w). (Some v, Some w)) qs"
    using assms(1) unfolding qs_def
    by (induction rule: list_all2_induct) (auto elim: agreesE)
  have ok: "\<forall>(v, w) \<in> set qs. take_bit w v = v \<and> 0 < w"
    using assms(1) unfolding qs_def by (induction rule: list_all2_induct) auto
  have "sum_list (map snd qs) \<le> 128" using assms(2) by (simp add: qs_def comp_def)
  with ok have "concat_loop (map (\<lambda>(v, w). (Some v, Some w)) (rev qs)) 0 0
      = Some (0 OR push_bit 0 (concat_bits (rev (rev qs))))"
    by (intro concat_loop_eq) (auto simp: rev_map [symmetric])
  then show ?thesis by (simp add: parts rev_map [symmetric] qs_def [symmetric])
qed

lemma agreesI:
  "eval_expr m V M e = Some v \<Longrightarrow> take_bit (bt_width ty) v = sem m V M e \<Longrightarrow>
     (clean e \<Longrightarrow> v = sem m V M e) \<Longrightarrow> agrees m V M e ty"
  by (auto simp: agrees_def)

lemma agrees_clean: "agrees m V M e ty \<Longrightarrow> clean e \<Longrightarrow> eval_expr m V M e = Some (sem m V M e)"
  by (auto simp: agrees_def)

lemma agrees_lt:
  assumes "agrees m V M l ty" "agrees m V M r ty" "has_type m l ty" "bt_width ty \<le> 128"
    "is_signed ty \<Longrightarrow> bt_width ty \<noteq> 127" "is_signed ty \<or> clean l \<and> clean r"
  shows "eval_expr m V M (ELt l r) = Some (sem m V M (ELt l r))"
proof (cases "is_signed ty")
  case True
  obtain a b where a: "eval_expr m V M l = Some a" "take_bit (bt_width ty) a = sem m V M l"
    and b: "eval_expr m V M r = Some b" "take_bit (bt_width ty) b = sem m V M r"
    using assms(1,2) by (auto elim!: agreesE)
  obtain sa where sa: "signed_value a (bt_width ty) = Some sa" "sint sa = sval (bt_width ty) a"
    using signed_value_Some [of "bt_width ty" a] assms(5) True by auto
  obtain sb where sb: "signed_value b (bt_width ty) = Some sb" "sint sb = sval (bt_width ty) b"
    using signed_value_Some [of "bt_width ty" b] assms(5) True by auto
  have "sval (bt_width ty) a = sval (bt_width ty) (sem m V M l)"
    "sval (bt_width ty) b = sval (bt_width ty) (sem m V M r)"
    using sval_take_bit [OF assms(4)] a(2) b(2) by metis+
  with True assms(3) a b sa sb show ?thesis by (simp add: u128_from_bool_def)
next
  case False
  with assms show ?thesis by (simp add: agrees_clean u128_from_bool_def)
qed

lemma agrees_sext:
  assumes "agrees m V M e ty" "has_type m e ty" "bt_width ty \<le> 128" "bt_width ty \<noteq> 127"
  shows "eval_expr m V M (ESext e w) = Some (sem m V M (ESext e w))"
proof -
  obtain a where a: "eval_expr m V M e = Some a" "take_bit (bt_width ty) a = sem m V M e"
    using assms(1) by (auto elim!: agreesE)
  obtain s where s: "signed_value a (bt_width ty) = Some s" "sint s = sval (bt_width ty) a"
    using signed_value_Some [of "bt_width ty" a] assms(4) by auto
  have "sval (bt_width ty) (sem m V M e) = sint s"
    using sval_take_bit [OF assms(3), of a] a(2) s(2) by metis
  then have "word_of_int (sval (bt_width ty) (sem m V M e)) = s" by simp
  with assms(2) a s show ?thesis by (simp add: encode_value_eq)
qed

lemma agrees_slice:
  assumes "agrees m V M e ty" "lsb + w \<le> bt_width ty" "bt_width ty \<le> 128" "0 < w"
  shows "eval_expr m V M (ESlice e lsb w) = Some (sem m V M (ESlice e lsb w))"
proof -
  obtain a where a: "eval_expr m V M e = Some a" "take_bit (bt_width ty) a = sem m V M e"
    using assms(1) by (auto elim!: agreesE)
  have "take_bit w (drop_bit lsb (take_bit (bt_width ty) a)) = take_bit w (drop_bit lsb a)"
    using assms(2) by (intro bit_word_eqI) (auto simp: bit_simps)
  with assms a show ?thesis by (simp add: shr_u128_def mask128_eq flip: take_bit_eq_mask)
qed

lemma agrees_exact:
  assumes "has_type m e ty" "eval_safe m e"
    "eval_expr m V M e = Some (sem m V M e)"
  shows "agrees m V M e ty"
  using assms sem_fits by (intro agreesI) auto

lemma eval_agrees:
  assumes ok: "store_ok m V M"
  shows "has_type m e ty \<Longrightarrow> eval_safe m e \<Longrightarrow> mask_safe m e \<Longrightarrow> agrees m V M e ty"
proof (induction rule: has_type.induct)
  case (T_Lit ty v)
  then show ?case by (simp add: agrees_def encode_value_eq)
next
  case (T_Sig s si)
  then have "has_type m (Sig s) (si_ty si)" by (intro has_type.T_Sig)
  with ok T_Sig show ?case by (auto simp: agrees_def store_ok_value)
next
  case (T_Not e ty)
  then obtain a where "eval_expr m V M e = Some a" "sem m V M e = take_bit (bt_width ty) a"
    by (auto elim!: agreesE)
  with T_Not show ?case by (intro agreesI) (auto simp: take_bit_word_not)
next
  case (T_Add l ty r)
  then obtain a b where "eval_expr m V M l = Some a" "sem m V M l = take_bit (bt_width ty) a"
    "eval_expr m V M r = Some b" "sem m V M r = take_bit (bt_width ty) b"
    by (auto elim!: agreesE)
  with T_Add show ?case by (intro agreesI) (auto simp: take_bit_word_add)
next
  case (T_Sub l ty r)
  then obtain a b where "eval_expr m V M l = Some a" "sem m V M l = take_bit (bt_width ty) a"
    "eval_expr m V M r = Some b" "sem m V M r = take_bit (bt_width ty) b"
    by (auto elim!: agreesE)
  with T_Sub show ?case by (intro agreesI) (auto simp: take_bit_word_diff)
next
  case (T_Mul l ty r)
  then obtain a b where "eval_expr m V M l = Some a" "sem m V M l = take_bit (bt_width ty) a"
    "eval_expr m V M r = Some b" "sem m V M r = take_bit (bt_width ty) b"
    by (auto elim!: agreesE)
  with T_Mul show ?case by (intro agreesI) (auto simp: take_bit_word_mult)
next
  case (T_And l ty r)
  then obtain a b where ab: "eval_expr m V M l = Some a" "take_bit (bt_width ty) a = sem m V M l"
    "clean l \<longrightarrow> a = sem m V M l"
    "eval_expr m V M r = Some b" "take_bit (bt_width ty) b = sem m V M r" "clean r \<longrightarrow> b = sem m V M r"
    by (auto elim!: agreesE)
  have mixed: "take_bit n a AND b = take_bit n a AND take_bit n b"
    "a AND take_bit n b = take_bit n a AND take_bit n b" for n
    by (rule bit_word_eqI, auto simp: bit_simps)+
  show ?case
  proof (rule agreesI)
    show "eval_expr m V M (EAnd l r) = Some (a AND b)" using ab by simp
    show "take_bit (bt_width ty) (a AND b) = sem m V M (EAnd l r)" using ab by (simp add: take_bit_and)
    assume "clean (EAnd l r)"
    then show "a AND b = sem m V M (EAnd l r)" using ab mixed by auto metis+
  qed
next
  case (T_Lt l ty r)
  have "agrees m V M l ty" "agrees m V M r ty" "bt_width ty \<le> 128"
    using T_Lt eval_safe_width by auto
  with T_Lt have "eval_expr m V M (ELt l r) = Some (sem m V M (ELt l r))"
    by (intro agrees_lt) auto
  with T_Lt show ?case by (intro agrees_exact has_type.T_Lt) auto
next
  case (T_Slice e ty w lsb)
  have "agrees m V M e ty" "bt_width ty \<le> 128" using T_Slice eval_safe_width by auto
  with T_Slice have "eval_expr m V M (ESlice e lsb w) = Some (sem m V M (ESlice e lsb w))"
    by (intro agrees_slice) auto
  with T_Slice show ?case by (intro agrees_exact has_type.T_Slice) auto
next
  case (T_Sext e ty w)
  have "agrees m V M e ty" "bt_width ty \<le> 128" using T_Sext eval_safe_width by auto
  with T_Sext have "eval_expr m V M (ESext e w) = Some (sem m V M (ESext e w))"
    by (intro agrees_sext) auto
  with T_Sext show ?case by (intro agrees_exact has_type.T_Sext) auto
next
  case (T_Concat ps tys)
  have ty: "list_all2 (has_type m) ps tys"
    using T_Concat(1) by (rule list_all2_mono) simp
  have "list_all2 (\<lambda>p ty. agrees m V M p ty \<and> clean p \<and> has_type m p ty
      \<and> take_bit (bt_width ty) (sem m V M p) = sem m V M p \<and> 0 < type_width m p) ps tys"
    using T_Concat sem_fits by (auto simp: list_all2_conv_all_nth)
  with T_Concat have "eval_expr m V M (EConcat ps) = Some (sem m V M (EConcat ps))"
    by (intro agrees_concat) auto
  with T_Concat ty show ?case by (intro agrees_exact has_type.T_Concat) auto
next
  case (T_MemRead mem info aw dw depth a)
  have "has_type m (EMemRead mem a) (si_ty info)" using T_MemRead by (intro has_type.T_MemRead)
  moreover have "eval_expr m V M a = Some (sem m V M a)" using T_MemRead by (auto intro: agrees_clean)
  ultimately show ?case
    using T_MemRead ok store_ok_memory [OF ok T_MemRead(1)]
    by (intro agreesI) (auto split: option.splits simp: vec_get_Some_iff)
next
  case (T_Zext e ty w)
  have "eval_expr m V M e = Some (sem m V M e)" "take_bit (bt_width ty) (sem m V M e) = sem m V M e"
    using T_Zext sem_fits by (auto intro: agrees_clean)
  moreover from this have "take_bit w (sem m V M e) = sem m V M e"
    using T_Zext by (metis min.absorb2 take_bit_take_bit)
  ultimately show ?case by (intro agreesI) (auto simp: mask128_eq simp flip: take_bit_eq_mask)
next
  case (T_Trunc e ty w)
  then obtain a where a: "eval_expr m V M e = Some a" "sem m V M e = take_bit (bt_width ty) a"
    by (auto elim!: agreesE)
  with T_Trunc show ?case by (intro agreesI) (auto simp: mask128_eq min_def simp flip: take_bit_eq_mask)
qed (auto simp: agrees_def take_bit_or take_bit_xor u128_from_bool_def)
end
