(* ===== verification/Scalar_Sim.thy ===== *)
theory Scalar_Sim
  imports Scalar_Eval "HOL-Library.List_Lexorder" "HOL-Library.Char_ord"
begin

text \<open>
  The scalar simulator of crate \<open>rrtl-core\<close> (\<open>Simulator\<close> in \<open>src/crates/rrtl-core/src/lib.rs\<close>):
  one simulator per instance, each with its values, memories and child simulators.  A method
  that mutates \<open>self\<close> returns the new simulator; a panic of the code is \<open>None\<close>.  The design a
  simulator borrows is the parameter \<open>d\<close>.

  \<open>eval_combinational\<close> calls itself on the children inside a loop, so its model takes the
  height of the instance tree as fuel; \<open>eval_combinational_unfold\<close> shows that this fuel is
  always enough, so the model satisfies the recursive equation of the code.
\<close>

section \<open>State\<close>

datatype simulator = Simulator
  (sim_module: rmodule)
  (sim_path: string)
  (sim_values: sig_values)
  (sim_memories: sig_memories)
  (sim_cover_hits: "string \<rightharpoonup> u64")
  (sim_children: "(inst \<times> simulator) list")

record simulation_init =
  init_registers :: "signal \<rightharpoonup> u128"
  init_memories :: "signal \<rightharpoonup> (nat \<times> u128) list"

definition default_init :: simulation_init where
  "default_init = \<lparr>init_registers = Map.empty, init_memories = Map.empty\<rparr>"

datatype tick_state = TickState
  (ts_values: "(signal \<times> u128) list")
  (ts_memories: "(signal \<times> nat \<times> u128) list")
  (ts_children: "tick_state list")

record cover_hit =
  ch_name :: string
  ch_hits :: u64

definition with_values :: "simulator \<Rightarrow> sig_values \<Rightarrow> simulator" where
  "with_values s V = (case s of Simulator m p V0 M H C \<Rightarrow> Simulator m p V M H C)"

lemma with_values_simps [simp]:
  "with_values (Simulator m p V0 M H C) V = Simulator m p V M H C"
  "sim_module (with_values s V) = sim_module s" "sim_path (with_values s V) = sim_path s"
  "sim_values (with_values s V) = V" "sim_memories (with_values s V) = sim_memories s"
  "sim_children (with_values s V) = sim_children s"
  by (cases s; simp add: with_values_def)+

definition module_has_inout :: "rmodule \<Rightarrow> bool" where
  "module_has_inout m = list_ex (\<lambda>si. si_kind si = KInout) (m_signals m)"

section \<open>Construction\<close>

definition initial_value :: "rmodule \<Rightarrow> simulation_init \<Rightarrow> signal_info \<Rightarrow> u128" where
  "initial_value m init si =
     (let v0 = (case List.find (\<lambda>i. irv_signal i = si_handle si) (m_initial_register_values m) of
                  Some i \<Rightarrow> encode_value (irv_value i) (si_ty si) AND mask128 (si_width si)
                | None \<Rightarrow> 0);
          v1 = (case init_registers init (si_handle si) of
                  Some v \<Rightarrow> v AND mask128 (si_width si) | None \<Rightarrow> v0)
      in v1 AND mask128 (si_width si))"

definition store_word :: "u128 list \<Rightarrow> nat \<Rightarrow> u128 \<Rightarrow> u128 list" where
  "store_word memory addr v = (if addr < length memory then memory[addr := v] else memory)"

definition initial_memory :: "rmodule \<Rightarrow> simulation_init \<Rightarrow> signal_info \<Rightarrow> nat \<Rightarrow> u128 list" where
  "initial_memory m init si depth =
     (let mem0 = fold (\<lambda>i mem. store_word mem (imv_addr i) (encode_value (imv_value i) (si_ty si)))
                   (filter (\<lambda>i. imv_mem i = si_handle si) (m_initial_memory_values m))
                   (replicate depth 0)
      in case init_memories init (si_handle si) of
           None \<Rightarrow> mem0
         | Some ovs \<Rightarrow> fold (\<lambda>(addr, v) mem. store_word mem addr (v AND mask128 (si_width si))) ovs mem0)"

definition initial_values :: "rmodule \<Rightarrow> simulation_init \<Rightarrow> sig_values" where
  "initial_values m init =
     fold (\<lambda>si V. V(si_handle si \<mapsto> initial_value m init si)) (m_signals m) Map.empty"

definition initial_memories :: "rmodule \<Rightarrow> simulation_init \<Rightarrow> sig_memories" where
  "initial_memories m init =
     fold (\<lambda>si M. case si_kind si of
             KMem aw dw depth \<Rightarrow> M(si_handle si \<mapsto> initial_memory m init si depth)
           | _ \<Rightarrow> M) (m_signals m) Map.empty"

definition err_extern_module :: "string \<Rightarrow> diagnostic" where
  "err_extern_module n =
     new_diag ''E_SIM_EXTERN_MODULE'' (''external module `'' @ n @ ''` cannot be simulated'')"

definition err_inout :: "string \<Rightarrow> diagnostic" where
  "err_inout n = new_diag ''E_SIM_INOUT'' (''module `'' @ n @ ''` contains inout ports'')"

text \<open>
  \<open>from_module\<close> recurses along the instances; the first argument bounds the depth, and
  \<open>None\<close> is running out of it.  \<open>children_loop\<close> is the loop over the instances, with the
  recursive call as a parameter; the first error ends it.
\<close>

fun children_loop ::
  "design \<Rightarrow> (rmodule \<Rightarrow> string \<Rightarrow> (error_report + simulator) option) \<Rightarrow> string \<Rightarrow> inst list
    \<Rightarrow> (error_report + (inst \<times> simulator) list) option" where
  "children_loop d rec path [] = Some (Inr [])"
| "children_loop d rec path (i # is) =
     (case find_module d (in_module i) of
        None \<Rightarrow> Some (Inl [new_diag ''E_SIM_INSTANCE''
                 (''instance target `'' @ in_module i @ ''` does not exist'')])
      | Some cm \<Rightarrow>
          if m_is_external cm
          then Some (Inl [new_diag ''E_SIM_EXTERN_MODULE''
                 (''instance `'' @ in_name i @ ''` targets external module `'' @ m_name cm @ ''`'')])
          else do { r \<leftarrow> rec cm (path @ ''.'' @ in_name i);
                    case r of
                      Inl e \<Rightarrow> Some (Inl e)
                    | Inr c \<Rightarrow> do { rs \<leftarrow> children_loop d rec path is;
                                    case rs of Inl e \<Rightarrow> Some (Inl e)
                                    | Inr cs \<Rightarrow> Some (Inr ((i, c) # cs)) } })"

fun from_module :: "nat \<Rightarrow> design \<Rightarrow> simulation_init \<Rightarrow> rmodule \<Rightarrow> string
    \<Rightarrow> (error_report + simulator) option" where
  "from_module 0 d init m path = None"
| "from_module (Suc n) d init m path =
     (if m_is_external m then Some (Inl [err_extern_module (m_name m)])
      else if module_has_inout m then Some (Inl [err_inout (m_name m)])
      else do { rs \<leftarrow> children_loop d (from_module n d init) path (m_instances m);
                case rs of
                  Inl e \<Rightarrow> Some (Inl e)
                | Inr cs \<Rightarrow> Some (Inr (Simulator m path (initial_values m init)
                               (initial_memories m init) Map.empty cs)) })"

section \<open>Combinational evaluation\<close>

definition reset_asserted :: "sig_values \<Rightarrow> reset \<Rightarrow> bool" where
  "reset_asserted V r =
     (case rst_polarity r of
        ActiveHigh \<Rightarrow> get_value V (rst_signal r) \<noteq> 0
      | ActiveLow \<Rightarrow> get_value V (rst_signal r) = 0)"

text \<open>A run of \<open>HashMap::insert\<close> calls, and whether any of them changed a value.\<close>

fun insert_all :: "(signal \<times> u128) list \<Rightarrow> sig_values \<Rightarrow> sig_values \<times> bool" where
  "insert_all [] V = (V, False)"
| "insert_all ((s, v) # ws) V =
     (let (V', ch) = insert_all ws (V(s \<mapsto> v)) in (V', V s \<noteq> Some v \<or> ch))"

definition async_reset_write :: "sig_values \<Rightarrow> signal_info \<Rightarrow> (signal \<times> u128) list" where
  "async_reset_write V si =
     (case si_kind si of
        KReg clk (Some r) nxt \<Rightarrow>
          if rst_kind r = Async \<and> reset_asserted V r
          then [(si_handle si, encode_value (rst_value r) (si_ty si))] else []
      | _ \<Rightarrow> [])"

definition apply_async_resets :: "rmodule \<Rightarrow> sig_values \<Rightarrow> sig_values \<times> bool" where
  "apply_async_resets m V = insert_all (concat (map (async_reset_write V) (m_signals m))) V"

fun assign_pass :: "rmodule \<Rightarrow> sig_memories \<Rightarrow> assignment list \<Rightarrow> sig_values
    \<Rightarrow> (sig_values \<times> bool) option" where
  "assign_pass m M [] V = Some (V, False)"
| "assign_pass m M (a # as) V =
     (case module_signal m (as_dst a) of
        None \<Rightarrow> assign_pass m M as V
      | Some dst \<Rightarrow>
          do { v \<leftarrow> eval_expr m V M (as_expr a);
               (V', ch) \<leftarrow> assign_pass m M as (V(as_dst a \<mapsto> v AND mask128 (si_width dst)));
               Some (V', V (as_dst a) \<noteq> Some (v AND mask128 (si_width dst)) \<or> ch) })"

definition find_port :: "rmodule \<Rightarrow> string \<Rightarrow> signal_kind \<Rightarrow> signal_info option" where
  "find_port m n k = List.find (\<lambda>s. si_name s = n \<and> si_kind s = k) (m_signals m)"

definition input_writes :: "rmodule \<Rightarrow> sig_values \<Rightarrow> inst \<Rightarrow> (signal \<times> u128) list" where
  "input_writes cm V i =
     concat (map (\<lambda>(pn, ps). case find_port cm pn KInput of
                     None \<Rightarrow> []
                   | Some port \<Rightarrow> [(si_handle port, get_value V ps AND mask128 (si_width port))])
               (in_connections i))"

definition drive_child_inputs ::
  "design \<Rightarrow> sig_values \<Rightarrow> (inst \<times> simulator) list \<Rightarrow> (inst \<times> simulator) list" where
  "drive_child_inputs d V cs =
     map (\<lambda>(i, c). case find_module d (in_module i) of
                     None \<Rightarrow> (i, c)
                   | Some cm \<Rightarrow> (i, with_values c (fst (insert_all (input_writes cm V i) (sim_values c)))))
       cs"

definition output_writes :: "design \<Rightarrow> inst \<times> simulator \<Rightarrow> (signal \<times> u128) list" where
  "output_writes d ic =
     (case find_module d (in_module (fst ic)) of
        None \<Rightarrow> []
      | Some cm \<Rightarrow>
          concat (map (\<lambda>(pn, ps). case find_port cm pn KOutput of
                          None \<Rightarrow> []
                        | Some port \<Rightarrow>
                            [(ps, get_value (sim_values (snd ic)) (si_handle port)
                                    AND mask128 (si_width port))])
                    (in_connections (fst ic))))"

text \<open>\<open>for_children\<close> runs a simulator operation on every child.\<close>

definition for_children ::
  "(simulator \<Rightarrow> simulator option) \<Rightarrow> (inst \<times> simulator) list \<Rightarrow> (inst \<times> simulator) list option" where
  "for_children f cs = mapM (\<lambda>ic. map_option (Pair (fst ic)) (f (snd ic))) cs"

definition eval_instances ::
  "design \<Rightarrow> (simulator \<Rightarrow> simulator option) \<Rightarrow> sig_values \<Rightarrow> (inst \<times> simulator) list
    \<Rightarrow> (sig_values \<times> (inst \<times> simulator) list \<times> bool) option" where
  "eval_instances d rec V cs =
     do { cs' \<leftarrow> for_children rec (drive_child_inputs d V cs);
          let (V', ch) = insert_all (concat (map (output_writes d) cs')) V
          in Some (V', cs', ch) }"

text \<open>One round of the loop of \<open>eval_combinational\<close>.\<close>

definition comb_iteration ::
  "design \<Rightarrow> (simulator \<Rightarrow> simulator option) \<Rightarrow> simulator \<Rightarrow> (simulator \<times> bool) option" where
  "comb_iteration d rec s =
     (case s of Simulator m p V M H C \<Rightarrow>
        let (V1, c1) = apply_async_resets m V
        in do { (V2, c2) \<leftarrow> assign_pass m M (m_assignments m) V1;
                (V3, C3, c3) \<leftarrow> eval_instances d rec V2 C;
                let (V4, c4) = apply_async_resets m V3
                in Some (Simulator m p V4 M H C3, c1 \<or> c2 \<or> c3 \<or> c4) })"

fun comb_loop :: "nat \<Rightarrow> (simulator \<Rightarrow> (simulator \<times> bool) option) \<Rightarrow> simulator \<Rightarrow> simulator option" where
  "comb_loop 0 step s = Some s"
| "comb_loop (Suc n) step s =
     do { (s', changed) \<leftarrow> step s; if changed then comb_loop n step s' else Some s' }"

definition comb_limit :: "rmodule \<Rightarrow> nat" where
  "comb_limit m = max 1 (length (m_assignments m) + length (m_instances m))"

primrec sim_height :: "simulator \<Rightarrow> nat" where
  "sim_height (Simulator m p V M H C) =
     Suc (foldr max (map snd (map (map_prod id sim_height) C)) 0)"

fun eval_combinational_at :: "nat \<Rightarrow> design \<Rightarrow> simulator \<Rightarrow> simulator option" where
  "eval_combinational_at 0 d s = None"
| "eval_combinational_at (Suc n) d s =
     comb_loop (comb_limit (sim_module s)) (comb_iteration d (eval_combinational_at n d)) s"

definition eval_combinational :: "design \<Rightarrow> simulator \<Rightarrow> simulator option" where
  "eval_combinational d s = eval_combinational_at (sim_height s) d s"

section \<open>What evaluation keeps\<close>

text \<open>
  The frame of a simulator: everything but its values.  Combinational evaluation keeps it, and
  so keeps the height of the tree.
\<close>

primrec frame :: "simulator \<Rightarrow> simulator" where
  "frame (Simulator m p V M H C) = Simulator m p Map.empty M H (map (map_prod id frame) C)"

lemma sim_height_pos: "0 < sim_height s"
  by (cases s) simp

lemma sim_height_frame [simp]: "sim_height (frame s) = sim_height s"
proof (induction s)
  case (Simulator m p V M H C)
  have "map (\<lambda>x. sim_height (frame (snd x))) C = map (\<lambda>x. sim_height (snd x)) C"
    using Simulator by (intro map_cong) (auto simp: prod_set_defs)
  then show ?case by (simp only: frame.simps sim_height.simps map_map comp_def snd_map_prod)
qed

lemma frame_with_values [simp]: "frame (with_values s V) = frame s"
  by (cases s) simp

lemma frame_eqD:
  "frame s = frame s' \<Longrightarrow> sim_module s = sim_module s' \<and> sim_path s = sim_path s'
     \<and> sim_memories s = sim_memories s' \<and> map fst (sim_children s) = map fst (sim_children s')"
  by (cases s; cases s') (auto dest: arg_cong [where f = "map fst"] simp: comp_def)

lemma frame_eq_height: "frame s = frame s' \<Longrightarrow> sim_height s = sim_height s'"
  by (metis sim_height_frame)

lemma foldr_max_less: "x \<in> set xs \<Longrightarrow> x \<le> foldr max xs (0 :: nat)"
  by (induction xs) auto

lemma child_height: "(i, c) \<in> set C \<Longrightarrow> sim_height c < sim_height (Simulator m p V M H C)"
  using foldr_max_less [of "sim_height c" "map snd (map (map_prod id sim_height) C)"]
  by force

lemma for_children_cong [fundef_cong]:
  "cs = cs' \<Longrightarrow> (\<And>i c. (i, c) \<in> set cs' \<Longrightarrow> f c = g c) \<Longrightarrow> for_children f cs = for_children g cs'"
  unfolding for_children_def by (intro mapM_cong) auto

lemma for_children_Some_iff:
  "for_children f cs = Some cs' \<longleftrightarrow>
     list_all2 (\<lambda>ic ic'. fst ic' = fst ic \<and> f (snd ic) = Some (snd ic')) cs cs'"
proof -
  have "(\<lambda>ic (ic' :: inst \<times> simulator). map_option (Pair (fst ic)) (f (snd ic)) = Some ic')
      = (\<lambda>ic ic'. fst ic' = fst ic \<and> f (snd ic) = Some (snd ic'))"
    by (intro ext) auto
  then show ?thesis by (simp only: for_children_def mapM_Some_iff)
qed

lemma drive_child_inputs_frame:
  "map (map_prod id frame) (drive_child_inputs d V cs) = map (map_prod id frame) cs"
  by (auto simp: drive_child_inputs_def split: option.splits)

lemma drive_child_inputs_member:
  "(i, c) \<in> set (drive_child_inputs d V cs) \<Longrightarrow> \<exists>c0. (i, c0) \<in> set cs \<and> frame c = frame c0"
  by (auto simp: drive_child_inputs_def split: option.splits prod.splits if_splits; force)

lemma for_children_frame:
  assumes "for_children f cs = Some cs'" "\<And>c c'. f c = Some c' \<Longrightarrow> frame c' = frame c"
  shows "map (map_prod id frame) cs' = map (map_prod id frame) cs"
proof -
  have "list_all2 (\<lambda>ic ic'. fst ic' = fst ic \<and> f (snd ic) = Some (snd ic')) cs cs'"
    using assms(1) by (simp add: for_children_Some_iff)
  then show ?thesis by (induction rule: list_all2_induct) (auto simp: assms(2) prod_eq_iff)
qed

lemma eval_instancesE:
  assumes "eval_instances d rec V cs = Some (V', cs', b)"
  obtains "for_children rec (drive_child_inputs d V cs) = Some cs'"
    "insert_all (concat (map (output_writes d) cs')) V = (V', b)"
  using assms by (auto simp: eval_instances_def bind_eq_Some split_beta prod_eq_iff)

lemma comb_iterationE:
  assumes "comb_iteration d rec (Simulator m p V M H C) = Some (s', b)"
  obtains V1 c1 V2 c2 V3 C3 c3 V4 c4 where
    "apply_async_resets m V = (V1, c1)" "assign_pass m M (m_assignments m) V1 = Some (V2, c2)"
    "eval_instances d rec V2 C = Some (V3, C3, c3)" "apply_async_resets m V3 = (V4, c4)"
    "s' = Simulator m p V4 M H C3" "b \<longleftrightarrow> c1 \<or> c2 \<or> c3 \<or> c4"
proof -
  obtain V1 c1 where 1: "apply_async_resets m V = (V1, c1)" by fastforce
  with assms obtain V2 c2 V3 C3 c3 where
    2: "assign_pass m M (m_assignments m) V1 = Some (V2, c2)"
      "eval_instances d rec V2 C = Some (V3, C3, c3)"
      "(let (V4, c4) = apply_async_resets m V3
        in Some (Simulator m p V4 M H C3, c1 \<or> c2 \<or> c3 \<or> c4)) = Some (s', b)"
    by (auto simp: comb_iteration_def bind_eq_Some)
  obtain V4 c4 where "apply_async_resets m V3 = (V4, c4)" by fastforce
  with 1 2 that show thesis by simp
qed

lemma comb_iteration_frame:
  assumes "comb_iteration d rec s = Some (s', b)" "\<And>c c'. rec c = Some c' \<Longrightarrow> frame c' = frame c"
  shows "frame s' = frame s"
proof -
  obtain m p V M H C where s: "s = Simulator m p V M H C" by (cases s)
  obtain V4 C3 W where "s' = Simulator m p V4 M H C3"
    "for_children rec (drive_child_inputs d W C) = Some C3"
    using assms(1) unfolding s by (elim comb_iterationE eval_instancesE) simp
  then show ?thesis
    using for_children_frame [OF _ assms(2)] by (simp add: s drive_child_inputs_frame)
qed

lemma comb_loop_invariant:
  assumes "comb_loop n step s = Some s'" "P s"
    "\<And>t t' b. P t \<Longrightarrow> step t = Some (t', b) \<Longrightarrow> P t'"
  shows "P s'"
  using assms(1,2)
  by (induction n arbitrary: s) (auto simp: bind_eq_Some split: if_splits dest: assms(3))

lemma comb_loop_cong:
  assumes "P s" "\<And>t. P t \<Longrightarrow> f t = g t" "\<And>t t' b. P t \<Longrightarrow> f t = Some (t', b) \<Longrightarrow> P t'"
  shows "comb_loop n f s = comb_loop n g s"
  using assms(1)
proof (induction n arbitrary: s)
  case (Suc n)
  then show ?case
    by (auto simp: assms(2) [symmetric] intro!: Option.bind_cong split: prod.splits dest: assms(3))
qed simp

lemma eval_at_frame: "eval_combinational_at n d s = Some s' \<Longrightarrow> frame s' = frame s"
proof (induction n arbitrary: s s')
  case (Suc n)
  show ?case
    by (rule comb_loop_invariant [where P = "\<lambda>t. frame t = frame s"])
      (use Suc in \<open>auto dest: comb_iteration_frame\<close>)
qed simp

lemma eval_instances_cong:
  assumes "\<And>i c c0. (i, c0) \<in> set cs \<Longrightarrow> frame c = frame c0 \<Longrightarrow> f c = g c"
  shows "eval_instances d f V cs = eval_instances d g V cs"
proof -
  have "for_children f (drive_child_inputs d V cs) = for_children g (drive_child_inputs d V cs)"
    by (intro for_children_cong refl) (metis assms drive_child_inputs_member)
  then show ?thesis by (simp add: eval_instances_def)
qed

lemma comb_iteration_cong:
  assumes "\<And>c. sim_height c < sim_height s \<Longrightarrow> f c = g c"
  shows "comb_iteration d f s = comb_iteration d g s"
proof -
  obtain m p V M H C where s: "s = Simulator m p V M H C" by (cases s)
  have "eval_instances d f W C = eval_instances d g W C" for W
    by (intro eval_instances_cong assms) (metis child_height frame_eq_height s)
  then show ?thesis by (simp add: s comb_iteration_def)
qed

lemma comb_iteration_at_height:
  "comb_iteration d (eval_combinational_at n d) t = Some (t', b) \<Longrightarrow> sim_height t' = sim_height t"
  by (rule frame_eq_height) (rule comb_iteration_frame [OF _ eval_at_frame])

lemma eval_combinational_frame: "eval_combinational d s = Some s' \<Longrightarrow> frame s' = frame s"
  unfolding eval_combinational_def by (rule eval_at_frame)

lemma eval_at_fuel:
  "sim_height s \<le> n \<Longrightarrow> sim_height s \<le> k \<Longrightarrow> eval_combinational_at n d s = eval_combinational_at k d s"
proof (induction n arbitrary: s k)
  case 0
  then show ?case using sim_height_pos [of s] by simp
next
  case (Suc n)
  have "0 < k" using Suc.prems sim_height_pos [of s] by simp
  then obtain k' where k: "k = Suc k'" by (cases k) auto
  have "comb_iteration d (eval_combinational_at n d) t = comb_iteration d (eval_combinational_at k' d) t"
    if "sim_height t = sim_height s" for t
    using that Suc.prems by (intro comb_iteration_cong Suc.IH) (auto simp: k)
  then show ?case
    by (simp add: k)
      (rule comb_loop_cong [where P = "\<lambda>t. sim_height t = sim_height s"];
       auto dest: comb_iteration_at_height)
qed

text \<open>The recursive equation of the code: the children are evaluated by the operation itself.\<close>

lemma eval_combinational_rec:
  "eval_combinational d s =
     comb_loop (comb_limit (sim_module s)) (comb_iteration d (eval_combinational d)) s"
proof -
  obtain n where n: "sim_height s = Suc n" by (cases s) simp
  have *: "comb_iteration d (eval_combinational_at n d) t = comb_iteration d (eval_combinational d) t"
    if "sim_height t = Suc n" for t
    using that unfolding eval_combinational_def
    by (intro comb_iteration_cong eval_at_fuel) (auto simp: n)
  then show ?thesis
    by (simp add: eval_combinational_def [of d s] n)
      (rule comb_loop_cong [where P = "\<lambda>t. sim_height t = sim_height s"];
       auto simp: n simp flip: * dest: comb_iteration_at_height)
qed

end
