(* ===== verification/Scalar_Tick.thy ===== *)
theory Scalar_Tick
  imports Scalar_Sim
begin

text \<open>
  The public operations of the scalar simulator of \<open>src/crates/rrtl-core/src/lib.rs\<close>: reading
  and driving signals, the clock edge (\<open>tick_checked\<close>, \<open>tick_clocked\<close>), assertions and cover
  points.  A method that takes \<open>&mut self\<close> returns the new simulator beside its result; a panic
  is \<open>None\<close>.
\<close>

section \<open>Reading and driving signals\<close>

definition sim_set :: "design \<Rightarrow> signal \<Rightarrow> u128 \<Rightarrow> simulator \<Rightarrow> simulator option" where
  "sim_set d sg v s =
     (let width = (case module_signal (sim_module s) sg of None \<Rightarrow> 128 | Some si \<Rightarrow> si_width si)
      in eval_combinational d (with_values s ((sim_values s)(sg \<mapsto> v AND mask128 width))))"

definition sim_get :: "simulator \<Rightarrow> signal \<Rightarrow> u128" where
  "sim_get s sg = get_value (sim_values s) sg"

definition peek_mem :: "simulator \<Rightarrow> signal \<Rightarrow> nat \<Rightarrow> u128 option" where
  "peek_mem s mem addr =
     (case sim_memories s mem of None \<Rightarrow> None | Some memory \<Rightarrow> vec_get memory addr)"

text \<open>The first two statements of the tree walks: drive the children and evaluate them.\<close>

definition settle_children :: "design \<Rightarrow> simulator \<Rightarrow> simulator option" where
  "settle_children d s =
     (case s of Simulator m p V M H C \<Rightarrow>
        do { cs \<leftarrow> for_children (eval_combinational d) (drive_child_inputs d V C);
             Some (Simulator m p V M H cs) })"

section \<open>Capturing a clock edge\<close>

definition expect_next :: "rmodule \<Rightarrow> sig_values \<Rightarrow> sig_memories \<Rightarrow> expr option \<Rightarrow> u128 option" where
  "expect_next m V M nxt = (case nxt of None \<Rightarrow> None | Some e \<Rightarrow> eval_expr m V M e)"

definition register_next ::
  "rmodule \<Rightarrow> sig_values \<Rightarrow> sig_memories \<Rightarrow> signal_info \<Rightarrow> reset option \<Rightarrow> expr option \<Rightarrow> u128 option" where
  "register_next m V M si rst nxt =
     (case rst of
        Some r \<Rightarrow> if reset_asserted V r then Some (encode_value (rst_value r) (si_ty si))
                  else expect_next m V M nxt
      | None \<Rightarrow> expect_next m V M nxt)"

fun capture_registers :: "rmodule \<Rightarrow> sig_values \<Rightarrow> sig_memories \<Rightarrow> signal_info list
    \<Rightarrow> (signal \<times> u128) list option" where
  "capture_registers m V M [] = Some []"
| "capture_registers m V M (si # sis) =
     (case si_kind si of
        KReg clk rst nxt \<Rightarrow>
          do { v \<leftarrow> register_next m V M si rst nxt;
               vs \<leftarrow> capture_registers m V M sis;
               Some ((si_handle si, v AND mask128 (si_width si)) # vs) }
      | _ \<Rightarrow> capture_registers m V M sis)"

fun capture_registers_clocked :: "signal list \<Rightarrow> rmodule \<Rightarrow> sig_values \<Rightarrow> sig_memories
    \<Rightarrow> signal_info list \<Rightarrow> (signal \<times> u128) list option" where
  "capture_registers_clocked active m V M [] = Some []"
| "capture_registers_clocked active m V M (si # sis) =
     (case si_kind si of
        KReg clk rst nxt \<Rightarrow>
          if (case clk of None \<Rightarrow> False | Some c \<Rightarrow> c \<notin> set active)
          then capture_registers_clocked active m V M sis
          else do { v \<leftarrow> register_next m V M si rst nxt;
                    vs \<leftarrow> capture_registers_clocked active m V M sis;
                    Some ((si_handle si, v AND mask128 (si_width si)) # vs) }
      | _ \<Rightarrow> capture_registers_clocked active m V M sis)"

fun capture_writes :: "rmodule \<Rightarrow> sig_values \<Rightarrow> sig_memories \<Rightarrow> memory_write list
    \<Rightarrow> (signal \<times> nat \<times> u128) list option" where
  "capture_writes m V M [] = Some []"
| "capture_writes m V M (w # ws) =
     do { en \<leftarrow> eval_expr m V M (mw_enable w);
          if en \<noteq> 0
          then (case module_signal m (mw_mem w) of
                  None \<Rightarrow> capture_writes m V M ws
                | Some mem \<Rightarrow>
                    do { addr \<leftarrow> eval_expr m V M (mw_addr w);
                         data \<leftarrow> eval_expr m V M (mw_data w);
                         rest \<leftarrow> capture_writes m V M ws;
                         Some ((mw_mem w, as_usize addr, data AND mask128 (si_width mem)) # rest) })
          else capture_writes m V M ws }"

fun capture_writes_clocked :: "signal list \<Rightarrow> rmodule \<Rightarrow> sig_values \<Rightarrow> sig_memories
    \<Rightarrow> memory_write list \<Rightarrow> (signal \<times> nat \<times> u128) list option" where
  "capture_writes_clocked active m V M [] = Some []"
| "capture_writes_clocked active m V M (w # ws) =
     (if mw_clock w \<notin> set active then capture_writes_clocked active m V M ws
      else do { en \<leftarrow> eval_expr m V M (mw_enable w);
                if en \<noteq> 0
                then (case module_signal m (mw_mem w) of
                        None \<Rightarrow> capture_writes_clocked active m V M ws
                      | Some mem \<Rightarrow>
                          do { addr \<leftarrow> eval_expr m V M (mw_addr w);
                               data \<leftarrow> eval_expr m V M (mw_data w);
                               rest \<leftarrow> capture_writes_clocked active m V M ws;
                               Some ((mw_mem w, as_usize addr, data AND mask128 (si_width mem)) # rest) })
                else capture_writes_clocked active m V M ws })"

text \<open>A walk that changes every child and collects a result from each.\<close>

definition map_children ::
  "(simulator \<Rightarrow> (simulator \<times> 'a) option) \<Rightarrow> (inst \<times> simulator) list
    \<Rightarrow> ((inst \<times> simulator) list \<times> 'a list) option" where
  "map_children f cs =
     do { rs \<leftarrow> mapM (\<lambda>ic. map_option (\<lambda>(c, x). ((fst ic, c), x)) (f (snd ic))) cs;
          Some (map fst rs, map snd rs) }"

lemma map_children_cong [fundef_cong]:
  "cs = cs' \<Longrightarrow> (\<And>i c. (i, c) \<in> set cs' \<Longrightarrow> f c = g c) \<Longrightarrow> map_children f cs = map_children g cs'"
  unfolding map_children_def by (intro arg_cong2 [where f = Option.bind] mapM_cong) auto

lemma settle_children_frame: "settle_children d s = Some s' \<Longrightarrow> frame s' = frame s"
  by (cases s) (auto simp: settle_children_def bind_eq_Some drive_child_inputs_frame
      dest: for_children_frame [OF _ eval_combinational_frame])

lemma settle_children_height:
  "settle_children d s = Some s' \<Longrightarrow> (i, c) \<in> set (sim_children s') \<Longrightarrow> sim_height c < sim_height s"
  using frame_eq_height [OF settle_children_frame] child_height by (cases s') fastforce

definition with_children :: "simulator \<Rightarrow> (inst \<times> simulator) list \<Rightarrow> simulator" where
  "with_children s cs = (case s of Simulator m p V M H C \<Rightarrow> Simulator m p V M H cs)"

lemma with_children_sel [simp]: "sim_module (with_children s cs) = sim_module s"
  by (cases s) (simp add: with_children_def)

function capture_tick :: "design \<Rightarrow> simulator \<Rightarrow> (simulator \<times> tick_state) option" where
  "capture_tick d s =
     do { s1 \<leftarrow> settle_children d s;
          vals \<leftarrow> capture_registers (sim_module s) (sim_values s) (sim_memories s)
                    (m_signals (sim_module s));
          mems \<leftarrow> capture_writes (sim_module s) (sim_values s) (sim_memories s)
                    (m_memory_writes (sim_module s));
          (cs, ticks) \<leftarrow> map_children (capture_tick d) (sim_children s1);
          Some (with_children s1 cs, TickState vals mems ticks) }"
  by pat_completeness auto
termination
  by (relation "measure (\<lambda>(d, s). sim_height s)") (auto dest: settle_children_height)

declare capture_tick.simps [simp del]

definition capture_tick_clocked ::
  "design \<Rightarrow> signal list \<Rightarrow> simulator \<Rightarrow> (simulator \<times> tick_state) option" where
  "capture_tick_clocked d active s =
     do { s1 \<leftarrow> settle_children d s;
          vals \<leftarrow> capture_registers_clocked active (sim_module s) (sim_values s) (sim_memories s)
                    (m_signals (sim_module s));
          mems \<leftarrow> capture_writes_clocked active (sim_module s) (sim_values s) (sim_memories s)
                    (m_memory_writes (sim_module s));
          (cs, ticks) \<leftarrow> map_children (capture_tick d) (sim_children s1);
          Some (with_children s1 cs, TickState vals mems ticks) }"

section \<open>Applying a clock edge\<close>

definition apply_memory_write :: "sig_memories \<Rightarrow> signal \<times> nat \<times> u128 \<Rightarrow> sig_memories" where
  "apply_memory_write M w =
     (case w of (mem, addr, data) \<Rightarrow>
        (case M mem of None \<Rightarrow> M | Some memory \<Rightarrow> M(mem \<mapsto> store_word memory addr data)))"

fun apply_tick :: "simulator \<Rightarrow> tick_state \<Rightarrow> simulator"
and apply_ticks :: "(inst \<times> simulator) list \<Rightarrow> tick_state list \<Rightarrow> (inst \<times> simulator) list" where
  "apply_tick (Simulator m p V M H C) (TickState vs ms ts) =
     Simulator m p (fst (insert_all vs V)) (foldl apply_memory_write M ms) H (apply_ticks C ts)"
| "apply_ticks (ic # cs) (t # ts) = (fst ic, apply_tick (snd ic) t) # apply_ticks cs ts"
| "apply_ticks [] ts = []"
| "apply_ticks cs [] = cs"

section \<open>Cover points and assertions\<close>

definition count_hit :: "(string \<rightharpoonup> u64) \<Rightarrow> string \<Rightarrow> (string \<rightharpoonup> u64) option" where
  "count_hit H n =
     (let old = (case H n of None \<Rightarrow> 0 | Some k \<Rightarrow> k)
      in if old = NOT 0 then None else Some (H(n \<mapsto> old + 1)))"

fun count_hits :: "(string \<rightharpoonup> u64) \<Rightarrow> string list \<Rightarrow> (string \<rightharpoonup> u64) option" where
  "count_hits H [] = Some H"
| "count_hits H (n # ns) = do { H' \<leftarrow> count_hit H n; count_hits H' ns }"

text \<open>Whether the optional enable expression lets the check go on.\<close>

definition enable_holds ::
  "rmodule \<Rightarrow> sig_values \<Rightarrow> sig_memories \<Rightarrow> expr option \<Rightarrow> bool option" where
  "enable_holds m V M en =
     (case en of None \<Rightarrow> Some True | Some e \<Rightarrow> map_option (\<lambda>v. v \<noteq> 0) (eval_expr m V M e))"

fun cover_loop :: "rmodule \<Rightarrow> string \<Rightarrow> sig_values \<Rightarrow> sig_memories \<Rightarrow> bool \<Rightarrow> cover_point list
    \<Rightarrow> string list option" where
  "cover_loop m path V M clocked [] = Some []"
| "cover_loop m path V M clocked (c # cs) =
     (if (c_clock c \<noteq> None) \<noteq> clocked then cover_loop m path V M clocked cs
      else do { on \<leftarrow> enable_holds m V M (c_enable c);
                if \<not> on then cover_loop m path V M clocked cs
                else do { v \<leftarrow> eval_expr m V M (c_condition c);
                          hits \<leftarrow> cover_loop m path V M clocked cs;
                          Some (if v \<noteq> 0 then (path @ ''.'' @ c_name c) # hits else hits) } })"

definition with_hits :: "simulator \<Rightarrow> (string \<rightharpoonup> u64) \<Rightarrow> simulator" where
  "with_hits s H = (case s of Simulator m p V M H0 C \<Rightarrow> Simulator m p V M H C)"

lemma with_hits_sel [simp]: "sim_module (with_hits s H) = sim_module s"
  by (cases s) (simp add: with_hits_def)

function sample_cover_points :: "design \<Rightarrow> bool \<Rightarrow> simulator \<Rightarrow> simulator option" where
  "sample_cover_points d clocked s =
     do { s1 \<leftarrow> settle_children d s;
          hits \<leftarrow> cover_loop (sim_module s) (sim_path s) (sim_values s) (sim_memories s) clocked
                    (m_cover_points (sim_module s));
          H \<leftarrow> count_hits (sim_cover_hits s) hits;
          cs \<leftarrow> for_children (sample_cover_points d clocked) (sim_children s1);
          Some (with_hits (with_children s1 cs) H) }"
  by pat_completeness auto
termination
  by (relation "measure (\<lambda>(d, b, s). sim_height s)") (auto dest: settle_children_height)

declare sample_cover_points.simps [simp del]

definition assertion_failure_diagnostic :: "string \<Rightarrow> assertion \<Rightarrow> diagnostic" where
  "assertion_failure_diagnostic mn a =
     (let message = (case a_message a of None \<Rightarrow> ''assertion failed'' | Some t \<Rightarrow> t)
      in with_module (new_diag ''E_SIM_ASSERT'' (''assertion `'' @ a_name a @ ''` failed: '' @ message)) mn)"

fun assertion_loop :: "rmodule \<Rightarrow> sig_values \<Rightarrow> sig_memories \<Rightarrow> bool \<Rightarrow> assertion list
    \<Rightarrow> diagnostic list option" where
  "assertion_loop m V M clocked [] = Some []"
| "assertion_loop m V M clocked (a # as) =
     (if (a_clock a \<noteq> None) \<noteq> clocked then assertion_loop m V M clocked as
      else do { on \<leftarrow> enable_holds m V M (a_enable a);
                if \<not> on then assertion_loop m V M clocked as
                else do { v \<leftarrow> eval_expr m V M (a_condition a);
                          ds \<leftarrow> assertion_loop m V M clocked as;
                          Some (if v = 0 then assertion_failure_diagnostic (m_name m) a # ds
                                else ds) } })"

function collect_assertion_failures ::
  "design \<Rightarrow> bool \<Rightarrow> simulator \<Rightarrow> (simulator \<times> diagnostic list) option" where
  "collect_assertion_failures d clocked s =
     do { s1 \<leftarrow> settle_children d s;
          ds \<leftarrow> assertion_loop (sim_module s) (sim_values s) (sim_memories s) clocked
                  (m_assertions (sim_module s));
          (cs, dss) \<leftarrow> map_children (collect_assertion_failures d clocked) (sim_children s1);
          Some (with_children s1 cs, ds @ concat dss) }"
  by pat_completeness auto
termination
  by (relation "measure (\<lambda>(d, b, s). sim_height s)") (auto dest: settle_children_height)

declare collect_assertion_failures.simps [simp del]

definition report_result :: "diagnostic list \<Rightarrow> error_report + unit" where
  "report_result ds = (if ds = [] then Inr () else Inl ds)"

definition check_clocked_assertions ::
  "design \<Rightarrow> simulator \<Rightarrow> (simulator \<times> (error_report + unit)) option" where
  "check_clocked_assertions d s =
     do { (s1, ds) \<leftarrow> collect_assertion_failures d True s; Some (s1, report_result ds) }"

definition check_assertions ::
  "design \<Rightarrow> simulator \<Rightarrow> (simulator \<times> (error_report + unit)) option" where
  "check_assertions d s =
     do { s1 \<leftarrow> eval_combinational d s;
          s2 \<leftarrow> sample_cover_points d False s1;
          (s3, ds) \<leftarrow> collect_assertion_failures d False s2;
          Some (s3, report_result ds) }"

definition tick_checked ::
  "design \<Rightarrow> simulator \<Rightarrow> (simulator \<times> (error_report + unit)) option" where
  "tick_checked d s =
     do { s1 \<leftarrow> eval_combinational d s;
          s2 \<leftarrow> sample_cover_points d True s1;
          (s3, r) \<leftarrow> check_clocked_assertions d s2;
          case r of
            Inl e \<Rightarrow> Some (s3, Inl e)
          | Inr u \<Rightarrow> do { (s4, t) \<leftarrow> capture_tick d s3;
                          s5 \<leftarrow> eval_combinational d (apply_tick s4 t);
                          Some (s5, Inr ()) } }"

definition tick :: "design \<Rightarrow> simulator \<Rightarrow> simulator option" where
  "tick d s = do { (s', r) \<leftarrow> tick_checked d s; case r of Inl e \<Rightarrow> None | Inr u \<Rightarrow> Some s' }"

definition tick_clocked ::
  "design \<Rightarrow> signal list \<Rightarrow> simulator \<Rightarrow> (simulator \<times> (error_report + unit)) option" where
  "tick_clocked d active s =
     do { s1 \<leftarrow> eval_combinational d s;
          s2 \<leftarrow> sample_cover_points d True s1;
          (s3, r) \<leftarrow> check_clocked_assertions d s2;
          case r of
            Inl e \<Rightarrow> Some (s3, Inl e)
          | Inr u \<Rightarrow> do { (s4, t) \<leftarrow> capture_tick_clocked d active s3;
                          s5 \<leftarrow> eval_combinational d (apply_tick s4 t);
                          Some (s5, Inr ()) } }"

text \<open>The counter of a name, from the first simulator of the tree that has one.\<close>

primrec cover_hits :: "simulator \<Rightarrow> string \<Rightarrow> u64" where
  "cover_hits (Simulator m p V M H C) =
     (\<lambda>n. case H n of
        Some hits \<Rightarrow> hits
      | None \<Rightarrow> (case List.find (\<lambda>h. 0 < h) (map (\<lambda>f. f n) (map snd (map (map_prod id cover_hits) C))) of
                   None \<Rightarrow> 0 | Some h \<Rightarrow> h))"

primrec collect_cover_report :: "simulator \<Rightarrow> cover_hit list" where
  "collect_cover_report (Simulator m p V M H C) =
     map (\<lambda>c. let n = p @ ''.'' @ c_name c
              in \<lparr>ch_name = n, ch_hits = (case H n of None \<Rightarrow> 0 | Some k \<Rightarrow> k)\<rparr>) (m_cover_points m)
     @ concat (map snd (map (map_prod id collect_cover_report) C))"

definition cover_report :: "simulator \<Rightarrow> cover_hit list" where
  "cover_report s = sort_key ch_name (collect_cover_report s)"

end
