(* ===== verification/Scalar_Invariant.thy ===== *)
theory Scalar_Invariant
  imports Scalar_Tick
begin

text \<open>
  The store invariant of the scalar simulator: in every simulator of the tree, each stored
  value and each memory word fits the width of its signal.  The locale \<open>stored_values\<close> states
  what the simulator relies on, a predicate on stored values that masked and encoded values
  satisfy; the invariant is proved there for every operation and the locale is interpreted on
  \<open>fits_signal\<close>.
\<close>

section \<open>Well-formed modules\<close>

text \<open>What the module builder guarantees: a handle is the index of its signal.\<close>

definition signals_wf :: "rmodule \<Rightarrow> bool" where
  "signals_wf m \<longleftrightarrow> (\<forall>i < length (m_signals m).
     si_handle (m_signals m ! i) = \<lparr>sig_module = m_id m, sig_id = i\<rparr> \<and>
     si_width (m_signals m ! i) = bt_width (si_ty (m_signals m ! i)))"

text \<open>What validation guarantees: an output port has the width of the signal it drives.\<close>

definition outputs_match :: "design \<Rightarrow> rmodule \<Rightarrow> bool" where
  "outputs_match d m \<longleftrightarrow>
     list_all (\<lambda>i. case find_module d (in_module i) of None \<Rightarrow> True | Some cm \<Rightarrow>
       list_all (\<lambda>(pn, ps). case find_port cm pn KOutput of None \<Rightarrow> True | Some port \<Rightarrow>
         (case module_signal m ps of None \<Rightarrow> True | Some si \<Rightarrow> si_width si = si_width port))
       (in_connections i)) (m_instances m)"

definition module_wf :: "design \<Rightarrow> rmodule \<Rightarrow> bool" where
  "module_wf d m \<longleftrightarrow> signals_wf m \<and> outputs_match d m"

lemma signals_wf_lookup:
  assumes "signals_wf m" "si \<in> set (m_signals m)"
  shows "module_signal m (si_handle si) = Some si"
  using assms by (auto simp: signals_wf_def module_signal_def vec_get_def in_set_conv_nth)

lemma signals_wf_width:
  "signals_wf m \<Longrightarrow> module_signal m s = Some si \<Longrightarrow> si_width si = bt_width (si_ty si)"
  by (auto simp: signals_wf_def module_signal_def vec_get_Some_iff split: if_splits)

lemma find_port_in: "find_port m n k = Some p \<Longrightarrow> p \<in> set (m_signals m) \<and> si_kind p = k"
  by (auto simp: find_port_def dest: find_Some_in)

section \<open>The invariant\<close>

definition store_good ::
  "(rmodule \<Rightarrow> signal \<Rightarrow> u128 \<Rightarrow> bool) \<Rightarrow> rmodule \<Rightarrow> sig_values \<Rightarrow> sig_memories \<Rightarrow> bool" where
  "store_good good m V M \<longleftrightarrow>
     (\<forall>s v. V s = Some v \<longrightarrow> good m s v) \<and>
     (\<forall>s mem v. M s = Some mem \<longrightarrow> v \<in> set mem \<longrightarrow> good m s v)"

primrec sim_ok :: "(rmodule \<Rightarrow> signal \<Rightarrow> u128 \<Rightarrow> bool) \<Rightarrow> design \<Rightarrow> simulator \<Rightarrow> bool" where
  "sim_ok good d (Simulator m p V M H C) \<longleftrightarrow>
     module_wf d m \<and> store_good good m V M \<and>
     list_all (\<lambda>(i, c). i \<in> set (m_instances m) \<and> find_module d (in_module i) = Some (sim_module c)) C \<and>
     list_all snd (map (map_prod id (sim_ok good d)) C)"

definition fits_signal :: "rmodule \<Rightarrow> signal \<Rightarrow> u128 \<Rightarrow> bool" where
  "fits_signal m s v \<longleftrightarrow>
     (case module_signal m s of None \<Rightarrow> True | Some si \<Rightarrow> take_bit (bt_width (si_ty si)) v = v)"

lemma store_good_iff_store_ok: "store_good fits_signal m V M \<longleftrightarrow> store_ok m V M"
  by (auto simp: store_good_def store_ok_def fits_signal_def split: option.splits)

lemma store_good_value [intro]:
  "store_good good m V M \<Longrightarrow> good m s v \<Longrightarrow> store_good good m (V(s \<mapsto> v)) M"
  by (auto simp: store_good_def)

lemma store_good_insert_all:
  "store_good good m V M \<Longrightarrow> \<forall>(s, v) \<in> set ws. good m s v \<Longrightarrow>
     store_good good m (fst (insert_all ws V)) M"
  by (induction ws V rule: insert_all.induct) (auto simp: split_beta)

lemma store_good_insert_all_eq:
  "insert_all ws V = (V', b) \<Longrightarrow> store_good good m V M \<Longrightarrow> \<forall>(s, v) \<in> set ws. good m s v \<Longrightarrow>
     store_good good m V' M"
  using store_good_insert_all [of good m V M ws] by simp

lemma set_store_word: "x \<in> set (store_word memory a v) \<Longrightarrow> x = v \<or> x \<in> set memory"
  using set_update_subset_insert by (fastforce simp: store_word_def split: if_splits)

lemma store_good_memory:
  assumes "store_good good m V M" "good m mem data"
  shows "store_good good m V (apply_memory_write M (mem, addr, data))"
  using assms by (auto simp: store_good_def apply_memory_write_def split: option.splits if_splits
      dest!: set_store_word)

definition child_ok ::
  "(rmodule \<Rightarrow> signal \<Rightarrow> u128 \<Rightarrow> bool) \<Rightarrow> design \<Rightarrow> rmodule \<Rightarrow> inst \<times> simulator \<Rightarrow> bool" where
  "child_ok good d m ic \<longleftrightarrow> fst ic \<in> set (m_instances m) \<and>
     find_module d (in_module (fst ic)) = Some (sim_module (snd ic)) \<and> sim_ok good d (snd ic)"

lemma sim_ok_simulator:
  "sim_ok good d (Simulator m p V M H C) \<longleftrightarrow> module_wf d m \<and> store_good good m V M \<and>
     (\<forall>ic \<in> set C. child_ok good d m ic)"
  by (force simp: list_all_iff child_ok_def)

lemma sim_ok_children:
  "sim_ok good d s \<Longrightarrow> ic \<in> set (sim_children s) \<Longrightarrow> child_ok good d (sim_module s) ic"
  by (cases s) (simp add: sim_ok_simulator del: sim_ok.simps)

lemma sim_ok_with_values:
  "sim_ok good d c \<Longrightarrow> store_good good (sim_module c) V (sim_memories c) \<Longrightarrow> sim_ok good d (with_values c V)"
  by (cases c) simp

lemma sim_ok_wf: "sim_ok good d s \<Longrightarrow> module_wf d (sim_module s)"
  by (cases s) simp

lemma sim_ok_store: "sim_ok good d s \<Longrightarrow> store_good good (sim_module s) (sim_values s) (sim_memories s)"
  by (cases s) simp

section \<open>Every operation keeps it\<close>

locale stored_values =
  fixes good :: "rmodule \<Rightarrow> signal \<Rightarrow> u128 \<Rightarrow> bool"
  assumes good_masked:
      "signals_wf m \<Longrightarrow> module_signal m s = Some si \<Longrightarrow> good m s (v AND mask128 (si_width si))"
    and good_encoded:
      "signals_wf m \<Longrightarrow> module_signal m s = Some si \<Longrightarrow> good m s (encode_value i (si_ty si))"
    and good_undeclared: "module_signal m s = None \<Longrightarrow> good m s v"
begin

lemma async_resets_ok:
  assumes "apply_async_resets m V = (V', b)" "signals_wf m" "store_good good m V M"
  shows "store_good good m V' M"
proof (rule store_good_insert_all_eq)
  show "insert_all (concat (map (async_reset_write V) (m_signals m))) V = (V', b)"
    using assms(1) by (simp add: apply_async_resets_def)
  show "\<forall>(s, v) \<in> set (concat (map (async_reset_write V) (m_signals m))). good m s v"
    using assms(2) good_encoded signals_wf_lookup
    by (auto simp: async_reset_write_def split: signal_kind.splits option.splits if_splits)
qed fact

lemma assign_pass_ok:
  "assign_pass m M as V = Some (V', b) \<Longrightarrow> signals_wf m \<Longrightarrow> store_good good m V M \<Longrightarrow>
     store_good good m V' M"
proof (induction as arbitrary: V b)
  case (Cons a as)
  show ?case
  proof (cases "module_signal m (as_dst a)")
    case None
    with Cons show ?thesis by auto
  next
    case (Some dst)
    then obtain v b' where
      "assign_pass m M as (V(as_dst a \<mapsto> v AND mask128 (si_width dst))) = Some (V', b')"
      using Cons.prems(1) by (auto simp: bind_eq_Some)
    moreover have "store_good good m (V(as_dst a \<mapsto> v AND mask128 (si_width dst))) M"
      using Cons.prems Some by (auto intro: good_masked)
    ultimately show ?thesis using Cons.IH Cons.prems(2) by blast
  qed
qed simp

lemma input_writes_ok: "signals_wf cm \<Longrightarrow> \<forall>(s, v) \<in> set (input_writes cm V i). good cm s v"
  by (auto simp: input_writes_def split: option.splits
      dest!: find_port_in [OF sym] intro: good_masked [OF _ signals_wf_lookup])

lemma drive_child_inputs_cases:
  assumes "ic \<in> set (drive_child_inputs d V cs)" "find_module d (in_module (fst ic)) = Some cm"
  obtains c where "(fst ic, c) \<in> set cs"
    "snd ic = with_values c (fst (insert_all (input_writes cm V (fst ic)) (sim_values c)))"
  using assms by (auto simp: drive_child_inputs_def split: option.split_asm)

lemma drive_child_inputs_ok:
  assumes "\<forall>ic \<in> set cs. child_ok good d m ic" "ic \<in> set (drive_child_inputs d V cs)"
  shows "child_ok good d m ic"
proof -
  obtain c0 where c0: "(fst ic, c0) \<in> set cs" 
    using drive_child_inputs_member [of "fst ic" "snd ic" d V cs] assms(2) by auto
  then have "child_ok good d m (fst ic, c0)" using assms(1) by blast
  then obtain cm where cm: "find_module d (in_module (fst ic)) = Some cm"
    by (simp add: child_ok_def)
  obtain c where c: "(fst ic, c) \<in> set cs"
    "snd ic = with_values c (fst (insert_all (input_writes cm V (fst ic)) (sim_values c)))"
    by (rule drive_child_inputs_cases [OF assms(2) cm])
  have ok: "child_ok good d m (fst ic, c)" using assms(1) c(1) by blast
  then have same: "sim_module c = cm" and sim: "sim_ok good d c" and mem: "fst ic \<in> set (m_instances m)"
    using cm by (simp_all add: child_ok_def)
  have wf: "signals_wf cm" using sim_ok_wf [OF sim] same by (simp add: module_wf_def)
  have "store_good good cm (fst (insert_all (input_writes cm V (fst ic)) (sim_values c))) (sim_memories c)"
    using sim_ok_store [OF sim] same wf by (intro store_good_insert_all input_writes_ok) simp_all
  then have "sim_ok good d (snd ic)" unfolding c(2) using sim same by (intro sim_ok_with_values) simp_all
  then show ?thesis using mem cm same by (simp add: child_ok_def c(2))
qed

lemma for_children_ok:
  assumes "for_children f cs = Some cs'"
    "\<And>c c'. sim_ok good d c \<Longrightarrow> f c = Some c' \<Longrightarrow> sim_ok good d c' \<and> sim_module c' = sim_module c"
    "\<forall>ic \<in> set cs. child_ok good d m ic"
  shows "\<forall>ic \<in> set cs'. child_ok good d m ic"
proof -
  have "list_all2 (\<lambda>ic ic'. fst ic' = fst ic \<and> f (snd ic) = Some (snd ic')) cs cs'"
    using assms(1) by (simp add: for_children_Some_iff)
  then show ?thesis
  proof (rule list_all2_right)
    fix ic ic'
    assume "ic \<in> set cs" "fst ic' = fst ic \<and> f (snd ic) = Some (snd ic')"
    then show "child_ok good d m ic'"
      using assms(2) [of "snd ic" "snd ic'"] assms(3) by (simp add: child_ok_def)
  qed
qed

lemma output_writes_ok:
  assumes "module_wf d m" "child_ok good d m ic"
  shows "\<forall>(s, v) \<in> set (output_writes d ic). good m s v"
proof -
  have "good m ps (get_value V (si_handle port) AND mask128 (si_width port))"
    if "(pn, ps) \<in> set (in_connections (fst ic))" "find_module d (in_module (fst ic)) = Some cm"
      "find_port cm pn KOutput = Some port" for pn ps cm port V
  proof (cases "module_signal m ps")
    case (Some si)
    with that assms have "si_width port = si_width si"
      by (fastforce simp: module_wf_def outputs_match_def child_ok_def list_all_iff)
    with assms(1) Some show ?thesis by (simp add: good_masked module_wf_def)
  qed (rule good_undeclared)
  then show ?thesis
    by (cases "find_module d (in_module (fst ic))")
      (auto simp: output_writes_def split: option.split_asm)
qed

lemma eval_instances_ok:
  assumes "eval_instances d rec V cs = Some (V', cs', b)" "module_wf d m" "store_good good m V M"
    "\<And>c c'. sim_ok good d c \<Longrightarrow> rec c = Some c' \<Longrightarrow> sim_ok good d c' \<and> sim_module c' = sim_module c"
    "\<forall>ic \<in> set cs. child_ok good d m ic"
  shows "store_good good m V' M \<and> (\<forall>ic \<in> set cs'. child_ok good d m ic)"
proof -
  have run: "for_children rec (drive_child_inputs d V cs) = Some cs'"
    "insert_all (concat (map (output_writes d) cs')) V = (V', b)"
    using assms(1) by (elim eval_instancesE; simp)+
  have kids: "\<forall>ic \<in> set cs'. child_ok good d m ic"
    using drive_child_inputs_ok [OF assms(5)] by (intro for_children_ok [OF run(1) assms(4)]) blast+
  moreover have "store_good good m V' M"
    using kids output_writes_ok [OF assms(2)]
    by (intro store_good_insert_all_eq [OF run(2) assms(3)]) fastforce
  ultimately show ?thesis by blast
qed

lemma comb_iteration_ok:
  assumes "comb_iteration d rec s = Some (s', b)" "sim_ok good d s"
    "\<And>c c'. sim_ok good d c \<Longrightarrow> rec c = Some c' \<Longrightarrow> sim_ok good d c' \<and> sim_module c' = sim_module c"
  shows "sim_ok good d s'"
proof -
  obtain m p V M H C where s: "s = Simulator m p V M H C" by (cases s)
  note ok = assms(2) [unfolded s sim_ok_simulator]
  then have wf: "signals_wf m" "module_wf d m" by (simp_all add: module_wf_def)
  obtain V1 c1 V2 c2 V3 C3 c3 V4 c4 where
    run: "apply_async_resets m V = (V1, c1)" "assign_pass m M (m_assignments m) V1 = Some (V2, c2)"
      "eval_instances d rec V2 C = Some (V3, C3, c3)" "apply_async_resets m V3 = (V4, c4)"
    and s': "s' = Simulator m p V4 M H C3"
    using assms(1) unfolding s by (elim comb_iterationE) simp
  have "store_good good m V2 M"
    using ok by (intro assign_pass_ok [OF run(2) wf(1)] async_resets_ok [OF run(1) wf(1)]) simp
  then have "store_good good m V3 M \<and> (\<forall>ic \<in> set C3. child_ok good d m ic)"
    using ok by (intro eval_instances_ok [OF run(3) wf(2)] assms(3)) auto
  then show ?thesis
    using wf by (auto simp: s' sim_ok_simulator simp del: sim_ok.simps intro: async_resets_ok [OF run(4)])
qed

lemma eval_at_ok:
  "eval_combinational_at n d s = Some s' \<Longrightarrow> sim_ok good d s \<Longrightarrow>
     sim_ok good d s' \<and> sim_module s' = sim_module s"
proof (induction n arbitrary: s s')
  case (Suc n)
  have "sim_ok good d s'"
    by (rule comb_loop_invariant [where P = "sim_ok good d"])
      (use Suc in \<open>auto dest: comb_iteration_ok [OF _ _ Suc.IH]\<close>)
  then show ?case using frame_eqD [OF eval_at_frame [OF Suc.prems(1)]] by simp
qed simp

lemma eval_combinational_ok:
  "eval_combinational d s = Some s' \<Longrightarrow> sim_ok good d s \<Longrightarrow>
     sim_ok good d s' \<and> sim_module s' = sim_module s"
  unfolding eval_combinational_def by (rule eval_at_ok)

lemma with_children_ok:
  "sim_ok good d s \<Longrightarrow> \<forall>ic \<in> set cs. child_ok good d (sim_module s) ic \<Longrightarrow>
     sim_ok good d (with_children s cs) \<and> sim_module (with_children s cs) = sim_module s"
  by (cases s) (simp add: sim_ok_simulator with_children_def del: sim_ok.simps)

lemma settle_children_ok:
  assumes "settle_children d s = Some s'" "sim_ok good d s"
  shows "sim_ok good d s' \<and> sim_module s' = sim_module s"
proof -
  obtain m p V M H C where s: "s = Simulator m p V M H C" by (cases s)
  note ok = assms(2) [unfolded s sim_ok_simulator]
  obtain cs where cs: "for_children (eval_combinational d) (drive_child_inputs d V C) = Some cs"
    "s' = Simulator m p V M H cs"
    using assms(1) by (auto simp: s settle_children_def bind_eq_Some)
  have "\<forall>ic \<in> set cs. child_ok good d m ic"
  proof (rule for_children_ok [OF cs(1)])
    show "\<forall>ic \<in> set (drive_child_inputs d V C). child_ok good d m ic"
      using ok drive_child_inputs_ok by blast
  qed (rule eval_combinational_ok)
  with ok show ?thesis by (simp add: cs(2) s sim_ok_simulator del: sim_ok.simps)
qed

lemma map_children_ok:
  assumes "map_children f cs = Some (cs', xs)"
    "\<And>c c' x. c \<in> snd ` set cs \<Longrightarrow> sim_ok good d c \<Longrightarrow> f c = Some (c', x) \<Longrightarrow>
       sim_ok good d c' \<and> sim_module c' = sim_module c \<and> P c' x"
    "\<forall>ic \<in> set cs. child_ok good d m ic"
  shows "(\<forall>ic \<in> set cs'. child_ok good d m ic) \<and> list_all2 (\<lambda>ic x. P (snd ic) x) cs' xs"
proof -
  obtain rs where rs: "mapM (\<lambda>ic. map_option (\<lambda>(c, x). ((fst ic, c), x)) (f (snd ic))) cs = Some rs"
    and eq: "cs' = map fst rs" "xs = map snd rs"
    using assms(1) by (auto simp: map_children_def bind_eq_Some)
  have "list_all2 (\<lambda>ic r. child_ok good d m (fst r) \<and> P (snd (fst r)) (snd r)) cs rs"
    using mapM_SomeD [OF rs]
  proof (rule list.rel_mono_strong)
    fix ic r
    assume in_cs: "ic \<in> set cs"
      and step: "map_option (\<lambda>(c, x). ((fst ic, c), x)) (f (snd ic)) = Some r"
    then obtain c x where r: "f (snd ic) = Some (c, x)" "r = ((fst ic, c), x)" by auto
    have ok: "child_ok good d m ic" using in_cs assms(3) by blast
    then have "sim_ok good d (snd ic)" by (simp add: child_ok_def)
    then have "sim_ok good d c \<and> sim_module c = sim_module (snd ic) \<and> P c x"
      using in_cs by (intro assms(2) r) auto
    with ok show "child_ok good d m (fst r) \<and> P (snd (fst r)) (snd r)"
      by (simp add: child_ok_def r(2))
  qed
  then show ?thesis
    unfolding eq by (induction rule: list_all2_induct) simp_all
qed

end

section \<open>The clock edge keeps it\<close>

fun tick_good :: "(rmodule \<Rightarrow> signal \<Rightarrow> u128 \<Rightarrow> bool) \<Rightarrow> simulator \<Rightarrow> tick_state \<Rightarrow> bool"
and ticks_good :: "(rmodule \<Rightarrow> signal \<Rightarrow> u128 \<Rightarrow> bool) \<Rightarrow> (inst \<times> simulator) list \<Rightarrow> tick_state list \<Rightarrow> bool"
where
  "tick_good good (Simulator m p V M H C) (TickState vs ms ts) \<longleftrightarrow>
     list_all (\<lambda>(s, v). good m s v) vs \<and> list_all (\<lambda>(s, a, v). good m s v) ms \<and> ticks_good good C ts"
| "ticks_good good (ic # cs) (t # ts) \<longleftrightarrow> tick_good good (snd ic) t \<and> ticks_good good cs ts"
| "ticks_good good [] ts \<longleftrightarrow> True"
| "ticks_good good cs [] \<longleftrightarrow> True"

lemma ticks_goodI: "list_all2 (\<lambda>ic t. tick_good good (snd ic) t) cs ts \<Longrightarrow> ticks_good good cs ts"
  by (induction rule: list_all2_induct) auto

lemma store_good_memories:
  "store_good good m V M \<Longrightarrow> list_all (\<lambda>(s, a, v). good m s v) ms \<Longrightarrow>
     store_good good m V (foldl apply_memory_write M ms)"
proof (induction ms arbitrary: M)
  case (Cons w ms)
  obtain s a v where w: "w = (s, a, v)" by (cases w)
  show ?case using Cons.prems unfolding w by (simp add: Cons.IH store_good_memory)
qed simp

lemma apply_tick_ok:
  "sim_ok good d s \<Longrightarrow> tick_good good s t \<Longrightarrow>
     sim_ok good d (apply_tick s t) \<and> sim_module (apply_tick s t) = sim_module s"
  "ticks_good good cs ts \<Longrightarrow> \<forall>ic \<in> set cs. child_ok good d m ic \<Longrightarrow>
     \<forall>ic \<in> set (apply_ticks cs ts). child_ok good d m ic"
proof (induction s t and cs ts arbitrary: and m rule: apply_tick_apply_ticks.induct)
  case (1 m' p V M H C vs ms ts)
  have prems: "module_wf d m'" "store_good good m' V M" "\<forall>ic \<in> set C. child_ok good d m' ic"
    using "1.prems"(1) unfolding sim_ok_simulator by blast+
  have good: "\<forall>(s, v) \<in> set vs. good m' s v" "list_all (\<lambda>(s, a, v). good m' s v) ms" "ticks_good good C ts"
    using "1.prems"(2) by (simp_all add: list_all_iff)
  have "\<forall>ic \<in> set (apply_ticks C ts). child_ok good d m' ic"
    by (rule "1.IH") (use good prems in blast)+
  moreover have "store_good good m' (fst (insert_all vs V)) (foldl apply_memory_write M ms)"
    by (intro store_good_memories store_good_insert_all prems good)
  ultimately show ?case using prems(1) by (simp only: apply_tick.simps sim_ok_simulator simulator.sel)
next
  case (2 ic cs t ts)
  have ic: "child_ok good d m ic" "\<forall>ic \<in> set cs. child_ok good d m ic"
    using "2.prems"(2) by simp_all
  then have "sim_ok good d (apply_tick (snd ic) t) \<and> sim_module (apply_tick (snd ic) t) = sim_module (snd ic)"
    using "2.prems"(1) by (intro "2.IH"(1)) (simp_all add: child_ok_def)
  then have "child_ok good d m (fst ic, apply_tick (snd ic) t)"
    using ic(1) by (simp add: child_ok_def)
  moreover have "\<forall>ic \<in> set (apply_ticks cs ts). child_ok good d m ic"
    using "2.prems"(1) ic(2) by (intro "2.IH"(2)) simp_all
  ultimately show ?case by simp
qed simp_all

context stored_values begin

lemma capture_registers_ok:
  "capture_registers m V M sis = Some vs \<Longrightarrow> signals_wf m \<Longrightarrow> set sis \<subseteq> set (m_signals m) \<Longrightarrow>
     list_all (\<lambda>(s, v). good m s v) vs"
proof (induction sis arbitrary: vs)
  case (Cons si sis)
  then have "good m (si_handle si) (v AND mask128 (si_width si))" for v
    by (intro good_masked signals_wf_lookup) auto
  with Cons show ?case by (auto simp: bind_eq_Some split: signal_kind.splits)
qed simp

lemma capture_registers_clocked_ok:
  "capture_registers_clocked active m V M sis = Some vs \<Longrightarrow> signals_wf m \<Longrightarrow>
     set sis \<subseteq> set (m_signals m) \<Longrightarrow> list_all (\<lambda>(s, v). good m s v) vs"
proof (induction sis arbitrary: vs)
  case (Cons si sis)
  then have "good m (si_handle si) (v AND mask128 (si_width si))" for v
    by (intro good_masked signals_wf_lookup) auto
  with Cons show ?case by (auto simp: bind_eq_Some split: signal_kind.splits if_splits)
qed simp

lemma capture_writes_ok:
  "capture_writes m V M ws = Some ms \<Longrightarrow> signals_wf m \<Longrightarrow> list_all (\<lambda>(s, a, v). good m s v) ms"
proof (induction ws arbitrary: ms)
  case (Cons w ws)
  then show ?case
    by (auto simp: bind_eq_Some split: option.splits if_splits intro: good_masked)
qed simp

lemma capture_writes_clocked_ok:
  "capture_writes_clocked active m V M ws = Some ms \<Longrightarrow> signals_wf m \<Longrightarrow>
     list_all (\<lambda>(s, a, v). good m s v) ms"
proof (induction ws arbitrary: ms)
  case (Cons w ws)
  then show ?case
    by (auto simp: bind_eq_Some split: option.splits if_splits intro: good_masked)
qed simp

lemma capture_tick_ok:
  "capture_tick d s = Some (s', t) \<Longrightarrow> sim_ok good d s \<Longrightarrow>
     sim_ok good d s' \<and> sim_module s' = sim_module s \<and> tick_good good s' t"
proof (induction d s arbitrary: s' t rule: capture_tick.induct)
  case (1 d s)
  obtain s1 vals mems cs ticks where
    run: "settle_children d s = Some s1"
      "capture_registers (sim_module s) (sim_values s) (sim_memories s) (m_signals (sim_module s)) = Some vals"
      "capture_writes (sim_module s) (sim_values s) (sim_memories s) (m_memory_writes (sim_module s)) = Some mems"
      "map_children (capture_tick d) (sim_children s1) = Some (cs, ticks)"
    and res: "s' = with_children s1 cs" "t = TickState vals mems ticks"
    using "1.prems"(1) unfolding capture_tick.simps [of d s] by (auto simp: bind_eq_Some)
  have s1: "sim_ok good d s1" "sim_module s1 = sim_module s"
    using settle_children_ok [OF run(1) "1.prems"(2)] by simp_all
  then have wf: "signals_wf (sim_module s)" by (metis module_wf_def sim_ok_wf)
  have "(\<forall>ic \<in> set cs. child_ok good d (sim_module s1) ic) \<and> list_all2 (\<lambda>ic t. tick_good good (snd ic) t) cs ticks"
  proof (rule map_children_ok [OF run(4)])
    fix c c' x
    assume c: "c \<in> snd ` set (sim_children s1)" "sim_ok good d c" "capture_tick d c = Some (c', x)"
    then obtain i where "(i, c) \<in> set (sim_children s1)" by auto
    from "1.IH" [OF run(1-3) this c(3,2)]
    show "sim_ok good d c' \<and> sim_module c' = sim_module c \<and> tick_good good c' x" .
  qed (use s1 sim_ok_children in blast)
  then have kids: "\<forall>ic \<in> set cs. child_ok good d (sim_module s1) ic" "ticks_good good cs ticks"
    by (simp_all add: ticks_goodI)
  have vals: "list_all (\<lambda>(sg, v). good (sim_module s) sg v) vals"
    by (rule capture_registers_ok [OF run(2) wf]) simp
  have mems: "list_all (\<lambda>(sg, a, v). good (sim_module s) sg v) mems"
    by (rule capture_writes_ok [OF run(3) wf])
  show ?case
    using with_children_ok [OF s1(1) kids(1)] kids(2) vals mems s1(2)
    by (cases s1) (simp add: res with_children_def)
qed

lemma capture_tick_clocked_ok:
  assumes "capture_tick_clocked d active s = Some (s', t)" "sim_ok good d s"
  shows "sim_ok good d s' \<and> sim_module s' = sim_module s \<and> tick_good good s' t"
proof -
  obtain s1 vals mems cs ticks where
    run: "settle_children d s = Some s1"
      "capture_registers_clocked active (sim_module s) (sim_values s) (sim_memories s) (m_signals (sim_module s)) = Some vals"
      "capture_writes_clocked active (sim_module s) (sim_values s) (sim_memories s) (m_memory_writes (sim_module s)) = Some mems"
      "map_children (capture_tick d) (sim_children s1) = Some (cs, ticks)"
    and res: "s' = with_children s1 cs" "t = TickState vals mems ticks"
    using assms(1) unfolding capture_tick_clocked_def by (auto simp: bind_eq_Some)
  have s1: "sim_ok good d s1" "sim_module s1 = sim_module s"
    using settle_children_ok [OF run(1) assms(2)] by simp_all
  then have wf: "signals_wf (sim_module s)" by (metis module_wf_def sim_ok_wf)
  have "(\<forall>ic \<in> set cs. child_ok good d (sim_module s1) ic) \<and> list_all2 (\<lambda>ic t. tick_good good (snd ic) t) cs ticks"
    by (rule map_children_ok [OF run(4) capture_tick_ok]) (use s1 sim_ok_children in blast)+
  then have kids: "\<forall>ic \<in> set cs. child_ok good d (sim_module s1) ic" "ticks_good good cs ticks"
    by (simp_all add: ticks_goodI)
  have vals: "list_all (\<lambda>(sg, v). good (sim_module s) sg v) vals"
    by (rule capture_registers_clocked_ok [OF run(2) wf]) simp
  have mems: "list_all (\<lambda>(sg, a, v). good (sim_module s) sg v) mems"
    by (rule capture_writes_clocked_ok [OF run(3) wf])
  show ?thesis
    using with_children_ok [OF s1(1) kids(1)] kids(2) vals mems s1(2)
    by (cases s1) (simp add: res with_children_def)
qed

lemma with_hits_ok: "sim_ok good d s \<Longrightarrow> sim_ok good d (with_hits s H) \<and> sim_module (with_hits s H) = sim_module s"
  by (cases s) (simp add: with_hits_def)

lemma sample_cover_points_ok:
  "sample_cover_points d b s = Some s' \<Longrightarrow> sim_ok good d s \<Longrightarrow>
     sim_ok good d s' \<and> sim_module s' = sim_module s"
proof (induction d b s arbitrary: s' rule: sample_cover_points.induct)
  case (1 d b s)
  obtain s1 hits H cs where
    run: "settle_children d s = Some s1"
      "cover_loop (sim_module s) (sim_path s) (sim_values s) (sim_memories s) b
         (m_cover_points (sim_module s)) = Some hits"
      "count_hits (sim_cover_hits s) hits = Some H"
      "for_children (sample_cover_points d b) (sim_children s1) = Some cs"
    and res: "s' = with_hits (with_children s1 cs) H"
    using "1.prems"(1) unfolding sample_cover_points.simps [of d b s] by (auto simp: bind_eq_Some)
  have s1: "sim_ok good d s1" "sim_module s1 = sim_module s"
    using settle_children_ok [OF run(1) "1.prems"(2)] by simp_all
  have "list_all2 (\<lambda>ic ic'. fst ic' = fst ic \<and> sample_cover_points d b (snd ic) = Some (snd ic'))
      (sim_children s1) cs"
    using run(4) by (simp add: for_children_Some_iff)
  then have "\<forall>ic \<in> set cs. child_ok good d (sim_module s1) ic"
  proof (rule list_all2_right)
    fix ic ic'
    assume ic: "ic \<in> set (sim_children s1)"
      "fst ic' = fst ic \<and> sample_cover_points d b (snd ic) = Some (snd ic')"
    have "child_ok good d (sim_module s1) ic" by (rule sim_ok_children [OF s1(1) ic(1)])
    moreover from this have "sim_ok good d (snd ic') \<and> sim_module (snd ic') = sim_module (snd ic)"
      using ic "1.IH" [OF run(1-3), of "fst ic" "snd ic" "snd ic'"] by (simp add: child_ok_def)
    ultimately show "child_ok good d (sim_module s1) ic'" using ic(2) by (simp add: child_ok_def)
  qed
  then show ?case
    using with_children_ok [OF s1(1)] with_hits_ok s1(2) unfolding res by metis
qed

lemma collect_assertion_failures_ok:
  "collect_assertion_failures d b s = Some (s', ds) \<Longrightarrow> sim_ok good d s \<Longrightarrow>
     sim_ok good d s' \<and> sim_module s' = sim_module s"
proof (induction d b s arbitrary: s' ds rule: collect_assertion_failures.induct)
  case (1 d b s)
  obtain s1 ds1 cs dss where
    run: "settle_children d s = Some s1"
      "assertion_loop (sim_module s) (sim_values s) (sim_memories s) b (m_assertions (sim_module s)) = Some ds1"
      "map_children (collect_assertion_failures d b) (sim_children s1) = Some (cs, dss)"
    and res: "s' = with_children s1 cs"
    using "1.prems"(1) unfolding collect_assertion_failures.simps [of d b s] by (auto simp: bind_eq_Some)
  have s1: "sim_ok good d s1" "sim_module s1 = sim_module s"
    using settle_children_ok [OF run(1) "1.prems"(2)] by simp_all
  have "(\<forall>ic \<in> set cs. child_ok good d (sim_module s1) ic) \<and> list_all2 (\<lambda>ic t. True) cs dss"
  proof (rule map_children_ok [OF run(3)])
    fix c c' x
    assume c: "c \<in> snd ` set (sim_children s1)" "sim_ok good d c"
      "collect_assertion_failures d b c = Some (c', x)"
    then obtain i where "(i, c) \<in> set (sim_children s1)" by auto
    from "1.IH" [OF run(1,2) this c(3,2)]
    show "sim_ok good d c' \<and> sim_module c' = sim_module c \<and> True" by simp
  qed (use s1 sim_ok_children in blast)
  then show ?case using with_children_ok [OF s1(1)] s1(2) by (simp add: res)
qed

lemma sim_set_ok:
  assumes "sim_set d sg v s = Some s'" "sim_ok good d s"
  shows "sim_ok good d s' \<and> sim_module s' = sim_module s"
proof -
  define w where "w = (case module_signal (sim_module s) sg of None \<Rightarrow> 128 | Some si \<Rightarrow> si_width si)"
  have wf: "signals_wf (sim_module s)" using sim_ok_wf [OF assms(2)] by (simp add: module_wf_def)
  have "good (sim_module s) sg (v AND mask128 w)"
    by (cases "module_signal (sim_module s) sg") (simp_all add: w_def good_undeclared good_masked wf)
  then have "sim_ok good d (with_values s ((sim_values s)(sg \<mapsto> v AND mask128 w)))"
    by (intro sim_ok_with_values store_good_value sim_ok_store [OF assms(2)] assms(2))
  then show ?thesis
    using eval_combinational_ok assms(1) by (fastforce simp: sim_set_def w_def)
qed

lemma tick_checked_ok:
  assumes "tick_checked d s = Some (s', r)" "sim_ok good d s"
  shows "sim_ok good d s' \<and> sim_module s' = sim_module s"
proof -
  obtain s1 s2 s3 ds where
    run: "eval_combinational d s = Some s1" "sample_cover_points d True s1 = Some s2"
      "collect_assertion_failures d True s2 = Some (s3, ds)"
    and rest: "(case report_result ds of
          Inl e \<Rightarrow> Some (s3, Inl e)
        | Inr u \<Rightarrow> do { (s4, t) \<leftarrow> capture_tick d s3;
                       s5 \<leftarrow> eval_combinational d (apply_tick s4 t);
                       Some (s5, Inr ()) }) = Some (s', r)"
    using assms(1) by (auto simp: tick_checked_def check_clocked_assertions_def bind_eq_Some)
  have s3: "sim_ok good d s3 \<and> sim_module s3 = sim_module s"
    using eval_combinational_ok [OF run(1)] sample_cover_points_ok [OF run(2)]
      collect_assertion_failures_ok [OF run(3)] assms(2) by simp
  show ?thesis
  proof (cases "report_result ds")
    case (Inr u)
    with rest obtain s4 t where s4: "capture_tick d s3 = Some (s4, t)"
      and s5: "eval_combinational d (apply_tick s4 t) = Some s'" by (auto simp: bind_eq_Some)
    then show ?thesis
      using capture_tick_ok [OF s4] apply_tick_ok(1) [of good d s4 t] eval_combinational_ok [OF s5] s3
      by simp
  qed (use rest s3 in simp)
qed

lemma tick_clocked_ok:
  assumes "tick_clocked d active s = Some (s', r)" "sim_ok good d s"
  shows "sim_ok good d s' \<and> sim_module s' = sim_module s"
proof -
  obtain s1 s2 s3 ds where
    run: "eval_combinational d s = Some s1" "sample_cover_points d True s1 = Some s2"
      "collect_assertion_failures d True s2 = Some (s3, ds)"
    and rest: "(case report_result ds of
          Inl e \<Rightarrow> Some (s3, Inl e)
        | Inr u \<Rightarrow> do { (s4, t) \<leftarrow> capture_tick_clocked d active s3;
                       s5 \<leftarrow> eval_combinational d (apply_tick s4 t);
                       Some (s5, Inr ()) }) = Some (s', r)"
    using assms(1) by (auto simp: tick_clocked_def check_clocked_assertions_def bind_eq_Some)
  have s3: "sim_ok good d s3 \<and> sim_module s3 = sim_module s"
    using eval_combinational_ok [OF run(1)] sample_cover_points_ok [OF run(2)]
      collect_assertion_failures_ok [OF run(3)] assms(2) by simp
  show ?thesis
  proof (cases "report_result ds")
    case (Inr u)
    with rest obtain s4 t where s4: "capture_tick_clocked d active s3 = Some (s4, t)"
      and s5: "eval_combinational d (apply_tick s4 t) = Some s'" by (auto simp: bind_eq_Some)
    then show ?thesis
      using capture_tick_clocked_ok [OF s4] apply_tick_ok(1) [of good d s4 t] eval_combinational_ok [OF s5] s3
      by simp
  qed (use rest s3 in simp)
qed

lemma check_assertions_ok:
  assumes "check_assertions d s = Some (s', r)" "sim_ok good d s"
  shows "sim_ok good d s' \<and> sim_module s' = sim_module s"
proof -
  obtain s1 s2 ds where "eval_combinational d s = Some s1" "sample_cover_points d False s1 = Some s2"
    "collect_assertion_failures d False s2 = Some (s', ds)"
    using assms(1) by (auto simp: check_assertions_def bind_eq_Some)
  then show ?thesis
    using eval_combinational_ok sample_cover_points_ok collect_assertion_failures_ok assms(2) by metis
qed

lemma good_zero: "signals_wf m \<Longrightarrow> good m s 0"
  using good_masked [of m s _ 0] good_undeclared [of m s 0] by (cases "module_signal m s") auto

lemma initial_values_ok:
  assumes "signals_wf m"
  shows "\<forall>s v. initial_values m init s = Some v \<longrightarrow> good m s v"
  unfolding initial_values_def
proof (rule fold_invariant [where P = "\<lambda>V. \<forall>s v. V s = Some v \<longrightarrow> good m s v" and Q = "\<lambda>si. si \<in> set (m_signals m)"])
  fix si :: signal_info and V :: sig_values
  assume "si \<in> set (m_signals m)" and V: "\<forall>s v. V s = Some v \<longrightarrow> good m s v"
  then have "good m (si_handle si) (initial_value m init si)"
    using assms by (auto simp: initial_value_def Let_def intro!: good_masked signals_wf_lookup)
  with V show "\<forall>s v. (V(si_handle si \<mapsto> initial_value m init si)) s = Some v \<longrightarrow> good m s v" by simp
qed simp_all

lemma store_word_ok:
  "good m s v \<Longrightarrow> \<forall>x \<in> set mem. good m s x \<Longrightarrow> \<forall>x \<in> set (store_word mem a v). good m s x"
  by (auto dest: set_store_word)

lemma initial_memory_ok:
  assumes wf: "signals_wf m" and si: "si \<in> set (m_signals m)"
  shows "\<forall>v \<in> set (initial_memory m init si depth). good m (si_handle si) v"
proof -
  let ?good = "\<lambda>mem. \<forall>v \<in> set mem. good m (si_handle si) v"
  note lookup = signals_wf_lookup [OF wf si]
  have enc: "?good (fold (\<lambda>i mem. store_word mem (imv_addr i) (encode_value (imv_value i) (si_ty si))) is mem)"
    if "?good mem" for "is" mem
    by (rule fold_invariant [where P = ?good and Q = "\<lambda>_. True"], simp, rule that)
      (intro store_word_ok good_encoded [OF wf lookup])
  have ovs: "?good (fold (\<lambda>(addr, v) mem. store_word mem addr (v AND mask128 (si_width si))) ws mem)"
    if "?good mem" for ws mem
    by (rule fold_invariant [where P = ?good and Q = "\<lambda>_. True"], simp, rule that)
      (unfold split_beta, intro store_word_ok good_masked [OF wf lookup])
  have "?good (replicate depth 0)" using good_zero [OF wf] by simp
  from enc [OF this] have mem0: "?good (fold (\<lambda>i mem. store_word mem (imv_addr i)
      (encode_value (imv_value i) (si_ty si)))
    (filter (\<lambda>i. imv_mem i = si_handle si) (m_initial_memory_values m)) (replicate depth 0))" .
  show ?thesis
  proof (cases "init_memories init (si_handle si)")
    case None
    with mem0 show ?thesis unfolding initial_memory_def Let_def by simp
  next
    case (Some ws)
    from ovs [OF mem0, of ws] Some show ?thesis unfolding initial_memory_def Let_def by simp
  qed
qed

lemma initial_memories_ok:
  assumes "signals_wf m"
  shows "\<forall>s mem v. initial_memories m init s = Some mem \<longrightarrow> v \<in> set mem \<longrightarrow> good m s v"
  unfolding initial_memories_def
proof (rule fold_invariant [where P = "\<lambda>M. \<forall>s mem v. M s = Some mem \<longrightarrow> v \<in> set mem \<longrightarrow> good m s v" and Q = "\<lambda>si. si \<in> set (m_signals m)"])
  fix si :: signal_info and M :: sig_memories
  assume "si \<in> set (m_signals m)" and M: "\<forall>s mem v. M s = Some mem \<longrightarrow> v \<in> set mem \<longrightarrow> good m s v"
  then have "\<forall>v \<in> set (initial_memory m init si depth). good m (si_handle si) v" for depth
    by (intro initial_memory_ok assms)
  with M show "\<forall>s mem v. (case si_kind si of
             KMem aw dw depth \<Rightarrow> M(si_handle si \<mapsto> initial_memory m init si depth) | _ \<Rightarrow> M) s = Some mem
      \<longrightarrow> v \<in> set mem \<longrightarrow> good m s v"
    by (auto split: signal_kind.split)
qed simp_all

lemma initial_store_ok:
  "signals_wf m \<Longrightarrow> store_good good m (initial_values m init) (initial_memories m init)"
  using initial_values_ok initial_memories_ok by (auto simp: store_good_def)

lemma children_loop_ok:
  assumes "children_loop d rec path is = Some (Inr cs)"
    "\<And>cm p c. cm \<in> set (ds_modules d) \<Longrightarrow> rec cm p = Some (Inr c) \<Longrightarrow> sim_ok good d c \<and> sim_module c = cm"
    "set is \<subseteq> set (m_instances m)"
  shows "\<forall>ic \<in> set cs. child_ok good d m ic"
  using assms(1,3)
proof (induction "is" arbitrary: cs)
  case (Cons i "is")
  then obtain cm where cm: "find_module d (in_module i) = Some cm" by (auto split: option.splits)
  with Cons.prems(1) obtain c cs' where
    "rec cm (path @ ''.'' @ in_name i) = Some (Inr c)" "children_loop d rec path is = Some (Inr cs')"
    "cs = (i, c) # cs'"
    by (auto simp: bind_eq_Some split: if_split_asm)
  moreover from this have "sim_ok good d c \<and> sim_module c = cm"
    using cm by (intro assms(2)) (auto dest: find_module_name)
  ultimately show ?case using Cons cm by (simp add: child_ok_def)
qed simp

lemma from_module_ok:
  assumes "\<forall>m \<in> set (ds_modules d). module_wf d m"
  shows "from_module n d init m path = Some (Inr s) \<Longrightarrow> m \<in> set (ds_modules d) \<Longrightarrow>
    sim_ok good d s \<and> sim_module s = m"
proof (induction n arbitrary: m path s)
  case (Suc n)
  obtain cs where cs: "children_loop d (from_module n d init) path (m_instances m) = Some (Inr cs)"
    and s: "s = Simulator m path (initial_values m init) (initial_memories m init) Map.empty cs"
    using Suc.prems(1) by (auto simp: bind_eq_Some split: if_split_asm)
  have "module_wf d m" using assms Suc.prems(2) by blast
  moreover have "\<forall>ic \<in> set cs. child_ok good d m ic"
    by (rule children_loop_ok [OF cs]) (use Suc.IH in blast)+
  ultimately show ?case
    by (simp add: s sim_ok_simulator initial_store_ok module_wf_def del: sim_ok.simps)
qed simp

end

section \<open>The invariant of the code\<close>

interpretation fits: stored_values fits_signal
proof
  fix m s si and v :: u128 and i :: i128
  assume "signals_wf m" "module_signal m s = Some si"
  then show "fits_signal m s (v AND mask128 (si_width si))" "fits_signal m s (encode_value i (si_ty si))"
    by (simp_all add: fits_signal_def signals_wf_width mask128_eq encode_value_eq min_def
        flip: take_bit_eq_mask)
qed (simp add: fits_signal_def)

text \<open>The simulators a program can reach: build one, then drive signals, tick and check.\<close>

inductive sim_reaches :: "design \<Rightarrow> simulator \<Rightarrow> bool" for d where
  R_new: "m \<in> set (ds_modules d) \<Longrightarrow> from_module n d init m path = Some (Inr s0) \<Longrightarrow>
     eval_combinational d s0 = Some s \<Longrightarrow> sim_reaches d s"
| R_set: "sim_reaches d s \<Longrightarrow> sim_set d sg v s = Some s' \<Longrightarrow> sim_reaches d s'"
| R_tick: "sim_reaches d s \<Longrightarrow> tick_checked d s = Some (s', r) \<Longrightarrow> sim_reaches d s'"
| R_tick_clocked: "sim_reaches d s \<Longrightarrow> tick_clocked d active s = Some (s', r) \<Longrightarrow> sim_reaches d s'"
| R_check: "sim_reaches d s \<Longrightarrow> check_assertions d s = Some (s', r) \<Longrightarrow> sim_reaches d s'"

lemma reaches_fits:
  assumes "sim_reaches d s" "\<forall>m \<in> set (ds_modules d). module_wf d m"
  shows "sim_ok fits_signal d s"
  using assms(1)
proof induction
  case (R_new m n init path s0 s)
  then show ?case using fits.from_module_ok [OF assms(2)] fits.eval_combinational_ok by blast
qed (use fits.sim_set_ok fits.tick_checked_ok fits.tick_clocked_ok fits.check_assertions_ok in blast)+

end
