(* ===== verification/Scalar_Flat.thy ===== *)
theory Scalar_Flat
  imports Scalar_Invariant
begin

text \<open>
  A flat module whose combinational assignments are acyclic: \<open>eval_combinational\<close> reaches a
  state in which every assignment holds, within the iteration limit of the code, and a clock
  edge computes the next state of the registers and memories from it.  Also the multi-clock
  edge: with every clock active it is the single-clock one.
\<close>

section \<open>Evaluation depends on the signals of the expression\<close>

lemma eval_expr_cong:
  "(\<And>s. s \<in> set (expr_signal_deps e) \<Longrightarrow> V s = W s) \<Longrightarrow> eval_expr m V M e = eval_expr m W M e"
proof (induction e)
  case (EConcat ps)
  have "map (\<lambda>p. (eval_expr m V M p, expr_width_no_diag m p)) ps
      = map (\<lambda>p. (eval_expr m W M p, expr_width_no_diag m p)) ps"
    using EConcat by (intro map_cong refl) auto
  then show ?case by (simp only: eval_expr.simps)
next
  case (Sig s)
  then show ?case by (simp add: get_value_def)
next
  case (ELt l r)
  then have "eval_expr m V M l = eval_expr m W M l" "eval_expr m V M r = eval_expr m W M r" by auto
  then show ?case by (simp cong: if_cong)
next
  case (EMux c t e)
  then have "eval_expr m V M c = eval_expr m W M c" "eval_expr m V M t = eval_expr m W M t"
    "eval_expr m V M e = eval_expr m W M e" by auto
  then show ?case by (simp cong: if_cong)
next
  case (EMemRead mem a)
  then have "eval_expr m V M a = eval_expr m W M a" by auto
  then show ?case by simp
next
  case (ESext e w)
  then have "eval_expr m V M e = eval_expr m W M e" by auto
  then show ?case by simp
qed auto

section \<open>One assignment\<close>

text \<open>The value the code stores for an assignment.\<close>

definition comb_value ::
  "rmodule \<Rightarrow> sig_memories \<Rightarrow> sig_values \<Rightarrow> assignment \<Rightarrow> u128 option" where
  "comb_value m M V a =
     (case module_signal m (as_dst a) of
        None \<Rightarrow> None
      | Some dst \<Rightarrow> map_option (\<lambda>v. v AND mask128 (si_width dst)) (eval_expr m V M (as_expr a)))"

definition settled :: "rmodule \<Rightarrow> sig_memories \<Rightarrow> sig_values \<Rightarrow> assignment \<Rightarrow> bool" where
  "settled m M V a \<longleftrightarrow> comb_value m M V a \<noteq> None \<and> V (as_dst a) = comb_value m M V a"

abbreviation dsts :: "rmodule \<Rightarrow> signal set" where
  "dsts m \<equiv> as_dst ` set (m_assignments m)"

abbreviation as_deps :: "assignment \<Rightarrow> signal set" where
  "as_deps a \<equiv> set (assignment_signal_deps (as_dst a) (as_expr a))"

lemma full_deps: "set (expr_signal_deps (as_expr a)) \<subseteq> insert (as_dst a) (as_deps a)"
  by (auto simp: assignment_signal_deps_def split: expr.splits if_splits)

lemma comb_value_cong:
  assumes "\<And>s. s \<in> as_deps a \<Longrightarrow> V s = W s" "V (as_dst a) = W (as_dst a)"
  shows "comb_value m M V a = comb_value m M W a"
proof -
  have "eval_expr m V M (as_expr a) = eval_expr m W M (as_expr a)"
    using assms full_deps [of a] by (intro eval_expr_cong) blast
  then show ?thesis by (simp add: comb_value_def cong: option.case_cong)
qed

text \<open>An assignment that holds its own value keeps it.\<close>

lemma comb_value_hold:
  assumes "\<And>s. s \<in> as_deps a \<Longrightarrow> V s = W s" "W (as_dst a) = Some x" "comb_value m M V a = Some x"
  shows "comb_value m M W a = Some x"
proof (cases "\<exists>c t. as_expr a = EMux c t (Sig (as_dst a))")
  case True
  then obtain c t where e: "as_expr a = EMux c t (Sig (as_dst a))" by blast
  then have deps: "as_deps a = set (expr_signal_deps c) \<union> set (expr_signal_deps t)"
    by (simp add: assignment_signal_deps_def)
  have "eval_expr m V M c = eval_expr m W M c" "eval_expr m V M t = eval_expr m W M t"
    using assms(1) deps by (auto intro!: eval_expr_cong)
  then show ?thesis
    using assms(2,3) e
    by (auto simp: comb_value_def get_value_def bind_eq_Some mask_simps split: option.splits if_splits)
next
  case False
  then have "set (expr_signal_deps (as_expr a)) = as_deps a"
    by (auto simp: assignment_signal_deps_def split: expr.splits if_splits)
  then have "eval_expr m V M (as_expr a) = eval_expr m W M (as_expr a)"
    using assms(1) by (intro eval_expr_cong) simp
  then show ?thesis using assms(3) by (simp add: comb_value_def cong: option.case_cong)
qed

section \<open>One pass over the assignments\<close>

text \<open>
  The assignments of a module in an evaluation order: \<open>level\<close> decreases from an assignment to
  the assignments of the signals it reads.
\<close>

definition ordered :: "rmodule \<Rightarrow> (signal \<Rightarrow> nat) \<Rightarrow> bool" where
  "ordered m level \<longleftrightarrow> distinct (map as_dst (m_assignments m)) \<and>
     list_all (\<lambda>a. list_all (\<lambda>s. s \<in> set (map as_dst (m_assignments m)) \<longrightarrow> level s < level (as_dst a))
         (assignment_signal_deps (as_dst a) (as_expr a))) (m_assignments m)"

definition evaluable :: "rmodule \<Rightarrow> sig_memories \<Rightarrow> bool" where
  "evaluable m M \<longleftrightarrow> (\<forall>V. store_ok m V M \<longrightarrow>
     (\<forall>a \<in> set (m_assignments m). comb_value m M V a \<noteq> None))"

lemma assign_pass_Cons:
  "module_signal m (as_dst a) \<noteq> None \<Longrightarrow>
   assign_pass m M (a # as) V =
     do { x \<leftarrow> comb_value m M V a;
          (V', ch) \<leftarrow> assign_pass m M as (V(as_dst a \<mapsto> x));
          Some (V', V (as_dst a) \<noteq> Some x \<or> ch) }"
  by (auto simp: comb_value_def map_option_case split: option.split bind_split)

lemma assign_pass_frame:
  "assign_pass m M as V = Some (V', b) \<Longrightarrow> s \<notin> as_dst ` set as \<Longrightarrow> V' s = V s"
proof (induction as arbitrary: V b)
  case (Cons a as)
  then show ?case by (cases "module_signal m (as_dst a)") (auto simp: bind_eq_Some; metis fun_upd_other)+
qed simp

lemma assign_pass_unchanged:
  "assign_pass m M as V = Some (V', False) \<Longrightarrow> \<forall>a \<in> set as. module_signal m (as_dst a) \<noteq> None \<Longrightarrow>
     V' = V \<and> (\<forall>a \<in> set as. settled m M V a)"
proof (induction as arbitrary: V V')
  case (Cons a as)
  have "module_signal m (as_dst a) \<noteq> None" using Cons.prems(2) by simp
  then obtain x where x: "comb_value m M V a = Some x" "V (as_dst a) = Some x"
    and rest: "assign_pass m M as (V(as_dst a \<mapsto> x)) = Some (V', False)"
    using Cons.prems(1) by (auto simp: assign_pass_Cons bind_eq_Some simp del: assign_pass.simps)
  moreover have "V(as_dst a \<mapsto> x) = V" using x(2) by (simp add: fun_upd_idem)
  ultimately show ?case using Cons.IH [of V V'] Cons.prems(2) by (simp add: settled_def)
qed simp

lemma assign_pass_total:
  assumes "signals_wf m" "store_ok m V M" "evaluable m M" "set as \<subseteq> set (m_assignments m)"
  shows "\<exists>V' b. assign_pass m M as V = Some (V', b)"
  using assms(2,4)
proof (induction as arbitrary: V)
  case (Cons a as)
  have "a \<in> set (m_assignments m)" using Cons.prems(2) by simp
  then have "comb_value m M V a \<noteq> None"
    using assms(3) Cons.prems(1) unfolding evaluable_def by blast
  then obtain x where x: "comb_value m M V a = Some x" by blast
  then obtain dst where dst: "module_signal m (as_dst a) = Some dst"
    by (auto simp: comb_value_def split: option.split_asm)
  have "fits_signal m (as_dst a) x"
    using x dst fits.good_masked [OF assms(1) dst] by (auto simp: comb_value_def)
  then have "store_ok m (V(as_dst a \<mapsto> x)) M"
    using Cons.prems(1) by (auto simp flip: store_good_iff_store_ok)
  then have "\<exists>V' b. assign_pass m M as (V(as_dst a \<mapsto> x)) = Some (V', b)"
    by (rule Cons.IH) (use Cons.prems(2) in simp)
  then obtain V' b where "assign_pass m M as (V(as_dst a \<mapsto> x)) = Some (V', b)" by blast
  with x dst show ?case by (simp add: assign_pass_Cons del: assign_pass.simps)
qed auto

text \<open>
  A pass in level order: if the assignments of level below \<open>k\<close> hold before it, then those of
  level at most \<open>k\<close> hold after it, and the former have kept their values.
\<close>

definition settled_below ::
  "rmodule \<Rightarrow> sig_memories \<Rightarrow> (signal \<Rightarrow> nat) \<Rightarrow> nat \<Rightarrow> sig_values \<Rightarrow> bool" where
  "settled_below m M level k V \<longleftrightarrow>
     (\<forall>a \<in> set (m_assignments m). level (as_dst a) < k \<longrightarrow> settled m M V a)"

definition same_below :: "rmodule \<Rightarrow> (signal \<Rightarrow> nat) \<Rightarrow> nat \<Rightarrow> sig_values \<Rightarrow> sig_values \<Rightarrow> bool" where
  "same_below m level k V W \<longleftrightarrow> (\<forall>s. s \<notin> dsts m \<or> level s < k \<longrightarrow> V s = W s)"

lemma ordered_deps:
  "ordered m level \<Longrightarrow> a \<in> set (m_assignments m) \<Longrightarrow> level (as_dst a) \<le> k \<Longrightarrow> s \<in> as_deps a \<Longrightarrow>
     s \<notin> dsts m \<or> level s < k"
  by (fastforce simp: ordered_def list_all_iff)

lemma settled_same_below:
  assumes "same_below m level k V W" "settled m M V a" "ordered m level"
    "a \<in> set (m_assignments m)" "level (as_dst a) < k"
  shows "comb_value m M W a = V (as_dst a)"
proof -
  have "comb_value m M W a = comb_value m M V a"
    using assms ordered_deps [OF assms(3,4), of k]
    by (intro comb_value_cong) (auto simp: same_below_def)
  with assms(2) show ?thesis by (simp add: settled_def)
qed

lemma assign_pass_step:
  assumes ord: "ordered m level" and below: "settled_below m M level k V"
  shows "assign_pass m M as W = Some (V', b) \<Longrightarrow> same_below m level k V W \<Longrightarrow>
    distinct (map as_dst as) \<Longrightarrow> set as \<subseteq> set (m_assignments m) \<Longrightarrow>
    \<forall>a \<in> set as. module_signal m (as_dst a) \<noteq> None \<Longrightarrow>
    \<forall>a \<in> set as. level (as_dst a) = k \<longrightarrow> W (as_dst a) = V (as_dst a) \<Longrightarrow>
    same_below m level k V V' \<and>
    (\<forall>a \<in> set as. level (as_dst a) = k \<longrightarrow> V' (as_dst a) = comb_value m M V a \<and> comb_value m M V a \<noteq> None)"
proof (induction as arbitrary: W b)
  case (Cons a as)
  from Cons.prems obtain x b' where x: "comb_value m M W a = Some x"
    and rest: "assign_pass m M as (W(as_dst a \<mapsto> x)) = Some (V', b')"
    by (auto simp: assign_pass_Cons bind_eq_Some simp del: assign_pass.simps)
  have a: "a \<in> set (m_assignments m)" using Cons.prems by simp
  have keep: "level (as_dst a) < k \<Longrightarrow> V (as_dst a) = Some x"
    using settled_same_below [OF Cons.prems(2) _ ord a] below a x by (simp add: settled_below_def)
  have same: "same_below m level k V (W(as_dst a \<mapsto> x))"
    using Cons.prems(2) keep a by (auto simp: same_below_def)
  have new: "comb_value m M V a = Some x" if "level (as_dst a) = k"
  proof -
    have "comb_value m M V a = comb_value m M W a"
      using that Cons.prems(2,6) ordered_deps [OF ord a, of k]
      by (intro comb_value_cong) (auto simp: same_below_def)
    with x show ?thesis by simp
  qed
  have "same_below m level k V V' \<and> (\<forall>a \<in> set as. level (as_dst a) = k \<longrightarrow>
      V' (as_dst a) = comb_value m M V a \<and> comb_value m M V a \<noteq> None)"
  proof (rule Cons.IH [OF rest same])
    have "as_dst a' \<noteq> as_dst a" if "a' \<in> set as" for a' using Cons.prems(3) that by (metis distinct.simps(2) image_eqI list.map(2) list.set_map)
    then show "\<forall>a' \<in> set as. level (as_dst a') = k \<longrightarrow> (W(as_dst a \<mapsto> x)) (as_dst a') = V (as_dst a')"
      using Cons.prems(6) by simp
  qed (use Cons.prems in simp_all)
  moreover have "V' (as_dst a) = Some x"
    using assign_pass_frame [OF rest, of "as_dst a"] Cons.prems(3) by auto
  ultimately show ?case using new by auto
qed simp

lemma settled_below_Suc:
  assumes ord: "ordered m level" and below: "settled_below m M level k V"
    and decl: "\<forall>a \<in> set (m_assignments m). module_signal m (as_dst a) \<noteq> None"
    and pass: "assign_pass m M (m_assignments m) V = Some (V', b)"
  shows "settled_below m M level (Suc k) V'"
proof -
  have step: "same_below m level k V V'"
    "\<And>a. a \<in> set (m_assignments m) \<Longrightarrow> level (as_dst a) = k \<Longrightarrow>
       V' (as_dst a) = comb_value m M V a \<and> comb_value m M V a \<noteq> None"
    using assign_pass_step [OF ord below pass] ord decl
    by (auto simp: ordered_def same_below_def)
  show ?thesis unfolding settled_below_def
  proof (intro ballI impI)
    fix a assume a: "a \<in> set (m_assignments m)" "level (as_dst a) < Suc k"
    show "settled m M V' a"
    proof (cases "level (as_dst a) = k")
      case True
      obtain x where x: "comb_value m M V a = Some x" "V' (as_dst a) = Some x"
        using step(2) [OF a(1) True] by auto
      have "comb_value m M V' a = Some x"
        using step(1) ordered_deps [OF ord a(1), of k] True
        by (intro comb_value_hold [of a V V' x]) (auto simp: same_below_def x)
      with x show ?thesis by (simp add: settled_def)
    next
      case False
      then have lt: "level (as_dst a) < k" using a(2) by simp
      then have "settled m M V a" using below a(1) by (simp add: settled_below_def)
      moreover from this have "comb_value m M V' a = V (as_dst a)"
        using settled_same_below [OF step(1) _ ord a(1) lt] by simp
      moreover have "V' (as_dst a) = V (as_dst a)" using step(1) lt by (simp add: same_below_def)
      ultimately show ?thesis by (simp add: settled_def)
    qed
  qed
qed

section \<open>The loop of a flat module\<close>

definition no_async_reset :: "rmodule \<Rightarrow> bool" where
  "no_async_reset m \<longleftrightarrow> list_all (\<lambda>si. case si_kind si of
     KReg clk (Some r) nxt \<Rightarrow> rst_kind r \<noteq> Async | _ \<Rightarrow> True) (m_signals m)"

lemma apply_async_resets_none: "no_async_reset m \<Longrightarrow> apply_async_resets m V = (V, False)"
proof -
  assume "no_async_reset m"
  then have "\<forall>si \<in> set (m_signals m). async_reset_write V si = []"
    by (auto simp: no_async_reset_def list_all_iff async_reset_write_def
        split: signal_kind.splits option.splits)
  then have "concat (map (async_reset_write V) (m_signals m)) = []" by (simp add: concat_eq_Nil_conv)
  then show ?thesis by (simp only: apply_async_resets_def insert_all.simps)
qed

lemma flat_iteration:
  assumes "no_async_reset m"
  shows "comb_iteration d rec (Simulator m p V M H []) =
     map_option (\<lambda>(V', b). (Simulator m p V' M H [], b)) (assign_pass m M (m_assignments m) V)"
  by (cases "assign_pass m M (m_assignments m) V")
    (auto simp: comb_iteration_def eval_instances_def drive_child_inputs_def for_children_def
      apply_async_resets_none [OF assms])

definition all_settled :: "rmodule \<Rightarrow> sig_memories \<Rightarrow> sig_values \<Rightarrow> bool" where
  "all_settled m M V \<longleftrightarrow> (\<forall>a \<in> set (m_assignments m). settled m M V a)"

text \<open>A level below the number of assignments: how many assignments come strictly before.\<close>

definition rank_of :: "rmodule \<Rightarrow> (signal \<Rightarrow> nat) \<Rightarrow> signal \<Rightarrow> nat" where
  "rank_of m level s = card {t \<in> dsts m. level t < level s}"

lemma rank_of_mono:
  "s \<in> dsts m \<Longrightarrow> level s < level t \<Longrightarrow> rank_of m level s < rank_of m level t"
  unfolding rank_of_def by (rule psubset_card_mono) auto

lemma ordered_rank_of: "ordered m level \<Longrightarrow> ordered m (rank_of m level)"
  by (auto simp: ordered_def list_all_iff intro: rank_of_mono)

lemma rank_of_bound:
  assumes "a \<in> set (m_assignments m)"
  shows "rank_of m level (as_dst a) < length (m_assignments m)"
proof -
  have "rank_of m level (as_dst a) < card (dsts m)"
    unfolding rank_of_def using assms by (intro psubset_card_mono) auto
  also have "\<dots> \<le> length (m_assignments m)"
    by (metis card_length length_map list.set_map)
  finally show ?thesis .
qed

lemma flat_loop:
  assumes ord: "ordered m level" and wf: "signals_wf m" and ev: "evaluable m M" and na: "no_async_reset m"
  shows "store_ok m V M \<Longrightarrow> settled_below m M level k V \<Longrightarrow>
    \<forall>a \<in> set (m_assignments m). level (as_dst a) < k + n \<Longrightarrow>
    \<exists>V'. comb_loop n (comb_iteration d rec) (Simulator m p V M H []) = Some (Simulator m p V' M H [])
       \<and> all_settled m M V' \<and> store_ok m V' M \<and> (\<forall>s. s \<notin> dsts m \<longrightarrow> V' s = V s)"
proof (induction n arbitrary: V k)
  case 0
  then show ?case by (simp add: all_settled_def settled_below_def)
next
  case (Suc n)
  obtain V1 b where pass: "assign_pass m M (m_assignments m) V = Some (V1, b)"
    using assign_pass_total [OF wf Suc.prems(1) ev order_refl] by blast
  have decl: "\<forall>a \<in> set (m_assignments m). module_signal m (as_dst a) \<noteq> None"
    using ev Suc.prems(1) by (fastforce simp: evaluable_def comb_value_def split: option.splits)
  have V1: "store_ok m V1 M"
    using fits.assign_pass_ok [OF pass wf] Suc.prems(1) by (simp add: store_good_iff_store_ok)
  have frame: "\<forall>s. s \<notin> dsts m \<longrightarrow> V1 s = V s" using assign_pass_frame [OF pass] by blast
  show ?case
  proof (cases b)
    case True
    have "settled_below m M level (Suc k) V1"
      by (rule settled_below_Suc [OF ord Suc.prems(2) decl pass])
    then obtain V' where "comb_loop n (comb_iteration d rec) (Simulator m p V1 M H []) = Some (Simulator m p V' M H [])"
      "all_settled m M V'" "store_ok m V' M" "\<forall>s. s \<notin> dsts m \<longrightarrow> V' s = V1 s"
      using Suc.IH [OF V1, of "Suc k"] Suc.prems(3) by auto
    with True frame show ?thesis by (simp add: flat_iteration [OF na] pass)
  next
    case False
    then have "V1 = V \<and> (\<forall>a \<in> set (m_assignments m). settled m M V a)"
      using assign_pass_unchanged [of m M "m_assignments m" V V1] pass decl by simp
    with False Suc.prems(1) show ?thesis
      by (simp add: flat_iteration [OF na] pass all_settled_def)
  qed
qed

lemma eval_combinational_settles:
  assumes "ordered m level" "signals_wf m" "evaluable m M" "no_async_reset m" "m_instances m = []"
    "store_ok m V M"
  shows "\<exists>V'. eval_combinational d (Simulator m p V M H []) = Some (Simulator m p V' M H [])
     \<and> all_settled m M V' \<and> store_ok m V' M \<and> (\<forall>s. s \<notin> dsts m \<longrightarrow> V' s = V s)"
proof -
  have "settled_below m M (rank_of m level) 0 V" by (simp add: settled_below_def)
  moreover have "\<forall>a \<in> set (m_assignments m). rank_of m level (as_dst a) < 0 + comb_limit m"
    using rank_of_bound [of _ m level] assms(5) by (fastforce simp: comb_limit_def)
  ultimately show ?thesis
    unfolding eval_combinational_rec [of d "Simulator m p V M H []"] simulator.sel
    by (intro flat_loop [OF ordered_rank_of [OF assms(1)]] assms)
qed

section \<open>Modules whose expressions evaluate exactly\<close>

definition exact_expr :: "rmodule \<Rightarrow> width \<Rightarrow> expr \<Rightarrow> bool" where
  "exact_expr m w e \<longleftrightarrow>
     (case expr_type m e of
        (Some ty, []) \<Rightarrow> bt_width ty = w \<and> eval_safe m e \<and> mask_safe m e
      | _ \<Rightarrow> False)"

definition exact_condition :: "rmodule \<Rightarrow> expr \<Rightarrow> bool" where
  "exact_condition m e \<longleftrightarrow> exact_expr m 1 e \<and> clean e"

definition exact_enable :: "rmodule \<Rightarrow> expr option \<Rightarrow> bool" where
  "exact_enable m en \<longleftrightarrow> (case en of None \<Rightarrow> True | Some e \<Rightarrow> exact_condition m e)"

definition exact_signal :: "rmodule \<Rightarrow> signal_info \<Rightarrow> bool" where
  "exact_signal m si \<longleftrightarrow>
     (case si_kind si of
        KReg clk rst nxt \<Rightarrow> (case nxt of None \<Rightarrow> False | Some e \<Rightarrow> exact_expr m (si_width si) e)
          \<and> si_handle si \<notin> as_dst ` set (m_assignments m)
      | _ \<Rightarrow> True)"

definition exact_assignment :: "rmodule \<Rightarrow> assignment \<Rightarrow> bool" where
  "exact_assignment m a \<longleftrightarrow>
     (case module_signal m (as_dst a) of
        None \<Rightarrow> False | Some dst \<Rightarrow> exact_expr m (si_width dst) (as_expr a))"

definition exact_write :: "rmodule \<Rightarrow> memory_write \<Rightarrow> bool" where
  "exact_write m w \<longleftrightarrow>
     (case module_signal m (mw_mem w) of
        None \<Rightarrow> False
      | Some mem \<Rightarrow> exact_condition m (mw_enable w) \<and> exact_expr m (si_width mem) (mw_data w)
          \<and> exact_expr m (type_width m (mw_addr w)) (mw_addr w) \<and> clean (mw_addr w))"

definition exact_module :: "rmodule \<Rightarrow> bool" where
  "exact_module m \<longleftrightarrow> signals_wf m \<and>
     list_all (exact_assignment m) (m_assignments m) \<and>
     list_all (exact_signal m) (m_signals m) \<and>
     list_all (exact_write m) (m_memory_writes m) \<and>
     list_all (\<lambda>c. exact_enable m (c_enable c) \<and> exact_condition m (c_condition c)) (m_cover_points m) \<and>
     list_all (\<lambda>a. exact_enable m (a_enable a) \<and> exact_condition m (a_condition a)) (m_assertions m)"

lemma exact_expr_eval:
  assumes "exact_expr m w e" "store_ok m V M"
  shows "\<exists>v. eval_expr m V M e = Some v \<and> v AND mask128 w = sem m V M e \<and> (clean e \<longrightarrow> v = sem m V M e)"
proof -
  obtain ty where ty: "expr_type m e = (Some ty, [])" "bt_width ty = w" "eval_safe m e" "mask_safe m e"
    using assms(1) by (auto simp: exact_expr_def split: prod.splits option.splits list.splits)
  then have typed: "has_type m e ty" by (simp add: expr_type_sound)
  then have "w \<le> 128" using eval_safe_width ty by blast
  then show ?thesis
    using eval_agrees [OF assms(2) typed ty(3,4)] ty(2)
    by (auto simp: agrees_def mask128_eq min_def simp flip: take_bit_eq_mask)
qed

lemma exact_condition_eval:
  "exact_condition m e \<Longrightarrow> store_ok m V M \<Longrightarrow> eval_expr m V M e = Some (sem m V M e)"
  using exact_expr_eval by (fastforce simp: exact_condition_def)

lemma exact_comb_value:
  assumes "exact_module m" "store_ok m V M" "a \<in> set (m_assignments m)"
  shows "comb_value m M V a = Some (sem m V M (as_expr a))"
proof -
  obtain dst where dst: "module_signal m (as_dst a) = Some dst" "exact_expr m (si_width dst) (as_expr a)"
    using assms by (auto simp: exact_module_def list_all_iff exact_assignment_def split: option.splits)
  obtain v where "eval_expr m V M (as_expr a) = Some v" "v AND mask128 (si_width dst) = sem m V M (as_expr a)"
    using exact_expr_eval [OF dst(2) assms(2)] by blast
  with dst(1) show ?thesis by (simp add: comb_value_def)
qed

lemma exact_evaluable: "exact_module m \<Longrightarrow> evaluable m M"
  by (simp add: evaluable_def exact_comb_value)

lemma exact_settled:
  assumes "exact_module m" "store_ok m V M" "all_settled m M V" "a \<in> set (m_assignments m)"
  shows "V (as_dst a) = Some (sem m V M (as_expr a))"
  using assms by (auto simp: all_settled_def settled_def exact_comb_value)

section \<open>The clock edge of a flat module\<close>

text \<open>The specification: the next value of a register and the effect of a memory write.\<close>

definition reg_next_spec :: "rmodule \<Rightarrow> sig_values \<Rightarrow> sig_memories \<Rightarrow> signal_info \<Rightarrow> u128" where
  "reg_next_spec m V M si =
     (case si_kind si of
        KReg clk (Some r) nxt \<Rightarrow>
          if reset_asserted V r then take_bit (si_width si) (rst_value r)
          else (case nxt of None \<Rightarrow> 0 | Some e \<Rightarrow> sem m V M e)
      | KReg clk None (Some e) \<Rightarrow> sem m V M e
      | _ \<Rightarrow> 0)"

definition mem_write_spec :: "rmodule \<Rightarrow> sig_values \<Rightarrow> sig_memories \<Rightarrow> memory_write
    \<Rightarrow> sig_memories \<Rightarrow> sig_memories" where
  "mem_write_spec m V M w M' =
     (if sem m V M (mw_enable w) = 0 then M'
      else (case M' (mw_mem w) of
              None \<Rightarrow> M'
            | Some mem \<Rightarrow> M'(mw_mem w \<mapsto>
                store_word mem (as_usize (sem m V M (mw_addr w))) (sem m V M (mw_data w)))))"

definition is_register :: "signal_info \<Rightarrow> bool" where
  "is_register si \<longleftrightarrow> (case si_kind si of KReg clk rst nxt \<Rightarrow> True | _ \<Rightarrow> False)"

lemma capture_registers_spec:
  assumes "exact_module m" "store_ok m V M" "set sis \<subseteq> set (m_signals m)"
  shows "capture_registers m V M sis
    = Some (map (\<lambda>si. (si_handle si, reg_next_spec m V M si)) (filter is_register sis))"
  using assms(3)
proof (induction sis)
  case (Cons si sis)
  show ?case
  proof (cases "is_register si")
    case False
    with Cons show ?thesis by (auto simp: is_register_def split: signal_kind.splits)
  next
    case True
    then obtain clk rst nxt where k: "si_kind si = KReg clk rst nxt"
      by (auto simp: is_register_def split: signal_kind.splits)
    have "exact_signal m si" using assms(1) Cons.prems by (simp add: exact_module_def list_all_iff)
    then obtain e where e: "nxt = Some e" "exact_expr m (si_width si) e"
      by (auto simp: exact_signal_def k split: option.splits)
    obtain v where v: "eval_expr m V M e = Some v" "v AND mask128 (si_width si) = sem m V M e"
      using exact_expr_eval [OF e(2) assms(2)] by blast
    have w: "si_width si = bt_width (si_ty si)"
      using assms(1) Cons.prems by (auto simp: exact_module_def intro!: signals_wf_width signals_wf_lookup)
    then have "encode_value x (si_ty si) AND mask128 (si_width si) = take_bit (si_width si) x" for x
      by (simp add: encode_value_eq mask128_eq min_def flip: take_bit_eq_mask)
    with v e Cons True show ?thesis
      by (auto simp: k register_next_def expect_next_def reg_next_spec_def split: option.split)
  qed
qed simp

lemma capture_writes_spec:
  assumes "exact_module m" "store_ok m V M" "set ws \<subseteq> set (m_memory_writes m)"
  shows "\<exists>ms. capture_writes m V M ws = Some ms
    \<and> (\<forall>M'. foldl apply_memory_write M' ms = foldl (\<lambda>M' w. mem_write_spec m V M w M') M' ws)"
  using assms(3)
proof (induction ws)
  case (Cons w ws)
  then obtain ms where ms: "capture_writes m V M ws = Some ms"
    "\<forall>M'. foldl apply_memory_write M' ms = foldl (\<lambda>M' w. mem_write_spec m V M w M') M' ws" by auto
  have "exact_write m w" using assms(1) Cons.prems by (simp add: exact_module_def list_all_iff)
  then obtain mem where mem: "module_signal m (mw_mem w) = Some mem" "exact_condition m (mw_enable w)"
    "exact_expr m (si_width mem) (mw_data w)" "exact_expr m (type_width m (mw_addr w)) (mw_addr w)"
    "clean (mw_addr w)"
    by (auto simp: exact_write_def split: option.splits)
  obtain data where data: "eval_expr m V M (mw_data w) = Some data"
    "data AND mask128 (si_width mem) = sem m V M (mw_data w)"
    using exact_expr_eval [OF mem(3) assms(2)] by blast
  have addr: "eval_expr m V M (mw_addr w) = Some (sem m V M (mw_addr w))"
    using exact_expr_eval [OF mem(4) assms(2)] mem(5) by auto
  note en = exact_condition_eval [OF mem(2) assms(2)]
  show ?case
  proof (cases "sem m V M (mw_enable w) = 0")
    case True
    with ms en show ?thesis by (simp add: mem_write_spec_def)
  next
    case False
    let ?w = "(mw_mem w, as_usize (sem m V M (mw_addr w)), sem m V M (mw_data w))"
    have "capture_writes m V M (w # ws) = Some (?w # ms)"
      using False ms(1) mem(1) data addr en by simp
    moreover have "apply_memory_write M' ?w = mem_write_spec m V M w M'" for M'
      using False by (simp add: apply_memory_write_def mem_write_spec_def)
    ultimately show ?thesis using ms(2) by (intro exI [of _ "?w # ms"]) simp
  qed
qed simp

lemma insert_all_lookup:
  "distinct (map fst ws) \<Longrightarrow> (s, v) \<in> set ws \<Longrightarrow> fst (insert_all ws V) s = Some v"
  "s \<notin> fst ` set ws \<Longrightarrow> fst (insert_all ws V) s = V s"
proof -
  have frame: "s \<notin> fst ` set ws \<Longrightarrow> fst (insert_all ws V) s = V s" for ws V
    by (induction ws V rule: insert_all.induct) (auto simp: split_beta)
  then show "s \<notin> fst ` set ws \<Longrightarrow> fst (insert_all ws V) s = V s" .
  show "distinct (map fst ws) \<Longrightarrow> (s, v) \<in> set ws \<Longrightarrow> fst (insert_all ws V) s = Some v"
  proof (induction ws V rule: insert_all.induct)
    case (2 s' v' ws V)
    have eq: "fst (insert_all ((s', v') # ws) V) = fst (insert_all ws (V(s' \<mapsto> v')))"
      by (simp add: split_beta)
    show ?case
    proof (cases "(s, v) \<in> set ws")
      case True
      with "2.prems" have "fst (insert_all ws (V(s' \<mapsto> v'))) s = Some v" by (intro "2.IH") simp_all
      then show ?thesis by (simp only: eq)
    next
      case False
      with "2.prems" have "s = s'" "v = v'" "s \<notin> fst ` set ws" by auto
      then show ?thesis using frame [of ws "V(s' \<mapsto> v')"] unfolding eq by simp
    qed
  qed simp
qed

lemma signals_wf_distinct: "signals_wf m \<Longrightarrow> distinct (map si_handle (m_signals m))"
  by (auto simp: signals_wf_def distinct_conv_nth)

lemma reg_writes_lookup:
  assumes "signals_wf m" "si \<in> set (m_signals m)" "is_register si"
  shows "fst (insert_all (map (\<lambda>si. (si_handle si, f si)) (filter is_register (m_signals m))) V) (si_handle si)
    = Some (f si)"
proof (rule insert_all_lookup(1))
  have "distinct (map si_handle (filter is_register (m_signals m)))"
    using signals_wf_distinct [OF assms(1)] by (rule distinct_map_filter)
  then show "distinct (map fst (map (\<lambda>si. (si_handle si, f si)) (filter is_register (m_signals m))))"
    by (simp add: comp_def)
qed (use assms in auto)

text \<open>
  One clock edge of a flat module, as a relation between the values and memories before and
  after: the registers and memories take the values computed in the settled state \<open>V1\<close>, inputs
  stay, and the state after is settled again.
\<close>

definition clock_step :: "rmodule \<Rightarrow> sig_values \<Rightarrow> sig_memories \<Rightarrow> sig_values \<Rightarrow> sig_memories \<Rightarrow> bool" where
  "clock_step m V1 M1 V2 M2 \<longleftrightarrow>
     (\<forall>si \<in> set (m_signals m). is_register si \<longrightarrow> V2 (si_handle si) = Some (reg_next_spec m V1 M1 si)) \<and>
     (\<forall>s. s \<notin> dsts m \<longrightarrow> s \<notin> si_handle ` {si \<in> set (m_signals m). is_register si} \<longrightarrow> V2 s = V1 s) \<and>
     (\<forall>a \<in> set (m_assignments m). V2 (as_dst a) = Some (sem m V2 M2 (as_expr a))) \<and>
     M2 = foldl (\<lambda>M' w. mem_write_spec m V1 M1 w M') M1 (m_memory_writes m)"

lemma flat_walks:
  assumes "sim_children s = []"
  shows "settle_children d s = Some s"
    "sample_cover_points d b s = Some s' \<Longrightarrow> \<exists>H. s' = with_hits s H"
    "collect_assertion_failures d b s = map_option (Pair s)
       (assertion_loop (sim_module s) (sim_values s) (sim_memories s) b (m_assertions (sim_module s)))"
proof -
  obtain m p V M H where s: "s = Simulator m p V M H []" using assms by (cases s) simp
  show settle: "settle_children d s = Some s"
    by (simp add: s settle_children_def for_children_def drive_child_inputs_def)
  show "\<exists>H. s' = with_hits s H" if "sample_cover_points d b s = Some s'"
    using that unfolding sample_cover_points.simps [of d b s] settle
    by (auto simp: bind_eq_Some s for_children_def with_children_def)
  show "collect_assertion_failures d b s = map_option (Pair s)
       (assertion_loop (sim_module s) (sim_values s) (sim_memories s) b (m_assertions (sim_module s)))"
    unfolding collect_assertion_failures.simps [of d b s] settle
    by (cases "assertion_loop m V M b (m_assertions m)") (simp_all add: s map_children_def with_children_def)
qed

lemma flat_capture:
  assumes "exact_module m" "store_ok m V M"
  shows "\<exists>ms. capture_tick d (Simulator m p V M H []) =
      Some (Simulator m p V M H [],
        TickState (map (\<lambda>si. (si_handle si, reg_next_spec m V M si)) (filter is_register (m_signals m))) ms [])
    \<and> foldl apply_memory_write M ms = foldl (\<lambda>M' w. mem_write_spec m V M w M') M (m_memory_writes m)"
proof -
  obtain ms where ms: "capture_writes m V M (m_memory_writes m) = Some ms"
    "\<forall>M'. foldl apply_memory_write M' ms = foldl (\<lambda>M' w. mem_write_spec m V M w M') M' (m_memory_writes m)"
    using capture_writes_spec [OF assms order_refl] by blast
  show ?thesis
    using ms capture_registers_spec [OF assms order_refl]
    unfolding capture_tick.simps [of d "Simulator m p V M H []"]
    by (simp add: flat_walks(1) map_children_def with_children_def)
qed

text \<open>The specification of assertions and cover points: what fails and what is hit.\<close>

definition enabled_spec :: "rmodule \<Rightarrow> sig_values \<Rightarrow> sig_memories \<Rightarrow> expr option \<Rightarrow> bool" where
  "enabled_spec m V M en \<longleftrightarrow> (case en of None \<Rightarrow> True | Some e \<Rightarrow> sem m V M e \<noteq> 0)"

definition failures_spec ::
  "rmodule \<Rightarrow> bool \<Rightarrow> sig_values \<Rightarrow> sig_memories \<Rightarrow> diagnostic list" where
  "failures_spec m clocked V M =
     map (assertion_failure_diagnostic (m_name m))
       (filter (\<lambda>a. (a_clock a \<noteq> None) = clocked \<and> enabled_spec m V M (a_enable a)
          \<and> sem m V M (a_condition a) = 0) (m_assertions m))"

definition hits_spec ::
  "rmodule \<Rightarrow> string \<Rightarrow> bool \<Rightarrow> sig_values \<Rightarrow> sig_memories \<Rightarrow> string list" where
  "hits_spec m p clocked V M =
     map (\<lambda>c. p @ ''.'' @ c_name c)
       (filter (\<lambda>c. (c_clock c \<noteq> None) = clocked \<and> enabled_spec m V M (c_enable c)
          \<and> sem m V M (c_condition c) \<noteq> 0) (m_cover_points m))"

definition hit_count :: "(string \<rightharpoonup> u64) \<Rightarrow> string \<Rightarrow> nat" where
  "hit_count H n = (case H n of None \<Rightarrow> 0 | Some k \<Rightarrow> unat k)"

lemma exact_enable_eval:
  "exact_enable m en \<Longrightarrow> store_ok m V M \<Longrightarrow> enable_holds m V M en = Some (enabled_spec m V M en)"
  by (cases en) (simp_all add: exact_enable_def enable_holds_def enabled_spec_def exact_condition_eval)

lemma assertion_loop_spec:
  assumes "exact_module m" "store_ok m V M"
  shows "assertion_loop m V M clocked (m_assertions m) = Some (failures_spec m clocked V M)"
proof -
  have "assertion_loop m V M clocked as = Some (map (assertion_failure_diagnostic (m_name m))
       (filter (\<lambda>a. (a_clock a \<noteq> None) = clocked \<and> enabled_spec m V M (a_enable a)
          \<and> sem m V M (a_condition a) = 0) as))" if "set as \<subseteq> set (m_assertions m)" for as
    using that
  proof (induction as)
    case (Cons a as)
    then have "exact_enable m (a_enable a)" "exact_condition m (a_condition a)"
      using assms(1) by (auto simp: exact_module_def list_all_iff)
    with Cons assms(2) show ?case by (simp add: exact_enable_eval exact_condition_eval)
  qed simp
  then show ?thesis by (simp add: failures_spec_def)
qed

lemma cover_loop_spec:
  assumes "exact_module m" "store_ok m V M"
  shows "cover_loop m p V M clocked (m_cover_points m) = Some (hits_spec m p clocked V M)"
proof -
  have "cover_loop m p V M clocked cs = Some (map (\<lambda>c. p @ ''.'' @ c_name c)
       (filter (\<lambda>c. (c_clock c \<noteq> None) = clocked \<and> enabled_spec m V M (c_enable c)
          \<and> sem m V M (c_condition c) \<noteq> 0) cs))" if "set cs \<subseteq> set (m_cover_points m)" for cs
    using that
  proof (induction cs)
    case (Cons c cs)
    then have "exact_enable m (c_enable c)" "exact_condition m (c_condition c)"
      using assms(1) by (auto simp: exact_module_def list_all_iff)
    with Cons assms(2) show ?case by (simp add: exact_enable_eval exact_condition_eval)
  qed simp
  then show ?thesis by (simp add: hits_spec_def)
qed

lemma count_hits_spec:
  "\<forall>n. hit_count H n + length ns < 2 ^ 64 \<Longrightarrow>
     \<exists>H'. count_hits H ns = Some H' \<and> (\<forall>n. hit_count H' n = hit_count H n + count_list ns n)"
proof (induction ns arbitrary: H)
  case (Cons x ns)
  define k where "k = (case H x of None \<Rightarrow> 0 | Some k \<Rightarrow> k)"
  have k: "unat k + Suc (length ns) < 2 ^ 64"
    using Cons.prems [rule_format, of x] by (cases "H x") (simp_all add: k_def hit_count_def)
  then have "unat k < unat (NOT 0 :: u64)" by (simp add: unsigned_minus_1_eq_mask mask_eq_exp_minus_1)
  then have "k \<noteq> NOT 0" by auto
  then have hit: "count_hit H x = Some (H(x \<mapsto> k + 1))"
    by (simp add: count_hit_def k_def Let_def)
  have "unat (k + 1) = unat k + 1"
    using k by (simp add: unat_word_ariths del: unat_add_lem)
  then have H1: "hit_count (H(x \<mapsto> k + 1)) n = hit_count H n + (if n = x then 1 else 0)" for n
    by (simp add: hit_count_def k_def split: option.split)
  have "hit_count (H(x \<mapsto> k + 1)) n + length ns \<le> hit_count H n + length (x # ns)" for n
    by (simp add: H1)
  then have "\<forall>n. hit_count (H(x \<mapsto> k + 1)) n + length ns < 2 ^ 64"
    using Cons.prems le_less_trans by blast
  then obtain H' where "count_hits (H(x \<mapsto> k + 1)) ns = Some H'"
    "\<forall>n. hit_count H' n = hit_count (H(x \<mapsto> k + 1)) n + count_list ns n"
    using Cons.IH by blast
  then show ?case by (intro exI [of _ H']) (simp add: hit H1)
qed simp

lemma flat_edge:
  assumes m: "exact_module m" "ordered m level" "no_async_reset m" "m_instances m = []"
    and ok: "store_ok m V1 M"
  shows "\<exists>V2 M2. do { (s4, t) \<leftarrow> capture_tick d (Simulator m p V1 M H []);
                     eval_combinational d (apply_tick s4 t) } = Some (Simulator m p V2 M2 H [])
    \<and> clock_step m V1 M V2 M2 \<and> store_ok m V2 M2"
proof -
  have wf: "signals_wf m" using m(1) by (simp add: exact_module_def)
  define s2 where "s2 = Simulator m p V1 M H []"
  obtain ms where cap: "capture_tick d s2 = Some (s2,
        TickState (map (\<lambda>si. (si_handle si, reg_next_spec m V1 M si)) (filter is_register (m_signals m))) ms [])"
    and mem: "foldl apply_memory_write M ms = foldl (\<lambda>M' w. mem_write_spec m V1 M w M') M (m_memory_writes m)"
    using flat_capture [OF m(1) ok, of d p H] unfolding s2_def by blast
  define W where "W = fst (insert_all (map (\<lambda>si. (si_handle si, reg_next_spec m V1 M si))
      (filter is_register (m_signals m))) V1)"
  define M2 where "M2 = foldl (\<lambda>M' w. mem_write_spec m V1 M w M') M (m_memory_writes m)"
  have "sim_ok fits_signal d s2"
    using ok wf m(4) by (simp add: s2_def module_wf_def outputs_match_def store_good_iff_store_ok)
  then have "sim_ok fits_signal d (Simulator m p W M2 H [])"
    using fits.capture_tick_ok [OF cap] apply_tick_ok(1) mem
    by (fastforce simp: s2_def W_def M2_def)
  then have W_ok: "store_ok m W M2" by (simp add: store_good_iff_store_ok)
  obtain V2 where V2: "eval_combinational d (Simulator m p W M2 H []) = Some (Simulator m p V2 M2 H [])"
    "all_settled m M2 V2" "store_ok m V2 M2" "\<forall>s. s \<notin> dsts m \<longrightarrow> V2 s = W s"
    using eval_combinational_settles [OF m(2) wf exact_evaluable [OF m(1)] m(3,4) W_ok] by blast
  have reg: "V2 (si_handle si) = Some (reg_next_spec m V1 M si)"
    if "si \<in> set (m_signals m)" "is_register si" for si
  proof -
    have "si_handle si \<notin> dsts m"
      using m(1) that by (auto simp: exact_module_def list_all_iff exact_signal_def is_register_def
          split: signal_kind.splits)
    then show ?thesis using V2(4) reg_writes_lookup [OF wf that] by (simp add: W_def)
  qed
  have keep: "W s = V1 s" if "s \<notin> si_handle ` {si \<in> set (m_signals m). is_register si}" for s
    using that unfolding W_def by (intro insert_all_lookup(2)) auto
  have "clock_step m V1 M V2 M2"
    unfolding clock_step_def
    using reg keep V2(4) exact_settled [OF m(1) V2(3,2)] by (auto simp: M2_def)
  with V2 cap mem show ?thesis by (auto simp: s2_def W_def M2_def)
qed

lemma flat_tick:
  assumes m: "exact_module m" "ordered m level" "no_async_reset m" "m_instances m = []"
    and ok: "store_ok m V M" and room: "\<forall>n. hit_count H n + length (m_cover_points m) < 2 ^ 64"
  shows "\<exists>V1 H'. eval_combinational d (Simulator m p V M H []) = Some (Simulator m p V1 M H [])
    \<and> (\<forall>a \<in> set (m_assignments m). V1 (as_dst a) = Some (sem m V1 M (as_expr a)))
    \<and> (\<forall>s. s \<notin> dsts m \<longrightarrow> V1 s = V s)
    \<and> (\<forall>n. hit_count H' n = hit_count H n + count_list (hits_spec m p True V1 M) n)
    \<and> (if failures_spec m True V1 M = []
       then \<exists>V2 M2. tick_checked d (Simulator m p V M H []) = Some (Simulator m p V2 M2 H' [], Inr ())
         \<and> clock_step m V1 M V2 M2 \<and> store_ok m V2 M2
       else tick_checked d (Simulator m p V M H [])
         = Some (Simulator m p V1 M H' [], Inl (failures_spec m True V1 M)))"
proof -
  have wf: "signals_wf m" using m(1) by (simp add: exact_module_def)
  obtain V1 where V1: "eval_combinational d (Simulator m p V M H []) = Some (Simulator m p V1 M H [])"
    "all_settled m M V1" "store_ok m V1 M" "\<forall>s. s \<notin> dsts m \<longrightarrow> V1 s = V s"
    using eval_combinational_settles [OF m(2) wf exact_evaluable [OF m(1)] m(3,4) ok] by blast
  have "length (hits_spec m p True V1 M) \<le> length (m_cover_points m)"
    by (simp add: hits_spec_def)
  then have "\<forall>n. hit_count H n + length (hits_spec m p True V1 M) < 2 ^ 64"
    using room le_less_trans add_le_cancel_left by (metis (no_types))
  then obtain H' where H': "count_hits H (hits_spec m p True V1 M) = Some H'"
    "\<forall>n. hit_count H' n = hit_count H n + count_list (hits_spec m p True V1 M) n"
    using count_hits_spec by blast
  have sample: "sample_cover_points d True (Simulator m p V1 M H []) = Some (Simulator m p V1 M H' [])"
    unfolding sample_cover_points.simps [of d True "Simulator m p V1 M H []"]
    by (simp add: flat_walks(1) cover_loop_spec [OF m(1) V1(3)] H'(1) for_children_def
        with_children_def with_hits_def)
  have fails: "check_clocked_assertions d (Simulator m p V1 M H' [])
      = Some (Simulator m p V1 M H' [], report_result (failures_spec m True V1 M))"
    by (simp add: check_clocked_assertions_def flat_walks(3) assertion_loop_spec [OF m(1) V1(3)])
  obtain V2 M2 where edge: "do { (s4, t) \<leftarrow> capture_tick d (Simulator m p V1 M H' []);
                     eval_combinational d (apply_tick s4 t) } = Some (Simulator m p V2 M2 H' [])"
    and step: "clock_step m V1 M V2 M2" "store_ok m V2 M2"
    using flat_edge [OF m V1(3)] by blast
  have "tick_checked d (Simulator m p V M H []) = (if failures_spec m True V1 M = []
      then Some (Simulator m p V2 M2 H' [], Inr ())
      else Some (Simulator m p V1 M H' [], Inl (failures_spec m True V1 M)))"
    using edge by (auto simp: tick_checked_def V1(1) sample fails report_result_def bind_eq_Some)
  with V1 H'(2) step exact_settled [OF m(1) V1(3,2)] show ?thesis
    by (intro exI [of _ V1] exI [of _ H']) auto
qed

section \<open>Explicit clocks\<close>

definition clocks_in :: "signal set \<Rightarrow> rmodule \<Rightarrow> bool" where
  "clocks_in active m \<longleftrightarrow>
     (\<forall>si \<in> set (m_signals m). case si_kind si of KReg (Some c) rst nxt \<Rightarrow> c \<in> active | _ \<Rightarrow> True) \<and>
     (\<forall>w \<in> set (m_memory_writes m). mw_clock w \<in> active)"

lemma capture_registers_clocked_all:
  "\<forall>si \<in> set sis. case si_kind si of KReg (Some c) rst nxt \<Rightarrow> c \<in> set active | _ \<Rightarrow> True \<Longrightarrow>
   capture_registers_clocked active m V M sis = capture_registers m V M sis"
  by (induction sis) (auto split: signal_kind.splits option.splits)

lemma capture_writes_clocked_all:
  "\<forall>w \<in> set ws. mw_clock w \<in> set active \<Longrightarrow>
   capture_writes_clocked active m V M ws = capture_writes m V M ws"
  by (induction ws) (auto simp: cong: if_cong option.case_cong)

lemma capture_tick_clocked_all:
  assumes "clocks_in (set active) (sim_module s)"
  shows "capture_tick_clocked d active s = capture_tick d s"
proof -
  have "capture_registers_clocked active (sim_module s) V M (m_signals (sim_module s))
      = capture_registers (sim_module s) V M (m_signals (sim_module s))"
    "capture_writes_clocked active (sim_module s) V M (m_memory_writes (sim_module s))
      = capture_writes (sim_module s) V M (m_memory_writes (sim_module s))" for V M
    using assms unfolding clocks_in_def
    by (intro capture_registers_clocked_all capture_writes_clocked_all; blast)+
  then show ?thesis by (simp only: capture_tick_clocked_def capture_tick.simps [of d s])
qed

lemma frame_parts:
  "frame s = frame s' \<Longrightarrow> sim_module s = sim_module s'"
  by (drule frame_eqD) simp

lemma sample_cover_points_module: "sample_cover_points d b s = Some s' \<Longrightarrow> sim_module s' = sim_module s"
  unfolding sample_cover_points.simps [of d b s]
  by (auto simp: bind_eq_Some dest!: settle_children_frame frame_parts)

lemma collect_assertion_failures_module:
  "collect_assertion_failures d b s = Some (s', ds) \<Longrightarrow> sim_module s' = sim_module s"
  unfolding collect_assertion_failures.simps [of d b s]
  by (auto simp: bind_eq_Some dest!: settle_children_frame frame_parts)

lemma tick_clocked_all:
  assumes "clocks_in (set active) (sim_module s)"
  shows "tick_clocked d active s = tick_checked d s"
proof -
  have "capture_tick_clocked d active s3 = capture_tick d s3"
    if "eval_combinational d s = Some s1" "sample_cover_points d True s1 = Some s2"
      "collect_assertion_failures d True s2 = Some (s3, ds)" for s1 s2 s3 ds
  proof (rule capture_tick_clocked_all)
    have "sim_module s3 = sim_module s"
      using that sample_cover_points_module collect_assertion_failures_module
        frame_parts [OF eval_combinational_frame] by metis
    then show "clocks_in (set active) (sim_module s3)" using assms by simp
  qed
  then show ?thesis
    unfolding tick_clocked_def tick_checked_def check_clocked_assertions_def
    by (intro Option.bind_cong refl) (auto simp: bind_eq_Some intro!: Option.bind_cong split: sum.split)
qed

text \<open>A register whose clock has no edge keeps its value.\<close>

lemma capture_registers_clocked_idle:
  "capture_registers_clocked active m V M sis = Some vs \<Longrightarrow> distinct (map si_handle sis) \<Longrightarrow>
   si \<in> set sis \<Longrightarrow> si_kind si = KReg (Some c) rst nxt \<Longrightarrow> c \<notin> set active \<Longrightarrow> si_handle si \<notin> fst ` set vs"
proof -
  have sub: "capture_registers_clocked active m V M sis = Some vs \<Longrightarrow> fst ` set vs \<subseteq> si_handle ` set sis"
    for sis vs
    by (induction sis arbitrary: vs) (fastforce simp: bind_eq_Some split: signal_kind.splits if_splits)+
  show "capture_registers_clocked active m V M sis = Some vs \<Longrightarrow> distinct (map si_handle sis) \<Longrightarrow>
   si \<in> set sis \<Longrightarrow> si_kind si = KReg (Some c) rst nxt \<Longrightarrow> c \<notin> set active \<Longrightarrow> si_handle si \<notin> fst ` set vs"
  proof (induction sis arbitrary: vs)
    case (Cons sj sis)
    show ?case
    proof (cases "si = sj")
      case True
      with Cons.prems have "capture_registers_clocked active m V M sis = Some vs" by simp
      with sub have "fst ` set vs \<subseteq> si_handle ` set sis" by blast
      with Cons.prems(2) True show ?thesis by auto
    next
      case False
      then have si: "si \<in> set sis" "si_handle si \<noteq> si_handle sj"
        using Cons.prems(2,3) by auto (metis image_eqI)
      show ?thesis
      proof (cases "capture_registers_clocked active m V M sis = Some vs")
        case True
        then show ?thesis using Cons.IH [OF True] Cons.prems si by simp
      next
        case False
        then obtain x vs' where "capture_registers_clocked active m V M sis = Some vs'"
          "vs = (si_handle sj, x) # vs'"
          using Cons.prems(1) by (auto simp: bind_eq_Some split: signal_kind.splits if_splits)
        then show ?thesis using Cons.IH [of vs'] Cons.prems si by simp
      qed
    qed
  qed simp
qed

section \<open>Construction\<close>

text \<open>An instance hierarchy without cycles, given by a rank on module names.\<close>

definition ranked :: "design \<Rightarrow> (string \<Rightarrow> nat) \<Rightarrow> bool" where
  "ranked d rank \<longleftrightarrow> (\<forall>m \<in> set (ds_modules d). \<forall>i \<in> set (m_instances m).
     case find_module d (in_module i) of None \<Rightarrow> True | Some cm \<Rightarrow> rank (m_name cm) < rank (m_name m))"

text \<open>Modules the scalar simulator accepts.\<close>

definition simulable :: "design \<Rightarrow> bool" where
  "simulable d \<longleftrightarrow> (\<forall>m \<in> set (ds_modules d). \<not> m_is_external m \<and> \<not> module_has_inout m
     \<and> (\<forall>i \<in> set (m_instances m). find_module d (in_module i) \<noteq> None))"

lemma children_loop_total:
  assumes "\<And>i cm p. i \<in> set is \<Longrightarrow> find_module d (in_module i) = Some cm \<Longrightarrow> rec cm p \<noteq> None"
  shows "children_loop d rec path is \<noteq> None"
  using assms
proof (induction "is")
  case (Cons i "is")
  have "children_loop d rec path is \<noteq> None" by (rule Cons.IH, rule Cons.prems) auto
  then obtain r where r: "children_loop d rec path is = Some r" by blast
  show ?case
  proof (cases "find_module d (in_module i)")
    case (Some cm)
    then obtain q where "rec cm (path @ ''.'' @ in_name i) = Some q"
      using Cons.prems [of i cm "path @ ''.'' @ in_name i"] by auto
    with Some r show ?thesis by (auto split: sum.split)
  qed simp
qed simp

lemma from_module_total:
  assumes "ranked d rank"
  shows "m \<in> set (ds_modules d) \<Longrightarrow> rank (m_name m) < n \<Longrightarrow> from_module n d init m path \<noteq> None"
proof (induction n arbitrary: m path)
  case (Suc n)
  have "from_module n d init cm p \<noteq> None"
    if "i \<in> set (m_instances m)" "find_module d (in_module i) = Some cm" for i cm p
  proof (rule Suc.IH)
    show "cm \<in> set (ds_modules d)" using that(2) by (auto dest: find_module_name)
    have "rank (m_name cm) < rank (m_name m)"
      using assms Suc.prems(1) that by (fastforce simp: ranked_def)
    then show "rank (m_name cm) < n" using Suc.prems(2) by simp
  qed
  then have "children_loop d (from_module n d init) path (m_instances m) \<noteq> None"
    by (intro children_loop_total)
  then show ?case by (auto split: sum.split)
qed simp

lemma children_loop_Inr:
  assumes "\<And>i cm p. i \<in> set is \<Longrightarrow> find_module d (in_module i) = Some cm \<Longrightarrow> \<exists>c. rec cm p = Some (Inr c)"
    "\<forall>i \<in> set is. \<exists>cm. find_module d (in_module i) = Some cm \<and> \<not> m_is_external cm"
  shows "\<exists>cs. children_loop d rec path is = Some (Inr cs)"
  using assms
proof (induction "is")
  case (Cons i "is")
  then obtain cs where cs: "children_loop d rec path is = Some (Inr cs)" by fastforce
  obtain cm where cm: "find_module d (in_module i) = Some cm" "\<not> m_is_external cm"
    using Cons.prems(2) by auto
  then obtain c where "rec cm (path @ ''.'' @ in_name i) = Some (Inr c)"
    using Cons.prems(1) [of i cm] by auto
  with cs cm show ?case by simp
qed simp

lemma from_module_Inr:
  assumes "ranked d rank" "simulable d"
  shows "m \<in> set (ds_modules d) \<Longrightarrow> rank (m_name m) < n \<Longrightarrow>
    \<exists>s. from_module n d init m path = Some (Inr s)"
proof (induction n arbitrary: m path)
  case (Suc n)
  have "\<exists>c. from_module n d init cm p = Some (Inr c)"
    if "i \<in> set (m_instances m)" "find_module d (in_module i) = Some cm" for i cm p
  proof (rule Suc.IH)
    show "cm \<in> set (ds_modules d)" using that(2) by (auto dest: find_module_name)
    have "rank (m_name cm) < rank (m_name m)"
      using assms(1) Suc.prems(1) that by (fastforce simp: ranked_def)
    then show "rank (m_name cm) < n" using Suc.prems(2) by simp
  qed
  moreover have "\<forall>i \<in> set (m_instances m). \<exists>cm. find_module d (in_module i) = Some cm \<and> \<not> m_is_external cm"
  proof
    fix i assume "i \<in> set (m_instances m)"
    then obtain cm where cm: "find_module d (in_module i) = Some cm"
      using assms(2) Suc.prems(1) unfolding simulable_def by blast
    moreover have "cm \<in> set (ds_modules d)" using find_module_name [OF cm] by simp
    ultimately show "\<exists>cm. find_module d (in_module i) = Some cm \<and> \<not> m_is_external cm"
      using assms(2) unfolding simulable_def by blast
  qed
  ultimately obtain cs where "children_loop d (from_module n d init) path (m_instances m) = Some (Inr cs)"
    using children_loop_Inr by metis
  then show ?case using assms(2) Suc.prems(1) by (simp add: simulable_def)
qed simp

end
