(* ===== verification/Validate_Sound.thy ===== *)
theory Validate_Sound
  imports Validate_Design Scalar_Flat
begin

text \<open>
  What validation establishes: it always returns; the combinational check is exact; and an
  accepted design has the static properties on which the simulator's theorems rest.
\<close>

section \<open>The searches return\<close>

lemma has_cycle_total:
  assumes "s \<in> set (edge_keys g)"
  shows "has_cycle g s visiting visited \<noteq> None"
  unfolding has_cycle_def
proof (rule dfs_total [where N = "set (edge_keys g)"])
  have "card (set (edge_keys g) - set visiting) \<le> card (set (edge_keys g))" by (rule card_mono) auto
  also have "\<dots> \<le> length g" by (metis card_length edge_keys_def length_map)
  finally show "card (set (edge_keys g) - set visiting) < Suc (length g)" by simp
qed (use assms in auto)

lemma hierarchy_nodes_closed: "d \<in> set (edges_of g x) \<Longrightarrow> d \<in> set (hierarchy_nodes g)"
  using edges_of_targets [of g x] by (auto simp: hierarchy_nodes_def edge_targets_def)

lemma has_hierarchy_cycle_total: "has_hierarchy_cycle g s visiting visited \<noteq> None"
  unfolding has_hierarchy_cycle_def
proof (rule dfs_total [where N = "insert s (set (hierarchy_nodes g))"])
  have "card (insert s (set (hierarchy_nodes g)) - set visiting) \<le> card (insert s (set (hierarchy_nodes g)))"
    by (rule card_mono) auto
  also have "\<dots> \<le> Suc (card (set (hierarchy_nodes g)))" by (rule card_insert_le_m1) simp_all
  also have "\<dots> \<le> Suc (length (hierarchy_nodes g))" by (simp add: card_length)
  finally show "card (insert s (set (hierarchy_nodes g)) - set visiting) < Suc (Suc (length (hierarchy_nodes g)))"
    by simp
qed (auto dest: hierarchy_nodes_closed)

lemma comb_cycle_loop_total:
  "set ss \<subseteq> set (edge_keys g) \<Longrightarrow> comb_cycle_loop m g ss visiting visited \<noteq> None"
proof (induction ss arbitrary: visiting visited)
  case (Cons s ss)
  then obtain c v w where "has_cycle g s visiting visited = Some (c, v, w)"
    using has_cycle_total [of s g visiting visited] by (cases "has_cycle g s visiting visited") auto
  with Cons show ?case by simp
qed simp

lemma hierarchy_loop_total: "hierarchy_loop g visited ms \<noteq> None"
proof (induction ms arbitrary: visited)
  case (Cons m ms)
  obtain c v w where "has_hierarchy_cycle g (m_name m) [] visited = Some (c, v, w)"
    using has_hierarchy_cycle_total [of g "m_name m" "[]" visited]
    by (cases "has_hierarchy_cycle g (m_name m) [] visited") auto
  moreover obtain ds where "hierarchy_loop g w ms = Some ds" using Cons by blast
  ultimately show ?case by simp
qed simp

text \<open>Every nested call of \<open>module_comb_port_deps\<close> has one more module name in its cache.\<close>

definition uncached :: "design \<Rightarrow> port_cache \<Rightarrow> nat" where
  "uncached d cache = card (m_name ` set (ds_modules d) - fst ` set cache)"

lemma uncached_mono: "fst ` set cache \<subseteq> fst ` set cache' \<Longrightarrow> uncached d cache' \<le> uncached d cache"
  unfolding uncached_def by (rule card_mono) auto

lemma port_instances_total:
  assumes rec: "\<And>n c. fst ` set cache \<subseteq> fst ` set c \<Longrightarrow>
      \<exists>r c'. rec n c = Some (r, c') \<and> fst ` set c \<subseteq> fst ` set c'"
  shows "fst ` set cache \<subseteq> fst ` set c \<Longrightarrow>
    \<exists>g' c'. port_instances rec ord iss g c = Some (g', c') \<and> fst ` set c \<subseteq> fst ` set c'"
proof (induction iss arbitrary: g c)
  case (Cons i iss)
  from rec [OF Cons.prems, of "in_module i"]
  obtain r c1 where r: "rec (in_module i) c = Some (r, c1)" "fst ` set c \<subseteq> fst ` set c1" by (elim exE conjE)
  from Cons.IH [OF subset_trans [OF Cons.prems r(2)], of "instance_edges ord i r g"]
  obtain g' c' where g': "port_instances rec ord iss (instance_edges ord i r g) c1 = Some (g', c')"
    "fst ` set c1 \<subseteq> fst ` set c'" by (elim exE conjE)
  have "port_instances rec ord (i # iss) g c = Some (g', c')" by (simp add: r(1) g'(1))
  with subset_trans [OF r(2) g'(2)] show ?case by (intro exI conjI)
qed simp

lemma module_comb_port_deps_total:
  "uncached d cache < k \<Longrightarrow>
     \<exists>r c. module_comb_port_deps k ord d n cache = Some (r, c) \<and> fst ` set cache \<subseteq> fst ` set c"
proof (induction k arbitrary: n cache)
  case (Suc k)
  show ?case
  proof (cases "map_of cache n")
    case None
    show ?thesis
    proof (cases "find_module d n")
      case (Some target)
      have "n \<in> m_name ` set (ds_modules d)" using find_module_name [OF Some] by blast
      moreover have "n \<notin> fst ` set cache" using None by (simp add: map_of_eq_None_iff)
      ultimately have less: "uncached d ((n, []) # cache) < uncached d cache"
        unfolding uncached_def by (intro psubset_card_mono) auto
      have rec: "\<exists>r c'. module_comb_port_deps k ord d n' c = Some (r, c') \<and> fst ` set c \<subseteq> fst ` set c'"
        if "fst ` set ((n, []) # cache) \<subseteq> fst ` set c" for n' c
        using uncached_mono [OF that, of d] less Suc.prems by (intro Suc.IH) linarith
      have "\<exists>g' c'. port_instances (module_comb_port_deps k ord d) ord (m_instances target)
           (assignment_edges (m_assignments target) []) ((n, []) # cache) = Some (g', c')
        \<and> fst ` set ((n, []) # cache) \<subseteq> fst ` set c'"
        by (rule port_instances_total [where cache = "(n, []) # cache"]) (rule rec, assumption, rule order_refl)
      then obtain g' c' where g': "port_instances (module_comb_port_deps k ord d) ord (m_instances target)
           (assignment_edges (m_assignments target) []) ((n, []) # cache) = Some (g', c')"
        "fst ` set ((n, []) # cache) \<subseteq> fst ` set c'" by (elim exE conjE)
      have "module_comb_port_deps (Suc k) ord d n cache
          = Some (output_deps target g', (n, output_deps target g') # c')"
        by (simp add: None Some g'(1) Let_def)
      moreover have "fst ` set cache \<subseteq> fst ` set ((n, output_deps target g') # c')"
        using g'(2) by auto
      ultimately show ?thesis by (intro exI conjI)
    next
      case none: None
      then have "module_comb_port_deps (Suc k) ord d n cache = Some ([], (n, []) # cache)"
        by (simp add: None)
      then show ?thesis by (intro exI conjI) auto
    qed
  next
    case (Some r)
    then have "module_comb_port_deps (Suc k) ord d n cache = Some (r, cache)" by simp
    then show ?thesis by (intro exI conjI) auto
  qed
qed simp

lemma comb_graph_total: "comb_graph ord d m \<noteq> None"
proof -
  have "\<exists>r c'. module_comb_port_deps (port_fuel d) ord d n c = Some (r, c') \<and> fst ` set c \<subseteq> fst ` set c'" for n c
  proof (rule module_comb_port_deps_total)
    have "uncached d c \<le> card (m_name ` set (ds_modules d))"
      unfolding uncached_def by (rule card_mono) auto
    also have "\<dots> \<le> length (ds_modules d)" by (metis card_length length_map list.set_map)
    finally show "uncached d c < port_fuel d" by (simp add: port_fuel_def)
  qed
  from port_instances_total [where rec = "module_comb_port_deps (port_fuel d) ord d" and cache = "[]" and c = "[]", OF this]
  show ?thesis by (fastforce simp: comb_graph_def)
qed

lemma validate_comb_cycles_total:
  assumes "hash_iteration ord"
  shows "validate_comb_cycles ord d m \<noteq> None"
proof -
  obtain g where g: "comb_graph ord d m = Some g" using comb_graph_total by blast
  have "comb_cycle_loop m g (ho_signals ord (edge_keys g)) [] [] \<noteq> None"
    using assms by (intro comb_cycle_loop_total) (simp add: hash_iteration_def)
  then show ?thesis by (simp add: validate_comb_cycles_def g)
qed

lemma validate_design_total:
  assumes "hash_iteration ord"
  shows "validate_design ord d \<noteq> None"
proof -
  have "validate_module ord d m \<noteq> None" for m
    using validate_comb_cycles_total [OF assms, of d m] by (auto simp: validate_module_def Let_def)
  then have "mapM (validate_module ord d) (ds_modules d) \<noteq> None" by (intro mapM_total) simp
  moreover have "validate_hierarchy_cycles d \<noteq> None"
    by (simp add: validate_hierarchy_cycles_def hierarchy_loop_total)
  ultimately show ?thesis by (auto simp: validate_design_def)
qed

section \<open>The combinational check is exact\<close>

definition key_deps :: "signal edges \<Rightarrow> (signal \<times> signal) set" where
  "key_deps g = {(a, b). b \<in> set (edges_of g a) \<and> b \<in> set (edge_keys g)}"

lemma comb_cycle_loop_sound:
  "comb_cycle_loop m g ss [] visited = Some [] \<Longrightarrow>
   clean_state (\<lambda>d. d \<in> set (edge_keys g)) (edges_of g) [] visited \<Longrightarrow>
   \<exists>vs. topo (\<lambda>d. d \<in> set (edge_keys g)) (edges_of g) vs \<and> set ss \<union> set visited \<subseteq> set vs"
proof (induction ss arbitrary: visited)
  case (Cons s ss)
  then obtain v w where step: "has_cycle g s [] visited = Some (False, v, w)"
    and rest: "comb_cycle_loop m g ss v w = Some []"
    by (auto simp: bind_eq_Some split: if_split_asm)
  have c: "v = []" "clean_state (\<lambda>d. d \<in> set (edge_keys g)) (edges_of g) v w" "insert s (set visited) \<subseteq> set w"
    using dfs_cycle_clean [OF step [unfolded has_cycle_def] Cons.prems(2)] by auto
  with Cons.IH [of w] rest show ?case by auto
qed (auto simp: clean_state_def)

lemma comb_cycle_loop_complete:
  "comb_cycle_loop m g ss [] visited = Some (d # ds) \<Longrightarrow> \<exists>x. (x, x) \<in> (key_deps g)\<^sup>+"
proof (induction ss arbitrary: visited)
  case (Cons s ss)
  then obtain c v w where step: "has_cycle g s [] visited = Some (c, v, w)"
    and rest: "\<not> c \<longrightarrow> comb_cycle_loop m g ss v w = Some (d # ds)"
    by (auto simp: bind_eq_Some split: if_split_asm)
  show ?case
  proof (cases c)
    case True
    with step have "dfs_cycle (Suc (length g)) (\<lambda>d. d \<in> set (edge_keys g)) (edges_of g) s [] visited = Some (True, v, w)"
      by (simp only: has_cycle_def)
    from dfs_cycle_found [OF this] show ?thesis
      by (simp add: key_deps_def dep_rel_def)
  next
    case False
    then have "dfs_cycle (Suc (length g)) (\<lambda>d. d \<in> set (edge_keys g)) (edges_of g) s [] visited = Some (False, v, w)"
      using step by (simp only: has_cycle_def)
    then have "v = []" by (rule dfs_cycle_keep)
    with False rest Cons.IH show ?thesis by blast
  qed
qed simp

lemma topo_acyclic:
  assumes "topo guard succ vs" "\<And>a b. (a, b) \<in> E \<Longrightarrow> a \<in> set vs \<and> b \<in> set (succ a) \<and> guard b"
  shows "acyclic E"
proof (rule acyclicI)
  have "E\<inverse> \<subseteq> measure (level_in vs)"
    using assms(2) topo_level [OF assms(1)] by auto
  then have "wf (E\<inverse>)" by (rule wf_subset [OF wf_measure])
  then have "acyclic (E\<inverse>)" by (rule wf_acyclic)
  then have "acyclic E" by (simp only: acyclic_converse)
  then show "\<forall>x. (x, x) \<notin> E\<^sup>+" by (simp add: acyclic_def)
qed

lemma validate_comb_cycles_exact:
  assumes "hash_iteration ord" "comb_graph ord d m = Some g"
  shows "validate_comb_cycles ord d m = Some [] \<longleftrightarrow>
    acyclic {(a, b). a \<in> set (edge_keys g) \<and> (a, b) \<in> key_deps g}"
proof -
  let ?E = "{(a, b). a \<in> set (edge_keys g) \<and> (a, b) \<in> key_deps g}"
  have keys: "set (ho_signals ord (edge_keys g)) = set (edge_keys g)"
    using assms(1) by (simp add: hash_iteration_def)
  have "a \<in> set (edge_keys g)" if "b \<in> set (edges_of g a)" for a b
    using that weak_map_of_SomeI [of a] by (cases "map_of g a")
      (auto simp: edges_of_def edge_keys_def map_of_eq_None_iff dest: map_of_SomeD intro: rev_image_eqI)
  then have E: "?E = key_deps g" by (auto simp: key_deps_def)
  show ?thesis
  proof
    assume "validate_comb_cycles ord d m = Some []"
    then have "comb_cycle_loop m g (ho_signals ord (edge_keys g)) [] [] = Some []"
      by (simp add: validate_comb_cycles_def assms(2))
    from comb_cycle_loop_sound [OF this] obtain vs where
      "topo (\<lambda>d. d \<in> set (edge_keys g)) (edges_of g) vs" "set (edge_keys g) \<subseteq> set vs"
      by (auto simp: clean_state_def keys)
    then show "acyclic ?E"
      by (intro topo_acyclic [of "\<lambda>d. d \<in> set (edge_keys g)"]) (auto simp: key_deps_def)
  next
    assume ac: "acyclic ?E"
    obtain ds where ds: "validate_comb_cycles ord d m = Some ds"
      using validate_comb_cycles_total [OF assms(1), of d m] by blast
    show "validate_comb_cycles ord d m = Some []"
    proof (cases ds)
      case (Cons x xs)
      then have "comb_cycle_loop m g (ho_signals ord (edge_keys g)) [] [] = Some (x # xs)"
        using ds by (simp add: validate_comb_cycles_def assms(2))
      from comb_cycle_loop_complete [OF this] ac show ?thesis by (simp add: E acyclic_def)
    qed (use ds in simp)
  qed
qed

section \<open>An accepted design\<close>

lemma accepted_parts:
  assumes "validate_design ord d = Some (Inr ())"
  shows "validate_module_names d = []" "validate_hierarchy_cycles d = Some []"
    "\<forall>m \<in> set (ds_modules d). validate_module ord d m = Some []"
proof -
  obtain h ms where h: "validate_hierarchy_cycles d = Some h"
    and ms: "mapM (validate_module ord d) (ds_modules d) = Some ms"
    and "validate_module_names d @ h @ concat ms = []"
    using assms by (auto simp: validate_design_def bind_eq_Some Let_def split: if_split_asm)
  then have nil: "validate_module_names d = []" "h = []" "\<forall>x \<in> set ms. x = []" by auto
  then show "validate_module_names d = []" "validate_hierarchy_cycles d = Some []" using h by simp_all
  have "list_all2 (\<lambda>m x. validate_module ord d m = Some x) (ds_modules d) ms"
    using ms by (rule mapM_SomeD)
  then show "\<forall>m \<in> set (ds_modules d). validate_module ord d m = Some []"
    using nil(3) by (induction rule: list_all2_induct) auto
qed

lemma accepted_module:
  assumes "validate_module ord d m = Some []" "\<not> m_is_external m"
  shows "validate_comb_cycles ord d m = Some []" "validate_signal_names m = []"
    "validate_signal_widths m = []" "validate_assignments ord m = []" "validate_memory_writes m = []"
    "validate_initial_values m = []" "validate_assertions m = []" "validate_cover_points m = []"
    "validate_registers m = []" "validate_instances ord d m = []" "validate_bundle_types ord m = []"
  using assms by (auto simp: validate_module_def Let_def bind_eq_Some)

lemma accepted_external:
  "validate_module ord d m = Some [] \<Longrightarrow> m_is_external m \<Longrightarrow> m_instances m = [] \<and> m_assignments m = []"
  by (auto simp: validate_module_def Let_def validate_external_module_def split: if_split_asm)

subsection \<open>The hierarchy is ranked\<close>

lemma fold_extend_edges:
  "set (edges_of g s) \<subseteq> set (edges_of (fold (\<lambda>i g. if P i then extend_entry (k i) (v i) g else g) xs g) s)"
  by (rule fold_grows [where F = "\<lambda>g. set (edges_of g s)"]) (auto simp: edges_of_extend)

lemma hierarchy_edge:
  assumes "m \<in> set (ds_modules d)" "\<not> m_is_external m" "i \<in> set (m_instances m)"
    "in_module i \<in> set (map m_name (ds_modules d))"
  shows "in_module i \<in> set (edges_of (hierarchy_graph d) (m_name m))"
proof -
  define add where "add m' g = (if m_is_external m' then g
     else fold (\<lambda>i g. if in_module i \<in> set (map m_name (ds_modules d))
                then extend_entry (m_name m') [in_module i] g else g) (m_instances m') g)"
    for m' :: rmodule and g :: "string edges"
  have grow: "set (edges_of g s) \<subseteq> set (edges_of (add m' g) s)" for g m' s
    by (simp add: add_def fold_extend_edges)
  have own: "in_module i \<in> set (edges_of (add m g) (m_name m))" for g
  proof -
    obtain xs ys where split: "m_instances m = xs @ i # ys" using assms(3) by (meson split_list)
    let ?f = "\<lambda>i g. if in_module i \<in> set (map m_name (ds_modules d))
                then extend_entry (m_name m) [in_module i] g else g"
    have "in_module i \<in> set (edges_of (?f i (fold ?f xs g)) (m_name m))"
      using assms(4) by (simp add: edges_of_extend)
    then have "in_module i \<in> set (edges_of (fold ?f ys (?f i (fold ?f xs g))) (m_name m))"
      by (rule subsetD [OF fold_extend_edges [where P = "\<lambda>i. in_module i \<in> set (map m_name (ds_modules d))"
            and k = "\<lambda>_. m_name m" and v = "\<lambda>i. [in_module i]"]])
    then show ?thesis
      using assms(2) by (simp only: add_def split fold_append fold_Cons comp_apply if_False)
  qed
  have grows: "set (edges_of g s) \<subseteq> set (edges_of (fold add ms g) s)" for g ms s
    by (rule fold_grows [where F = "\<lambda>g. set (edges_of g s)"]) (rule grow)
  obtain xs ys where "ds_modules d = xs @ m # ys" using assms(1) by (meson split_list)
  then have "fold add (ds_modules d) [] = fold add ys (add m (fold add xs []))" by simp
  then have "in_module i \<in> set (edges_of (fold add (ds_modules d) []) (m_name m))"
    using own grows by (metis subsetD)
  then show ?thesis by (simp add: hierarchy_graph_def add_def [abs_def])
qed

lemma hierarchy_loop_sound:
  "hierarchy_loop g visited ms = Some [] \<Longrightarrow> clean_state (\<lambda>d. True) (edges_of g) [] visited \<Longrightarrow>
   \<exists>vs. topo (\<lambda>d. True) (edges_of g) vs \<and> m_name ` set ms \<union> set visited \<subseteq> set vs"
proof (induction ms arbitrary: visited)
  case (Cons m ms)
  then obtain v w where step: "has_hierarchy_cycle g (m_name m) [] visited = Some (False, v, w)"
    and rest: "hierarchy_loop g w ms = Some []"
    by (auto simp: bind_eq_Some split: if_split_asm)
  have w: "v = []" "clean_state (\<lambda>d. True) (edges_of g) v w" "insert (m_name m) (set visited) \<subseteq> set w"
    using dfs_cycle_clean [OF step [unfolded has_hierarchy_cycle_def] Cons.prems(2)] by auto
  then obtain vs where "topo (\<lambda>d. True) (edges_of g) vs" "m_name ` set ms \<union> set w \<subseteq> set vs"
    using Cons.IH [OF rest] by blast
  with w(3) show ?case by (intro exI [of _ vs]) auto
qed (auto simp: clean_state_def)

lemma accepted_ranked:
  assumes "validate_design ord d = Some (Inr ())"
  shows "\<exists>rank. ranked d rank"
proof -
  have "hierarchy_loop (hierarchy_graph d) [] (ds_modules d) = Some []"
    using accepted_parts(2) [OF assms] by (simp add: validate_hierarchy_cycles_def)
  from hierarchy_loop_sound [OF this] obtain vs where
    vs: "topo (\<lambda>d. True) (edges_of (hierarchy_graph d)) vs" "m_name ` set (ds_modules d) \<subseteq> set vs"
    by (auto simp: clean_state_def)
  have "level_in vs (m_name cm) < level_in vs (m_name m)"
    if "m \<in> set (ds_modules d)" "i \<in> set (m_instances m)" "find_module d (in_module i) = Some cm" for m i cm
  proof -
    have cm: "m_name cm = in_module i" "cm \<in> set (ds_modules d)" using find_module_name [OF that(3)] by auto
    have "\<not> m_is_external m"
      using accepted_external accepted_parts(3) [OF assms] that(1,2) by force
    then have "in_module i \<in> set (edges_of (hierarchy_graph d) (m_name m))"
      using cm that by (intro hierarchy_edge) (auto simp: rev_image_eqI)
    then show ?thesis using topo_level [OF vs(1), of "m_name m" "in_module i"] vs(2) that(1) cm(1) by auto
  qed
  then have "ranked d (level_in vs)" by (auto simp: ranked_def split: option.split)
  then show ?thesis by blast
qed

subsection \<open>The assignments of a flat module are ordered\<close>

lemma assignment_edges_keys:
  "set (edge_keys (assignment_edges as g)) = as_dst ` set as \<union> set (edge_keys g)"
  by (induction as arbitrary: g) (auto simp: assignment_edges_def edge_keys_extend)

lemma assignment_edges_grow: "set (edges_of g s) \<subseteq> set (edges_of (assignment_edges as g) s)"
  unfolding assignment_edges_def
  by (rule fold_grows [where F = "\<lambda>g. set (edges_of g s)"]) (auto simp: edges_of_extend)

lemma assignment_edges_deps:
  "a \<in> set as \<Longrightarrow> s \<in> as_deps a \<Longrightarrow> s \<in> set (edges_of (assignment_edges as g) (as_dst a))"
proof (induction as arbitrary: g)
  case (Cons b as)
  let ?g = "extend_entry (as_dst b) (assignment_signal_deps (as_dst b) (as_expr b)) g"
  have step: "assignment_edges (b # as) g = assignment_edges as ?g" by (simp add: assignment_edges_def)
  show ?case
  proof (cases "a = b")
    case True
    with Cons.prems(2) have "s \<in> set (edges_of ?g (as_dst a))" by (simp add: edges_of_extend)
    then show ?thesis unfolding step using assignment_edges_grow by blast
  next
    case False
    with Cons show ?thesis unfolding step by simp
  qed
qed simp

lemma accepted_ordered:
  assumes "hash_iteration ord" "validate_module ord d m = Some []" "\<not> m_is_external m" "m_instances m = []"
  shows "\<exists>level. ordered m level"
proof -
  note acc = accepted_module [OF assms(2,3)]
  let ?g = "assignment_edges (m_assignments m) []"
  have keys: "set (edge_keys ?g) = dsts m" by (simp add: assignment_edges_keys) (simp add: edge_keys_def)
  have "comb_cycle_loop m ?g (ho_signals ord (edge_keys ?g)) [] [] = Some []"
    using acc(1) assms(4) by (simp add: validate_comb_cycles_def comb_graph_def)
  from comb_cycle_loop_sound [OF this] obtain vs where
    vs: "topo (\<lambda>d. d \<in> set (edge_keys ?g)) (edges_of ?g) vs" "dsts m \<subseteq> set vs"
    using assms(1) by (auto simp: clean_state_def hash_iteration_def keys)
  have "distinct (map as_dst (m_assignments m))"
    using acc(4) validate_assignments_quiet [OF assms(1)] by blast
  moreover have "level_in vs s < level_in vs (as_dst a)"
    if "a \<in> set (m_assignments m)" "s \<in> as_deps a" "s \<in> dsts m" for a s
    using topo_level [OF vs(1), of "as_dst a" s] vs(2) that assignment_edges_deps [OF that(1,2)] keys by auto
  ultimately have "ordered m (level_in vs)" by (auto simp: ordered_def list_all_iff)
  then show ?thesis by blast
qed

subsection \<open>Output ports match the signals they drive\<close>

lemma connection_loop_types:
  "fst (connection_loop m target i connected cs) = [] \<Longrightarrow> (pn, ps) \<in> set cs \<Longrightarrow>
   \<exists>port si. find_any_port target pn = Some port \<and> module_signal m ps = Some si \<and> si_ty si = si_ty port
     \<and> (si_kind port = KOutput \<longrightarrow> si_kind si = KOutput \<or> si_kind si = KWire)"
proof (induction cs arbitrary: connected)
  case (Cons c cs)
  obtain qn qs where c: "c = (qn, qs)" by (cases c)
  obtain port where port: "find_any_port target qn = Some port"
    using Cons.prems(1) by (auto simp: c split: option.splits prod.splits)
  have parts: "connection_diags m target i connected qn qs port = []"
    "fst (connection_loop m target i (qn # connected) cs) = []"
    using Cons.prems(1) by (auto simp: c port split: prod.splits)
  show ?case
  proof (cases "(pn, ps) \<in> set cs")
    case False
    with Cons.prems(2) have eq: "qn = pn" "qs = ps" by (auto simp: c)
    obtain si where si: "module_signal m ps = Some si" "si_ty si = si_ty port"
      using parts(1)
      by (auto simp: connection_diags_def eq expect_type_def signal_type_def split: option.splits if_splits)
    moreover have "si_kind port = KOutput \<longrightarrow> si_kind si = KOutput \<or> si_kind si = KWire"
      using parts(1) si(1) by (auto simp: connection_diags_def eq split: signal_kind.splits if_splits)
    ultimately show ?thesis using port by (auto simp: eq)
  qed (use Cons.IH parts(2) in blast)
qed simp

lemma instance_loop_connections:
  assumes "fst (instance_loop d m seen is) = []" "i \<in> set is"
  shows "\<exists>target connected. find_module d (in_module i) = Some target
    \<and> fst (connection_loop m target i connected (in_connections i)) = []"
  using assms
proof (induction "is" arbitrary: seen)
  case (Cons j "is")
  obtain target where t: "find_module d (in_module j) = Some target"
    using Cons.prems(1) by (auto simp: Let_def split: option.splits prod.splits)
  have "fst (connection_loop m target j [] (in_connections j)) = []"
    "fst (instance_loop d m (in_name j # seen) is) = []"
    using Cons.prems(1) by (auto simp: t Let_def split: prod.splits)
  with t Cons show ?case by (cases "i = j") auto
qed simp

text \<open>Names of the signals of a module are distinct, so the two port searches agree.\<close>

lemma find_port_any:
  assumes "distinct (map si_name (m_signals m))" "find_any_port m n = Some p" "find_port m n k = Some q"
  shows "q = p"
proof -
  have "p \<in> set (m_signals m)" "si_name p = n" "q \<in> set (m_signals m)" "si_name q = n"
    using assms(2,3) by (auto simp: find_any_port_def find_port_def dest!: find_Some_in)
  with assms(1) show ?thesis by (metis distinct_map inj_onD)
qed

lemma accepted_outputs_match:
  assumes "validate_design ord d = Some (Inr ())" "\<forall>m \<in> set (ds_modules d). signals_wf m" "m \<in> set (ds_modules d)"
  shows "outputs_match d m"
proof (cases "m_is_external m")
  case True
  then have "m_instances m = []" using accepted_external accepted_parts(3) [OF assms(1)] assms(3) by blast
  then show ?thesis by (simp add: outputs_match_def)
next
  case False
  have "validate_instances ord d m = []"
    using accepted_module(10) [OF _ False] accepted_parts(3) [OF assms(1)] assms(3) by blast
  then have loop: "fst (instance_loop d m [] (m_instances m)) = []"
    by (auto simp: validate_instances_def split: prod.splits)
  have "si_width si = si_width port"
    if con: "i \<in> set (m_instances m)" "find_module d (in_module i) = Some cm" "(pn, ps) \<in> set (in_connections i)"
      "find_port cm pn KOutput = Some port" "module_signal m ps = Some si" for i cm pn ps port si
  proof -
    obtain connected where conns: "fst (connection_loop m cm i connected (in_connections i)) = []"
      using instance_loop_connections [OF loop con(1)] con(2) by auto
    obtain p where p: "find_any_port cm pn = Some p" "si_ty si = si_ty p"
      using connection_loop_types [OF conns con(3)] con(5) by auto
    have cm: "cm \<in> set (ds_modules d)" using find_module_name [OF con(2)] by simp
    have "validate_signal_names cm = []"
      using accepted_parts(3) [OF assms(1)] cm
      by (auto simp: validate_module_def Let_def bind_eq_Some split: if_split_asm)
    then have "distinct (map si_name (m_signals cm))"
      by (simp add: validate_signal_names_def signal_names_quiet)
    from find_port_any [OF this p(1) con(4)] have "port = p" .
    moreover have "p \<in> set (m_signals cm)" using find_port_in [OF con(4)] \<open>port = p\<close> by simp
    moreover have wf: "signals_wf cm" using assms(2) cm by blast
    ultimately have "si_width port = bt_width (si_ty p)"
      using signals_wf_width [OF wf signals_wf_lookup [OF wf]] by simp
    moreover have "si_width si = bt_width (si_ty si)"
      using assms(2,3) con(5) signals_wf_width by blast
    ultimately show ?thesis using p(2) by simp
  qed
  then show ?thesis
    unfolding outputs_match_def list_all_iff by (simp split: option.split) blast
qed

end
