(* ===== verification/Compile.thy ===== *)
theory Compile
  imports Validate_Sound
begin

text \<open>
  Compilation of a design to typed, normalized modules (\<open>CompiledDesign\<close>, \<open>compile_module\<close> and
  their helpers in \<open>src/crates/rrtl-core/src/lib.rs\<close>).  The closures that compile one item
  stop at the first expression that has no type; \<open>compile_opt\<close> is that sequencing.
\<close>

section \<open>Compiled designs\<close>

datatype port_direction = PdInput | PdOutput | PdInout

record compiled_expr =
  ce_expr :: expr
  ce_width :: width
  ce_ty :: bit_type

record compiled_assignment =
  ca_dst :: signal
  ca_expr :: compiled_expr

record compiled_register =
  cr_signal :: signal
  cr_clock :: signal
  cr_reset :: "reset option"
  cr_next :: compiled_expr

record compiled_memory_write =
  cmw_mem :: signal
  cmw_clock :: signal
  cmw_enable :: compiled_expr
  cmw_addr :: compiled_expr
  cmw_data :: compiled_expr

record compiled_assertion =
  cas_name :: string
  cas_clock :: "signal option"
  cas_enable :: "compiled_expr option"
  cas_condition :: compiled_expr
  cas_message :: "string option"

record compiled_cover_point =
  ccp_name :: string
  ccp_clock :: "signal option"
  ccp_enable :: "compiled_expr option"
  ccp_condition :: compiled_expr
  ccp_message :: "string option"

record compiled_connection =
  cc_port :: string
  cc_signal :: signal
  cc_direction :: port_direction
  cc_width :: width
  cc_ty :: bit_type

record compiled_instance =
  ci_name :: string
  ci_module :: string
  ci_connections :: "compiled_connection list"

record compiled_module =
  cm_id :: module_id
  cm_name :: string
  cm_is_external :: bool
  cm_signals :: "signal_info list"
  cm_assignments :: "compiled_assignment list"
  cm_registers :: "compiled_register list"
  cm_memory_writes :: "compiled_memory_write list"
  cm_initial_register_values :: "initial_register_value list"
  cm_initial_memory_values :: "initial_memory_value list"
  cm_assertions :: "compiled_assertion list"
  cm_cover_points :: "compiled_cover_point list"
  cm_instances :: "compiled_instance list"
  cm_state_types :: "state_type list"
  cm_state_signals :: "state_signal list"
  cm_bundle_types :: "bundle_type list"
  cm_bundle_signals :: "bundle_signal list"
  cm_interface_types :: "interface_type list"
  cm_interface_signals :: "interface_signal list"

definition compiled_signal :: "compiled_module \<Rightarrow> signal \<Rightarrow> signal_info option" where
  "compiled_signal m s = (if sig_module s \<noteq> cm_id m then None else vec_get (cm_signals m) (sig_id s))"

record compiled_design =
  cd_modules :: "compiled_module list"

definition compiled_find_module :: "compiled_design \<Rightarrow> string \<Rightarrow> compiled_module option" where
  "compiled_find_module d n = List.find (\<lambda>m. cm_name m = n) (cd_modules d)"

section \<open>Compiling the parts of a module\<close>

text \<open>A value with the diagnostics pushed while computing it; \<open>None\<close> is the early return.\<close>

type_synonym 'a checked = "'a option \<times> diagnostic list"

definition compile_opt :: "'a checked \<Rightarrow> ('a \<Rightarrow> 'b checked) \<Rightarrow> 'b checked" where
  "compile_opt r f =
     (case r of (None, ds) \<Rightarrow> (None, ds) | (Some x, ds) \<Rightarrow> (case f x of (y, es) \<Rightarrow> (y, ds @ es)))"

definition filter_map :: "('a \<Rightarrow> 'b checked) \<Rightarrow> 'a list \<Rightarrow> 'b list \<times> diagnostic list" where
  "filter_map f xs = (let rs = map f xs in (List.map_filter fst rs, concat (map snd rs)))"

definition compile_expr :: "rmodule \<Rightarrow> expr \<Rightarrow> compiled_expr checked" where
  "compile_expr m e =
     (case expr_type m e of
        (ty, ds) \<Rightarrow> (map_option (\<lambda>ty. \<lparr>ce_expr = e, ce_width = bt_width ty, ce_ty = ty\<rparr>) ty, ds))"

definition compile_enable :: "rmodule \<Rightarrow> expr option \<Rightarrow> compiled_expr option checked" where
  "compile_enable m en =
     (case en of None \<Rightarrow> (Some None, [])
      | Some e \<Rightarrow> compile_opt (compile_expr m e) (\<lambda>c. (Some (Some c), [])))"

definition compile_assignment :: "rmodule \<Rightarrow> assignment \<Rightarrow> compiled_assignment checked" where
  "compile_assignment m a =
     compile_opt (compile_expr m (as_expr a)) (\<lambda>e. (Some \<lparr>ca_dst = as_dst a, ca_expr = e\<rparr>, []))"

definition compile_register :: "rmodule \<Rightarrow> signal_info \<Rightarrow> compiled_register checked" where
  "compile_register m si =
     (case si_kind si of
        KReg (Some clk) rst (Some nxt) \<Rightarrow>
          compile_opt (compile_expr m nxt) (\<lambda>e.
            (Some \<lparr>cr_signal = si_handle si, cr_clock = clk, cr_reset = rst, cr_next = e\<rparr>, []))
      | _ \<Rightarrow> (None, []))"

definition compile_memory_write :: "rmodule \<Rightarrow> memory_write \<Rightarrow> compiled_memory_write checked" where
  "compile_memory_write m w =
     compile_opt (compile_expr m (mw_enable w)) (\<lambda>en.
       compile_opt (compile_expr m (mw_addr w)) (\<lambda>addr.
         compile_opt (compile_expr m (mw_data w)) (\<lambda>data.
           (Some \<lparr>cmw_mem = mw_mem w, cmw_clock = mw_clock w, cmw_enable = en, cmw_addr = addr,
              cmw_data = data\<rparr>, []))))"

definition compile_assertion :: "rmodule \<Rightarrow> assertion \<Rightarrow> compiled_assertion checked" where
  "compile_assertion m a =
     compile_opt (compile_enable m (a_enable a)) (\<lambda>en.
       compile_opt (compile_expr m (a_condition a)) (\<lambda>c.
         (Some \<lparr>cas_name = a_name a, cas_clock = a_clock a, cas_enable = en, cas_condition = c,
            cas_message = a_message a\<rparr>, [])))"

definition compile_cover_point :: "rmodule \<Rightarrow> cover_point \<Rightarrow> compiled_cover_point checked" where
  "compile_cover_point m a =
     compile_opt (compile_enable m (c_enable a)) (\<lambda>en.
       compile_opt (compile_expr m (c_condition a)) (\<lambda>c.
         (Some \<lparr>ccp_name = c_name a, ccp_clock = c_clock a, ccp_enable = en, ccp_condition = c,
            ccp_message = c_message a\<rparr>, [])))"

definition port_direction_of :: "signal_kind \<Rightarrow> port_direction option" where
  "port_direction_of k =
     (case k of KInput \<Rightarrow> Some PdInput | KOutput \<Rightarrow> Some PdOutput | KInout \<Rightarrow> Some PdInout
      | _ \<Rightarrow> None)"

definition compile_connection ::
  "rmodule \<Rightarrow> rmodule \<Rightarrow> string \<times> signal \<Rightarrow> compiled_connection checked" where
  "compile_connection m target c =
     (case find_any_port target (fst c) of
        None \<Rightarrow> (None, [])
      | Some port \<Rightarrow>
          (case port_direction_of (si_kind port) of
             None \<Rightarrow> (None, [])
           | Some dir \<Rightarrow>
               if module_signal m (snd c) = None
               then (None, [mdiag m ''E_COMPILE_INSTANCE_SIGNAL'' ''instance signal is invalid''])
               else (Some \<lparr>cc_port = fst c, cc_signal = snd c, cc_direction = dir,
                       cc_width = si_width port, cc_ty = si_ty port\<rparr>, [])))"

definition compile_instance :: "design \<Rightarrow> rmodule \<Rightarrow> inst \<Rightarrow> compiled_instance checked" where
  "compile_instance d m i =
     (case find_module d (in_module i) of
        None \<Rightarrow> (None, [])
      | Some target \<Rightarrow>
          (let (cs, ds) = filter_map (compile_connection m target) (in_connections i)
           in (Some \<lparr>ci_name = in_name i, ci_module = in_module i, ci_connections = cs\<rparr>, ds)))"

definition compile_module :: "design \<Rightarrow> rmodule \<Rightarrow> error_report + compiled_module" where
  "compile_module d m =
     (let (assignments, d1) = filter_map (compile_assignment m) (m_assignments m);
          (registers, d2) = filter_map (compile_register m) (m_signals m);
          (writes, d3) = filter_map (compile_memory_write m) (m_memory_writes m);
          (assertions, d4) = filter_map (compile_assertion m) (m_assertions m);
          (covers, d5) = filter_map (compile_cover_point m) (m_cover_points m);
          (instances, d6) = filter_map (compile_instance d m) (m_instances m)
      in if d1 @ d2 @ d3 @ d4 @ d5 @ d6 = []
         then Inr \<lparr>cm_id = m_id m, cm_name = m_name m, cm_is_external = m_is_external m,
             cm_signals = m_signals m, cm_assignments = assignments, cm_registers = registers,
             cm_memory_writes = writes, cm_initial_register_values = m_initial_register_values m,
             cm_initial_memory_values = m_initial_memory_values m, cm_assertions = assertions,
             cm_cover_points = covers, cm_instances = instances, cm_state_types = m_state_types m,
             cm_state_signals = m_state_signals m, cm_bundle_types = m_bundle_types m,
             cm_bundle_signals = m_bundle_signals m, cm_interface_types = m_interface_types m,
             cm_interface_signals = m_interface_signals m\<rparr>
         else Inl (d1 @ d2 @ d3 @ d4 @ d5 @ d6))"

fun compile_modules :: "design \<Rightarrow> rmodule list \<Rightarrow> error_report + compiled_module list" where
  "compile_modules d [] = Inr []"
| "compile_modules d (m # ms) =
     (case compile_module d m of
        Inl e \<Rightarrow> Inl e
      | Inr cm \<Rightarrow> (case compile_modules d ms of Inl e \<Rightarrow> Inl e | Inr cms \<Rightarrow> Inr (cm # cms)))"

definition compile_ir :: "hash_order \<Rightarrow> design \<Rightarrow> (error_report + compiled_design) option" where
  "compile_ir ord d =
     do { v \<leftarrow> validate_design ord d;
          Some (case v of
                  Inl e \<Rightarrow> Inl e
                | Inr u \<Rightarrow> (case compile_modules d (ds_modules d) of
                              Inl e \<Rightarrow> Inl e | Inr ms \<Rightarrow> Inr \<lparr>cd_modules = ms\<rparr>)) }"

section \<open>An accepted design compiles\<close>

text \<open>A compiled expression is the source expression with its type.\<close>

definition compiled_ok :: "rmodule \<Rightarrow> expr \<Rightarrow> compiled_expr \<Rightarrow> bool" where
  "compiled_ok m e c \<longleftrightarrow> ce_expr c = e \<and> has_type m e (ce_ty c) \<and> ce_width c = bt_width (ce_ty c)"

lemma compile_expr_typed:
  "has_type m e ty \<Longrightarrow> compile_expr m e = (Some \<lparr>ce_expr = e, ce_width = bt_width ty, ce_ty = ty\<rparr>, [])"
  by (simp add: compile_expr_def expr_type_complete)

lemma compile_opt_Some [simp]: "compile_opt (Some x, []) f = f x"
  by (cases "f x") (simp add: compile_opt_def)

lemma compile_enable_typed:
  "(\<And>e. en = Some e \<Longrightarrow> \<exists>ty. has_type m e ty) \<Longrightarrow>
   \<exists>c. compile_enable m en = (Some c, []) \<and> rel_option (compiled_ok m) en c"
  by (cases en) (auto simp: compile_enable_def compile_expr_typed compiled_ok_def)

text \<open>When every item compiles, so does the list, in order.\<close>

lemma filter_map_all:
  assumes "\<forall>x \<in> set xs. \<exists>y. f x = (Some y, []) \<and> R x y"
  shows "\<exists>ys. filter_map f xs = (ys, []) \<and> list_all2 R xs ys"
  using assms
proof (induction xs)
  case (Cons x xs)
  then obtain y ys where "f x = (Some y, [])" "R x y" "filter_map f xs = (ys, [])" "list_all2 R xs ys"
    by auto
  then show ?case by (auto simp: filter_map_def Let_def List.map_filter_simps)
qed (simp add: filter_map_def List.map_filter_simps)

text \<open>When some items yield nothing and no diagnostic, the others compile in order.\<close>

lemma filter_map_some:
  assumes "\<forall>x \<in> set xs. if P x then \<exists>y. f x = (Some y, []) \<and> R x y else f x = (None, [])"
  shows "\<exists>ys. filter_map f xs = (ys, []) \<and> list_all2 R (filter P xs) ys"
  using assms
proof (induction xs)
  case (Cons x xs)
  then obtain ys where ys: "filter_map f xs = (ys, [])" "list_all2 R (filter P xs) ys" by auto
  show ?case
  proof (cases "P x")
    case True
    with Cons.prems obtain y where "f x = (Some y, [])" "R x y" by auto
    with True ys show ?thesis by (auto simp: filter_map_def Let_def List.map_filter_simps)
  next
    case False
    with Cons.prems have "f x = (None, [])" by simp
    with False ys show ?thesis by (auto simp: filter_map_def Let_def List.map_filter_simps)
  qed
qed (simp add: filter_map_def List.map_filter_simps)

definition assignment_matches :: "rmodule \<Rightarrow> assignment \<Rightarrow> compiled_assignment \<Rightarrow> bool" where
  "assignment_matches m a c \<longleftrightarrow> ca_dst c = as_dst a \<and> compiled_ok m (as_expr a) (ca_expr c)"

definition register_matches :: "rmodule \<Rightarrow> signal_info \<Rightarrow> compiled_register \<Rightarrow> bool" where
  "register_matches m si c \<longleftrightarrow> cr_signal c = si_handle si \<and>
     (\<exists>e. si_kind si = KReg (Some (cr_clock c)) (cr_reset c) (Some e) \<and> compiled_ok m e (cr_next c)
        \<and> ce_ty (cr_next c) = si_ty si)"

definition write_matches :: "rmodule \<Rightarrow> memory_write \<Rightarrow> compiled_memory_write \<Rightarrow> bool" where
  "write_matches m w c \<longleftrightarrow> cmw_mem c = mw_mem w \<and> cmw_clock c = mw_clock w \<and>
     compiled_ok m (mw_enable w) (cmw_enable c) \<and> compiled_ok m (mw_addr w) (cmw_addr c) \<and>
     compiled_ok m (mw_data w) (cmw_data c)"

definition connection_matches ::
  "design \<Rightarrow> rmodule \<Rightarrow> inst \<Rightarrow> string \<times> signal \<Rightarrow> compiled_connection \<Rightarrow> bool" where
  "connection_matches d m i c cc \<longleftrightarrow> cc_port cc = fst c \<and> cc_signal cc = snd c \<and>
     (\<exists>target port si. find_module d (in_module i) = Some target \<and> find_any_port target (fst c) = Some port \<and>
        module_signal m (snd c) = Some si \<and> cc_ty cc = si_ty port \<and> si_ty si = si_ty port \<and>
        port_direction_of (si_kind port) = Some (cc_direction cc))"

definition instance_matches :: "design \<Rightarrow> rmodule \<Rightarrow> inst \<Rightarrow> compiled_instance \<Rightarrow> bool" where
  "instance_matches d m i c \<longleftrightarrow> ci_name c = in_name i \<and> ci_module c = in_module i \<and>
     list_all2 (connection_matches d m i) (in_connections i) (ci_connections c)"

definition module_compiled :: "design \<Rightarrow> rmodule \<Rightarrow> compiled_module \<Rightarrow> bool" where
  "module_compiled d m cm \<longleftrightarrow> cm_id cm = m_id m \<and> cm_name cm = m_name m \<and> cm_signals cm = m_signals m \<and>
     list_all2 (assignment_matches m) (m_assignments m) (cm_assignments cm) \<and>
     list_all2 (register_matches m) (filter (\<lambda>si. is_reg_kind (si_kind si)) (m_signals m)) (cm_registers cm) \<and>
     list_all2 (write_matches m) (m_memory_writes m) (cm_memory_writes cm) \<and>
     list_all2 (instance_matches d m) (m_instances m) (cm_instances cm)"

lemma find_any_port_direction:
  "find_any_port target n = Some port \<Longrightarrow> \<exists>dir. port_direction_of (si_kind port) = Some dir"
  by (auto simp: find_any_port_def is_port_kind_def port_direction_of_def dest!: find_Some_in)

lemma assertion_loop_typed:
  "assertion_diags_loop m seen as = [] \<Longrightarrow> a \<in> set as \<Longrightarrow> has_type m (a_condition a) (uint_ty 1)
     \<and> (\<forall>e. a_enable a = Some e \<longrightarrow> has_type m e (uint_ty 1))"
  by (induction as arbitrary: seen) auto

lemma cover_diags_typed:
  "cover_diags_loop m seen cs = [] \<Longrightarrow> c \<in> set cs \<Longrightarrow> has_type m (c_condition c) (uint_ty 1)
     \<and> (\<forall>e. c_enable c = Some e \<longrightarrow> has_type m e (uint_ty 1))"
  by (induction cs arbitrary: seen) auto

lemma accepted_instance_compiles:
  assumes "fst (instance_loop d m seen is) = []" "i \<in> set is"
  shows "\<exists>c. compile_instance d m i = (Some c, []) \<and> instance_matches d m i c"
proof -
  obtain target connected where t: "find_module d (in_module i) = Some target"
    "fst (connection_loop m target i connected (in_connections i)) = []"
    using instance_loop_connections [OF assms] by blast
  have "\<forall>c \<in> set (in_connections i). \<exists>cc. compile_connection m target c = (Some cc, [])
      \<and> connection_matches d m i c cc"
  proof
    fix c assume "c \<in> set (in_connections i)"
    then have "(fst c, snd c) \<in> set (in_connections i)" by simp
    from connection_loop_types [OF t(2) this] obtain port si where
      p: "find_any_port target (fst c) = Some port" "module_signal m (snd c) = Some si" "si_ty si = si_ty port"
      by blast
    moreover obtain dir where "port_direction_of (si_kind port) = Some dir"
      using find_any_port_direction [OF p(1)] by blast
    ultimately show "\<exists>cc. compile_connection m target c = (Some cc, []) \<and> connection_matches d m i c cc"
      using t(1) by (simp add: compile_connection_def connection_matches_def)
  qed
  from filter_map_all [OF this] t(1) show ?thesis
    by (auto simp: compile_instance_def instance_matches_def Let_def)
qed

lemma accepted_module_compiles:
  assumes ord: "hash_iteration ord" and acc: "validate_module ord d m = Some []" and int: "\<not> m_is_external m"
  shows "\<exists>cm. compile_module d m = Inr cm \<and> module_compiled d m cm"
proof -
  note parts = accepted_module [OF acc int]
  have "\<forall>a \<in> set (m_assignments m). assignment_ok m a"
    using parts(4) validate_assignments_quiet [OF ord] by (auto simp: list_all_iff)
  then have "\<forall>a \<in> set (m_assignments m). \<exists>c. compile_assignment m a = (Some c, []) \<and> assignment_matches m a c"
    by (fastforce simp: assignment_ok_def compile_assignment_def compile_expr_typed assignment_matches_def compiled_ok_def)
  from filter_map_all [OF this] obtain as where
    1: "filter_map (compile_assignment m) (m_assignments m) = (as, [])"
      "list_all2 (assignment_matches m) (m_assignments m) as" by blast
  have regs: "\<forall>si \<in> set (m_signals m). register_ok m si"
    using parts(9) by (auto simp: validate_registers_def concat_map_Nil_iff register_diags_quiet)
  have "\<forall>si \<in> set (m_signals m). if is_reg_kind (si_kind si)
      then \<exists>c. compile_register m si = (Some c, []) \<and> register_matches m si c
      else compile_register m si = (None, [])"
  proof
    fix si assume si: "si \<in> set (m_signals m)"
    show "if is_reg_kind (si_kind si) then \<exists>c. compile_register m si = (Some c, []) \<and> register_matches m si c
      else compile_register m si = (None, [])"
    proof (cases "si_kind si")
      case (KReg clk rst nxt)
      then obtain c e where "clk = Some c" "nxt = Some e" "has_type m e (si_ty si)"
        using regs si by (fastforce simp: register_ok_def)
      with KReg show ?thesis
        by (simp add: is_reg_kind_def compile_register_def compile_expr_typed register_matches_def compiled_ok_def)
    qed (simp_all add: is_reg_kind_def compile_register_def)
  qed
  from filter_map_some [OF this] obtain rs where
    2: "filter_map (compile_register m) (m_signals m) = (rs, [])"
      "list_all2 (register_matches m) (filter (\<lambda>si. is_reg_kind (si_kind si)) (m_signals m)) rs" by blast
  have "\<forall>w \<in> set (m_memory_writes m). write_ok m w"
    using parts(5) by (auto simp: validate_memory_writes_def concat_map_Nil_iff memory_write_diags_quiet)
  then have "\<forall>w \<in> set (m_memory_writes m). \<exists>c. compile_memory_write m w = (Some c, []) \<and> write_matches m w c"
    by (fastforce simp: write_ok_def compile_memory_write_def compile_expr_typed write_matches_def compiled_ok_def)
  from filter_map_all [OF this] obtain ws where
    3: "filter_map (compile_memory_write m) (m_memory_writes m) = (ws, [])"
      "list_all2 (write_matches m) (m_memory_writes m) ws" by blast
  have "\<forall>a \<in> set (m_assertions m). \<exists>c. compile_assertion m a = (Some c, []) \<and> True"
  proof
    fix a assume "a \<in> set (m_assertions m)"
    then have t: "has_type m (a_condition a) (uint_ty 1)" "\<forall>e. a_enable a = Some e \<longrightarrow> has_type m e (uint_ty 1)"
      using assertion_loop_typed parts(7) by (auto simp: validate_assertions_def)
    then obtain c where "compile_enable m (a_enable a) = (Some c, [])"
      using compile_enable_typed [of "a_enable a" m] by blast
    with t(1) show "\<exists>c. compile_assertion m a = (Some c, []) \<and> True"
      by (simp add: compile_assertion_def compile_expr_typed)
  qed
  from filter_map_all [OF this] obtain xs where 4: "filter_map (compile_assertion m) (m_assertions m) = (xs, [])" by blast
  have "\<forall>c \<in> set (m_cover_points m). \<exists>x. compile_cover_point m c = (Some x, []) \<and> True"
  proof
    fix c assume "c \<in> set (m_cover_points m)"
    then have t: "has_type m (c_condition c) (uint_ty 1)" "\<forall>e. c_enable c = Some e \<longrightarrow> has_type m e (uint_ty 1)"
      using cover_diags_typed parts(8) by (auto simp: validate_cover_points_def)
    then obtain x where "compile_enable m (c_enable c) = (Some x, [])"
      using compile_enable_typed [of "c_enable c" m] by blast
    with t(1) show "\<exists>x. compile_cover_point m c = (Some x, []) \<and> True"
      by (simp add: compile_cover_point_def compile_expr_typed)
  qed
  from filter_map_all [OF this] obtain ys where 5: "filter_map (compile_cover_point m) (m_cover_points m) = (ys, [])" by blast
  have "fst (instance_loop d m [] (m_instances m)) = []"
    using parts(10) by (auto simp: validate_instances_def split: prod.splits)
  then have "\<forall>i \<in> set (m_instances m). \<exists>c. compile_instance d m i = (Some c, []) \<and> instance_matches d m i c"
    using accepted_instance_compiles by blast
  from filter_map_all [OF this] obtain zs where
    6: "filter_map (compile_instance d m) (m_instances m) = (zs, [])"
      "list_all2 (instance_matches d m) (m_instances m) zs" by blast
  show ?thesis
    using 1(2) 2(2) 3(2) 6(2)
    by (simp add: compile_module_def 1(1) 2(1) 3(1) 4 5 6(1) module_compiled_def)
qed

lemma accepted_external_compiles:
  assumes acc: "validate_module ord d m = Some []" and ext: "m_is_external m"
  shows "\<exists>cm. compile_module d m = Inr cm \<and> module_compiled d m cm"
proof -
  have e: "m_assertions m = []" "m_cover_points m = []" "m_assignments m = []" "m_memory_writes m = []"
    "m_instances m = []" "\<forall>si \<in> set (m_signals m). is_port_kind (si_kind si)"
    using acc ext
    by (auto simp: validate_module_def Let_def validate_external_module_def concat_map_Nil_iff split: if_split_asm)
  then have "\<forall>si \<in> set (m_signals m). \<not> is_reg_kind (si_kind si) \<and> compile_register m si = (None, [])"
    by (auto simp: is_port_kind_def is_reg_kind_def compile_register_def)
  then have "\<forall>si \<in> set (m_signals m). if is_reg_kind (si_kind si)
      then \<exists>c. compile_register m si = (Some c, []) \<and> register_matches m si c
      else compile_register m si = (None, [])" by simp
  from filter_map_some [OF this] obtain rs where
    "filter_map (compile_register m) (m_signals m) = (rs, [])"
    "list_all2 (register_matches m) (filter (\<lambda>si. is_reg_kind (si_kind si)) (m_signals m)) rs" by blast
  with e show ?thesis
    by (simp add: compile_module_def filter_map_def List.map_filter_simps module_compiled_def)
qed

lemma compile_modules_all:
  assumes "\<forall>m \<in> set ms. \<exists>cm. compile_module d m = Inr cm \<and> module_compiled d m cm"
  shows "\<exists>cms. compile_modules d ms = Inr cms \<and> list_all2 (module_compiled d) ms cms"
  using assms
proof (induction ms)
  case (Cons m ms)
  then obtain cm cms where "compile_module d m = Inr cm" "module_compiled d m cm"
    "compile_modules d ms = Inr cms" "list_all2 (module_compiled d) ms cms" by auto
  then show ?case by simp
qed simp

lemma compile_ir_accepted:
  assumes ord: "hash_iteration ord" and acc: "validate_design ord d = Some (Inr ())"
  shows "\<exists>cd. compile_ir ord d = Some (Inr cd) \<and> list_all2 (module_compiled d) (ds_modules d) (cd_modules cd)"
proof -
  have "\<forall>m \<in> set (ds_modules d). \<exists>cm. compile_module d m = Inr cm \<and> module_compiled d m cm"
    using accepted_parts(3) [OF acc] accepted_module_compiles [OF ord] accepted_external_compiles by blast
  from compile_modules_all [OF this] obtain cms where
    "compile_modules d (ds_modules d) = Inr cms" "list_all2 (module_compiled d) (ds_modules d) cms" by blast
  then show ?thesis by (simp add: compile_ir_def acc)
qed

end
