(* ===== verification/Packed_Lower.thy ===== *)
theory Packed_Lower
  imports Packed_Order Compile
begin

text \<open>
  The lowering of a compiled design to a packed program (\<open>lower_to_packed_program\<close>): the instance
  hierarchy is flattened, every signal and memory is given a layout, expressions get the indices
  of their signals, and the assignments are put into packets by level.  Diagnostics are collected
  as in the code; the iteration order of a \<open>HashSet\<close> of signals is the parameter \<open>ord\<close>.
\<close>

section \<open>The state of the lowering\<close>

record flat_assignment =
  fa_dst :: nat
  fa_expr :: packed_expr

record reg_ref =
  rr_signal :: nat
  rr_next :: packed_expr
  rr_reset :: "packed_reset option"
  rr_clock :: "nat option"

record instance_ctx =
  ix_path :: string
  ix_module :: compiled_module

type_synonym flat_key = "nat \<times> signal"

record lowering =
  lo_design :: compiled_design
  lo_diagnostics :: "diagnostic list"
  lo_contexts :: "instance_ctx list"
  lo_signals :: "packed_signal list"
  lo_memories :: "packed_memory list"
  lo_signal_map :: "flat_key \<rightharpoonup> nat"
  lo_memory_map :: "flat_key \<rightharpoonup> nat"
  lo_top_signal_indices :: "signal \<rightharpoonup> nat"
  lo_assignments :: "flat_assignment list"
  lo_registers :: "reg_ref list"
  lo_memory_writes :: "packed_op list"
  lo_mem_clocks :: "nat \<rightharpoonup> nat"
  lo_next_signal_offset :: nat
  lo_next_memory_offset :: nat

definition push_diags :: "diagnostic list \<Rightarrow> lowering \<Rightarrow> lowering" where
  "push_diags ds lo = lo\<lparr>lo_diagnostics := lo_diagnostics lo @ ds\<rparr>"

section \<open>Flattening\<close>

text \<open>
  The contexts below a module, in the order of the final vector: a module is inserted before the
  contexts of its instances.  The first argument of \<open>add_context\<close> bounds the depth; a hierarchy
  that contains itself runs out of it, where the code runs out of stack.
\<close>

fun add_instances :: "(compiled_module \<Rightarrow> string \<Rightarrow> (instance_ctx list \<times> diagnostic list) option) \<Rightarrow> compiled_design
    \<Rightarrow> compiled_module \<Rightarrow> string \<Rightarrow> compiled_instance list \<Rightarrow> (instance_ctx list \<times> diagnostic list) option" where
  "add_instances rec d m path [] = Some ([], [])"
| "add_instances rec d m path (i # is) =
     (case compiled_find_module d (ci_module i) of
        None \<Rightarrow> map_option (apsnd ((#) (with_module (new_diag ''E_SIM_IR_INSTANCE''
                  (''instance target `'' @ ci_module i @ ''` does not exist'')) (cm_name m)))) (add_instances rec d m path is)
      | Some target \<Rightarrow>
          if cm_is_external target
          then map_option (apsnd ((#) (with_module (new_diag ''E_SIM_IR_EXTERN''
                  (''instance `'' @ ci_name i @ ''` targets external module `'' @ cm_name target @ ''`'')) (cm_name m))))
                 (add_instances rec d m path is)
          else do { (cs, ds) \<leftarrow> rec target (path @ ''.'' @ ci_name i);
                    (cs', ds') \<leftarrow> add_instances rec d m path is;
                    Some (cs @ cs', ds @ ds') })"

fun add_context :: "nat \<Rightarrow> compiled_design \<Rightarrow> compiled_module \<Rightarrow> string \<Rightarrow> (instance_ctx list \<times> diagnostic list) option" where
  "add_context 0 d m path = None"
| "add_context (Suc n) d m path =
     do { (cs, ds) \<leftarrow> add_instances (add_context n d) d m path (cm_instances m);
          Some (\<lparr>ix_path = path, ix_module = m\<rparr> # cs, ds) }"

section \<open>Allocation\<close>

definition packed_signal_kind_of :: "signal_kind \<Rightarrow> packed_signal_kind" where
  "packed_signal_kind_of k =
     (case k of KInput \<Rightarrow> PkInput | KOutput \<Rightarrow> PkOutput | KReg _ _ _ \<Rightarrow> PkReg | KWire \<Rightarrow> PkWire
      | KInout \<Rightarrow> PkWire | KMem _ _ _ \<Rightarrow> PkWire)"

definition alloc_signal_layout :: "bit_type \<Rightarrow> lowering \<Rightarrow> packed_layout \<times> lowering" where
  "alloc_signal_layout ty lo =
     (\<lparr>pl_width = bt_width ty, pl_ty = ty, pl_offset = lo_next_signal_offset lo, pl_limbs = limbs (bt_width ty)\<rparr>,
      lo\<lparr>lo_next_signal_offset := lo_next_signal_offset lo + limbs (bt_width ty)\<rparr>)"

definition alloc_memory_layout :: "bit_type \<Rightarrow> packed_layout" where
  "alloc_memory_layout ty = \<lparr>pl_width = bt_width ty, pl_ty = ty, pl_offset = 0, pl_limbs = limbs (bt_width ty)\<rparr>"

definition alloc_memory :: "nat \<Rightarrow> instance_ctx \<Rightarrow> signal_info \<Rightarrow> width \<Rightarrow> nat \<Rightarrow> lowering \<Rightarrow> lowering" where
  "alloc_memory inst ctx si aw depth lo =
     (let layout = alloc_memory_layout (si_ty si)
      in lo\<lparr>lo_memory_map := (lo_memory_map lo)((inst, si_handle si) \<mapsto> length (lo_memories lo)),
            lo_memories := lo_memories lo @ [\<lparr>pm_name = ix_path ctx @ ''.'' @ si_name si, pm_source = si_handle si,
              pm_owner_path = ix_path ctx, pm_addr_width = aw, pm_depth = depth, pm_data_layout = layout,
              pm_offset = lo_next_memory_offset lo\<rparr>],
            lo_next_memory_offset := lo_next_memory_offset lo + depth * pl_limbs layout\<rparr>)"

definition alloc_scalar :: "nat \<Rightarrow> instance_ctx \<Rightarrow> signal_info \<Rightarrow> lowering \<Rightarrow> lowering" where
  "alloc_scalar inst ctx si lo =
     (let (layout, lo1) = alloc_signal_layout (si_ty si) lo; index = length (lo_signals lo)
      in lo1\<lparr>lo_signal_map := (lo_signal_map lo)((inst, si_handle si) \<mapsto> index),
             lo_top_signal_indices := (if inst = 0 then (lo_top_signal_indices lo)(si_handle si \<mapsto> index)
                                       else lo_top_signal_indices lo),
             lo_signals := lo_signals lo @ [\<lparr>ps_name = ix_path ctx @ ''.'' @ si_name si,
               ps_source = (if inst = 0 then Some (si_handle si) else None), ps_owner_path = ix_path ctx,
               ps_layout = layout, ps_kind = packed_signal_kind_of (si_kind si)\<rparr>]\<rparr>)"

definition allocate_signal :: "nat \<Rightarrow> instance_ctx \<Rightarrow> signal_info \<Rightarrow> lowering \<Rightarrow> lowering" where
  "allocate_signal inst ctx si lo =
     (case si_kind si of
        KInout \<Rightarrow> push_diags [with_signal (with_module (new_diag ''E_SIM_IR_INOUT''
            ''packed simulation IR does not support inout'') (cm_name (ix_module ctx))) (si_name si)] lo
      | KMem aw dw depth \<Rightarrow> alloc_memory inst ctx si aw depth lo
      | _ \<Rightarrow> alloc_scalar inst ctx si lo)"

definition allocate_context :: "nat \<times> instance_ctx \<Rightarrow> lowering \<Rightarrow> lowering" where
  "allocate_context = (\<lambda>(inst, ctx) lo.
     fold (allocate_signal inst ctx) (cm_signals (ix_module ctx))
       (if cm_assertions (ix_module ctx) \<noteq> [] \<or> cm_cover_points (ix_module ctx) \<noteq> []
        then push_diags [with_module (new_diag ''E_SIM_IR_ASSERT_COVER''
            ''packed simulation IR does not support assertions or cover points'') (cm_name (ix_module ctx))] lo
        else lo))"

definition allocate_contexts :: "lowering \<Rightarrow> lowering" where
  "allocate_contexts lo = fold allocate_context (enumerate 0 (lo_contexts lo)) lo"

section \<open>Expressions\<close>

definition find_signal :: "lowering \<Rightarrow> nat \<Rightarrow> signal \<Rightarrow> compiled_module \<Rightarrow> nat option \<times> diagnostic list" where
  "find_signal lo inst s m =
     (case lo_signal_map lo (inst, s) of
        Some i \<Rightarrow> (Some i, [])
      | None \<Rightarrow> (None, [with_module (new_diag ''E_SIM_IR_SIGNAL''
          (''signal '' @ debug_signal_id (sig_id s) @ '' is not a packed scalar signal'')) (cm_name m)]))"

definition find_memory :: "lowering \<Rightarrow> nat \<Rightarrow> signal \<Rightarrow> compiled_module \<Rightarrow> nat option \<times> diagnostic list" where
  "find_memory lo inst s m =
     (case lo_memory_map lo (inst, s) of
        Some i \<Rightarrow> (Some i, [])
      | None \<Rightarrow> (None, [with_module (new_diag ''E_SIM_IR_MEMORY''
          (''signal '' @ debug_signal_id (sig_id s) @ '' is not a packed memory'')) (cm_name m)]))"

definition unwrap_or :: "'a option \<Rightarrow> 'a \<Rightarrow> 'a" where
  "unwrap_or x d = (case x of None \<Rightarrow> d | Some y \<Rightarrow> y)"

fun lowered_type :: "compiled_module \<Rightarrow> expr \<Rightarrow> bit_type option" where
  "lowered_type m (Lit v ty) = Some ty"
| "lowered_type m (Sig s) = map_option si_ty (compiled_signal m s)"
| "lowered_type m (ENot a) = lowered_type m a"
| "lowered_type m (EAnd a b) = lowered_type m a"
| "lowered_type m (EOr a b) = lowered_type m a"
| "lowered_type m (EXor a b) = lowered_type m a"
| "lowered_type m (EAdd a b) = lowered_type m a"
| "lowered_type m (ESub a b) = lowered_type m a"
| "lowered_type m (EMul a b) = lowered_type m a"
| "lowered_type m (EEq a b) = Some (uint_ty 1)"
| "lowered_type m (ENe a b) = Some (uint_ty 1)"
| "lowered_type m (ELt a b) = Some (uint_ty 1)"
| "lowered_type m (EMux c t e) = lowered_type m t"
| "lowered_type m (ESlice a lsb w) = Some (uint_ty w)"
| "lowered_type m (EZext a w) = Some (uint_ty w)"
| "lowered_type m (ESext a w) = Some (sint_ty w)"
| "lowered_type m (ETrunc a w) = map_option (\<lambda>ty. BitType w (bt_signedness ty)) (lowered_type m a)"
| "lowered_type m (ECast a sg) = map_option (\<lambda>ty. BitType (bt_width ty) sg) (lowered_type m a)"
| "lowered_type m (EConcat ps) =
     map_option (\<lambda>tys. uint_ty (sum_list (map bt_width tys))) (mapM (lowered_type m) ps)"
| "lowered_type m (EMemRead mem a) = map_option si_ty (compiled_signal m mem)"

type_synonym lowered = "packed_expr \<times> diagnostic list"

definition node1 :: "(packed_expr \<Rightarrow> packed_expr packed_kind) \<Rightarrow> bit_type \<Rightarrow> lowered \<Rightarrow> lowered" where
  "node1 f ty = (\<lambda>(x, ds). (PExpr (f x) ty, ds))"

definition node2 :: "(packed_expr \<Rightarrow> packed_expr \<Rightarrow> packed_expr packed_kind) \<Rightarrow> bit_type \<Rightarrow> lowered \<Rightarrow> lowered \<Rightarrow> lowered" where
  "node2 f ty = (\<lambda>(x, ds) (y, es). (PExpr (f x y) ty, ds @ es))"

fun lower_raw_expr :: "lowering \<Rightarrow> nat \<Rightarrow> compiled_module \<Rightarrow> expr \<Rightarrow> bit_type \<Rightarrow> lowered" where
  "lower_raw_expr lo i m (Lit v lty) ty = (PExpr (PLit (encode_limbs v lty)) ty, [])"
| "lower_raw_expr lo i m (Sig s) ty =
     (case find_signal lo i s m of
        (Some j, ds) \<Rightarrow> (PExpr (PSignal j) ty, ds)
      | (None, ds) \<Rightarrow> (PExpr (PLit (replicate (limbs (bt_width ty)) 0)) ty, ds))"
| "lower_raw_expr lo i m (ENot a) ty = node1 PNot ty (lower_raw_expr lo i m a ty)"
| "lower_raw_expr lo i m (EAnd a b) ty = (let t = unwrap_or (lowered_type m a) ty
     in node2 PAnd ty (lower_raw_expr lo i m a t) (lower_raw_expr lo i m b t))"
| "lower_raw_expr lo i m (EOr a b) ty = (let t = unwrap_or (lowered_type m a) ty
     in node2 POr ty (lower_raw_expr lo i m a t) (lower_raw_expr lo i m b t))"
| "lower_raw_expr lo i m (EXor a b) ty = (let t = unwrap_or (lowered_type m a) ty
     in node2 PXor ty (lower_raw_expr lo i m a t) (lower_raw_expr lo i m b t))"
| "lower_raw_expr lo i m (EAdd a b) ty = (let t = unwrap_or (lowered_type m a) ty
     in node2 PAdd ty (lower_raw_expr lo i m a t) (lower_raw_expr lo i m b t))"
| "lower_raw_expr lo i m (ESub a b) ty = (let t = unwrap_or (lowered_type m a) ty
     in node2 PSub ty (lower_raw_expr lo i m a t) (lower_raw_expr lo i m b t))"
| "lower_raw_expr lo i m (EMul a b) ty = (let t = unwrap_or (lowered_type m a) ty
     in node2 PMul ty (lower_raw_expr lo i m a t) (lower_raw_expr lo i m b t))"
| "lower_raw_expr lo i m (EEq a b) ty = (let t = unwrap_or (lowered_type m a) ty
     in node2 PEq ty (lower_raw_expr lo i m a t) (lower_raw_expr lo i m b t))"
| "lower_raw_expr lo i m (ENe a b) ty = (let t = unwrap_or (lowered_type m a) ty
     in node2 PNe ty (lower_raw_expr lo i m a t) (lower_raw_expr lo i m b t))"
| "lower_raw_expr lo i m (ELt a b) ty = (let t = unwrap_or (lowered_type m a) ty
     in node2 (\<lambda>x y. PLt x y (bt_signedness t = Signed)) ty (lower_raw_expr lo i m a t) (lower_raw_expr lo i m b t))"
| "lower_raw_expr lo i m (EMux c t e) ty =
     (let (x, ds) = lower_raw_expr lo i m c (uint_ty 1); (y, es) = lower_raw_expr lo i m t ty;
          (z, fs) = lower_raw_expr lo i m e ty
      in (PExpr (PMux x y z) ty, ds @ es @ fs))"
| "lower_raw_expr lo i m (ESlice a lsb w) ty =
     node1 (\<lambda>x. PSlice x lsb) ty (lower_raw_expr lo i m a (unwrap_or (lowered_type m a) ty))"
| "lower_raw_expr lo i m (EZext a w) ty = node1 PZext ty (lower_raw_expr lo i m a (unwrap_or (lowered_type m a) ty))"
| "lower_raw_expr lo i m (ESext a w) ty = node1 PSext ty (lower_raw_expr lo i m a (unwrap_or (lowered_type m a) ty))"
| "lower_raw_expr lo i m (ETrunc a w) ty = node1 PTrunc ty (lower_raw_expr lo i m a (unwrap_or (lowered_type m a) ty))"
| "lower_raw_expr lo i m (ECast a sg) ty = node1 PCast ty (lower_raw_expr lo i m a (unwrap_or (lowered_type m a) ty))"
| "lower_raw_expr lo i m (EConcat ps) ty =
     (let rs = map (\<lambda>p. lower_raw_expr lo i m p (unwrap_or (lowered_type m p) (uint_ty 1))) ps
      in (PExpr (PConcat (map fst rs)) ty, concat (map snd rs)))"
| "lower_raw_expr lo i m (EMemRead mem a) ty =
     (let (memory, ds) = find_memory lo i mem m;
          (x, es) = lower_raw_expr lo i m a (unwrap_or (lowered_type m a) (uint_ty 32))
      in (PExpr (PMemRead (unwrap_or memory 0) x) ty, ds @ es))"

definition lower_compiled_expr :: "lowering \<Rightarrow> nat \<Rightarrow> compiled_module \<Rightarrow> compiled_expr \<Rightarrow> lowered" where
  "lower_compiled_expr lo i m e = lower_raw_expr lo i m (ce_expr e) (ce_ty e)"

definition signal_expr :: "lowering \<Rightarrow> nat \<Rightarrow> packed_expr option" where
  "signal_expr lo i = do { sg \<leftarrow> vec_get (lo_signals lo) i; Some (PExpr (PSignal i) (pl_ty (ps_layout sg))) }"

section \<open>Assignments, connections, registers and memory writes\<close>

definition push_assignment :: "nat \<Rightarrow> packed_expr \<Rightarrow> lowering \<Rightarrow> lowering" where
  "push_assignment d e lo = lo\<lparr>lo_assignments := lo_assignments lo @ [\<lparr>fa_dst = d, fa_expr = e\<rparr>]\<rparr>"

definition lower_assignment :: "nat \<Rightarrow> compiled_module \<Rightarrow> compiled_assignment \<Rightarrow> lowering \<Rightarrow> lowering" where
  "lower_assignment i m a lo =
     (case find_signal lo i (ca_dst a) m of
        (None, ds) \<Rightarrow> push_diags ds lo
      | (Some d, ds) \<Rightarrow> let (e, es) = lower_compiled_expr lo i m (ca_expr a)
          in push_assignment d e (push_diags (ds @ es) lo))"

definition find_child_context :: "lowering \<Rightarrow> nat \<Rightarrow> string \<Rightarrow> nat option" where
  "find_child_context lo parent name =
     (let prefix = ix_path (lo_contexts lo ! parent) @ ''.'' @ name
      in position (\<lambda>ctx. ix_path ctx = prefix) (lo_contexts lo))"

text \<open>A connection drives its destination with the value of its source; both are looked up.\<close>

definition connect :: "nat option \<times> diagnostic list \<Rightarrow> nat option \<times> diagnostic list \<Rightarrow> lowering \<Rightarrow> lowering option" where
  "connect = (\<lambda>(dst, ds) (src, es) lo.
     let lo1 = push_diags (ds @ es) lo
     in case (dst, src) of
          (Some d, Some s) \<Rightarrow> do { e \<leftarrow> signal_expr lo s; Some (push_assignment d e lo1) }
        | _ \<Rightarrow> Some lo1)"

definition lower_connection :: "nat \<Rightarrow> compiled_module \<Rightarrow> nat \<Rightarrow> compiled_module \<Rightarrow> compiled_connection \<Rightarrow> lowering
    \<Rightarrow> lowering option" where
  "lower_connection i m child cm c lo =
     (case List.find (\<lambda>si. si_name si = cc_port c) (cm_signals cm) of
        None \<Rightarrow> Some lo
      | Some port \<Rightarrow>
          let inner = find_signal lo child (si_handle port) cm; outer = find_signal lo i (cc_signal c) m
          in case cc_direction c of
               PdInput \<Rightarrow> connect inner outer lo
             | PdOutput \<Rightarrow> connect outer inner lo
             | PdInout \<Rightarrow> Some lo)"

definition lower_instance :: "nat \<Rightarrow> compiled_module \<Rightarrow> compiled_instance \<Rightarrow> lowering \<Rightarrow> lowering option" where
  "lower_instance i m child lo =
     (case find_child_context lo i (ci_name child) of
        None \<Rightarrow> Some lo
      | Some c \<Rightarrow>
          case compiled_find_module (lo_design lo) (ci_module child) of
            None \<Rightarrow> Some lo
          | Some cm \<Rightarrow> exec_all (lower_connection i m c cm) (ci_connections child) lo)"

definition lower_reset :: "lowering \<Rightarrow> nat \<Rightarrow> compiled_module \<Rightarrow> compiled_register \<Rightarrow> reset
    \<Rightarrow> packed_reset option \<times> diagnostic list" where
  "lower_reset lo i m r rst =
     (case find_signal lo i (rst_signal rst) m of
        (None, ds) \<Rightarrow> (None, ds)
      | (Some s, ds) \<Rightarrow> (Some \<lparr>pr_signal = s, pr_value = encode_limbs (rst_value rst) (ce_ty (cr_next r)),
            pr_kind = rst_kind rst, pr_polarity = rst_polarity rst\<rparr>, ds))"

definition lower_register :: "nat \<Rightarrow> compiled_module \<Rightarrow> compiled_register \<Rightarrow> lowering \<Rightarrow> lowering" where
  "lower_register i m r lo =
     (case find_signal lo i (cr_signal r) m of
        (None, ds) \<Rightarrow> push_diags ds lo
      | (Some s, ds) \<Rightarrow>
          let (e, es) = lower_compiled_expr lo i m (cr_next r);
              (rst, fs) = (case cr_reset r of None \<Rightarrow> (None, []) | Some x \<Rightarrow> lower_reset lo i m r x);
              (clk, gs) = find_signal lo i (cr_clock r) m
          in (push_diags (ds @ es @ fs @ gs) lo)\<lparr>lo_registers := lo_registers lo
                @ [\<lparr>rr_signal = s, rr_next = e, rr_reset = rst, rr_clock = clk\<rparr>]\<rparr>)"

definition lower_memory_write :: "lowering \<Rightarrow> nat \<Rightarrow> compiled_module \<Rightarrow> compiled_memory_write
    \<Rightarrow> (nat \<times> packed_op) option \<times> diagnostic list" where
  "lower_memory_write lo i m w =
     (case find_memory lo i (cmw_mem w) m of
        (None, ds) \<Rightarrow> (None, ds)
      | (Some mem, ds) \<Rightarrow>
          let (en, es) = lower_compiled_expr lo i m (cmw_enable w);
              (a, fs) = lower_compiled_expr lo i m (cmw_addr w);
              (x, gs) = lower_compiled_expr lo i m (cmw_data w)
          in (Some (mem, MemoryWrite mem en a x), ds @ es @ fs @ gs))"

definition lower_write :: "nat \<Rightarrow> compiled_module \<Rightarrow> compiled_memory_write \<Rightarrow> lowering \<Rightarrow> lowering" where
  "lower_write i m w lo =
     (case lower_memory_write lo i m w of
        (None, ds) \<Rightarrow> push_diags ds lo
      | (Some (mem, x), ds) \<Rightarrow>
          let (clk, es) = find_signal lo i (cmw_clock w) m
          in (push_diags (ds @ es) lo)\<lparr>
               lo_mem_clocks := (case clk of
                   Some c \<Rightarrow> if lo_mem_clocks lo mem = None then (lo_mem_clocks lo)(mem \<mapsto> c) else lo_mem_clocks lo
                 | None \<Rightarrow> lo_mem_clocks lo),
               lo_memory_writes := lo_memory_writes lo @ [x]\<rparr>)"

definition lower_context :: "nat \<times> instance_ctx \<Rightarrow> lowering \<Rightarrow> lowering option" where
  "lower_context = (\<lambda>(i, ctx) lo.
     let m = ix_module ctx; lo1 = fold (lower_assignment i m) (cm_assignments m) lo
     in do { lo2 \<leftarrow> exec_all (lower_instance i m) (cm_instances m) lo1;
             Some (fold (lower_write i m) (cm_memory_writes m) (fold (lower_register i m) (cm_registers m) lo2)) })"

definition lower_contexts :: "lowering \<Rightarrow> lowering option" where
  "lower_contexts lo = exec_all lower_context (enumerate 0 (lo_contexts lo)) lo"

section \<open>Scheduling\<close>

definition dst_to_assignment :: "flat_assignment list \<Rightarrow> nat \<rightharpoonup> nat" where
  "dst_to_assignment as = fold (\<lambda>(n, a) m. m(fa_dst a \<mapsto> n)) (enumerate 0 as) Map.empty"

text \<open>
  The level of an assignment, by depth-first search with a table of the known levels; on a
  cycle the search counts the assignment that it is within as level zero.  The first argument
  bounds the depth of the search.
\<close>

fun assignment_level :: "nat \<Rightarrow> (nat set \<Rightarrow> nat list) \<Rightarrow> flat_assignment list \<Rightarrow> (nat \<rightharpoonup> nat) \<Rightarrow> nat set \<Rightarrow> nat
    \<Rightarrow> (nat \<rightharpoonup> nat) \<Rightarrow> (nat \<times> (nat \<rightharpoonup> nat)) option" where
  "assignment_level 0 ord as by_dst visiting i memo = None"
| "assignment_level (Suc n) ord as by_dst visiting i memo =
     (case memo i of
        Some l \<Rightarrow> Some (l, memo)
      | None \<Rightarrow>
          if i \<in> visiting then Some (0, memo)
          else do { (l, memo') \<leftarrow> level_max (assignment_level n ord as by_dst (insert i visiting))
                 (filter (\<lambda>d. d \<noteq> i) (List.map_filter by_dst (ord (pe_signal_deps (fa_expr (as ! i)))))) 0 memo;
               Some (l, memo'(i \<mapsto> l)) })"

definition schedule_assignments :: "(nat set \<Rightarrow> nat list) \<Rightarrow> flat_assignment list \<Rightarrow> packed_packet list option" where
  "schedule_assignments ord as =
     map_option (filter (\<lambda>ops. ops \<noteq> []))
       (place_all (assignment_level (Suc (length as)) ord as (dst_to_assignment as) {})
          (\<lambda>i. Assign (fa_dst (as ! i)) (fa_expr (as ! i))) [0..<length as] Map.empty [])"

definition as_packet :: "packed_op list \<Rightarrow> packed_packet list" where
  "as_packet ops = (if ops = [] then [] else [ops])"

definition schedule_async_resets :: "reg_ref list \<Rightarrow> packed_packet list" where
  "schedule_async_resets rs = as_packet (List.map_filter (\<lambda>r.
     case rr_reset r of
       None \<Rightarrow> None
     | Some rst \<Rightarrow> if pr_kind rst \<noteq> Async then None
         else Some (CaptureReg (rr_signal r) (PExpr (PLit (pr_value rst)) (pe_ty (rr_next r))) (Some rst))) rs)"

definition schedule_tick_next :: "reg_ref list \<Rightarrow> packed_packet list" where
  "schedule_tick_next rs = as_packet (map (\<lambda>r. CaptureReg (rr_signal r) (rr_next r) (rr_reset r)) rs)"

definition schedule_memory_writes :: "packed_op list \<Rightarrow> packed_packet list" where
  "schedule_memory_writes ws = as_packet ws"

section \<open>The whole lowering\<close>

definition new_lowering :: "compiled_design \<Rightarrow> diagnostic list \<Rightarrow> instance_ctx list \<Rightarrow> lowering" where
  "new_lowering d ds ctxs = \<lparr>lo_design = d, lo_diagnostics = ds, lo_contexts = ctxs, lo_signals = [], lo_memories = [],
     lo_signal_map = Map.empty, lo_memory_map = Map.empty, lo_top_signal_indices = Map.empty, lo_assignments = [],
     lo_registers = [], lo_memory_writes = [], lo_mem_clocks = Map.empty, lo_next_signal_offset = 0,
     lo_next_memory_offset = 0\<rparr>"

definition reg_clock_map :: "reg_ref list \<Rightarrow> nat \<rightharpoonup> nat" where
  "reg_clock_map rs = fold (\<lambda>r m. case rr_clock r of None \<Rightarrow> m | Some c \<Rightarrow> m(rr_signal r \<mapsto> c)) rs Map.empty"

definition lower_to_packed_program ::
  "(nat set \<Rightarrow> nat list) \<Rightarrow> compiled_design \<Rightarrow> string \<Rightarrow> (error_report + packed_program) option" where
  "lower_to_packed_program ord d root =
     (case compiled_find_module d root of
        None \<Rightarrow> Some (Inl [new_diag ''E_SIM_IR_MODULE'' (''module `'' @ root @ ''` does not exist'')])
      | Some m \<Rightarrow>
          do { (ctxs, ds) \<leftarrow> add_context (Suc (length (cd_modules d))) d m root;
               let ds0 = (if cm_is_external m then [new_diag ''E_SIM_IR_EXTERN''
                       ''packed simulation IR does not support external top modules''] else [])
               in do { lo \<leftarrow> lower_contexts (allocate_contexts (new_lowering d (ds0 @ ds) ctxs));
                       if lo_diagnostics lo \<noteq> [] then Some (Inl (lo_diagnostics lo))
                       else do { comb \<leftarrow> schedule_assignments ord (lo_assignments lo);
                                 Some (Inr \<lparr>pp_top = root, pp_signals = lo_signals lo, pp_memories = lo_memories lo,
                                   pp_streams = \<lparr>st_async_reset_comb = schedule_async_resets (lo_registers lo), st_comb = comb,
                                     st_tick_next = schedule_tick_next (lo_registers lo),
                                     st_tick_commit = schedule_memory_writes (lo_memory_writes lo)\<rparr>,
                                   pp_top_signal_indices = lo_top_signal_indices lo,
                                   pp_total_signal_words = lo_next_signal_offset lo,
                                   pp_total_memory_words_per_lane = lo_next_memory_offset lo,
                                   pp_reg_clocks = reg_clock_map (lo_registers lo),
                                   pp_mem_clocks = lo_mem_clocks lo\<rparr>) } } })"

end
