(* ===== verification/Packed_Layout.thy ===== *)
theory Packed_Layout
  imports Packed_Lower
begin

text \<open>
  The layouts the lowering allocates: in range, disjoint, of the width of the signal, with an
  index for every signal of every context; the rest of the lowering keeps them.
\<close>

section \<open>Modules with the types of their signals\<close>

text \<open>Every node of an expression has a width below two to the 32, the range of a \<open>Width\<close>.\<close>

fun small_widths :: "rmodule \<Rightarrow> expr \<Rightarrow> bool" where
  "small_widths m (Lit v ty) \<longleftrightarrow> bt_width ty < 2 ^ 32"
| "small_widths m (Sig s) \<longleftrightarrow> type_width m (Sig s) < 2 ^ 32"
| "small_widths m (ENot a) \<longleftrightarrow> small_widths m a"
| "small_widths m (EAnd a b) \<longleftrightarrow> small_widths m a \<and> small_widths m b"
| "small_widths m (EOr a b) \<longleftrightarrow> small_widths m a \<and> small_widths m b"
| "small_widths m (EXor a b) \<longleftrightarrow> small_widths m a \<and> small_widths m b"
| "small_widths m (EAdd a b) \<longleftrightarrow> small_widths m a \<and> small_widths m b"
| "small_widths m (ESub a b) \<longleftrightarrow> small_widths m a \<and> small_widths m b"
| "small_widths m (EMul a b) \<longleftrightarrow> small_widths m a \<and> small_widths m b"
| "small_widths m (EEq a b) \<longleftrightarrow> small_widths m a \<and> small_widths m b"
| "small_widths m (ENe a b) \<longleftrightarrow> small_widths m a \<and> small_widths m b"
| "small_widths m (ELt a b) \<longleftrightarrow> small_widths m a \<and> small_widths m b"
| "small_widths m (EMux c t e) \<longleftrightarrow> small_widths m c \<and> small_widths m t \<and> small_widths m e"
| "small_widths m (ESlice a lsb w) \<longleftrightarrow> small_widths m a \<and> w < 2 ^ 32"
| "small_widths m (EZext a w) \<longleftrightarrow> small_widths m a \<and> w < 2 ^ 32"
| "small_widths m (ESext a w) \<longleftrightarrow> small_widths m a \<and> w < 2 ^ 32"
| "small_widths m (ETrunc a w) \<longleftrightarrow> small_widths m a \<and> w < 2 ^ 32"
| "small_widths m (ECast a sg) \<longleftrightarrow> small_widths m a"
| "small_widths m (EConcat ps) \<longleftrightarrow> (\<forall>p \<in> set ps. small_widths m p) \<and> type_width m (EConcat ps) < 2 ^ 32"
| "small_widths m (EMemRead mem a) \<longleftrightarrow> small_widths m a \<and> type_width m (EMemRead mem a) < 2 ^ 32"

definition typed_expr :: "rmodule \<Rightarrow> compiled_expr \<Rightarrow> bool" where
  "typed_expr m c \<longleftrightarrow> has_type m (ce_expr c) (ce_ty c) \<and> small_widths m (ce_expr c)"

definition sized_signal :: "signal_info \<Rightarrow> bool" where
  "sized_signal si \<longleftrightarrow> width_ok (bt_width (si_ty si)) \<and>
     (case si_kind si of KMem aw dw depth \<Rightarrow> depth < 2 ^ 64 | _ \<Rightarrow> True)"

text \<open>\<open>typed_module m cm\<close>: the compiled module \<open>cm\<close> is well typed with the signals of \<open>m\<close>.\<close>

definition typed_module :: "rmodule \<Rightarrow> compiled_module \<Rightarrow> bool" where
  "typed_module m cm \<longleftrightarrow> cm_id cm = m_id m \<and> cm_signals cm = m_signals m \<and> signals_wf m
     \<and> (\<forall>si \<in> set (m_signals m). sized_signal si)
     \<and> (\<forall>a \<in> set (cm_assignments cm). typed_expr m (ca_expr a)
        \<and> (\<exists>si. module_signal m (ca_dst a) = Some si \<and> si_ty si = ce_ty (ca_expr a)))
     \<and> (\<forall>r \<in> set (cm_registers cm). typed_expr m (cr_next r)
        \<and> (\<exists>si. module_signal m (cr_signal r) = Some si \<and> si_ty si = ce_ty (cr_next r)))
     \<and> (\<forall>w \<in> set (cm_memory_writes cm). typed_expr m (cmw_enable w) \<and> typed_expr m (cmw_addr w) \<and> typed_expr m (cmw_data w)
        \<and> (\<exists>si. module_signal m (cmw_mem w) = Some si \<and> si_ty si = ce_ty (cmw_data w)))"

text \<open>Connections join a port and a signal of the same type; the names of instances have no dot.\<close>

definition names_ok :: "compiled_design \<Rightarrow> bool" where
  "names_ok d \<longleftrightarrow> (\<forall>cm \<in> set (cd_modules d). distinct (map ci_name (cm_instances cm))
     \<and> (\<forall>i \<in> set (cm_instances cm). CHR ''.'' \<notin> set (ci_name i)))"

definition typed_design :: "compiled_design \<Rightarrow> bool" where
  "typed_design d \<longleftrightarrow> (\<forall>cm \<in> set (cd_modules d). \<exists>m. typed_module m cm)
     \<and> (\<forall>cm \<in> set (cd_modules d). \<forall>i \<in> set (cm_instances cm). \<forall>t. compiled_find_module d (ci_module i) = Some t \<longrightarrow>
         (\<forall>c \<in> set (ci_connections i). \<forall>port si. List.find (\<lambda>si. si_name si = cc_port c) (cm_signals t) = Some port \<longrightarrow>
            compiled_signal cm (cc_signal c) = Some si \<longrightarrow> si_ty si = si_ty port))"

section \<open>Allocation\<close>

lemma disjoint_ranges_snoc:
  assumes "disjoint_ranges rs" "\<forall>r \<in> set rs. fst r + snd r \<le> a"
  shows "disjoint_ranges (rs @ [(a, n)])"
  unfolding disjoint_ranges_def
proof (intro allI impI)
  fix i j assume ij: "i < length (rs @ [(a, n)])" "j < length (rs @ [(a, n)])" "i \<noteq> j"
  have below: "fst (rs ! k) + snd (rs ! k) \<le> a" if "k < length rs" for k using assms(2) that by simp
  show "fst ((rs @ [(a, n)]) ! i) + snd ((rs @ [(a, n)]) ! i) \<le> fst ((rs @ [(a, n)]) ! j)
    \<or> fst ((rs @ [(a, n)]) ! j) + snd ((rs @ [(a, n)]) ! j) \<le> fst ((rs @ [(a, n)]) ! i)"
  proof (cases "i < length rs \<and> j < length rs")
    case True
    with assms(1) ij(3) show ?thesis by (simp add: disjoint_ranges_def nth_append)
  next
    case False
    with ij below show ?thesis by (auto simp: nth_append less_Suc_eq)
  qed
qed

definition layouts_below :: "lowering \<Rightarrow> bool" where
  "layouts_below lo \<longleftrightarrow>
     (\<forall>sg \<in> set (lo_signals lo). layout_ok (ps_layout sg) \<and> fst (signal_range sg) + snd (signal_range sg) \<le> lo_next_signal_offset lo)
     \<and> disjoint_ranges (map signal_range (lo_signals lo))
     \<and> (\<forall>m \<in> set (lo_memories lo). layout_ok (pm_data_layout m) \<and> pm_depth m < 2 ^ 64
        \<and> fst (memory_range m) + snd (memory_range m) \<le> lo_next_memory_offset lo)
     \<and> disjoint_ranges (map memory_range (lo_memories lo))"

text \<open>A key of the maps is a signal of its context; different keys have different indices.\<close>

definition key_signal :: "lowering \<Rightarrow> nat \<Rightarrow> signal \<Rightarrow> signal_info \<Rightarrow> bool" where
  "key_signal lo i s si \<longleftrightarrow> i < length (lo_contexts lo) \<and> si \<in> set (cm_signals (ix_module (lo_contexts lo ! i))) \<and> si_handle si = s"

definition signal_keys_ok :: "lowering \<Rightarrow> bool" where
  "signal_keys_ok lo \<longleftrightarrow> (\<forall>i s j. lo_signal_map lo (i, s) = Some j \<longrightarrow> j < length (lo_signals lo)
     \<and> (\<exists>si. key_signal lo i s si \<and> pl_ty (ps_layout (lo_signals lo ! j)) = si_ty si
          \<and> (\<forall>aw dw depth. si_kind si \<noteq> KMem aw dw depth)))"

definition memory_keys_ok :: "lowering \<Rightarrow> bool" where
  "memory_keys_ok lo \<longleftrightarrow> (\<forall>i s j. lo_memory_map lo (i, s) = Some j \<longrightarrow> j < length (lo_memories lo)
     \<and> (\<exists>si aw dw. key_signal lo i s si \<and> pl_ty (pm_data_layout (lo_memories lo ! j)) = si_ty si
          \<and> si_kind si = KMem aw dw (pm_depth (lo_memories lo ! j)))
     \<and> pm_source (lo_memories lo ! j) = s)"

definition injective_map :: "('k \<rightharpoonup> nat) \<Rightarrow> bool" where
  "injective_map m \<longleftrightarrow> (\<forall>k k' j. m k = Some j \<longrightarrow> m k' = Some j \<longrightarrow> k = k')"

definition top_keys_ok :: "lowering \<Rightarrow> bool" where
  "top_keys_ok lo \<longleftrightarrow> (\<forall>s. lo_top_signal_indices lo s = lo_signal_map lo (0, s))"

definition keys_ok :: "lowering \<Rightarrow> bool" where
  "keys_ok lo \<longleftrightarrow> signal_keys_ok lo \<and> memory_keys_ok lo \<and> injective_map (lo_signal_map lo)
     \<and> injective_map (lo_memory_map lo) \<and> top_keys_ok lo"

lemma injective_map_new: "injective_map m \<Longrightarrow> \<forall>k. m k \<noteq> Some n \<Longrightarrow> injective_map (m(k \<mapsto> n))"
  by (auto simp: injective_map_def)

lemmas keys_defs = keys_ok_def signal_keys_ok_def memory_keys_ok_def top_keys_ok_def

definition allocated :: "lowering \<Rightarrow> bool" where
  "allocated lo \<longleftrightarrow> layouts_below lo \<and> keys_ok lo"

lemma allocated_push [simp]: "allocated (push_diags ds lo) = allocated lo"
  by (simp add: allocated_def layouts_below_def keys_defs key_signal_def push_diags_def)

lemma alloc_memory_ok:
  assumes lo: "allocated lo" and si: "key_signal lo i (si_handle si) si" "sized_signal si" "si_kind si = KMem aw dw depth"
  shows "allocated (alloc_memory i ctx si aw depth lo)"
proof -
  define pm where "pm = \<lparr>pm_name = ix_path ctx @ ''.'' @ si_name si, pm_source = si_handle si, pm_owner_path = ix_path ctx,
    pm_addr_width = aw, pm_depth = depth, pm_data_layout = alloc_memory_layout (si_ty si), pm_offset = lo_next_memory_offset lo\<rparr>"
  define n where "n = depth * limbs (bt_width (si_ty si))"
  have run: "alloc_memory i ctx si aw depth lo = lo\<lparr>lo_memory_map := (lo_memory_map lo)((i, si_handle si) \<mapsto> length (lo_memories lo)),
      lo_memories := lo_memories lo @ [pm], lo_next_memory_offset := lo_next_memory_offset lo + n\<rparr>"
    by (simp add: alloc_memory_def Let_def pm_def n_def alloc_memory_layout_def)
  have pm: "layout_ok (pm_data_layout pm)" "memory_range pm = (lo_next_memory_offset lo, n)"
    "pl_ty (pm_data_layout pm) = si_ty si" "pm_depth pm = depth" "pm_source pm = si_handle si"
    using si(2) by (simp_all add: pm_def layout_ok_def alloc_memory_layout_def sized_signal_def memory_range_def n_def)
  have depth: "depth < 2 ^ 64" using si(2,3) by (simp add: sized_signal_def)
  have "disjoint_ranges (map memory_range (lo_memories lo @ [pm]))"
    using lo disjoint_ranges_snoc [of "map memory_range (lo_memories lo)" "lo_next_memory_offset lo"]
    by (simp add: allocated_def layouts_below_def pm(2))
  then have "layouts_below (alloc_memory i ctx si aw depth lo)"
    using lo pm depth by (auto simp: allocated_def layouts_below_def run intro: trans_le_add1)
  moreover have "keys_ok (alloc_memory i ctx si aw depth lo)"
  proof -
    have k: "signal_keys_ok lo" "memory_keys_ok lo" "injective_map (lo_signal_map lo)" "injective_map (lo_memory_map lo)"
      "top_keys_ok lo" using lo by (simp_all add: allocated_def keys_ok_def)
    from k(2) have fresh: "\<forall>k. lo_memory_map lo k \<noteq> Some (length (lo_memories lo))"
      unfolding memory_keys_ok_def by (metis less_irrefl surj_pair)
    have "memory_keys_ok (alloc_memory i ctx si aw depth lo)"
      using k(2) si(1,3) pm(3-5) unfolding memory_keys_ok_def run by (auto simp: key_signal_def nth_append less_Suc_eq)
    with k injective_map_new [OF k(4) fresh] show ?thesis
      by (simp add: keys_ok_def run signal_keys_ok_def top_keys_ok_def key_signal_def)
  qed
  ultimately show ?thesis by (simp add: allocated_def)
qed

lemma alloc_scalar_ok:
  assumes lo: "allocated lo" and si: "key_signal lo i (si_handle si) si" "sized_signal si"
    and kind: "\<forall>aw dw depth. si_kind si \<noteq> KMem aw dw depth"
  shows "allocated (alloc_scalar i ctx si lo)"
proof -
  define n where "n = limbs (bt_width (si_ty si))"
  define sg where "sg = \<lparr>ps_name = ix_path ctx @ ''.'' @ si_name si, ps_source = (if i = 0 then Some (si_handle si) else None),
    ps_owner_path = ix_path ctx, ps_layout = \<lparr>pl_width = bt_width (si_ty si), pl_ty = si_ty si,
      pl_offset = lo_next_signal_offset lo, pl_limbs = n\<rparr>, ps_kind = packed_signal_kind_of (si_kind si)\<rparr>"
  have run: "alloc_scalar i ctx si lo = lo\<lparr>lo_next_signal_offset := lo_next_signal_offset lo + n,
      lo_signal_map := (lo_signal_map lo)((i, si_handle si) \<mapsto> length (lo_signals lo)),
      lo_top_signal_indices := (if i = 0 then (lo_top_signal_indices lo)(si_handle si \<mapsto> length (lo_signals lo))
        else lo_top_signal_indices lo), lo_signals := lo_signals lo @ [sg]\<rparr>"
    by (simp add: alloc_scalar_def alloc_signal_layout_def Let_def sg_def n_def)
  have sg: "layout_ok (ps_layout sg)" "signal_range sg = (lo_next_signal_offset lo, n)" "pl_ty (ps_layout sg) = si_ty si"
    using si(2) by (simp_all add: sg_def layout_ok_def sized_signal_def signal_range_def n_def)
  have "disjoint_ranges (map signal_range (lo_signals lo @ [sg]))"
    using lo disjoint_ranges_snoc [of "map signal_range (lo_signals lo)" "lo_next_signal_offset lo"]
    by (simp add: allocated_def layouts_below_def sg(2))
  then have "layouts_below (alloc_scalar i ctx si lo)"
    using lo sg by (auto simp: allocated_def layouts_below_def run intro: trans_le_add1)
  moreover have "keys_ok (alloc_scalar i ctx si lo)"
  proof -
    have k: "signal_keys_ok lo" "memory_keys_ok lo" "injective_map (lo_signal_map lo)" "injective_map (lo_memory_map lo)"
      "top_keys_ok lo" using lo by (simp_all add: allocated_def keys_ok_def)
    from k(1) have fresh: "\<forall>k. lo_signal_map lo k \<noteq> Some (length (lo_signals lo))"
      unfolding signal_keys_ok_def by (metis less_irrefl surj_pair)
    have "signal_keys_ok (alloc_scalar i ctx si lo)"
      using k(1) si(1) sg(3) kind unfolding signal_keys_ok_def run by (auto simp: key_signal_def nth_append less_Suc_eq)
    moreover have "top_keys_ok (alloc_scalar i ctx si lo)" using k(5) unfolding top_keys_ok_def run by auto
    ultimately show ?thesis using k injective_map_new [OF k(3) fresh]
      by (simp add: keys_ok_def run memory_keys_ok_def key_signal_def)
  qed
  ultimately show ?thesis by (simp add: allocated_def)
qed

lemma allocate_signal_ok:
  assumes "allocated lo" "key_signal lo i (si_handle si) si" "sized_signal si"
  shows "allocated (allocate_signal i ctx si lo)"
proof (cases "si_kind si")
  case (KMem aw dw depth)
  with alloc_memory_ok [OF assms KMem] show ?thesis by (simp add: allocate_signal_def)
qed (use assms alloc_scalar_ok [OF assms] in \<open>simp_all add: allocate_signal_def\<close>)

text \<open>What allocation adds: entries for more signals, and diagnostics for what is not supported.\<close>

definition has_entry :: "lowering \<Rightarrow> nat \<Rightarrow> signal_info \<Rightarrow> bool" where
  "has_entry lo i si \<longleftrightarrow> (case si_kind si of KInout \<Rightarrow> True
     | KMem aw dw depth \<Rightarrow> lo_memory_map lo (i, si_handle si) \<noteq> None
     | _ \<Rightarrow> lo_signal_map lo (i, si_handle si) \<noteq> None)"

definition grown :: "lowering \<Rightarrow> lowering \<Rightarrow> bool" where
  "grown lo lo' \<longleftrightarrow> lo_design lo' = lo_design lo \<and> lo_contexts lo' = lo_contexts lo
     \<and> dom (lo_signal_map lo) \<subseteq> dom (lo_signal_map lo') \<and> dom (lo_memory_map lo) \<subseteq> dom (lo_memory_map lo')
     \<and> lo_assignments lo' = lo_assignments lo \<and> lo_registers lo' = lo_registers lo
     \<and> lo_memory_writes lo' = lo_memory_writes lo \<and> lo_mem_clocks lo' = lo_mem_clocks lo"

lemma grown_refl [simp]: "grown lo lo" by (simp add: grown_def)

lemma grown_trans: "grown a b \<Longrightarrow> grown b c \<Longrightarrow> grown a c"
  by (simp add: grown_def) (meson subset_trans)

lemma grown_entry: "grown lo lo' \<Longrightarrow> has_entry lo i si \<Longrightarrow> has_entry lo' i si"
  by (auto simp: grown_def has_entry_def dom_def split: signal_kind.splits)

lemma allocate_signal_grows: "grown lo (allocate_signal i ctx si lo)" "has_entry (allocate_signal i ctx si lo) i si"
  by (auto simp: grown_def has_entry_def allocate_signal_def push_diags_def alloc_memory_def alloc_scalar_def
      alloc_signal_layout_def Let_def dom_def split: signal_kind.splits)

lemma allocate_signal_diags:
  "lo_diagnostics (allocate_signal i ctx si lo) = [] \<longleftrightarrow> lo_diagnostics lo = [] \<and> si_kind si \<noteq> KInout"
  by (simp add: allocate_signal_def push_diags_def alloc_memory_def alloc_scalar_def alloc_signal_layout_def Let_def
      split: signal_kind.splits)

lemma allocate_signals_ok:
  assumes "allocated lo" "\<forall>si \<in> set sis. key_signal lo i (si_handle si) si \<and> sized_signal si"
  shows "allocated (fold (allocate_signal i ctx) sis lo) \<and> grown lo (fold (allocate_signal i ctx) sis lo)
    \<and> (\<forall>si \<in> set sis. has_entry (fold (allocate_signal i ctx) sis lo) i si)
    \<and> (lo_diagnostics (fold (allocate_signal i ctx) sis lo) = [] \<longleftrightarrow>
        lo_diagnostics lo = [] \<and> (\<forall>si \<in> set sis. si_kind si \<noteq> KInout))"
  using assms
proof (induction sis arbitrary: lo)
  case (Cons si sis)
  let ?lo = "allocate_signal i ctx si lo"
  note g = allocate_signal_grows [where lo = lo and i = i and ctx = ctx and si = si]
  have "lo_contexts ?lo = lo_contexts lo" using g(1) by (simp add: grown_def)
  then have "\<forall>si \<in> set sis. key_signal ?lo i (si_handle si) si \<and> sized_signal si"
    using Cons.prems(2) by (simp add: key_signal_def)
  moreover have "allocated ?lo" using Cons.prems by (intro allocate_signal_ok) auto
  ultimately have IH: "allocated (fold (allocate_signal i ctx) sis ?lo)" "grown ?lo (fold (allocate_signal i ctx) sis ?lo)"
    "\<forall>si \<in> set sis. has_entry (fold (allocate_signal i ctx) sis ?lo) i si"
    "lo_diagnostics (fold (allocate_signal i ctx) sis ?lo) = [] \<longleftrightarrow>
        lo_diagnostics ?lo = [] \<and> (\<forall>si \<in> set sis. si_kind si \<noteq> KInout)" using Cons.IH [of ?lo] by blast+
  with grown_trans [OF g(1) IH(2)] grown_entry [OF IH(2) g(2)] allocate_signal_diags show ?case by auto
qed simp

text \<open>What a context needs to be supported.\<close>

definition supported :: "compiled_module \<Rightarrow> bool" where
  "supported m \<longleftrightarrow> cm_assertions m = [] \<and> cm_cover_points m = [] \<and> (\<forall>si \<in> set (cm_signals m). si_kind si \<noteq> KInout)"

lemma allocate_context_ok:
  assumes lo: "allocated lo" and i: "i < length (lo_contexts lo)" "ctx = lo_contexts lo ! i"
    and sized: "\<forall>si \<in> set (cm_signals (ix_module ctx)). sized_signal si"
  shows "allocated (allocate_context (i, ctx) lo) \<and> grown lo (allocate_context (i, ctx) lo)
    \<and> (\<forall>si \<in> set (cm_signals (ix_module ctx)). has_entry (allocate_context (i, ctx) lo) i si)
    \<and> (lo_diagnostics (allocate_context (i, ctx) lo) = [] \<longleftrightarrow> lo_diagnostics lo = [] \<and> supported (ix_module ctx))"
proof -
  let ?lo = "if cm_assertions (ix_module ctx) \<noteq> [] \<or> cm_cover_points (ix_module ctx) \<noteq> []
    then push_diags [with_module (new_diag ''E_SIM_IR_ASSERT_COVER''
        ''packed simulation IR does not support assertions or cover points'') (cm_name (ix_module ctx))] lo else lo"
  have "allocated ?lo" using lo by simp
  moreover have "\<forall>si \<in> set (cm_signals (ix_module ctx)). key_signal ?lo i (si_handle si) si \<and> sized_signal si"
    using i sized by (simp add: key_signal_def push_diags_def)
  moreover have "grown lo ?lo" by (simp add: grown_def push_diags_def)
  moreover have "lo_diagnostics ?lo = [] \<longleftrightarrow> lo_diagnostics lo = [] \<and> cm_assertions (ix_module ctx) = [] \<and> cm_cover_points (ix_module ctx) = []"
    by (auto simp: push_diags_def)
  ultimately show ?thesis using allocate_signals_ok [of ?lo "cm_signals (ix_module ctx)" i ctx] grown_trans
    unfolding allocate_context_def supported_def prod.case by blast
qed

lemma allocate_all_ok:
  assumes "allocated lo" "\<forall>(i, ctx) \<in> set ics. i < length (lo_contexts lo) \<and> ctx = lo_contexts lo ! i
      \<and> (\<forall>si \<in> set (cm_signals (ix_module ctx)). sized_signal si)"
  shows "allocated (fold allocate_context ics lo) \<and> grown lo (fold allocate_context ics lo)
    \<and> (\<forall>(i, ctx) \<in> set ics. \<forall>si \<in> set (cm_signals (ix_module ctx)). has_entry (fold allocate_context ics lo) i si)
    \<and> (lo_diagnostics (fold allocate_context ics lo) = [] \<longleftrightarrow>
        lo_diagnostics lo = [] \<and> (\<forall>(i, ctx) \<in> set ics. supported (ix_module ctx)))"
  using assms
proof (induction ics arbitrary: lo)
  case (Cons ic ics)
  obtain i ctx where ic: "ic = (i, ctx)" by (cases ic)
  let ?lo = "allocate_context (i, ctx) lo"
  have one: "allocated ?lo" "grown lo ?lo" "\<forall>si \<in> set (cm_signals (ix_module ctx)). has_entry ?lo i si"
    "lo_diagnostics ?lo = [] \<longleftrightarrow> lo_diagnostics lo = [] \<and> supported (ix_module ctx)"
    using allocate_context_ok [OF Cons.prems(1), of i ctx] Cons.prems(2) ic by auto
  have "lo_contexts ?lo = lo_contexts lo" using one(2) by (simp add: grown_def)
  then have IH: "allocated (fold allocate_context ics ?lo)" "grown ?lo (fold allocate_context ics ?lo)"
    "\<forall>(i, ctx) \<in> set ics. \<forall>si \<in> set (cm_signals (ix_module ctx)). has_entry (fold allocate_context ics ?lo) i si"
    "lo_diagnostics (fold allocate_context ics ?lo) = [] \<longleftrightarrow>
        lo_diagnostics ?lo = [] \<and> (\<forall>(i, ctx) \<in> set ics. supported (ix_module ctx))"
    using Cons.IH [OF one(1)] Cons.prems(2) by auto
  with one grown_trans [OF one(2) IH(2)] grown_entry [OF IH(2)] show ?case by (auto simp: ic)
qed simp

lemma allocate_contexts_ok:
  assumes "allocated lo" "\<forall>ctx \<in> set (lo_contexts lo). \<forall>si \<in> set (cm_signals (ix_module ctx)). sized_signal si"
  shows "allocated (allocate_contexts lo)" "grown lo (allocate_contexts lo)"
    and "i < length (lo_contexts lo) \<Longrightarrow> si \<in> set (cm_signals (ix_module (lo_contexts lo ! i))) \<Longrightarrow> has_entry (allocate_contexts lo) i si"
    and "lo_diagnostics (allocate_contexts lo) = [] \<longleftrightarrow>
        lo_diagnostics lo = [] \<and> (\<forall>ctx \<in> set (lo_contexts lo). supported (ix_module ctx))"
proof -
  let ?ics = "enumerate 0 (lo_contexts lo)"
  have ics: "\<forall>(i, ctx) \<in> set ?ics. i < length (lo_contexts lo) \<and> ctx = lo_contexts lo ! i
      \<and> (\<forall>si \<in> set (cm_signals (ix_module ctx)). sized_signal si)"
    using assms(2) by (auto simp: in_set_enumerate_eq)
  note all = allocate_all_ok [OF assms(1) ics, folded allocate_contexts_def]
  then show "allocated (allocate_contexts lo)" "grown lo (allocate_contexts lo)" by blast+
  show "has_entry (allocate_contexts lo) i si"
    if "i < length (lo_contexts lo)" "si \<in> set (cm_signals (ix_module (lo_contexts lo ! i)))"
  proof -
    have "(i, lo_contexts lo ! i) \<in> set ?ics" using that by (simp add: in_set_enumerate_eq)
    with all that(2) show ?thesis by fast
  qed
  have "set ?ics = (\<lambda>i. (i, lo_contexts lo ! i)) ` {..<length (lo_contexts lo)}"
    by (auto simp: in_set_enumerate_eq image_iff)
  then have "(\<forall>(i, ctx) \<in> set ?ics. supported (ix_module ctx)) \<longleftrightarrow> (\<forall>ctx \<in> set (lo_contexts lo). supported (ix_module ctx))"
    by (auto simp: all_set_conv_all_nth)
  with all show "lo_diagnostics (allocate_contexts lo) = [] \<longleftrightarrow>
        lo_diagnostics lo = [] \<and> (\<forall>ctx \<in> set (lo_contexts lo). supported (ix_module ctx))" by simp
qed

lemma new_lowering_allocated: "allocated (new_lowering d ds ctxs)"
  by (simp add: allocated_def layouts_below_def keys_defs injective_map_def new_lowering_def disjoint_ranges_def)

end
