(* ===== verification/Packed_Lower_Expr.thy ===== *)
theory Packed_Lower_Expr
  imports Packed_Layout
begin

text \<open>
  Lowered expressions: they are well formed, have the type they were lowered at, and denote the
  reference semantics of the source expression when the packed signals and memories hold the
  values of the source signals and memories.
\<close>

section \<open>Types\<close>

text \<open>Context \<open>i\<close> holds the module \<open>cm\<close>, which is typed with the signals of \<open>m\<close>.\<close>

definition context_of :: "lowering \<Rightarrow> nat \<Rightarrow> rmodule \<Rightarrow> compiled_module \<Rightarrow> bool" where
  "context_of lo i m cm \<longleftrightarrow> allocated lo \<and> typed_module m cm \<and> i < length (lo_contexts lo) \<and> ix_module (lo_contexts lo ! i) = cm"

lemma typed_module_signal: "typed_module m cm \<Longrightarrow> compiled_signal cm s = module_signal m s"
  by (simp add: typed_module_def compiled_signal_def module_signal_def)

lemma lowered_type_eq:
  assumes "typed_module m cm"
  shows "has_type m e ty \<Longrightarrow> lowered_type cm e = Some ty"
proof (induction rule: has_type.induct)
  case (T_Concat ps tys)
  have "mapM (lowered_type cm) ps = Some tys"
    using T_Concat(1) by (induction rule: list_all2_induct) auto
  then show ?case by simp
qed (simp_all add: typed_module_signal [OF assms])

lemma typed_width_ok:
  assumes "typed_module m cm"
  shows "has_type m e ty \<Longrightarrow> small_widths m e \<Longrightarrow> width_ok (bt_width ty)"
proof (induction rule: has_type.induct)
  case (T_Sig s si)
  then show ?case using assms module_signal_in by (auto simp: typed_module_def sized_signal_def)
next
  case (T_MemRead mem info aw dw depth a)
  then show ?case using assms module_signal_in by (auto simp: typed_module_def sized_signal_def)
next
  case (T_Concat ps tys)
  have "has_type m (EConcat ps) (uint_ty (sum_list (map bt_width tys)))"
    by (rule has_type.T_Concat) (use T_Concat(1,2) in \<open>auto elim: list_all2_mono\<close>)
  then have "sum_list (map bt_width tys) < 2 ^ 32" using T_Concat(3) by simp
  moreover obtain p ps' where ps: "ps = p # ps'" using T_Concat(2) by (cases ps) auto
  then obtain ty tys' where "tys = ty # tys'" "0 < bt_width ty"
    using T_Concat(1,3) by (auto simp: list_all2_Cons1 width_ok_def)
  ultimately show ?case by (simp add: width_ok_def)
qed (auto simp: width_ok_def)

lemma find_signal_found:
  assumes "context_of lo i m cm" "find_signal lo i s cm = (r, [])"
  shows "\<exists>j si. r = Some j \<and> lo_signal_map lo (i, s) = Some j \<and> j < length (lo_signals lo)
    \<and> module_signal m s = Some si \<and> pl_ty (ps_layout (lo_signals lo ! j)) = si_ty si"
proof -
  obtain j where j: "lo_signal_map lo (i, s) = Some j" "r = Some j"
    using assms(2) by (auto simp: find_signal_def split: option.splits)
  obtain si where si: "j < length (lo_signals lo)" "key_signal lo i s si" "pl_ty (ps_layout (lo_signals lo ! j)) = si_ty si"
    using assms(1) j(1) unfolding context_of_def allocated_def keys_ok_def signal_keys_ok_def by blast
  then have "module_signal m s = Some si"
    using assms(1) signals_wf_lookup by (auto simp: key_signal_def context_of_def typed_module_def)
  with j si show ?thesis by blast
qed

lemma find_memory_found:
  assumes "context_of lo i m cm" "find_memory lo i s cm = (r, [])"
  shows "\<exists>j si aw dw. r = Some j \<and> lo_memory_map lo (i, s) = Some j \<and> j < length (lo_memories lo)
    \<and> module_signal m s = Some si \<and> pl_ty (pm_data_layout (lo_memories lo ! j)) = si_ty si
    \<and> si_kind si = KMem aw dw (pm_depth (lo_memories lo ! j))"
proof -
  obtain j where j: "lo_memory_map lo (i, s) = Some j" "r = Some j"
    using assms(2) by (auto simp: find_memory_def split: option.splits)
  obtain si aw dw where si: "j < length (lo_memories lo)" "key_signal lo i s si"
    "pl_ty (pm_data_layout (lo_memories lo ! j)) = si_ty si" "si_kind si = KMem aw dw (pm_depth (lo_memories lo ! j))"
    using assms(1) j(1) unfolding context_of_def allocated_def keys_ok_def memory_keys_ok_def by blast
  then have "module_signal m s = Some si"
    using assms(1) signals_wf_lookup by (auto simp: key_signal_def context_of_def typed_module_def)
  with j si show ?thesis by blast
qed

text \<open>The lowered operands of a node, when no diagnostic was pushed.\<close>

lemma node1_fst [simp]: "fst (node1 f ty r) = PExpr (f (fst r)) ty" "snd (node1 f ty r) = snd r"
  by (simp_all add: node1_def case_prod_beta)

lemma node2_fst [simp]: "fst (node2 f ty r r') = PExpr (f (fst r) (fst r')) ty" "snd (node2 f ty r r') = snd r @ snd r'"
  by (simp_all add: node2_def case_prod_beta)

lemma lower_raw_expr_ty: "pe_ty (fst (lower_raw_expr lo i cm e ty)) = ty"
  by (cases e) (simp_all add: Let_def case_prod_beta split: prod.splits option.splits)

definition signals_of :: "lowering \<Rightarrow> packed_program \<Rightarrow> bool" where
  "signals_of lo p \<longleftrightarrow> pp_signals p = lo_signals lo \<and> pp_memories p = lo_memories lo"

definition lowers_ok :: "lowering \<Rightarrow> nat \<Rightarrow> compiled_module \<Rightarrow> packed_program \<Rightarrow> expr \<Rightarrow> bit_type \<Rightarrow> bool" where
  "lowers_ok lo i cm p e ty \<longleftrightarrow>
     (snd (lower_raw_expr lo i cm e ty) = [] \<longrightarrow> expr_ok p (fst (lower_raw_expr lo i cm e ty)))"

lemma lower_raw_expr_ok:
  assumes cx: "context_of lo i m cm" and p: "signals_of lo p"
  shows "has_type m e ty \<Longrightarrow> small_widths m e \<Longrightarrow> lowers_ok lo i cm p e ty"
proof -
  have cm: "typed_module m cm" using cx by (simp add: context_of_def)
  show "has_type m e ty \<Longrightarrow> small_widths m e \<Longrightarrow> lowers_ok lo i cm p e ty"
  proof (induction rule: has_type.induct)
    case (T_Sig s si)
    then have "width_ok (bt_width (si_ty si))" using typed_width_ok [OF cm has_type.T_Sig] by simp
    then show ?case using find_signal_found [OF cx] p
      by (auto simp: lowers_ok_def signals_of_def split: prod.splits option.splits)
  next
    case (T_Concat ps tys)
    have ty: "list_all2 (has_type m) ps tys" by (rule list_all2_mono [OF T_Concat(1)]) simp
    then have "width_ok (bt_width (uint_ty (sum_list (map bt_width tys))))"
      using typed_width_ok [OF cm has_type.T_Concat] T_Concat(2,3) by blast
    moreover have "\<forall>q \<in> set ps. \<exists>ty. lowered_type cm q = Some ty \<and> lowers_ok lo i cm p q ty"
    proof
      fix q assume q: "q \<in> set ps"
      then obtain k where k: "k < length ps" "q = ps ! k" by (auto simp: in_set_conv_nth)
      then have "has_type m q (tys ! k)" "small_widths m q \<longrightarrow> lowers_ok lo i cm p q (tys ! k)"
        using T_Concat(1) by (auto simp: list_all2_conv_all_nth)
      then show "\<exists>ty. lowered_type cm q = Some ty \<and> lowers_ok lo i cm p q ty"
        using T_Concat(3) q lowered_type_eq [OF cm] by auto
    qed
    ultimately show ?case by (fastforce simp: lowers_ok_def Let_def comp_def unwrap_or_def)
  next
    case (T_MemRead mem info aw dw depth a)
    then have "width_ok (bt_width (si_ty info))" using typed_width_ok [OF cm has_type.T_MemRead] by blast
    moreover obtain r ds where "find_memory lo i mem cm = (r, ds)" by fastforce
    ultimately show ?case using T_MemRead find_memory_found [OF cx, of mem r] p lowered_type_eq [OF cm T_MemRead(3)]
      by (auto simp: lowers_ok_def signals_of_def unwrap_or_def case_prod_beta)
  qed (use lowered_type_eq [OF cm] typed_width_ok [OF cm] in
      \<open>fastforce simp: lowers_ok_def unwrap_or_def Let_def case_prod_beta width_ok_def\<close>)+
qed

section \<open>Values\<close>

definition memory_word :: "sig_memories \<Rightarrow> signal \<Rightarrow> u128 \<Rightarrow> u128" where
  "memory_word M s x = (case M s of None \<Rightarrow> 0 | Some mem \<Rightarrow> (case vec_get mem (as_usize x) of None \<Rightarrow> 0 | Some v \<Rightarrow> v))"

text \<open>
  The state of a lane holds the values of context \<open>i\<close>.  A memory is read at addresses of at most
  64 bits, the width of \<open>usize\<close>.
\<close>

definition linked :: "lowering \<Rightarrow> nat \<Rightarrow> sig_values \<Rightarrow> sig_memories \<Rightarrow> lane_state \<Rightarrow> bool" where
  "linked lo i V M st \<longleftrightarrow> (\<forall>s j. lo_signal_map lo (i, s) = Some j \<longrightarrow> fst st j = uint (get_value V s))
     \<and> (\<forall>s j x. lo_memory_map lo (i, s) = Some j \<longrightarrow> take_bit 64 x = x \<longrightarrow> snd st j (uint x) = uint (memory_word M s x))"

definition small_addresses :: "rmodule \<Rightarrow> bool" where
  "small_addresses m \<longleftrightarrow> (\<forall>si \<in> set (m_signals m). case si_kind si of KMem aw dw depth \<Rightarrow> aw \<le> 64 | _ \<Rightarrow> True)"

lemma uint_take_bit: "uint (take_bit w (x :: u128)) = take_bit w (uint x)"
  by (simp add: unsigned_take_bit_eq)

lemma mod_u128: "n mod 340282366920938463463374607431768211456 = take_bit 128 (n :: int)"
  by (simp add: take_bit_eq_mod)

lemma uint_arith:
  assumes "w \<le> 128"
  shows "uint (take_bit w (x + y :: u128)) = take_bit w (uint x + uint y)"
    "uint (take_bit w (x - y :: u128)) = take_bit w (uint x - uint y)"
    "uint (take_bit w (x * y :: u128)) = take_bit w (uint x * uint y)"
    "uint (take_bit w (NOT x :: u128)) = take_bit w (NOT (uint x))"
  using assms
  by (simp_all add: uint_take_bit uint_word_ariths unsigned_not_eq mod_u128 min_absorb1)

lemma concat_bits_value:
  assumes "\<forall>(v, w) \<in> set ps. take_bit w v = v" "sum_list (map snd ps) \<le> 128"
  shows "uint (concat_bits ps) = concat_value (rev (map (apfst uint) ps))"
  using assms
proof (induction ps rule: rev_induct)
  case (snoc p ps)
  obtain v w where p: "p = (v, w)" by (cases p)
  let ?c = "concat_bits ps"
  have len: "sum_list (map snd ps) + w \<le> 128" using snoc.prems(2) p by simp
  have c: "uint ?c = take_bit (sum_list (map snd ps)) (uint ?c)"
    using concat_bits_fits [of ps] by (metis uint_take_bit)
  have "uint (push_bit w ?c OR take_bit w v) = concat_bit w (uint v) (uint ?c)"
  proof (rule bit_eqI)
    fix n
    have "bit (uint ?c) (n - w) \<longrightarrow> n - w < sum_list (map snd ps)" by (metis bit_take_bit_iff c)
    then show "bit (uint (push_bit w ?c OR take_bit w v)) n = bit (concat_bit w (uint v) (uint ?c)) n"
      using len by (auto simp: bit_simps bit_concat_bit_iff bit_uint_iff)
  qed
  with snoc p show ?case by (simp add: concat_bits_snoc)
qed (simp add: concat_bits_def)

lemma sval_signed: "0 < w \<Longrightarrow> w \<le> 128 \<Longrightarrow> sval w x = signed_take_bit (w - 1) (uint x)"
  by (simp add: sval_def min_absorb1)

lemma word_of_int_value: "w \<le> 128 \<Longrightarrow> take_bit w (uint (word_of_int n :: u128)) = take_bit w n"
  by (simp add: unsigned_of_int take_bit_take_bit min_absorb1)

lemma typed_positive:
  assumes "typed_module m cm"
  shows "has_type m e ty \<Longrightarrow> eval_safe m e \<Longrightarrow> 0 < bt_width ty"
proof (induction rule: has_type.induct)
  case (T_Sig s si)
  then show ?case using assms module_signal_in by (auto simp: typed_module_def sized_signal_def width_ok_def)
next
  case (T_MemRead mem info aw dw depth a)
  then show ?case using assms module_signal_in by (auto simp: typed_module_def sized_signal_def width_ok_def)
next
  case (T_Concat ps tys)
  then show ?case by (cases ps) (auto simp: list_all2_Cons1)
qed auto

definition lowers_value :: "lowering \<Rightarrow> nat \<Rightarrow> rmodule \<Rightarrow> compiled_module \<Rightarrow> sig_values \<Rightarrow> sig_memories \<Rightarrow> lane_state
    \<Rightarrow> expr \<Rightarrow> bit_type \<Rightarrow> bool" where
  "lowers_value lo i m cm V M st e ty \<longleftrightarrow> (snd (lower_raw_expr lo i cm e ty) = [] \<longrightarrow>
     eval_in st (fst (lower_raw_expr lo i cm e ty)) = uint (sem m V M e))"

lemma lower_raw_expr_value:
  assumes cx: "context_of lo i m cm" and link: "linked lo i V M st" and ok: "store_ok m V M" and addr: "small_addresses m"
  shows "has_type m e ty \<Longrightarrow> eval_safe m e \<Longrightarrow> lowers_value lo i m cm V M st e ty"
proof -
  have cm: "typed_module m cm" using cx by (simp add: context_of_def)
  note [simp] = lowers_value_def eval_in_def pe_width_def lower_raw_expr_ty unwrap_or_def lowered_type_eq [OF cm]
  note safe = eval_safe_width
  have fits: "take_bit (bt_width ty) (uint (sem m V M e)) = uint (sem m V M e)" if "has_type m e ty" "eval_safe m e" for e ty
    using sem_fits [OF that, of V M] by (metis uint_take_bit)
  show "has_type m e ty \<Longrightarrow> eval_safe m e \<Longrightarrow> lowers_value lo i m cm V M st e ty"
  proof (induction rule: has_type.induct)
    case (T_Lit ty v)
    then show ?case by (simp add: lval_encode_limbs uint_take_bit)
  next
    case (T_Sig s si)
    have ty: "has_type m (Sig s) (si_ty si)" using T_Sig(1) by (rule has_type.T_Sig)
    show ?case
      unfolding lowers_value_def
    proof
      assume none: "snd (lower_raw_expr lo i cm (Sig s) (si_ty si)) = []"
      obtain r ds where f: "find_signal lo i s cm = (r, ds)" by fastforce
      with none have "ds = []" by (auto split: option.splits)
      with find_signal_found [OF cx] f obtain j where j: "r = Some j" "lo_signal_map lo (i, s) = Some j" by blast
      then have "fst st j = uint (get_value V s)" using link by (simp add: linked_def)
      with f j ok T_Sig(1) ty show "eval_in st (fst (lower_raw_expr lo i cm (Sig s) (si_ty si))) = uint (sem m V M (Sig s))"
        by (simp add: uint_take_bit)
    qed
  next
    case (T_Not e ty)
    then show ?case using safe by (auto simp: uint_arith)
  next
    case (T_And l ty r)
    then show ?case using fits [OF T_And(1)] fits [OF T_And(2)] by (auto simp: uint_and take_bit_and)
  next
    case (T_Or l ty r)
    then show ?case using fits [OF T_Or(1)] fits [OF T_Or(2)] by (auto simp: uint_or take_bit_or)
  next
    case (T_Xor l ty r)
    then show ?case using fits [OF T_Xor(1)] fits [OF T_Xor(2)] by (auto simp: uint_xor take_bit_xor)
  next
    case (T_Add l ty r)
    then show ?case using safe [OF T_Add(1)] by (auto simp: uint_arith)
  next
    case (T_Sub l ty r)
    then show ?case using safe [OF T_Sub(1)] by (auto simp: uint_arith)
  next
    case (T_Mul l ty r)
    then show ?case using safe [OF T_Mul(1)] by (auto simp: uint_arith)
  next
    case (T_Eq l ty r)
    then show ?case using fits [OF T_Eq(1)] fits [OF T_Eq(2)] by (auto simp: word_uint_eq_iff)
  next
    case (T_Ne l ty r)
    then show ?case using fits [OF T_Ne(1)] fits [OF T_Ne(2)] by (auto simp: word_uint_eq_iff)
  next
    case (T_Lt l ty r)
    note a = fits [OF T_Lt(1)] fits [OF T_Lt(2)] safe [OF T_Lt(1)]
    have "0 < bt_width ty" using typed_positive [OF cm T_Lt(1)] T_Lt(5) by simp
    with T_Lt a show ?case by (auto simp: sval_signed word_less_def is_signed_def)
  next
    case (T_Mux c t ty e)
    have "sem m V M c \<noteq> 0 \<longleftrightarrow> odd (uint (sem m V M c))" if "eval_safe m c"
    proof -
      have "n \<noteq> 0 \<longleftrightarrow> odd n" if "n mod 2 = n" for n :: int using that by presburger
      from this [of "uint (sem m V M c)"] show ?thesis using fits [OF T_Mux(1) that] by (simp add: take_bit_eq_mod uint_0_iff)
    qed
    with T_Mux fits show ?case by (auto simp: Let_def case_prod_beta)
  next
    case (T_Slice e ty w lsb)
    then show ?case by (auto simp: uint_take_bit unsigned_drop_bit_eq bintr_uint)
  next
    case (T_Zext e ty w)
    have "take_bit w (uint (sem m V M e)) = uint (sem m V M e)" if "eval_safe m e"
      using fits [OF T_Zext(1) that] T_Zext(3) by (metis min.absorb2 take_bit_take_bit)
    with T_Zext show ?case by auto
  next
    case (T_Sext e ty w)
    have "0 < bt_width ty" using typed_positive [OF cm T_Sext(1)] T_Sext by simp
    with T_Sext safe [OF T_Sext(1)] show ?case
      by (auto simp: uint_take_bit sval_signed word_of_int_value)
  next
    case (T_Trunc e ty w)
    then show ?case by (auto simp: uint_take_bit)
  next
    case (T_Cast e ty sg)
    then show ?case using fits by auto
  next
    case (T_Concat ps tys)
    have types: "list_all2 (has_type m) ps tys" by (rule list_all2_mono [OF T_Concat(1)]) simp
    then have ty: "has_type m (EConcat ps) (uint_ty (sum_list (map bt_width tys)))" using T_Concat(2) by (rule has_type.T_Concat)
    show ?case
      unfolding lowers_value_def
    proof
      let ?E = "\<lambda>p. fst (lower_raw_expr lo i cm p (unwrap_or (lowered_type cm p) (uint_ty 1)))"
      let ?qs = "map (\<lambda>p. (sem m V M p, type_width m p)) ps"
      assume none: "snd (lower_raw_expr lo i cm (EConcat ps) (uint_ty (sum_list (map bt_width tys)))) = []"
      have parts: "(pe_value (fst st) (snd st) (?E q), pe_width (?E q)) = apfst uint (sem m V M q, type_width m q)
          \<and> take_bit (type_width m q) (sem m V M q) = sem m V M q" if q: "q \<in> set ps" for q
      proof -
        obtain k where "k < length ps" "q = ps ! k" using q by (auto simp: in_set_conv_nth)
        then have t: "has_type m q (tys ! k)" "eval_safe m q \<longrightarrow> lowers_value lo i m cm V M st q (tys ! k)"
          using T_Concat(1) by (auto simp: list_all2_conv_all_nth)
        moreover have "eval_safe m q" using T_Concat(3) q by simp
        moreover have "snd (lower_raw_expr lo i cm q (tys ! k)) = []" using none q t(1) by (auto simp: Let_def)
        ultimately show ?thesis using sem_fits [of m q "tys ! k"] by simp
      qed
      have "\<forall>(v, w) \<in> set ?qs. take_bit w v = v" using parts by auto
      moreover have "sum_list (map snd ?qs) \<le> 128" using T_Concat(3) by (simp add: comp_def)
      ultimately have "uint (concat_bits ?qs) = concat_value (rev (map (apfst uint) ?qs))" by (rule concat_bits_value)
      also have "map (apfst uint) ?qs = map (\<lambda>p. (pe_value (fst st) (snd st) (?E p), pe_width (?E p))) ps"
        using parts by (intro nth_equalityI) simp_all
      finally have "concat_value (rev (map (\<lambda>p. (pe_value (fst st) (snd st) (?E p), pe_width (?E p))) ps)) = uint (sem m V M (EConcat ps))"
        by simp
      moreover have "take_bit (sum_list (map bt_width tys)) (uint (sem m V M (EConcat ps))) = uint (sem m V M (EConcat ps))"
        using fits [OF ty T_Concat(3)] by simp
      ultimately show "eval_in st (fst (lower_raw_expr lo i cm (EConcat ps) (uint_ty (sum_list (map bt_width tys))))) = uint (sem m V M (EConcat ps))"
        by (simp add: Let_def comp_def del: sem.simps)
    qed
  next
    case (T_MemRead mem info aw dw depth a)
    have ty: "has_type m (EMemRead mem a) (si_ty info)" using T_MemRead by (intro has_type.T_MemRead)
    show ?case
      unfolding lowers_value_def
    proof
      assume none: "snd (lower_raw_expr lo i cm (EMemRead mem a) (si_ty info)) = []"
      obtain r ds where f: "find_memory lo i mem cm = (r, ds)" by fastforce
      with none have diags: "ds = []" "snd (lower_raw_expr lo i cm a (uint_ty aw)) = []"
        using T_MemRead(3) by (auto simp: case_prod_beta)
      with find_memory_found [OF cx] f obtain j where j: "r = Some j" "lo_memory_map lo (i, mem) = Some j" by blast
      let ?x = "sem m V M a"
      have "take_bit aw ?x = ?x" using sem_fits [OF T_MemRead(3)] T_MemRead(5) by simp
      moreover have "aw \<le> 64" using addr module_signal_in [OF T_MemRead(1)] T_MemRead(2) by (auto simp: small_addresses_def)
      ultimately have "take_bit 64 ?x = ?x" by (metis min.absorb2 take_bit_take_bit)
      then have "snd st j (uint ?x) = uint (memory_word M mem ?x)" using link j(2) by (simp add: linked_def)
      with f j diags T_MemRead(3-5) ty show "eval_in st (fst (lower_raw_expr lo i cm (EMemRead mem a) (si_ty info))) =
          uint (sem m V M (EMemRead mem a))"
        by (simp add: uint_take_bit case_prod_beta memory_word_def)
    qed
  qed
qed

end
