(* ===== verification/Packed_Lower_Design.thy ===== *)
theory Packed_Lower_Design
  imports Packed_Lower_Expr
begin

text \<open>
  Lowering a typed design: the contexts are modules of the design, the layouts stay as they were
  allocated, and every operation that is produced is well formed.
\<close>

section \<open>The contexts\<close>

definition contexts_in :: "compiled_design \<Rightarrow> instance_ctx list \<Rightarrow> bool" where
  "contexts_in d ctxs \<longleftrightarrow> (\<forall>ctx \<in> set ctxs. ix_module ctx \<in> set (cd_modules d))"

lemma find_module_in: "compiled_find_module d n = Some m \<Longrightarrow> m \<in> set (cd_modules d) \<and> cm_name m = n"
  by (auto simp: compiled_find_module_def find_Some_iff)

lemma add_instances_in:
  assumes "\<And>t path cs ds. t \<in> set (cd_modules d) \<Longrightarrow> \<not> cm_is_external t \<Longrightarrow> rec t path = Some (cs, ds) \<Longrightarrow>
      contexts_in d cs \<and> (\<forall>ctx \<in> set cs. \<not> cm_is_external (ix_module ctx))"
    and "add_instances rec d m path is = Some (cs, ds)"
  shows "contexts_in d cs \<and> (\<forall>ctx \<in> set cs. \<not> cm_is_external (ix_module ctx))"
  using assms(2)
proof (induction "is" arbitrary: cs ds)
  case (Cons i "is")
  show ?case
  proof (cases "compiled_find_module d (ci_module i)")
    case None
    with Cons show ?thesis by auto
  next
    case (Some t)
    show ?thesis
    proof (cases "cm_is_external t")
      case True
      with Some Cons show ?thesis by auto
    next
      case False
      with Some Cons.prems obtain c1 d1 c2 d2 where r: "rec t (path @ ''.'' @ ci_name i) = Some (c1, d1)"
        "add_instances rec d m path is = Some (c2, d2)" "cs = c1 @ c2" by (auto simp: bind_eq_Some)
      with assms(1) [OF _ False r(1)] find_module_in [OF Some] Cons.IH [OF r(2)] show ?thesis
        by (auto simp: contexts_in_def)
    qed
  qed
qed (simp add: contexts_in_def)

lemma add_context_in:
  "add_context n d m path = Some (cs, ds) \<Longrightarrow> m \<in> set (cd_modules d) \<Longrightarrow>
     contexts_in d cs \<and> (\<forall>ctx \<in> set cs. cm_is_external (ix_module ctx) \<longrightarrow> ix_module ctx = m)
     \<and> (\<exists>rest. cs = \<lparr>ix_path = path, ix_module = m\<rparr> # rest)"
proof (induction n arbitrary: m path cs ds)
  case (Suc n)
  from Suc.prems(1) obtain cs' where cs: "add_instances (add_context n d) d m path (cm_instances m) = Some (cs', ds)"
    "cs = \<lparr>ix_path = path, ix_module = m\<rparr> # cs'" by (auto simp: bind_eq_Some)
  have "contexts_in d c \<and> (\<forall>ctx \<in> set c. \<not> cm_is_external (ix_module ctx))"
    if t: "t \<in> set (cd_modules d)" "\<not> cm_is_external t" "add_context n d t p = Some (c, e)" for t p c e
    using Suc.IH [OF t(3,1)] t(2) by blast
  then have "contexts_in d cs' \<and> (\<forall>ctx \<in> set cs'. \<not> cm_is_external (ix_module ctx))"
    by (rule add_instances_in [OF _ cs(1)])
  with cs(2) Suc.prems(2) show ?case by (auto simp: contexts_in_def)
qed simp

text \<open>A ranked hierarchy is finite: the depth bound is not reached.\<close>

lemma add_instances_total:
  assumes "\<And>i t path. i \<in> set is \<Longrightarrow> compiled_find_module d (ci_module i) = Some t \<Longrightarrow> rec t path \<noteq> None"
  shows "add_instances rec d m path is \<noteq> None"
  using assms
proof (induction "is")
  case (Cons i "is")
  have "add_instances rec d m path is \<noteq> None" by (rule Cons.IH) (rule Cons.prems; simp)
  then obtain r where rest: "add_instances rec d m path is = Some r" by blast
  show ?case
  proof (cases "compiled_find_module d (ci_module i)")
    case (Some t)
    have "rec t (path @ ''.'' @ ci_name i) \<noteq> None" by (rule Cons.prems [OF _ Some]) simp
    then obtain r' where "rec t (path @ ''.'' @ ci_name i) = Some r'" by blast
    with rest Some show ?thesis by (simp split: prod.split)
  qed (simp add: rest)
qed simp

lemma add_context_total:
  assumes rank: "\<And>m i t. m \<in> set (cd_modules d) \<Longrightarrow> i \<in> set (cm_instances m) \<Longrightarrow> compiled_find_module d (ci_module i) = Some t \<Longrightarrow>
      rank t < rank m"
  shows "rank m < n \<Longrightarrow> m \<in> set (cd_modules d) \<Longrightarrow> add_context n d m path \<noteq> None"
proof (induction n arbitrary: m path)
  case (Suc n)
  have "add_instances (add_context n d) d m path (cm_instances m) \<noteq> None"
  proof (rule add_instances_total)
    fix i t p assume "i \<in> set (cm_instances m)" "compiled_find_module d (ci_module i) = Some t"
    with rank [OF Suc.prems(2) this] Suc.prems(1) find_module_in [of d "ci_module i" t] show "add_context n d t p \<noteq> None"
      by (intro Suc.IH) auto
  qed
  then show ?case by (auto simp: bind_eq_None_conv split: prod.splits)
qed simp

section \<open>Paths\<close>

definition dotted :: "string list \<Rightarrow> string" where
  "dotted ns = concat (map (\<lambda>n. CHR ''.'' # n) ns)"

definition plain :: "string list \<Rightarrow> bool" where
  "plain ns \<longleftrightarrow> (\<forall>n \<in> set ns. CHR ''.'' \<notin> set n)"

lemma dotted_simps [simp]: "dotted [] = []" "dotted (n # ns) = CHR ''.'' # n @ dotted ns"
  "dotted (ns @ ms) = dotted ns @ dotted ms"
  by (simp_all add: dotted_def)

lemma plain_simps [simp]: "plain []" "plain (n # ns) \<longleftrightarrow> CHR ''.'' \<notin> set n \<and> plain ns"
  "plain (ns @ ms) \<longleftrightarrow> plain ns \<and> plain ms"
  by (auto simp: plain_def)

lemma dotted_prefix: "CHR ''.'' \<notin> set n \<Longrightarrow> takeWhile (\<lambda>c. c \<noteq> CHR ''.'') (n @ dotted ns) = n"
proof -
  assume "CHR ''.'' \<notin> set n"
  then have "takeWhile (\<lambda>c. c \<noteq> CHR ''.'') n = n" by (auto simp: takeWhile_eq_all_conv)
  then show ?thesis by (cases ns) (simp_all add: takeWhile_tail)
qed

lemma dotted_inj: "plain ns \<Longrightarrow> plain ms \<Longrightarrow> dotted ns = dotted ms \<Longrightarrow> ns = ms"
proof (induction ns arbitrary: ms)
  case Nil
  then show ?case by (cases ms) auto
next
  case (Cons n ns)
  then obtain k ks where ms: "ms = k # ks" by (cases ms) auto
  with Cons.prems have eq: "n @ dotted ns = k @ dotted ks" by simp
  with dotted_prefix [of n ns] dotted_prefix [of k ks] Cons.prems ms have "n = k" by simp
  with Cons ms eq show ?case by simp
qed

fun module_at :: "compiled_design \<Rightarrow> compiled_module \<Rightarrow> string list \<Rightarrow> compiled_module option" where
  "module_at d m [] = Some m"
| "module_at d m (n # ns) =
     do { i \<leftarrow> List.find (\<lambda>i. ci_name i = n) (cm_instances m); t \<leftarrow> compiled_find_module d (ci_module i); module_at d t ns }"

lemma module_at_append: "module_at d m (ns @ ms) = Option.bind (module_at d m ns) (\<lambda>t. module_at d t ms)"
  by (induction ns arbitrary: m) (auto simp: Option.bind_eq_Some_conv split: Option.bind_split)

text \<open>Every context is at its path.\<close>

definition located :: "compiled_design \<Rightarrow> string \<Rightarrow> compiled_module \<Rightarrow> instance_ctx \<Rightarrow> bool" where
  "located d path m ctx \<longleftrightarrow> (\<exists>ns. plain ns \<and> ix_path ctx = path @ dotted ns \<and> module_at d m ns = Some (ix_module ctx))"

lemma add_instances_located:
  assumes "\<And>t p cs ds. t \<in> set (cd_modules d) \<Longrightarrow> rec t p = Some (cs, ds) \<Longrightarrow> \<forall>ctx \<in> set cs. located d p t ctx"
    and "add_instances rec d m path is = Some (cs, ds)"
  shows "\<forall>ctx \<in> set cs. \<exists>i \<in> set is. \<exists>t. compiled_find_module d (ci_module i) = Some t
      \<and> located d (path @ ''.'' @ ci_name i) t ctx"
  using assms(2)
proof (induction "is" arbitrary: cs ds)
  case (Cons i "is")
  show ?case
  proof (cases "compiled_find_module d (ci_module i)")
    case None
    with Cons show ?thesis by auto
  next
    case (Some t)
    show ?thesis
    proof (cases "cm_is_external t")
      case True
      with Some Cons show ?thesis by auto
    next
      case False
      with Some Cons.prems obtain c1 d1 c2 d2 where r: "rec t (path @ ''.'' @ ci_name i) = Some (c1, d1)"
        "add_instances rec d m path is = Some (c2, d2)" "cs = c1 @ c2" by (auto simp: bind_eq_Some)
      with assms(1) [OF _ r(1)] find_module_in [OF Some] Cons.IH [OF r(2)] Some show ?thesis by auto
    qed
  qed
qed simp

lemma find_distinct: "distinct (map f xs) \<Longrightarrow> x \<in> set xs \<Longrightarrow> List.find (\<lambda>y. f y = f x) xs = Some x"
  by (induction xs) force+

lemma add_context_located:
  assumes names: "names_ok d"
  shows "add_context n d m path = Some (cs, ds) \<Longrightarrow> m \<in> set (cd_modules d) \<Longrightarrow> \<forall>ctx \<in> set cs. located d path m ctx"
proof (induction n arbitrary: m path cs ds)
  case (Suc n)
  from Suc.prems(1) obtain cs' where cs: "add_instances (add_context n d) d m path (cm_instances m) = Some (cs', ds)"
    "cs = \<lparr>ix_path = path, ix_module = m\<rparr> # cs'" by (auto simp: bind_eq_Some)
  have "\<forall>ctx \<in> set c. located d p t ctx" if "t \<in> set (cd_modules d)" "add_context n d t p = Some (c, e)" for t p c e
    by (rule Suc.IH [OF that(2,1)])
  then have below: "\<forall>ctx \<in> set cs'. \<exists>i \<in> set (cm_instances m). \<exists>t. compiled_find_module d (ci_module i) = Some t
      \<and> located d (path @ ''.'' @ ci_name i) t ctx"
    by (rule add_instances_located [OF _ cs(1)])
  have "located d path m ctx" if "ctx \<in> set cs'" for ctx
  proof -
    obtain i t where i: "i \<in> set (cm_instances m)" "compiled_find_module d (ci_module i) = Some t"
      "located d (path @ ''.'' @ ci_name i) t ctx" using below \<open>ctx \<in> set cs'\<close> by blast
    then obtain ns where ns: "plain ns" "ix_path ctx = path @ ''.'' @ ci_name i @ dotted ns" "module_at d t ns = Some (ix_module ctx)"
      by (auto simp: located_def)
    have "CHR ''.'' \<notin> set (ci_name i)" "List.find (\<lambda>j. ci_name j = ci_name i) (cm_instances m) = Some i"
      using names Suc.prems(2) i(1) find_distinct [of ci_name "cm_instances m" i] by (auto simp: names_ok_def)
    with ns i(2) show ?thesis unfolding located_def by (intro exI [of _ "ci_name i # ns"]) simp
  qed
  moreover have "located d path m \<lparr>ix_path = path, ix_module = m\<rparr>" unfolding located_def by (intro exI [of _ "[]"]) simp
  ultimately show ?case by (simp add: cs(2))
qed simp

text \<open>A child context is found at its path, and holds the module of the instance.\<close>

definition children_ok :: "lowering \<Rightarrow> bool" where
  "children_ok lo \<longleftrightarrow> (\<forall>i j inst. i < length (lo_contexts lo) \<longrightarrow> inst \<in> set (cm_instances (ix_module (lo_contexts lo ! i))) \<longrightarrow>
     find_child_context lo i (ci_name inst) = Some j \<longrightarrow> j < length (lo_contexts lo)
       \<and> compiled_find_module (lo_design lo) (ci_module inst) = Some (ix_module (lo_contexts lo ! j)))"

lemma located_children:
  assumes names: "names_ok (lo_design lo)" and ctxs: "contexts_in (lo_design lo) (lo_contexts lo)"
    and at: "\<forall>ctx \<in> set (lo_contexts lo). located (lo_design lo) root m ctx"
  shows "children_ok lo"
  unfolding children_ok_def
proof (intro allI impI)
  fix i j inst
  let ?d = "lo_design lo" and ?C = "lo_contexts lo"
  assume i: "i < length ?C" "inst \<in> set (cm_instances (ix_module (?C ! i)))" "find_child_context lo i (ci_name inst) = Some j"
  then have j: "j < length ?C" "ix_path (?C ! j) = ix_path (?C ! i) @ ''.'' @ ci_name inst"
    using position_Some [of "\<lambda>ctx. ix_path ctx = ix_path (?C ! i) @ ''.'' @ ci_name inst" ?C j]
    by (simp_all add: find_child_context_def Let_def)
  obtain ns where ns: "plain ns" "ix_path (?C ! i) = root @ dotted ns" "module_at ?d m ns = Some (ix_module (?C ! i))"
    using bspec [OF at nth_mem [OF i(1)]] by (auto simp: located_def)
  obtain ms where ms: "plain ms" "ix_path (?C ! j) = root @ dotted ms" "module_at ?d m ms = Some (ix_module (?C ! j))"
    using bspec [OF at nth_mem [OF j(1)]] by (auto simp: located_def)
  have cm: "ix_module (?C ! i) \<in> set (cd_modules ?d)" using ctxs i(1) by (simp add: contexts_in_def)
  with names i(2) have n: "CHR ''.'' \<notin> set (ci_name inst)" "distinct (map ci_name (cm_instances (ix_module (?C ! i))))"
    by (auto simp: names_ok_def)
  have "ms = ns @ [ci_name inst]" by (rule dotted_inj) (use ms ns j n in simp_all)
  with ms(3) ns(3) find_distinct [OF n(2) i(2)] j(1)
  show "j < length ?C \<and> compiled_find_module ?d (ci_module inst) = Some (ix_module (?C ! j))"
    by (auto simp: module_at_append Option.bind_eq_Some_conv)
qed

section \<open>What the rest of the lowering keeps\<close>

definition kept :: "lowering \<Rightarrow> lowering \<Rightarrow> bool" where
  "kept lo lo' \<longleftrightarrow> lo_design lo' = lo_design lo \<and> lo_contexts lo' = lo_contexts lo \<and> lo_signals lo' = lo_signals lo
     \<and> lo_memories lo' = lo_memories lo \<and> lo_signal_map lo' = lo_signal_map lo \<and> lo_memory_map lo' = lo_memory_map lo
     \<and> lo_top_signal_indices lo' = lo_top_signal_indices lo \<and> lo_next_signal_offset lo' = lo_next_signal_offset lo
     \<and> lo_next_memory_offset lo' = lo_next_memory_offset lo"

lemma kept_refl [simp]: "kept lo lo" by (simp add: kept_def)

lemma kept_allocated: "kept lo lo' \<Longrightarrow> allocated lo' = allocated lo"
  by (simp add: kept_def allocated_def layouts_below_def keys_defs key_signal_def)

lemma kept_context: "kept lo lo' \<Longrightarrow> context_of lo' i m cm = context_of lo i m cm"
  using kept_allocated [of lo lo'] by (simp add: context_of_def kept_def)

lemma kept_signals: "kept lo lo' \<Longrightarrow> signals_of lo' p = signals_of lo p"
  by (simp add: kept_def signals_of_def)

text \<open>The operations that a lowering has produced.\<close>

definition produced :: "lowering \<Rightarrow> packed_op list" where
  "produced lo = map (\<lambda>a. Assign (fa_dst a) (fa_expr a)) (lo_assignments lo)
     @ map (\<lambda>r. CaptureReg (rr_signal r) (rr_next r) (rr_reset r)) (lo_registers lo) @ lo_memory_writes lo"

definition lowers :: "packed_program \<Rightarrow> lowering \<Rightarrow> lowering \<Rightarrow> bool" where
  "lowers p lo lo' \<longleftrightarrow> kept lo lo' \<and> (lo_diagnostics lo' = [] \<longrightarrow> lo_diagnostics lo = []
     \<and> ((\<forall>x \<in> set (produced lo). op_ok p x) \<longrightarrow> (\<forall>x \<in> set (produced lo'). op_ok p x)))"

lemma lowers_refl [simp]: "lowers p lo lo" by (simp add: lowers_def)

lemma lowers_trans: "lowers p a b \<Longrightarrow> lowers p b c \<Longrightarrow> lowers p a c"
  by (simp add: lowers_def kept_def)

lemma lowers_kept: "lowers p lo lo' \<Longrightarrow> kept lo lo'" by (simp add: lowers_def)

lemma lowers_push: "lowers p lo (push_diags ds lo)"
  by (simp add: lowers_def kept_def push_diags_def produced_def)

section \<open>Every step lowers\<close>

lemma lower_expr_typed:
  assumes "context_of lo i m cm" "signals_of lo p" "typed_expr m e" "lower_compiled_expr lo i cm e = (x, [])"
  shows "expr_ok p x \<and> pe_width x = bt_width (ce_ty e)"
  using lower_raw_expr_ok [OF assms(1,2), of "ce_expr e" "ce_ty e"] assms(3,4)
    lower_raw_expr_ty [of lo i cm "ce_expr e" "ce_ty e"]
  by (simp add: typed_expr_def lower_compiled_expr_def lowers_ok_def pe_width_def)

lemma signal_layout_width:
  assumes "allocated lo" "j < length (lo_signals lo)"
  shows "pl_width (ps_layout (lo_signals lo ! j)) = bt_width (pl_ty (ps_layout (lo_signals lo ! j)))"
    "width_ok (bt_width (pl_ty (ps_layout (lo_signals lo ! j))))"
proof -
  have "layout_ok (ps_layout (lo_signals lo ! j))"
    using assms nth_mem [OF assms(2)] by (simp add: allocated_def layouts_below_def)
  then show "pl_width (ps_layout (lo_signals lo ! j)) = bt_width (pl_ty (ps_layout (lo_signals lo ! j)))"
    "width_ok (bt_width (pl_ty (ps_layout (lo_signals lo ! j))))" by (metis layout_ok_def)+
qed

lemma lower_assignment_lowers:
  assumes cx: "context_of lo i m cm" and p: "signals_of lo p" and a: "a \<in> set (cm_assignments cm)"
  shows "lowers p lo (lower_assignment i cm a lo)"
proof -
  obtain r ds where f: "find_signal lo i (ca_dst a) cm = (r, ds)" by fastforce
  obtain x es where e: "lower_compiled_expr lo i cm (ca_expr a) = (x, es)" by fastforce
  show ?thesis
  proof (cases r)
    case None
    with f show ?thesis by (simp add: lower_assignment_def lowers_push)
  next
    case (Some d)
    have "op_ok p (Assign d x)" if nil: "ds = []" "es = []"
    proof -
      obtain si where si: "d < length (lo_signals lo)" "module_signal m (ca_dst a) = Some si"
        "pl_ty (ps_layout (lo_signals lo ! d)) = si_ty si" using find_signal_found [OF cx] f Some nil by blast
      have "typed_expr m (ca_expr a)" "si_ty si = ce_ty (ca_expr a)"
        using cx a si(2) by (auto simp: context_of_def typed_module_def)
      with lower_expr_typed [OF cx p this(1)] e nil si p cx signal_layout_width [of lo d] show ?thesis
        by (simp add: signals_of_def context_of_def)
    qed
    with f e Some show ?thesis
      by (auto simp: lower_assignment_def lowers_def kept_def push_assignment_def push_diags_def produced_def)
  qed
qed

lemma lower_register_lowers:
  assumes cx: "context_of lo i m cm" and p: "signals_of lo p" and r: "r \<in> set (cm_registers cm)"
  shows "lowers p lo (lower_register i cm r lo)"
proof -
  obtain s ds where f: "find_signal lo i (cr_signal r) cm = (s, ds)" by fastforce
  obtain x es where e: "lower_compiled_expr lo i cm (cr_next r) = (x, es)" by fastforce
  obtain rst fs where rs: "(case cr_reset r of None \<Rightarrow> (None, []) | Some x \<Rightarrow> lower_reset lo i cm r x) = (rst, fs)" by fastforce
  obtain clk gs where c: "find_signal lo i (cr_clock r) cm = (clk, gs)" by fastforce
  show ?thesis
  proof (cases s)
    case None
    with f show ?thesis by (simp add: lower_register_def lowers_push)
  next
    case (Some d)
    have "op_ok p (CaptureReg d x rst)" if nil: "ds = []" "es = []" "fs = []"
    proof -
      obtain si where si: "d < length (lo_signals lo)" "module_signal m (cr_signal r) = Some si"
        "pl_ty (ps_layout (lo_signals lo ! d)) = si_ty si" using find_signal_found [OF cx] f Some nil by blast
      have "typed_expr m (cr_next r)" "si_ty si = ce_ty (cr_next r)"
        using cx r si(2) by (auto simp: context_of_def typed_module_def)
      moreover have "\<forall>y. rst = Some y \<longrightarrow> pr_signal y < length (lo_signals lo)"
      proof (intro allI impI)
        fix y assume y: "rst = Some y"
        with rs obtain z where z: "cr_reset r = Some z" "lower_reset lo i cm r z = (Some y, [])"
          using nil(3) by (auto split: option.splits)
        obtain k hs where k: "find_signal lo i (rst_signal z) cm = (k, hs)" by fastforce
        with z have "hs = []" "k = Some (pr_signal y)" by (auto simp: lower_reset_def split: option.splits)
        with k find_signal_found [OF cx] show "pr_signal y < length (lo_signals lo)" by blast
      qed
      ultimately show ?thesis using lower_expr_typed [OF cx p, of "cr_next r" x] e nil si p cx signal_layout_width [of lo d]
        by (auto simp: signals_of_def context_of_def split: option.split)
    qed
    with f e rs c Some show ?thesis
      by (auto simp: lower_register_def lowers_def kept_def push_diags_def produced_def)
  qed
qed

lemma lower_write_lowers:
  assumes cx: "context_of lo i m cm" and p: "signals_of lo p" and w: "w \<in> set (cm_memory_writes cm)"
  shows "lowers p lo (lower_write i cm w lo)"
proof -
  obtain s ds where f: "find_memory lo i (cmw_mem w) cm = (s, ds)" by fastforce
  obtain en es where en: "lower_compiled_expr lo i cm (cmw_enable w) = (en, es)" by fastforce
  obtain a fs where a: "lower_compiled_expr lo i cm (cmw_addr w) = (a, fs)" by fastforce
  obtain x gs where x: "lower_compiled_expr lo i cm (cmw_data w) = (x, gs)" by fastforce
  obtain clk hs where c: "find_signal lo i (cmw_clock w) cm = (clk, hs)" by fastforce
  show ?thesis
  proof (cases s)
    case None
    with f show ?thesis by (simp add: lower_write_def lower_memory_write_def lowers_push)
  next
    case (Some mem)
    have "op_ok p (MemoryWrite mem en a x)" if nil: "ds = []" "es = []" "fs = []" "gs = []"
    proof -
      obtain si where si: "mem < length (lo_memories lo)" "module_signal m (cmw_mem w) = Some si"
        "pl_ty (pm_data_layout (lo_memories lo ! mem)) = si_ty si" using find_memory_found [OF cx] f Some nil by blast
      have t: "typed_expr m (cmw_enable w)" "typed_expr m (cmw_addr w)" "typed_expr m (cmw_data w)" "si_ty si = ce_ty (cmw_data w)"
        using cx w si(2) by (auto simp: context_of_def typed_module_def)
      have "layout_ok (pm_data_layout (lo_memories lo ! mem))"
        using cx si(1) by (auto simp: context_of_def allocated_def layouts_below_def)
      with si t(4) p nil lower_expr_typed [OF cx p t(1), of en] lower_expr_typed [OF cx p t(2), of a]
        lower_expr_typed [OF cx p t(3), of x] en a x show ?thesis
        by (simp add: signals_of_def layout_ok_def)
    qed
    with f en a x c Some show ?thesis
      by (auto simp: lower_write_def lower_memory_write_def lowers_def kept_def push_diags_def produced_def)
  qed
qed


text \<open>An optional step lowers when it succeeds and lowers.\<close>

definition step_lowers :: "packed_program \<Rightarrow> lowering \<Rightarrow> lowering option \<Rightarrow> bool" where
  "step_lowers p lo r \<longleftrightarrow> (\<exists>lo'. r = Some lo' \<and> lowers p lo lo')"

lemma step_lowers_Some [simp]: "step_lowers p lo (Some lo') \<longleftrightarrow> lowers p lo lo'"
  by (simp add: step_lowers_def)

lemma signal_expr_found: "j < length (lo_signals lo) \<Longrightarrow> signal_expr lo j = Some (PExpr (PSignal j) (pl_ty (ps_layout (lo_signals lo ! j))))"
  by (simp add: signal_expr_def vec_get_def)

lemma connect_lowers:
  assumes cx: "context_of lo i m cm" "context_of lo j m' cm'" and p: "signals_of lo p"
    and types: "\<And>si si'. module_signal m s = Some si \<Longrightarrow> module_signal m' s' = Some si' \<Longrightarrow> si_ty si = si_ty si'"
  shows "step_lowers p lo (connect (find_signal lo i s cm) (find_signal lo j s' cm') lo)"
proof -
  obtain r ds where f: "find_signal lo i s cm = (r, ds)" by fastforce
  obtain r' ds' where f': "find_signal lo j s' cm' = (r', ds')" by fastforce
  show ?thesis
  proof (cases "ds = [] \<and> ds' = []")
    case True
    obtain d si where d: "r = Some d" "d < length (lo_signals lo)" "module_signal m s = Some si"
      "pl_ty (ps_layout (lo_signals lo ! d)) = si_ty si" using find_signal_found [OF cx(1)] f True by blast
    obtain k si' where k: "r' = Some k" "k < length (lo_signals lo)" "module_signal m' s' = Some si'"
      "pl_ty (ps_layout (lo_signals lo ! k)) = si_ty si'" using find_signal_found [OF cx(2)] f' True by blast
    have al: "allocated lo" using cx(1) by (simp add: context_of_def)
    have "signal_expr lo k = Some (PExpr (PSignal k) (si_ty si'))" using signal_expr_found [OF k(2)] k(4) by simp
    moreover have "op_ok p (Assign d (PExpr (PSignal k) (si_ty si')))"
      using d k p types [OF d(3) k(3)] signal_layout_width [OF al d(2)] by (simp add: signals_of_def pe_width_def)
    moreover have "lowers p lo (push_assignment d e (push_diags [] lo))" if "op_ok p (Assign d e)" for e
      using that by (simp add: push_diags_def lowers_def kept_def push_assignment_def produced_def)
    ultimately show ?thesis using f f' True d(1) k(1) by (simp add: connect_def Let_def del: op_ok.simps)
  next
    case False
    then have "r = None \<or> r' = None" using f f' by (auto simp: find_signal_def split: option.splits)
    then show ?thesis using f f' lowers_push by (auto simp: connect_def Let_def split: option.split)
  qed
qed

lemma lower_connection_lowers:
  assumes cx: "context_of lo i m cm" "context_of lo j m' cm'" and p: "signals_of lo p"
    and types: "\<And>port si. List.find (\<lambda>si. si_name si = cc_port c) (cm_signals cm') = Some port \<Longrightarrow>
      compiled_signal cm (cc_signal c) = Some si \<Longrightarrow> si_ty si = si_ty port"
  shows "step_lowers p lo (lower_connection i cm j cm' c lo)"
proof (cases "List.find (\<lambda>si. si_name si = cc_port c) (cm_signals cm')")
  case None
  then show ?thesis by (simp add: lower_connection_def)
next
  case (Some port)
  have t: "typed_module m cm" "typed_module m' cm'" using cx by (simp_all add: context_of_def)
  have "port \<in> set (m_signals m')" using Some t(2) by (auto simp: typed_module_def dest: find_Some_in)
  then have "module_signal m' (si_handle port) = Some port"
    using t(2) signals_wf_lookup by (simp add: typed_module_def)
  with types [OF Some] typed_module_signal [OF t(1)]
  have "si_ty si = si_ty si'" if "module_signal m (cc_signal c) = Some si" "module_signal m' (si_handle port) = Some si'" for si si'
    using that by simp
  then have "step_lowers p lo (connect (find_signal lo j (si_handle port) cm') (find_signal lo i (cc_signal c) cm) lo)"
    "step_lowers p lo (connect (find_signal lo i (cc_signal c) cm) (find_signal lo j (si_handle port) cm') lo)"
    by (intro connect_lowers [OF cx(2,1) p] connect_lowers [OF cx p]; metis)+
  with Some show ?thesis by (simp add: lower_connection_def Let_def split: port_direction.split)
qed

text \<open>Running steps one after the other; what a step needs is kept by the steps before it.\<close>

lemma kept_trans: "kept a b \<Longrightarrow> kept b c \<Longrightarrow> kept a c" by (simp add: kept_def)

lemma exec_all_lowers:
  assumes "\<And>x lo. x \<in> set xs \<Longrightarrow> kept lo0 lo \<Longrightarrow> step_lowers p lo (f x lo)"
    and "kept lo0 lo"
  shows "step_lowers p lo (exec_all f xs lo)"
  using assms
proof (induction xs arbitrary: lo)
  case (Cons x xs)
  then obtain lo1 where lo1: "f x lo = Some lo1" "lowers p lo lo1" by (force simp: step_lowers_def)
  have "step_lowers p lo1 (exec_all f xs lo1)"
    using Cons kept_trans [OF Cons.prems(2) lowers_kept [OF lo1(2)]] by simp
  with lo1 show ?case by (auto simp: step_lowers_def intro: lowers_trans)
qed simp

lemma fold_lowers:
  assumes "\<And>x lo. x \<in> set xs \<Longrightarrow> kept lo0 lo \<Longrightarrow> lowers p lo (f x lo)"
    and "kept lo0 lo"
  shows "lowers p lo (fold f xs lo)"
  using assms
proof (induction xs arbitrary: lo)
  case (Cons x xs)
  have "lowers p lo (f x lo)" using Cons.prems by simp
  moreover have "lowers p (f x lo) (fold f xs (f x lo))"
    using Cons kept_trans [OF Cons.prems(2) lowers_kept [OF calculation]] by simp
  ultimately show ?case by (auto intro: lowers_trans)
qed simp

section \<open>Lowering all contexts\<close>

definition flattened :: "lowering \<Rightarrow> bool" where
  "flattened lo \<longleftrightarrow> allocated lo \<and> typed_design (lo_design lo) \<and> contexts_in (lo_design lo) (lo_contexts lo) \<and> children_ok lo"

lemma kept_flattened: "kept lo lo' \<Longrightarrow> flattened lo' = flattened lo"
  using kept_allocated [of lo lo'] by (simp add: flattened_def kept_def children_ok_def find_child_context_def)

lemma flattened_context:
  assumes "flattened lo" "i < length (lo_contexts lo)"
  shows "\<exists>m. context_of lo i m (ix_module (lo_contexts lo ! i))"
proof -
  have "ix_module (lo_contexts lo ! i) \<in> set (cd_modules (lo_design lo))" using assms by (simp add: flattened_def contexts_in_def)
  with assms show ?thesis by (auto simp: flattened_def typed_design_def context_of_def)
qed

lemma kept_signals_of: "kept lo lo' \<Longrightarrow> signals_of lo p \<Longrightarrow> signals_of lo' p"
  by (simp add: kept_signals)

lemma typed_connection:
  assumes "typed_design d" "cm \<in> set (cd_modules d)" "inst \<in> set (cm_instances cm)"
    "compiled_find_module d (ci_module inst) = Some t" "c \<in> set (ci_connections inst)"
    "List.find (\<lambda>si. si_name si = cc_port c) (cm_signals t) = Some port" "compiled_signal cm (cc_signal c) = Some si"
  shows "si_ty si = si_ty port"
proof -
  note conn = assms(1) [unfolded typed_design_def, THEN conjunct2, rule_format, OF assms(2,3,4,5,6,7)]
  show ?thesis by (rule conn)
qed

lemma lower_instance_lowers:
  assumes lo: "flattened lo" and p: "signals_of lo p" and i: "i < length (lo_contexts lo)" "cm = ix_module (lo_contexts lo ! i)"
    and inst: "inst \<in> set (cm_instances cm)"
  shows "step_lowers p lo (lower_instance i cm inst lo)"
proof (cases "find_child_context lo i (ci_name inst)")
  case None
  then show ?thesis by (simp add: lower_instance_def)
next
  case (Some j)
  with lo i inst have j: "j < length (lo_contexts lo)"
    "compiled_find_module (lo_design lo) (ci_module inst) = Some (ix_module (lo_contexts lo ! j))"
    by (simp_all add: flattened_def children_ok_def)
  let ?t = "ix_module (lo_contexts lo ! j)"
  obtain m where m: "context_of lo i m cm" using flattened_context [OF lo i(1)] i(2) by blast
  obtain m' where m': "context_of lo j m' ?t" using flattened_context [OF lo j(1)] by blast
  have cm: "cm \<in> set (cd_modules (lo_design lo))" using lo i by (simp add: flattened_def contexts_in_def)
  have "step_lowers p lo (exec_all (lower_connection i cm j ?t) (ci_connections inst) lo)"
  proof (rule exec_all_lowers [OF _ kept_refl])
    fix c lo' assume c: "c \<in> set (ci_connections inst)" and kept: "kept lo lo'"
    have "typed_design (lo_design lo)" using lo by (simp add: flattened_def)
    note types = typed_connection [OF this cm inst j(2) c]
    have "context_of lo' i m cm" "context_of lo' j m' ?t" using kept_context [OF kept] m m' by simp_all
    from lower_connection_lowers [OF this kept_signals_of [OF kept p] types]
    show "step_lowers p lo' (lower_connection i cm j ?t c lo')" .
  qed
  with Some j show ?thesis by (simp add: lower_instance_def)
qed

lemma step_lowers_bind:
  "step_lowers p lo r \<Longrightarrow> (\<And>lo1. lowers p lo lo1 \<Longrightarrow> lowers p lo1 (f lo1)) \<Longrightarrow>
     step_lowers p lo (do { lo1 \<leftarrow> r; Some (f lo1) })"
  by (force simp: step_lowers_def intro: lowers_trans)

lemma lower_context_lowers:
  assumes lo: "flattened lo" and p: "signals_of lo p" and i: "i < length (lo_contexts lo)" "ctx = lo_contexts lo ! i"
  shows "step_lowers p lo (lower_context (i, ctx) lo)"
proof -
  let ?cm = "ix_module ctx"
  obtain m where m: "context_of lo i m ?cm" using flattened_context [OF lo i(1)] i(2) by blast
  have cx: "context_of x i m ?cm" and sg: "signals_of x p" if "kept lo x" for x
    using m kept_context [OF that] kept_signals_of [OF that p] by simp_all
  define lo1 where "lo1 = fold (lower_assignment i ?cm) (cm_assignments ?cm) lo"
  have one: "lowers p lo lo1" unfolding lo1_def
    by (rule fold_lowers [OF _ kept_refl]) (rule lower_assignment_lowers [OF cx sg])
  have two: "step_lowers p lo1 (exec_all (lower_instance i ?cm) (cm_instances ?cm) lo1)"
  proof (rule exec_all_lowers [OF _ lowers_kept [OF one]])
    fix inst lo' assume "inst \<in> set (cm_instances ?cm)" and kept: "kept lo lo'"
    moreover have "lo_contexts lo' = lo_contexts lo" using kept by (simp add: kept_def)
    ultimately show "step_lowers p lo' (lower_instance i ?cm inst lo')"
      using i lo by (intro lower_instance_lowers) (simp_all add: kept_flattened [OF kept] kept_signals_of [OF kept p])
  qed
  have three: "lowers p lo2 (fold (lower_write i ?cm) (cm_memory_writes ?cm) (fold (lower_register i ?cm) (cm_registers ?cm) lo2))"
    if "lowers p lo1 lo2" for lo2
  proof (rule lowers_trans)
    have kept: "kept lo lo2" by (rule kept_trans [OF lowers_kept [OF one] lowers_kept [OF that]])
    show "lowers p lo2 (fold (lower_register i ?cm) (cm_registers ?cm) lo2)"
      by (rule fold_lowers [OF _ kept]) (rule lower_register_lowers [OF cx sg])
    from kept_trans [OF kept lowers_kept [OF this]]
    show "lowers p (fold (lower_register i ?cm) (cm_registers ?cm) lo2)
      (fold (lower_write i ?cm) (cm_memory_writes ?cm) (fold (lower_register i ?cm) (cm_registers ?cm) lo2))"
      by (rule fold_lowers [rotated]) (rule lower_write_lowers [OF cx sg])
  qed
  have "step_lowers p lo1 (do { lo2 \<leftarrow> exec_all (lower_instance i ?cm) (cm_instances ?cm) lo1;
      Some (fold (lower_write i ?cm) (cm_memory_writes ?cm) (fold (lower_register i ?cm) (cm_registers ?cm) lo2)) })"
    by (rule step_lowers_bind [OF two three])
  with lowers_trans [OF one] show ?thesis by (auto simp: lower_context_def Let_def lo1_def [symmetric] step_lowers_def)
qed

lemma lower_contexts_lowers:
  assumes lo: "flattened lo" and p: "signals_of lo p"
  shows "step_lowers p lo (lower_contexts lo)"
  unfolding lower_contexts_def
proof (rule exec_all_lowers [OF _ kept_refl])
  fix ic lo' assume ic: "ic \<in> set (enumerate 0 (lo_contexts lo))" and kept: "kept lo lo'"
  define i ctx where "i = fst ic" and "ctx = snd ic"
  with ic have x: "ic = (i, ctx)" "i < length (lo_contexts lo)" "ctx = lo_contexts lo ! i" by (auto simp: in_set_enumerate_eq)
  moreover have "lo_contexts lo' = lo_contexts lo" using kept by (simp add: kept_def)
  ultimately show "step_lowers p lo' (lower_context ic lo')"
    using lower_context_lowers [of lo' p i ctx] lo kept_flattened [OF kept] kept_signals_of [OF kept p] by simp
qed

end
