(* ===== verification/Packed_Lower_Schedule.thy ===== *)
theory Packed_Lower_Schedule
  imports Packed_Lower_Design
begin

text \<open>
  Scheduling of the flat assignments: the level search always returns, every assignment is in the
  schedule, and the schedule of acyclic assignments with one driver for each signal is ordered.
\<close>

section \<open>The assignment of a signal\<close>

lemma dst_to_assignment_snoc:
  "dst_to_assignment (as @ [a]) = (dst_to_assignment as)(fa_dst a \<mapsto> length as)"
  by (simp add: dst_to_assignment_def enumerate_append_eq)

lemma dst_to_assignment_Some:
  "dst_to_assignment as d = Some i \<Longrightarrow> i < length as \<and> fa_dst (as ! i) = d"
proof (induction as arbitrary: i rule: rev_induct)
  case (snoc a as)
  then show ?case by (auto simp: dst_to_assignment_snoc nth_append split: if_splits)
qed (simp add: dst_to_assignment_def)

lemma dst_to_assignment_dom: "i < length as \<Longrightarrow> \<exists>j. dst_to_assignment as (fa_dst (as ! i)) = Some j"
proof (induction as arbitrary: i rule: rev_induct)
  case (snoc a as)
  then show ?case by (auto simp: dst_to_assignment_snoc nth_append less_Suc_eq)
qed simp

text \<open>The order in which a set of signals is iterated is some list of its elements.\<close>

definition lists_sets :: "(nat set \<Rightarrow> nat list) \<Rightarrow> bool" where
  "lists_sets ord \<longleftrightarrow> (\<forall>S. finite S \<longrightarrow> set (ord S) = S)"

lemma finite_signal_deps [simp]: "finite (pe_signal_deps e)"
proof (induction e)
  case (PExpr k ty)
  then show ?case by (cases k) auto
qed

definition assignment_deps :: "(nat set \<Rightarrow> nat list) \<Rightarrow> flat_assignment list \<Rightarrow> nat \<Rightarrow> nat list" where
  "assignment_deps ord as i =
     filter (\<lambda>d. d \<noteq> i) (List.map_filter (dst_to_assignment as) (ord (pe_signal_deps (fa_expr (as ! i)))))"

lemma assignment_deps_below: "j \<in> set (assignment_deps ord as i) \<Longrightarrow> j < length as \<and> j \<noteq> i"
  using dst_to_assignment_Some by (auto simp: assignment_deps_def List.map_filter_def)

section \<open>The search returns\<close>

lemma assignment_level_total:
  "visiting \<subseteq> {..<length as} \<Longrightarrow> i < length as \<Longrightarrow> length as < n + card visiting \<Longrightarrow>
     assignment_level n ord as (dst_to_assignment as) visiting i memo \<noteq> None"
proof (induction n arbitrary: visiting i memo)
  case 0
  then show ?case using card_mono [OF finite_lessThan 0(1)] by simp
next
  case (Suc n)
  show ?case
  proof (cases "memo i = None \<and> i \<notin> visiting")
    case True
    have fin: "finite visiting" using Suc.prems(1) finite_subset by blast
    have "\<forall>d \<in> set (assignment_deps ord as i). \<forall>memo.
        assignment_level n ord as (dst_to_assignment as) (insert i visiting) d memo \<noteq> None"
    proof (intro ballI allI)
      fix d memo assume "d \<in> set (assignment_deps ord as i)"
      with assignment_deps_below [OF this] Suc.prems True fin
      show "assignment_level n ord as (dst_to_assignment as) (insert i visiting) d memo \<noteq> None"
        by (intro Suc.IH) auto
    qed
    from level_max_total [OF this, of 0 memo] obtain l m where
      "level_max (assignment_level n ord as (dst_to_assignment as) (insert i visiting)) (assignment_deps ord as i) 0 memo = Some (l, m)"
      by auto
    with True show ?thesis by (simp add: assignment_deps_def)
  qed (auto split: option.split)
qed

lemma concat_filter_nonempty [simp]: "concat (filter (\<lambda>xs. xs \<noteq> []) xss) = concat xss"
  by (induction xss) auto

definition assign_op :: "flat_assignment \<Rightarrow> packed_op" where
  "assign_op a = Assign (fa_dst a) (fa_expr a)"

lemma schedule_assignments_total:
  "\<exists>ps. schedule_assignments ord as = Some ps \<and> set (concat ps) = assign_op ` set as"
proof -
  let ?rec = "assignment_level (Suc (length as)) ord as (dst_to_assignment as) {}"
  let ?g = "\<lambda>i. Assign (fa_dst (as ! i)) (fa_expr (as ! i))"
  have "?rec i memo \<noteq> None" if "i < length as" for i memo
    using assignment_level_total [of "{}" as i "Suc (length as)" ord memo] that by (simp del: assignment_level.simps)
  then have "\<forall>i \<in> set [0..<length as]. \<forall>memo. ?rec i memo \<noteq> None" by simp
  from place_all_total [OF this, of ?g Map.empty "[]"] obtain bs where
    bs: "place_all ?rec ?g [0..<length as] Map.empty [] = Some bs" by blast
  have "?g ` set [0..<length as] = assign_op ` set as"
  proof -
    have "set as = (!) as ` set [0..<length as]" by (metis map_nth list.set_map)
    then show ?thesis by (simp only: image_image assign_op_def)
  qed
  with place_all_set [OF bs] have "set (concat bs) = assign_op ` set as" by (simp del: set_concat)
  with bs show ?thesis by (simp add: schedule_assignments_def del: set_concat assignment_level.simps)
qed

section \<open>Acyclic assignments are ordered\<close>

definition acyclic_assignments :: "flat_assignment list \<Rightarrow> bool" where
  "acyclic_assignments as \<longleftrightarrow> distinct (map fa_dst as) \<and> (\<exists>rank :: nat \<Rightarrow> nat. \<forall>i < length as. \<forall>j < length as.
     fa_dst (as ! j) \<in> pe_signal_deps (fa_expr (as ! i)) \<longrightarrow> rank j < rank i)"

lemma dst_to_assignment_distinct:
  assumes "distinct (map fa_dst as)" "i < length as"
  shows "dst_to_assignment as (fa_dst (as ! i)) = Some i"
proof -
  obtain j where j: "dst_to_assignment as (fa_dst (as ! i)) = Some j" using dst_to_assignment_dom [OF assms(2)] by blast
  then have "j < length as" "fa_dst (as ! j) = fa_dst (as ! i)" using dst_to_assignment_Some by blast+
  with assms nth_eq_iff_index_eq [of "map fa_dst as" j i] j show ?thesis by simp
qed

lemma assignment_level_finds:
  fixes rank :: "nat \<Rightarrow> nat"
  assumes rank: "\<And>i j. i < length as \<Longrightarrow> j \<in> set (assignment_deps ord as i) \<Longrightarrow> rank j < rank i"
  shows "visiting \<subseteq> {..<length as} \<Longrightarrow> \<forall>v \<in> visiting. rank i < rank v \<Longrightarrow> i < length as \<Longrightarrow> length as < n + card visiting \<Longrightarrow>
     finds_level (assignment_deps ord as) rank (assignment_level n ord as (dst_to_assignment as) visiting) i"
proof (induction n arbitrary: visiting i)
  case 0
  then show ?case using card_mono [OF finite_lessThan 0(1)] by simp
next
  case (Suc n)
  have i: "i \<notin> visiting" using Suc.prems(2) by blast
  have fin: "finite visiting" using Suc.prems(1) finite_subset by blast
  show ?case
  proof (rule finds_level_step)
    fix d assume d: "d \<in> set (assignment_deps ord as i)"
    with rank Suc.prems(3) show below: "rank d < rank i" by simp
    show "finds_level (assignment_deps ord as) rank (assignment_level n ord as (dst_to_assignment as) (insert i visiting)) d"
      by (rule Suc.IH) (use assignment_deps_below [OF d] Suc.prems below i fin in auto)
  qed (use i in \<open>simp add: assignment_deps_def cong: option.case_cong\<close>)
qed

lemma stream_assigns_filter [simp]: "stream_assigns (filter (\<lambda>ops. ops \<noteq> []) ps) = stream_assigns ps"
  by (simp add: stream_assigns_def)

lemma stream_assigns_Nil: "stream_assigns ([] # ps) = stream_assigns ps"
  by (simp add: stream_assigns_def)

lemma stream_assigns_Cons: "stream_assigns (ops # filter (\<lambda>ops. ops \<noteq> []) ps) = stream_assigns (ops # ps)"
  by (simp add: stream_assigns_def)

lemma ordered_comb_filter: "ordered_comb (filter (\<lambda>ops. ops \<noteq> []) ps) = ordered_comb ps"
  by (induction ps) (simp_all add: stream_assigns_Cons)

text \<open>Buckets by a level above the levels of the dependencies.\<close>

lemma buckets_ordered:
  fixes L :: "nat \<Rightarrow> nat"
  assumes dist: "distinct (map fa_dst as)"
    and up: "\<And>i j. i < length as \<Longrightarrow> j < length as \<Longrightarrow> fa_dst (as ! j) \<in> pe_signal_deps (fa_expr (as ! i)) \<Longrightarrow> L j < L i"
  shows "ordered_comb (map (\<lambda>l. map (\<lambda>i. Assign (fa_dst (as ! i)) (fa_expr (as ! i))) (filter (\<lambda>i. L i = l) [0..<length as])) [k..<N])"
proof (induction "N - k" arbitrary: k)
  case (Suc n)
  let ?d = "\<lambda>i. fa_dst (as ! i)"
  let ?B = "\<lambda>l. map (\<lambda>i. Assign (?d i) (fa_expr (as ! i))) (filter (\<lambda>i. L i = l) [0..<length as])"
  have k: "k < N" "[k..<N] = k # [Suc k..<N]" using Suc.hyps(2) by (simp_all add: upt_conv_Cons)
  have inj: "i < length as \<Longrightarrow> j < length as \<Longrightarrow> ?d i = ?d j \<Longrightarrow> i = j" for i j
    using dist nth_eq_iff_index_eq [of "map fa_dst as" i j] by simp
  have assigns: "concat (map op_assigns (?B l)) = map ?d (filter (\<lambda>i. L i = l) [0..<length as])" for l
    by (simp add: comp_def concat_map_singleton)
  have all: "stream_assigns (map ?B [a..<N]) = ?d ` {i. i < length as \<and> a \<le> L i \<and> L i < N}" for a
    by (auto simp: stream_assigns_def image_iff)
  have "\<forall>x \<in> set (?B k). op_reads_none (stream_assigns (map ?B [k..<N])) x"
    unfolding all using up by (fastforce simp: disjoint_iff)
  moreover have "distinct (concat (map op_assigns (?B k)))"
    unfolding assigns distinct_map by (auto simp: inj_on_def inj)
  moreover have "set (concat (map op_assigns (?B k))) \<inter> stream_assigns (map ?B [Suc k..<N]) = {}"
    unfolding assigns all using inj by fastforce
  moreover have "ordered_comb (map ?B [Suc k..<N])" using Suc.hyps(2) by (intro Suc.hyps(1)) simp
  ultimately show ?case unfolding k(2) list.map ordered_comb.simps by blast
qed simp

lemma schedule_ordered:
  assumes ord: "lists_sets ord" and as: "acyclic_assignments as"
  shows "\<exists>ps. schedule_assignments ord as = Some ps \<and> ordered_comb ps"
proof -
  obtain rank :: "nat \<Rightarrow> nat" where dist: "distinct (map fa_dst as)"
    and rank: "\<And>i j. i < length as \<Longrightarrow> j < length as \<Longrightarrow> fa_dst (as ! j) \<in> pe_signal_deps (fa_expr (as ! i)) \<Longrightarrow> rank j < rank i"
    using as unfolding acyclic_assignments_def by blast
  have deps: "set (assignment_deps ord as i) = {j. j < length as \<and> j \<noteq> i \<and> fa_dst (as ! j) \<in> pe_signal_deps (fa_expr (as ! i))}" for i
    using ord dst_to_assignment_Some dst_to_assignment_distinct [OF dist]
    by (fastforce simp: assignment_deps_def List.map_filter_def lists_sets_def image_iff)
  let ?rec = "assignment_level (Suc (length as)) ord as (dst_to_assignment as) {}"
  have "finds_level (assignment_deps ord as) rank ?rec i" if "i < length as" for i
    by (rule assignment_level_finds) (use rank that in \<open>auto simp: deps\<close>)
  then have "\<forall>i \<in> set [0..<length as]. finds_level (assignment_deps ord as) rank ?rec i" by simp
  from place_all_buckets [OF this, of "\<lambda>i. Assign (fa_dst (as ! i)) (fa_expr (as ! i))"] obtain L N where
    run: "place_all ?rec (\<lambda>i. Assign (fa_dst (as ! i)) (fa_expr (as ! i))) [0..<length as] Map.empty [] =
      Some (map (\<lambda>l. map (\<lambda>i. Assign (fa_dst (as ! i)) (fa_expr (as ! i))) (filter (\<lambda>i. L i = l) [0..<length as])) [0..<N])"
    and L: "\<forall>i \<in> set [0..<length as]. \<forall>d \<in> set (assignment_deps ord as i). L d < L i" by blast
  have "L j < L i" if "i < length as" "j < length as" "fa_dst (as ! j) \<in> pe_signal_deps (fa_expr (as ! i))" for i j
    using L that rank [OF that] by (auto simp: deps)
  from buckets_ordered [OF dist this, where k = 0 and N = N] run show ?thesis
    by (simp add: schedule_assignments_def ordered_comb_filter del: assignment_level.simps)
qed

end
