(* ===== verification/Packed_Lower_Program.thy ===== *)
theory Packed_Lower_Program
  imports Packed_Lower_Schedule
begin

text \<open>
  The whole lowering: on a typed design it returns, and a program it returns is well formed, so
  that the packed simulator runs it.
\<close>

section \<open>A finite hierarchy\<close>

definition ranked_hierarchy :: "compiled_design \<Rightarrow> bool" where
  "ranked_hierarchy d \<longleftrightarrow> (\<exists>rank :: compiled_module \<Rightarrow> nat. \<forall>m \<in> set (cd_modules d). \<forall>i \<in> set (cm_instances m). \<forall>t.
     compiled_find_module d (ci_module i) = Some t \<longrightarrow> rank t < rank m)"

lemma ranked_context_total:
  assumes "ranked_hierarchy d" "m \<in> set (cd_modules d)"
  shows "\<exists>r. add_context (Suc (length (cd_modules d))) d m path = Some r"
proof -
  obtain rank :: "compiled_module \<Rightarrow> nat" where rank: "\<And>m i t. m \<in> set (cd_modules d) \<Longrightarrow> i \<in> set (cm_instances m) \<Longrightarrow>
      compiled_find_module d (ci_module i) = Some t \<Longrightarrow> rank t < rank m"
    using assms(1) unfolding ranked_hierarchy_def by blast
  let ?M = "set (cd_modules d)" and ?r = "\<lambda>m. card {x \<in> set (cd_modules d). rank x < rank m}"
  have "?r t < ?r m" if "m \<in> ?M" "i \<in> set (cm_instances m)" "compiled_find_module d (ci_module i) = Some t" for m i t
  proof (rule psubset_card_mono)
    have "rank t < rank m" using rank [OF that] .
    moreover have "t \<in> ?M" using find_module_in [OF that(3)] by blast
    ultimately show "{x \<in> ?M. rank x < rank t} \<subset> {x \<in> ?M. rank x < rank m}" by auto
  qed simp
  moreover have "?r m < Suc (length (cd_modules d))"
  proof -
    have "?r m \<le> card ?M" by (rule card_mono) auto
    then show ?thesis using card_length [of "cd_modules d"] by simp
  qed
  ultimately have "add_context (Suc (length (cd_modules d))) d m path \<noteq> None"
    using assms(2) by (intro add_context_total [of d ?r]) blast+
  then show ?thesis by blast
qed

section \<open>The contexts are allocated\<close>

lemma typed_contexts_sized:
  assumes "typed_design d" "contexts_in d ctxs"
  shows "\<forall>ctx \<in> set ctxs. \<forall>si \<in> set (cm_signals (ix_module ctx)). sized_signal si"
proof
  fix ctx assume "ctx \<in> set ctxs"
  then have "ix_module ctx \<in> set (cd_modules d)" using assms(2) by (simp add: contexts_in_def)
  then obtain m where "typed_module m (ix_module ctx)" using assms(1) by (auto simp: typed_design_def)
  then show "\<forall>si \<in> set (cm_signals (ix_module ctx)). sized_signal si" by (simp add: typed_module_def)
qed

text \<open>The state in which the contexts are lowered.\<close>

definition start_lowering :: "compiled_design \<Rightarrow> diagnostic list \<Rightarrow> instance_ctx list \<Rightarrow> lowering" where
  "start_lowering d ds ctxs = allocate_contexts (new_lowering d ds ctxs)"

lemma start_lowering_ok:
  assumes d: "typed_design d" "names_ok d" and m: "m \<in> set (cd_modules d)"
    and ctxs: "add_context n d m root = Some (ctxs, ds')"
  shows "flattened (start_lowering d ds ctxs)" "grown (new_lowering d ds ctxs) (start_lowering d ds ctxs)"
    and "lo_diagnostics (start_lowering d ds ctxs) = [] \<longleftrightarrow> ds = [] \<and> (\<forall>ctx \<in> set ctxs. supported (ix_module ctx))"
    and "i < length ctxs \<Longrightarrow> si \<in> set (cm_signals (ix_module (ctxs ! i))) \<Longrightarrow> has_entry (start_lowering d ds ctxs) i si"
proof -
  have ctxs_in: "contexts_in d ctxs" using add_context_in [OF ctxs m] by blast
  let ?lo = "new_lowering d ds ctxs" and ?lo' = "start_lowering d ds ctxs"
  have sel: "lo_contexts ?lo = ctxs" "lo_design ?lo = d" "lo_diagnostics ?lo = ds" by (simp_all add: new_lowering_def)
  have sized: "\<forall>ctx \<in> set (lo_contexts ?lo). \<forall>si \<in> set (cm_signals (ix_module ctx)). sized_signal si"
    using typed_contexts_sized [OF d(1) ctxs_in] by (simp add: sel)
  note al = allocate_contexts_ok [OF new_lowering_allocated sized, folded start_lowering_def, unfolded sel]
  show g: "grown ?lo ?lo'" by (rule al(2))
  show "lo_diagnostics ?lo' = [] \<longleftrightarrow> ds = [] \<and> (\<forall>ctx \<in> set ctxs. supported (ix_module ctx))" by (rule al(4))
  show "i < length ctxs \<Longrightarrow> si \<in> set (cm_signals (ix_module (ctxs ! i))) \<Longrightarrow> has_entry ?lo' i si" by (rule al(3))
  have keep: "lo_contexts ?lo' = ctxs" "lo_design ?lo' = d" using g sel by (simp_all add: grown_def)
  have "\<forall>ctx \<in> set ctxs. located d root m ctx" by (rule add_context_located [OF d(2) ctxs m])
  then have "children_ok ?lo'" using located_children [of ?lo' root m] d(2) ctxs_in by (simp add: keep)
  then show "flattened ?lo'" using al(1) d(1) ctxs_in by (simp add: flattened_def keep)
qed

section \<open>The program\<close>

lemma expr_ok_same: "pp_signals p = pp_signals q \<Longrightarrow> pp_memories p = pp_memories q \<Longrightarrow> expr_ok p e = expr_ok q e"
proof (induction e)
  case (PExpr k ty)
  then show ?case by (cases k) simp_all
qed

lemma op_ok_same: "pp_signals p = pp_signals q \<Longrightarrow> pp_memories p = pp_memories q \<Longrightarrow> op_ok p x = op_ok q x"
  using expr_ok_same [of p q] by (cases x) (simp_all split: option.split)


definition packed_of :: "string \<Rightarrow> lowering \<Rightarrow> packed_packet list \<Rightarrow> packed_program" where
  "packed_of root lo comb = \<lparr>pp_top = root, pp_signals = lo_signals lo, pp_memories = lo_memories lo,
     pp_streams = \<lparr>st_async_reset_comb = schedule_async_resets (lo_registers lo), st_comb = comb,
       st_tick_next = schedule_tick_next (lo_registers lo), st_tick_commit = schedule_memory_writes (lo_memory_writes lo)\<rparr>,
     pp_top_signal_indices = lo_top_signal_indices lo, pp_total_signal_words = lo_next_signal_offset lo,
     pp_total_memory_words_per_lane = lo_next_memory_offset lo, pp_reg_clocks = reg_clock_map (lo_registers lo),
     pp_mem_clocks = lo_mem_clocks lo\<rparr>"

definition top_diags :: "compiled_module \<Rightarrow> diagnostic list" where
  "top_diags m = (if cm_is_external m then [new_diag ''E_SIM_IR_EXTERN''
     ''packed simulation IR does not support external top modules''] else [])"

lemma lowering_unfold:
  assumes "compiled_find_module d root = Some m"
  shows "lower_to_packed_program ord d root =
     do { (ctxs, ds) \<leftarrow> add_context (Suc (length (cd_modules d))) d m root;
          lo \<leftarrow> lower_contexts (start_lowering d (top_diags m @ ds) ctxs);
          if lo_diagnostics lo \<noteq> [] then Some (Inl (lo_diagnostics lo))
          else do { comb \<leftarrow> schedule_assignments ord (lo_assignments lo); Some (Inr (packed_of root lo comb)) } }"
  unfolding lower_to_packed_program_def assms option.case start_lowering_def [symmetric] top_diags_def [symmetric]
    packed_of_def [symmetric] Let_def ..

lemma allocated_layouts:
  "allocated lo \<Longrightarrow> pp_signals p = lo_signals lo \<Longrightarrow> pp_memories p = lo_memories lo \<Longrightarrow>
     pp_total_signal_words p = lo_next_signal_offset lo \<Longrightarrow> pp_total_memory_words_per_lane p = lo_next_memory_offset lo \<Longrightarrow> layouts_wf p"
  by (simp add: allocated_def layouts_below_def layouts_wf_def signal_range_def memory_range_def)

lemma as_packet_ok: "stream_ok p (as_packet xs) \<longleftrightarrow> (\<forall>x \<in> set xs. op_ok p x)"
  by (simp add: as_packet_def stream_ok_def)

lemma concat_stream_ok: "(\<forall>x \<in> set (concat ps). op_ok p x) \<Longrightarrow> stream_ok p ps"
  by (auto simp: stream_ok_def)

lemma literal_ok: "width_ok (bt_width ty) \<Longrightarrow> expr_ok p (PExpr (PLit v) ty)"
  by simp

lemma packed_of_ok:
  assumes lo: "allocated lo" and ops: "\<forall>x \<in> set (produced lo). op_ok (packed_of root lo comb) x"
    and comb: "set (concat comb) = assign_op ` set (lo_assignments lo)"
  shows "program_ok (packed_of root lo comb)"
proof -
  let ?p = "packed_of root lo comb"
  have wf: "layouts_wf ?p" by (rule allocated_layouts [OF lo]) (simp_all add: packed_of_def)
  have as: "\<forall>a \<in> set (lo_assignments lo). op_ok ?p (assign_op a)"
    and rs: "\<forall>r \<in> set (lo_registers lo). op_ok ?p (CaptureReg (rr_signal r) (rr_next r) (rr_reset r))"
    and ws: "\<forall>x \<in> set (lo_memory_writes lo). op_ok ?p x"
    using ops by (simp_all add: produced_def assign_op_def ball_Un del: op_ok.simps)
  have "stream_ok ?p comb" by (rule concat_stream_ok) (use as in \<open>simp add: comb del: set_concat\<close>)
  moreover have "stream_ok ?p (schedule_tick_next (lo_registers lo))"
    using rs by (simp add: schedule_tick_next_def as_packet_ok del: op_ok.simps)
  moreover have "stream_ok ?p (schedule_memory_writes (lo_memory_writes lo))"
    using ws by (simp add: schedule_memory_writes_def as_packet_ok)
  moreover have "stream_ok ?p (schedule_async_resets (lo_registers lo))"
    unfolding schedule_async_resets_def as_packet_ok
  proof
    fix x assume "x \<in> set (List.map_filter (\<lambda>r. case rr_reset r of None \<Rightarrow> None
      | Some rst \<Rightarrow> if pr_kind rst \<noteq> Async then None
          else Some (CaptureReg (rr_signal r) (PExpr (PLit (pr_value rst)) (pe_ty (rr_next r))) (Some rst))) (lo_registers lo))"
    then obtain r rst where r: "r \<in> set (lo_registers lo)" "rr_reset r = Some rst"
      "x = CaptureReg (rr_signal r) (PExpr (PLit (pr_value rst)) (pe_ty (rr_next r))) (Some rst)"
      by (auto simp: List.map_filter_def split: option.splits if_splits)
    with rs have "op_ok ?p (CaptureReg (rr_signal r) (rr_next r) (Some rst))" by force
    with expr_ok_width [of ?p "rr_next r"] show "op_ok ?p x" by (simp add: r(3) pe_width_def)
  qed
  moreover have "\<forall>i \<in> ran (lo_top_signal_indices lo). i < length (lo_signals lo)"
  proof
    fix i assume "i \<in> ran (lo_top_signal_indices lo)"
    then obtain s where "lo_signal_map lo (0, s) = Some i"
      using lo by (auto simp: ran_def allocated_def keys_ok_def top_keys_ok_def)
    then show "i < length (lo_signals lo)" using lo unfolding allocated_def keys_ok_def signal_keys_ok_def by blast
  qed
  ultimately show ?thesis using wf by (simp add: program_ok_def streams_ok_def packed_of_def)
qed

text \<open>Nothing is produced before the contexts are lowered.\<close>

lemma start_produced:
  "grown (new_lowering d ds ctxs) (start_lowering d ds ctxs) \<Longrightarrow> produced (start_lowering d ds ctxs) = []"
  by (simp add: grown_def produced_def new_lowering_def)

lemma lowering_ok:
  assumes d: "typed_design d" "names_ok d" "ranked_hierarchy d"
  shows "\<exists>r. lower_to_packed_program ord d root = Some r \<and> (\<forall>p. r = Inr p \<longrightarrow> program_ok p)"
proof (cases "compiled_find_module d root")
  case None
  then show ?thesis by (simp add: lower_to_packed_program_def)
next
  case (Some m)
  have m: "m \<in> set (cd_modules d)" using find_module_in [OF Some] by blast
  obtain ctxs ds where ctxs: "add_context (Suc (length (cd_modules d))) d m root = Some (ctxs, ds)"
    using ranked_context_total [OF d(3) m] by fastforce
  let ?lo = "start_lowering d (top_diags m @ ds) ctxs"
  note start = start_lowering_ok [OF d(1,2) m ctxs, where ds = "top_diags m @ ds"]
  have none_yet: "set (produced ?lo) = {}" by (simp add: start_produced [OF start(2)])
  define q where "q = packed_of root ?lo []"
  have "signals_of ?lo q" by (simp add: signals_of_def q_def packed_of_def)
  from lower_contexts_lowers [OF start(1) this] obtain lo' where
    lo': "lower_contexts ?lo = Some lo'" "lowers q ?lo lo'" by (auto simp: step_lowers_def)
  show ?thesis
  proof (cases "lo_diagnostics lo' = []")
    case True
    obtain comb where comb: "schedule_assignments ord (lo_assignments lo') = Some comb"
      "set (concat comb) = assign_op ` set (lo_assignments lo')" using schedule_assignments_total by blast
    have kept: "kept ?lo lo'" using lo'(2) by (rule lowers_kept)
    have al: "allocated lo'" using start(1) kept_allocated [OF kept] by (simp add: flattened_def)
    have same: "op_ok q x = op_ok (packed_of root lo' comb) x" for x
      by (rule op_ok_same) (use kept in \<open>simp_all add: q_def packed_of_def kept_def\<close>)
    have "(\<forall>x \<in> set (produced ?lo). op_ok q x) \<longrightarrow> (\<forall>x \<in> set (produced lo'). op_ok q x)"
      using lo'(2) True by (simp add: lowers_def)
    then have "\<forall>x \<in> set (produced lo'). op_ok q x" unfolding none_yet by simp
    with same have "\<forall>x \<in> set (produced lo'). op_ok (packed_of root lo' comb) x" by simp
    from packed_of_ok [OF al this comb(2)] True ctxs lo'(1) comb(1) show ?thesis
      by (simp add: lowering_unfold [OF Some])
  next
    case False
    with ctxs lo'(1) show ?thesis by (simp add: lowering_unfold [OF Some])
  qed
qed

end
