(* ===== verification/Packed_Accepted.thy ===== *)
theory Packed_Accepted
  imports Packed_Lower_Program
begin

text \<open>
  An accepted design, compiled, is a typed design with a finite hierarchy: it lowers to well-formed
  packed programs.
\<close>

section \<open>Widths in the range of the code's integers\<close>

text \<open>
  A width is a \<open>u32\<close> in the code and a natural number here.  The expressions that are lowered:
  those of the assignments, of the next values of the registers and of the memory writes.
\<close>

definition module_exprs :: "rmodule \<Rightarrow> expr list" where
  "module_exprs m = map as_expr (m_assignments m)
     @ List.map_filter (\<lambda>si. case si_kind si of KReg clk rst nxt \<Rightarrow> nxt | _ \<Rightarrow> None) (m_signals m)
     @ concat (map (\<lambda>w. [mw_enable w, mw_addr w, mw_data w]) (m_memory_writes m))"

definition in_range_module :: "rmodule \<Rightarrow> bool" where
  "in_range_module m \<longleftrightarrow> signals_wf m \<and> list_all sized_signal (m_signals m) \<and> list_all (small_widths m) (module_exprs m)"

definition in_range_design :: "design \<Rightarrow> bool" where
  "in_range_design d \<longleftrightarrow> list_all (\<lambda>m. in_range_module m
     \<and> list_all (\<lambda>i. CHR ''.'' \<notin> set (in_name i)) (m_instances m)) (ds_modules d)"

section \<open>Compiled modules are typed\<close>

lemma list_all2_in_right: "list_all2 R xs ys \<Longrightarrow> y \<in> set ys \<Longrightarrow> \<exists>x \<in> set xs. R x y"
  by (induction rule: list_all2_induct) auto

lemma compiled_ok_typed: "compiled_ok m e c \<Longrightarrow> small_widths m e \<Longrightarrow> typed_expr m c"
  by (simp add: compiled_ok_def typed_expr_def)

lemma external_compiled_empty:
  assumes acc: "validate_module ord d m = Some []" "m_is_external m" and cm: "module_compiled d m cm"
  shows "cm_assignments cm = []" "cm_registers cm = []" "cm_memory_writes cm = []" "cm_instances cm = []"
proof -
  have e: "m_assignments m = []" "m_memory_writes m = []" "m_instances m = []" "\<forall>si \<in> set (m_signals m). is_port_kind (si_kind si)"
    using acc by (auto simp: validate_module_def Let_def validate_external_module_def concat_map_Nil_iff split: if_split_asm)
  from e(4) have "filter (\<lambda>si. is_reg_kind (si_kind si)) (m_signals m) = []"
    by (auto simp: filter_empty_conv is_port_kind_def is_reg_kind_def)
  with cm e(1-3) show "cm_assignments cm = []" "cm_registers cm = []" "cm_memory_writes cm = []" "cm_instances cm = []"
    by (simp_all add: module_compiled_def)
qed

lemma module_compiled_typed:
  assumes ord: "hash_iteration ord" and acc: "validate_module ord d m = Some []" and cm: "module_compiled d m cm"
    and range: "in_range_module m"
  shows "typed_module m cm"
proof -
  have base: "cm_id cm = m_id m" "cm_signals cm = m_signals m" using cm by (simp_all add: module_compiled_def)
  have wf: "signals_wf m" "\<forall>si \<in> set (m_signals m). sized_signal si" "\<forall>e \<in> set (module_exprs m). small_widths m e"
    using range by (simp_all add: in_range_module_def list_all_iff)
  show ?thesis
  proof (cases "m_is_external m")
    case True
    with external_compiled_empty [OF acc True cm] base wf show ?thesis by (simp add: typed_module_def)
  next
    case False
    note parts = accepted_module [OF acc False]
    have "typed_expr m (ca_expr c) \<and> (\<exists>si. module_signal m (ca_dst c) = Some si \<and> si_ty si = ce_ty (ca_expr c))"
      if c: "c \<in> set (cm_assignments cm)" for c
    proof -
      have "list_all2 (assignment_matches m) (m_assignments m) (cm_assignments cm)" using cm by (simp add: module_compiled_def)
      from list_all2_in_right [OF this c] obtain a where a: "a \<in> set (m_assignments m)" "assignment_matches m a c" by blast
      then have "assignment_ok m a" using parts(4) validate_assignments_quiet [OF ord] by (auto simp: list_all_iff)
      moreover have "small_widths m (as_expr a)" using wf(3) a(1) by (auto simp: module_exprs_def)
      ultimately show ?thesis using a(2) has_type_unique
        by (auto simp: assignment_ok_def assignment_matches_def compiled_ok_def typed_expr_def)
    qed
    moreover have "typed_expr m (cr_next c) \<and> (\<exists>si. module_signal m (cr_signal c) = Some si \<and> si_ty si = ce_ty (cr_next c))"
      if c: "c \<in> set (cm_registers cm)" for c
    proof -
      have "list_all2 (register_matches m) (filter (\<lambda>si. is_reg_kind (si_kind si)) (m_signals m)) (cm_registers cm)"
        using cm by (simp add: module_compiled_def)
      from list_all2_in_right [OF this c] obtain si where si: "si \<in> set (m_signals m)" "register_matches m si c" by auto
      then obtain e where e: "si_kind si = KReg (Some (cr_clock c)) (cr_reset c) (Some e)" "compiled_ok m e (cr_next c)"
        "ce_ty (cr_next c) = si_ty si" "cr_signal c = si_handle si" by (auto simp: register_matches_def)
      then have "e \<in> set (module_exprs m)" using si(1) by (force simp: module_exprs_def List.map_filter_def)
      with wf e signals_wf_lookup [OF wf(1) si(1)] show ?thesis by (simp add: compiled_ok_typed)
    qed
    moreover have "typed_expr m (cmw_enable c) \<and> typed_expr m (cmw_addr c) \<and> typed_expr m (cmw_data c)
        \<and> (\<exists>si. module_signal m (cmw_mem c) = Some si \<and> si_ty si = ce_ty (cmw_data c))"
      if c: "c \<in> set (cm_memory_writes cm)" for c
    proof -
      have "list_all2 (write_matches m) (m_memory_writes m) (cm_memory_writes cm)" using cm by (simp add: module_compiled_def)
      from list_all2_in_right [OF this c] obtain w where w: "w \<in> set (m_memory_writes m)" "write_matches m w c" by blast
      then have "write_ok m w"
        using parts(5) by (auto simp: validate_memory_writes_def concat_map_Nil_iff memory_write_diags_quiet)
      moreover have "small_widths m (mw_enable w)" "small_widths m (mw_addr w)" "small_widths m (mw_data w)"
        using wf(3) w(1) by (auto simp: module_exprs_def)
      ultimately show ?thesis using w(2) has_type_unique
        by (auto simp: write_ok_def write_matches_def compiled_ok_def typed_expr_def)
    qed
    ultimately show ?thesis using base wf by (simp add: typed_module_def)
  qed
qed

section \<open>Ports by name\<close>

lemma find_distinct_name:
  "distinct (map f xs) \<Longrightarrow> List.find (\<lambda>x. f x = n \<and> P x) xs = Some x \<Longrightarrow> List.find (\<lambda>x. f x = n) xs = Some x"
proof (induction xs)
  case (Cons y ys)
  show ?case
  proof (cases "f y = n")
    case True
    have "P y"
    proof (rule ccontr)
      assume "\<not> P y"
      with Cons.prems(2) have "x \<in> set ys" "f x = n" by (auto dest: find_Some_in)
      then have "n \<in> set (map f ys)" by auto
      with True Cons.prems(1) show False by simp
    qed
    with True Cons.prems(2) show ?thesis by simp
  qed (use Cons in simp)
qed simp

lemma find_everywhere: "\<forall>x \<in> set xs. P x \<Longrightarrow> List.find (\<lambda>x. f x = n \<and> P x) xs = List.find (\<lambda>x. f x = n) xs"
  by (rule find_cong) simp_all

lemma accepted_port:
  assumes "validate_module ord d m = Some []" "find_any_port m n = Some port"
  shows "List.find (\<lambda>si. si_name si = n) (m_signals m) = Some port"
proof (cases "m_is_external m")
  case True
  then have "\<forall>si \<in> set (m_signals m). is_port_kind (si_kind si)"
    using assms(1) by (auto simp: validate_module_def Let_def validate_external_module_def concat_map_Nil_iff split: if_split_asm)
  from find_everywhere [OF this, of si_name n] assms(2) show ?thesis by (simp add: find_any_port_def)
next
  case False
  then have "distinct (map si_name (m_signals m))"
    using accepted_module(2) [OF assms(1)] by (simp add: validate_signal_names_def signal_names_quiet)
  with find_distinct_name assms(2) show ?thesis by (simp add: find_any_port_def)
qed

lemma find_module_compiled:
  assumes "list_all2 (module_compiled d) ms cms"
  shows "rel_option (module_compiled d) (List.find (\<lambda>m. m_name m = n) ms) (List.find (\<lambda>m. cm_name m = n) cms)"
  using assms by (induction rule: list_all2_induct) (auto simp: module_compiled_def)

lemma instance_loop_distinct:
  "fst (instance_loop d m seen is) = [] \<Longrightarrow> distinct (map in_name is) \<and> set (map in_name is) \<inter> set seen = {}"
proof (induction "is" arbitrary: seen)
  case (Cons i "is")
  then have "in_name i \<notin> set seen" "fst (instance_loop d m (in_name i # seen) is) = []"
    by (auto simp: Let_def split: prod.splits option.splits if_splits)
  with Cons.IH [of "in_name i # seen"] show ?case by auto
qed simp

section \<open>Accepted designs\<close>

lemma accepted_typed:
  assumes ord: "hash_iteration ord" and acc: "validate_design ord d = Some (Inr ())" and range: "in_range_design d"
  shows "\<exists>cd. compile_ir ord d = Some (Inr cd) \<and> list_all2 (module_compiled d) (ds_modules d) (cd_modules cd)
    \<and> typed_design cd \<and> names_ok cd \<and> ranked_hierarchy cd"
proof -
  obtain cd where cd: "compile_ir ord d = Some (Inr cd)" "list_all2 (module_compiled d) (ds_modules d) (cd_modules cd)"
    using compile_ir_accepted [OF ord acc] by blast
  note mods = accepted_parts(3) [OF acc]
  have source: "\<exists>m \<in> set (ds_modules d). module_compiled d m cm" if "cm \<in> set (cd_modules cd)" for cm
    using list_all2_in_right [OF cd(2) that] .
  have target: "\<exists>tm \<in> set (ds_modules d). module_compiled d tm t \<and> find_module d n = Some tm"
    if t: "compiled_find_module cd n = Some t" for n t
  proof -
    obtain tm where "find_module d n = Some tm" "module_compiled d tm t"
      using find_module_compiled [OF cd(2), of n] t by (auto simp: compiled_find_module_def find_module_def option_rel_Some2)
    then show ?thesis using find_module_name by blast
  qed
  have inst: "\<exists>s \<in> set (m_instances m). instance_matches d m s i"
    if h: "module_compiled d m cm" "i \<in> set (cm_instances cm)" for m cm i
  proof -
    have "list_all2 (instance_matches d m) (m_instances m) (cm_instances cm)" using h(1) by (simp add: module_compiled_def)
    from list_all2_in_right [OF this h(2)] show ?thesis .
  qed
  have "typed_design cd"
    unfolding typed_design_def
  proof (intro conjI ballI allI impI)
    fix cm assume "cm \<in> set (cd_modules cd)"
    then obtain m where m: "m \<in> set (ds_modules d)" "module_compiled d m cm" using source by blast
    then have "in_range_module m" using range by (simp add: in_range_design_def list_all_iff)
    with module_compiled_typed [OF ord _ m(2)] mods m(1) have "typed_module m cm" by blast
    then show "\<exists>m. typed_module m cm" ..
  next
    fix cm i t c port si
    assume cm: "cm \<in> set (cd_modules cd)" and i: "i \<in> set (cm_instances cm)" and t: "compiled_find_module cd (ci_module i) = Some t"
      and c: "c \<in> set (ci_connections i)" and port: "List.find (\<lambda>si. si_name si = cc_port c) (cm_signals t) = Some port"
      and si: "compiled_signal cm (cc_signal c) = Some si"
    obtain m where m: "module_compiled d m cm" using source [OF cm] by blast
    obtain s where s: "instance_matches d m s i" using inst [OF m i] by blast
    obtain tm where tm: "tm \<in> set (ds_modules d)" "module_compiled d tm t" "find_module d (ci_module i) = Some tm"
      using target [OF t] by blast
    have "list_all2 (connection_matches d m s) (in_connections s) (ci_connections i)" using s by (simp add: instance_matches_def)
    from list_all2_in_right [OF this c] obtain sc where "connection_matches d m s sc c" by blast
    then obtain target port' si' where k: "find_module d (in_module s) = Some target" "find_any_port target (cc_port c) = Some port'"
      "module_signal m (cc_signal c) = Some si'" "si_ty si' = si_ty port'" by (auto simp: connection_matches_def)
    have "target = tm" using k(1) tm(3) s by (simp add: instance_matches_def)
    with accepted_port [OF _ k(2)] mods tm(1) have "List.find (\<lambda>si. si_name si = cc_port c) (m_signals tm) = Some port'" by blast
    moreover have "cm_signals t = m_signals tm" using tm(2) by (simp add: module_compiled_def)
    ultimately have "port' = port" using port by simp
    moreover have "si' = si" using si k(3) m by (simp add: module_compiled_def compiled_signal_def module_signal_def split: if_splits)
    ultimately show "si_ty si = si_ty port" using k(4) by simp
  qed
  moreover have "names_ok cd"
    unfolding names_ok_def
  proof
    fix cm assume "cm \<in> set (cd_modules cd)"
    then obtain m where m: "m \<in> set (ds_modules d)" "module_compiled d m cm" using source by blast
    have "list_all2 (instance_matches d m) (m_instances m) (cm_instances cm)" using m(2) by (simp add: module_compiled_def)
    then have names: "map ci_name (cm_instances cm) = map in_name (m_instances m)"
      by (induction rule: list_all2_induct) (simp_all add: instance_matches_def)
    have "distinct (map in_name (m_instances m))"
    proof (cases "m_is_external m")
      case True
      then show ?thesis using accepted_external mods m(1) by force
    next
      case False
      have "validate_instances ord d m = []" using accepted_module(10) [OF _ False] mods m(1) by blast
      then have "fst (instance_loop d m [] (m_instances m)) = []" by (auto simp: validate_instances_def split: prod.splits)
      then show ?thesis using instance_loop_distinct by blast
    qed
    moreover have "\<forall>n \<in> set (map in_name (m_instances m)). CHR ''.'' \<notin> set n"
      using range m(1) by (auto simp: in_range_design_def list_all_iff)
    ultimately show "distinct (map ci_name (cm_instances cm)) \<and> (\<forall>i \<in> set (cm_instances cm). CHR ''.'' \<notin> set (ci_name i))"
      unfolding names [symmetric] by simp
  qed
  moreover have "ranked_hierarchy cd"
  proof -
    obtain rank where rank: "ranked d rank" using accepted_ranked [OF acc] by blast
    have "rank (cm_name t) < rank (cm_name cm)"
      if h: "cm \<in> set (cd_modules cd)" "i \<in> set (cm_instances cm)" "compiled_find_module cd (ci_module i) = Some t" for cm i t
    proof -
      obtain m where m: "m \<in> set (ds_modules d)" "module_compiled d m cm" using source [OF h(1)] by blast
      obtain s where s: "s \<in> set (m_instances m)" "instance_matches d m s i" using inst [OF m(2) h(2)] by blast
      obtain tm where "module_compiled d tm t" "find_module d (ci_module i) = Some tm" using target [OF h(3)] by blast
      with rank m s show ?thesis by (force simp: ranked_def instance_matches_def module_compiled_def)
    qed
    then show ?thesis unfolding ranked_hierarchy_def by (intro exI [of _ "\<lambda>m. rank (cm_name m)"]) blast
  qed
  ultimately show ?thesis using cd by blast
qed

end
