(* ===== verification/Packed_Flat.thy ===== *)
theory Packed_Flat
  imports Packed_Accepted
begin

text \<open>
  The program a flat module lowers to: one assignment for each assignment of the module, one
  capture for each register and one write for each memory write, in order.
\<close>

section \<open>Lowering does not depend on what was produced before\<close>

lemma kept_find: "kept lo0 lo \<Longrightarrow> find_signal lo i s m = find_signal lo0 i s m"
  "kept lo0 lo \<Longrightarrow> find_memory lo i s m = find_memory lo0 i s m"
  by (simp_all add: kept_def find_signal_def find_memory_def)

lemma kept_lower_raw: "kept lo0 lo \<Longrightarrow> lower_raw_expr lo i m e ty = lower_raw_expr lo0 i m e ty"
proof (induction e arbitrary: ty)
  case (EConcat ps)
  have "map (\<lambda>p. lower_raw_expr lo i m p (unwrap_or (lowered_type m p) (uint_ty 1))) ps =
      map (\<lambda>p. lower_raw_expr lo0 i m p (unwrap_or (lowered_type m p) (uint_ty 1))) ps"
    by (rule map_cong [OF refl]) (rule EConcat.IH [OF _ EConcat.prems])
  then show ?case by (simp only: lower_raw_expr.simps)
qed (simp_all add: kept_find Let_def)

lemma kept_lower: "kept lo0 lo \<Longrightarrow> lower_compiled_expr lo i m e = lower_compiled_expr lo0 i m e"
  by (simp add: lower_compiled_expr_def kept_lower_raw)

section \<open>What each step produces\<close>

definition expr_of :: "lowering \<Rightarrow> nat \<Rightarrow> compiled_module \<Rightarrow> compiled_expr \<Rightarrow> packed_expr" where
  "expr_of lo i m e = fst (lower_compiled_expr lo i m e)"

definition expr_quiet :: "lowering \<Rightarrow> nat \<Rightarrow> compiled_module \<Rightarrow> compiled_expr \<Rightarrow> bool" where
  "expr_quiet lo i m e \<longleftrightarrow> snd (lower_compiled_expr lo i m e) = []"

definition assignment_of :: "lowering \<Rightarrow> nat \<Rightarrow> compiled_module \<Rightarrow> compiled_assignment \<Rightarrow> flat_assignment" where
  "assignment_of lo i m a = \<lparr>fa_dst = the (lo_signal_map lo (i, ca_dst a)), fa_expr = expr_of lo i m (ca_expr a)\<rparr>"

definition assignment_quiet :: "lowering \<Rightarrow> nat \<Rightarrow> compiled_module \<Rightarrow> compiled_assignment \<Rightarrow> bool" where
  "assignment_quiet lo i m a \<longleftrightarrow> lo_signal_map lo (i, ca_dst a) \<noteq> None \<and> expr_quiet lo i m (ca_expr a)"

definition reset_of :: "lowering \<Rightarrow> nat \<Rightarrow> compiled_register \<Rightarrow> packed_reset option" where
  "reset_of lo i r = map_option (\<lambda>x. \<lparr>pr_signal = the (lo_signal_map lo (i, rst_signal x)),
     pr_value = encode_limbs (rst_value x) (ce_ty (cr_next r)), pr_kind = rst_kind x, pr_polarity = rst_polarity x\<rparr>) (cr_reset r)"

definition register_of :: "lowering \<Rightarrow> nat \<Rightarrow> compiled_module \<Rightarrow> compiled_register \<Rightarrow> reg_ref" where
  "register_of lo i m r = \<lparr>rr_signal = the (lo_signal_map lo (i, cr_signal r)), rr_next = expr_of lo i m (cr_next r),
     rr_reset = reset_of lo i r, rr_clock = lo_signal_map lo (i, cr_clock r)\<rparr>"

definition register_quiet :: "lowering \<Rightarrow> nat \<Rightarrow> compiled_module \<Rightarrow> compiled_register \<Rightarrow> bool" where
  "register_quiet lo i m r \<longleftrightarrow> lo_signal_map lo (i, cr_signal r) \<noteq> None \<and> expr_quiet lo i m (cr_next r)
     \<and> (\<forall>x. cr_reset r = Some x \<longrightarrow> lo_signal_map lo (i, rst_signal x) \<noteq> None)"

definition write_of :: "lowering \<Rightarrow> nat \<Rightarrow> compiled_module \<Rightarrow> compiled_memory_write \<Rightarrow> packed_op" where
  "write_of lo i m w = MemoryWrite (the (lo_memory_map lo (i, cmw_mem w))) (expr_of lo i m (cmw_enable w))
     (expr_of lo i m (cmw_addr w)) (expr_of lo i m (cmw_data w))"

definition write_quiet :: "lowering \<Rightarrow> nat \<Rightarrow> compiled_module \<Rightarrow> compiled_memory_write \<Rightarrow> bool" where
  "write_quiet lo i m w \<longleftrightarrow> lo_memory_map lo (i, cmw_mem w) \<noteq> None \<and> expr_quiet lo i m (cmw_enable w)
     \<and> expr_quiet lo i m (cmw_addr w) \<and> expr_quiet lo i m (cmw_data w)"

lemmas quiet_defs = assignment_quiet_def register_quiet_def write_quiet_def expr_quiet_def
lemmas of_defs = assignment_of_def register_of_def reset_of_def write_of_def expr_of_def

text \<open>A step that pushed no diagnostic has appended what it produces.\<close>

definition adds :: "flat_assignment list \<Rightarrow> reg_ref list \<Rightarrow> packed_op list \<Rightarrow> lowering \<Rightarrow> lowering \<Rightarrow> bool" where
  "adds as rs ws lo lo' \<longleftrightarrow> kept lo lo' \<and> lo_diagnostics lo = [] \<and> lo_assignments lo' = lo_assignments lo @ as
     \<and> lo_registers lo' = lo_registers lo @ rs \<and> lo_memory_writes lo' = lo_memory_writes lo @ ws"

lemma adds_refl: "lo_diagnostics lo = [] \<Longrightarrow> adds [] [] [] lo lo"
  by (simp add: adds_def)

lemma adds_trans: "adds as rs ws a b \<Longrightarrow> adds as' rs' ws' b c \<Longrightarrow> adds (as @ as') (rs @ rs') (ws @ ws') a c"
  by (auto simp: adds_def intro: kept_trans)

lemma lower_assignment_adds:
  assumes "lo_diagnostics (lower_assignment i m a lo) = []"
  shows "adds [assignment_of lo i m a] [] [] lo (lower_assignment i m a lo) \<and> assignment_quiet lo i m a"
  using assms
  by (cases "lower_compiled_expr lo i m (ca_expr a)")
    (auto simp: lower_assignment_def find_signal_def push_diags_def push_assignment_def adds_def kept_def of_defs quiet_defs
      split: option.splits)

lemma lower_register_adds:
  assumes "lo_diagnostics (lower_register i m r lo) = []"
  shows "adds [] [register_of lo i m r] [] lo (lower_register i m r lo) \<and> register_quiet lo i m r"
  using assms
  by (cases "lower_compiled_expr lo i m (cr_next r)")
    (auto simp: lower_register_def lower_reset_def find_signal_def push_diags_def adds_def kept_def of_defs quiet_defs Let_def
      split: option.splits)

lemma lower_write_adds:
  assumes "lo_diagnostics (lower_write i m w lo) = []"
  shows "adds [] [] [write_of lo i m w] lo (lower_write i m w lo) \<and> write_quiet lo i m w"
  using assms
  by (cases "lower_compiled_expr lo i m (cmw_enable w)"; cases "lower_compiled_expr lo i m (cmw_addr w)";
      cases "lower_compiled_expr lo i m (cmw_data w)")
    (auto simp: lower_write_def lower_memory_write_def find_signal_def find_memory_def push_diags_def adds_def kept_def
      of_defs quiet_defs Let_def split: option.splits)

text \<open>Folding such steps.\<close>

lemma fold_adds:
  assumes step: "\<And>x lo. lo_diagnostics (f x lo) = [] \<Longrightarrow> adds (A lo x) (R lo x) (W lo x) lo (f x lo) \<and> Q lo x"
    and same: "\<And>x lo. kept lo0 lo \<Longrightarrow> A lo x = A lo0 x \<and> R lo x = R lo0 x \<and> W lo x = W lo0 x \<and> Q lo x = Q lo0 x"
    and kept: "kept lo0 lo" and quiet: "lo_diagnostics (fold f xs lo) = []"
  shows "adds (concat (map (A lo0) xs)) (concat (map (R lo0) xs)) (concat (map (W lo0) xs)) lo (fold f xs lo) \<and> (\<forall>x \<in> set xs. Q lo0 x)"
  using kept quiet
proof (induction xs arbitrary: lo)
  case (Cons x xs)
  have first: "adds (A lo x) (R lo x) (W lo x) lo (f x lo) \<and> Q lo x" if "lo_diagnostics (f x lo) = []"
    using step [OF that] .
  have stays: "lo_diagnostics lo = []" if "lo_diagnostics (fold f xs lo) = []" for xs lo
    using that
  proof (induction xs arbitrary: lo)
    case (Cons x xs)
    then have "lo_diagnostics (f x lo) = []" by simp
    from step [OF this] show ?case by (simp add: adds_def)
  qed simp
  have d: "lo_diagnostics (f x lo) = []" using stays Cons.prems(2) by simp
  have k: "kept lo0 (f x lo)" using first [OF d] Cons.prems(1) kept_trans by (auto simp: adds_def)
  from Cons.IH [OF k] Cons.prems(2) adds_trans [OF conjunct1 [OF first [OF d]]] first [OF d] same [OF Cons.prems(1), of x]
  show ?case by simp
qed (simp add: adds_refl)

lemma kept_of:
  assumes "kept lo0 lo"
  shows "assignment_of lo i m a = assignment_of lo0 i m a" "register_of lo i m r = register_of lo0 i m r"
    "write_of lo i m w = write_of lo0 i m w" "assignment_quiet lo i m a = assignment_quiet lo0 i m a"
    "register_quiet lo i m r = register_quiet lo0 i m r" "write_quiet lo i m w = write_quiet lo0 i m w"
  using assms kept_lower [OF assms] by (simp_all add: of_defs quiet_defs kept_def)

lemma concat_singletons: "concat (map (\<lambda>x. [f x]) xs) = map f xs"
  by (induction xs) simp_all

lemma concat_empties: "concat (map (\<lambda>x. []) xs) = []"
  by (induction xs) simp_all

text \<open>A context without instances.\<close>

lemma lower_flat_context:
  assumes flat: "cm_instances cm = []" and run: "lower_context (i, \<lparr>ix_path = path, ix_module = cm\<rparr>) lo = Some lo'"
    and quiet: "lo_diagnostics lo' = []"
  shows "adds (map (assignment_of lo i cm) (cm_assignments cm)) (map (register_of lo i cm) (cm_registers cm))
      (map (write_of lo i cm) (cm_memory_writes cm)) lo lo'
    \<and> (\<forall>a \<in> set (cm_assignments cm). assignment_quiet lo i cm a) \<and> (\<forall>r \<in> set (cm_registers cm). register_quiet lo i cm r)
    \<and> (\<forall>w \<in> set (cm_memory_writes cm). write_quiet lo i cm w)"
proof -
  define lo1 where "lo1 = fold (lower_assignment i cm) (cm_assignments cm) lo"
  define lo2 where "lo2 = fold (lower_register i cm) (cm_registers cm) lo1"
  have lo': "lo' = fold (lower_write i cm) (cm_memory_writes cm) lo2"
    using run flat by (simp add: lower_context_def Let_def lo1_def lo2_def)
  have d2: "lo_diagnostics lo2 = []" if "lo_diagnostics (fold (lower_write i cm) ws lo2) = []" for ws lo2
    using that
  proof (induction ws arbitrary: lo2)
    case (Cons w ws)
    then have "lo_diagnostics (lower_write i cm w lo2) = []" by simp
    from lower_write_adds [OF this] show ?case by (simp add: adds_def)
  qed simp
  have d1: "lo_diagnostics lo1 = []" if "lo_diagnostics (fold (lower_register i cm) rs lo1) = []" for rs lo1
    using that
  proof (induction rs arbitrary: lo1)
    case (Cons w ws)
    then have "lo_diagnostics (lower_register i cm w lo1) = []" by simp
    from lower_register_adds [OF this] show ?case by (simp add: adds_def)
  qed simp
  have q2: "lo_diagnostics lo2 = []" using d2 quiet lo' by simp
  have q1: "lo_diagnostics lo1 = []" using d1 q2 lo2_def by simp
  have a: "adds (concat (map (\<lambda>a. [assignment_of lo i cm a]) (cm_assignments cm))) (concat (map (\<lambda>a. []) (cm_assignments cm)))
      (concat (map (\<lambda>a. []) (cm_assignments cm))) lo lo1 \<and> (\<forall>a \<in> set (cm_assignments cm). assignment_quiet lo i cm a)"
    unfolding lo1_def
    by (rule fold_adds [OF lower_assignment_adds _ kept_refl]) (use q1 in \<open>simp_all add: lo1_def kept_of\<close>)
  have k1: "kept lo lo1" using a by (simp add: adds_def)
  have r: "adds (concat (map (\<lambda>a. []) (cm_registers cm))) (concat (map (\<lambda>r. [register_of lo i cm r]) (cm_registers cm)))
      (concat (map (\<lambda>a. []) (cm_registers cm))) lo1 lo2 \<and> (\<forall>r \<in> set (cm_registers cm). register_quiet lo i cm r)"
    unfolding lo2_def
    by (rule fold_adds [OF lower_register_adds _ k1]) (use q2 in \<open>simp_all add: lo2_def kept_of\<close>)
  have k2: "kept lo lo2" using r kept_trans [OF k1] by (simp add: adds_def)
  have w: "adds (concat (map (\<lambda>a. []) (cm_memory_writes cm))) (concat (map (\<lambda>a. []) (cm_memory_writes cm)))
      (concat (map (\<lambda>w. [write_of lo i cm w]) (cm_memory_writes cm))) lo2 lo' \<and> (\<forall>w \<in> set (cm_memory_writes cm). write_quiet lo i cm w)"
    unfolding lo'
    by (rule fold_adds [OF lower_write_adds _ k2]) (use quiet lo' in \<open>simp_all add: kept_of\<close>)
  show ?thesis
    using a r w adds_trans [OF adds_trans [OF conjunct1 [OF a] conjunct1 [OF r]] conjunct1 [OF w]]
    by (simp add: concat_singletons concat_empties)
qed

end
