(* ===== verification/Packed_Flat_Step.thy ===== *)
theory Packed_Flat_Step
  imports Packed_Flat
begin

text \<open>
  The packed program of a flat module simulates the scalar simulator: settling and a clock edge
  keep the relation \<open>linked\<close> between the values of the module and the state of a lane.
\<close>

section \<open>The program of a flat module\<close>

definition flat_program :: "lowering \<Rightarrow> rmodule \<Rightarrow> compiled_module \<Rightarrow> packed_program \<Rightarrow> bool" where
  "flat_program lo m cm p \<longleftrightarrow> context_of lo 0 m cm \<and> signals_of lo p \<and> pp_top_signal_indices p = lo_top_signal_indices lo
     \<and> (\<forall>si \<in> set (m_signals m). has_entry lo 0 si)
     \<and> (\<forall>a \<in> set (cm_assignments cm). assignment_quiet lo 0 cm a) \<and> (\<forall>r \<in> set (cm_registers cm). register_quiet lo 0 cm r)
     \<and> (\<forall>w \<in> set (cm_memory_writes cm). write_quiet lo 0 cm w)
     \<and> set (concat (st_comb (pp_streams p))) = assign_op ` assignment_of lo 0 cm ` set (cm_assignments cm)
     \<and> (acyclic_assignments (map (assignment_of lo 0 cm) (cm_assignments cm)) \<longrightarrow> ordered_comb (st_comb (pp_streams p)))
     \<and> st_async_reset_comb (pp_streams p) = schedule_async_resets (map (register_of lo 0 cm) (cm_registers cm))
     \<and> st_tick_next (pp_streams p) = schedule_tick_next (map (register_of lo 0 cm) (cm_registers cm))
     \<and> st_tick_commit (pp_streams p) = schedule_memory_writes (map (write_of lo 0 cm) (cm_memory_writes cm))"

lemma flat_lowering:
  assumes ord: "lists_sets ord" and d: "typed_design cd" "names_ok cd" and cm: "typed_module m cm"
    and root: "compiled_find_module cd root = Some cm" "cm_instances cm = []"
    and run: "lower_to_packed_program ord cd root = Some (Inr p)"
  shows "\<exists>lo. flat_program lo m cm p"
proof -
  have mem: "cm \<in> set (cd_modules cd)" using find_module_in [OF root(1)] by blast
  have ctxs: "add_context (Suc (length (cd_modules cd))) cd cm root = Some ([\<lparr>ix_path = root, ix_module = cm\<rparr>], [])"
    using root(2) by simp
  define lo where "lo = start_lowering cd (top_diags cm) [\<lparr>ix_path = root, ix_module = cm\<rparr>]"
  note start = start_lowering_ok [OF d mem ctxs, where ds = "top_diags cm", folded lo_def]
  have contexts: "lo_contexts lo = [\<lparr>ix_path = root, ix_module = cm\<rparr>]"
    using start(2) by (simp add: grown_def new_lowering_def)
  have none: "lo_assignments lo = []" "lo_registers lo = []" "lo_memory_writes lo = []"
    using start(2) by (simp_all add: grown_def new_lowering_def)
  from run obtain lo' comb where lo': "lower_contexts lo = Some lo'" "lo_diagnostics lo' = []"
    "schedule_assignments ord (lo_assignments lo') = Some comb" "p = packed_of root lo' comb"
    by (auto simp: lowering_unfold [OF root(1)] ctxs lo_def [symmetric] bind_eq_Some simp del: add_context.simps split: if_split_asm)
  have step: "lower_context (0, \<lparr>ix_path = root, ix_module = cm\<rparr>) lo = Some lo'"
    using lo'(1) by (auto simp: lower_contexts_def contexts bind_eq_Some)
  note flat = lower_flat_context [OF root(2) step lo'(2)]
  let ?as = "map (assignment_of lo 0 cm) (cm_assignments cm)" and ?rs = "map (register_of lo 0 cm) (cm_registers cm)"
  let ?ws = "map (write_of lo 0 cm) (cm_memory_writes cm)"
  have adds: "adds ?as ?rs ?ws lo lo'" using flat by blast
  then have made: "lo_assignments lo' = ?as" "lo_registers lo' = ?rs" "lo_memory_writes lo' = ?ws"
    by (simp_all add: adds_def none)
  have kept: "kept lo lo'" using adds by (simp add: adds_def)
  have cx: "context_of lo 0 m cm" using start(1) cm contexts by (simp add: context_of_def flattened_def)
  have entries: "\<forall>si \<in> set (m_signals m). has_entry lo 0 si"
    using start(4) [of 0] cm by (simp add: typed_module_def)
  have "set (concat comb) = assign_op ` set ?as"
    using schedule_assignments_total [of ord ?as] lo'(3) made(1) by auto
  moreover have "acyclic_assignments ?as \<longrightarrow> ordered_comb comb"
    using schedule_ordered [OF ord, of ?as] lo'(3) made(1) by auto
  ultimately have "flat_program lo m cm p"
    using cx flat kept made entries unfolding flat_program_def
    by (simp add: lo'(4) packed_of_def signals_of_def kept_def image_image del: set_concat)
  then show ?thesis ..
qed

section \<open>The signals a lowered expression reads\<close>

lemma lower_raw_expr_deps:
  "pe_signal_deps (fst (lower_raw_expr lo i m e ty)) \<subseteq> {j. \<exists>s \<in> set (expr_signal_deps e). lo_signal_map lo (i, s) = Some j}"
proof (induction e arbitrary: ty)
  case (Sig s)
  then show ?case by (auto simp: find_signal_def split: option.splits)
next
  case (EConcat ps)
  then show ?case by (fastforce simp: Let_def)
qed (fastforce simp: Let_def case_prod_beta)+

section \<open>One solution of an ordered stream\<close>

lemma ordered_unique:
  assumes "ordered_comb ps" "stream_holds ps (S, R)" "stream_holds ps (S', R)" "\<forall>i. i \<notin> stream_assigns ps \<longrightarrow> S i = S' i"
  shows "S = S'"
  using assms
proof (induction ps)
  case Nil
  then show ?case by (auto simp: stream_assigns_def)
next
  case (Cons ops rest)
  let ?D = "stream_assigns (ops # rest)"
  have reads: "\<forall>x \<in> set ops. op_reads_none ?D x" and rest: "ordered_comb rest" using Cons.prems(1) by simp_all
  have holds: "\<forall>x \<in> set ops. op_holds (S, R) x \<and> op_holds (S', R) x" "stream_holds rest (S, R)" "stream_holds rest (S', R)"
    using Cons.prems(2,3) by (auto simp: stream_holds_def)
  have "S i = S' i" if "i \<notin> stream_assigns rest" for i
  proof (cases "i \<in> ?D")
    case True
    with that obtain x where x: "x \<in> set ops" "i \<in> set (op_assigns x)" by (auto simp: stream_assigns_def)
    obtain d e where d: "x = Assign d e" "pe_signal_deps e \<inter> ?D = {}" using ordered_assign [OF reads x(1)] by blast
    have "pe_value S R e = pe_value S' R e"
    proof (rule pe_value_cong, rule ballI)
      fix j assume "j \<in> pe_signal_deps e"
      with d(2) have "j \<notin> ?D" by blast
      with Cons.prems(4) show "S j = S' j" by blast
    qed
    with bspec [OF holds(1) x(1)] x(2) d(1) show ?thesis by (simp add: eval_in_def)
  qed (use Cons.prems(4) in blast)
  with Cons.IH [OF rest holds(2,3)] show ?case by blast
qed

section \<open>The setting\<close>

text \<open>
  A flat module that the scalar simulator evaluates exactly, without asynchronous resets, and
  whose assignments do not read their own destination.
\<close>

definition flat_scalar :: "rmodule \<Rightarrow> bool" where
  "flat_scalar m \<longleftrightarrow> exact_module m \<and> no_async_reset m \<and> m_instances m = [] \<and> small_addresses m
     \<and> list_all (\<lambda>a. as_dst a \<notin> set (expr_signal_deps (as_expr a))) (m_assignments m)"

definition flat_setting :: "design \<Rightarrow> lowering \<Rightarrow> rmodule \<Rightarrow> compiled_module \<Rightarrow> packed_program \<Rightarrow> (signal \<Rightarrow> nat) \<Rightarrow> bool" where
  "flat_setting d lo m cm p level \<longleftrightarrow> flat_program lo m cm p \<and> module_compiled d m cm \<and> flat_scalar m \<and> ordered m level
     \<and> list_all (register_ok m) (m_signals m) \<and> list_all (write_ok m) (m_memory_writes m)"

lemma flat_settingD:
  assumes "flat_setting d lo m cm p level"
  shows "context_of lo 0 m cm" "signals_of lo p" "exact_module m" "small_addresses m" "no_async_reset m" "m_instances m = []"
    "ordered m level" "signals_wf m" "allocated lo"
    "list_all2 (assignment_matches m) (m_assignments m) (cm_assignments cm)"
    "list_all2 (register_matches m) (filter (\<lambda>si. is_reg_kind (si_kind si)) (m_signals m)) (cm_registers cm)"
    "list_all2 (write_matches m) (m_memory_writes m) (cm_memory_writes cm)"
    "\<forall>si \<in> set (m_signals m). register_ok m si" "\<forall>w \<in> set (m_memory_writes m). write_ok m w"
  using assms
  by (simp_all add: flat_setting_def flat_program_def flat_scalar_def exact_module_def module_compiled_def context_of_def list_all_iff)

lemma exact_expr_safe: "exact_expr m w e \<Longrightarrow> eval_safe m e"
  by (auto simp: exact_expr_def split: prod.splits option.splits list.splits)

lemma flat_value:
  assumes s: "flat_setting d lo m cm p level" and link: "linked lo 0 V M st" and ok: "store_ok m V M"
    and e: "exact_expr m w e" "compiled_ok m e c" "expr_quiet lo 0 cm c"
  shows "eval_in st (expr_of lo 0 cm c) = uint (sem m V M e)"
  using lower_raw_expr_value [OF flat_settingD(1) [OF s] link ok flat_settingD(4) [OF s], of e "ce_ty c"] e exact_expr_safe [OF e(1)]
  by (simp add: compiled_ok_def expr_quiet_def expr_of_def lower_compiled_expr_def lowers_value_def)

section \<open>The assignments are acyclic\<close>

lemma signal_map_inj:
  assumes "allocated lo" "lo_signal_map lo (i, s) = Some j" "lo_signal_map lo (i, t) = Some j"
  shows "s = t"
  using assms unfolding allocated_def keys_ok_def injective_map_def by blast

lemma no_self_deps:
  "as_dst a \<notin> set (expr_signal_deps (as_expr a)) \<Longrightarrow> set (expr_signal_deps (as_expr a)) \<subseteq> as_deps a"
  using full_deps [of a] by blast

lemma flat_acyclic:
  assumes s: "flat_setting d lo m cm p level"
  shows "acyclic_assignments (map (assignment_of lo 0 cm) (cm_assignments cm))"
proof -
  let ?as = "m_assignments m" and ?cs = "cm_assignments cm"
  let ?j = "\<lambda>a. the (lo_signal_map lo (0, as_dst a))"
  have len: "length ?cs = length ?as" using list_all2_lengthD [OF flat_settingD(10) [OF s]] by simp
  have match: "assignment_matches m (?as ! k) (?cs ! k)" if "k < length ?as" for k
    using flat_settingD(10) [OF s] that by (simp add: list_all2_conv_all_nth)
  have quiet: "assignment_quiet lo 0 cm (?cs ! k)" if "k < length ?as" for k
    using s that len by (simp add: flat_setting_def flat_program_def)
  have at: "lo_signal_map lo (0, as_dst (?as ! k)) = Some (?j (?as ! k))" if "k < length ?as" for k
    using quiet [OF that] match [OF that] by (auto simp: assignment_quiet_def assignment_matches_def)
  have dst: "fa_dst (assignment_of lo 0 cm (?cs ! k)) = ?j (?as ! k)" if "k < length ?as" for k
    using match [OF that] by (simp add: assignment_of_def assignment_matches_def)
  have ord: "distinct (map as_dst ?as)" "\<And>a t. a \<in> set ?as \<Longrightarrow> t \<in> as_deps a \<Longrightarrow> t \<in> dsts m \<Longrightarrow> level t < level (as_dst a)"
    using flat_settingD(7) [OF s] by (auto simp: ordered_def list_all_iff)
  have inj: "as_dst (?as ! k) = as_dst (?as ! l)" if "k < length ?as" "l < length ?as" "?j (?as ! k) = ?j (?as ! l)" for k l
    using signal_map_inj [OF flat_settingD(9) [OF s] at [OF that(1)], of "as_dst (?as ! l)"] at [OF that(2)] that(3) by simp
  have "distinct (map fa_dst (map (assignment_of lo 0 cm) ?cs))"
    unfolding distinct_conv_nth
  proof (intro allI impI)
    fix k l assume kl: "k < length (map fa_dst (map (assignment_of lo 0 cm) ?cs))" "l < length (map fa_dst (map (assignment_of lo 0 cm) ?cs))" "k \<noteq> l"
    then have "as_dst (?as ! k) \<noteq> as_dst (?as ! l)" using ord(1) len nth_eq_iff_index_eq [of "map as_dst ?as" k l] by simp
    with inj kl len dst show "map fa_dst (map (assignment_of lo 0 cm) ?cs) ! k \<noteq> map fa_dst (map (assignment_of lo 0 cm) ?cs) ! l"
      by auto
  qed
  moreover have "level (as_dst (?as ! l)) < level (as_dst (?as ! k))"
    if kl: "k < length ?as" "l < length ?as" and dep: "?j (?as ! l) \<in> pe_signal_deps (fa_expr (assignment_of lo 0 cm (?cs ! k)))" for k l
  proof -
    have e: "ce_expr (ca_expr (?cs ! k)) = as_expr (?as ! k)" using match [OF kl(1)] by (simp add: assignment_matches_def compiled_ok_def)
    have "?j (?as ! l) \<in> {j. \<exists>t \<in> set (expr_signal_deps (as_expr (?as ! k))). lo_signal_map lo (0, t) = Some j}"
      using dep subsetD [OF lower_raw_expr_deps] e by (fastforce simp: assignment_of_def expr_of_def lower_compiled_expr_def)
    then obtain t where t: "t \<in> set (expr_signal_deps (as_expr (?as ! k)))" "lo_signal_map lo (0, t) = Some (?j (?as ! l))" by blast
    have "t = as_dst (?as ! l)" using signal_map_inj [OF flat_settingD(9) [OF s] t(2) at [OF kl(2)]] .
    moreover have "as_dst (?as ! k) \<notin> set (expr_signal_deps (as_expr (?as ! k)))"
      using s kl(1) by (simp add: flat_setting_def flat_scalar_def list_all_length)
    ultimately have "as_dst (?as ! l) \<in> as_deps (?as ! k)" using no_self_deps t(1) by blast
    with ord(2) kl show ?thesis by simp
  qed
  ultimately show ?thesis unfolding acyclic_assignments_def
    using len dst by (intro conjI exI [of _ "\<lambda>k. level (as_dst (?as ! k))"]) simp_all
qed

section \<open>Settling\<close>

lemma flat_no_async:
  assumes s: "flat_setting d lo m cm p level"
  shows "st_async_reset_comb (pp_streams p) = []"
proof -
  have "pr_kind rst \<noteq> Async" if r: "r \<in> set (cm_registers cm)" and rst: "rr_reset (register_of lo 0 cm r) = Some rst" for r rst
  proof -
    obtain si where si: "si \<in> set (m_signals m)" "register_matches m si r" using list_all2_in_right [OF flat_settingD(11) [OF s] r] by auto
    then obtain x where "cr_reset r = Some x" "pr_kind rst = rst_kind x" "\<exists>clk nxt. si_kind si = KReg clk (Some x) nxt"
      using rst by (auto simp: register_matches_def register_of_def reset_of_def)
    with flat_settingD(5) [OF s] si(1) show ?thesis by (fastforce simp: no_async_reset_def list_all_iff)
  qed
  then have "List.map_filter (\<lambda>r. case rr_reset r of None \<Rightarrow> None | Some rst \<Rightarrow> if pr_kind rst \<noteq> Async then None
      else Some (CaptureReg (rr_signal r) (PExpr (PLit (pr_value rst)) (pe_ty (rr_next r))) (Some rst)))
      (map (register_of lo 0 cm) (cm_registers cm)) = []"
    by (auto simp: List.map_filter_def filter_empty_conv split: option.splits)
  with s show ?thesis by (simp add: flat_setting_def flat_program_def schedule_async_resets_def as_packet_def)
qed

lemma settle_linked:
  assumes s: "flat_setting d lo m cm p level" and link: "linked lo 0 V M st"
    and ok: "store_ok m V' M" and settled: "\<forall>a \<in> set (m_assignments m). V' (as_dst a) = Some (sem m V' M (as_expr a))"
    and frame: "\<forall>t. t \<notin> dsts m \<longrightarrow> V' t = V t"
  shows "linked lo 0 V' M (settle_spec p st)"
proof -
  let ?ps = "st_comb (pp_streams p)"
  have ordered: "ordered_comb ?ps" using s flat_acyclic [OF s] by (simp add: flat_setting_def flat_program_def)
  note settle = settle_holds [OF ordered flat_no_async [OF s], where st = st]
  define S where "S j = (if \<exists>t. lo_signal_map lo (0, t) = Some j
    then uint (get_value V' (SOME t. lo_signal_map lo (0, t) = Some j)) else fst st j)" for j
  have S: "S j = uint (get_value V' t)" if "lo_signal_map lo (0, t) = Some j" for t j
  proof -
    have "(SOME t. lo_signal_map lo (0, t) = Some j) = t"
      using signal_map_inj [OF flat_settingD(9) [OF s] _ that] that by (blast intro: some_equality)
    with that show ?thesis by (auto simp: S_def)
  qed
  have new: "linked lo 0 V' M (S, snd st)" using link S by (simp add: linked_def)
  have ops: "set (concat ?ps) = assign_op ` assignment_of lo 0 cm ` set (cm_assignments cm)"
    using s by (simp add: flat_setting_def flat_program_def)
  have holds: "stream_holds ?ps (S, snd st)"
    unfolding stream_holds_def ops
  proof (intro ballI)
    fix x assume "x \<in> assign_op ` assignment_of lo 0 cm ` set (cm_assignments cm)"
    then obtain c where c: "c \<in> set (cm_assignments cm)" "x = assign_op (assignment_of lo 0 cm c)" by blast
    obtain a where a: "a \<in> set (m_assignments m)" "assignment_matches m a c" using list_all2_in_right [OF flat_settingD(10) [OF s] c(1)] by blast
    have quiet: "assignment_quiet lo 0 cm c" using s c(1) by (simp add: flat_setting_def flat_program_def)
    obtain w where "exact_expr m w (as_expr a)"
      using flat_settingD(3) [OF s] a(1) by (auto simp: exact_module_def list_all_iff exact_assignment_def split: option.splits)
    from flat_value [OF s new ok this, of "ca_expr c"] a(2) quiet
    have "eval_in (S, snd st) (expr_of lo 0 cm (ca_expr c)) = uint (sem m V' M (as_expr a))"
      by (simp add: assignment_matches_def assignment_quiet_def)
    moreover obtain j where j: "lo_signal_map lo (0, as_dst a) = Some j"
      using quiet a(2) by (auto simp: assignment_quiet_def assignment_matches_def)
    ultimately show "op_holds (S, snd st) x"
      using settled a S [OF j] c(2) by (simp add: assign_op_def assignment_of_def assignment_matches_def get_value_def)
  qed
  have same: "S i = fst (settle_spec p st) i" if i: "i \<notin> stream_assigns ?ps" for i
  proof (cases "\<exists>t. lo_signal_map lo (0, t) = Some i")
    case True
    then obtain t where t: "lo_signal_map lo (0, t) = Some i" by blast
    have "t \<notin> dsts m"
    proof
      assume "t \<in> dsts m"
      then obtain a where a: "a \<in> set (m_assignments m)" "as_dst a = t" by blast
      then obtain k where "k < length (m_assignments m)" "m_assignments m ! k = a" by (auto simp: in_set_conv_nth)
      then have c: "cm_assignments cm ! k \<in> set (cm_assignments cm)" "assignment_matches m a (cm_assignments cm ! k)"
        using flat_settingD(10) [OF s] by (auto simp: list_all2_conv_all_nth)
      then have "assign_op (assignment_of lo 0 cm (cm_assignments cm ! k)) \<in> set (concat ?ps)" unfolding ops by blast
      moreover have "op_assigns (assign_op (assignment_of lo 0 cm (cm_assignments cm ! k))) = [i]"
        using c(2) a(2) t by (simp add: assign_op_def assignment_of_def assignment_matches_def)
      ultimately have "i \<in> stream_assigns ?ps" unfolding stream_assigns_def by force
      with i show False by simp
    qed
    with frame have "V' t = V t" by blast
    then have "S i = fst st i" using S [OF t] link t by (simp add: linked_def get_value_def)
    with settle(4) [OF i] show ?thesis by simp
  next
    case False
    then show ?thesis using settle(4) [OF i] by (simp add: S_def)
  qed
  have "stream_holds ?ps (fst (settle_spec p st), snd st)" using settle(1,3) by (metis prod.collapse)
  from ordered_unique [OF ordered holds this] same have "S = fst (settle_spec p st)" by blast
  with new settle(3) show ?thesis by (metis prod.collapse)
qed

end
