(* ===== verification/Packed_Flat_Edge.thy ===== *)
theory Packed_Flat_Edge
  imports Packed_Flat_Step
begin

text \<open>
  A clock edge of the packed program of a flat module simulates the clock edge of the scalar
  simulator: the memory writes, the capture of the registers and the settling after it.
\<close>

section \<open>Memory writes\<close>

text \<open>Every memory of the module is a vector of its depth.\<close>

definition mems_sized :: "rmodule \<Rightarrow> sig_memories \<Rightarrow> bool" where
  "mems_sized m M \<longleftrightarrow> (\<forall>si \<in> set (m_signals m). \<forall>aw dw depth. si_kind si = KMem aw dw depth \<longrightarrow>
     (\<exists>ws. M (si_handle si) = Some ws \<and> length ws = depth))"

definition mem_linked :: "lowering \<Rightarrow> sig_memories \<Rightarrow> (nat \<Rightarrow> int \<Rightarrow> int) \<Rightarrow> bool" where
  "mem_linked lo M R \<longleftrightarrow> (\<forall>s j x. lo_memory_map lo (0, s) = Some j \<longrightarrow> take_bit 64 x = x \<longrightarrow>
     R j (uint x) = uint (memory_word M s x))"

lemma linked_iff:
  "linked lo 0 V M (S, R) \<longleftrightarrow> (\<forall>s j. lo_signal_map lo (0, s) = Some j \<longrightarrow> S j = uint (get_value V s)) \<and> mem_linked lo M R"
  by (simp add: linked_def mem_linked_def)

lemma as_usize_small: "take_bit 64 x = x \<Longrightarrow> as_usize x = unat x"
  by (simp add: as_usize_def)

lemma as_usize_less: "take_bit 64 x = x \<Longrightarrow> uint x < int n \<longleftrightarrow> as_usize x < n"
  using of_nat_less_iff [of "unat x" n, where 'a = int] by (simp only: as_usize_small uint_nat)

lemma memory_map_inj:
  assumes "allocated lo" "lo_memory_map lo (i, s) = Some j" "lo_memory_map lo (i, t) = Some j"
  shows "s = t"
  using assms unfolding allocated_def keys_ok_def injective_map_def by blast

lemma memory_key:
  assumes cx: "context_of lo i m cm" and j: "lo_memory_map lo (i, s) = Some j"
  shows "\<exists>si aw dw. si \<in> set (m_signals m) \<and> si_handle si = s \<and> module_signal m s = Some si
    \<and> si_kind si = KMem aw dw (pm_depth (lo_memories lo ! j))"
proof -
  have "find_memory lo i s cm = (Some j, [])" using j by (simp add: find_memory_def)
  from find_memory_found [OF cx this] obtain si aw dw where si: "module_signal m s = Some si"
    "si_kind si = KMem aw dw (pm_depth (lo_memories lo ! j))" using j by auto
  moreover have "si_handle si = s"
  proof -
    obtain si' where si': "key_signal lo i s si'"
      using cx j unfolding context_of_def allocated_def keys_ok_def memory_keys_ok_def by blast
    then have "module_signal m s = Some si'"
      using cx signals_wf_lookup by (auto simp: key_signal_def context_of_def typed_module_def)
    with si si' show ?thesis by (simp add: key_signal_def)
  qed
  ultimately show ?thesis using module_signal_in by blast
qed

lemma condition_odd:
  assumes "exact_expr m 1 e"
  shows "odd (uint (sem m V M e)) \<longleftrightarrow> sem m V M e \<noteq> 0"
proof -
  obtain ty where ty: "has_type m e ty" "bt_width ty = 1" "eval_safe m e"
    using assms expr_type_sound by (auto simp: exact_expr_def split: prod.splits option.splits list.splits)
  have "take_bit 1 (sem m V M e) = sem m V M e" using sem_fits [OF ty(1,3)] ty(2) by simp
  then have "uint (sem m V M e) = uint (sem m V M e) mod 2" by (metis power_one_right take_bit_eq_mod uint_take_bit)
  then show ?thesis by (metis odd_iff_mod_2_eq_one uint_0_iff even_iff_mod_2_eq_zero)
qed

lemma memory_word_store:
  assumes "M t = Some ws" "take_bit 64 a = a" "take_bit 64 x = x"
  shows "memory_word (M(t \<mapsto> store_word ws (as_usize a) v)) u x
    = (if u = t \<and> x = a \<and> as_usize a < length ws then v else memory_word M u x)"
proof -
  have "as_usize x = as_usize a \<longleftrightarrow> x = a" using assms(2,3) by (metis as_usize_small word_unat_eq_iff)
  with assms(1) show ?thesis by (auto simp: memory_word_def store_word_def vec_get_def nth_list_update)
qed

lemma mems_sized_store:
  "mems_sized m M \<Longrightarrow> M t = Some ws \<Longrightarrow> mems_sized m (M(t \<mapsto> store_word ws a v))"
  by (auto simp: mems_sized_def store_word_def)

lemma memory_write_linked:
  assumes s: "flat_setting d lo m cm p level" and link: "linked lo 0 V M st0" and ok: "store_ok m V M"
    and w: "w \<in> set (m_memory_writes m)" "write_matches m w c" "write_quiet lo 0 cm c"
    and mem: "mem_linked lo M' R" "mems_sized m M'"
  shows "\<exists>R'. op_spec p st0 (write_of lo 0 cm c) (S, R) = (S, R')
    \<and> mem_linked lo (mem_write_spec m V M w M') R' \<and> mems_sized m (mem_write_spec m V M w M')"
proof -
  let ?en = "sem m V M (mw_enable w)" and ?a = "sem m V M (mw_addr w)" and ?x = "sem m V M (mw_data w)"
  have exact: "exact_write m w" using flat_settingD(3) [OF s] w(1) by (simp add: exact_module_def list_all_iff)
  then obtain si where si: "module_signal m (mw_mem w) = Some si" "exact_expr m 1 (mw_enable w)" "exact_expr m (si_width si) (mw_data w)"
    "exact_expr m (type_width m (mw_addr w)) (mw_addr w)" by (auto simp: exact_write_def exact_condition_def split: option.splits)
  have c: "cmw_mem c = mw_mem w" "compiled_ok m (mw_enable w) (cmw_enable c)" "compiled_ok m (mw_addr w) (cmw_addr c)"
    "compiled_ok m (mw_data w) (cmw_data c)" using w(2) by (simp_all add: write_matches_def)
  obtain j where j: "lo_memory_map lo (0, mw_mem w) = Some j"
    and quiet: "expr_quiet lo 0 cm (cmw_enable c)" "expr_quiet lo 0 cm (cmw_addr c)" "expr_quiet lo 0 cm (cmw_data c)"
    using w(3) c(1) by (auto simp: write_quiet_def)
  note vals = flat_value [OF s link ok si(2) c(2) quiet(1)] flat_value [OF s link ok si(4) c(3) quiet(2)]
    flat_value [OF s link ok si(3) c(4) quiet(3)]
  obtain si' aw dw where key: "si' \<in> set (m_signals m)" "si_handle si' = mw_mem w" "module_signal m (mw_mem w) = Some si'"
    "si_kind si' = KMem aw dw (pm_depth (lo_memories lo ! j))"
    using memory_key [OF flat_settingD(1) [OF s] j] by blast
  let ?depth = "pm_depth (lo_memories lo ! j)"
  have depth: "pm_depth (pp_memories p ! j) = ?depth" using flat_settingD(8) [OF s] s
    by (simp add: flat_setting_def flat_program_def signals_of_def)
  obtain ws where ws: "M' (mw_mem w) = Some ws" "length ws = ?depth" using mem(2) key(1,2,4) unfolding mems_sized_def by metis
  have "has_type m (mw_addr w) (uint_ty aw)"
    using bspec [OF flat_settingD(14) [OF s] w(1)] key(3,4) by (auto simp: write_ok_def)
  then have "take_bit aw ?a = ?a" using sem_fits [of m "mw_addr w" "uint_ty aw"] exact_expr_safe [OF si(4)] by simp
  moreover have "aw \<le> 64" using flat_settingD(4) [OF s] key(1,4) by (auto simp: small_addresses_def)
  ultimately have a: "take_bit 64 ?a = ?a" by (metis min.absorb2 take_bit_take_bit)
  have less: "uint ?a < int ?depth \<longleftrightarrow> as_usize ?a < ?depth" using a by (rule as_usize_less)
  define R' where "R' = (if ?en \<noteq> 0 \<and> as_usize ?a < ?depth then R(j := (R j)(uint ?a := uint ?x)) else R)"
  have wr: "write_of lo 0 cm c = MemoryWrite j (expr_of lo 0 cm (cmw_enable c)) (expr_of lo 0 cm (cmw_addr c)) (expr_of lo 0 cm (cmw_data c))"
    using c(1) j by (simp add: write_of_def)
  have "op_spec p st0 (write_of lo 0 cm c) (S, R) = (S, R')"
    unfolding wr op_spec.simps vals condition_odd [OF si(2)] depth less R'_def by simp
  moreover have "mem_linked lo (mem_write_spec m V M w M') R'"
    unfolding mem_linked_def
  proof (intro allI impI)
    fix t k x assume k: "lo_memory_map lo (0, t) = Some k" and x: "take_bit 64 x = (x :: u128)"
    have old: "R k (uint x) = uint (memory_word M' t x)" using mem(1) k x by (simp add: mem_linked_def)
    have same: "k = j \<longleftrightarrow> t = mw_mem w" using memory_map_inj [OF flat_settingD(9) [OF s]] k j option.inject by metis
    have new: "memory_word (mem_write_spec m V M w M') t x
        = (if ?en \<noteq> 0 \<and> t = mw_mem w \<and> x = ?a \<and> as_usize ?a < ?depth then ?x else memory_word M' t x)"
      unfolding mem_write_spec_def ws(1) option.case if_distrib [of "\<lambda>M. memory_word M t x"] memory_word_store [where M = M', OF ws(1) a x] ws(2)
      by (cases "?en = 0") simp_all
    show "R' k (uint x) = uint (memory_word (mem_write_spec m V M w M') t x)"
      unfolding new R'_def using old same by (cases "?en = 0"; cases "as_usize ?a < ?depth"; cases "t = mw_mem w") (simp_all flip: word_uint_eq_iff)
  qed
  moreover have "mems_sized m (mem_write_spec m V M w M')"
    using mems_sized_store [OF mem(2) ws(1)] mem(2) ws(1) by (simp add: mem_write_spec_def)
  ultimately show ?thesis by blast
qed

lemma memory_writes_linked:
  assumes s: "flat_setting d lo m cm p level" and link: "linked lo 0 V M st0" and ok: "store_ok m V M"
  shows "list_all2 (write_matches m) ws cs \<Longrightarrow> set ws \<subseteq> set (m_memory_writes m) \<Longrightarrow> set cs \<subseteq> set (cm_memory_writes cm) \<Longrightarrow>
    mem_linked lo M' R \<Longrightarrow> mems_sized m M' \<Longrightarrow>
    \<exists>R'. fold (op_spec p st0) (map (write_of lo 0 cm) cs) (S, R) = (S, R')
      \<and> mem_linked lo (foldl (\<lambda>M' w. mem_write_spec m V M w M') M' ws) R'
      \<and> mems_sized m (foldl (\<lambda>M' w. mem_write_spec m V M w M') M' ws)"
proof (induction arbitrary: M' R rule: list_all2_induct)
  case (Cons w ws c cs)
  have quiet: "write_quiet lo 0 cm c" using s Cons.prems(2) by (simp add: flat_setting_def flat_program_def)
  have w: "w \<in> set (m_memory_writes m)" using Cons.prems(1) by simp
  obtain R1 where R1: "op_spec p st0 (write_of lo 0 cm c) (S, R) = (S, R1)"
    "mem_linked lo (mem_write_spec m V M w M') R1" "mems_sized m (mem_write_spec m V M w M')"
    using memory_write_linked [OF s link ok w Cons(1) quiet Cons.prems(3,4)] by blast
  show ?case using Cons.IH [OF _ _ R1(2,3)] Cons.prems(1,2) R1(1) by simp
qed simp

section \<open>The capture of the registers\<close>

lemma commit_lookup:
  assumes "distinct (map fst us)" "(i, v) \<in> set us"
  shows "commit_spec us S i = v"
  using assms
proof (induction us arbitrary: S)
  case (Cons u us)
  have frame: "i \<notin> fst ` set us \<Longrightarrow> commit_spec us S i = S i" for S
    by (induction us arbitrary: S) (auto simp: commit_spec_def)
  show ?case
  proof (cases "(i, v) \<in> set us")
    case True
    with Cons show ?thesis by (simp add: commit_spec_def split_beta)
  next
    case False
    with Cons.prems have "u = (i, v)" by simp
    with Cons.prems(1) have u: "u = (i, v)" "i \<notin> fst ` set us" by simp_all
    with frame show ?thesis by (simp add: commit_spec_def)
  qed
qed simp

lemma commit_frame: "i \<notin> fst ` set us \<Longrightarrow> commit_spec us S i = S i"
  by (induction us arbitrary: S) (auto simp: commit_spec_def)

lemma reset_linked:
  assumes s: "flat_setting d lo m cm p level" and link: "linked lo 0 V M st" and ok: "store_ok m V M"
    and si: "si \<in> set (m_signals m)" "si_kind si = KReg clk (Some x) nxt"
    and j: "lo_signal_map lo (0, rst_signal x) = Some j"
  shows "reset_active (fst st) \<lparr>pr_signal = j, pr_value = v, pr_kind = rst_kind x, pr_polarity = rst_polarity x\<rparr> \<longleftrightarrow> reset_asserted V x"
proof -
  obtain rsi where rsi: "module_signal m (rst_signal x) = Some rsi" "si_width rsi = 1"
    using bspec [OF flat_settingD(13) [OF s] si(1)] si(2) unfolding register_ok_def by blast
  have "bt_width (si_ty rsi) = 1" using rsi signals_wf_width [OF flat_settingD(8) [OF s]] by fastforce
  then have "take_bit 1 (get_value V (rst_signal x)) = get_value V (rst_signal x)" using store_ok_value [OF ok rsi(1)] by simp
  then have "uint (get_value V (rst_signal x)) = uint (get_value V (rst_signal x)) mod 2"
    by (metis power_one_right take_bit_eq_mod uint_take_bit)
  then have "odd (uint (get_value V (rst_signal x))) \<longleftrightarrow> get_value V (rst_signal x) \<noteq> 0"
    by (metis odd_iff_mod_2_eq_one uint_0_iff even_iff_mod_2_eq_zero)
  moreover have "fst st j = uint (get_value V (rst_signal x))" using link j by (simp add: linked_def)
  ultimately show ?thesis by (simp add: reset_active_def reset_asserted_def split: reset_polarity.split)
qed

lemma capture_linked:
  assumes s: "flat_setting d lo m cm p level" and link: "linked lo 0 V M st" and ok: "store_ok m V M"
    and si: "si \<in> set (m_signals m)" "register_matches m si c" "register_quiet lo 0 cm c"
  shows "\<exists>j. lo_signal_map lo (0, si_handle si) = Some j
    \<and> (let r = register_of lo 0 cm c in capture_spec p st st (CaptureReg (rr_signal r) (rr_next r) (rr_reset r)))
      = [(j, uint (reg_next_spec m V M si))]"
proof -
  obtain e where e: "cr_signal c = si_handle si" "si_kind si = KReg (Some (cr_clock c)) (cr_reset c) (Some e)"
    "compiled_ok m e (cr_next c)" "ce_ty (cr_next c) = si_ty si" using si(2) by (auto simp: register_matches_def)
  obtain j where j: "lo_signal_map lo (0, si_handle si) = Some j" and quiet: "expr_quiet lo 0 cm (cr_next c)"
    "\<forall>x. cr_reset c = Some x \<longrightarrow> lo_signal_map lo (0, rst_signal x) \<noteq> None"
    using si(3) e(1) by (auto simp: register_quiet_def)
  have "exact_signal m si" using flat_settingD(3) [OF s] si(1) by (simp add: exact_module_def list_all_iff)
  then have exact: "exact_expr m (si_width si) e" using e(2) by (simp add: exact_signal_def)
  note val = flat_value [OF s link ok exact e(3) quiet(1)]
  have w: "si_width si = bt_width (si_ty si)"
    using signals_wf_width [OF flat_settingD(8) [OF s]] signals_wf_lookup [OF flat_settingD(8) [OF s] si(1)] by blast
  have "find_signal lo 0 (si_handle si) cm = (Some j, [])" using j by (simp add: find_signal_def)
  from find_signal_found [OF flat_settingD(1) [OF s] this]
  have layout: "j < length (lo_signals lo)" "pl_ty (ps_layout (lo_signals lo ! j)) = si_ty si"
    using signals_wf_lookup [OF flat_settingD(8) [OF s] si(1)] by auto
  have "layout_ok (ps_layout (lo_signals lo ! j))"
    using flat_settingD(9) [OF s] layout(1) unfolding allocated_def layouts_below_def by (meson nth_mem)
  moreover have "pp_signals p = lo_signals lo" using flat_settingD(8) [OF s] s by (simp add: flat_setting_def flat_program_def signals_of_def)
  ultimately have pw: "pl_width (ps_layout (pp_signals p ! j)) = bt_width (si_ty si)" "0 < bt_width (si_ty si)"
    using layout(2) by (auto simp: layout_ok_def width_ok_def)
  have reset: "take_bit (bt_width (si_ty si)) (lval (encode_limbs v (si_ty si))) = uint (take_bit (bt_width (si_ty si)) v)" for v
    using pw(2) by (simp add: lval_encode_limbs uint_take_bit)
  have "(let r = register_of lo 0 cm c in capture_spec p st st (CaptureReg (rr_signal r) (rr_next r) (rr_reset r)))
      = [(j, uint (reg_next_spec m V M si))]"
  proof (cases "cr_reset c")
    case None
    then show ?thesis using val e(1,2) j by (simp add: register_of_def reset_of_def reg_next_spec_def)
  next
    case (Some x)
    then obtain k where k: "lo_signal_map lo (0, rst_signal x) = Some k" using quiet(2) by auto
    have "si_kind si = KReg (Some (cr_clock c)) (Some x) (Some e)" using e(2) Some by simp
    from reset_linked [OF s link ok si(1) this k] show ?thesis
      using val e j k Some pw(1) reset w by (simp add: register_of_def reset_of_def reg_next_spec_def)
  qed
  with j show ?thesis by blast
qed

section \<open>The clock edge\<close>

lemma capture_all_linked:
  assumes s: "flat_setting d lo m cm p level" and link: "linked lo 0 V M st" and ok: "store_ok m V M"
  shows "list_all2 (register_matches m) sis cs \<Longrightarrow> set sis \<subseteq> set (m_signals m) \<Longrightarrow> set cs \<subseteq> set (cm_registers cm) \<Longrightarrow>
    concat (map (capture_spec p st st) (map (\<lambda>r. CaptureReg (rr_signal r) (rr_next r) (rr_reset r)) (map (register_of lo 0 cm) cs)))
      = map (\<lambda>si. (the (lo_signal_map lo (0, si_handle si)), uint (reg_next_spec m V M si))) sis
    \<and> (\<forall>si \<in> set sis. lo_signal_map lo (0, si_handle si) \<noteq> None)"
proof (induction rule: list_all2_induct)
  case (Cons si sis c cs)
  have quiet: "register_quiet lo 0 cm c" using s Cons.prems(2) by (simp add: flat_setting_def flat_program_def)
  have si: "si \<in> set (m_signals m)" using Cons.prems(1) by simp
  obtain j where j: "lo_signal_map lo (0, si_handle si) = Some j"
    "(let r = register_of lo 0 cm c in capture_spec p st st (CaptureReg (rr_signal r) (rr_next r) (rr_reset r)))
      = [(j, uint (reg_next_spec m V M si))]"
    using capture_linked [OF s link ok si Cons(1) quiet] by blast
  show ?case using Cons.IH Cons.prems j by (simp add: Let_def del: capture_spec.simps)
qed simp

lemma next_registers_linked:
  assumes s: "flat_setting d lo m cm p level" and link: "linked lo 0 V M st" and ok: "store_ok m V M"
  shows "next_registers p st = map (\<lambda>si. (the (lo_signal_map lo (0, si_handle si)), uint (reg_next_spec m V M si)))
      (filter is_register (m_signals m))
    \<and> (\<forall>si \<in> set (filter is_register (m_signals m)). lo_signal_map lo (0, si_handle si) \<noteq> None)"
proof -
  have eq: "filter (\<lambda>si. is_reg_kind (si_kind si)) (m_signals m) = filter is_register (m_signals m)"
    by (rule filter_cong) (simp_all add: is_reg_kind_def is_register_def)
  have "st_tick_next (pp_streams p) = schedule_tick_next (map (register_of lo 0 cm) (cm_registers cm))"
    using s by (simp add: flat_setting_def flat_program_def)
  then have "concat (st_tick_next (pp_streams p)) =
      map (\<lambda>r. CaptureReg (rr_signal r) (rr_next r) (rr_reset r)) (map (register_of lo 0 cm) (cm_registers cm))"
    by (simp add: schedule_tick_next_def as_packet_def)
  with capture_all_linked [OF s link ok flat_settingD(11) [OF s, unfolded eq]] show ?thesis
    unfolding next_registers_def by auto
qed

lemma edge_linked:
  assumes s: "flat_setting d lo m cm p level" and link: "linked lo 0 V1 M st" and ok: "store_ok m V1 M" "store_ok m V2 M2"
    and sized: "mems_sized m M" and step: "clock_step m V1 M V2 M2"
  shows "linked lo 0 V2 M2 (settle_spec p (edge_spec p st)) \<and> mems_sized m M2"
proof -
  let ?rs = "filter is_register (m_signals m)" and ?J = "\<lambda>si. the (lo_signal_map lo (0, si_handle si))"
  have wf: "signals_wf m" by (rule flat_settingD(8) [OF s])
  obtain S R where st: "st = (S, R)" by (cases st)
  have mem: "mem_linked lo M R" using link by (simp add: st linked_iff)
  obtain R' where R': "fold (op_spec p st) (map (write_of lo 0 cm) (cm_memory_writes cm)) (S, R) = (S, R')"
    "mem_linked lo M2 R'" "mems_sized m M2"
    using memory_writes_linked [OF s link ok(1) flat_settingD(12) [OF s] order_refl order_refl mem sized] step
    unfolding clock_step_def by blast
  have "st_tick_commit (pp_streams p) = schedule_memory_writes (map (write_of lo 0 cm) (cm_memory_writes cm))"
    using s by (simp add: flat_setting_def flat_program_def)
  then have commit: "block_spec p (st_tick_commit (pp_streams p)) st = (S, R')"
    using R'(1) by (auto simp: schedule_memory_writes_def as_packet_def block_spec_def packet_spec_def st)
  note regs = next_registers_linked [OF s link ok(1)]
  define W where "W t = (if t \<in> si_handle ` set ?rs then V2 t else V1 t)" for t
  have inj: "si_handle si = t" if "si \<in> set ?rs" "lo_signal_map lo (0, t) = Some (?J si)" for si t
    using signal_map_inj [OF flat_settingD(9) [OF s] _ that(2), of "si_handle si"] regs that(1) by auto
  have "distinct (map si_handle ?rs)" using signals_wf_distinct [OF wf] by (rule distinct_map_filter)
  then have "distinct (map ?J ?rs)"
    unfolding distinct_map inj_on_def
    using inj regs by (metis (no_types, lifting) option.exhaust_sel)
  then have distinct: "distinct (map fst (next_registers p st))" using regs by (simp add: comp_def)
  have signals: "commit_spec (next_registers p st) S j = uint (get_value W t)" if j: "lo_signal_map lo (0, t) = Some j" for t j
  proof (cases "t \<in> si_handle ` set ?rs")
    case True
    then obtain si where si: "si \<in> set ?rs" "si_handle si = t" by blast
    then have "(j, uint (reg_next_spec m V1 M si)) \<in> set (next_registers p st)" using regs j by force
    moreover have "W t = Some (reg_next_spec m V1 M si)" using True si step by (auto simp: W_def clock_step_def)
    ultimately show ?thesis using commit_lookup [OF distinct] by (simp add: get_value_def)
  next
    case False
    then have "j \<notin> fst ` set (next_registers p st)" using regs inj j by fastforce
    then show ?thesis using commit_frame False link j by (simp add: W_def st linked_iff get_value_def)
  qed
  have edge: "linked lo 0 W M2 (edge_spec p st)"
    using signals R'(2) by (simp add: edge_spec_def commit linked_iff)
  have "\<forall>t. t \<notin> dsts m \<longrightarrow> V2 t = W t" using step by (auto simp: clock_step_def W_def)
  moreover have "\<forall>a \<in> set (m_assignments m). V2 (as_dst a) = Some (sem m V2 M2 (as_expr a))"
    using step by (simp add: clock_step_def)
  ultimately show ?thesis using settle_linked [OF s edge ok(2)] R'(3) by blast
qed

end
