(* ===== verification/Scalar_New.thy ===== *)
theory Scalar_New
  imports Validate_Sound
begin

text \<open>
  The constructor of the scalar simulator: \<open>Simulator::new_with_init\<close> validates the design,
  looks the module up, builds the instance tree and evaluates it once.  The recursion along the
  instances is bounded by the number of modules, which acceptance makes enough.
\<close>

section \<open>The constructor\<close>

definition construction_fuel :: "design \<Rightarrow> nat" where
  "construction_fuel d = Suc (length (ds_modules d))"

definition default_simulation_init :: simulation_init where
  "default_simulation_init = \<lparr>init_registers = Map.empty, init_memories = Map.empty\<rparr>"

definition new_with_init ::
  "hash_order \<Rightarrow> design \<Rightarrow> string \<Rightarrow> simulation_init \<Rightarrow> (error_report + simulator) option" where
  "new_with_init ord d name init =
     do { valid \<leftarrow> validate_design ord d;
          case valid of
            Inl ds \<Rightarrow> Some (Inl ds)
          | Inr _ \<Rightarrow>
              (case find_module d name of
                 None \<Rightarrow> Some (Inl [new_diag ''E_SIM_MODULE''
                           (''module `'' @ name @ ''` does not exist'')])
               | Some m \<Rightarrow>
                   if m_is_external m then Some (Inl [err_extern_module name])
                   else if module_has_inout m then Some (Inl [err_inout name])
                   else do { built \<leftarrow> from_module (construction_fuel d) d init m (m_name m);
                             case built of
                               Inl e \<Rightarrow> Some (Inl e)
                             | Inr s \<Rightarrow> do { s' \<leftarrow> eval_combinational d s; Some (Inr s') } }) }"

definition new_simulator :: "hash_order \<Rightarrow> design \<Rightarrow> string \<Rightarrow> (error_report + simulator) option" where
  "new_simulator ord d name = new_with_init ord d name default_simulation_init"

section \<open>The depth of the instance tree\<close>

text \<open>A ranking can be taken below the number of modules.\<close>

lemma ranked_bounded:
  assumes "ranked d rank"
  shows "\<exists>rank'. ranked d rank' \<and> (\<forall>m \<in> set (ds_modules d). rank' (m_name m) < construction_fuel d)"
proof -
  let ?N = "m_name ` set (ds_modules d)"
  let ?r = "\<lambda>x. card {y \<in> ?N. rank y < rank x}"
  have "?r (m_name cm) < ?r (m_name m)"
    if "m \<in> set (ds_modules d)" "i \<in> set (m_instances m)" "find_module d (in_module i) = Some cm" for m i cm
  proof (rule psubset_card_mono)
    have less: "rank (m_name cm) < rank (m_name m)" using assms that by (fastforce simp: ranked_def)
    have "m_name cm \<in> ?N" using that(3) by (auto dest: find_module_name)
    with less show "{y \<in> ?N. rank y < rank (m_name cm)} \<subset> {y \<in> ?N. rank y < rank (m_name m)}" by auto
  qed simp
  then have "ranked d ?r" by (auto simp: ranked_def split: option.split)
  moreover have "?r (m_name m) < construction_fuel d" for m
  proof -
    have "?r (m_name m) \<le> card ?N" by (rule card_mono) auto
    also have "\<dots> \<le> length (ds_modules d)" using card_image_le card_length by (metis finite_set le_trans)
    finally show ?thesis by (simp add: construction_fuel_def)
  qed
  ultimately show ?thesis by blast
qed

lemma accepted_construction:
  assumes "validate_design ord d = Some (Inr ())" "m \<in> set (ds_modules d)"
  shows "from_module (construction_fuel d) d init m path \<noteq> None"
  using accepted_ranked [OF assms(1)] ranked_bounded from_module_total assms(2) by blast

lemma accepted_construction_Inr:
  assumes "validate_design ord d = Some (Inr ())" "m \<in> set (ds_modules d)" "simulable d"
  shows "\<exists>s. from_module (construction_fuel d) d init m path = Some (Inr s)"
  using accepted_ranked [OF assms(1)] ranked_bounded from_module_Inr assms(2,3) by blast

section \<open>What the constructor returns\<close>

lemma new_with_init_Inr:
  assumes "new_with_init ord d name init = Some (Inr s)"
  obtains m s0 where "validate_design ord d = Some (Inr ())" "find_module d name = Some m"
    "\<not> m_is_external m" "\<not> module_has_inout m"
    "from_module (construction_fuel d) d init m (m_name m) = Some (Inr s0)"
    "eval_combinational d s0 = Some s"
  using assms unfolding new_with_init_def
  by (auto simp: bind_eq_Some split: sum.split_asm option.split_asm if_split_asm)

lemma new_reaches:
  assumes "new_with_init ord d name init = Some (Inr s)"
  shows "sim_reaches d s"
  using assms by (elim new_with_init_Inr) (metis R_new find_module_name)

lemma flat_from_module:
  assumes "m_instances m = []" "\<not> m_is_external m" "\<not> module_has_inout m"
  shows "from_module (Suc n) d init m path =
    Some (Inr (Simulator m path (initial_values m init) (initial_memories m init) Map.empty []))"
  using assms by simp

lemma flat_store_ok:
  assumes "signals_wf m"
  shows "store_ok m (initial_values m init) (initial_memories m init)"
  using fits.initial_store_ok [OF assms] by (simp add: store_good_iff_store_ok)

lemma new_flat:
  assumes ord: "hash_iteration ord" and ok: "validate_design ord d = Some (Inr ())"
    and m: "find_module d name = Some m" "\<not> m_is_external m" "\<not> module_has_inout m"
    and flat: "m_instances m = []" "no_async_reset m" "exact_module m"
  shows "\<exists>V. new_with_init ord d name init =
      Some (Inr (Simulator m (m_name m) V (initial_memories m init) Map.empty []))
    \<and> all_settled m (initial_memories m init) V \<and> store_ok m V (initial_memories m init)"
proof -
  have mem: "m \<in> set (ds_modules d)" using m(1) by (auto dest: find_module_name)
  have "validate_module ord d m = Some []" using accepted_parts(3) [OF ok] mem by blast
  then obtain level where level: "ordered m level"
    using accepted_ordered [OF ord _ m(2) flat(1)] by blast
  have wf: "signals_wf m" using flat(3) by (simp add: exact_module_def)
  obtain V where V: "eval_combinational d (Simulator m (m_name m) (initial_values m init)
      (initial_memories m init) Map.empty []) =
      Some (Simulator m (m_name m) V (initial_memories m init) Map.empty [])"
    "all_settled m (initial_memories m init) V" "store_ok m V (initial_memories m init)"
    using eval_combinational_settles [OF level wf exact_evaluable [OF flat(3)] flat(2,1) flat_store_ok [OF wf]]
    by blast
  have "new_with_init ord d name init =
      Some (Inr (Simulator m (m_name m) V (initial_memories m init) Map.empty []))"
    using ok m V(1) by (simp add: new_with_init_def construction_fuel_def flat_from_module [OF flat(1)] del: from_module.simps)
  with V show ?thesis by blast
qed

end
