(* ===== verification/Scalar_Properties.thy ===== *)
theory Scalar_Properties
  imports Scalar_Flat
begin

text \<open>
  The properties of the type checker, the expression evaluator and the scalar simulator, each
  with a witness on the concrete modules defined first.
\<close>

section \<open>Concrete modules\<close>

definition empty_module :: "module_id \<Rightarrow> string \<Rightarrow> rmodule" where
  "empty_module i n = \<lparr>m_id = i, m_name = n, m_is_external = False, m_signals = [],
     m_assignments = [], m_memory_writes = [], m_initial_register_values = [],
     m_initial_memory_values = [], m_assertions = [], m_cover_points = [], m_instances = [],
     m_state_types = [], m_state_signals = [], m_bundle_types = [], m_bundle_signals = [],
     m_interface_types = [], m_interface_signals = [], m_builder_diagnostics = []\<rparr>"

definition example_signal :: "module_id \<Rightarrow> signal_id \<Rightarrow> string \<Rightarrow> bit_type \<Rightarrow> signal_kind \<Rightarrow> signal_info" where
  "example_signal m i n ty k = \<lparr>si_handle = \<lparr>sig_module = m, sig_id = i\<rparr>, si_name = n,
     si_width = bt_width ty, si_ty = ty, si_kind = k\<rparr>"

text \<open>
  A counter with a clock, a synchronous reset, an enable, a wrap flag computed before the
  output it reads, and a log memory written when the flag is set.
\<close>

definition csig :: "signal_id \<Rightarrow> signal" where
  "csig i = \<lparr>sig_module = 0, sig_id = i\<rparr>"

definition counter_module :: rmodule where
  "counter_module = (empty_module 0 ''counter'')\<lparr>
     m_signals := [
       example_signal 0 0 ''clk'' (uint_ty 1) KInput,
       example_signal 0 1 ''rst'' (uint_ty 1) KInput,
       example_signal 0 2 ''en'' (uint_ty 1) KInput,
       example_signal 0 3 ''q'' (uint_ty 8)
         (KReg (Some (csig 0)) (Some \<lparr>rst_signal = csig 1, rst_value = 250, rst_kind = Sync, rst_polarity = ActiveHigh\<rparr>)
           (Some (EMux (Sig (csig 2)) (EAdd (Sig (csig 3)) (Lit 1 (uint_ty 8))) (Sig (csig 3))))),
       example_signal 0 4 ''out'' (uint_ty 8) KOutput,
       example_signal 0 5 ''wrap'' (uint_ty 1) KWire,
       example_signal 0 6 ''log'' (uint_ty 8) (KMem 4 8 16)],
     m_assignments := [
       \<lparr>as_dst = csig 5, as_expr = EEq (Sig (csig 4)) (Lit 255 (uint_ty 8))\<rparr>,
       \<lparr>as_dst = csig 4, as_expr = Sig (csig 3)\<rparr>],
     m_memory_writes := [
       \<lparr>mw_mem = csig 6, mw_clock = csig 0, mw_enable = Sig (csig 5),
        mw_addr = ESlice (Sig (csig 3)) 0 4, mw_data = Sig (csig 4)\<rparr>],
     m_cover_points := [
       \<lparr>c_name = ''wraps'', c_clock = Some (csig 0), c_enable = None, c_condition = Sig (csig 5),
        c_message = None\<rparr>],
     m_assertions := [
       \<lparr>a_name = ''bounded'', a_clock = Some (csig 0), a_enable = Some (Sig (csig 2)),
        a_condition = ELt (Sig (csig 3)) (Lit 200 (uint_ty 8)), a_message = None\<rparr>]\<rparr>"

definition counter_level :: "signal \<Rightarrow> nat" where
  "counter_level s = (if sig_id s = 5 then 1 else 0)"

text \<open>A parent that instantiates the counter.\<close>

definition parent_module :: rmodule where
  "parent_module = (empty_module 1 ''parent'')\<lparr>
     m_signals := [
       example_signal 1 0 ''clk'' (uint_ty 1) KInput,
       example_signal 1 1 ''rst'' (uint_ty 1) KInput,
       example_signal 1 2 ''en'' (uint_ty 1) KInput,
       example_signal 1 3 ''total'' (uint_ty 8) KOutput],
     m_instances := [
       \<lparr>in_name = ''u0'', in_module = ''counter'',
        in_connections = map (\<lambda>(n, i). (n, \<lparr>sig_module = 1, sig_id = i\<rparr>))
          [(''clk'', 0), (''rst'', 1), (''en'', 2), (''out'', 3)]\<rparr>]\<rparr>"

definition example_design :: design where
  "example_design = \<lparr>ds_modules = [counter_module, parent_module]\<rparr>"

definition module_rank :: "string \<Rightarrow> nat" where
  "module_rank n = (if n = ''parent'' then 1 else 0)"

lemmas example_defs = counter_module_def parent_module_def example_design_def empty_module_def
  example_signal_def csig_def counter_level_def module_rank_def

lemma counter_exact: "exact_module counter_module"
  by code_simp

lemma counter_ordered: "ordered counter_module counter_level"
  by code_simp

lemma counter_flat: "no_async_reset counter_module" "m_instances counter_module = []"
  by code_simp+

lemma counter_wf: "signals_wf counter_module"
  using counter_exact by (simp add: exact_module_def)

lemma counter_store_ok:
  "store_ok counter_module (initial_values counter_module default_init)
     (initial_memories counter_module default_init)"
  using fits.initial_store_ok [OF counter_wf] by (simp add: store_good_iff_store_ok)

section \<open>Types and values\<close>


text \<open>
  C3: a signed constant the checker accepts survives encoding: reading the encoded bits back
  at the type's width gives the constant, except at width 127, where \<open>signed_value\<close> panics
  exactly on the negative ones.
\<close>

theorem signed_round_trip:
  assumes "fits_type v ty" "is_signed ty" "bt_width ty \<le> 128"
  shows "if bt_width ty = 127 \<and> sint v < 0 then signed_value (encode_value v ty) 127 = None
         else signed_value (encode_value v ty) (bt_width ty) = Some v"
proof -
  have sv: "sval (bt_width ty) (encode_value v ty) = sint v"
    using assms by (intro sval_encode_value) (simp_all add: is_signed_def)
  have bit126: "bit (encode_value v ty) 126 \<longleftrightarrow> sint v < 0" if "bt_width ty = 127"
  proof -
    have "sint v < 0 \<longleftrightarrow> bit (uint (encode_value v ty)) 126"
      using sv that by (simp add: sval_def signed_take_bit_negative_iff flip: sv)
    then show ?thesis by (simp add: bit_uint_iff)
  qed
  show ?thesis
  proof (cases "bt_width ty = 127 \<and> sint v < 0")
    case True
    then show ?thesis using bit126 signed_value_127 by simp
  next
    case False
    then have "bt_width ty \<noteq> 127 \<or> \<not> bit (encode_value v ty) 126" using bit126 by auto
    then obtain r where "signed_value (encode_value v ty) (bt_width ty) = Some r" "sint r = sint v"
      using signed_value_Some sv by metis
    with False show ?thesis by (auto intro: signed_word_eqI)
  qed
qed

theorem signed_round_trip_witness:
  "signed_value (encode_value (- 3) (sint_ty 4)) 4 = Some (- 3)"
  using signed_round_trip [of "- 3" "sint_ty 4"] by (simp add: fits_type_def)




text \<open>
  C5: without masking the intermediate results the evaluator is wrong: a multiplexer on the
  negation of a one-bit signal that is 1 takes the then-branch, where the semantics takes the
  else-branch.
\<close>

theorem unmasked_condition:
  assumes "module_signal m c = Some si" "si_ty si = uint_ty 1" "V c = Some 1"
  shows "eval_expr m V M (EMux (ENot (Sig c)) t e) = eval_expr m V M t
    \<and> sem m V M (EMux (ENot (Sig c)) t e) = sem m V M e"
proof
  have "has_type m (Sig c) (uint_ty 1)" using T_Sig [OF assms(1)] assms(2) by simp
  then show "sem m V M (EMux (ENot (Sig c)) t e) = sem m V M e"
    using assms(3) by (simp add: get_value_def)
  show "eval_expr m V M (EMux (ENot (Sig c)) t e) = eval_expr m V M t"
    using assms(3) by (simp add: get_value_def)
qed

theorem unmasked_condition_witness:
  "eval_expr counter_module [csig 2 \<mapsto> 1] Map.empty (EMux (ENot (Sig (csig 2))) (Lit 5 (uint_ty 8)) (Lit 6 (uint_ty 8))) = Some 5
   \<and> sem counter_module [csig 2 \<mapsto> 1] Map.empty (EMux (ENot (Sig (csig 2))) (Lit 5 (uint_ty 8)) (Lit 6 (uint_ty 8))) = 6"
  using unmasked_condition [of counter_module "csig 2" "example_signal 0 2 ''en'' (uint_ty 1) KInput"
      "[csig 2 \<mapsto> 1]" Map.empty "Lit 5 (uint_ty 8)" "Lit 6 (uint_ty 8)"]
  by (simp add: example_defs module_signal_def vec_get_def encode_value_eq mask_simps)

section \<open>The simulator\<close>

text \<open>
  Combinational evaluation satisfies the recursive equation of the code: up to the
  iteration limit, rounds of asynchronous resets, assignments and instances, in which each
  child is evaluated by the same operation, until a round changes nothing.
\<close>

theorem eval_combinational_unfold:
  "eval_combinational d (Simulator m p V M H C) =
     comb_loop (max 1 (length (m_assignments m) + length (m_instances m)))
       (comb_iteration d (eval_combinational d)) (Simulator m p V M H C)"
  by (subst eval_combinational_rec) (simp add: comb_limit_def)

text \<open>
  C6: in every simulator a program can reach by building one, driving signals, ticking and
  checking, each stored value and memory word of the whole instance tree fits the width of its
  signal.
\<close>

theorem reachable_values_fit:
  assumes "sim_reaches d s" "\<forall>m \<in> set (ds_modules d). module_wf d m"
  shows "sim_ok fits_signal d s \<and> (\<forall>sg si. module_signal (sim_module s) sg = Some si \<longrightarrow>
    take_bit (bt_width (si_ty si)) (sim_get s sg) = sim_get s sg)"
proof -
  have *: "sim_ok fits_signal d s" by (rule reaches_fits [OF assms])
  then show ?thesis
    using sim_ok_store [OF *] by (auto simp: store_good_iff_store_ok sim_get_def store_ok_value)
qed

definition counter_sim :: simulator where
  "counter_sim = Simulator counter_module ''counter'' (initial_values counter_module default_init)
     (initial_memories counter_module default_init) Map.empty []"

lemma counter_sim_built: "from_module 1 example_design default_init counter_module ''counter'' = Some (Inr counter_sim)"
proof -
  have "\<not> m_is_external counter_module" "\<not> module_has_inout counter_module" by code_simp+
  then show ?thesis by (simp add: counter_sim_def counter_flat(2))
qed

lemma counter_sim_settles: "\<exists>V. eval_combinational example_design counter_sim =
    Some (Simulator counter_module ''counter'' V (initial_memories counter_module default_init) Map.empty [])"
  using eval_combinational_settles [OF counter_ordered counter_wf exact_evaluable [OF counter_exact]
      counter_flat counter_store_ok]
  unfolding counter_sim_def by blast

lemma example_wf: "\<forall>m \<in> set (ds_modules example_design). module_wf example_design m"
proof -
  have "signals_wf parent_module" by code_simp
  moreover have "outputs_match example_design counter_module" "outputs_match example_design parent_module"
    by code_simp+
  ultimately show ?thesis using counter_wf by (simp add: example_design_def module_wf_def)
qed

theorem reachable_values_fit_witness:
  "\<exists>s. sim_reaches example_design s \<and> sim_ok fits_signal example_design s"
proof -
  obtain s where s: "eval_combinational example_design counter_sim = Some s"
    using counter_sim_settles by blast
  have "sim_reaches example_design s"
    by (rule R_new [OF _ counter_sim_built s]) (simp add: example_design_def)
  with reachable_values_fit [OF this example_wf] show ?thesis by blast
qed





text \<open>
  C9: a multi-clock edge with every clock of the top module active is the single-clock edge, on
  any design and state, results and panics included.
\<close>

theorem all_clocks_is_tick:
  assumes "clocks_in (set active) (sim_module s)"
  shows "tick_clocked d active s = tick_checked d s"
  by (rule tick_clocked_all [OF assms])

theorem all_clocks_is_tick_witness:
  "tick_clocked example_design [csig 0] counter_sim = tick_checked example_design counter_sim"
  by (rule all_clocks_is_tick)
    (simp add: counter_sim_def clocks_in_def counter_module_def example_signal_def)

text \<open>
  C10: building the simulator of an acyclic instance hierarchy terminates, and succeeds when no
  module is external or has an inout port and every instance names a module.
\<close>

theorem construction_terminates:
  assumes "ranked d rank" "m \<in> set (ds_modules d)" "rank (m_name m) < n"
  shows "from_module n d init m path \<noteq> None
    \<and> (simulable d \<longrightarrow> (\<exists>s. from_module n d init m path = Some (Inr s)))"
  using from_module_total [OF assms(1,2,3)] from_module_Inr [OF assms(1) _ assms(2,3)] by blast

theorem construction_terminates_witness:
  "\<exists>s. from_module 2 example_design default_init parent_module ''parent'' = Some (Inr s)"
proof -
  have "ranked example_design module_rank" by code_simp
  moreover have "simulable example_design" by code_simp
  ultimately show ?thesis
    using construction_terminates [of example_design module_rank parent_module 2]
    by (simp add: example_defs)
qed

end
