(* ===== verification/Validate_Properties.thy ===== *)
theory Validate_Properties
  imports Compile Scalar_New Scalar_Properties
begin

text \<open>The properties of validation, with witnesses on the example design.\<close>

definition id_order :: hash_order where
  "id_order = \<lparr>ho_signals = (\<lambda>xs. xs), ho_paths = (\<lambda>xs. xs), ho_names = (\<lambda>xs. xs)\<rparr>"

lemma id_order_iteration: "hash_iteration id_order"
  by (simp add: id_order_def hash_iteration_def)

lemma example_accepted: "validate_design id_order example_design = Some (Inr ())"
  by code_simp



text \<open>
  C12: the combinational check is exact: it reports nothing if and only if the dependency graph
  it builds, from the assignments and through the instances, has no cycle among its keys,
  whatever the iteration order.
\<close>

theorem comb_check_exact:
  assumes "hash_iteration ord"
  shows "\<exists>g. comb_graph ord d m = Some g \<and> (validate_comb_cycles ord d m = Some [] \<longleftrightarrow>
    acyclic {(a, b). a \<in> set (edge_keys g) \<and> b \<in> set (edges_of g a) \<and> b \<in> set (edge_keys g)})"
proof -
  obtain g where g: "comb_graph ord d m = Some g" using comb_graph_total by blast
  from validate_comb_cycles_exact [OF assms g] show ?thesis by (auto simp: g key_deps_def)
qed

theorem comb_check_exact_witness:
  "\<exists>g. comb_graph id_order example_design parent_module = Some g \<and>
    (validate_comb_cycles id_order example_design parent_module = Some [] \<longleftrightarrow>
     acyclic {(a, b). a \<in> set (edge_keys g) \<and> b \<in> set (edges_of g a) \<and> b \<in> set (edge_keys g)})"
  by (rule comb_check_exact [OF id_order_iteration])



text \<open>
  C14: the bundle check accepts the fields of a bundle signal exactly when they are the leaves of
  its type, each once, on declared signals of the leaf's type.
\<close>

theorem bundle_check_exact:
  assumes "hash_iteration ord"
  shows "bundle_signal_fields_diags ord m code subject b fs = [] \<longleftrightarrow>
    (\<forall>f \<in> set fs. \<exists>si. module_signal m (bsf_signal f) = Some si \<and>
       map_of (rev (expected_fields b)) (bsf_path f) = Some (si_ty si))
    \<and> distinct (map bsf_path fs) \<and> set (map bsf_path fs) = leaf_path ` set (leaf_fields b)"
  using bundle_signal_fields_quiet [OF assms] by (auto simp: field_ok_def list_all_iff)

theorem bundle_check_exact_witness:
  "bundle_signal_fields_diags id_order counter_module ''E'' ''s'' (BundleType ''b'' [LeafField ''x'' (uint_ty 8)])
     [\<lparr>bsf_path = [''x''], bsf_signal = csig 3\<rparr>] = [] \<and>
   bundle_signal_fields_diags id_order counter_module ''E'' ''s'' (BundleType ''b'' [LeafField ''x'' (uint_ty 8)])
     [\<lparr>bsf_path = [''y''], bsf_signal = csig 3\<rparr>] \<noteq> []"
proof -
  have "module_signal counter_module (csig 3) = Some (m_signals counter_module ! 3)"
    and "si_ty (m_signals counter_module ! 3) = uint_ty 8"
    and "leaf_fields (BundleType ''b'' [LeafField ''x'' (uint_ty 8)]) =
      [\<lparr>leaf_path = [''x''], leaf_ty = uint_ty 8\<rparr>]" by code_simp+
  then show ?thesis
    by (simp add: bundle_check_exact [OF id_order_iteration] expected_fields_def)
qed

text \<open>
  C15: an accepted design has an acyclic instance hierarchy, so that building a simulator of any
  of its modules terminates, and the output ports of its instances have the widths of the
  signals they drive, so that the values of every simulator it reaches fit their signals.
\<close>

theorem accepted_design_sound:
  assumes "validate_design ord d = Some (Inr ())" "\<forall>m \<in> set (ds_modules d). signals_wf m"
  shows "(\<forall>m \<in> set (ds_modules d). \<exists>n. \<forall>init path. from_module n d init m path \<noteq> None)
    \<and> (\<forall>s. sim_reaches d s \<longrightarrow> sim_ok fits_signal d s)"
proof -
  obtain rank where rank: "ranked d rank" using accepted_ranked [OF assms(1)] by blast
  have "from_module (Suc (rank (m_name m))) d init m path \<noteq> None"
    if "m \<in> set (ds_modules d)" for m init path
    by (rule from_module_total [OF rank that lessI])
  moreover have "\<forall>m \<in> set (ds_modules d). module_wf d m"
    using accepted_outputs_match [OF assms] assms(2) by (simp add: module_wf_def)
  ultimately show ?thesis using reaches_fits by blast
qed

theorem accepted_design_sound_witness:
  "(\<exists>n. from_module n example_design default_init parent_module ''parent'' \<noteq> None)
    \<and> (\<exists>s. sim_reaches example_design s \<and> sim_ok fits_signal example_design s)"
proof -
  have wf: "\<forall>m \<in> set (ds_modules example_design). signals_wf m" by code_simp
  obtain s where s: "eval_combinational example_design counter_sim = Some s"
    using counter_sim_settles by blast
  have "sim_reaches example_design s"
    by (rule R_new [OF _ counter_sim_built s]) (simp add: example_design_def)
  moreover have "parent_module \<in> set (ds_modules example_design)" by (simp add: example_design_def)
  ultimately show ?thesis using accepted_design_sound [OF example_accepted wf] by blast
qed









end
