(* ===== verification/Packed_Flat_Run.thy ===== *)
theory Packed_Flat_Run
  imports Packed_Flat_Edge Validate_Properties
begin

text \<open>
  The two engines on one flat module, driven by the same stimuli: the scalar simulator of the
  design and, on every lane, the packed simulator of the lowered program hold the same values.
\<close>

section \<open>The initial state\<close>

definition uninitialised :: "rmodule \<Rightarrow> bool" where
  "uninitialised m \<longleftrightarrow> m_initial_register_values m = [] \<and> m_initial_memory_values m = []"

lemma initial_values_zero:
  assumes "uninitialised m"
  shows "get_value (initial_values m default_simulation_init) s = 0"
proof -
  have "initial_value m default_simulation_init si = 0" for si
    using assms by (simp add: initial_value_def default_simulation_init_def uninitialised_def)
  then have "get_value (fold (\<lambda>si V. V(si_handle si \<mapsto> initial_value m default_simulation_init si)) sis V) s = 0"
    if "get_value V s = 0" for sis V
    using that by (induction sis arbitrary: V) (auto simp: get_value_def)
  then show ?thesis by (simp add: initial_values_def get_value_def)
qed

lemma initial_memories_zero:
  assumes "uninitialised m"
  shows "memory_word (initial_memories m default_simulation_init) s x = 0"
proof -
  have zero: "initial_memory m default_simulation_init si depth = replicate depth 0" for si depth
    using assms by (simp add: initial_memory_def default_simulation_init_def uninitialised_def)
  have "memory_word (fold (\<lambda>si M. case si_kind si of KMem aw dw depth \<Rightarrow> M(si_handle si \<mapsto> initial_memory m default_simulation_init si depth)
      | _ \<Rightarrow> M) sis M) s x = 0" if "memory_word M s x = 0" for sis M
    using that
  proof (induction sis arbitrary: M)
    case (Cons si sis)
    have "memory_word (case si_kind si of KMem aw dw depth \<Rightarrow> M(si_handle si \<mapsto> initial_memory m default_simulation_init si depth)
        | _ \<Rightarrow> M) s x = 0"
      using Cons.prems by (auto simp: memory_word_def zero vec_get_def split: signal_kind.split)
    from Cons.IH [OF this] show ?case by simp
  qed simp
  then show ?thesis by (simp add: initial_memories_def memory_word_def)
qed

lemma initial_memories_sized:
  assumes wf: "signals_wf m" and un: "uninitialised m"
  shows "mems_sized m (initial_memories m default_simulation_init)"
proof -
  have len: "length (initial_memory m default_simulation_init si depth) = depth" for si depth
    using un by (simp add: initial_memory_def default_simulation_init_def uninitialised_def)
  let ?f = "\<lambda>si M. case si_kind si of KMem aw dw depth \<Rightarrow> M(si_handle si \<mapsto> initial_memory m default_simulation_init si depth) | _ \<Rightarrow> M"
  have keep: "fold ?f sis M s = M s" if "s \<notin> si_handle ` set sis" for sis M s
    using that by (induction sis arbitrary: M) (auto split: signal_kind.split)
  have "\<exists>ws. fold ?f sis M (si_handle si) = Some ws \<and> length ws = depth"
    if "distinct (map si_handle sis)" "si \<in> set sis" "si_kind si = KMem aw dw depth" for sis M si aw dw depth
    using that
  proof (induction sis arbitrary: M)
    case (Cons si' sis)
    show ?case
    proof (cases "si \<in> set sis")
      case False
      then have "si' = si" "si_handle si \<notin> si_handle ` set sis" using Cons.prems(1,2) by auto
      then show ?thesis using keep Cons.prems(3) len by simp
    qed (use Cons in simp)
  qed simp
  with signals_wf_distinct [OF wf] show ?thesis unfolding mems_sized_def initial_memories_def by blast
qed

lemma zero_linked:
  assumes "uninitialised m"
  shows "linked lo i (initial_values m default_simulation_init) (initial_memories m default_simulation_init) zero_state"
  using initial_values_zero [OF assms] initial_memories_zero [OF assms] by (simp add: linked_def zero_state_def)

section \<open>The interface of the packed simulator\<close>

lemma set_signal_replicated_ok:
  assumes s: "simulator_ok s" and i: "pp_signal_index (pk_program s) x = Some i" "i < signal_count s"
  shows "\<exists>s'. set_signal_replicated x v s = Some (s', Inr ()) \<and> goes_on s s'
    \<and> (\<forall>l < pk_lanes s. lane_state s' l = settle_spec (pk_program s) (drive (pk_program s) i (uint v) (lane_state s l)))"
proof -
  note g = simulator_goes_on [OF s]
  note st = goes_onD(1) [OF g]
  let ?ls = "encode_u128_limbs v (pl_ty (signal_layout s i))"
  obtain s1 where s1: "set_packed_signal_replicated_limbs i ?ls s = Some s1" "goes_on s s1"
    "\<forall>l < pk_lanes s. lane_state s1 l = drive (pk_program s) i (lval ?ls) (lane_state s l)"
    using set_replicated_limbs_ok [OF g i(2) encoded_length [OF st i(2)]] by blast
  obtain s2 where s2: "then_settle (Some (s1, Inr ())) = Some (s2, Inr ())" "goes_on s s2"
    "\<forall>l < pk_lanes s. lane_state s2 l = settle_spec (pk_program s) (lane_state s1 l)"
    using then_settle_ok [OF s refl s1(2)] by blast
  have "drive (pk_program s) i (lval ?ls) y = drive (pk_program s) i (uint v) y" for y
    using encoded_value [OF st i(2), of v] by (simp add: drive_def)
  moreover have "set_signal_replicated x v s = Some (s2, Inr ())"
    using i s1(1) s2(1) by (simp add: set_signal_replicated_def signal_index_def or_fail_def set_packed_signal_replicated_def vec_get_def)
  ultimately show ?thesis using s1(3) s2(2,3) by auto
qed

section \<open>The relation between the engines\<close>

definition flat_plain :: "rmodule \<Rightarrow> bool" where
  "flat_plain m \<longleftrightarrow> flat_scalar m \<and> uninitialised m \<and> m_assertions m = [] \<and> m_cover_points m = []"

definition engines_linked :: "lowering \<Rightarrow> rmodule \<Rightarrow> packed_program \<Rightarrow> nat \<Rightarrow> simulator \<Rightarrow> packed_simulator \<Rightarrow> bool" where
  "engines_linked lo m p lanes sc k \<longleftrightarrow> (\<exists>V M H. sc = Simulator m (m_name m) V M H [] \<and> store_ok m V M \<and> mems_sized m M
     \<and> simulator_ok k \<and> pk_program k = p \<and> pk_lanes k = lanes \<and> (\<forall>l < lanes. linked lo 0 V M (lane_state k l)) \<and> 0 < lanes)"

definition plain_signal :: "rmodule \<Rightarrow> signal \<Rightarrow> bool" where
  "plain_signal m s \<longleftrightarrow> (case module_signal m s of None \<Rightarrow> False
     | Some si \<Rightarrow> (case si_kind si of KMem aw dw depth \<Rightarrow> False | KInout \<Rightarrow> False | _ \<Rightarrow> True))"

lemma plain_signal_index:
  assumes s: "flat_setting d lo m cm p level" and x: "plain_signal m x"
  shows "\<exists>j si. pp_signal_index p x = Some j \<and> lo_signal_map lo (0, x) = Some j \<and> j < length (pp_signals p)
    \<and> module_signal m x = Some si \<and> pl_width (ps_layout (pp_signals p ! j)) = bt_width (si_ty si)"
proof -
  obtain si where si: "module_signal m x = Some si" "case si_kind si of KMem aw dw depth \<Rightarrow> False | KInout \<Rightarrow> False | _ \<Rightarrow> True"
    using x by (auto simp: plain_signal_def split: option.splits)
  have handle: "si_handle si = x"
    using si(1) flat_settingD(8) [OF s] by (auto simp: module_signal_def vec_get_def signals_wf_def signal_eq_iff split: if_splits)
  have "has_entry lo 0 si" using s module_signal_in [OF si(1)] by (simp add: flat_setting_def flat_program_def)
  then obtain j where j: "lo_signal_map lo (0, x) = Some j" using si(2) handle by (auto simp: has_entry_def split: signal_kind.splits)
  then have "find_signal lo 0 x cm = (Some j, [])" by (simp add: find_signal_def)
  from find_signal_found [OF flat_settingD(1) [OF s] this] si(1)
  have j2: "j < length (lo_signals lo)" "pl_ty (ps_layout (lo_signals lo ! j)) = si_ty si" by auto
  have p: "pp_signals p = lo_signals lo" "pp_top_signal_indices p = lo_top_signal_indices lo"
    using s by (simp_all add: flat_setting_def flat_program_def signals_of_def)
  have "lo_top_signal_indices lo x = Some j" using flat_settingD(9) [OF s] j by (simp add: allocated_def keys_ok_def top_keys_ok_def)
  moreover have "layout_ok (ps_layout (lo_signals lo ! j))"
    using flat_settingD(9) [OF s] j2(1) unfolding allocated_def layouts_below_def by (meson nth_mem)
  ultimately show ?thesis using j j2 si(1) p by (simp add: pp_signal_index_def layout_ok_def)
qed

section \<open>Stimuli\<close>

text \<open>What a test bench does: drive a signal, on all lanes, or clock the design.\<close>

datatype stimulus = Drive signal u128 | Clock

fun scalar_stimulus :: "design \<Rightarrow> stimulus \<Rightarrow> simulator \<Rightarrow> simulator option" where
  "scalar_stimulus d (Drive x v) s = sim_set d x v s"
| "scalar_stimulus d Clock s = (case tick_checked d s of Some (s', Inr _) \<Rightarrow> Some s' | _ \<Rightarrow> None)"

fun packed_stimulus :: "stimulus \<Rightarrow> packed_simulator \<Rightarrow> packed_simulator option" where
  "packed_stimulus (Drive x v) s = (case set_signal_replicated x v s of Some (s', Inr _) \<Rightarrow> Some s' | _ \<Rightarrow> None)"
| "packed_stimulus Clock s = packed_tick s"

fun stimulus_ok :: "rmodule \<Rightarrow> stimulus \<Rightarrow> bool" where
  "stimulus_ok m (Drive x v) \<longleftrightarrow> plain_signal m x"
| "stimulus_ok m Clock \<longleftrightarrow> True"

lemma flat_settle:
  assumes s: "flat_setting d lo m cm p level" and ok: "store_ok m V M"
  shows "\<exists>V'. eval_combinational d' (Simulator m path V M H []) = Some (Simulator m path V' M H []) \<and> store_ok m V' M
    \<and> (\<forall>st. linked lo 0 V M st \<longrightarrow> linked lo 0 V' M (settle_spec p st))"
proof -
  note m = flat_settingD(3) [OF s]
  obtain V' where V': "eval_combinational d' (Simulator m path V M H []) = Some (Simulator m path V' M H [])"
    "all_settled m M V'" "store_ok m V' M" "\<forall>s. s \<notin> dsts m \<longrightarrow> V' s = V s"
    using eval_combinational_settles [OF flat_settingD(7) [OF s] flat_settingD(8) [OF s] exact_evaluable [OF m]
        flat_settingD(5,6) [OF s] ok] by blast
  have "\<forall>a \<in> set (m_assignments m). V' (as_dst a) = Some (sem m V' M (as_expr a))" using exact_settled [OF m V'(3,2)] by blast
  with settle_linked [OF s _ V'(3) _ V'(4)] V'(1,3) show ?thesis by blast
qed

lemma drive_linked:
  assumes s: "flat_setting d lo m cm p level" and link: "engines_linked lo m p lanes sc k" and x: "plain_signal m x"
  shows "\<exists>sc' k'. sim_set d' x v sc = Some sc' \<and> set_signal_replicated x v k = Some (k', Inr ()) \<and> engines_linked lo m p lanes sc' k'"
proof -
  obtain V M H where e: "sc = Simulator m (m_name m) V M H []" "store_ok m V M" "mems_sized m M" "simulator_ok k"
    "pk_program k = p" "pk_lanes k = lanes" "\<forall>l < lanes. linked lo 0 V M (lane_state k l)" "0 < lanes"
    using link by (auto simp: engines_linked_def)
  obtain j si where j: "pp_signal_index p x = Some j" "lo_signal_map lo (0, x) = Some j" "j < length (pp_signals p)"
    "module_signal m x = Some si" "pl_width (ps_layout (pp_signals p ! j)) = bt_width (si_ty si)"
    using plain_signal_index [OF s x] by blast
  define V1 where "V1 = V(x \<mapsto> v AND mask128 (si_width si))"
  have w: "si_width si = bt_width (si_ty si)" using signals_wf_width [OF flat_settingD(8) [OF s]] j(4) by blast
  have masked: "v AND mask128 (si_width si) = take_bit (bt_width (si_ty si)) v"
    by (simp add: w mask128_eq min_def flip: take_bit_eq_mask)
  have ok1: "store_ok m V1 M" using e(2) j(4) by (auto simp: store_ok_def V1_def masked)
  obtain V2 where V2: "eval_combinational d' (Simulator m (m_name m) V1 M H []) = Some (Simulator m (m_name m) V2 M H [])"
    "store_ok m V2 M" "\<forall>st. linked lo 0 V1 M st \<longrightarrow> linked lo 0 V2 M (settle_spec p st)"
    using flat_settle [OF s ok1, of d' "m_name m" H] by blast
  have sc: "sim_set d' x v sc = Some (Simulator m (m_name m) V2 M H [])"
    using V2(1) by (simp add: sim_set_def e(1) j(4) with_values_def V1_def)
  obtain k' where k': "set_signal_replicated x v k = Some (k', Inr ())" "goes_on k k'"
    "\<forall>l < pk_lanes k. lane_state k' l = settle_spec (pk_program k) (drive (pk_program k) j (uint v) (lane_state k l))"
    using set_signal_replicated_ok [OF e(4)] j(1,3) e(5) by blast
  have inj: "t = x" if "lo_signal_map lo (0, t) = Some j" for t using signal_map_inj [OF flat_settingD(9) [OF s] that j(2)] .
  have driven: "linked lo 0 V1 M (drive p j (uint v) st)" if link: "linked lo 0 V M st" for st
  proof -
    obtain S R where st: "st = (S, R)" by (cases st)
    have "(S(j := take_bit (bt_width (si_ty si)) (uint v))) i = uint (get_value V1 t)" if i: "lo_signal_map lo (0, t) = Some i" for t i
    proof (cases "t = x")
      case True
      then show ?thesis using i j(2) by (simp add: V1_def masked get_value_def uint_take_bit)
    next
      case False
      then have "i \<noteq> j" using inj i by blast
      then show ?thesis using False link i by (simp add: st linked_iff V1_def get_value_def)
    qed
    with link show ?thesis by (simp add: st linked_iff drive_def j(5))
  qed
  have "linked lo 0 V2 M (lane_state k' l)" if "l < lanes" for l
    using V2(3) driven e(7) k'(3) that unfolding e(5,6) by metis
  moreover have "simulator_ok k'" "pk_program k' = p" "pk_lanes k' = lanes"
    using simulator_ok_goes_on [OF e(4) k'(2)] goes_onD(2,3) [OF k'(2)] e(5,6) by simp_all
  ultimately have "engines_linked lo m p lanes (Simulator m (m_name m) V2 M H []) k'"
    using V2(2) e(3,8) by (simp add: engines_linked_def)
  with sc k'(1) show ?thesis by blast
qed

lemma clock_linked:
  assumes s: "flat_setting d lo m cm p level" and link: "engines_linked lo m p lanes sc k"
    and plain: "m_assertions m = []" "m_cover_points m = []"
  shows "\<exists>sc' k'. tick_checked d' sc = Some (sc', Inr ()) \<and> packed_tick k = Some k' \<and> engines_linked lo m p lanes sc' k'"
proof -
  obtain V M H where e: "sc = Simulator m (m_name m) V M H []" "store_ok m V M" "mems_sized m M" "simulator_ok k"
    "pk_program k = p" "pk_lanes k = lanes" "\<forall>l < lanes. linked lo 0 V M (lane_state k l)" "0 < lanes"
    using link by (auto simp: engines_linked_def)
  note m = flat_settingD(3,7,5,6) [OF s]
  have "hit_count H n < 2 ^ 64" for n using unsigned_less [of "the (H n)", where 'a = nat] by (auto simp: hit_count_def split: option.split)
  then have room: "\<forall>n. hit_count H n + length (m_cover_points m) < 2 ^ 64" using plain(2) by simp
  have none: "failures_spec m True V1 M = []" for V1 by (simp add: failures_spec_def plain(1))
  obtain V1 H' where V1: "eval_combinational d' (Simulator m (m_name m) V M H []) = Some (Simulator m (m_name m) V1 M H [])"
    and tick: "\<exists>V2 M2. tick_checked d' sc = Some (Simulator m (m_name m) V2 M2 H' [], Inr ())
         \<and> clock_step m V1 M V2 M2 \<and> store_ok m V2 M2"
    using flat_tick [OF m e(2) room, of d' "m_name m"] unfolding none e(1) by auto
  obtain V1' where V1': "eval_combinational d' (Simulator m (m_name m) V M H []) = Some (Simulator m (m_name m) V1' M H [])"
    "store_ok m V1' M" "\<forall>st. linked lo 0 V M st \<longrightarrow> linked lo 0 V1' M (settle_spec p st)"
    using flat_settle [OF s e(2), of d' "m_name m" H] by blast
  have eq: "V1' = V1" using V1 V1'(1) by simp
  obtain V2 M2 where V2: "tick_checked d' sc = Some (Simulator m (m_name m) V2 M2 H' [], Inr ())" "clock_step m V1 M V2 M2" "store_ok m V2 M2"
    using tick by blast
  obtain k' where k': "packed_tick k = Some k'" "goes_on k k'" "\<forall>l < pk_lanes k. lane_state k' l = tick_spec p (lane_state k l)"
    using tick_run [OF e(4)] e(5) by (auto simp: lane_run_def)
  have after: "linked lo 0 V2 M2 (tick_spec p st) \<and> mems_sized m M2" if "linked lo 0 V M st" for st
    using edge_linked [OF s _ V1'(2) V2(3) e(3)] V1'(3) that V2(2) unfolding eq tick_spec_def by blast
  have "mems_sized m M2" using after e(7,8) by blast
  moreover have "\<forall>l < lanes. linked lo 0 V2 M2 (lane_state k' l)" using after k'(3) e(6,7) by simp
  moreover have "simulator_ok k'" "pk_program k' = p" "pk_lanes k' = lanes"
    using simulator_ok_goes_on [OF e(4) k'(2)] goes_onD(2,3) [OF k'(2)] e(5,6) by simp_all
  ultimately have "engines_linked lo m p lanes (Simulator m (m_name m) V2 M2 H' []) k'"
    using V2(3) e(8) by (simp add: engines_linked_def)
  with V2(1) k'(1) show ?thesis by blast
qed

lemma stimulus_linked:
  assumes s: "flat_setting d lo m cm p level" and link: "engines_linked lo m p lanes sc k"
    and plain: "flat_plain m" and x: "stimulus_ok m x"
  shows "\<exists>sc' k'. scalar_stimulus d' x sc = Some sc' \<and> packed_stimulus x k = Some k' \<and> engines_linked lo m p lanes sc' k'"
proof (cases x)
  case (Drive y v)
  then have "plain_signal m y" using x by simp
  from drive_linked [OF s link this, of d' v] obtain sc' k' where "sim_set d' y v sc = Some sc'"
    "set_signal_replicated y v k = Some (k', Inr ())" "engines_linked lo m p lanes sc' k'" by blast
  with Drive show ?thesis by simp
next
  case Clock
  have "m_assertions m = []" "m_cover_points m = []" using plain by (simp_all add: flat_plain_def)
  from clock_linked [OF s link this, of d'] obtain sc' k' where "tick_checked d' sc = Some (sc', Inr ())"
    "packed_tick k = Some k'" "engines_linked lo m p lanes sc' k'" by blast
  with Clock show ?thesis by simp
qed

lemma stimuli_linked:
  assumes s: "flat_setting d lo m cm p level" and plain: "flat_plain m"
  shows "engines_linked lo m p lanes sc k \<Longrightarrow> list_all (stimulus_ok m) xs \<Longrightarrow>
    \<exists>sc' k'. exec_all (scalar_stimulus d') xs sc = Some sc' \<and> exec_all packed_stimulus xs k = Some k' \<and> engines_linked lo m p lanes sc' k'"
proof (induction xs arbitrary: sc k)
  case (Cons x xs)
  obtain sc1 k1 where step: "scalar_stimulus d' x sc = Some sc1" "packed_stimulus x k = Some k1" "engines_linked lo m p lanes sc1 k1"
    using stimulus_linked [OF s Cons.prems(1) plain, of x d'] Cons.prems(2) by auto
  from Cons.IH [OF step(3)] Cons.prems(2) step(1,2) show ?case by auto
qed auto

section \<open>Both engines start linked and read alike\<close>

lemma read_linked:
  assumes s: "flat_setting d lo m cm p level" and link: "engines_linked lo m p lanes sc k" and x: "plain_signal m x"
  shows "get_signal k x = Some (Inr (replicate lanes (sim_get sc x)))"
proof -
  obtain V M H where e: "sc = Simulator m (m_name m) V M H []" "simulator_ok k"
    "pk_program k = p" "pk_lanes k = lanes" "\<forall>l < lanes. linked lo 0 V M (lane_state k l)"
    using link by (auto simp: engines_linked_def)
  obtain j where j: "pp_signal_index p x = Some j" "lo_signal_map lo (0, x) = Some j" "j < length (pp_signals p)"
    using plain_signal_index [OF s x] by blast
  have st: "storage_ok k" using simulator_goes_on [OF e(2)] by (rule goes_onD)
  obtain vs where vs: "get_signal k x = Some (Inr vs)" "map uint vs = map (\<lambda>l. take_bit 128 (lane_signal k l j)) [0..<lanes]"
    using get_signal_ok [OF st, of x j] j(1,3) e(3,4) by auto
  have "lane_signal k l j = uint (get_value V x)" if "l < lanes" for l
    using e(5) that j(2) by (simp add: linked_def lane_state_def)
  then have "map uint vs = map (\<lambda>l. uint (get_value V x)) [0..<lanes]"
    unfolding vs(2) by (intro map_cong) (simp_all add: take_bit_word_eq_self flip: uint_take_bit)
  then have "map uint vs = map uint (replicate lanes (get_value V x))" by (simp add: map_replicate_const)
  then have "vs = replicate lanes (get_value V x)" by (rule inj_on_map_eq_map [THEN iffD1, rotated]) (simp add: inj_on_def word_uint_eq_iff)
  with vs(1) e(1) show ?thesis by (simp add: sim_get_def)
qed

lemma accepted_setting:
  assumes ord: "hash_iteration ord" "lists_sets hord" and acc: "validate_design ord d = Some (Inr ())" "in_range_design d"
    and m: "find_module d root = Some m" "\<not> m_is_external m" "flat_scalar m"
    and cd: "compile_ir ord d = Some (Inr cd)" and p: "lower_to_packed_program hord cd root = Some (Inr p)"
  shows "(\<exists>lo cm level. flat_setting d lo m cm p level) \<and> layouts_wf p \<and> streams_ok p"
proof -
  have typed: "list_all2 (module_compiled d) (ds_modules d) (cd_modules cd)" "typed_design cd" "names_ok cd" "ranked_hierarchy cd"
    using accepted_typed [OF ord(1) acc] cd by auto
  have mem: "m \<in> set (ds_modules d)" using m(1) by (auto dest: find_module_name)
  have valid: "validate_module ord d m = Some []" using accepted_parts(3) [OF acc(1)] mem by blast
  have flat: "m_instances m = []" using m(3) by (simp add: flat_scalar_def)
  obtain cm where cm: "compiled_find_module cd root = Some cm" "module_compiled d m cm"
    using find_module_compiled [OF typed(1), of root] m(1)
    by (auto simp: compiled_find_module_def find_module_def option_rel_Some1)
  have range: "in_range_module m" using acc(2) mem by (simp add: in_range_design_def list_all_iff)
  have cmt: "typed_module m cm" by (rule module_compiled_typed [OF ord(1) valid cm(2) range])
  have "cm_instances cm = []" using cm(2) flat by (simp add: module_compiled_def)
  then obtain lo where lo: "flat_program lo m cm p" using flat_lowering [OF ord(2) typed(2,3) cmt cm(1) _ p] by blast
  obtain level where level: "ordered m level" using accepted_ordered [OF ord(1) valid m(2) flat] by blast
  note parts = accepted_module [OF valid m(2)]
  have "list_all (register_ok m) (m_signals m)"
    using parts(9) by (simp add: validate_registers_def concat_map_Nil_iff register_diags_quiet list_all_iff)
  moreover have "list_all (write_ok m) (m_memory_writes m)"
    using parts(5) by (simp add: validate_memory_writes_def concat_map_Nil_iff memory_write_diags_quiet list_all_iff)
  ultimately have "flat_setting d lo m cm p level" using lo cm(2) m(3) level by (simp add: flat_setting_def)
  moreover have "program_ok p" using lowering_ok [OF typed(2-4), of hord root] p by auto
  ultimately show ?thesis by (auto simp: program_ok_def)
qed

lemma start_linked:
  assumes s: "flat_setting d lo m cm p level" and ok: "layouts_wf p" "streams_ok p" "lanes \<noteq> 0"
    and acc: "validate_design ord d = Some (Inr ())" and m: "find_module d root = Some m" "\<not> m_is_external m" "\<not> module_has_inout m"
    and plain: "flat_plain m"
  shows "\<exists>sc k. new_simulator ord d root = Some (Inr sc) \<and> new_packed_simulator p lanes = Some (Inr k) \<and> engines_linked lo m p lanes sc k"
proof -
  have un: "uninitialised m" and flat: "m_instances m = []" using plain by (simp_all add: flat_plain_def flat_scalar_def)
  note wf = flat_settingD(8) [OF s]
  let ?V = "initial_values m default_simulation_init" and ?M = "initial_memories m default_simulation_init"
  obtain V where V: "eval_combinational d (Simulator m (m_name m) ?V ?M Map.empty []) = Some (Simulator m (m_name m) V ?M Map.empty [])"
    "store_ok m V ?M" "\<forall>st. linked lo 0 ?V ?M st \<longrightarrow> linked lo 0 V ?M (settle_spec p st)"
    using flat_settle [OF s flat_store_ok [OF wf], of d "m_name m" default_simulation_init Map.empty] by blast
  have sc: "new_simulator ord d root = Some (Inr (Simulator m (m_name m) V ?M Map.empty []))"
    using acc m V(1) by (simp add: new_simulator_def new_with_init_def construction_fuel_def flat_from_module [OF flat] del: from_module.simps)
  obtain k where k: "new_packed_simulator p lanes = Some (Inr k)" "simulator_ok k" "pk_program k = p" "pk_lanes k = lanes"
    "\<forall>l < lanes. lane_state k l = settle_spec p zero_state"
    using new_packed_simulator_runs [OF ok] by blast
  have "linked lo 0 V ?M (settle_spec p zero_state)" using V(3) zero_linked [OF un] by blast
  then have "engines_linked lo m p lanes (Simulator m (m_name m) V ?M Map.empty []) k"
    using V(2) initial_memories_sized [OF wf un] k(2-5) ok(3) by (simp add: engines_linked_def)
  with sc k(1) show ?thesis by blast
qed

end
