(* ===== verification/Packed_Lowers.thy ===== *)
theory Packed_Lowers
  imports Packed_Flat_Run
begin

text \<open>
  Lowering an accepted flat module gives no diagnostic when its expressions read scalar signals
  and its clocks and resets are scalar signals.
\<close>

definition readable :: "rmodule \<Rightarrow> expr \<Rightarrow> bool" where
  "readable m e \<longleftrightarrow> list_all (plain_signal m) (expr_signal_deps e)"

definition scalar_reads :: "rmodule \<Rightarrow> bool" where
  "scalar_reads m \<longleftrightarrow> list_all (\<lambda>a. plain_signal m (as_dst a) \<and> readable m (as_expr a)) (m_assignments m)
     \<and> list_all (\<lambda>si. case si_kind si of
         KReg clk rst nxt \<Rightarrow> (case clk of None \<Rightarrow> False | Some c \<Rightarrow> plain_signal m c)
           \<and> (case rst of None \<Rightarrow> True | Some r \<Rightarrow> plain_signal m (rst_signal r))
           \<and> (case nxt of None \<Rightarrow> False | Some e \<Rightarrow> readable m e)
       | _ \<Rightarrow> True) (m_signals m)
     \<and> list_all (\<lambda>w. plain_signal m (mw_clock w) \<and> readable m (mw_enable w) \<and> readable m (mw_addr w) \<and> readable m (mw_data w))
         (m_memory_writes m)"

definition maps_total :: "lowering \<Rightarrow> rmodule \<Rightarrow> bool" where
  "maps_total lo m \<longleftrightarrow> (\<forall>s. plain_signal m s \<longrightarrow> lo_signal_map lo (0, s) \<noteq> None)
     \<and> (\<forall>s si aw dw depth. module_signal m s = Some si \<longrightarrow> si_kind si = KMem aw dw depth \<longrightarrow> lo_memory_map lo (0, s) \<noteq> None)"

lemma signals_wf_handle: "signals_wf m \<Longrightarrow> module_signal m s = Some si \<Longrightarrow> si_handle si = s"
  by (auto simp: module_signal_def vec_get_def signals_wf_def signal_eq_iff split: if_splits)

lemma entries_total:
  assumes "signals_wf m" "\<forall>si \<in> set (m_signals m). has_entry lo 0 si"
  shows "maps_total lo m"
proof -
  have entry: "has_entry lo 0 si" "si_handle si = s" if "module_signal m s = Some si" for s si
    using assms that signals_wf_handle module_signal_in by blast+
  have "lo_signal_map lo (0, s) \<noteq> None" if s: "plain_signal m s" for s
  proof -
    obtain si where "module_signal m s = Some si" using s by (auto simp: plain_signal_def split: option.splits)
    with entry [OF this] s show ?thesis by (cases "si_kind si") (auto simp: plain_signal_def has_entry_def)
  qed
  moreover have "lo_memory_map lo (0, s) \<noteq> None" if "module_signal m s = Some si" "si_kind si = KMem aw dw depth" for s si aw dw depth
    using entry [OF that(1)] that(2) by (simp add: has_entry_def)
  ultimately show ?thesis unfolding maps_total_def by blast
qed

lemma find_total:
  assumes "maps_total lo m"
  shows "plain_signal m s \<Longrightarrow> \<exists>j. find_signal lo 0 s cm = (Some j, [])"
    and "module_signal m s = Some si \<Longrightarrow> si_kind si = KMem aw dw depth \<Longrightarrow> \<exists>j. find_memory lo 0 s cm = (Some j, [])"
  using assms by (auto simp: maps_total_def find_signal_def find_memory_def split: option.split)

lemma raw_quiet:
  assumes lo: "maps_total lo m"
  shows "has_type m e ty \<Longrightarrow> readable m e \<Longrightarrow> snd (lower_raw_expr lo 0 cm e ty') = []"
proof (induction arbitrary: ty' rule: has_type.induct)
  case (T_Sig s si)
  then obtain j where "find_signal lo 0 s cm = (Some j, [])" using find_total(1) [OF lo] by (fastforce simp: readable_def)
  then show ?case by simp
next
  case (T_MemRead mem info aw dw depth a)
  obtain j where "find_memory lo 0 mem cm = (Some j, [])" using find_total(2) [OF lo T_MemRead(1,2)] by blast
  with T_MemRead show ?case by (simp add: case_prod_beta readable_def)
next
  case (T_Concat ps tys)
  have "snd (lower_raw_expr lo 0 cm q t) = []" if q: "q \<in> set ps" for q t
  proof -
    obtain k where "k < length ps" "q = ps ! k" using q by (auto simp: in_set_conv_nth)
    then have "readable m q \<longrightarrow> snd (lower_raw_expr lo 0 cm q t) = []" using T_Concat(1) by (auto simp: list_all2_conv_all_nth)
    moreover have "readable m q" using T_Concat.prems q by (auto simp: readable_def list_all_iff)
    ultimately show ?thesis by blast
  qed
  then show ?case by (simp add: Let_def)
qed (simp_all add: readable_def Let_def case_prod_beta)

lemma compiled_quiet:
  assumes "maps_total lo m" "compiled_ok m e c" "readable m e"
  shows "expr_quiet lo 0 cm c"
  using raw_quiet [OF assms(1)] assms(2,3) by (auto simp: expr_quiet_def lower_compiled_expr_def compiled_ok_def)

section \<open>The steps of the lowering\<close>

definition clean_after :: "lowering \<Rightarrow> lowering \<Rightarrow> bool" where
  "clean_after lo0 lo \<longleftrightarrow> kept lo0 lo \<and> lo_diagnostics lo = []"

lemma fold_clean:
  assumes "\<And>x lo. x \<in> set xs \<Longrightarrow> clean_after lo0 lo \<Longrightarrow> clean_after lo0 (f x lo)" "clean_after lo0 lo"
  shows "clean_after lo0 (fold f xs lo)"
  using assms by (induction xs arbitrary: lo) simp_all

lemma clean_lower: "clean_after lo0 lo \<Longrightarrow> lower_compiled_expr lo i m e = lower_compiled_expr lo0 i m e"
  unfolding clean_after_def by (rule kept_lower) simp

lemma clean_find:
  "clean_after lo0 lo \<Longrightarrow> find_signal lo i s m = find_signal lo0 i s m"
  "clean_after lo0 lo \<Longrightarrow> find_memory lo i s m = find_memory lo0 i s m"
  by (simp_all add: clean_after_def kept_find)

lemma lower_assignment_clean:
  assumes "clean_after lo0 lo" "find_signal lo0 i (ca_dst a) m = (Some j, [])" "expr_quiet lo0 i m (ca_expr a)"
  shows "clean_after lo0 (lower_assignment i m a lo)"
  using assms clean_lower [OF assms(1)] clean_find(1) [OF assms(1)]
  by (cases "lower_compiled_expr lo0 i m (ca_expr a)")
    (simp add: lower_assignment_def clean_after_def kept_def push_assignment_def push_diags_def expr_quiet_def)

lemma lower_register_clean:
  assumes "clean_after lo0 lo" "find_signal lo0 i (cr_signal r) m = (Some j, [])" "expr_quiet lo0 i m (cr_next r)"
    and "find_signal lo0 i (cr_clock r) m = (Some c, [])"
    and "\<forall>x. cr_reset r = Some x \<longrightarrow> (\<exists>k. find_signal lo0 i (rst_signal x) m = (Some k, []))"
  shows "clean_after lo0 (lower_register i m r lo)"
  using assms clean_lower [OF assms(1)] clean_find(1) [OF assms(1)]
  by (cases "lower_compiled_expr lo0 i m (cr_next r)"; cases "cr_reset r")
    (auto simp: lower_register_def lower_reset_def clean_after_def kept_def push_diags_def expr_quiet_def Let_def)

lemma lower_write_clean:
  assumes "clean_after lo0 lo" "find_memory lo0 i (cmw_mem w) m = (Some j, [])" "find_signal lo0 i (cmw_clock w) m = (Some c, [])"
    and "expr_quiet lo0 i m (cmw_enable w)" "expr_quiet lo0 i m (cmw_addr w)" "expr_quiet lo0 i m (cmw_data w)"
  shows "clean_after lo0 (lower_write i m w lo)"
  using assms clean_lower [OF assms(1)] clean_find [OF assms(1)]
  by (cases "lower_compiled_expr lo0 i m (cmw_enable w)"; cases "lower_compiled_expr lo0 i m (cmw_addr w)";
      cases "lower_compiled_expr lo0 i m (cmw_data w)")
    (simp add: lower_write_def lower_memory_write_def clean_after_def kept_def push_diags_def expr_quiet_def Let_def)

lemma flat_context_clean:
  assumes lo: "maps_total lo m" "lo_diagnostics lo = []" and cm: "module_compiled d m cm" "cm_instances cm = []" and reads: "scalar_reads m"
    and wf: "signals_wf m" and ok: "\<forall>w \<in> set (m_memory_writes m). write_ok m w"
      "\<forall>si \<in> set (m_signals m). is_reg_kind (si_kind si) \<longrightarrow> plain_signal m (si_handle si)"
  shows "\<exists>lo'. lower_context (0, \<lparr>ix_path = path, ix_module = cm\<rparr>) lo = Some lo' \<and> lo_diagnostics lo' = []"
proof -
  note find = find_total(1) [OF lo(1), of _ cm]
  define lo1 where "lo1 = fold (lower_assignment 0 cm) (cm_assignments cm) lo"
  define lo2 where "lo2 = fold (lower_register 0 cm) (cm_registers cm) lo1"
  have "clean_after lo lo" using lo(2) by (simp add: clean_after_def)
  then have 1: "clean_after lo lo1" unfolding lo1_def
  proof (rule fold_clean [rotated])
    fix c lo' assume c: "c \<in> set (cm_assignments cm)" and cl: "clean_after lo lo'"
    have "list_all2 (assignment_matches m) (m_assignments m) (cm_assignments cm)" using cm by (simp add: module_compiled_def)
    from list_all2_in_right [OF this c] obtain a where a: "a \<in> set (m_assignments m)" "assignment_matches m a c" by blast
    then have r: "plain_signal m (ca_dst c)" "readable m (as_expr a)" "compiled_ok m (as_expr a) (ca_expr c)"
      using reads by (auto simp: scalar_reads_def list_all_iff assignment_matches_def)
    from find [OF r(1)] obtain j where "find_signal lo 0 (ca_dst c) cm = (Some j, [])" by blast
    then show "clean_after lo (lower_assignment 0 cm c lo')"
      using lower_assignment_clean [OF cl] compiled_quiet [OF lo(1) r(3,2)] by blast
  qed
  then have 2: "clean_after lo lo2" unfolding lo2_def
  proof (rule fold_clean [rotated])
    fix c lo' assume c: "c \<in> set (cm_registers cm)" and cl: "clean_after lo lo'"
    have "list_all2 (register_matches m) (filter (\<lambda>si. is_reg_kind (si_kind si)) (m_signals m)) (cm_registers cm)"
      using cm by (simp add: module_compiled_def)
    from list_all2_in_right [OF this c] obtain si where si: "si \<in> set (m_signals m)" "is_reg_kind (si_kind si)" "register_matches m si c" by auto
    then obtain e where e: "si_kind si = KReg (Some (cr_clock c)) (cr_reset c) (Some e)" "compiled_ok m e (cr_next c)"
      "cr_signal c = si_handle si" by (auto simp: register_matches_def)
    have "case si_kind si of KReg clk rst nxt \<Rightarrow> (case clk of None \<Rightarrow> False | Some c \<Rightarrow> plain_signal m c)
           \<and> (case rst of None \<Rightarrow> True | Some r \<Rightarrow> plain_signal m (rst_signal r))
           \<and> (case nxt of None \<Rightarrow> False | Some e \<Rightarrow> readable m e) | _ \<Rightarrow> True"
      using reads si(1) unfolding scalar_reads_def list_all_iff by blast
    then have r: "plain_signal m (cr_clock c)" "\<forall>x. cr_reset c = Some x \<longrightarrow> plain_signal m (rst_signal x)" "readable m e"
      "plain_signal m (cr_signal c)" using e ok(2) si(1,2) by auto
    from find [OF r(4)] find [OF r(1)] obtain j k where "find_signal lo 0 (cr_signal c) cm = (Some j, [])"
      "find_signal lo 0 (cr_clock c) cm = (Some k, [])" by blast
    then show "clean_after lo (lower_register 0 cm c lo')"
      using lower_register_clean [OF cl _ compiled_quiet [OF lo(1) e(2) r(3)]] find r(2) by blast
  qed
  then have "clean_after lo (fold (lower_write 0 cm) (cm_memory_writes cm) lo2)"
  proof (rule fold_clean [rotated])
    fix c lo' assume c: "c \<in> set (cm_memory_writes cm)" and cl: "clean_after lo lo'"
    have "list_all2 (write_matches m) (m_memory_writes m) (cm_memory_writes cm)" using cm by (simp add: module_compiled_def)
    from list_all2_in_right [OF this c] obtain w where w: "w \<in> set (m_memory_writes m)" "write_matches m w c" by blast
    then have r: "plain_signal m (cmw_clock c)" "readable m (mw_enable w)" "readable m (mw_addr w)" "readable m (mw_data w)"
      "compiled_ok m (mw_enable w) (cmw_enable c)" "compiled_ok m (mw_addr w) (cmw_addr c)" "compiled_ok m (mw_data w) (cmw_data c)"
      using reads by (auto simp: scalar_reads_def list_all_iff write_matches_def)
    obtain mem aw dw depth where "module_signal m (cmw_mem c) = Some mem" "si_kind mem = KMem aw dw depth"
      using bspec [OF ok(1) w(1)] w(2) by (auto simp: write_ok_def write_matches_def)
    from find_total(2) [OF lo(1) this, of cm] find [OF r(1)] obtain j k where
      "find_memory lo 0 (cmw_mem c) cm = (Some j, [])" "find_signal lo 0 (cmw_clock c) cm = (Some k, [])" by blast
    then show "clean_after lo (lower_write 0 cm c lo')"
      by (rule lower_write_clean [OF cl _ _ compiled_quiet [OF lo(1) r(5,2)] compiled_quiet [OF lo(1) r(6,3)] compiled_quiet [OF lo(1) r(7,4)]])
  qed
  then show ?thesis using cm(2) by (simp add: lower_context_def Let_def lo1_def lo2_def clean_after_def)
qed

section \<open>The lowering succeeds\<close>

definition module_compiles :: "design \<Rightarrow> rmodule \<Rightarrow> compiled_module \<Rightarrow> bool" where
  "module_compiles d m cm \<longleftrightarrow> compile_module d m = Inr cm"

lemma compile_module_plain:
  assumes "module_compiles d m cm"
  shows "cm_name cm = m_name m" "cm_signals cm = m_signals m" "cm_is_external cm = m_is_external m"
    and "m_assertions m = [] \<Longrightarrow> cm_assertions cm = []" "m_cover_points m = [] \<Longrightarrow> cm_cover_points cm = []"
  using assms
  by (auto simp: module_compiles_def compile_module_def filter_map_def List.map_filter_simps Let_def split: prod.splits if_splits)

lemma compile_modules_each: "compile_modules d ms = Inr cms \<Longrightarrow> list_all2 (module_compiles d) ms cms"
  by (induction ms arbitrary: cms) (auto simp: module_compiles_def split: sum.splits)

lemma find_compiles:
  assumes "list_all2 (module_compiles d) ms cms"
  shows "rel_option (module_compiles d) (List.find (\<lambda>m. m_name m = n) ms) (List.find (\<lambda>m. cm_name m = n) cms)"
  using assms by (induction rule: list_all2_induct) (auto simp: compile_module_plain(1))

lemma compiled_root:
  assumes "compile_ir ord d = Some (Inr cd)" "find_module d root = Some m" "compiled_find_module cd root = Some cm"
  shows "module_compiles d m cm"
proof -
  have "compile_modules d (ds_modules d) = Inr (cd_modules cd)"
  proof -
    obtain v where v: "validate_design ord d = Some v" using assms(1) by (auto simp: compile_ir_def bind_eq_Some)
    with assms(1) show ?thesis by (cases v; cases "compile_modules d (ds_modules d)") (auto simp: compile_ir_def)
  qed
  from find_compiles [OF compile_modules_each [OF this], of root] assms(2,3) show ?thesis
    by (simp add: find_module_def compiled_find_module_def)
qed

lemma flat_lowers:
  assumes ord: "hash_iteration ord" and acc: "validate_design ord d = Some (Inr ())" "in_range_design d"
    and m: "find_module d root = Some m" "\<not> m_is_external m" "\<not> module_has_inout m" "flat_plain m" "scalar_reads m"
    and cd: "compile_ir ord d = Some (Inr cd)"
  shows "\<exists>p. lower_to_packed_program hord cd root = Some (Inr p)"
proof -
  have typed: "list_all2 (module_compiled d) (ds_modules d) (cd_modules cd)" "typed_design cd" "names_ok cd"
    using accepted_typed [OF ord acc] cd by auto
  have mem: "m \<in> set (ds_modules d)" using m(1) by (auto dest: find_module_name)
  have valid: "validate_module ord d m = Some []" using accepted_parts(3) [OF acc(1)] mem by blast
  obtain cm where cm: "compiled_find_module cd root = Some cm" "module_compiled d m cm"
    using find_module_compiled [OF typed(1), of root] m(1)
    by (auto simp: compiled_find_module_def find_module_def option_rel_Some1)
  have range: "in_range_module m" using acc(2) mem by (simp add: in_range_design_def list_all_iff)
  then have wf: "signals_wf m" by (simp add: in_range_module_def)
  have inst: "cm_instances cm = []" using cm(2) m(4) by (simp add: module_compiled_def flat_plain_def flat_scalar_def)
  have cmt: "typed_module m cm" by (rule module_compiled_typed [OF ord valid cm(2) range])
  have ctxs: "add_context (Suc (length (cd_modules cd))) cd cm root = Some ([\<lparr>ix_path = root, ix_module = cm\<rparr>], [])"
    using inst by simp
  have top: "top_diags cm = []" "supported cm"
    using compile_module_plain [OF compiled_root [OF cd m(1) cm(1)]] m(2-4)
    by (auto simp: top_diags_def supported_def flat_plain_def module_has_inout_def list_ex_iff)
  define lo where "lo = start_lowering cd (top_diags cm @ []) [\<lparr>ix_path = root, ix_module = cm\<rparr>]"
  have "cm \<in> set (cd_modules cd)" using find_module_in [OF cm(1)] by blast
  note start = start_lowering_ok [OF typed(2,3) this ctxs, where ds = "top_diags cm @ []", folded lo_def]
  have quiet: "lo_diagnostics lo = []" using start(3) top by simp
  have contexts: "lo_contexts lo = [\<lparr>ix_path = root, ix_module = cm\<rparr>]"
    using start(2) by (simp add: grown_def new_lowering_def)
  have total: "maps_total lo m" using start(4) [of 0] cmt by (intro entries_total [OF wf]) (simp add: typed_module_def)
  note parts = accepted_module [OF valid m(2)]
  have "\<forall>w \<in> set (m_memory_writes m). write_ok m w"
    using parts(5) by (simp add: validate_memory_writes_def concat_map_Nil_iff memory_write_diags_quiet)
  moreover have "\<forall>si \<in> set (m_signals m). is_reg_kind (si_kind si) \<longrightarrow> plain_signal m (si_handle si)"
    using signals_wf_lookup [OF wf] by (fastforce simp: plain_signal_def is_reg_kind_def split: signal_kind.splits)
  ultimately obtain lo' where lo': "lower_context (0, \<lparr>ix_path = root, ix_module = cm\<rparr>) lo = Some lo'" "lo_diagnostics lo' = []"
    using flat_context_clean [OF total quiet cm(2) inst m(5) wf] by blast
  then have "lower_contexts lo = Some lo'" by (simp add: lower_contexts_def contexts)
  moreover obtain comb where "schedule_assignments hord (lo_assignments lo') = Some comb" using schedule_assignments_total by blast
  ultimately show ?thesis
    using lo'(2) by (simp add: lowering_unfold [OF cm(1)] ctxs lo_def del: add_context.simps)
qed

end
