(* ===== verification/Packed_Properties.thy ===== *)
theory Packed_Properties
  imports Packed_Order
begin

text \<open>
  The properties of limb arithmetic, of the machine form with its verifier and its scheduler, and
  of the packed simulator, each with a witness on the concrete program defined first.
\<close>

section \<open>A concrete program\<close>

definition sample_signal :: "signal_id \<Rightarrow> string \<Rightarrow> nat \<Rightarrow> nat \<Rightarrow> packed_signal_kind \<Rightarrow> packed_signal" where
  "sample_signal i n w off k = \<lparr>ps_name = n, ps_source = Some \<lparr>sig_module = 0, sig_id = i\<rparr>, ps_owner_path = ''top'',
     ps_layout = \<lparr>pl_width = w, pl_ty = BitType w Unsigned, pl_offset = off, pl_limbs = limbs w\<rparr>, ps_kind = k\<rparr>"

definition sample_memory :: packed_memory where
  "sample_memory = \<lparr>pm_name = ''top.log'', pm_source = \<lparr>sig_module = 0, sig_id = 3\<rparr>, pm_owner_path = ''top'',
     pm_addr_width = 2, pm_depth = 4,
     pm_data_layout = \<lparr>pl_width = 8, pl_ty = BitType 8 Unsigned, pl_offset = 0, pl_limbs = 1\<rparr>, pm_offset = 0\<rparr>"

text \<open>
  A 40-bit counter of two limbs with a synchronous reset to 7 while the input is low, its
  successor as a wire, and a memory that logs the counter.
\<close>

definition psig :: "nat \<Rightarrow> nat \<Rightarrow> packed_expr" where
  "psig i w = PExpr (PSignal i) (BitType w Unsigned)"

definition sample_program :: packed_program where
  "sample_program = \<lparr>pp_top = ''top'',
     pp_signals = [sample_signal 0 ''top.en'' 1 0 PkInput, sample_signal 1 ''top.count'' 40 1 PkReg,
       sample_signal 2 ''top.next'' 40 3 PkWire],
     pp_memories = [sample_memory],
     pp_streams = \<lparr>st_async_reset_comb = [],
       st_comb = [[Assign 2 (PExpr (PAdd (psig 1 40) (PExpr (PLit [1, 0]) (BitType 40 Unsigned))) (BitType 40 Unsigned))]],
       st_tick_next = [[CaptureReg 1 (psig 2 40)
          (Some \<lparr>pr_signal = 0, pr_value = [7, 0], pr_kind = Sync, pr_polarity = ActiveLow\<rparr>)]],
       st_tick_commit = [[MemoryWrite 0 (psig 0 1) (PExpr (PTrunc (psig 1 40)) (BitType 2 Unsigned))
          (PExpr (PTrunc (psig 2 40)) (BitType 8 Unsigned))]]\<rparr>,
     pp_top_signal_indices = [\<lparr>sig_module = 0, sig_id = 0\<rparr> \<mapsto> 0, \<lparr>sig_module = 0, sig_id = 1\<rparr> \<mapsto> 1,
       \<lparr>sig_module = 0, sig_id = 2\<rparr> \<mapsto> 2],
     pp_total_signal_words = 5, pp_total_memory_words_per_lane = 4,
     pp_reg_clocks = Map.empty, pp_mem_clocks = Map.empty\<rparr>"

lemmas sample_defs = sample_program_def sample_signal_def sample_memory_def psig_def

lemma sample_limbs: "limbs 1 = 1" "limbs (Suc 0) = 1" "limbs 8 = 1" "limbs 40 = 2"
  by (simp_all add: limbs_def)

lemma sample_ok: "program_ok sample_program"
proof -
  have "layouts_wf sample_program"
    by (simp add: sample_defs layouts_wf_def layout_ok_def width_ok_def disjoint_ranges_def signal_range_def
        memory_range_def sample_limbs nth_Cons split: nat.splits)
  moreover have "streams_ok sample_program"
    by (simp add: sample_defs streams_ok_def stream_ok_def width_ok_def pe_width_def)
  moreover have "\<forall>i \<in> ran (pp_top_signal_indices sample_program). i < length (pp_signals sample_program)"
    by (auto simp: sample_defs ran_def split: if_splits)
  ultimately show ?thesis by (simp add: program_ok_def)
qed

lemma sample_ordered: "ordered_comb (st_comb (pp_streams sample_program))"
  "st_async_reset_comb (pp_streams sample_program) = []"
  by (simp_all add: sample_defs stream_assigns_def)

text \<open>The simulator of two lanes.\<close>

definition sample_simulator :: packed_simulator where
  "sample_simulator = projr (the (new_packed_simulator sample_program 2))"

lemma sample_simulator_ok:
  "new_packed_simulator sample_program 2 = Some (Inr sample_simulator)"
  "packed_reachable sample_program sample_simulator" "simulator_ok sample_simulator"
  "pk_program sample_simulator = sample_program" "pk_lanes sample_simulator = 2"
  "\<forall>l < 2. lane_state sample_simulator l = settle_spec sample_program zero_state"
proof -
  obtain s where s: "new_packed_simulator sample_program 2 = Some (Inr s)" "simulator_ok s" "pk_program s = sample_program"
    "pk_lanes s = 2" "\<forall>l < 2. lane_state s l = settle_spec sample_program zero_state"
    using new_packed_simulator_runs [of sample_program 2] sample_ok by (auto simp: program_ok_def)
  moreover have "sample_simulator = s" using s(1) by (simp add: sample_simulator_def)
  ultimately show "new_packed_simulator sample_program 2 = Some (Inr sample_simulator)"
    "simulator_ok sample_simulator" "pk_program sample_simulator = sample_program" "pk_lanes sample_simulator = 2"
    "\<forall>l < 2. lane_state sample_simulator l = settle_spec sample_program zero_state" by simp_all
  with packed_reachable.built show "packed_reachable sample_program sample_simulator" by blast
qed

section \<open>Limb arithmetic\<close>

text \<open>
  C20: The limb operations of the packed engine are modular arithmetic: sum, difference and
  product of limb vectors of any lengths are the integer results modulo two to the width, the
  column sums of the product in 64-bit words do not overflow, and the comparison of values is
  that of the integers, signed or unsigned.
\<close>

theorem limb_arithmetic:
  assumes "0 < bt_width ty" "bt_width ty < 2 ^ 32"
  shows "lval (add_limbs xs ys ty) = (lval xs + lval ys) mod 2 ^ bt_width ty
    \<and> lval (sub_limbs xs ys ty) = (lval xs - lval ys) mod 2 ^ bt_width ty
    \<and> lval (mul_limbs xs ys ty) = (lval xs * lval ys) mod 2 ^ bt_width ty
    \<and> lt_values xs ys (bt_width ty) False = Some (lval xs mod 2 ^ bt_width ty < lval ys mod 2 ^ bt_width ty)
    \<and> lt_values xs ys (bt_width ty) True =
       Some (signed_take_bit (bt_width ty - 1) (lval xs) < signed_take_bit (bt_width ty - 1) (lval ys))"
  using assms by (simp add: lval_add_limbs lval_sub_limbs lval_mul_limbs lt_values_iff take_bit_eq_mod)

theorem limb_arithmetic_witness:
  "lval (mul_limbs [4294967295, 255] [4294967295, 255] (BitType 40 Unsigned)) = 1
   \<and> lval (sub_limbs [0, 0] [1] (BitType 40 Unsigned)) = 1099511627775"
  using limb_arithmetic [of "BitType 40 Unsigned" "[4294967295, 255]" "[4294967295, 255]"]
    limb_arithmetic [of "BitType 40 Unsigned" "[0, 0]" "[1]"] by simp

lemma take_bit_u128: "take_bit 128 (take_bit w (uint (v :: u128))) = take_bit w (uint v)"
proof -
  have "take_bit 128 (take_bit w (uint v)) = take_bit w (take_bit 128 (uint v))" by (simp add: ac_simps)
  then show ?thesis by (simp add: bintr_uint)
qed

text \<open>
  Encoding a 128-bit number for a type and decoding it gives the number modulo two to the
  width, and the encoding has the limbs of the type.
\<close>

theorem encode_decode_u128:
  assumes "0 < bt_width ty"
  shows "uint (decode_u128_limbs (encode_u128_limbs v ty)) = uint v mod 2 ^ bt_width ty
    \<and> length (encode_u128_limbs v ty) = limbs (bt_width ty)"
using assms take_bit_u128 [of "bt_width ty" v]
  by (simp add: uint_decode_u128 lval_encode_u128_limbs take_bit_eq_mod)

theorem encode_decode_u128_witness:
  "uint (decode_u128_limbs (encode_u128_limbs (2 ^ 40 + 5) (BitType 40 Unsigned))) = 5"
  using encode_decode_u128 [of "BitType 40 Unsigned" "2 ^ 40 + 5"] by simp

section \<open>The machine form\<close>

text \<open>
  C21: The machine-program verifier is exact: it accepts a program if and only if in every block
  each instruction reads values of earlier packets, each effect values of its own or earlier
  packets, no value is defined twice and all signal and memory indices are in range.
\<close>

theorem verifier_exact:
  "(\<exists>a. analyze_machine_program mc = Inr a) \<longleftrightarrow>
     block_valid (mc_source mc) {} (ms_async_reset_comb (mc_streams mc))
     \<and> block_valid (mc_source mc) {} (ms_comb (mc_streams mc))
     \<and> block_valid (mc_source mc) {} (ms_tick_next (mc_streams mc))
     \<and> block_valid (mc_source mc) {} (ms_tick_commit (mc_streams mc))"
  by (simp add: analyze_machine_program_iff)

text \<open>
  C22: Lowering to the machine form always returns, the verifier accepts the result when the
  operations of the program are well formed, and the blocks compute the expressions of the
  streams they were lowered from.
\<close>

theorem machine_lowering_accepted:
  assumes "streams_ok p"
  shows "\<exists>mc a. lower_to_machine_program p = Some mc \<and> analyze_machine_program mc = Inr a
    \<and> mc_source mc = p \<and> machine_implements p mc"
proof -
  obtain mc where mc: "lower_to_machine_program p = Some mc" "mc_source mc = p"
    using lower_to_machine_program_total by blast
  have "\<exists>a. analyze_machine_program mc = Inr a"
    unfolding analyze_machine_program_iff mc(2)
    using mc(1) assms lowered_stream_valid by (auto simp: lower_to_machine_program_def streams_ok_def bind_eq_Some)
  with mc lowering_machine_implements [OF mc(1) assms] show ?thesis by blast
qed

theorem machine_lowering_accepted_witness:
  "\<exists>mc a. lower_to_machine_program sample_program = Some mc \<and> analyze_machine_program mc = Inr a
    \<and> mc_source mc = sample_program \<and> machine_implements sample_program mc"
  by (rule machine_lowering_accepted) (use sample_ok in \<open>simp add: program_ok_def\<close>)

text \<open>
  C23: The packet scheduler keeps its bounds: with bounds that are not zero it returns a block in
  which no packet has more instructions, or more memory reads, than allowed, that the verifier
  accepts, with the same instructions and the same effects in the same order.
\<close>

theorem schedule_bounds:
  assumes "analyze_machine_block block p = Inr a" "options_ok opts"
  shows "\<exists>res b. optimize_machine_block block p opts = Some (Inr res) \<and> analyze_machine_block res p = Inr b
    \<and> (\<forall>pk \<in> set res. (\<forall>w. so_max_packet_width opts = Some w \<longrightarrow> length (mp_instrs pk) \<le> w)
        \<and> (\<forall>c. so_max_memory_reads_per_packet opts = Some c \<longrightarrow> length (filter is_memory_read (mp_instrs pk)) \<le> c))
    \<and> set (concat (map mp_instrs res)) = set (concat (map mp_instrs block))
    \<and> concat (map mp_effects res) = concat (map mp_effects block)"
proof -
  have "block_valid p {} block" using assms(1) analyze_machine_block_iff by blast
  from optimize_block_valid [OF this assms(2)] obtain res where
    res: "optimize_machine_block block p opts = Some (Inr res)" "block_valid p {} res"
    "\<forall>pk \<in> set res. within opts (mp_instrs pk)" "concat (map mp_effects res) = concat (map mp_effects block)"
    "set (concat (map mp_instrs res)) = set (concat (map mp_instrs block))" by blast
  obtain b where b: "analyze_machine_block res p = Inr b" using res(2) analyze_machine_block_iff by blast
  have "\<forall>pk \<in> set res. (\<forall>w. so_max_packet_width opts = Some w \<longrightarrow> length (mp_instrs pk) \<le> w)
        \<and> (\<forall>c. so_max_memory_reads_per_packet opts = Some c \<longrightarrow> length (filter is_memory_read (mp_instrs pk)) \<le> c)"
    using res(3) by (cases "so_max_packet_width opts"; cases "so_max_memory_reads_per_packet opts") (simp_all add: within_def)
  with res(1,4,5) b show ?thesis by blast
qed

definition sample_block :: packed_block where
  "sample_block = [\<lparr>mp_instrs = [\<lparr>in_dst = 0, in_ty = BitType 8 Unsigned, in_kind = PLit [1]\<rparr>,
       \<lparr>in_dst = 1, in_ty = BitType 8 Unsigned, in_kind = PLit [2]\<rparr>], mp_effects = []\<rparr>,
     \<lparr>mp_instrs = [\<lparr>in_dst = 2, in_ty = BitType 8 Unsigned, in_kind = PAdd 0 1\<rparr>], mp_effects = [StoreSignal 2 2]\<rparr>]"

definition one_wide :: schedule_options where
  "one_wide = \<lparr>so_max_packet_width = Some 1, so_max_memory_reads_per_packet = Some 1, so_liveness_priority = True\<rparr>"

theorem schedule_bounds_witness:
  "\<exists>res. optimize_machine_block sample_block sample_program one_wide = Some (Inr res)
    \<and> list_all (\<lambda>pk. length (mp_instrs pk) \<le> 1) res"
proof -
  have "block_valid sample_program {} sample_block"
    by (simp add: sample_block_def instr_value_deps_def instr_refs_ok_def sample_defs)
  then obtain a where a: "analyze_machine_block sample_block sample_program = Inr a" using analyze_machine_block_iff by blast
  have "options_ok one_wide" by (simp add: options_ok_def one_wide_def)
  from schedule_bounds [OF a this] show ?thesis by (auto simp: one_wide_def list_all_iff)
qed

section \<open>The packed simulator\<close>

text \<open>
  C24: The constructor refuses zero lanes with its diagnostic, and for every other number of
  lanes builds a simulator in which every lane is the settled zero state.
\<close>

theorem packed_constructor:
  assumes "program_ok p" "lanes \<noteq> 0"
  shows "new_packed_simulator p 0 =
      Some (Inl [new_diag ''E_SIM_IR_LANES'' ''packed simulator requires at least one lane''])
    \<and> (\<exists>s. new_packed_simulator p lanes = Some (Inr s) \<and> pk_lanes s = lanes
      \<and> (\<forall>l < lanes. lane_state s l = settle_spec p zero_state))"
  using new_packed_simulator_runs [of p lanes] assms by (auto simp: program_ok_def new_packed_simulator_def)

theorem packed_constructor_witness:
  "\<exists>s. new_packed_simulator sample_program 3 = Some (Inr s) \<and> pk_lanes s = 3
    \<and> fst (lane_state s 2) 2 = 1"
proof -
  obtain s where s: "new_packed_simulator sample_program 3 = Some (Inr s)" "pk_lanes s = 3"
    "\<forall>l < 3. lane_state s l = settle_spec sample_program zero_state"
    using packed_constructor [OF sample_ok, of 3] by auto
  moreover have "fst (settle_spec sample_program zero_state) 2 = 1"
    by (simp add: sample_defs settle_spec_def block_spec_def packet_spec_def eval_in_def zero_state_def pe_width_def)
  ultimately show ?thesis by auto
qed



text \<open>
  C26: Settling, a clock edge and a tick of the packed engine refine the abstract machine on
  every lane: the state of the lane afterwards is the settled state, the edge and the tick of
  the specification on the state of the lane before.
\<close>

theorem packed_engine_refines:
  assumes "packed_reachable p s" "program_ok p" "l < pk_lanes s"
  shows "(\<exists>s'. packed_eval_combinational s = Some s' \<and> lane_state s' l = settle_spec p (lane_state s l))
    \<and> (\<exists>s'. tick_from_evaluated_no_post_eval s = Some s' \<and> lane_state s' l = edge_spec p (lane_state s l))
    \<and> (\<exists>s'. packed_tick s = Some s' \<and> lane_state s' l = tick_spec p (lane_state s l))"
  using packed_reachable_ok [OF assms(1,2)] settle_run [of s] edge_run [of s] tick_run [of s] assms(3)
  by (auto simp: lane_run_def)

theorem packed_engine_refines_witness:
  "\<exists>s'. packed_tick sample_simulator = Some s' \<and> lane_state s' 1 = tick_spec sample_program (lane_state sample_simulator 1)
    \<and> fst (lane_state s' 1) 1 = 7"
proof -
  have "1 < pk_lanes sample_simulator" by (simp add: sample_simulator_ok)
  from packed_engine_refines [OF sample_simulator_ok(2) sample_ok this] obtain s' where
    "packed_tick sample_simulator = Some s'" "lane_state s' 1 = tick_spec sample_program (lane_state sample_simulator 1)" by blast
  moreover have "fst (tick_spec sample_program (settle_spec sample_program zero_state)) 1 = 7"
    by (simp add: sample_defs tick_spec_def edge_spec_def next_registers_def commit_spec_def settle_spec_def block_spec_def
        packet_spec_def eval_in_def zero_state_def pe_width_def reset_active_def)
  ultimately show ?thesis using sample_simulator_ok(6) by auto
qed

text \<open>
  C27: Lanes are independent: when a lane of one simulator and a lane of another one of the same
  program, of any lane counts, are in the same state, they are so after any number of fused ticks.
\<close>

theorem lanes_independent:
  assumes "packed_reachable p s" "packed_reachable p s'" "program_ok p" "l < pk_lanes s" "l' < pk_lanes s'"
    and "lane_state s l = lane_state s' l'"
  shows "\<exists>t t'. packed_tick_many n s = Some t \<and> packed_tick_many n s' = Some t' \<and> lane_state t l = lane_state t' l'"
  using packed_reachable_ok [OF assms(1,3)] packed_reachable_ok [OF assms(2,3)]
    tick_many_run [of s n] tick_many_run [of s' n] assms(4-6)
  by (auto simp: lane_run_def)

theorem lanes_independent_witness:
  "\<exists>t t'. packed_tick_many 5 sample_simulator = Some t \<and> packed_tick_many 5 sample_simulator = Some t'
    \<and> lane_state t 0 = lane_state t' 1"
  by (rule lanes_independent [OF sample_simulator_ok(2) sample_simulator_ok(2) sample_ok])
    (simp_all add: sample_simulator_ok)

text \<open>
  C28: The fused ticks are the ticks one after the other, on every lane, when the combinational
  stream is ordered and there is no asynchronous reset.
\<close>

theorem fused_ticks:
  assumes "packed_reachable p s" "program_ok p" "l < pk_lanes s"
    and "ordered_comb (st_comb (pp_streams p))" "st_async_reset_comb (pp_streams p) = []"
  shows "\<exists>t t'. packed_tick_many n s = Some t \<and> repeat_tick n s = Some t' \<and> lane_state t l = lane_state t' l"
proof (cases "n = 0")
  case True
  then show ?thesis by (simp add: packed_tick_many_def)
next
  case False
  then have "(tick_spec p ^^ n) st = ((\<lambda>x. settle_spec p (edge_spec p x)) ^^ n) (settle_spec p st)" for st
    using ticks_fuse settle_holds(2) [OF assms(4,5)] by blast
  with False packed_reachable_ok [OF assms(1,2)] tick_many_run [of s n] repeat_tick_run [of s n] assms(3) show ?thesis
    by (auto simp: lane_run_def)
qed

theorem fused_ticks_witness:
  "\<exists>t t'. packed_tick_many 3 sample_simulator = Some t \<and> repeat_tick 3 sample_simulator = Some t'
    \<and> lane_state t 1 = lane_state t' 1"
  by (rule fused_ticks [OF sample_simulator_ok(2) sample_ok _ sample_ordered]) (simp add: sample_simulator_ok)



section \<open>The interface\<close>

text \<open>
  C30: Driving a signal on all lanes and reading it gives the value modulo two to its width on
  every lane, up to the 128 bits that a reading returns.
\<close>

theorem drive_then_read:
  assumes "packed_reachable p s" "program_ok p" "pp_top_signal_indices p x = Some i"
  shows "\<exists>s' vs. set_signals_replicated_raw [(x, v)] s = Some (s', Inr ()) \<and> get_signal s' x = Some (Inr vs)
    \<and> map uint vs = replicate (pk_lanes s) (uint v mod 2 ^ pl_width (ps_layout (pp_signals p ! i)))"
proof -
  have s: "simulator_ok s" "pk_program s = p" using packed_reachable_ok [OF assms(1,2)] by simp_all
  have st: "storage_ok s" using simulator_goes_on [OF s(1)] by (rule goes_onD)
  have i: "i < signal_count s" using assms(2,3) s(2) by (auto simp: program_ok_def ran_def)
  let ?w = "pl_width (signal_layout s i)" and ?ls = "encode_u128_limbs v (pl_ty (signal_layout s i))"
  obtain s' where s': "set_packed_signal_replicated_limbs i ?ls s = Some s'" "goes_on s s'"
    "\<forall>l < pk_lanes s. lane_state s' l = drive p i (lval ?ls) (lane_state s l)"
    using set_replicated_limbs_ok [OF simulator_goes_on [OF s(1)] i encoded_length [OF st i]] s(2) by auto
  have run: "set_signals_replicated_raw [(x, v)] s = Some (s', Inr ())"
    using assms(3) s(2) s'(1) i by (simp add: set_signals_replicated_raw_def signal_index_def pp_signal_index_def vec_get_def or_fail_def)
  have eq: "pk_program s' = p" "pk_lanes s' = pk_lanes s" "storage_ok s'" using s'(2) s(2) by (simp_all add: goes_on_def)
  then obtain vs where vs: "get_signal s' x = Some (Inr vs)" "map uint vs = map (\<lambda>l. take_bit 128 (lane_signal s' l i)) [0..<pk_lanes s]"
    using get_signal_ok [OF eq(3), of x i] assms(3) i s(2) by (auto simp: pp_signal_index_def)
  have "lane_signal s' l i = take_bit ?w (uint v)" if "l < pk_lanes s" for l
  proof -
    have "lane_signal s' l i = fst (drive p i (lval ?ls) (lane_state s l)) i"
      using s'(3) that by (simp add: lane_state_def prod_eq_iff)
    then show ?thesis using encoded_value [OF st i, of v] s(2) by (simp add: drive_def)
  qed
  moreover note take_bit_u128 [of ?w v]
  ultimately have "map uint vs = map (\<lambda>l. take_bit ?w (uint v)) [0..<pk_lanes s]" unfolding vs(2) by (intro map_cong) simp_all
  with run vs(1) s(2) show ?thesis by (simp add: map_replicate_const take_bit_eq_mod)
qed

theorem drive_then_read_witness:
  "\<exists>s' vs. set_signals_replicated_raw [(\<lparr>sig_module = 0, sig_id = 1\<rparr>, 2 ^ 40 + 9)] sample_simulator = Some (s', Inr ())
    \<and> get_signal s' \<lparr>sig_module = 0, sig_id = 1\<rparr> = Some (Inr vs) \<and> map uint vs = [9, 9]"
proof -
  have "pp_top_signal_indices sample_program \<lparr>sig_module = 0, sig_id = 1\<rparr> = Some 1" by (simp add: sample_defs)
  moreover have "replicate 2 a = [a, a]" for a :: int by (simp add: numeral_2_eq_2)
  ultimately show ?thesis using drive_then_read [OF sample_simulator_ok(2) sample_ok, of _ 1 "2 ^ 40 + 9"]
    by (simp add: sample_simulator_ok sample_defs)
qed

text \<open>
  C31: A snapshot restores: whatever operations come between, restoring the snapshot of a
  simulator brings every lane back into its state; a storage is refused, with the simulator
  unchanged, exactly when a length does not fit.
\<close>

theorem snapshot_restores:
  assumes "packed_reachable p s" "packed_reachable p s'" "program_ok p" "pk_lanes s' = pk_lanes s"
  shows "(\<exists>t. restore_storage (snapshot_storage s) s' = (t, Inr ()) \<and> lane_state t = lane_state s
      \<and> snapshot_storage t = snapshot_storage s)
    \<and> ((\<exists>e. snd (restore_storage st s) = Inl e) \<longleftrightarrow>
       length (sg_values st) \<noteq> pp_total_signal_words p * pk_lanes s
       \<or> length (sg_memories st) \<noteq> pp_total_memory_words_per_lane p * pk_lanes s)
    \<and> (\<forall>e. snd (restore_storage st s) = Inl e \<longrightarrow> fst (restore_storage st s) = s)"
proof -
  have s: "storage_ok s" "pk_program s = p" "pk_program s' = p"
    using packed_reachable_ok [OF assms(1,3)] packed_reachable_ok [OF assms(2,3)] simulator_goes_on goes_onD(1) by blast+
  let ?t = "s'\<lparr>pk_values := pk_values s, pk_memories := pk_memories s\<rparr>"
  have "restore_storage (snapshot_storage s) s' = (?t, Inr ())"
    using s assms(4) by (simp add: restore_storage_def snapshot_storage_def storage_ok_def)
  moreover have "lane_state ?t = lane_state s" by (rule lane_state_storage) (use s assms(4) in simp_all)
  moreover have "snapshot_storage ?t = snapshot_storage s" by (simp add: snapshot_storage_def)
  ultimately have "\<exists>t. restore_storage (snapshot_storage s) s' = (t, Inr ()) \<and> lane_state t = lane_state s
      \<and> snapshot_storage t = snapshot_storage s" by blast
  with s(2) show ?thesis unfolding restore_storage_fails_iff by (auto simp: restore_storage_def Let_def split: if_splits)
qed

theorem snapshot_restores_witness:
  "\<exists>s' t. packed_tick_many 9 sample_simulator = Some s'
    \<and> restore_storage (snapshot_storage sample_simulator) s' = (t, Inr ()) \<and> lane_state t = lane_state sample_simulator"
proof -
  obtain s' where s': "packed_tick_many 9 sample_simulator = Some s'" "goes_on sample_simulator s'"
    using tick_many_run [OF sample_simulator_ok(3), of 9] by (auto simp: lane_run_def)
  have r: "packed_reachable sample_program s'" by (rule packed_reachable.ticked_many [OF sample_simulator_ok(2) s'(1)])
  show ?thesis using snapshot_restores [OF sample_simulator_ok(2) r sample_ok] s' goes_onD(3) [OF s'(2)] by blast
qed

end
