(* ===== verification/Lower_Properties.thy ===== *)
theory Lower_Properties
  imports Packed_Flat Validate_Properties Packed_Properties
begin

text \<open>
  The properties of the lowering from an accepted design to the packed engine, with witnesses on
  concrete designs.
\<close>

section \<open>From an accepted design to a running packed simulator\<close>








text \<open>
  C33: The level scheduler of the assignments returns on every list of assignments, cyclic ones
  included, and its packets hold exactly the assignments; when the assignments are acyclic with
  one driver for each signal, no assignment reads a signal of its own packet or of a later one.
\<close>

theorem assignments_scheduled:
  assumes "lists_sets ord"
  shows "\<exists>ps. schedule_assignments ord as = Some ps
    \<and> set (concat ps) = (\<lambda>a. Assign (fa_dst a) (fa_expr a)) ` set as
    \<and> (acyclic_assignments as \<longrightarrow> ordered_comb ps)"
proof -
  obtain ps where ps: "schedule_assignments ord as = Some ps" "set (concat ps) = assign_op ` set as"
    using schedule_assignments_total by blast
  have "assign_op ` set as = (\<lambda>a. Assign (fa_dst a) (fa_expr a)) ` set as" by (simp add: assign_op_def [abs_def])
  with ps schedule_ordered [OF assms, of as] show ?thesis by (intro exI [of _ ps]) (auto simp del: set_concat)
qed

definition chain_assignments :: "flat_assignment list" where
  "chain_assignments = [\<lparr>fa_dst = 2, fa_expr = PExpr (PNot (psig 1 8)) (BitType 8 Unsigned)\<rparr>, \<lparr>fa_dst = 1, fa_expr = psig 0 8\<rparr>]"

theorem assignments_scheduled_witness:
  "\<exists>ps. schedule_assignments sorted_list_of_set chain_assignments = Some ps \<and> ordered_comb ps \<and> Assign 1 (psig 0 8) \<in> set (concat ps)"
proof -
  have "lists_sets sorted_list_of_set" by (simp add: lists_sets_def)
  moreover have "acyclic_assignments chain_assignments"
    unfolding acyclic_assignments_def chain_assignments_def
    by (intro conjI exI [of _ "\<lambda>i. 1 - i"]) (auto simp: psig_def less_Suc_eq nth_Cons split: nat.splits)
  ultimately obtain ps where "schedule_assignments sorted_list_of_set chain_assignments = Some ps" "ordered_comb ps"
    "set (concat ps) = (\<lambda>a. Assign (fa_dst a) (fa_expr a)) ` set chain_assignments"
    using assignments_scheduled [of sorted_list_of_set chain_assignments] by blast
  then show ?thesis by (intro exI [of _ ps]) (simp add: chain_assignments_def del: set_concat)
qed

end
