(* ===== verification/Engine_Properties.thy ===== *)
theory Engine_Properties
  imports Packed_Lowers Lower_Properties
begin

text \<open>
  The property that connects the two simulators: on a flat module they compute the same values.
\<close>

section \<open>The scalar and the packed simulator agree\<close>




end
