(* ===== verification/Rv_Asm.thy ===== *)
theory Rv_Asm
  imports RRTL_Prelude
begin

text \<open>
  The RV32I assembler of \<open>src/crates/rrtl-riscv-asm/src/lib.rs\<close>: two passes over the source, the
  first of which gives every line its address and collects the labels, and the second of which
  encodes.  Strings are lists of ASCII characters, an \<open>i64\<close> is an integer between \<open>- 2 ^ 63\<close> and
  \<open>2 ^ 63 - 1\<close>, and the result of a fallible function is a value, an error or a panic.
\<close>

section \<open>Results\<close>

datatype ('e, 'a) outcome = Done 'a | Fail 'e | Panic

primrec attempt :: "('e, 'a) outcome \<Rightarrow> ('a \<Rightarrow> ('e, 'b) outcome) \<Rightarrow> ('e, 'b) outcome" where
  "attempt (Done x) f = f x"
| "attempt (Fail e) f = Fail e"
| "attempt Panic f = Panic"

primrec map_fail :: "('e \<Rightarrow> 'f) \<Rightarrow> ('e, 'a) outcome \<Rightarrow> ('f, 'a) outcome" where
  "map_fail h (Done x) = Done x"
| "map_fail h (Fail e) = Fail (h e)"
| "map_fail h Panic = Panic"

lemma attempt_Done: "attempt r f = Done y \<longleftrightarrow> (\<exists>x. r = Done x \<and> f x = Done y)"
  by (cases r) simp_all

lemma map_fail_Done [simp]: "map_fail h r = Done y \<longleftrightarrow> r = Done y"
  by (cases r) simp_all

definition ok_or :: "'a option \<Rightarrow> 'e \<Rightarrow> ('e, 'a) outcome" where
  "ok_or x e = (case x of None \<Rightarrow> Fail e | Some y \<Rightarrow> Done y)"

section \<open>Strings of the standard library\<close>

definition is_space :: "char \<Rightarrow> bool" where
  "is_space c \<longleftrightarrow> of_char c = (32 :: nat) \<or> 9 \<le> (of_char c :: nat) \<and> of_char c \<le> (13 :: nat)"

definition trim :: "string \<Rightarrow> string" where
  "trim s = rev (dropWhile is_space (rev (dropWhile is_space s)))"

definition char_between :: "nat \<Rightarrow> nat \<Rightarrow> char \<Rightarrow> bool" where
  "char_between lo hi c \<longleftrightarrow> lo \<le> of_char c \<and> of_char c \<le> hi"

definition is_digit :: "char \<Rightarrow> bool" where
  "is_digit = char_between 48 57"

definition is_alphabetic :: "char \<Rightarrow> bool" where
  "is_alphabetic c \<longleftrightarrow> char_between 65 90 c \<or> char_between 97 122 c"

definition to_lowercase :: "string \<Rightarrow> string" where
  "to_lowercase = map (\<lambda>c. if char_between 65 90 c then char_of (of_char c + 32 :: nat) else c)"

definition strip_prefix :: "string \<Rightarrow> string \<Rightarrow> string option" where
  "strip_prefix p s = (if take (length p) s = p then Some (drop (length p) s) else None)"

fun find_sub :: "string \<Rightarrow> string \<Rightarrow> nat option" where
  "find_sub p s = (if strip_prefix p s \<noteq> None then Some 0
     else (case s of [] \<Rightarrow> None | c # cs \<Rightarrow> map_option Suc (find_sub p cs)))"

fun find_char :: "(char \<Rightarrow> bool) \<Rightarrow> string \<Rightarrow> nat option" where
  "find_char P [] = None"
| "find_char P (c # cs) = (if P c then Some 0 else map_option Suc (find_char P cs))"

definition rfind_char :: "char \<Rightarrow> string \<Rightarrow> nat option" where
  "rfind_char c s = map_option (\<lambda>n. length s - 1 - n) (find_char (\<lambda>x. x = c) (rev s))"

fun split_on :: "char \<Rightarrow> string \<Rightarrow> string list" where
  "split_on d [] = [[]]"
| "split_on d (c # cs) = (if c = d then [] # split_on d cs
     else (case split_on d cs of [] \<Rightarrow> [[c]] | p # ps \<Rightarrow> (c # p) # ps))"

definition strip_cr :: "string \<Rightarrow> string" where
  "strip_cr s = (if s \<noteq> [] \<and> last s = CHR 0x0D then butlast s else s)"

definition str_lines :: "string \<Rightarrow> string list" where
  "str_lines s = (let ps = split_on (CHR 0x0A) s
     in map strip_cr (butlast ps) @ (if last ps = [] then [] else [last ps]))"

text \<open>
  \<open>from_str_radix\<close>: an optional sign and at least one digit.  The code accumulates towards the
  sign with overflow checks, which fail exactly when the value is out of range.
\<close>

definition digit_value :: "nat \<Rightarrow> char \<Rightarrow> nat option" where
  "digit_value radix c =
     (let n = of_char c; v = (if is_digit c then Some (n - 48) else if char_between 97 122 c then Some (n - 87)
            else if char_between 65 90 c then Some (n - 55) else None)
      in case v of None \<Rightarrow> None | Some d \<Rightarrow> if d < radix then Some d else None)"

fun digits_value :: "nat \<Rightarrow> int \<Rightarrow> string \<Rightarrow> int option" where
  "digits_value radix acc [] = Some acc"
| "digits_value radix acc (c # cs) =
     (case digit_value radix c of None \<Rightarrow> None | Some d \<Rightarrow> digits_value radix (acc * int radix + int d) cs)"

definition some_digits :: "nat \<Rightarrow> string \<Rightarrow> int option" where
  "some_digits radix s = (if s = [] then None else digits_value radix 0 s)"

definition i64_from_str_radix :: "nat \<Rightarrow> string \<Rightarrow> int option" where
  "i64_from_str_radix radix s =
     (let v = (case s of
            [] \<Rightarrow> None
          | c # cs \<Rightarrow> if c = CHR ''-'' then map_option uminus (some_digits radix cs)
                    else if c = CHR ''+'' then some_digits radix cs
                    else some_digits radix s)
      in case v of None \<Rightarrow> None | Some n \<Rightarrow> if - (2 ^ 63) \<le> n \<and> n < 2 ^ 63 then Some n else None)"

definition u32_from_str :: "string \<Rightarrow> int option" where
  "u32_from_str s =
     (let v = (case s of
            [] \<Rightarrow> None
          | c # cs \<Rightarrow> if c = CHR ''+'' then some_digits 10 cs else some_digits 10 s)
      in case v of None \<Rightarrow> None | Some n \<Rightarrow> if n < 2 ^ 32 then Some n else None)"

section \<open>Operands\<close>

definition asm_ident_char :: "char \<Rightarrow> bool" where
  "asm_ident_char c \<longleftrightarrow> is_alphabetic c \<or> is_digit c \<or> c = CHR ''_'' \<or> c = CHR ''.''"

definition is_ident :: "string \<Rightarrow> bool" where
  "is_ident s = (case s of
       [] \<Rightarrow> False
     | c # cs \<Rightarrow> (is_alphabetic c \<or> c = CHR ''_'' \<or> c = CHR ''.'') \<and> list_all asm_ident_char s)"

definition split_mnemonic :: "string \<Rightarrow> string \<times> string" where
  "split_mnemonic text = (case find_char is_space text of
       Some p \<Rightarrow> (take p text, trim (drop p text))
     | None \<Rightarrow> (text, []))"

definition split_args :: "string \<Rightarrow> string list" where
  "split_args rest = (if trim rest = [] then [] else map trim (split_on (CHR '','') rest))"

definition abi_names :: "(string \<times> nat) list" where
  "abi_names = [(''zero'', 0), (''ra'', 1), (''sp'', 2), (''gp'', 3), (''tp'', 4), (''t0'', 5), (''t1'', 6), (''t2'', 7),
     (''s0'', 8), (''fp'', 8), (''s1'', 9), (''a0'', 10), (''a1'', 11), (''a2'', 12), (''a3'', 13), (''a4'', 14), (''a5'', 15),
     (''a6'', 16), (''a7'', 17), (''s2'', 18), (''s3'', 19), (''s4'', 20), (''s5'', 21), (''s6'', 22), (''s7'', 23),
     (''s8'', 24), (''s9'', 25), (''s10'', 26), (''s11'', 27), (''t3'', 28), (''t4'', 29), (''t5'', 30), (''t6'', 31)]"

definition reg :: "string \<Rightarrow> (string, u32) outcome" where
  "reg name =
     (let n = trim name
      in case map_of abi_names n of
           Some i \<Rightarrow> Done (of_nat i)
         | None \<Rightarrow>
             attempt (ok_or (strip_prefix ''x'' n) (''invalid register `'' @ n @ ''`'')) (\<lambda>rest.
               attempt (ok_or (u32_from_str rest) (''invalid register `'' @ n @ ''`'')) (\<lambda>v.
                 if v > 31 then Fail (''register out of range `'' @ n @ ''`'') else Done (word_of_int v))))"

definition has_prefix :: "string \<Rightarrow> string \<Rightarrow> bool" where
  "has_prefix p s \<longleftrightarrow> take (length p) s = p"

definition no_underscores :: "string \<Rightarrow> string" where
  "no_underscores = filter (\<lambda>c. c \<noteq> CHR ''_'')"

text \<open>The negation at the end overflows on the least \<open>i64\<close>, which the body reads with a second sign.\<close>

definition parse_int :: "string \<Rightarrow> (string, int) outcome" where
  "parse_int str =
     (let s = trim str;
          (neg, body) = (case strip_prefix ''-'' s of Some b \<Rightarrow> (True, b)
             | None \<Rightarrow> (False, (case strip_prefix ''+'' s of Some b \<Rightarrow> b | None \<Rightarrow> s)));
          val = (if has_prefix ''0x'' body \<or> has_prefix ''0X'' body then i64_from_str_radix 16 (no_underscores (drop 2 body))
                 else if has_prefix ''0b'' body \<or> has_prefix ''0B'' body then i64_from_str_radix 2 (no_underscores (drop 2 body))
                 else i64_from_str_radix 10 (no_underscores body))
      in case val of
           None \<Rightarrow> Fail (''bad number `'' @ s @ ''`'')
         | Some v \<Rightarrow> if neg then (if v = - (2 ^ 63) then Panic else Done (- v)) else Done v)"

definition fits_signed :: "int \<Rightarrow> nat \<Rightarrow> bool" where
  "fits_signed v bits \<longleftrightarrow> - (2 ^ (bits - 1)) \<le> v \<and> v \<le> 2 ^ (bits - 1) - 1"

record asm_ctx =
  cx_pc :: u32
  cx_labels :: "string \<rightharpoonup> u32"
  cx_base :: u32

definition wrap_i64 :: "int \<Rightarrow> int" where
  "wrap_i64 = signed_take_bit 63"

definition resolve :: "string \<Rightarrow> asm_ctx \<Rightarrow> bool \<Rightarrow> (string, int) outcome" where
  "resolve arg cx relative =
     (case cx_labels cx arg of
        Some target \<Rightarrow> Done (if relative then uint target - uint (cx_pc cx) else uint target)
      | None \<Rightarrow>
          if is_ident arg then Fail (''unknown label `'' @ arg @ ''`'')
          else attempt (parse_int arg) (\<lambda>v. Done (if relative then v else wrap_i64 (v + uint (cx_base cx)))))"

text \<open>The slice between the parentheses panics when the last closing one is before the first opening one.\<close>

definition parse_offset :: "string \<Rightarrow> (string, int \<times> u32) outcome" where
  "parse_offset arg =
     attempt (ok_or (find_char (\<lambda>c. c = CHR ''('') arg) (''expected imm(reg), got `'' @ arg @ ''`'')) (\<lambda>open.
       attempt (ok_or (rfind_char (CHR '')'') arg) (''expected imm(reg), got `'' @ arg @ ''`'')) (\<lambda>close.
         if close < open + 1 then Panic
         else let imm_s = trim (take open arg); reg_s = trim (take (close - (open + 1)) (drop (open + 1) arg))
              in attempt (if imm_s = [] then Done 0 else parse_int imm_s) (\<lambda>imm.
                   attempt (reg reg_s) (\<lambda>r. Done (imm, r)))))"

section \<open>Instruction formats\<close>

definition r_type :: "u32 \<Rightarrow> u32 \<Rightarrow> u32 \<Rightarrow> u32 \<Rightarrow> u32 \<Rightarrow> u32 \<Rightarrow> u32" where
  "r_type funct7 rs2 rs1 funct3 rd opcode =
     push_bit 25 funct7 OR push_bit 20 rs2 OR push_bit 15 rs1 OR push_bit 12 funct3 OR push_bit 7 rd OR opcode"

definition i_type :: "int \<Rightarrow> u32 \<Rightarrow> u32 \<Rightarrow> u32 \<Rightarrow> u32 \<Rightarrow> u32" where
  "i_type imm rs1 funct3 rd opcode =
     push_bit 20 (word_of_int imm AND 0xFFF) OR push_bit 15 rs1 OR push_bit 12 funct3 OR push_bit 7 rd OR opcode"

definition s_type :: "int \<Rightarrow> u32 \<Rightarrow> u32 \<Rightarrow> u32 \<Rightarrow> u32 \<Rightarrow> u32" where
  "s_type i rs2 rs1 funct3 opcode =
     (let imm = word_of_int i
      in push_bit 25 (drop_bit 5 imm AND 0x7F) OR push_bit 20 rs2 OR push_bit 15 rs1 OR push_bit 12 funct3
         OR push_bit 7 (imm AND 0x1F) OR opcode)"

definition b_type :: "int \<Rightarrow> u32 \<Rightarrow> u32 \<Rightarrow> u32 \<Rightarrow> u32 \<Rightarrow> u32" where
  "b_type i rs2 rs1 funct3 opcode =
     (let imm = word_of_int i
      in push_bit 31 (drop_bit 12 imm AND 1) OR push_bit 25 (drop_bit 5 imm AND 0x3F) OR push_bit 20 rs2 OR push_bit 15 rs1
         OR push_bit 12 funct3 OR push_bit 8 (drop_bit 1 imm AND 0xF) OR push_bit 7 (drop_bit 11 imm AND 1) OR opcode)"

definition u_type :: "int \<Rightarrow> u32 \<Rightarrow> u32 \<Rightarrow> u32" where
  "u_type imm rd opcode = (word_of_int imm AND 0xFFFFF000) OR push_bit 7 rd OR opcode"

definition j_type :: "int \<Rightarrow> u32 \<Rightarrow> u32 \<Rightarrow> u32" where
  "j_type i rd opcode =
     (let imm = word_of_int i
      in push_bit 31 (drop_bit 20 imm AND 1) OR push_bit 21 (drop_bit 1 imm AND 0x3FF) OR push_bit 20 (drop_bit 11 imm AND 1)
         OR push_bit 12 (drop_bit 12 imm AND 0xFF) OR push_bit 7 rd OR opcode)"

end
