(* ===== verification/Rv_Encode.thy ===== *)
theory Rv_Encode
  imports Rv_Asm
begin

text \<open>
  The encoder of an instruction (\<open>encode\<close>) with its pseudo-instructions, and the two passes of
  the assembler (\<open>assemble_at\<close>).
\<close>

section \<open>The groups of instructions\<close>

definition need :: "string \<Rightarrow> string list \<Rightarrow> nat \<Rightarrow> (string, unit) outcome" where
  "need op args n = (if length args = n then Done ()
     else Fail (''`'' @ op @ ''` expects '' @ show_nat n @ '' operands, got '' @ show_nat (length args)))"

definition r_arith :: "string \<Rightarrow> string list \<Rightarrow> u32 \<Rightarrow> u32 \<Rightarrow> (string, u32 list) outcome" where
  "r_arith op args f7 f3 =
     attempt (need op args 3) (\<lambda>_. attempt (reg (args ! 2)) (\<lambda>rs2. attempt (reg (args ! 1)) (\<lambda>rs1. attempt (reg (args ! 0)) (\<lambda>rd.
       Done [r_type f7 rs2 rs1 f3 rd 0x33]))))"

definition i_arith :: "string \<Rightarrow> string list \<Rightarrow> asm_ctx \<Rightarrow> u32 \<Rightarrow> (string, u32 list) outcome" where
  "i_arith op args cx f3 =
     attempt (need op args 3) (\<lambda>_. attempt (resolve (args ! 2) cx False) (\<lambda>imm.
       if \<not> fits_signed imm 12
       then Fail (''immediate '' @ show_int imm @ '' out of range for `'' @ op @ ''` (12-bit signed)'')
       else attempt (reg (args ! 1)) (\<lambda>rs1. attempt (reg (args ! 0)) (\<lambda>rd. Done [i_type imm rs1 f3 rd 0x13]))))"

definition i_shift :: "string \<Rightarrow> string list \<Rightarrow> u32 \<Rightarrow> int \<Rightarrow> (string, u32 list) outcome" where
  "i_shift op args f3 f7 =
     attempt (need op args 3) (\<lambda>_. attempt (parse_int (args ! 2)) (\<lambda>sh.
       if \<not> (0 \<le> sh \<and> sh < 32) then Fail (''shift amount '' @ show_int sh @ '' out of range 0..31'')
       else attempt (reg (args ! 1)) (\<lambda>rs1. attempt (reg (args ! 0)) (\<lambda>rd.
              Done [i_type (push_bit 5 f7 OR sh) rs1 f3 rd 0x13]))))"

definition load_op :: "string \<Rightarrow> string list \<Rightarrow> u32 \<Rightarrow> (string, u32 list) outcome" where
  "load_op op args f3 =
     attempt (need op args 2) (\<lambda>_. attempt (parse_offset (args ! 1)) (\<lambda>(imm, rs1). attempt (reg (args ! 0)) (\<lambda>rd.
       Done [i_type imm rs1 f3 rd 0x03])))"

definition store_op :: "string \<Rightarrow> string list \<Rightarrow> u32 \<Rightarrow> (string, u32 list) outcome" where
  "store_op op args f3 =
     attempt (need op args 2) (\<lambda>_. attempt (parse_offset (args ! 1)) (\<lambda>(imm, rs1). attempt (reg (args ! 0)) (\<lambda>rs2.
       Done [s_type imm rs2 rs1 f3 0x23])))"

definition branch_op :: "string \<Rightarrow> string list \<Rightarrow> asm_ctx \<Rightarrow> u32 \<Rightarrow> (string, u32 list) outcome" where
  "branch_op op args cx f3 =
     attempt (need op args 3) (\<lambda>_. attempt (resolve (args ! 2) cx True) (\<lambda>off.
       if \<not> fits_signed off 13 \<or> off mod 2 \<noteq> 0
       then Fail (''branch target offset '' @ show_int off @ '' out of range/misaligned'')
       else attempt (reg (args ! 1)) (\<lambda>rs2. attempt (reg (args ! 0)) (\<lambda>rs1. Done [b_type off rs2 rs1 f3 0x63]))))"

definition upper_op :: "string \<Rightarrow> string list \<Rightarrow> asm_ctx \<Rightarrow> u32 \<Rightarrow> (string, u32 list) outcome" where
  "upper_op op args cx opcode =
     attempt (need op args 2) (\<lambda>_. attempt (resolve (args ! 1) cx False) (\<lambda>imm. attempt (reg (args ! 0)) (\<lambda>rd.
       Done [u_type (wrap_i64 (push_bit 12 imm)) rd opcode])))"

text \<open>The tables of mnemonics with the function fields they pass to their group.\<close>

definition r_ops :: "(string \<times> u32 \<times> u32) list" where
  "r_ops = [(''add'', 0x00, 0x0), (''sub'', 0x20, 0x0), (''sll'', 0x00, 0x1), (''slt'', 0x00, 0x2), (''sltu'', 0x00, 0x3),
     (''xor'', 0x00, 0x4), (''srl'', 0x00, 0x5), (''sra'', 0x20, 0x5), (''or'', 0x00, 0x6), (''and'', 0x00, 0x7)]"

definition i_ops :: "(string \<times> u32) list" where
  "i_ops = [(''addi'', 0x0), (''slti'', 0x2), (''sltiu'', 0x3), (''xori'', 0x4), (''ori'', 0x6), (''andi'', 0x7)]"

definition shift_ops :: "(string \<times> u32 \<times> int) list" where
  "shift_ops = [(''slli'', 0x1, 0x00), (''srli'', 0x5, 0x00), (''srai'', 0x5, 0x20)]"

definition load_ops :: "(string \<times> u32) list" where
  "load_ops = [(''lb'', 0x0), (''lh'', 0x1), (''lw'', 0x2), (''lbu'', 0x4), (''lhu'', 0x5)]"

definition store_ops :: "(string \<times> u32) list" where
  "store_ops = [(''sb'', 0x0), (''sh'', 0x1), (''sw'', 0x2)]"

definition branch_ops :: "(string \<times> u32) list" where
  "branch_ops = [(''beq'', 0x0), (''bne'', 0x1), (''blt'', 0x4), (''bge'', 0x5), (''bltu'', 0x6), (''bgeu'', 0x7)]"

section \<open>Jumps and pseudo-instructions\<close>

definition jal_op :: "string list \<Rightarrow> asm_ctx \<Rightarrow> (string, u32 list) outcome" where
  "jal_op args cx =
     attempt (if length args = 1 then Done (1, args ! 0)
              else attempt (need ''jal'' args 2) (\<lambda>_. attempt (reg (args ! 0)) (\<lambda>rd. Done (rd, args ! 1)))) (\<lambda>(rd, tgt).
       attempt (resolve tgt cx True) (\<lambda>off.
         if \<not> fits_signed off 21 \<or> off mod 2 \<noteq> 0
         then Fail (''jal target offset '' @ show_int off @ '' out of range/misaligned'')
         else Done [j_type off rd 0x6F]))"

definition jalr_op :: "string list \<Rightarrow> (string, u32 list) outcome" where
  "jalr_op args =
     (if length args = 1 then attempt (reg (args ! 0)) (\<lambda>rs1. Done [i_type 0 rs1 0x0 1 0x67])
      else if length args = 2
      then attempt (parse_offset (args ! 1)) (\<lambda>(imm, rs1). attempt (reg (args ! 0)) (\<lambda>rd. Done [i_type imm rs1 0x0 rd 0x67]))
      else if length args = 3
      then attempt (parse_int (args ! 2)) (\<lambda>imm. attempt (reg (args ! 1)) (\<lambda>rs1. attempt (reg (args ! 0)) (\<lambda>rd.
             Done [i_type imm rs1 0x0 rd 0x67])))
      else Fail (''`jalr` expects 1..3 operands, got '' @ show_nat (length args)))"

text \<open>A branch against \<open>x0\<close>, with the operand as \<open>rs1\<close> or, for \<open>blez\<close>, as \<open>rs2\<close>.\<close>

definition branch_zero :: "string \<Rightarrow> string list \<Rightarrow> asm_ctx \<Rightarrow> (int \<Rightarrow> u32 \<Rightarrow> u32) \<Rightarrow> (string, u32 list) outcome" where
  "branch_zero op args cx f =
     attempt (need op args 2) (\<lambda>_. attempt (resolve (args ! 1) cx True) (\<lambda>off. attempt (reg (args ! 0)) (\<lambda>r. Done [f off r])))"

text \<open>\<open>li\<close>: one \<open>addi\<close>, or \<open>lui\<close> and \<open>addi\<close> with the high part adjusted for the sign of the low one.\<close>

definition li_op :: "string list \<Rightarrow> (string, u32 list) outcome" where
  "li_op args =
     attempt (need ''li'' args 2) (\<lambda>_. attempt (reg (args ! 0)) (\<lambda>rd. attempt (parse_int (args ! 1)) (\<lambda>imm.
       if fits_signed imm 12 then Done [i_type imm 0 0x0 rd 0x13]
       else let lo = drop_bit 52 (wrap_i64 (push_bit 52 (imm AND 0xFFF)))
            in if wrap_i64 (imm - lo) \<noteq> imm - lo then Panic
               else let hi = drop_bit 12 (imm - lo)
                    in Done [u_type (wrap_i64 (push_bit 12 hi)) rd 0x37, i_type lo rd 0x0 rd 0x13])))"

definition no_operands :: "string \<Rightarrow> string list \<Rightarrow> u32 \<Rightarrow> (string, u32 list) outcome" where
  "no_operands op args w = attempt (need op args 0) (\<lambda>_. Done [w])"

definition one_register :: "string \<Rightarrow> string list \<Rightarrow> (u32 \<Rightarrow> u32) \<Rightarrow> (string, u32 list) outcome" where
  "one_register op args f = attempt (need op args 1) (\<lambda>_. attempt (reg (args ! 0)) (\<lambda>r. Done [f r]))"

definition two_registers :: "string \<Rightarrow> string list \<Rightarrow> (u32 \<Rightarrow> u32 \<Rightarrow> u32) \<Rightarrow> (string, u32 list) outcome" where
  "two_registers op args f =
     attempt (need op args 2) (\<lambda>_. attempt (reg (args ! 1)) (\<lambda>rs. attempt (reg (args ! 0)) (\<lambda>rd. Done [f rs rd])))"

definition encode_other :: "string \<Rightarrow> string list \<Rightarrow> asm_ctx \<Rightarrow> (string, u32 list) outcome" where
  "encode_other op args cx =
     (if op = ''lui'' then upper_op op args cx 0x37
      else if op = ''auipc'' then upper_op op args cx 0x17
      else if op = ''jal'' then jal_op args cx
      else if op = ''jalr'' then jalr_op args
      else if op = ''ecall'' then no_operands op args 0x00000073
      else if op = ''ebreak'' then no_operands op args 0x00100073
      else if op = ''fence'' then Done [0x0FF0000F]
      else if op = ''nop'' then no_operands op args (i_type 0 0 0x0 0 0x13)
      else if op = ''mv'' then two_registers op args (\<lambda>rs rd. i_type 0 rs 0x0 rd 0x13)
      else if op = ''not'' then two_registers op args (\<lambda>rs rd. i_type (- 1) rs 0x4 rd 0x13)
      else if op = ''neg'' then two_registers op args (\<lambda>rs rd. r_type 0x20 rs 0 0x0 rd 0x33)
      else if op = ''seqz'' then two_registers op args (\<lambda>rs rd. i_type 1 rs 0x3 rd 0x13)
      else if op = ''snez'' then two_registers op args (\<lambda>rs rd. r_type 0x00 rs 0 0x3 rd 0x33)
      else if op = ''j'' then attempt (need op args 1) (\<lambda>_. attempt (resolve (args ! 0) cx True) (\<lambda>off. Done [j_type off 0 0x6F]))
      else if op = ''jr'' then one_register op args (\<lambda>r. i_type 0 r 0x0 0 0x67)
      else if op = ''ret'' then no_operands op args (i_type 0 1 0x0 0 0x67)
      else if op = ''beqz'' then branch_zero op args cx (\<lambda>off r. b_type off 0 r 0x0 0x63)
      else if op = ''bnez'' then branch_zero op args cx (\<lambda>off r. b_type off 0 r 0x1 0x63)
      else if op = ''blez'' then branch_zero op args cx (\<lambda>off r. b_type off r 0 0x5 0x63)
      else if op = ''bgez'' then branch_zero op args cx (\<lambda>off r. b_type off 0 r 0x5 0x63)
      else if op = ''li'' then li_op args
      else Fail (''unknown instruction `'' @ op @ ''`''))"

definition encode_instr :: "string \<Rightarrow> string list \<Rightarrow> asm_ctx \<Rightarrow> (string, u32 list) outcome" where
  "encode_instr op args cx =
     (case map_of r_ops op of Some (f7, f3) \<Rightarrow> r_arith op args f7 f3 | None \<Rightarrow>
      case map_of i_ops op of Some f3 \<Rightarrow> i_arith op args cx f3 | None \<Rightarrow>
      case map_of shift_ops op of Some (f3, f7) \<Rightarrow> i_shift op args f3 f7 | None \<Rightarrow>
      case map_of load_ops op of Some f3 \<Rightarrow> load_op op args f3 | None \<Rightarrow>
      case map_of store_ops op of Some f3 \<Rightarrow> store_op op args f3 | None \<Rightarrow>
      case map_of branch_ops op of Some f3 \<Rightarrow> branch_op op args cx f3 | None \<Rightarrow>
      encode_other op args cx)"

section \<open>The first pass\<close>

record asm_error =
  ae_line :: nat
  ae_message :: string

definition show_asm_error :: "asm_error \<Rightarrow> string" where
  "show_asm_error e = ''asm error on line '' @ show_nat (ae_line e) @ '': '' @ ae_message e"

definition at_line :: "nat \<Rightarrow> (string, 'a) outcome \<Rightarrow> (asm_error, 'a) outcome" where
  "at_line no = map_fail (\<lambda>m. \<lparr>ae_line = no, ae_message = m\<rparr>)"

record asm_line =
  al_no :: nat
  al_op :: string
  al_args :: "string list"

definition insn_size :: "string \<Rightarrow> string list \<Rightarrow> (string, u32) outcome" where
  "insn_size op args =
     (if to_lowercase op = ''li''
      then attempt (ok_or (vec_get args 1) ''li needs an immediate'') (\<lambda>a.
             attempt (parse_int a) (\<lambda>imm. Done (if fits_signed imm 12 then 1 else 2)))
      else Done 1)"

definition strip_comment :: "string \<Rightarrow> string \<Rightarrow> string" where
  "strip_comment marker text = (case find_sub marker text of None \<Rightarrow> text | Some p \<Rightarrow> take p text)"

definition strip_comments :: "string \<Rightarrow> string" where
  "strip_comments text = fold strip_comment [''#'', ''//'', '';''] text"

lemma length_trim: "length (trim s) \<le> length s"
  unfolding trim_def by (metis length_dropWhile_le length_rev le_trans)

lemma find_char_less: "find_char P s = Some n \<Longrightarrow> n < length s"
  by (induction s arbitrary: n) (auto split: if_splits)

lemma rest_shorter: "find_char P s = Some n \<Longrightarrow> length (trim (drop (Suc n) s)) < length s"
  using find_char_less [of P s n] by (intro le_less_trans [OF length_trim]) simp

function take_labels :: "nat \<Rightarrow> u32 \<Rightarrow> (string \<rightharpoonup> u32) \<Rightarrow> string \<Rightarrow> (asm_error, (string \<rightharpoonup> u32) \<times> string) outcome" where
  "take_labels no addr labels text =
     (case find_char (\<lambda>c. c = CHR '':'') text of
        None \<Rightarrow> Done (labels, text)
      | Some colon \<Rightarrow>
          let lbl = trim (take colon text)
          in if lbl = [] \<or> \<not> is_ident lbl then Done (labels, text)
             else if labels lbl \<noteq> None
             then Fail \<lparr>ae_line = no, ae_message = ''duplicate label `'' @ lbl @ ''`''\<rparr>
             else let rest = trim (drop 1 (drop colon text))
                  in if rest = [] then Done (labels(lbl \<mapsto> addr), rest)
                     else take_labels no addr (labels(lbl \<mapsto> addr)) rest)"
  by pat_completeness auto
termination
  by (relation "measure (\<lambda>(no, addr, labels, text). length text)") (auto dest: rest_shorter)

declare take_labels.simps [simp del]

record scan_state =
  sc_lines :: "asm_line list"
  sc_labels :: "string \<rightharpoonup> u32"
  sc_addr :: u32

definition scan_line :: "nat \<Rightarrow> string \<Rightarrow> scan_state \<Rightarrow> (asm_error, scan_state) outcome" where
  "scan_line no raw s =
     (let text = trim (strip_comments raw)
      in if text = [] then Done s
         else attempt (take_labels no (sc_addr s) (sc_labels s) text) (\<lambda>(labels, text).
           if text = [] then Done (s\<lparr>sc_labels := labels\<rparr>)
           else let (op, rest) = split_mnemonic text; args = split_args rest
                in attempt (at_line no (insn_size op args)) (\<lambda>size.
                     Done \<lparr>sc_lines = sc_lines s @ [\<lparr>al_no = no, al_op = to_lowercase op, al_args = args\<rparr>],
                           sc_labels = labels, sc_addr = sc_addr s + 4 * size\<rparr>)))"

fun scan_lines :: "(nat \<times> string) list \<Rightarrow> scan_state \<Rightarrow> (asm_error, scan_state) outcome" where
  "scan_lines [] s = Done s"
| "scan_lines ((i, raw) # rest) s = attempt (scan_line (i + 1) raw s) (scan_lines rest)"

definition first_pass :: "string list \<Rightarrow> u32 \<Rightarrow> (asm_error, scan_state) outcome" where
  "first_pass raws base = scan_lines (enumerate 0 raws) \<lparr>sc_lines = [], sc_labels = Map.empty, sc_addr = base\<rparr>"

section \<open>The second pass\<close>

fun encode_lines :: "(string \<rightharpoonup> u32) \<Rightarrow> u32 \<Rightarrow> u32 \<Rightarrow> asm_line list \<Rightarrow> (asm_error, u32 list) outcome" where
  "encode_lines labels base pc [] = Done []"
| "encode_lines labels base pc (l # ls) =
     attempt (at_line (al_no l) (encode_instr (al_op l) (al_args l) \<lparr>cx_pc = pc, cx_labels = labels, cx_base = base\<rparr>)) (\<lambda>ws.
       attempt (encode_lines labels base (pc + 4 * of_nat (length ws)) ls) (\<lambda>rest. Done (ws @ rest)))"

definition assemble_at :: "string \<Rightarrow> u32 \<Rightarrow> (asm_error, u32 list) outcome" where
  "assemble_at src base =
     attempt (first_pass (str_lines src) base) (\<lambda>s. encode_lines (sc_labels s) base base (sc_lines s))"

definition assemble :: "string \<Rightarrow> (asm_error, u32 list) outcome" where
  "assemble src = assemble_at src 0"

end
