(* ===== verification/Rv_Format.thy ===== *)
theory Rv_Format
  imports Rv_Encode
begin

text \<open>
  The instruction formats against the fields of the RISC-V manual: every field of an encoded
  word is read back, and the immediates are read back as signed numbers.
\<close>

section \<open>Reading an instruction\<close>

definition rv_field :: "nat \<Rightarrow> nat \<Rightarrow> u32 \<Rightarrow> u32" where
  "rv_field lo n w = take_bit n (drop_bit lo w)"

definition rv_opcode :: "u32 \<Rightarrow> u32" where "rv_opcode = rv_field 0 7"
definition rv_rd :: "u32 \<Rightarrow> u32" where "rv_rd = rv_field 7 5"
definition rv_funct3 :: "u32 \<Rightarrow> u32" where "rv_funct3 = rv_field 12 3"
definition rv_rs1 :: "u32 \<Rightarrow> u32" where "rv_rs1 = rv_field 15 5"
definition rv_rs2 :: "u32 \<Rightarrow> u32" where "rv_rs2 = rv_field 20 5"
definition rv_funct7 :: "u32 \<Rightarrow> u32" where "rv_funct7 = rv_field 25 7"

lemmas rv_fields = rv_opcode_def rv_rd_def rv_funct3_def rv_rs1_def rv_rs2_def rv_funct7_def rv_field_def

text \<open>The immediates, by the bits of the word that hold them.\<close>

definition rv_imm_i :: "u32 \<Rightarrow> int" where
  "rv_imm_i w = signed_take_bit 11 (uint (rv_field 20 12 w))"

definition rv_imm_s :: "u32 \<Rightarrow> int" where
  "rv_imm_s w = signed_take_bit 11 (uint (push_bit 5 (rv_field 25 7 w) OR rv_field 7 5 w))"

definition rv_imm_b :: "u32 \<Rightarrow> int" where
  "rv_imm_b w = signed_take_bit 12 (uint (push_bit 12 (rv_field 31 1 w) OR push_bit 11 (rv_field 7 1 w)
     OR push_bit 5 (rv_field 25 6 w) OR push_bit 1 (rv_field 8 4 w)))"

definition rv_imm_u :: "u32 \<Rightarrow> u32" where
  "rv_imm_u w = push_bit 12 (rv_field 12 20 w)"

definition rv_imm_j :: "u32 \<Rightarrow> int" where
  "rv_imm_j w = signed_take_bit 20 (uint (push_bit 20 (rv_field 31 1 w) OR push_bit 12 (rv_field 12 8 w)
     OR push_bit 11 (rv_field 20 1 w) OR push_bit 1 (rv_field 21 10 w)))"

section \<open>The bits of the formats\<close>

definition fits_field :: "nat \<Rightarrow> u32 \<Rightarrow> bool" where
  "fits_field n w \<longleftrightarrow> take_bit n w = w"

lemma fits_field_bit: "fits_field n w \<Longrightarrow> bit w k \<Longrightarrow> k < n"
  unfolding fits_field_def by (metis bit_take_bit_iff)

lemma fits_field_high: "fits_field n w \<Longrightarrow> n \<le> k \<Longrightarrow> \<not> bit w k"
  using fits_field_bit leD by blast

lemma mask_numerals:
  "(0xFFF :: u32) = Bit_Operations.mask 12" "(0x7F :: u32) = Bit_Operations.mask 7" "(0x1F :: u32) = Bit_Operations.mask 5"
  "(0x3F :: u32) = Bit_Operations.mask 6" "(0xF :: u32) = Bit_Operations.mask 4" "(0x3FF :: u32) = Bit_Operations.mask 10"
  "(0xFF :: u32) = Bit_Operations.mask 8" "(1 :: u32) = Bit_Operations.mask 1" "(0xFFFFF000 :: u32) = push_bit 12 (Bit_Operations.mask 20)"
  by (simp_all add: mask_eq_exp_minus_1 push_bit_eq_mult)

lemmas format_bits = bit_or_iff bit_and_iff bit_push_bit_iff bit_drop_bit_eq bit_mask_iff bit_take_bit_iff bit_word_of_int_iff

lemma u32_eqI:
  assumes "\<And>n. n < 32 \<Longrightarrow> bit v n = bit w n"
  shows "v = (w :: u32)"
  using assms by (intro bit_word_eqI) simp

lemma upto_32: "[0..<32] = [0, 1, 2, 3, 4, 5, 6, 7, 8, 9, 10, 11, 12, 13, 14, 15, 16, 17, 18, 19, 20, 21, 22, 23, 24, 25, 26, 27, 28, 29, 30, 31 :: nat]"
  by code_simp

lemma signed_eqI:
  assumes "\<And>n. n \<le> k \<Longrightarrow> bit x n = bit (y :: int) n"
  shows "signed_take_bit k x = signed_take_bit k y"
  using assms by (intro bit_eqI) (simp add: bit_signed_take_bit_iff)

lemma rv_field_ok:
  assumes "fits_field n v" "\<And>k. k < n \<Longrightarrow> k + lo < 32 \<Longrightarrow> bit w (k + lo) = bit v k" "lo + n \<le> 32"
  shows "rv_field lo n w = v"
proof (rule u32_eqI)
  fix k :: nat assume "k < 32"
  show "bit (rv_field lo n w) k = bit v k"
  proof (cases "k < n")
    case True
    then show ?thesis using assms(2) [of k] assms(3) by (simp add: rv_field_def format_bits add.commute)
  next
    case False
    then show ?thesis using fits_field_bit [OF assms(1), of k] by (auto simp: rv_field_def format_bits)
  qed
qed

lemma bit_r_type:
  assumes "fits_field 7 f7" "fits_field 5 rs2" "fits_field 5 rs1" "fits_field 3 f3" "fits_field 5 rd" "fits_field 7 opc" "n < 32"
  shows "bit (r_type f7 rs2 rs1 f3 rd opc) n \<longleftrightarrow>
    (if n < 7 then bit opc n else if n < 12 then bit rd (n - 7) else if n < 15 then bit f3 (n - 12)
     else if n < 20 then bit rs1 (n - 15) else if n < 25 then bit rs2 (n - 20) else bit f7 (n - 25))"
  using assms(7) fits_field_bit [OF assms(1), of "n - 25"] fits_field_bit [OF assms(2), of "n - 20"]
    fits_field_bit [OF assms(3), of "n - 15"] fits_field_bit [OF assms(4), of "n - 12"] fits_field_bit [OF assms(5), of "n - 7"]
    fits_field_bit [OF assms(6), of n]
  by (auto simp: r_type_def format_bits)

lemma bit_i_type:
  assumes "fits_field 5 rs1" "fits_field 3 f3" "fits_field 5 rd" "fits_field 7 opc" "n < 32"
  shows "bit (i_type imm rs1 f3 rd opc) n \<longleftrightarrow>
    (if n < 7 then bit opc n else if n < 12 then bit rd (n - 7) else if n < 15 then bit f3 (n - 12)
     else if n < 20 then bit rs1 (n - 15) else bit imm (n - 20))"
  using assms(5) fits_field_bit [OF assms(1), of "n - 15"] fits_field_bit [OF assms(2), of "n - 12"]
    fits_field_bit [OF assms(3), of "n - 7"] fits_field_bit [OF assms(4), of n]
  by (auto simp: i_type_def mask_numerals format_bits)

lemma bit_s_type:
  assumes "fits_field 5 rs2" "fits_field 5 rs1" "fits_field 3 f3" "fits_field 7 opc" "n < 32"
  shows "bit (s_type imm rs2 rs1 f3 opc) n \<longleftrightarrow>
    (if n < 7 then bit opc n else if n < 12 then bit imm (n - 7) else if n < 15 then bit f3 (n - 12)
     else if n < 20 then bit rs1 (n - 15) else if n < 25 then bit rs2 (n - 20) else bit imm (n - 20))"
proof -
  note high = fits_field_high [OF assms(1)] fits_field_high [OF assms(2)] fits_field_high [OF assms(3)] fits_field_high [OF assms(4)]
  have "list_all (\<lambda>n. bit (s_type imm rs2 rs1 f3 opc) n \<longleftrightarrow>
    (if n < 7 then bit opc n else if n < 12 then bit imm (n - 7) else if n < 15 then bit f3 (n - 12)
     else if n < 20 then bit rs1 (n - 15) else if n < 25 then bit rs2 (n - 20) else bit imm (n - 20))) [0..<32]"
    unfolding upto_32 list.pred_inject by (intro conjI; simp add: s_type_def Let_def mask_numerals format_bits high del: One_nat_def; simp?)
  with assms(5) show ?thesis by (simp add: list_all_iff)
qed

lemma bit_b_type:
  assumes "fits_field 5 rs2" "fits_field 5 rs1" "fits_field 3 f3" "fits_field 7 opc" "n < 32"
  shows "bit (b_type imm rs2 rs1 f3 opc) n \<longleftrightarrow>
    (if n < 7 then bit opc n else if n = 7 then bit imm 11 else if n < 12 then bit imm (n - 7) else if n < 15 then bit f3 (n - 12)
     else if n < 20 then bit rs1 (n - 15) else if n < 25 then bit rs2 (n - 20) else if n < 31 then bit imm (n - 20) else bit imm 12)"
proof -
  note high = fits_field_high [OF assms(1)] fits_field_high [OF assms(2)] fits_field_high [OF assms(3)] fits_field_high [OF assms(4)]
  have "list_all (\<lambda>n. bit (b_type imm rs2 rs1 f3 opc) n \<longleftrightarrow>
    (if n < 7 then bit opc n else if n = 7 then bit imm 11 else if n < 12 then bit imm (n - 7) else if n < 15 then bit f3 (n - 12)
     else if n < 20 then bit rs1 (n - 15) else if n < 25 then bit rs2 (n - 20) else if n < 31 then bit imm (n - 20) else bit imm 12)) [0..<32]"
    unfolding upto_32 list.pred_inject by (intro conjI; simp add: b_type_def Let_def mask_numerals format_bits high del: One_nat_def; simp?)
  with assms(5) show ?thesis by (simp add: list_all_iff)
qed

lemma bit_j_type:
  assumes "fits_field 5 rd" "fits_field 7 opc" "n < 32"
  shows "bit (j_type imm rd opc) n \<longleftrightarrow>
    (if n < 7 then bit opc n else if n < 12 then bit rd (n - 7) else if n < 20 then bit imm n
     else if n = 20 then bit imm 11 else if n < 31 then bit imm (n - 20) else bit imm 20)"
proof -
  note high = fits_field_high [OF assms(1)] fits_field_high [OF assms(2)]
  have "list_all (\<lambda>n. bit (j_type imm rd opc) n \<longleftrightarrow>
    (if n < 7 then bit opc n else if n < 12 then bit rd (n - 7) else if n < 20 then bit imm n
     else if n = 20 then bit imm 11 else if n < 31 then bit imm (n - 20) else bit imm 20)) [0..<32]"
    unfolding upto_32 list.pred_inject by (intro conjI; simp add: j_type_def Let_def mask_numerals format_bits high del: One_nat_def; simp?)
  with assms(3) show ?thesis by (simp add: list_all_iff)
qed

lemma bit_u_type:
  assumes "fits_field 5 rd" "fits_field 7 opc" "n < 32"
  shows "bit (u_type imm rd opc) n \<longleftrightarrow> (if n < 7 then bit opc n else if n < 12 then bit rd (n - 7) else bit imm n)"
  using assms(3) fits_field_bit [OF assms(1), of "n - 7"] fits_field_bit [OF assms(2), of n]
  by (auto simp: u_type_def Let_def mask_numerals format_bits)

section \<open>Every field is read back\<close>

lemma r_type_fields:
  assumes "fits_field 7 f7" "fits_field 5 rs2" "fits_field 5 rs1" "fits_field 3 f3" "fits_field 5 rd" "fits_field 7 opc"
  shows "rv_opcode (r_type f7 rs2 rs1 f3 rd opc) = opc" "rv_rd (r_type f7 rs2 rs1 f3 rd opc) = rd"
    "rv_funct3 (r_type f7 rs2 rs1 f3 rd opc) = f3" "rv_rs1 (r_type f7 rs2 rs1 f3 rd opc) = rs1"
    "rv_rs2 (r_type f7 rs2 rs1 f3 rd opc) = rs2" "rv_funct7 (r_type f7 rs2 rs1 f3 rd opc) = f7"
  unfolding rv_opcode_def rv_rd_def rv_funct3_def rv_rs1_def rv_rs2_def rv_funct7_def
  by (rule rv_field_ok, use assms in simp, subst bit_r_type [OF assms], simp_all)+

lemma i_type_fields:
  assumes "fits_field 5 rs1" "fits_field 3 f3" "fits_field 5 rd" "fits_field 7 opc"
  shows "rv_opcode (i_type imm rs1 f3 rd opc) = opc" "rv_rd (i_type imm rs1 f3 rd opc) = rd"
    "rv_funct3 (i_type imm rs1 f3 rd opc) = f3" "rv_rs1 (i_type imm rs1 f3 rd opc) = rs1"
  unfolding rv_opcode_def rv_rd_def rv_funct3_def rv_rs1_def
  by (rule rv_field_ok, use assms in simp, subst bit_i_type [OF assms], simp_all)+

lemma s_type_fields:
  assumes "fits_field 5 rs2" "fits_field 5 rs1" "fits_field 3 f3" "fits_field 7 opc"
  shows "rv_opcode (s_type imm rs2 rs1 f3 opc) = opc" "rv_rs2 (s_type imm rs2 rs1 f3 opc) = rs2"
    "rv_funct3 (s_type imm rs2 rs1 f3 opc) = f3" "rv_rs1 (s_type imm rs2 rs1 f3 opc) = rs1"
  unfolding rv_opcode_def rv_rs2_def rv_funct3_def rv_rs1_def
  by (rule rv_field_ok, use assms in simp, subst bit_s_type [OF assms], simp_all)+

lemma b_type_fields:
  assumes "fits_field 5 rs2" "fits_field 5 rs1" "fits_field 3 f3" "fits_field 7 opc"
  shows "rv_opcode (b_type imm rs2 rs1 f3 opc) = opc" "rv_rs2 (b_type imm rs2 rs1 f3 opc) = rs2"
    "rv_funct3 (b_type imm rs2 rs1 f3 opc) = f3" "rv_rs1 (b_type imm rs2 rs1 f3 opc) = rs1"
  unfolding rv_opcode_def rv_rs2_def rv_funct3_def rv_rs1_def
  by (rule rv_field_ok, use assms in simp, subst bit_b_type [OF assms], simp_all)+

lemma u_type_fields:
  assumes "fits_field 5 rd" "fits_field 7 opc"
  shows "rv_opcode (u_type imm rd opc) = opc" "rv_rd (u_type imm rd opc) = rd"
  unfolding rv_opcode_def rv_rd_def
  by (rule rv_field_ok, use assms in simp, subst bit_u_type [OF assms], simp_all)+

lemma j_type_fields:
  assumes "fits_field 5 rd" "fits_field 7 opc"
  shows "rv_opcode (j_type imm rd opc) = opc" "rv_rd (j_type imm rd opc) = rd"
  unfolding rv_opcode_def rv_rd_def
  by (rule rv_field_ok, use assms in simp, subst bit_j_type [OF assms], simp_all)+

section \<open>The immediates are read back\<close>

lemma fits_signed_take_bit: "fits_signed v (Suc k) \<Longrightarrow> signed_take_bit k v = v"
  by (simp add: fits_signed_def signed_take_bit_int_eq_self_iff)

lemma bit_uint_u32: "bit (uint (w :: u32)) n \<longleftrightarrow> n < 32 \<and> bit w n"
  by (simp add: bit_uint_iff)

lemma i_type_imm:
  assumes "fits_field 5 rs1" "fits_field 3 f3" "fits_field 5 rd" "fits_field 7 opc"
  shows "rv_imm_i (i_type imm rs1 f3 rd opc) = signed_take_bit 11 imm"
  unfolding rv_imm_i_def rv_field_def
  by (rule signed_eqI) (simp add: bit_uint_u32 format_bits bit_i_type [OF assms])

lemma s_type_imm:
  assumes "fits_field 5 rs2" "fits_field 5 rs1" "fits_field 3 f3" "fits_field 7 opc"
  shows "rv_imm_s (s_type imm rs2 rs1 f3 opc) = signed_take_bit 11 imm"
  unfolding rv_imm_s_def rv_field_def
  by (rule signed_eqI) (auto simp: bit_uint_u32 format_bits bit_s_type [OF assms])

lemma upto_13: "[0..<13] = [0, 1, 2, 3, 4, 5, 6, 7, 8, 9, 10, 11, 12 :: nat]"
  by code_simp

lemma upto_21: "[0..<21] = [0, 1, 2, 3, 4, 5, 6, 7, 8, 9, 10, 11, 12, 13, 14, 15, 16, 17, 18, 19, 20 :: nat]"
  by code_simp

lemma b_type_imm:
  assumes "fits_field 5 rs2" "fits_field 5 rs1" "fits_field 3 f3" "fits_field 7 opc" "even imm"
  shows "rv_imm_b (b_type imm rs2 rs1 f3 opc) = signed_take_bit 12 imm"
proof -
  have "\<not> bit imm 0" using assms(5) by (simp add: bit_0)
  then have "list_all (\<lambda>n. bit (uint (push_bit 12 (rv_field 31 1 (b_type imm rs2 rs1 f3 opc)) OR push_bit 11 (rv_field 7 1 (b_type imm rs2 rs1 f3 opc))
     OR push_bit 5 (rv_field 25 6 (b_type imm rs2 rs1 f3 opc)) OR push_bit 1 (rv_field 8 4 (b_type imm rs2 rs1 f3 opc)))) n = bit imm n) [0..<13]"
    unfolding upto_13 list.pred_inject rv_field_def
    by (intro conjI; simp add: bit_uint_u32 format_bits bit_b_type [OF assms(1-4)] del: One_nat_def; simp?)
  then show ?thesis unfolding rv_imm_b_def list_all_iff by (intro signed_eqI) simp
qed

lemma j_type_imm:
  assumes "fits_field 5 rd" "fits_field 7 opc" "even imm"
  shows "rv_imm_j (j_type imm rd opc) = signed_take_bit 20 imm"
proof -
  have "\<not> bit imm 0" using assms(3) by (simp add: bit_0)
  then have "list_all (\<lambda>n. bit (uint (push_bit 20 (rv_field 31 1 (j_type imm rd opc)) OR push_bit 12 (rv_field 12 8 (j_type imm rd opc))
     OR push_bit 11 (rv_field 20 1 (j_type imm rd opc)) OR push_bit 1 (rv_field 21 10 (j_type imm rd opc)))) n = bit imm n) [0..<21]"
    unfolding upto_21 list.pred_inject rv_field_def
    by (intro conjI; simp add: bit_uint_u32 format_bits bit_j_type [OF assms(1,2)] del: One_nat_def; simp?)
  then show ?thesis unfolding rv_imm_j_def list_all_iff by (intro signed_eqI) simp
qed

lemma u_type_imm:
  assumes "fits_field 5 rd" "fits_field 7 opc"
  shows "rv_imm_u (u_type imm rd opc) = word_of_int imm AND 0xFFFFF000"
  unfolding rv_imm_u_def rv_field_def mask_numerals
  by (rule u32_eqI) (auto simp: format_bits bit_u_type [OF assms])

end
