(* ===== verification/Rv_Sound.thy ===== *)
theory Rv_Sound
  imports Rv_Format
begin

text \<open>
  The assembler against its specification: registers fit their fields, the size that the first
  pass reserves is the number of words the second one emits, and a label stands for the address
  of the instruction after it.
\<close>

section \<open>Registers\<close>

lemma ok_or_Done [simp]: "ok_or x e = Done y \<longleftrightarrow> x = Some y"
  by (cases x) (simp_all add: ok_or_def)

lemma abi_names_range: "list_all (\<lambda>(s, i). i < 32) abi_names"
  by code_simp

lemma fits_five: "0 \<le> v \<Longrightarrow> v < 32 \<Longrightarrow> fits_field 5 (word_of_int v)"
  by (simp add: fits_field_def word_uint_eq_iff uint_take_bit_word uint_word_of_int)

lemma digits_value_nonneg: "digits_value radix acc s = Some v \<Longrightarrow> 0 \<le> acc \<Longrightarrow> 0 \<le> v"
  by (induction s arbitrary: acc) (auto split: option.splits)

lemma u32_from_str_nonneg: "u32_from_str s = Some v \<Longrightarrow> 0 \<le> v"
  using digits_value_nonneg
  by (fastforce simp: u32_from_str_def some_digits_def Let_def split: list.splits if_splits option.splits)

lemma reg_fits: "reg n = Done r \<Longrightarrow> fits_field 5 r"
proof -
  assume r: "reg n = Done r"
  show "fits_field 5 r"
  proof (cases "map_of abi_names (trim n)")
    case (Some i)
    then have "i < 32" using abi_names_range map_of_SomeD by (fastforce simp: list_all_iff)
    with Some r fits_five [of "int i"] show ?thesis by (simp add: reg_def)
  next
    case None
    then obtain rest v where v: "u32_from_str rest = Some v" "v \<le> 31" "r = word_of_int v"
      using r by (auto simp: reg_def Let_def attempt_Done split: option.splits if_splits)
    with u32_from_str_nonneg [OF v(1)] fits_five show ?thesis by simp
  qed
qed

section \<open>Sizes\<close>

lemmas group_defs = r_arith_def i_arith_def i_shift_def load_op_def store_op_def branch_op_def upper_op_def jal_op_def jalr_op_def
  branch_zero_def no_operands_def one_register_def two_registers_def

lemma group_length:
  "r_arith op args f7 f3 = Done ws \<Longrightarrow> length ws = 1"
  "i_arith op args cx f3 = Done ws \<Longrightarrow> length ws = 1"
  "i_shift op args f3 i7 = Done ws \<Longrightarrow> length ws = 1"
  "load_op op args f3 = Done ws \<Longrightarrow> length ws = 1"
  "store_op op args f3 = Done ws \<Longrightarrow> length ws = 1"
  "branch_op op args cx f3 = Done ws \<Longrightarrow> length ws = 1"
  "upper_op op args cx f7 = Done ws \<Longrightarrow> length ws = 1"
  "jal_op args cx = Done ws \<Longrightarrow> length ws = 1"
  "jalr_op args = Done ws \<Longrightarrow> length ws = 1"
  "branch_zero op args cx g = Done ws \<Longrightarrow> length ws = 1"
  "no_operands op args w = Done ws \<Longrightarrow> length ws = 1"
  "one_register op args g1 = Done ws \<Longrightarrow> length ws = 1"
  "two_registers op args g2 = Done ws \<Longrightarrow> length ws = 1"
  by (auto simp: group_defs attempt_Done split: if_splits)

lemma li_length:
  assumes "li_op args = Done ws"
  shows "\<exists>imm. length args = 2 \<and> parse_int (args ! 1) = Done imm \<and> length ws = (if fits_signed imm 12 then 1 else 2)"
  using assms by (auto simp: li_op_def need_def attempt_Done Let_def split: if_splits)

lemma other_length:
  assumes "encode_other op args cx = Done ws" "op \<noteq> ''li''"
  shows "length ws = 1"
  using assms unfolding encode_other_def
  by (simp only: if_False split: if_split_asm) (auto dest: group_length simp: attempt_Done)

lemma encode_length:
  assumes "encode_instr op args cx = Done ws" "op \<noteq> ''li''"
  shows "length ws = 1"
  using assms unfolding encode_instr_def
  by (auto split: option.split_asm dest: group_length other_length)

lemma encode_li: "encode_instr ''li'' args cx = li_op args"
  by (simp add: encode_instr_def r_ops_def i_ops_def shift_ops_def load_ops_def store_ops_def branch_ops_def encode_other_def)

lemma lowercase_idem: "to_lowercase (to_lowercase s) = to_lowercase s"
proof -
  have "to_lowercase [c] = [d] \<Longrightarrow> to_lowercase [d] = [d]" for c d
    by (auto simp: to_lowercase_def char_between_def split: if_splits)
  then have "to_lowercase (to_lowercase [c]) = to_lowercase [c]" for c by (simp add: to_lowercase_def)
  then show ?thesis by (simp add: to_lowercase_def)
qed

lemma encode_size:
  assumes "encode_instr (al_op l) (al_args l) cx = Done ws" "insn_size (al_op l) (al_args l) = Done n" "to_lowercase (al_op l) = al_op l"
  shows "n = of_nat (length ws)"
proof (cases "al_op l = ''li''")
  case True
  then obtain imm where imm: "length (al_args l) = 2" "parse_int (al_args l ! 1) = Done imm"
    "length ws = (if fits_signed imm 12 then 1 else 2)" using li_length assms(1) by (auto simp: encode_li)
  moreover have "vec_get (al_args l) 1 = Some (al_args l ! 1)" using imm(1) by (simp add: vec_get_def)
  ultimately show ?thesis using assms(2,3) True by (auto simp: insn_size_def attempt_Done)
next
  case False
  with encode_length [OF assms(1)] assms(2,3) show ?thesis by (simp add: insn_size_def)
qed

section \<open>The first pass\<close>

definition line_size :: "asm_line \<Rightarrow> u32" where
  "line_size l = (case insn_size (al_op l) (al_args l) of Done n \<Rightarrow> n | _ \<Rightarrow> 0)"

definition lines_size :: "asm_line list \<Rightarrow> u32" where
  "lines_size ls = sum_list (map line_size ls)"

definition scan_ok :: "u32 \<Rightarrow> scan_state \<Rightarrow> bool" where
  "scan_ok base s \<longleftrightarrow> sc_addr s = base + 4 * lines_size (sc_lines s)
     \<and> (\<forall>l \<in> set (sc_lines s). insn_size (al_op l) (al_args l) = Done (line_size l) \<and> to_lowercase (al_op l) = al_op l)"

text \<open>Scanning adds lines and labels; the labels it adds to a line stand for the address it starts with.\<close>

definition scan_extends :: "scan_state \<Rightarrow> scan_state \<Rightarrow> bool" where
  "scan_extends s s' \<longleftrightarrow> (\<exists>ls. sc_lines s' = sc_lines s @ ls) \<and> sc_labels s \<subseteq>\<^sub>m sc_labels s'"

lemma scan_extends_refl [simp]: "scan_extends s s"
  by (simp add: scan_extends_def)

lemma scan_extends_trans: "scan_extends a b \<Longrightarrow> scan_extends b c \<Longrightarrow> scan_extends a c"
  by (auto simp: scan_extends_def intro: map_le_trans)

lemma take_labels_step:
  assumes "take_labels no addr labels src = Done (labels', src')" "find_char (\<lambda>c. c = CHR '':'') src = Some colon"
  obtains "labels' = labels"
    | "labels (trim (take colon src)) = None" "labels' = labels(trim (take colon src) \<mapsto> addr)"
    | "\<not> (trim (take colon src) = [] \<or> \<not> is_ident (trim (take colon src)))" "\<not> labels (trim (take colon src)) \<noteq> None"
      "trim (drop 1 (drop colon src)) \<noteq> []"
      "take_labels no addr (labels(trim (take colon src) \<mapsto> addr)) (trim (drop 1 (drop colon src))) = Done (labels', src')"
proof -
  let ?lbl = "trim (take colon src)" and ?rest = "trim (drop 1 (drop colon src))"
  have eq: "take_labels no addr labels src = (if ?lbl = [] \<or> \<not> is_ident ?lbl then Done (labels, src)
      else if labels ?lbl \<noteq> None then Fail \<lparr>ae_line = no, ae_message = ''duplicate label `'' @ ?lbl @ ''`''\<rparr>
      else if ?rest = [] then Done (labels(?lbl \<mapsto> addr), ?rest) else take_labels no addr (labels(?lbl \<mapsto> addr)) ?rest)"
    by (subst take_labels.simps) (simp only: assms(2) option.case Let_def)
  consider "?lbl = [] \<or> \<not> is_ident ?lbl" | "\<not> (?lbl = [] \<or> \<not> is_ident ?lbl)" "labels ?lbl \<noteq> None"
    | "\<not> (?lbl = [] \<or> \<not> is_ident ?lbl)" "\<not> labels ?lbl \<noteq> None" "?rest = []"
    | "\<not> (?lbl = [] \<or> \<not> is_ident ?lbl)" "\<not> labels ?lbl \<noteq> None" "?rest \<noteq> []" by argo
  then show thesis
  proof cases
    case 1
    with assms(1) show thesis unfolding eq by (intro that(1)) simp
  next
    case 2
    with assms(1) show thesis unfolding eq by (simp only: if_False if_True) simp
  next
    case 3
    with assms(1) show thesis unfolding eq by (intro that(2)) (simp_all only: if_False if_True outcome.inject prod.inject simp_thms)
  next
    case 4
    with assms(1) show thesis unfolding eq by (intro that(3)) (simp_all only: if_False simp_thms)
  qed
qed

lemma map_le_insert: "labels l = None \<Longrightarrow> labels \<subseteq>\<^sub>m labels(l \<mapsto> a)"
  by (auto simp: map_le_def)

lemma take_labels_ok:
  "take_labels no addr labels src = Done (labels', src') \<Longrightarrow>
     labels \<subseteq>\<^sub>m labels' \<and> (\<forall>l. labels l = None \<longrightarrow> labels' l = None \<or> labels' l = Some addr)"
proof (induction no addr labels src rule: take_labels.induct)
  case (1 no addr labels src)
  show ?case
  proof (cases "find_char (\<lambda>c. c = CHR '':'') src")
    case None
    with "1.prems" have "labels' = labels" by (simp add: take_labels.simps [of no addr labels src])
    then show ?thesis by simp
  next
    case (Some colon)
    let ?lbl = "trim (take colon src)" and ?rest = "trim (drop 1 (drop colon src))"
    from "1.prems" Some show ?thesis
    proof (rule take_labels_step)
      assume "labels' = labels"
      then show ?thesis by simp
    next
      assume "labels ?lbl = None" "labels' = labels(?lbl \<mapsto> addr)"
      then show ?thesis using map_le_insert [of labels ?lbl addr] by (metis fun_upd_apply)
    next
      assume new: "\<not> (?lbl = [] \<or> \<not> is_ident ?lbl)" "\<not> labels ?lbl \<noteq> None" "?rest \<noteq> []"
        and run: "take_labels no addr (labels(?lbl \<mapsto> addr)) ?rest = Done (labels', src')"
      from "1.IH" [OF Some refl new(1,2) refl new(3) run]
      have IH: "labels(?lbl \<mapsto> addr) \<subseteq>\<^sub>m labels'"
        "\<And>l. (labels(?lbl \<mapsto> addr)) l = None \<Longrightarrow> labels' l = None \<or> labels' l = Some addr" by blast+
      have "labels \<subseteq>\<^sub>m labels(?lbl \<mapsto> addr)" using new(2) by (simp add: map_le_insert)
      from map_le_trans [OF this IH(1)] have "labels \<subseteq>\<^sub>m labels'" .
      moreover have "labels' ?lbl = Some addr" using IH(1) unfolding map_le_def by (metis domI fun_upd_same)
      ultimately show ?thesis using IH(2) by (metis fun_upd_other)
    qed
  qed
qed

lemma scan_line_ok:
  assumes run: "scan_line no raw s = Done s'" and ok: "scan_ok base s"
  shows "scan_ok base s' \<and> scan_extends s s'
    \<and> (\<forall>l. sc_labels s l = None \<longrightarrow> sc_labels s' l = None \<or> sc_labels s' l = Some (sc_addr s))"
proof (cases "trim (strip_comments raw) = []")
  case True
  with run ok show ?thesis by (auto simp: scan_line_def)
next
  case False
  then obtain labels body where t: "take_labels no (sc_addr s) (sc_labels s) (trim (strip_comments raw)) = Done (labels, body)"
    and rest: "(if body = [] then Done (s\<lparr>sc_labels := labels\<rparr>)
           else let (op, rest) = split_mnemonic body; args = split_args rest
                in attempt (at_line no (insn_size op args)) (\<lambda>size.
                     Done \<lparr>sc_lines = sc_lines s @ [\<lparr>al_no = no, al_op = to_lowercase op, al_args = args\<rparr>],
                           sc_labels = labels, sc_addr = sc_addr s + 4 * size\<rparr>)) = Done s'"
    using run by (auto simp: scan_line_def attempt_Done)
  note labels = take_labels_ok [OF t]
  show ?thesis
  proof (cases "body = []")
    case True
    with rest have "s' = s\<lparr>sc_labels := labels\<rparr>" by simp
    with ok labels show ?thesis by (simp add: scan_ok_def scan_extends_def)
  next
    case False
    obtain op r where op: "split_mnemonic body = (op, r)" by fastforce
    define line where "line = \<lparr>al_no = no, al_op = to_lowercase op, al_args = split_args r\<rparr>"
    obtain size where size: "insn_size op (split_args r) = Done size"
      "s' = \<lparr>sc_lines = sc_lines s @ [line], sc_labels = labels, sc_addr = sc_addr s + 4 * size\<rparr>"
      using rest False op by (auto simp: attempt_Done at_line_def line_def Let_def)
    have "insn_size (al_op line) (al_args line) = Done size"
      using size(1) by (simp add: insn_size_def line_def lowercase_idem)
    then have "line_size line = size" "insn_size (al_op line) (al_args line) = Done size" "to_lowercase (al_op line) = al_op line"
      by (simp_all add: line_size_def line_def lowercase_idem)
    with ok labels show ?thesis by (auto simp: size(2) scan_ok_def scan_extends_def lines_size_def algebra_simps)
  qed
qed

lemma scan_lines_ok:
  "scan_lines xs s = Done s' \<Longrightarrow> scan_ok base s \<Longrightarrow> scan_ok base s' \<and> scan_extends s s'"
proof (induction xs arbitrary: s)
  case (Cons x xs)
  obtain i raw where x: "x = (i, raw)" by (cases x)
  obtain t where t: "scan_line (i + 1) raw s = Done t" "scan_lines xs t = Done s'"
    using Cons.prems(1) x by (auto simp: attempt_Done)
  note one = scan_line_ok [OF t(1) Cons.prems(2)]
  from Cons.IH [OF t(2)] one scan_extends_trans show ?case by blast
qed simp

lemma scan_lines_append: "scan_lines (xs @ ys) s = attempt (scan_lines xs s) (scan_lines ys)"
proof (induction xs arbitrary: s)
  case (Cons x xs)
  then show ?case by (cases x; cases "scan_line (fst x + 1) (snd x) s") simp_all
qed simp

section \<open>The second pass\<close>

definition context_at :: "u32 \<Rightarrow> scan_state \<Rightarrow> u32 list list \<Rightarrow> nat \<Rightarrow> asm_ctx" where
  "context_at base s wss k =
     \<lparr>cx_pc = base + 4 * of_nat (length (concat (take k wss))), cx_labels = sc_labels s, cx_base = base\<rparr>"

definition encoded :: "(string \<rightharpoonup> u32) \<Rightarrow> u32 \<Rightarrow> u32 \<Rightarrow> asm_line list \<Rightarrow> u32 list list \<Rightarrow> bool" where
  "encoded labels base pc ls wss \<longleftrightarrow> length wss = length ls \<and> (\<forall>k < length ls.
     encode_instr (al_op (ls ! k)) (al_args (ls ! k))
       \<lparr>cx_pc = pc + 4 * of_nat (length (concat (take k wss))), cx_labels = labels, cx_base = base\<rparr> = Done (wss ! k))"

lemma encode_lines_layout:
  "encode_lines labels base pc ls = Done words \<Longrightarrow> \<exists>wss. words = concat wss \<and> encoded labels base pc ls wss"
proof (induction ls arbitrary: pc words)
  case Nil
  then show ?case by (intro exI [of _ "[]"]) (simp add: encoded_def)
next
  case (Cons l ls)
  obtain ws rest where ws: "encode_instr (al_op l) (al_args l) \<lparr>cx_pc = pc, cx_labels = labels, cx_base = base\<rparr> = Done ws"
    "encode_lines labels base (pc + 4 * of_nat (length ws)) ls = Done rest" "words = ws @ rest"
    using Cons.prems by (auto simp: attempt_Done at_line_def)
  obtain wss where wss: "rest = concat wss" "encoded labels base (pc + 4 * of_nat (length ws)) ls wss"
    using Cons.IH [OF ws(2)] by blast
  have "encoded labels base pc (l # ls) (ws # wss)"
    unfolding encoded_def
  proof (intro conjI allI impI)
    fix k assume k: "k < length (l # ls)"
    show "encode_instr (al_op ((l # ls) ! k)) (al_args ((l # ls) ! k))
        \<lparr>cx_pc = pc + 4 * of_nat (length (concat (take k (ws # wss)))), cx_labels = labels, cx_base = base\<rparr> = Done ((ws # wss) ! k)"
      using k ws(1) wss(2) by (cases k) (simp_all add: encoded_def algebra_simps)
  qed (use wss(2) in \<open>simp add: encoded_def\<close>)
  with ws(3) wss(1) show ?case by (intro exI [of _ "ws # wss"]) simp
qed

lemma sizes_agree:
  assumes enc: "encoded labels base pc ls wss"
    and ok: "\<forall>l \<in> set ls. insn_size (al_op l) (al_args l) = Done (line_size l) \<and> to_lowercase (al_op l) = al_op l" and k: "k \<le> length ls"
  shows "lines_size (take k ls) = of_nat (length (concat (take k wss)))"
  using k
proof (induction k)
  case (Suc k)
  let ?l = "ls ! k"
  have "encode_instr (al_op ?l) (al_args ?l) \<lparr>cx_pc = pc + 4 * of_nat (length (concat (take k wss))), cx_labels = labels, cx_base = base\<rparr>
      = Done (wss ! k)" using enc Suc.prems by (simp add: encoded_def)
  moreover have "insn_size (al_op ?l) (al_args ?l) = Done (line_size ?l)" "to_lowercase (al_op ?l) = al_op ?l" using ok Suc.prems by simp_all
  ultimately have "line_size ?l = of_nat (length (wss ! k))" by (rule encode_size)
  moreover have "length wss = length ls" using enc by (simp add: encoded_def)
  ultimately show ?case using Suc by (simp add: take_Suc_conv_app_nth lines_size_def)
qed (simp add: lines_size_def)

section \<open>What a label stands for\<close>

lemma first_pass_ok: "first_pass raws base = Done s \<Longrightarrow> scan_ok base s"
  unfolding first_pass_def by (drule scan_lines_ok [where base = base]) (simp_all add: scan_ok_def lines_size_def)

lemma first_pass_prefix:
  assumes "first_pass raws base = Done s"
  shows "\<exists>t. first_pass (take i raws) base = Done t \<and> scan_lines (drop i (enumerate 0 raws)) t = Done s"
proof -
  let ?s0 = "\<lparr>sc_lines = [], sc_labels = Map.empty, sc_addr = base\<rparr>"
  have "scan_lines (take i (enumerate 0 raws) @ drop i (enumerate 0 raws)) ?s0 = Done s" using assms by (simp add: first_pass_def)
  then have "attempt (scan_lines (take i (enumerate 0 raws)) ?s0) (scan_lines (drop i (enumerate 0 raws))) = Done s"
    by (simp only: scan_lines_append)
  moreover have "take i (enumerate 0 raws) = enumerate 0 (take i raws)" by (rule nth_equalityI) (simp_all add: nth_enumerate_eq)
  ultimately show ?thesis by (auto simp: first_pass_def attempt_Done)
qed

lemma label_address:
  assumes run: "first_pass raws base = Done s" and i: "i < length raws"
    and t: "first_pass (take i raws) base = Done t" "sc_labels t l = None"
    and t': "first_pass (take (Suc i) raws) base = Done t'" "sc_labels t' l \<noteq> None"
  shows "sc_labels s l = Some (base + 4 * lines_size (sc_lines t)) \<and> (\<exists>ls. sc_lines s = sc_lines t @ ls)"
proof -
  obtain r where r: "first_pass (take (Suc i) raws) base = Done r" "scan_lines (drop (Suc i) (enumerate 0 raws)) r = Done s"
    using first_pass_prefix [OF run] by blast
  then have r': "r = t'" using t'(1) by simp
  obtain q where q: "first_pass (take i (take (Suc i) raws)) base = Done q"
    "scan_lines (drop i (enumerate 0 (take (Suc i) raws))) q = Done t'" using first_pass_prefix [OF t'(1)] by blast
  have "take i (take (Suc i) raws) = take i raws" by (simp add: min_absorb1)
  then have qt: "q = t" using q(1) t(1) by simp
  have single: "drop i (enumerate 0 (take (Suc i) raws)) = [(i, raws ! i)]"
  proof -
    have "enumerate 0 (take (Suc i) raws) = enumerate 0 (take i raws) @ [(i, raws ! i)]"
      unfolding take_Suc_conv_app_nth [OF i] by (simp add: enumerate_append_eq min_absorb2 i less_imp_le)
    then show ?thesis using i by simp
  qed
  have "scan_lines [(i, raws ! i)] t = Done t'" using q(2) unfolding single qt .
  then have step: "scan_line (i + 1) (raws ! i) t = Done t'" by (simp add: attempt_Done)
  note ok = first_pass_ok [OF t(1)]
  note line = scan_line_ok [OF step ok]
  have ext: "scan_extends t' s" using scan_lines_ok [OF r(2) [unfolded r']] line by blast
  have "sc_labels t' l = None \<or> sc_labels t' l = Some (sc_addr t)"
    using conjunct2 [OF conjunct2 [OF line], rule_format, OF t(2)] .
  then have "sc_labels t' l = Some (sc_addr t)" using t'(2) by simp
  then have "sc_labels s l = Some (sc_addr t)" using ext unfolding scan_extends_def map_le_def by (metis domI)
  moreover have "scan_extends t s" using scan_extends_trans [OF _ ext] line by blast
  ultimately show ?thesis using ok by (simp add: scan_ok_def scan_extends_def)
qed

lemma label_layout:
  assumes run: "first_pass raws base = Done s" and enc: "encoded (sc_labels s) base base (sc_lines s) wss" and i: "i < length raws"
    and t: "first_pass (take i raws) base = Done t" "sc_labels t l = None"
    and t': "first_pass (take (Suc i) raws) base = Done t'" "sc_labels t' l \<noteq> None"
  shows "sc_labels s l = Some (base + 4 * of_nat (length (concat (take (length (sc_lines t)) wss))))"
proof -
  obtain ls where ls: "sc_labels s l = Some (base + 4 * lines_size (sc_lines t))" "sc_lines s = sc_lines t @ ls"
    using label_address [OF run i t t'] by blast
  have "\<forall>l \<in> set (sc_lines s). insn_size (al_op l) (al_args l) = Done (line_size l) \<and> to_lowercase (al_op l) = al_op l"
    using first_pass_ok [OF run] by (simp add: scan_ok_def)
  from sizes_agree [OF enc this, of "length (sc_lines t)"] ls show ?thesis by simp
qed

end
