(* ===== verification/Rv_Exec.thy ===== *)
theory Rv_Exec
  imports Rv_Sound
begin

text \<open>
  What encoded instructions do: \<open>li\<close> leaves its constant in the register, and a branch or a jump
  to a label goes to the address of the label.
\<close>

section \<open>The two instructions of \<open>li\<close>\<close>

type_synonym rv_regs = "u32 \<Rightarrow> u32"

definition rv_write :: "u32 \<Rightarrow> u32 \<Rightarrow> rv_regs \<Rightarrow> rv_regs" where
  "rv_write r v R = (if r = 0 then R else R(r := v))"

text \<open>\<open>lui\<close> and \<open>addi\<close> of the RISC-V manual.\<close>

definition rv_alu :: "u32 \<Rightarrow> rv_regs \<Rightarrow> rv_regs" where
  "rv_alu w R =
     (if rv_opcode w = 0x37 then rv_write (rv_rd w) (rv_imm_u w) R
      else if rv_opcode w = 0x13 \<and> rv_funct3 w = 0 then rv_write (rv_rd w) (R (rv_rs1 w) + word_of_int (rv_imm_i w)) R
      else R)"

lemma fits_small [simp]:
  "fits_field 7 0x37" "fits_field 7 0x13" "fits_field 7 0x63" "fits_field 7 0x6F" "fits_field 3 0" "fits_field 5 0" "fits_field 5 1"
  by (simp_all add: fits_field_def take_bit_eq_mask mask_eq_exp_minus_1)

lemma rv_alu_lui: "fits_field 5 rd \<Longrightarrow> rv_alu (u_type imm rd 0x37) R = rv_write rd (word_of_int imm AND 0xFFFFF000) R"
  by (simp add: rv_alu_def u_type_fields u_type_imm)

lemma rv_alu_addi:
  "fits_field 5 rd \<Longrightarrow> fits_field 5 rs \<Longrightarrow> rv_alu (i_type imm rs 0 rd 0x13) R = rv_write rd (R rs + word_of_int (signed_take_bit 11 imm)) R"
  by (simp add: rv_alu_def i_type_fields i_type_imm)

section \<open>The split of the constant\<close>

lemma parse_int_range: "parse_int s = Done v \<Longrightarrow> - (2 ^ 63) \<le> v \<and> v < 2 ^ 63"
proof -
  have range: "- (2 ^ 63) \<le> v \<and> v < 2 ^ 63" if "i64_from_str_radix radix s = Some v" for radix s v
    using that by (auto simp: i64_from_str_radix_def Let_def split: option.splits if_splits)
  assume "parse_int s = Done v"
  then show ?thesis
    by (auto simp: parse_int_def Let_def split: option.splits if_splits prod.splits dest!: range)
qed

lemma low_part: "drop_bit 52 (wrap_i64 (push_bit 52 (imm AND 0xFFF))) = signed_take_bit 11 (imm :: int)"
proof (rule bit_eqI)
  fix n
  have mask: "(0xFFF :: int) = Bit_Operations.mask 12" by (simp add: mask_eq_exp_minus_1)
  show "bit (drop_bit 52 (wrap_i64 (push_bit 52 (imm AND 0xFFF)))) n = bit (signed_take_bit 11 imm) n"
    unfolding mask wrap_i64_def
    by (auto simp: bit_drop_bit_eq bit_signed_take_bit_iff bit_push_bit_iff bit_and_iff bit_mask_iff min_def)
qed

lemma high_part: "\<exists>h. imm - signed_take_bit 11 imm = 4096 * (h :: int)"
proof -
  have "take_bit 12 (signed_take_bit 11 imm) = take_bit 12 imm" by (simp add: take_bit_signed_take_bit)
  then have "imm mod 4096 = signed_take_bit 11 imm mod 4096" by (simp add: take_bit_eq_mod)
  then have "4096 dvd imm - signed_take_bit 11 imm" by (simp add: mod_eq_dvd_iff)
  then show ?thesis by (auto elim: dvdE)
qed

lemma low_bounds: "- 2048 \<le> signed_take_bit 11 (imm :: int)" "signed_take_bit 11 (imm :: int) < 2048"
  using signed_take_bit_int_greater_eq_minus_exp [of 11 imm] signed_take_bit_int_less_exp [of 11 imm] by simp_all

lemma wrap_i64_id: "- (2 ^ 63) \<le> v \<Longrightarrow> v < 2 ^ 63 \<Longrightarrow> wrap_i64 v = v"
  by (simp add: wrap_i64_def signed_take_bit_int_eq_self_iff)

lemma difference_fits:
  assumes "- (2 ^ 63) \<le> imm" "imm < 2 ^ 63 - 2 ^ 11"
  shows "wrap_i64 (imm - signed_take_bit 11 imm) = imm - signed_take_bit 11 imm"
proof -
  obtain h where h: "imm - signed_take_bit 11 imm = 4096 * h" using high_part by blast
  have "- (2 ^ 51) \<le> h" "h < 2 ^ 51" using h low_bounds [of imm] assms by simp_all
  then show ?thesis unfolding h by (intro wrap_i64_id) simp_all
qed

lemma upper_bits: "(word_of_int (4096 * h) :: u32) AND 0xFFFFF000 = word_of_int (4096 * h)"
proof (rule u32_eqI)
  fix n :: nat assume "n < 32"
  have "(4096 * h :: int) = push_bit 12 h" by (simp add: push_bit_eq_mult)
  then show "bit ((word_of_int (4096 * h) :: u32) AND 0xFFFFF000) n = bit (word_of_int (4096 * h) :: u32) n"
    using \<open>n < 32\<close> by (auto simp: mask_numerals format_bits)
qed

lemma li_words:
  assumes "reg a = Done rd" "parse_int b = Done imm" "imm < 2 ^ 63 - 2 ^ 11"
  shows "li_op [a, b] = Done (if fits_signed imm 12 then [i_type imm 0 0 rd 0x13]
    else [u_type (imm - signed_take_bit 11 imm) rd 0x37, i_type (signed_take_bit 11 imm) rd 0 rd 0x13])"
proof -
  have range: "- (2 ^ 63) \<le> imm" using parse_int_range [OF assms(2)] by simp
  note fits = difference_fits [OF range assms(3)]
  obtain h where h: "imm - signed_take_bit 11 imm = 4096 * h" using high_part by blast
  have "push_bit 12 (drop_bit 12 (imm - signed_take_bit 11 imm)) = imm - signed_take_bit 11 imm"
    unfolding h by (simp add: drop_bit_eq_div push_bit_eq_mult)
  with assms(1,2) fits show ?thesis unfolding li_op_def Let_def low_part by (simp add: need_def)
qed

lemma li_runs:
  assumes "reg a = Done rd" "parse_int b = Done imm" "imm < 2 ^ 63 - 2 ^ 11" "rd \<noteq> 0" "R 0 = 0"
  shows "\<exists>ws. li_op [a, b] = Done ws \<and> fold rv_alu ws R = R(rd := word_of_int imm)"
proof (cases "fits_signed imm 12")
  case True
  then have "signed_take_bit 11 imm = imm" using fits_signed_take_bit [of imm 11] by simp
  with True assms reg_fits [OF assms(1)] li_words [OF assms(1-3)] show ?thesis by (simp add: rv_alu_addi rv_write_def)
next
  case False
  let ?lo = "signed_take_bit 11 imm"
  obtain h where h: "imm - ?lo = 4096 * h" using high_part by blast
  have lui: "(word_of_int (imm - ?lo) :: u32) AND 0xFFFFF000 = word_of_int (imm - ?lo)" unfolding h by (rule upper_bits)
  with False assms(4) reg_fits [OF assms(1)] li_words [OF assms(1-3)] show ?thesis
    by (simp add: rv_alu_addi rv_alu_lui rv_write_def)
qed

section \<open>Branches and jumps to a label\<close>

lemma branch_funct3: "map_of branch_ops op = Some f3 \<Longrightarrow> fits_field 3 f3"
proof -
  assume "map_of branch_ops op = Some f3"
  then have "f3 \<in> snd ` set branch_ops" by (force dest: map_of_SomeD)
  moreover have "\<forall>f \<in> snd ` set branch_ops. fits_field 3 f" by code_simp
  ultimately show ?thesis by blast
qed

lemma encode_branch:
  assumes "map_of branch_ops op = Some f3"
  shows "encode_instr op args cx = branch_op op args cx f3"
proof -
  have "list_all (\<lambda>(s, f). map_of r_ops s = None \<and> map_of i_ops s = None \<and> map_of shift_ops s = None
      \<and> map_of load_ops s = None \<and> map_of store_ops s = None) branch_ops" by code_simp
  with map_of_SomeD [OF assms] have "map_of r_ops op = None \<and> map_of i_ops op = None \<and> map_of shift_ops op = None
      \<and> map_of load_ops op = None \<and> map_of store_ops op = None" by (fastforce simp: list_all_iff)
  with assms show ?thesis by (simp add: encode_instr_def)
qed

lemma encode_j: "encode_instr ''j'' args cx =
    attempt (need ''j'' args 1) (\<lambda>_. attempt (resolve (args ! 0) cx True) (\<lambda>off. Done [j_type off 0 0x6F]))"
  by (simp add: encode_instr_def r_ops_def i_ops_def shift_ops_def load_ops_def store_ops_def branch_ops_def encode_other_def)

lemma encode_jal: "encode_instr ''jal'' args cx = jal_op args cx"
  by (simp add: encode_instr_def r_ops_def i_ops_def shift_ops_def load_ops_def store_ops_def branch_ops_def encode_other_def)

text \<open>The offset to a label leads back to its address, whatever multiple of \<open>2 ^ 32\<close> the decoder drops.\<close>

lemma offset_lands: "cx_pc cx + word_of_int (uint target - uint (cx_pc cx)) = target"
  by simp

lemma resolve_label: "cx_labels cx l = Some target \<Longrightarrow> resolve l cx True = Done (uint target - uint (cx_pc cx))"
  by (simp add: resolve_def)

lemma fits_iff_take_bit: "fits_signed v (Suc k) \<longleftrightarrow> signed_take_bit k v = v"
  by (auto simp: fits_signed_def signed_take_bit_int_eq_self_iff)

lemma mod_two_even: "v mod 2 \<noteq> 0 \<longleftrightarrow> odd (v :: int)"
  by presburger

end
