(* ===== verification/Rv_Properties.thy ===== *)
theory Rv_Properties
  imports Rv_Exec
begin

text \<open>The properties of the assembler, each with an application to a concrete program.\<close>

section \<open>Labels\<close>

text \<open>
  C36: A program that assembles has the words of its lines one after another, each line encoded
  with its own address as the program counter, and a label that is first defined on source line
  \<open>i\<close> stands for the address of the first word that is emitted for the lines from there on: the
  sizes the first pass reserves are the sizes the second pass emits, pseudo-instructions included.
\<close>

theorem assembled_labels:
  assumes "assemble_at src base = Done words" and "i < length (str_lines src)"
    and "first_pass (take i (str_lines src)) base = Done t" and "sc_labels t l = None"
    and "first_pass (take (Suc i) (str_lines src)) base = Done t'" and "sc_labels t' l \<noteq> None"
  shows "\<exists>s wss. first_pass (str_lines src) base = Done s \<and> words = concat wss
    \<and> encoded (sc_labels s) base base (sc_lines s) wss
    \<and> sc_labels s l = Some (base + 4 * of_nat (length (concat (take (length (sc_lines t)) wss))))"
proof -
  obtain s where s: "first_pass (str_lines src) base = Done s" "encode_lines (sc_labels s) base base (sc_lines s) = Done words"
    using assms(1) by (auto simp: assemble_at_def attempt_Done)
  obtain wss where wss: "words = concat wss" "encoded (sc_labels s) base base (sc_lines s) wss"
    using encode_lines_layout [OF s(2)] by blast
  from label_layout [OF s(1) wss(2) assms(2-6)] s(1) wss show ?thesis by blast
qed

text \<open>A jump over a two-word \<open>li\<close>.\<close>

definition jump_source :: string where
  "jump_source = ''j done'' @ [CHR 0x0A] @ ''li a0, 0x12345'' @ [CHR 0x0A] @ ''done: ret''"

lemma jump_lines: "str_lines jump_source = [''j done'', ''li a0, 0x12345'', ''done: ret'']"
  by code_simp

definition jump_words :: "u32 list" where
  "jump_words = [0x00C0006F, 0x00012537, 0x34550513, 0x00008067]"

lemma jump_assembles: "assemble_at jump_source 0x80000000 = Done jump_words"
  unfolding assemble_at_def jump_lines jump_words_def by code_simp

lemma jump_before:
  "\<exists>t. first_pass (take 2 (str_lines jump_source)) 0x80000000 = Done t \<and> sc_labels t ''done'' = None \<and> length (sc_lines t) = 2"
proof -
  have "case first_pass (take 2 (str_lines jump_source)) 0x80000000 of
      Done t \<Rightarrow> sc_labels t ''done'' = None \<and> length (sc_lines t) = 2 | Fail e \<Rightarrow> False | Panic \<Rightarrow> False"
    unfolding jump_lines by code_simp
  then show ?thesis by (auto split: outcome.splits)
qed

lemma jump_after:
  "\<exists>t. first_pass (take (Suc 2) (str_lines jump_source)) 0x80000000 = Done t \<and> sc_labels t ''done'' \<noteq> None"
proof -
  have "case first_pass (take (Suc 2) (str_lines jump_source)) 0x80000000 of
      Done t \<Rightarrow> sc_labels t ''done'' \<noteq> None | Fail e \<Rightarrow> False | Panic \<Rightarrow> False"
    unfolding jump_lines by code_simp
  then show ?thesis by (auto split: outcome.splits)
qed

theorem assembled_labels_witness:
  "\<exists>s wss. first_pass (str_lines jump_source) 0x80000000 = Done s \<and> jump_words = concat wss
    \<and> encoded (sc_labels s) 0x80000000 0x80000000 (sc_lines s) wss
    \<and> sc_labels s ''done'' = Some (0x80000000 + 4 * of_nat (length (concat (take 2 wss))))"
proof -
  obtain t t' where t: "first_pass (take 2 (str_lines jump_source)) 0x80000000 = Done t" "sc_labels t ''done'' = None"
      "length (sc_lines t) = 2"
    and t': "first_pass (take (Suc 2) (str_lines jump_source)) 0x80000000 = Done t'" "sc_labels t' ''done'' \<noteq> None"
    using jump_before jump_after by blast
  have "2 < length (str_lines jump_source)" by (simp add: jump_lines)
  from assembled_labels [OF jump_assembles this t(1,2) t'] show ?thesis unfolding t(3) .
qed

section \<open>Instruction formats\<close>

text \<open>
  C37: Every format is read back: from an encoded word the decoder of the instruction-set manual
  gets the opcode, the registers, the function fields and, when the immediate fits the field that
  the code checks it against, the signed immediate itself.
\<close>

theorem formats_read_back:
  assumes "fits_field 7 f7" "fits_field 5 rs2" "fits_field 5 rs1" "fits_field 3 f3" "fits_field 5 rd" "fits_field 7 opc"
    and "fits_signed imm 12" "fits_signed off 13" "even off" "fits_signed far 21" "even far"
  shows "rv_funct7 (r_type f7 rs2 rs1 f3 rd opc) = f7 \<and> rv_rs2 (r_type f7 rs2 rs1 f3 rd opc) = rs2
      \<and> rv_rs1 (r_type f7 rs2 rs1 f3 rd opc) = rs1 \<and> rv_funct3 (r_type f7 rs2 rs1 f3 rd opc) = f3
      \<and> rv_rd (r_type f7 rs2 rs1 f3 rd opc) = rd \<and> rv_opcode (r_type f7 rs2 rs1 f3 rd opc) = opc
    \<and> rv_imm_i (i_type imm rs1 f3 rd opc) = imm \<and> rv_rs1 (i_type imm rs1 f3 rd opc) = rs1
      \<and> rv_funct3 (i_type imm rs1 f3 rd opc) = f3 \<and> rv_rd (i_type imm rs1 f3 rd opc) = rd
      \<and> rv_opcode (i_type imm rs1 f3 rd opc) = opc
    \<and> rv_imm_s (s_type imm rs2 rs1 f3 opc) = imm \<and> rv_rs2 (s_type imm rs2 rs1 f3 opc) = rs2
      \<and> rv_rs1 (s_type imm rs2 rs1 f3 opc) = rs1 \<and> rv_funct3 (s_type imm rs2 rs1 f3 opc) = f3
      \<and> rv_opcode (s_type imm rs2 rs1 f3 opc) = opc
    \<and> rv_imm_b (b_type off rs2 rs1 f3 opc) = off \<and> rv_rs2 (b_type off rs2 rs1 f3 opc) = rs2
      \<and> rv_rs1 (b_type off rs2 rs1 f3 opc) = rs1 \<and> rv_funct3 (b_type off rs2 rs1 f3 opc) = f3
      \<and> rv_opcode (b_type off rs2 rs1 f3 opc) = opc
    \<and> rv_imm_u (u_type imm rd opc) = word_of_int imm AND 0xFFFFF000 \<and> rv_rd (u_type imm rd opc) = rd
      \<and> rv_opcode (u_type imm rd opc) = opc
    \<and> rv_imm_j (j_type far rd opc) = far \<and> rv_rd (j_type far rd opc) = rd \<and> rv_opcode (j_type far rd opc) = opc"
proof -
  note fits = assms(1-6)
  have imm: "signed_take_bit 11 imm = imm" "signed_take_bit 12 off = off" "signed_take_bit 20 far = far"
    using assms(7,8,10) by (simp_all add: fits_signed_take_bit)
  show ?thesis
    by (simp only: r_type_fields [OF fits] i_type_fields [OF fits(3-6)] s_type_fields [OF fits(2-4,6)] b_type_fields [OF fits(2-4,6)]
      u_type_fields [OF fits(5,6)] j_type_fields [OF fits(5,6)] i_type_imm [OF fits(3-6)] s_type_imm [OF fits(2-4,6)]
      b_type_imm [OF fits(2-4,6) assms(9)] j_type_imm [OF fits(5,6) assms(11)] u_type_imm [OF fits(5,6)] imm simp_thms)
qed

text \<open>The backward branch \<open>blt x2, x3\<close> by two instructions, and extreme immediates of the other formats.\<close>

theorem formats_read_back_witness:
  "b_type (- 8) 3 2 4 0x63 = 0xFE314CE3 \<and> rv_imm_b 0xFE314CE3 = - 8 \<and> rv_rs2 0xFE314CE3 = 3
    \<and> rv_imm_i (i_type (- 2048) 2 4 31 0x63) = - 2048 \<and> rv_imm_j (j_type (- 1048576) 31 0x63) = - 1048576"
proof -
  have word: "b_type (- 8) 3 2 4 0x63 = 0xFE314CE3" by code_simp
  have fits: "fits_field 7 0x20" "fits_field 5 3" "fits_field 5 2" "fits_field 3 4" "fits_field 5 31" "fits_field 7 0x63"
    "fits_signed (- 2048) 12" "fits_signed (- 8) 13" "even (- 8 :: int)" "fits_signed (- 1048576) 21" "even (- 1048576 :: int)"
    by (simp_all add: fits_field_def fits_signed_def take_bit_eq_mask mask_eq_exp_minus_1)
  from formats_read_back [OF fits] word show ?thesis by simp
qed

section \<open>Constants\<close>

text \<open>
  C38: The one or two instructions of \<open>li\<close>, run from any registers with \<open>x0\<close> zero, leave the
  constant modulo \<open>2 ^ 32\<close> in the destination and change no other register: the high part is
  adjusted for the sign of the low one, at every boundary.
\<close>

theorem li_loads:
  assumes "reg a = Done rd" "parse_int b = Done imm" "imm < 2 ^ 63 - 2 ^ 11" "rd \<noteq> 0" "R 0 = 0"
  shows "\<exists>ws. encode_instr ''li'' [a, b] cx = Done ws \<and> fold rv_alu ws R = R(rd := word_of_int imm)"
  unfolding encode_li by (rule li_runs) (fact assms)+

text \<open>\<open>0x12FFF\<close>: its low twelve bits are negative, so the high part is rounded up.\<close>

theorem li_loads_witness:
  "\<exists>ws. encode_instr ''li'' [''a0'', ''0x12FFF''] \<lparr>cx_pc = 0, cx_labels = Map.empty, cx_base = 0\<rparr> = Done ws
    \<and> fold rv_alu ws (\<lambda>_. 0) = (\<lambda>_. 0)(10 := 0x12FFF)"
proof -
  have "reg ''a0'' = Done 10" "parse_int ''0x12FFF'' = Done 0x12FFF" by code_simp+
  from li_loads [OF this, of "\<lambda>_. 0"] show ?thesis by simp
qed

section \<open>Branches and jumps\<close>

text \<open>
  C39: A conditional branch to a label whose address is within the range of the format is one word
  with the condition and the registers of the source, and the offset the processor adds to the
  address of the branch leads to the label; a branch out of range or to an odd distance is refused.
\<close>

theorem branches_reach:
  assumes "map_of branch_ops op = Some f3" "cx_labels cx l = Some target" "reg a = Done rs1" "reg b = Done rs2"
  shows "if fits_signed (uint target - uint (cx_pc cx)) 13 \<and> even (uint target - uint (cx_pc cx))
    then \<exists>w. encode_instr op [a, b, l] cx = Done [w] \<and> rv_opcode w = 0x63 \<and> rv_funct3 w = f3 \<and> rv_rs1 w = rs1
      \<and> rv_rs2 w = rs2 \<and> cx_pc cx + word_of_int (rv_imm_b w) = target
    else encode_instr op [a, b, l] cx
      = Fail (''branch target offset '' @ show_int (uint target - uint (cx_pc cx)) @ '' out of range/misaligned'')"
proof -
  define off where "off = uint target - uint (cx_pc cx)"
  note fits = reg_fits [OF assms(4)] reg_fits [OF assms(3)] branch_funct3 [OF assms(1)] fits_small(3)
  have enc: "encode_instr op [a, b, l] cx = (if \<not> fits_signed off 13 \<or> off mod 2 \<noteq> 0
      then Fail (''branch target offset '' @ show_int off @ '' out of range/misaligned'') else Done [b_type off rs2 rs1 f3 0x63])"
    unfolding encode_branch [OF assms(1)] using assms(2-4) by (simp add: branch_op_def need_def resolve_label off_def)
  show ?thesis
  proof (cases "fits_signed off 13 \<and> even off")
    case True
    then have "rv_imm_b (b_type off rs2 rs1 f3 0x63) = off" using b_type_imm [OF fits, of off] by (simp add: fits_signed_take_bit)
    moreover have "cx_pc cx + word_of_int off = target" by (simp add: off_def)
    ultimately show ?thesis unfolding enc mod_two_even off_def [symmetric] using True by (simp add: b_type_fields [OF fits])
  next
    case False
    then show ?thesis unfolding enc mod_two_even off_def [symmetric] by auto
  qed
qed

text \<open>The backward branch of a loop, two instructions ahead of its label.\<close>

theorem branches_reach_witness:
  "\<exists>w. encode_instr ''blt'' [''x2'', ''t0'', ''loop''] \<lparr>cx_pc = 8, cx_labels = [''loop'' \<mapsto> 0], cx_base = 0\<rparr> = Done [w]
    \<and> rv_opcode w = 0x63 \<and> rv_funct3 w = 4 \<and> rv_rs1 w = 2 \<and> rv_rs2 w = 5 \<and> 8 + word_of_int (rv_imm_b w) = (0 :: u32)"
proof -
  have "map_of branch_ops ''blt'' = Some 4" "reg ''x2'' = Done 2" "reg ''t0'' = Done 5" by code_simp+
  from branches_reach [OF this(1) _ this(2,3), of "\<lparr>cx_pc = 8, cx_labels = [''loop'' \<mapsto> 0], cx_base = 0\<rparr>" "''loop''" 0]
  show ?thesis by (simp add: fits_signed_def)
qed

text \<open>
  C40: A \<open>jal\<close> to a label at an even distance is either one word whose offset leads to the label or,
  out of the 21-bit range, refused; the pseudo-instruction \<open>j\<close> is always assembled, and the offset
  in its word is the distance only when the distance fits: out of range it is cut off in silence.
\<close>

theorem jumps_reach:
  assumes "cx_labels cx l = Some target" "reg a = Done rd" "even (uint target - uint (cx_pc cx))"
  shows "\<exists>w. encode_instr ''j'' [l] cx = Done [w] \<and> rv_opcode w = 0x6F \<and> rv_rd w = 0
      \<and> (rv_imm_j w = uint target - uint (cx_pc cx)) = fits_signed (uint target - uint (cx_pc cx)) 21
      \<and> (if fits_signed (uint target - uint (cx_pc cx)) 21
         then \<exists>v. encode_instr ''jal'' [a, l] cx = Done [v] \<and> rv_opcode v = 0x6F \<and> rv_rd v = rd
           \<and> cx_pc cx + word_of_int (rv_imm_j v) = target
         else \<exists>m. encode_instr ''jal'' [a, l] cx = Fail m)"
proof -
  let ?off = "uint target - uint (cx_pc cx)"
  note fits = fits_small(6) fits_small(4)
  note fits_rd = reg_fits [OF assms(2)] fits_small(4)
  have j: "encode_instr ''j'' [l] cx = Done [j_type ?off 0 0x6F]"
    unfolding encode_j using assms(1) by (simp add: need_def resolve_label)
  have jal: "encode_instr ''jal'' [a, l] cx = (if \<not> fits_signed ?off 21 \<or> ?off mod 2 \<noteq> 0
      then Fail (''jal target offset '' @ show_int ?off @ '' out of range/misaligned'') else Done [j_type ?off rd 0x6F])"
    unfolding encode_jal using assms(1,2) by (simp add: jal_op_def need_def resolve_label)
  have taken: "(rv_imm_j (j_type ?off 0 0x6F) = ?off) = fits_signed ?off 21"
    using fits_iff_take_bit [of ?off 20] j_type_imm [OF fits assms(3)] by simp
  have lands: "cx_pc cx + word_of_int (rv_imm_j (j_type ?off rd 0x6F)) = target" if "fits_signed ?off 21"
    using that by (simp add: j_type_imm [OF fits_rd assms(3)] fits_signed_take_bit offset_lands)
  show ?thesis unfolding j jal mod_two_even using taken lands assms(3)
    by (simp add: j_type_fields [OF fits] j_type_fields [OF fits_rd])
qed

text \<open>A jump of two megabytes: \<open>jal\<close> is refused, \<open>j\<close> is assembled with another offset.\<close>

theorem jumps_reach_witness:
  "(\<exists>w. encode_instr ''j'' [''far''] \<lparr>cx_pc = 0, cx_labels = [''far'' \<mapsto> 0x200000], cx_base = 0\<rparr> = Done [w] \<and> rv_imm_j w \<noteq> 0x200000)
    \<and> (\<exists>m. encode_instr ''jal'' [''ra'', ''far''] \<lparr>cx_pc = 0, cx_labels = [''far'' \<mapsto> 0x200000], cx_base = 0\<rparr> = Fail m)"
proof -
  have "reg ''ra'' = Done 1" by code_simp
  from jumps_reach [where cx = "\<lparr>cx_pc = 0, cx_labels = [''far'' \<mapsto> 0x200000], cx_base = 0\<rparr>" and l = "''far''", OF _ this, of "0x200000"]
  show ?thesis by (auto simp: fits_signed_def)
qed

end
