(* ===== verification/Packed_Slice.thy ===== *)
theory Packed_Slice
  imports Packed_Order
begin

text \<open>
  Slicing a packed program (rrtl-sim-ir \<open>src/lib.rs\<close>, \<open>classify_signal_owners\<close> to \<open>slice_present\<close>):
  ownership by instance path, the cone of influence of observed signals, and the compact
  sub-program of the signals and memories a group computes.  A result is an error report or a
  value, and \<open>None\<close> a panic, which indexing out of range is.
\<close>

section \<open>Errors and panics\<close>

type_synonym 'a tried = "(error_report + 'a) option"

definition try_bind :: "'a tried \<Rightarrow> ('a \<Rightarrow> 'b tried) \<Rightarrow> 'b tried" where
  "try_bind r f = (case r of None \<Rightarrow> None | Some (Inl e) \<Rightarrow> Some (Inl e) | Some (Inr x) \<Rightarrow> f x)"

lemma try_bind_simps [simp]:
  "try_bind None f = None" "try_bind (Some (Inl e)) f = Some (Inl e)" "try_bind (Some (Inr x)) f = f x"
  by (simp_all add: try_bind_def)

lemma try_bind_Inr: "try_bind r f = Some (Inr y) \<longleftrightarrow> (\<exists>x. r = Some (Inr x) \<and> f x = Some (Inr y))"
  by (simp add: try_bind_def split: option.split sum.split)

fun try_map :: "('a \<Rightarrow> 'b tried) \<Rightarrow> 'a list \<Rightarrow> 'b list tried" where
  "try_map f [] = Some (Inr [])"
| "try_map f (x # xs) = try_bind (f x) (\<lambda>y. try_bind (try_map f xs) (\<lambda>ys. Some (Inr (y # ys))))"

lemma try_map_cong [fundef_cong]:
  "xs = ys \<Longrightarrow> (\<And>x. x \<in> set ys \<Longrightarrow> f x = g x) \<Longrightarrow> try_map f xs = try_map g ys"
proof (induction xs arbitrary: ys)
  case (Cons x xs)
  then show ?case by (cases ys) auto
qed simp

lemma try_map_Inr: "try_map f xs = Some (Inr ys) \<longleftrightarrow> list_all2 (\<lambda>x y. f x = Some (Inr y)) xs ys"
proof (induction xs arbitrary: ys)
  case (Cons x xs)
  then show ?case by (cases ys) (auto simp: try_bind_Inr list_all2_Cons1)
qed auto

lemma try_map_all: "\<forall>x \<in> set xs. f x = Some (Inr (g x)) \<Longrightarrow> try_map f xs = Some (Inr (map g xs))"
  by (induction xs) auto

fun fold_opt :: "('a \<Rightarrow> 's \<Rightarrow> 's option) \<Rightarrow> 'a list \<Rightarrow> 's \<Rightarrow> 's option" where
  "fold_opt f [] s = Some s"
| "fold_opt f (x # xs) s = Option.bind (f x s) (fold_opt f xs)"

lemma fold_opt_cong [fundef_cong]:
  "xs = ys \<Longrightarrow> s = t \<Longrightarrow> (\<And>x s. x \<in> set ys \<Longrightarrow> f x s = g x s) \<Longrightarrow> fold_opt f xs s = fold_opt g ys t"
proof (induction xs arbitrary: ys s t)
  case (Cons x xs)
  then have "fold_opt f xs = fold_opt g xs" by (intro ext) auto
  with Cons show ?case by auto
qed auto

lemma fold_opt_append [simp]: "fold_opt f (xs @ ys) s = Option.bind (fold_opt f xs s) (fold_opt f ys)"
proof (induction xs arbitrary: s)
  case (Cons x xs)
  then show ?case by (cases "f x s") simp_all
qed simp

section \<open>Ownership by instance path\<close>

record slice_group =
  gr_id :: string
  gr_owned_paths :: "string list"

fun split_dots :: "string \<Rightarrow> string list" where
  "split_dots [] = [[]]"
| "split_dots (c # cs) = (if c = CHR ''.'' then [] # split_dots cs
     else (case split_dots cs of [] \<Rightarrow> [[c]] | w # ws \<Rightarrow> (c # w) # ws))"

fun component_prefix :: "string list \<Rightarrow> string list \<Rightarrow> bool" where
  "component_prefix [] hs = True"
| "component_prefix (w # ws) [] = False"
| "component_prefix (w # ws) (h # hs) = (h = w \<and> component_prefix ws hs)"

definition is_instance_path_prefix :: "string \<Rightarrow> string \<Rightarrow> bool" where
  "is_instance_path_prefix pre path = component_prefix (split_dots pre) (split_dots path)"

definition better_owner :: "string \<Rightarrow> nat \<times> string \<Rightarrow> (nat \<times> nat) option \<Rightarrow> (nat \<times> nat) option" where
  "better_owner path = (\<lambda>(group, owned) best.
     if is_instance_path_prefix owned path
     then let specificity = length (split_dots owned)
          in (case best of None \<Rightarrow> Some (group, specificity)
              | Some (_, best_specificity) \<Rightarrow> if best_specificity < specificity then Some (group, specificity) else best)
     else best)"

definition instance_path_owner :: "string \<Rightarrow> slice_group list \<Rightarrow> nat option" where
  "instance_path_owner path groups =
     map_option fst (fold (\<lambda>(i, g). fold (\<lambda>owned. better_owner path (i, owned)) (gr_owned_paths g)) (enumerate 0 groups) None)"

definition classify_signal_owners :: "packed_program \<Rightarrow> slice_group list \<Rightarrow> nat option list" where
  "classify_signal_owners p groups = map (\<lambda>sg. instance_path_owner (ps_owner_path sg) groups) (pp_signals p)"

definition classify_memory_owners :: "packed_program \<Rightarrow> slice_group list \<Rightarrow> nat option list" where
  "classify_memory_owners p groups = map (\<lambda>m. instance_path_owner (pm_owner_path m) groups) (pp_memories p)"

section \<open>What an operation reads and produces\<close>

type_synonym masks = "bool list \<times> bool list"

fun op_present :: "packed_op \<Rightarrow> masks \<Rightarrow> bool option" where
  "op_present (Assign d e) present = vec_get (fst present) d"
| "op_present (CaptureReg d e r) present = vec_get (fst present) d"
| "op_present (MemoryWrite m en a x) present = vec_get (snd present) m"

definition mark_signal :: "nat \<Rightarrow> masks \<Rightarrow> masks option" where
  "mark_signal i = (\<lambda>(ss, ms). map_option (\<lambda>ss. (ss, ms)) (vec_set ss i True))"

definition mark_memory :: "nat \<Rightarrow> masks \<Rightarrow> masks option" where
  "mark_memory i = (\<lambda>(ss, ms). map_option (\<lambda>ms. (ss, ms)) (vec_set ms i True))"

fun collect_expr_reads :: "packed_expr \<Rightarrow> masks \<Rightarrow> masks option" where
  "collect_expr_reads (PExpr k ty) reads =
     do { reads \<leftarrow> (case k of PSignal i \<Rightarrow> mark_signal i reads | PMemRead m a \<Rightarrow> mark_memory m reads | _ \<Rightarrow> Some reads);
          fold_opt collect_expr_reads (kind_operands k) reads }"

fun collect_op_reads :: "packed_op \<Rightarrow> masks \<Rightarrow> masks option" where
  "collect_op_reads (Assign d e) reads = collect_expr_reads e reads"
| "collect_op_reads (CaptureReg d e r) reads =
     do { reads \<leftarrow> collect_expr_reads e reads;
          case r of None \<Rightarrow> Some reads | Some rst \<Rightarrow> mark_signal (pr_signal rst) reads }"
| "collect_op_reads (MemoryWrite m en a x) reads =
     do { reads \<leftarrow> collect_expr_reads en reads; reads \<leftarrow> collect_expr_reads a reads; collect_expr_reads x reads }"

definition all_ops :: "packed_program \<Rightarrow> packed_op list" where
  "all_ops p = (let st = pp_streams p
     in concat (st_async_reset_comb st @ st_comb st @ st_tick_next st @ st_tick_commit st))"

section \<open>The cone of influence\<close>

definition cone_op :: "packed_op \<Rightarrow> masks \<Rightarrow> masks option" where
  "cone_op x cone = do { here \<leftarrow> op_present x cone; if here then collect_op_reads x cone else Some cone }"

definition cone_size :: "masks \<Rightarrow> nat" where
  "cone_size = (\<lambda>(ss, ms). length (filter (\<lambda>b. b) ss) + length (filter (\<lambda>b. b) ms))"

fun cone_loop :: "nat \<Rightarrow> packed_program \<Rightarrow> masks \<Rightarrow> masks option" where
  "cone_loop 0 p cone = None"
| "cone_loop (Suc n) p cone =
     do { cone' \<leftarrow> fold_opt cone_op (all_ops p) cone;
          if cone_size cone' = cone_size cone then Some cone' else cone_loop n p cone' }"

definition observe :: "nat list \<Rightarrow> bool list \<Rightarrow> bool list" where
  "observe = fold (\<lambda>i bs. if i < length bs then bs[i := True] else bs)"

definition cone_of_influence :: "packed_program \<Rightarrow> nat list \<Rightarrow> nat list \<Rightarrow> masks option" where
  "cone_of_influence p observed_signals observed_memories =
     cone_loop (Suc (length (pp_signals p) + length (pp_memories p))) p
       (observe observed_signals (replicate (length (pp_signals p)) False),
        observe observed_memories (replicate (length (pp_memories p)) False))"

section \<open>Renumbering\<close>

record packed_slice =
  sl_program :: packed_program
  sl_signal_origin :: "nat list"
  sl_memory_origin :: "nat list"
  sl_boundary_inputs :: "nat list"

definition slice_error :: "string \<Rightarrow> error_report" where
  "slice_error m = [new_diag ''E_SIM_IR_SLICE'' m]"

definition remap_index :: "string \<Rightarrow> nat \<Rightarrow> nat option list \<Rightarrow> nat tried" where
  "remap_index message old indices =
     do { m \<leftarrow> vec_get indices old; Some (case m of None \<Rightarrow> Inl (slice_error message) | Some i \<Rightarrow> Inr i) }"

definition remap_signal :: "nat \<Rightarrow> nat option list \<Rightarrow> nat tried" where
  "remap_signal old = remap_index (''unmapped signal index '' @ show_nat old @ '' in slice'') old"

text \<open>A node with its operands replaced, in their order.\<close>

definition rebuild :: "'a packed_kind \<Rightarrow> 'b list \<Rightarrow> 'b packed_kind" where
  "rebuild k vs = (case k of
       PLit ls \<Rightarrow> PLit ls
     | PSignal i \<Rightarrow> PSignal i
     | PNot _ \<Rightarrow> PNot (vs ! 0)
     | PZext _ \<Rightarrow> PZext (vs ! 0)
     | PSext _ \<Rightarrow> PSext (vs ! 0)
     | PTrunc _ \<Rightarrow> PTrunc (vs ! 0)
     | PCast _ \<Rightarrow> PCast (vs ! 0)
     | PSlice _ lsb \<Rightarrow> PSlice (vs ! 0) lsb
     | PAnd _ _ \<Rightarrow> PAnd (vs ! 0) (vs ! 1)
     | POr _ _ \<Rightarrow> POr (vs ! 0) (vs ! 1)
     | PXor _ _ \<Rightarrow> PXor (vs ! 0) (vs ! 1)
     | PAdd _ _ \<Rightarrow> PAdd (vs ! 0) (vs ! 1)
     | PSub _ _ \<Rightarrow> PSub (vs ! 0) (vs ! 1)
     | PMul _ _ \<Rightarrow> PMul (vs ! 0) (vs ! 1)
     | PEq _ _ \<Rightarrow> PEq (vs ! 0) (vs ! 1)
     | PNe _ _ \<Rightarrow> PNe (vs ! 0) (vs ! 1)
     | PLt _ _ signd \<Rightarrow> PLt (vs ! 0) (vs ! 1) signd
     | PMux _ _ _ \<Rightarrow> PMux (vs ! 0) (vs ! 1) (vs ! 2)
     | PConcat _ \<Rightarrow> PConcat vs
     | PMemRead m _ \<Rightarrow> PMemRead m (vs ! 0))"

fun remap_expr :: "nat option list \<Rightarrow> nat option list \<Rightarrow> packed_expr \<Rightarrow> packed_expr tried" where
  "remap_expr signal_map memory_map (PExpr k ty) =
     try_bind (case k of
         PSignal i \<Rightarrow> try_bind (remap_signal i signal_map) (\<lambda>i. Some (Inr (PSignal i)))
       | PMemRead m a \<Rightarrow> try_bind (remap_index ''cross-group memory read cannot be exposed as input'' m memory_map)
           (\<lambda>m. Some (Inr (PMemRead m a)))
       | _ \<Rightarrow> Some (Inr k)) (\<lambda>k'.
     try_bind (try_map (remap_expr signal_map memory_map) (kind_operands k)) (\<lambda>vs.
     Some (Inr (PExpr (rebuild k' vs) ty))))"

fun remap_reset :: "nat option list \<Rightarrow> packed_reset option \<Rightarrow> packed_reset option tried" where
  "remap_reset signal_map None = Some (Inr None)"
| "remap_reset signal_map (Some r) =
     try_bind (remap_signal (pr_signal r) signal_map) (\<lambda>i. Some (Inr (Some (r\<lparr>pr_signal := i\<rparr>))))"

fun remap_op :: "nat option list \<Rightarrow> nat option list \<Rightarrow> packed_op \<Rightarrow> packed_op tried" where
  "remap_op signal_map memory_map (Assign d e) =
     try_bind (remap_signal d signal_map) (\<lambda>d.
     try_bind (remap_expr signal_map memory_map e) (\<lambda>e. Some (Inr (Assign d e))))"
| "remap_op signal_map memory_map (CaptureReg d e r) =
     try_bind (remap_signal d signal_map) (\<lambda>d.
     try_bind (remap_expr signal_map memory_map e) (\<lambda>e.
     try_bind (remap_reset signal_map r) (\<lambda>r. Some (Inr (CaptureReg d e r)))))"
| "remap_op signal_map memory_map (MemoryWrite m en a x) =
     try_bind (remap_index ''memory write to unowned memory in slice'' m memory_map) (\<lambda>m.
     try_bind (remap_expr signal_map memory_map en) (\<lambda>en.
     try_bind (remap_expr signal_map memory_map a) (\<lambda>a.
     try_bind (remap_expr signal_map memory_map x) (\<lambda>x. Some (Inr (MemoryWrite m en a x))))))"

text \<open>The operations of a packet that the group emits.\<close>

fun slice_ops :: "masks \<Rightarrow> nat option list \<Rightarrow> nat option list \<Rightarrow> packed_op list \<Rightarrow> packed_op list tried" where
  "slice_ops present signal_map memory_map [] = Some (Inr [])"
| "slice_ops present signal_map memory_map (x # xs) =
     do { here \<leftarrow> op_present x present;
          if here
          then try_bind (remap_op signal_map memory_map x) (\<lambda>y.
               try_bind (slice_ops present signal_map memory_map xs) (\<lambda>ys. Some (Inr (y # ys))))
          else slice_ops present signal_map memory_map xs }"

definition slice_stream :: "masks \<Rightarrow> nat option list \<Rightarrow> nat option list \<Rightarrow> packed_packet list \<Rightarrow> packed_packet list tried" where
  "slice_stream present signal_map memory_map ps =
     try_bind (try_map (slice_ops present signal_map memory_map) ps) (\<lambda>qs. Some (Inr (filter (\<lambda>ops. ops \<noteq> []) qs)))"

section \<open>The slice\<close>

record signal_space =
  sx_map :: "nat option list"
  sx_signals :: "packed_signal list"
  sx_origin :: "nat list"
  sx_boundary :: "nat list"
  sx_offset :: nat

definition place_signal :: "bool list \<Rightarrow> bool list \<Rightarrow> nat \<times> packed_signal \<Rightarrow> signal_space \<Rightarrow> signal_space option" where
  "place_signal present read_signals = (\<lambda>(old, sg) s.
     do { here \<leftarrow> vec_get present old;
          used \<leftarrow> vec_get read_signals old;
          if \<not> here \<and> \<not> used then Some s
          else let new = length (sx_signals s);
                   sliced = sg\<lparr>ps_layout := (ps_layout sg)\<lparr>pl_offset := sx_offset s\<rparr>,
                               ps_kind := (if here then ps_kind sg else PkInput)\<rparr>
               in Some \<lparr>sx_map = (sx_map s)[old := Some new], sx_signals = sx_signals s @ [sliced],
                        sx_origin = sx_origin s @ [old],
                        sx_boundary = (if here then sx_boundary s else sx_boundary s @ [new]),
                        sx_offset = sx_offset s + pl_limbs (ps_layout sliced)\<rparr> })"

record memory_space =
  mx_map :: "nat option list"
  mx_memories :: "packed_memory list"
  mx_origin :: "nat list"
  mx_offset :: nat

definition place_memory :: "bool list \<Rightarrow> nat \<times> packed_memory \<Rightarrow> memory_space \<Rightarrow> memory_space option" where
  "place_memory present = (\<lambda>(old, m) s.
     do { here \<leftarrow> vec_get present old;
          if \<not> here then Some s
          else Some \<lparr>mx_map = (mx_map s)[old := Some (length (mx_memories s))],
                     mx_memories = mx_memories s @ [m\<lparr>pm_offset := mx_offset s\<rparr>],
                     mx_origin = mx_origin s @ [old],
                     mx_offset = mx_offset s + pm_depth m * pl_limbs (pm_data_layout m)\<rparr> })"

definition read_by_op :: "masks \<Rightarrow> packed_op \<Rightarrow> masks \<Rightarrow> masks option" where
  "read_by_op present x reads = do { here \<leftarrow> op_present x present; if here then collect_op_reads x reads else Some reads }"

fun memories_held :: "packed_program \<Rightarrow> bool list \<Rightarrow> (nat \<times> bool) list \<Rightarrow> unit tried" where
  "memories_held p present [] = Some (Inr ())"
| "memories_held p present ((m, used) # rest) =
     (if used
      then do { here \<leftarrow> vec_get present m;
                if here then memories_held p present rest
                else do { pm \<leftarrow> vec_get (pp_memories p) m;
                          Some (Inl (slice_error (''group reads memory `'' @ pm_name pm @ ''` it does not hold''))) } }
      else memories_held p present rest)"

definition top_handles :: "packed_signal list \<Rightarrow> signal \<rightharpoonup> nat" where
  "top_handles sgs = fold (\<lambda>(new, sg) m. case ps_source sg of None \<Rightarrow> m | Some h \<Rightarrow> m(h \<mapsto> new)) (enumerate 0 sgs) Map.empty"

definition slice_present :: "packed_program \<Rightarrow> masks \<Rightarrow> packed_slice tried" where
  "slice_present p present =
     do { reads \<leftarrow> fold_opt (read_by_op present) (all_ops p)
            (replicate (length (pp_signals p)) False, replicate (length (pp_memories p)) False);
          try_bind (memories_held p (snd present) (enumerate 0 (snd reads))) (\<lambda>_.
     do { sx \<leftarrow> fold_opt (place_signal (fst present) (fst reads)) (enumerate 0 (pp_signals p))
            \<lparr>sx_map = replicate (length (pp_signals p)) None, sx_signals = [], sx_origin = [], sx_boundary = [], sx_offset = 0\<rparr>;
          mx \<leftarrow> fold_opt (place_memory (snd present)) (enumerate 0 (pp_memories p))
            \<lparr>mx_map = replicate (length (pp_memories p)) None, mx_memories = [], mx_origin = [], mx_offset = 0\<rparr>;
          let slice = slice_stream present (sx_map sx) (mx_map mx); st = pp_streams p
          in try_bind (slice (st_async_reset_comb st)) (\<lambda>async.
             try_bind (slice (st_comb st)) (\<lambda>comb.
             try_bind (slice (st_tick_next st)) (\<lambda>next.
             try_bind (slice (st_tick_commit st)) (\<lambda>commit.
               Some (Inr \<lparr>sl_program = \<lparr>pp_top = pp_top p, pp_signals = sx_signals sx, pp_memories = mx_memories mx,
                   pp_streams = \<lparr>st_async_reset_comb = async, st_comb = comb, st_tick_next = next, st_tick_commit = commit\<rparr>,
                   pp_top_signal_indices = top_handles (sx_signals sx), pp_total_signal_words = sx_offset sx,
                   pp_total_memory_words_per_lane = mx_offset mx, pp_reg_clocks = Map.empty, pp_mem_clocks = Map.empty\<rparr>,
                 sl_signal_origin = sx_origin sx, sl_memory_origin = mx_origin mx, sl_boundary_inputs = sx_boundary sx\<rparr>))))) }) }"

text \<open>One slice per group, by ownership.\<close>

definition slice_packed_program :: "packed_program \<Rightarrow> slice_group list \<Rightarrow> packed_slice list tried" where
  "slice_packed_program p groups =
     try_map (\<lambda>g. slice_present p (map (\<lambda>owner. owner = Some g) (classify_signal_owners p groups),
                                   map (\<lambda>owner. owner = Some g) (classify_memory_owners p groups)))
       [0..<length groups]"

end
