(* ===== verification/Packed_Cone.thy ===== *)
theory Packed_Cone
  imports Packed_Slice
begin

text \<open>
  The cone of influence: what an operation reads, as a set, and the loop that closes the observed
  signals and memories under it.
\<close>

section \<open>Items\<close>

text \<open>An item is a signal or a memory, by its index.\<close>

type_synonym item = "nat + nat"

definition marks :: "masks \<Rightarrow> item set" where
  "marks = (\<lambda>(ss, ms). Inl ` {i. i < length ss \<and> ss ! i} \<union> Inr ` {i. i < length ms \<and> ms ! i})"

definition masks_ok :: "packed_program \<Rightarrow> masks \<Rightarrow> bool" where
  "masks_ok p = (\<lambda>(ss, ms). length ss = length (pp_signals p) \<and> length ms = length (pp_memories p))"

fun pe_reads :: "packed_expr \<Rightarrow> item set" where
  "pe_reads (PExpr k ty) = (case k of PSignal i \<Rightarrow> {Inl i} | PMemRead m a \<Rightarrow> {Inr m} | _ \<Rightarrow> {})
     \<union> \<Union> (set (map pe_reads (kind_operands k)))"

fun op_reads :: "packed_op \<Rightarrow> item set" where
  "op_reads (Assign d e) = pe_reads e"
| "op_reads (CaptureReg d e r) = pe_reads e \<union> (case r of None \<Rightarrow> {} | Some rst \<Rightarrow> {Inl (pr_signal rst)})"
| "op_reads (MemoryWrite m en a x) = pe_reads en \<union> pe_reads a \<union> pe_reads x"

fun op_item :: "packed_op \<Rightarrow> item" where
  "op_item (Assign d e) = Inl d"
| "op_item (CaptureReg d e r) = Inl d"
| "op_item (MemoryWrite m en a x) = Inr m"

lemma marks_signal [simp]: "Inl i \<in> marks c \<longleftrightarrow> i < length (fst c) \<and> fst c ! i"
  by (auto simp: marks_def split: prod.split)

lemma marks_memory [simp]: "Inr i \<in> marks c \<longleftrightarrow> i < length (snd c) \<and> snd c ! i"
  by (auto simp: marks_def split: prod.split)

lemma marks_eqI:
  assumes "\<And>i. Inl i \<in> marks c \<longleftrightarrow> Inl i \<in> X" "\<And>i. Inr i \<in> marks c \<longleftrightarrow> Inr i \<in> X"
  shows "marks c = X"
proof (rule set_eqI)
  fix x show "x \<in> marks c \<longleftrightarrow> x \<in> X" using assms by (cases x) blast+
qed

lemma mark_signal_ok:
  assumes "masks_ok p c" "i < length (pp_signals p)"
  shows "\<exists>c'. mark_signal i c = Some c' \<and> masks_ok p c' \<and> marks c' = insert (Inl i) (marks c)"
proof -
  obtain ss ms where c: "c = (ss, ms)" by (cases c)
  have "marks (ss[i := True], ms) = insert (Inl i) (marks (ss, ms))"
    using assms c by (intro marks_eqI) (auto simp: masks_ok_def nth_list_update)
  with assms c show ?thesis by (simp add: mark_signal_def vec_set_def masks_ok_def)
qed

lemma mark_memory_ok:
  assumes "masks_ok p c" "i < length (pp_memories p)"
  shows "\<exists>c'. mark_memory i c = Some c' \<and> masks_ok p c' \<and> marks c' = insert (Inr i) (marks c)"
proof -
  obtain ss ms where c: "c = (ss, ms)" by (cases c)
  have "marks (ss, ms[i := True]) = insert (Inr i) (marks (ss, ms))"
    using assms c by (intro marks_eqI) (auto simp: masks_ok_def nth_list_update)
  with assms c show ?thesis by (simp add: mark_memory_def vec_set_def masks_ok_def)
qed

section \<open>Collecting reads\<close>

text \<open>\<open>collects p r D c\<close>: the result \<open>r\<close> marks the items of \<open>D\<close> beside those of \<open>c\<close>.\<close>

definition collects :: "packed_program \<Rightarrow> masks option \<Rightarrow> item set \<Rightarrow> masks \<Rightarrow> bool" where
  "collects p r D c \<longleftrightarrow> (\<exists>c'. r = Some c' \<and> masks_ok p c' \<and> marks c' = marks c \<union> D)"

lemma collects_none: "masks_ok p c \<Longrightarrow> collects p (Some c) {} c"
  by (simp add: collects_def)

lemma collects_bind:
  assumes "collects p r D c" "\<And>c'. masks_ok p c' \<Longrightarrow> collects p (f c') D' c'"
  shows "collects p (Option.bind r f) (D \<union> D') c"
proof -
  obtain c' where c': "r = Some c'" "masks_ok p c'" "marks c' = marks c \<union> D" using assms(1) by (auto simp: collects_def)
  with assms(2) [OF c'(2)] show ?thesis by (auto simp: collects_def)
qed

lemma collects_fold:
  assumes "\<And>x c. x \<in> set xs \<Longrightarrow> masks_ok p c \<Longrightarrow> collects p (f x c) (D x) c" "masks_ok p c"
  shows "collects p (fold_opt f xs c) (\<Union> (D ` set xs)) c"
  using assms
proof (induction xs arbitrary: c)
  case (Cons x xs)
  have "collects p (Option.bind (f x c) (fold_opt f xs)) (D x \<union> \<Union> (D ` set xs)) c"
    by (rule collects_bind) (use Cons in auto)
  then show ?case by simp
qed (simp add: collects_none)

lemma collect_expr_reads_ok:
  "expr_ok p e \<Longrightarrow> masks_ok p c \<Longrightarrow> collects p (collect_expr_reads e c) (pe_reads e) c"
proof (induction e arbitrary: c)
  case (PExpr k ty)
  let ?own = "case k of PSignal i \<Rightarrow> {Inl i} | PMemRead m a \<Rightarrow> {Inr m} | _ \<Rightarrow> {}"
  let ?mark = "case k of PSignal i \<Rightarrow> mark_signal i c | PMemRead m a \<Rightarrow> mark_memory m c | _ \<Rightarrow> Some c"
  have "collects p ?mark ?own c"
    using PExpr.prems mark_signal_ok [OF PExpr.prems(2)] mark_memory_ok [OF PExpr.prems(2)]
    by (cases k) (auto simp: collects_def)
  moreover have "collects p (fold_opt collect_expr_reads (kind_operands k) c') (\<Union> (pe_reads ` set (kind_operands k))) c'"
    if "masks_ok p c'" for c'
    by (rule collects_fold) (use PExpr.IH PExpr.prems(1) that in auto)
  ultimately have "collects p (Option.bind ?mark (fold_opt collect_expr_reads (kind_operands k)))
      (?own \<union> \<Union> (pe_reads ` set (kind_operands k))) c" by (rule collects_bind)
  then show ?case by simp
qed

lemma collect_op_reads_ok:
  assumes "op_ok p x" "masks_ok p c"
  shows "collects p (collect_op_reads x c) (op_reads x) c"
proof (cases x)
  case (Assign d e)
  with assms show ?thesis by (simp add: collect_expr_reads_ok)
next
  case (CaptureReg d e r)
  have "collects p (case r of None \<Rightarrow> Some c' | Some rst \<Rightarrow> mark_signal (pr_signal rst) c')
      (case r of None \<Rightarrow> {} | Some rst \<Rightarrow> {Inl (pr_signal rst)}) c'" if "masks_ok p c'" for c'
  proof (cases r)
    case None
    with that show ?thesis by (simp add: collects_none)
  next
    case (Some rst)
    with assms(1) CaptureReg mark_signal_ok [OF that, of "pr_signal rst"] show ?thesis by (auto simp: collects_def)
  qed
  with assms CaptureReg show ?thesis by (auto intro!: collects_bind collect_expr_reads_ok)
next
  case (MemoryWrite m en a v)
  with assms show ?thesis unfolding MemoryWrite collect_op_reads.simps op_reads.simps Un_assoc
    by (intro collects_bind collect_expr_reads_ok) auto
qed

lemma op_present_ok: "op_ok p x \<Longrightarrow> masks_ok p c \<Longrightarrow> op_present x c = Some (op_item x \<in> marks c)"
  by (cases x) (auto simp: masks_ok_def)

lemma all_ops_ok: "streams_ok p \<Longrightarrow> x \<in> set (all_ops p) \<Longrightarrow> op_ok p x"
  unfolding streams_ok_def stream_ok_def all_ops_def Let_def by auto

section \<open>The loop\<close>

lemma cone_op_ok:
  "op_ok p x \<Longrightarrow> masks_ok p c \<Longrightarrow> collects p (cone_op x c) (if op_item x \<in> marks c then op_reads x else {}) c"
  by (simp add: cone_op_def op_present_ok collect_op_reads_ok collects_none)

lemma cone_pass_ok:
  assumes "\<forall>x \<in> set xs. op_ok p x" "masks_ok p c"
  shows "\<exists>c'. fold_opt cone_op xs c = Some c' \<and> masks_ok p c' \<and> marks c \<subseteq> marks c'
    \<and> (marks c' = marks c \<longrightarrow> (\<forall>x \<in> set xs. op_item x \<in> marks c \<longrightarrow> op_reads x \<subseteq> marks c))"
  using assms
proof (induction xs arbitrary: c)
  case (Cons x xs)
  obtain c1 where c1: "cone_op x c = Some c1" "masks_ok p c1" "marks c1 = marks c \<union> (if op_item x \<in> marks c then op_reads x else {})"
    using cone_op_ok [of p x c] Cons.prems by (auto simp: collects_def)
  obtain c' where c': "fold_opt cone_op xs c1 = Some c'" "masks_ok p c'" "marks c1 \<subseteq> marks c'"
    "marks c' = marks c1 \<longrightarrow> (\<forall>x \<in> set xs. op_item x \<in> marks c1 \<longrightarrow> op_reads x \<subseteq> marks c1)"
    using Cons.IH [OF _ c1(2)] Cons.prems(1) by auto
  have "marks c1 = marks c \<and> (\<forall>x \<in> set xs. op_item x \<in> marks c \<longrightarrow> op_reads x \<subseteq> marks c)" if "marks c' = marks c"
    using that c1(3) c'(3,4) by auto
  moreover have "op_reads x \<subseteq> marks c" if "marks c1 = marks c" "op_item x \<in> marks c" using that c1(3) by auto
  moreover have "marks c \<subseteq> marks c1" using c1(3) by auto
  ultimately show ?case using c1(1) c'(1-3) by (intro exI [of _ c']) auto
qed simp

lemma cone_size_marks: "cone_size c = card (marks c)"
proof -
  obtain ss ms where c: "c = (ss, ms)" by (cases c)
  have "marks c = Inl ` {i. i < length ss \<and> ss ! i} \<union> Inr ` {i. i < length ms \<and> ms ! i}" by (simp add: c marks_def)
  also have "card \<dots> = card (Inl ` {i. i < length ss \<and> ss ! i} :: item set) + card (Inr ` {i. i < length ms \<and> ms ! i} :: item set)"
    by (rule card_Un_disjoint) auto
  also have "\<dots> = card {i. i < length ss \<and> ss ! i} + card {i. i < length ms \<and> ms ! i}"
    by (simp add: card_image)
  finally show ?thesis by (simp add: c cone_size_def length_filter_conv_card)
qed

definition closed_under_reads :: "packed_program \<Rightarrow> item set \<Rightarrow> bool" where
  "closed_under_reads p D \<longleftrightarrow> (\<forall>x \<in> set (all_ops p). op_item x \<in> D \<longrightarrow> op_reads x \<subseteq> D)"

lemma cone_pass_least:
  assumes "\<forall>x \<in> set xs. op_ok p x" "masks_ok p c" "\<forall>x \<in> set xs. op_item x \<in> D \<longrightarrow> op_reads x \<subseteq> D" "marks c \<subseteq> D"
    and "fold_opt cone_op xs c = Some c'"
  shows "marks c' \<subseteq> D"
  using assms
proof (induction xs arbitrary: c)
  case (Cons x xs)
  obtain c1 where c1: "cone_op x c = Some c1" "masks_ok p c1" "marks c1 = marks c \<union> (if op_item x \<in> marks c then op_reads x else {})"
    using cone_op_ok [of p x c] Cons.prems(1,2) by (auto simp: collects_def)
  then have "marks c1 \<subseteq> D" using Cons.prems(3,4) by (auto split: if_splits)
  moreover have "fold_opt cone_op xs c1 = Some c'" using Cons.prems(5) c1(1) by simp
  ultimately show ?case using Cons.IH [OF _ c1(2)] Cons.prems(1,3) by simp
qed simp

lemma cone_size_bound: "masks_ok p c \<Longrightarrow> cone_size c \<le> length (pp_signals p) + length (pp_memories p)"
  by (auto simp: cone_size_def masks_ok_def split: prod.splits intro!: add_mono length_filter_le [THEN le_trans])

lemma finite_marks [simp]: "finite (marks c)"
  by (auto simp: marks_def split: prod.split)

lemma cone_loop_ok:
  assumes "streams_ok p" "masks_ok p c" "length (pp_signals p) + length (pp_memories p) < n + cone_size c"
  shows "\<exists>c'. cone_loop n p c = Some c' \<and> masks_ok p c' \<and> marks c \<subseteq> marks c' \<and> closed_under_reads p (marks c')
    \<and> (\<forall>D. closed_under_reads p D \<longrightarrow> marks c \<subseteq> D \<longrightarrow> marks c' \<subseteq> D)"
  using assms(2,3)
proof (induction n arbitrary: c)
  case 0
  then show ?case using cone_size_bound by (metis add_0 not_less)
next
  case (Suc n)
  have ops: "\<forall>x \<in> set (all_ops p). op_ok p x" using all_ops_ok [OF assms(1)] by blast
  obtain c1 where c1: "fold_opt cone_op (all_ops p) c = Some c1" "masks_ok p c1" "marks c \<subseteq> marks c1"
    "marks c1 = marks c \<longrightarrow> closed_under_reads p (marks c)"
    using cone_pass_ok [OF ops Suc.prems(1)] unfolding closed_under_reads_def by blast
  have least: "\<And>D. closed_under_reads p D \<Longrightarrow> marks c \<subseteq> D \<Longrightarrow> marks c1 \<subseteq> D"
    using cone_pass_least [OF ops Suc.prems(1) _ _ c1(1)] unfolding closed_under_reads_def by blast
  show ?case
  proof (cases "cone_size c1 = cone_size c")
    case True
    then have "marks c1 = marks c" using card_subset_eq [OF finite_marks c1(3)] by (simp add: cone_size_marks)
    with True c1 show ?thesis by auto
  next
    case False
    then have "cone_size c < cone_size c1" using card_mono [OF finite_marks c1(3)] by (simp add: cone_size_marks)
    then have "length (pp_signals p) + length (pp_memories p) < n + cone_size c1" using Suc.prems(2) by simp
    from Suc.IH [OF c1(2) this] obtain c' where c': "cone_loop n p c1 = Some c'" "masks_ok p c'" "marks c1 \<subseteq> marks c'"
      "closed_under_reads p (marks c')" "\<forall>D. closed_under_reads p D \<longrightarrow> marks c1 \<subseteq> D \<longrightarrow> marks c' \<subseteq> D" by blast
    with False c1(1,3) least show ?thesis by auto
  qed
qed

lemma observe_ok: "length (observe is bs) = length bs \<and> (\<forall>i < length bs. observe is bs ! i \<longleftrightarrow> bs ! i \<or> i \<in> set is)"
proof (induction "is" arbitrary: bs)
  case (Cons a "is")
  have "observe (a # is) bs = observe is (if a < length bs then bs[a := True] else bs)" by (simp add: observe_def)
  with Cons.IH [of "if a < length bs then bs[a := True] else bs"] show ?case by (auto simp: nth_list_update)
qed (simp add: observe_def)

definition observed_items :: "packed_program \<Rightarrow> nat list \<Rightarrow> nat list \<Rightarrow> item set" where
  "observed_items p os oms = {Inl i |i. i \<in> set os \<and> i < length (pp_signals p)} \<union> {Inr m |m. m \<in> set oms \<and> m < length (pp_memories p)}"

lemma cone_of_influence_ok:
  assumes "streams_ok p"
  shows "\<exists>c. cone_of_influence p os oms = Some c \<and> masks_ok p c \<and> observed_items p os oms \<subseteq> marks c
    \<and> closed_under_reads p (marks c) \<and> (\<forall>D. closed_under_reads p D \<longrightarrow> observed_items p os oms \<subseteq> D \<longrightarrow> marks c \<subseteq> D)"
proof -
  let ?c = "(observe os (replicate (length (pp_signals p)) False), observe oms (replicate (length (pp_memories p)) False))"
  have "masks_ok p ?c" using observe_ok by (simp add: masks_ok_def)
  moreover have "marks ?c = observed_items p os oms"
    using observe_ok [of os "replicate (length (pp_signals p)) False"] observe_ok [of oms "replicate (length (pp_memories p)) False"]
    by (intro marks_eqI) (auto simp: observed_items_def)
  ultimately show ?thesis unfolding cone_of_influence_def
    using cone_loop_ok [OF assms, of ?c "Suc (length (pp_signals p) + length (pp_memories p))"] by auto
qed

end
