(* ===== verification/Packed_Renumber.thy ===== *)
theory Packed_Renumber
  imports Packed_Cone Packed_Layout
begin

text \<open>
  Renumbered operations compute what the original ones compute, in states that agree on the items
  they read.
\<close>

section \<open>Index maps\<close>

text \<open>A map from old to new indices with its inverse, the list of origins.\<close>

definition index_map :: "nat \<Rightarrow> nat option list \<Rightarrow> nat list \<Rightarrow> bool" where
  "index_map n m origin \<longleftrightarrow> length m = n \<and> set origin \<subseteq> {..<n} \<and> distinct origin
     \<and> (\<forall>i < n. \<forall>j. m ! i = Some j \<longleftrightarrow> j < length origin \<and> origin ! j = i)"

lemma index_map_new:
  assumes "index_map n m origin" "i < n" "m ! i = None"
  shows "index_map n (m[i := Some (length origin)]) (origin @ [i])"
proof -
  have "i \<notin> set origin"
  proof
    assume "i \<in> set origin"
    then obtain j where "j < length origin" "origin ! j = i" by (auto simp: in_set_conv_nth)
    then have "m ! i = Some j" using assms(1,2) unfolding index_map_def by blast
    with assms(3) show False by simp
  qed
  with assms show ?thesis
    by (auto simp: index_map_def nth_list_update nth_append less_Suc_eq)
qed

lemma remap_index_Inr:
  "remap_index msg old m = Some (Inr j) \<longleftrightarrow> old < length m \<and> m ! old = Some j"
  by (auto simp: remap_index_def bind_eq_Some vec_get_Some_iff split: option.splits)

lemma remap_index_origin:
  assumes "index_map n m origin" "remap_index msg old m = Some (Inr j)"
  shows "old < n \<and> j < length origin \<and> origin ! j = old"
  using assms by (auto simp: remap_index_Inr index_map_def)

lemma remap_index_succeeds:
  assumes "index_map n m origin" "old \<in> set origin"
  shows "\<exists>j. remap_index msg old m = Some (Inr j)"
proof -
  obtain j where j: "j < length origin" "origin ! j = old" using assms(2) by (auto simp: in_set_conv_nth)
  moreover have "old < n" using assms by (auto simp: index_map_def)
  ultimately have "m ! old = Some j" "old < length m" using assms(1) by (auto simp: index_map_def)
  then show ?thesis by (auto simp: remap_index_Inr)
qed

section \<open>Expressions\<close>

lemma list_all2_lengths:
  "list_all2 R [] ys \<longleftrightarrow> ys = []"
  "list_all2 R [a] ys \<longleftrightarrow> (\<exists>x. ys = [x] \<and> R a x)"
  "list_all2 R [a, b] ys \<longleftrightarrow> (\<exists>x y. ys = [x, y] \<and> R a x \<and> R b y)"
  "list_all2 R [a, b, c] ys \<longleftrightarrow> (\<exists>x y z. ys = [x, y, z] \<and> R a x \<and> R b y \<and> R c z)"
  by (auto simp: list_all2_Cons1)

lemma rel_packed_kind_iff:
  "rel_packed_kind R (PLit ls) k \<longleftrightarrow> k = PLit ls"
  "rel_packed_kind R (PSignal i) k \<longleftrightarrow> k = PSignal i"
  "rel_packed_kind R (PNot a) k \<longleftrightarrow> (\<exists>a'. k = PNot a' \<and> R a a')"
  "rel_packed_kind R (PZext a) k \<longleftrightarrow> (\<exists>a'. k = PZext a' \<and> R a a')"
  "rel_packed_kind R (PSext a) k \<longleftrightarrow> (\<exists>a'. k = PSext a' \<and> R a a')"
  "rel_packed_kind R (PTrunc a) k \<longleftrightarrow> (\<exists>a'. k = PTrunc a' \<and> R a a')"
  "rel_packed_kind R (PCast a) k \<longleftrightarrow> (\<exists>a'. k = PCast a' \<and> R a a')"
  "rel_packed_kind R (PSlice a lsb) k \<longleftrightarrow> (\<exists>a'. k = PSlice a' lsb \<and> R a a')"
  "rel_packed_kind R (PAnd a b) k \<longleftrightarrow> (\<exists>a' b'. k = PAnd a' b' \<and> R a a' \<and> R b b')"
  "rel_packed_kind R (POr a b) k \<longleftrightarrow> (\<exists>a' b'. k = POr a' b' \<and> R a a' \<and> R b b')"
  "rel_packed_kind R (PXor a b) k \<longleftrightarrow> (\<exists>a' b'. k = PXor a' b' \<and> R a a' \<and> R b b')"
  "rel_packed_kind R (PAdd a b) k \<longleftrightarrow> (\<exists>a' b'. k = PAdd a' b' \<and> R a a' \<and> R b b')"
  "rel_packed_kind R (PSub a b) k \<longleftrightarrow> (\<exists>a' b'. k = PSub a' b' \<and> R a a' \<and> R b b')"
  "rel_packed_kind R (PMul a b) k \<longleftrightarrow> (\<exists>a' b'. k = PMul a' b' \<and> R a a' \<and> R b b')"
  "rel_packed_kind R (PEq a b) k \<longleftrightarrow> (\<exists>a' b'. k = PEq a' b' \<and> R a a' \<and> R b b')"
  "rel_packed_kind R (PNe a b) k \<longleftrightarrow> (\<exists>a' b'. k = PNe a' b' \<and> R a a' \<and> R b b')"
  "rel_packed_kind R (PLt a b signd) k \<longleftrightarrow> (\<exists>a' b'. k = PLt a' b' signd \<and> R a a' \<and> R b b')"
  "rel_packed_kind R (PMux a b c) k \<longleftrightarrow> (\<exists>a' b' c'. k = PMux a' b' c' \<and> R a a' \<and> R b b' \<and> R c c')"
  "rel_packed_kind R (PConcat as) k \<longleftrightarrow> (\<exists>bs. k = PConcat bs \<and> list_all2 R as bs)"
  "rel_packed_kind R (PMemRead m a) k \<longleftrightarrow> (\<exists>a'. k = PMemRead m a' \<and> R a a')"
  by (cases k; auto)+

text \<open>The node of a renumbered expression, with the results of its operands.\<close>

definition node_renumbered :: "nat option list \<Rightarrow> nat option list \<Rightarrow> ('a \<Rightarrow> 'b \<Rightarrow> bool) \<Rightarrow> 'a packed_kind \<Rightarrow> 'b packed_kind \<Rightarrow> bool" where
  "node_renumbered sm mm R k k' \<longleftrightarrow> (case k of
       PSignal i \<Rightarrow> (\<exists>j. k' = PSignal j \<and> remap_signal i sm = Some (Inr j))
     | PMemRead m a \<Rightarrow> (\<exists>m' a'. k' = PMemRead m' a' \<and> R a a'
         \<and> remap_index ''cross-group memory read cannot be exposed as input'' m mm = Some (Inr m'))
     | _ \<Rightarrow> rel_packed_kind R k k')"

lemma remap_expr_Inr:
  "remap_expr sm mm (PExpr k ty) = Some (Inr e') \<longleftrightarrow>
    (\<exists>k'. e' = PExpr k' ty \<and> node_renumbered sm mm (\<lambda>a b. remap_expr sm mm a = Some (Inr b)) k k')"
  by (cases k) (auto simp: try_bind_Inr try_map_Inr node_renumbered_def list_all2_lengths rel_packed_kind_iff rebuild_def)

text \<open>
  The states of the whole and of the slice agree on a set of items, by the origins of the slice.
\<close>

definition agree :: "nat list \<Rightarrow> nat list \<Rightarrow> item set \<Rightarrow> lane_state \<Rightarrow> lane_state \<Rightarrow> bool" where
  "agree so mo X st st' \<longleftrightarrow> (\<forall>j < length so. Inl (so ! j) \<in> X \<longrightarrow> fst st' j = fst st (so ! j))
     \<and> (\<forall>k < length mo. Inr (mo ! k) \<in> X \<longrightarrow> snd st' k = snd st (mo ! k))"

lemma agree_mono: "agree so mo X st st' \<Longrightarrow> Y \<subseteq> X \<Longrightarrow> agree so mo Y st st'"
  unfolding agree_def by blast

lemma node_value_map:
  assumes "map_packed_kind h' k' = map_packed_kind h k" "\<And>i. k \<noteq> PSignal i" "\<And>m a. k \<noteq> PMemRead m a"
  shows "node_value S' R' (map_packed_kind h' k') = node_value S R (map_packed_kind h k)"
  unfolding assms(1) using assms(2,3) by (cases k) (simp; blast)+

lemma rel_packed_kind_map: "rel_packed_kind (\<lambda>a b. h a = h' b) k k' \<Longrightarrow> map_packed_kind h' k' = map_packed_kind h k"
proof -
  assume "rel_packed_kind (\<lambda>a b. h a = h' b) k k'"
  then have "map_packed_kind h k = map_packed_kind h' k'" by (simp add: packed_kind.rel_map flip: packed_kind.rel_eq)
  then show ?thesis by simp
qed

lemma node_renumbered_mono:
  "node_renumbered sm mm R k k' \<Longrightarrow> (\<And>a b. a \<in> set_packed_kind k \<Longrightarrow> R a b \<Longrightarrow> Q a b) \<Longrightarrow> node_renumbered sm mm Q k k'"
  unfolding node_renumbered_def by (cases k) (auto simp: rel_packed_kind_iff elim!: list.rel_mono_strong)

lemma remap_expr_value:
  assumes maps: "index_map n sm so" "index_map m mm mo" and st: "agree so mo X st st'"
  shows "remap_expr sm mm e = Some (Inr e') \<Longrightarrow> pe_reads e \<subseteq> X \<Longrightarrow> eval_in st' e' = eval_in st e \<and> pe_ty e' = pe_ty e"
proof (induction e arbitrary: e')
  case (PExpr k ty)
  define h where "h = (\<lambda>e. (pe_value (fst st) (snd st) e, pe_width e))"
  define h' where "h' = (\<lambda>e. (pe_value (fst st') (snd st') e, pe_width e))"
  obtain k' where k': "e' = PExpr k' ty" "node_renumbered sm mm (\<lambda>a b. remap_expr sm mm a = Some (Inr b)) k k'"
    using PExpr.prems(1) unfolding remap_expr_Inr by blast
  have reads: "pe_reads a \<subseteq> X" if "a \<in> set_packed_kind k" for a using PExpr.prems(2) that by auto
  have node: "node_renumbered sm mm (\<lambda>a b. h a = h' b) k k'"
    using k'(2) by (rule node_renumbered_mono) (use PExpr.IH reads in \<open>auto simp: h_def h'_def eval_in_def pe_width_def\<close>)
  have "node_value (fst st') (snd st') (map_packed_kind h' k') = node_value (fst st) (snd st) (map_packed_kind h k)"
  proof (cases k)
    case (PSignal i)
    then obtain j where j: "k' = PSignal j" "remap_signal i sm = Some (Inr j)" using node by (auto simp: node_renumbered_def)
    have "j < length so" "so ! j = i" using remap_index_origin [OF maps(1) j(2) [unfolded remap_signal_def]] by simp_all
    moreover have "Inl i \<in> X" using PExpr.prems(2) PSignal by simp
    ultimately show ?thesis using st j(1) PSignal by (auto simp: agree_def)
  next
    case (PMemRead i a)
    then obtain i' a' where i': "k' = PMemRead i' a'" "h a = h' a'"
      "remap_index ''cross-group memory read cannot be exposed as input'' i mm = Some (Inr i')"
      using node by (auto simp: node_renumbered_def)
    have "i' < length mo" "mo ! i' = i" using remap_index_origin [OF maps(2) i'(3)] by simp_all
    moreover have "Inr i \<in> X" using PExpr.prems(2) PMemRead by simp
    ultimately show ?thesis using st i' PMemRead by (auto simp: agree_def)
  qed (use node in \<open>intro node_value_map rel_packed_kind_map; simp add: node_renumbered_def\<close>)+
  then show ?case using k'(1) by (simp add: eval_in_def h_def h'_def)
qed

lemma remap_expr_succeeds:
  assumes maps: "index_map n sm so" "index_map m mm mo"
  shows "pe_reads e \<subseteq> Inl ` set so \<union> Inr ` set mo \<Longrightarrow> \<exists>e'. remap_expr sm mm e = Some (Inr e')"
proof (induction e)
  case (PExpr k ty)
  have "pe_reads a \<subseteq> Inl ` set so \<union> Inr ` set mo" if "a \<in> set_packed_kind k" for a using PExpr.prems that by auto
  then have sub: "\<forall>a \<in> set (kind_operands k). \<exists>b. remap_expr sm mm a = Some (Inr b)" using PExpr.IH by auto
  then obtain f where f: "\<forall>a \<in> set (kind_operands k). remap_expr sm mm a = Some (Inr (f a))" by metis
  have signal: "\<exists>j. remap_signal i sm = Some (Inr j)" if "k = PSignal i" for i
    unfolding remap_signal_def by (rule remap_index_succeeds [OF maps(1)]) (use PExpr.prems that in auto)
  have mem: "\<exists>j. remap_index msg i mm = Some (Inr j)" if "k = PMemRead i a" for i a msg
    by (rule remap_index_succeeds [OF maps(2)]) (use PExpr.prems that in auto)
  show ?case using signal mem try_map_all [OF f] by (cases k) (fastforce simp: try_bind_Inr)+
qed

lemma remap_expr_ok:
  assumes maps: "index_map (length (pp_signals p)) sm so" "index_map (length (pp_memories p)) mm mo"
    and len: "length so = length (pp_signals q)" "length mo = length (pp_memories q)"
  shows "remap_expr sm mm e = Some (Inr e') \<Longrightarrow> expr_ok p e \<Longrightarrow> expr_ok q e'"
proof (induction e arbitrary: e')
  case (PExpr k ty)
  obtain k' where k': "e' = PExpr k' ty" "node_renumbered sm mm (\<lambda>a b. remap_expr sm mm a = Some (Inr b)) k k'"
    using PExpr.prems(1) unfolding remap_expr_Inr by blast
  have node: "node_renumbered sm mm (\<lambda>a b. expr_ok q b) k k'"
    using k'(2) by (rule node_renumbered_mono) (use PExpr.IH PExpr.prems(2) in auto)
  have "set_packed_kind k' \<subseteq> {b. expr_ok q b}"
    using node by (cases k) (auto simp: node_renumbered_def rel_packed_kind_iff list_all2_conv_all_nth in_set_conv_nth)
  moreover have "case k' of PSignal i \<Rightarrow> i < length (pp_signals q) | PMemRead m a \<Rightarrow> m < length (pp_memories q) | _ \<Rightarrow> True"
    using node remap_index_origin [OF maps(1)] remap_index_origin [OF maps(2)] len
    by (cases k) (auto simp: node_renumbered_def rel_packed_kind_iff remap_signal_def)
  moreover have "width_ok (bt_width ty)" using PExpr.prems(2) by simp
  ultimately show ?case unfolding k'(1) expr_ok.simps set_kind_operands by blast
qed

end
