(* ===== verification/Packed_Space.thy ===== *)
theory Packed_Space
  imports Packed_Renumber
begin

text \<open>
  The compact signal and memory spaces of a slice: the origins are the signals that are present
  or read and the memories that are present, in order, with fresh disjoint offsets.
\<close>

section \<open>Signals\<close>

definition placed_as :: "packed_program \<Rightarrow> (nat \<Rightarrow> bool) \<Rightarrow> nat \<Rightarrow> nat \<Rightarrow> packed_signal \<Rightarrow> bool" where
  "placed_as p here bound old sg \<longleftrightarrow> (\<exists>off. ps_layout sg = (ps_layout (pp_signals p ! old))\<lparr>pl_offset := off\<rparr>
     \<and> off + pl_limbs (ps_layout sg) \<le> bound)
     \<and> ps_name sg = ps_name (pp_signals p ! old) \<and> ps_source sg = ps_source (pp_signals p ! old)
     \<and> ps_kind sg = (if here old then ps_kind (pp_signals p ! old) else PkInput)"

lemma placed_as_range: "placed_as p here bound old sg \<Longrightarrow> fst (signal_range sg) + snd (signal_range sg) \<le> bound"
  by (auto simp: placed_as_def signal_range_def)

definition signals_placed :: "packed_program \<Rightarrow> (nat \<Rightarrow> bool) \<Rightarrow> (nat \<Rightarrow> bool) \<Rightarrow> nat \<Rightarrow> signal_space \<Rightarrow> bool" where
  "signals_placed p here keep k s \<longleftrightarrow> index_map (length (pp_signals p)) (sx_map s) (sx_origin s)
     \<and> set (sx_origin s) = {i. i < k \<and> keep i}
     \<and> list_all2 (placed_as p here (sx_offset s)) (sx_origin s) (sx_signals s)
     \<and> disjoint_ranges (map signal_range (sx_signals s))
     \<and> set (sx_boundary s) = {j. j < length (sx_origin s) \<and> \<not> here (sx_origin s ! j)}"

lemma list_all2_snoc: "list_all2 R (xs @ [x]) (ys @ [y]) \<longleftrightarrow> list_all2 R xs ys \<and> R x y"
  by (auto simp: list_all2_conv_all_nth nth_append less_Suc_eq)

lemma place_signal_ok:
  assumes s: "signals_placed p (\<lambda>i. present ! i) (\<lambda>i. present ! i \<or> used ! i) k s" and k: "k < length (pp_signals p)"
    and len: "length present = length (pp_signals p)" "length used = length (pp_signals p)"
  shows "\<exists>s'. place_signal present used (k, pp_signals p ! k) s = Some s'
    \<and> signals_placed p (\<lambda>i. present ! i) (\<lambda>i. present ! i \<or> used ! i) (Suc k) s'"
proof (cases "present ! k \<or> used ! k")
  case False
  then have "{i. i < Suc k \<and> (present ! i \<or> used ! i)} = {i. i < k \<and> (present ! i \<or> used ! i)}" by (auto simp: less_Suc_eq)
  with False s k len show ?thesis by (simp add: place_signal_def signals_placed_def)
next
  case True
  let ?sg = "pp_signals p ! k"
  let ?sliced = "?sg\<lparr>ps_layout := (ps_layout ?sg)\<lparr>pl_offset := sx_offset s\<rparr>, ps_kind := if present ! k then ps_kind ?sg else PkInput\<rparr>"
  let ?s = "\<lparr>sx_map = (sx_map s)[k := Some (length (sx_signals s))], sx_signals = sx_signals s @ [?sliced],
    sx_origin = sx_origin s @ [k], sx_boundary = (if present ! k then sx_boundary s else sx_boundary s @ [length (sx_signals s)]),
    sx_offset = sx_offset s + pl_limbs (ps_layout ?sg)\<rparr>"
  let ?R = "placed_as p (\<lambda>i. present ! i)"
  have old: "index_map (length (pp_signals p)) (sx_map s) (sx_origin s)" "set (sx_origin s) = {i. i < k \<and> (present ! i \<or> used ! i)}"
    "list_all2 (?R (sx_offset s)) (sx_origin s) (sx_signals s)" "disjoint_ranges (map signal_range (sx_signals s))"
    "set (sx_boundary s) = {j. j < length (sx_origin s) \<and> \<not> present ! (sx_origin s ! j)}"
    using s by (simp_all add: signals_placed_def)
  have n: "length (sx_signals s) = length (sx_origin s)" using list_all2_lengthD [OF old(3)] by simp
  have "k \<notin> set (sx_origin s)" using old(2) by simp
  then have none: "sx_map s ! k = None" using old(1) k unfolding index_map_def by (metis nth_mem option.exhaust)
  have map': "index_map (length (pp_signals p)) (sx_map ?s) (sx_origin ?s)"
    using index_map_new [OF old(1) k none] by (simp add: n)
  have rel: "list_all2 (?R (sx_offset ?s)) (sx_origin ?s) (sx_signals ?s)"
  proof -
    have "list_all2 (?R (sx_offset ?s)) (sx_origin s) (sx_signals s)" by (rule list_all2_mono [OF old(3)]) (auto simp: placed_as_def)
    moreover have "?R (sx_offset ?s) k ?sliced" by (auto simp: placed_as_def intro!: exI [of _ "sx_offset s"])
    ultimately show ?thesis by (simp add: list_all2_snoc)
  qed
  have "\<forall>sg \<in> set (sx_signals s). fst (signal_range sg) + snd (signal_range sg) \<le> sx_offset s"
    by (rule list_all2_right [OF old(3)]) (rule placed_as_range)
  then have "\<forall>r \<in> set (map signal_range (sx_signals s)). fst r + snd r \<le> sx_offset s" by simp
  from disjoint_ranges_snoc [OF old(4) this] have ranges: "disjoint_ranges (map signal_range (sx_signals ?s))"
    by (simp add: signal_range_def)
  have org: "set (sx_origin ?s) = {i. i < Suc k \<and> (present ! i \<or> used ! i)}" using old(2) True by (auto simp: less_Suc_eq)
  have bnd: "set (sx_boundary ?s) = {j. j < length (sx_origin ?s) \<and> \<not> present ! (sx_origin ?s ! j)}"
  proof (rule set_eqI)
    fix j
    have "j < length (sx_origin s) \<Longrightarrow> (sx_origin s @ [k]) ! j = sx_origin s ! j" "(sx_origin s @ [k]) ! length (sx_origin s) = k"
      by (simp_all add: nth_append)
    then show "j \<in> set (sx_boundary ?s) \<longleftrightarrow> j \<in> {j. j < length (sx_origin ?s) \<and> \<not> present ! (sx_origin ?s ! j)}"
      using old(5) n by (cases "j < length (sx_origin s)"; cases "j = length (sx_origin s)") auto
  qed
  from map' rel ranges org bnd have "signals_placed p (\<lambda>i. present ! i) (\<lambda>i. present ! i \<or> used ! i) (Suc k) ?s"
    unfolding signals_placed_def by blast
  moreover have "place_signal present used (k, ?sg) s = Some ?s" using True k len by (auto simp: place_signal_def Let_def)
  ultimately show ?thesis by blast
qed

lemma enumerate_take: "enumerate 0 (take k xs) = take k (enumerate 0 xs)"
  by (rule nth_equalityI) (simp_all add: nth_enumerate_eq)

text \<open>A fold over an enumerated list, by the number of elements done.\<close>

lemma fold_opt_enumerate:
  assumes "P 0 s" "\<And>k s. k < length xs \<Longrightarrow> P k s \<Longrightarrow> \<exists>s'. f (k, xs ! k) s = Some s' \<and> P (Suc k) s'"
  shows "\<exists>s'. fold_opt f (enumerate 0 xs) s = Some s' \<and> P (length xs) s'"
proof -
  have "\<exists>s'. fold_opt f (enumerate 0 (take k xs)) s = Some s' \<and> P k s'" if "k \<le> length xs" for k
    using that
  proof (induction k)
    case (Suc k)
    then obtain s1 where s1: "fold_opt f (enumerate 0 (take k xs)) s = Some s1" "P k s1" by auto
    have "enumerate 0 (take (Suc k) xs) = enumerate 0 (take k xs) @ [(k, xs ! k)]"
      using Suc.prems by (simp add: take_Suc_conv_app_nth enumerate_append_eq min_absorb2)
    moreover obtain s' where "f (k, xs ! k) s1 = Some s'" "P (Suc k) s'" using assms(2) [OF _ s1(2)] Suc.prems by auto
    ultimately show ?case using s1(1) by simp
  qed (use assms(1) in simp)
  from this [of "length xs"] show ?thesis by simp
qed

lemma place_signals_ok:
  assumes "length present = length (pp_signals p)" "length used = length (pp_signals p)"
  shows "\<exists>s. fold_opt (place_signal present used) (enumerate 0 (pp_signals p))
      \<lparr>sx_map = replicate (length (pp_signals p)) None, sx_signals = [], sx_origin = [], sx_boundary = [], sx_offset = 0\<rparr> = Some s
    \<and> signals_placed p (\<lambda>i. present ! i) (\<lambda>i. present ! i \<or> used ! i) (length (pp_signals p)) s"
proof (rule fold_opt_enumerate)
  show "signals_placed p (\<lambda>i. present ! i) (\<lambda>i. present ! i \<or> used ! i) 0
      \<lparr>sx_map = replicate (length (pp_signals p)) None, sx_signals = [], sx_origin = [], sx_boundary = [], sx_offset = 0\<rparr>"
    by (simp add: signals_placed_def index_map_def disjoint_ranges_def)
qed (rule place_signal_ok [OF _ _ assms])

section \<open>Memories\<close>

definition memories_placed :: "packed_program \<Rightarrow> (nat \<Rightarrow> bool) \<Rightarrow> nat \<Rightarrow> memory_space \<Rightarrow> bool" where
  "memories_placed p here k s \<longleftrightarrow> index_map (length (pp_memories p)) (mx_map s) (mx_origin s)
     \<and> set (mx_origin s) = {i. i < k \<and> here i}
     \<and> list_all2 (\<lambda>old m. \<exists>off. m = (pp_memories p ! old)\<lparr>pm_offset := off\<rparr>
          \<and> off + pm_depth m * pl_limbs (pm_data_layout m) \<le> mx_offset s) (mx_origin s) (mx_memories s)
     \<and> disjoint_ranges (map memory_range (mx_memories s))"

lemma place_memory_ok:
  assumes s: "memories_placed p (\<lambda>i. present ! i) k s" and k: "k < length (pp_memories p)"
    and len: "length present = length (pp_memories p)"
  shows "\<exists>s'. place_memory present (k, pp_memories p ! k) s = Some s' \<and> memories_placed p (\<lambda>i. present ! i) (Suc k) s'"
proof (cases "present ! k")
  case False
  then have "{i. i < Suc k \<and> present ! i} = {i. i < k \<and> present ! i}" by (auto simp: less_Suc_eq)
  with False s k len show ?thesis by (simp add: place_memory_def memories_placed_def)
next
  case True
  let ?m = "pp_memories p ! k"
  let ?s = "\<lparr>mx_map = (mx_map s)[k := Some (length (mx_memories s))], mx_memories = mx_memories s @ [?m\<lparr>pm_offset := mx_offset s\<rparr>],
    mx_origin = mx_origin s @ [k], mx_offset = mx_offset s + pm_depth ?m * pl_limbs (pm_data_layout ?m)\<rparr>"
  let ?R = "\<lambda>off' old m. \<exists>off. m = (pp_memories p ! old)\<lparr>pm_offset := off\<rparr> \<and> off + pm_depth m * pl_limbs (pm_data_layout m) \<le> off'"
  have old: "index_map (length (pp_memories p)) (mx_map s) (mx_origin s)" "set (mx_origin s) = {i. i < k \<and> present ! i}"
    "list_all2 (?R (mx_offset s)) (mx_origin s) (mx_memories s)" "disjoint_ranges (map memory_range (mx_memories s))"
    using s by (simp_all add: memories_placed_def)
  have n: "length (mx_memories s) = length (mx_origin s)" using list_all2_lengthD [OF old(3)] by simp
  have "k \<notin> set (mx_origin s)" using old(2) by simp
  then have none: "mx_map s ! k = None" using old(1) k unfolding index_map_def by (metis nth_mem option.exhaust)
  have map': "index_map (length (pp_memories p)) (mx_map ?s) (mx_origin ?s)"
    using index_map_new [OF old(1) k none] by (simp add: n)
  have rel: "list_all2 (?R (mx_offset ?s)) (mx_origin ?s) (mx_memories ?s)"
    using list_all2_mono [OF old(3), of "?R (mx_offset ?s)"] by (fastforce simp: list_all2_snoc)
  have "\<forall>r \<in> set (map memory_range (mx_memories s)). fst r + snd r \<le> mx_offset s"
    using old(3) by (fastforce simp: list_all2_conv_all_nth in_set_conv_nth memory_range_def)
  from disjoint_ranges_snoc [OF old(4) this] have ranges: "disjoint_ranges (map memory_range (mx_memories ?s))"
    by (simp add: memory_range_def)
  have org: "set (mx_origin ?s) = {i. i < Suc k \<and> present ! i}" using old(2) True by (auto simp: less_Suc_eq)
  from map' rel ranges org have "memories_placed p (\<lambda>i. present ! i) (Suc k) ?s" unfolding memories_placed_def by blast
  moreover have "place_memory present (k, ?m) s = Some ?s" using True k len by (simp add: place_memory_def)
  ultimately show ?thesis by blast
qed

lemma place_memories_ok:
  assumes "length present = length (pp_memories p)"
  shows "\<exists>s. fold_opt (place_memory present) (enumerate 0 (pp_memories p))
      \<lparr>mx_map = replicate (length (pp_memories p)) None, mx_memories = [], mx_origin = [], mx_offset = 0\<rparr> = Some s
    \<and> memories_placed p (\<lambda>i. present ! i) (length (pp_memories p)) s"
proof (rule fold_opt_enumerate)
  show "memories_placed p (\<lambda>i. present ! i) 0
      \<lparr>mx_map = replicate (length (pp_memories p)) None, mx_memories = [], mx_origin = [], mx_offset = 0\<rparr>"
    by (simp add: memories_placed_def index_map_def disjoint_ranges_def)
qed (rule place_memory_ok [OF _ _ assms])

end
