(* ===== verification/Packed_Agree.thy ===== *)
theory Packed_Agree
  imports Packed_Space
begin

text \<open>
  The streams of a slice simulate those of the whole program: states that agree on the items an
  operation reads agree after it, and operations the slice leaves out change nothing it holds.
\<close>

section \<open>Programs over renumbered items\<close>

definition renumbered :: "packed_program \<Rightarrow> packed_program \<Rightarrow> nat option list \<Rightarrow> nat option list \<Rightarrow> nat list \<Rightarrow> nat list \<Rightarrow> bool" where
  "renumbered p q sm mm so mo \<longleftrightarrow> index_map (length (pp_signals p)) sm so \<and> index_map (length (pp_memories p)) mm mo
     \<and> length (pp_signals q) = length so \<and> length (pp_memories q) = length mo
     \<and> (\<forall>j < length so. pl_width (ps_layout (pp_signals q ! j)) = pl_width (ps_layout (pp_signals p ! (so ! j))))
     \<and> (\<forall>k < length mo. pm_depth (pp_memories q ! k) = pm_depth (pp_memories p ! (mo ! k))
          \<and> pl_width (pm_data_layout (pp_memories q ! k)) = pl_width (pm_data_layout (pp_memories p ! (mo ! k))))"

fun op_assigned :: "packed_op \<Rightarrow> item set" where
  "op_assigned (Assign d e) = {Inl d}"
| "op_assigned _ = {}"

lemma op_assigned_item: "op_assigned x \<subseteq> {op_item x}"
  by (cases x) simp_all

lemma agree_signal:
  assumes "agree so mo X (S, R) (S', R')" "distinct so" "j < length so"
  shows "agree so mo (insert (Inl (so ! j)) X) (S(so ! j := v), R) (S'(j := v), R')"
  using assms by (auto simp: agree_def nth_eq_iff_index_eq)

lemma agree_memory:
  assumes "agree so mo X (S, R) (S', R')" "distinct mo" "k < length mo"
  shows "agree so mo X (S, R(mo ! k := (R (mo ! k))(a := v))) (S', R'(k := (R' k)(a := v)))"
  using assms by (auto simp: agree_def nth_eq_iff_index_eq)

lemma agree_other: "agree so mo X st st' \<Longrightarrow> op_item x \<notin> X \<Longrightarrow> agree so mo X (op_spec p st0 x st) st'"
  by (cases st; cases x) (auto simp: agree_def split: option.splits)

lemma remap_signal_origin: "index_map n sm so \<Longrightarrow> remap_signal i sm = Some (Inr j) \<Longrightarrow> j < length so \<and> so ! j = i"
  unfolding remap_signal_def using remap_index_origin by blast

lemma reset_agree:
  assumes "index_map n sm so" "agree so mo X st st'" "remap_signal (pr_signal r) sm = Some (Inr j)" "Inl (pr_signal r) \<in> X"
  shows "reset_active (fst st') (r\<lparr>pr_signal := j\<rparr>) = reset_active (fst st) r"
proof -
  have "fst st' j = fst st (pr_signal r)" using remap_signal_origin [OF assms(1,3)] assms(2,4) by (auto simp: agree_def)
  then show ?thesis by (cases "pr_polarity r") (simp_all add: reset_active_def)
qed

lemma op_agree:
  assumes pq: "renumbered p q sm mm so mo" and y: "remap_op sm mm x = Some (Inr y)"
    and st0: "agree so mo Y st0 st0'" "op_reads x \<subseteq> Y" and st: "agree so mo X st st'" "op_reads x \<subseteq> X"
  shows "agree so mo (X \<union> op_assigned x) (op_spec p st0 x st) (op_spec q st0' y st')"
proof -
  obtain S R S' R' where eq: "st = (S, R)" "st' = (S', R')" by fastforce
  have maps: "index_map (length (pp_signals p)) sm so" "index_map (length (pp_memories p)) mm mo" "distinct so" "distinct mo"
    using pq by (auto simp: renumbered_def index_map_def)
  note val = remap_expr_value [OF maps(1,2) st0(1), THEN conjunct1]
  show ?thesis
  proof (cases x)
    case (Assign d e)
    then obtain j e' where y': "y = Assign j e'" "remap_signal d sm = Some (Inr j)" "remap_expr sm mm e = Some (Inr e')"
      using y by (auto simp: try_bind_Inr)
    have "eval_in st0' e' = eval_in st0 e" using val [OF y'(3)] st0(2) Assign by simp
    with remap_signal_origin [OF maps(1) y'(2)] agree_signal [OF st(1) [unfolded eq] maps(3)] y'(1) Assign eq show ?thesis by auto
  next
    case (CaptureReg d e r)
    then obtain j e' r' where y': "y = CaptureReg j e' r'" "remap_signal d sm = Some (Inr j)" "remap_expr sm mm e = Some (Inr e')"
      "remap_reset sm r = Some (Inr r')" using y by (auto simp: try_bind_Inr)
    have v: "eval_in st0' e' = eval_in st0 e" using val [OF y'(3)] st0(2) CaptureReg by simp
    note d = remap_signal_origin [OF maps(1) y'(2)]
    have up: "agree so mo X (S(d := eval_in st0 e), R) (S'(j := eval_in st0 e), R')"
      using agree_mono [OF agree_signal [OF st(1) [unfolded eq] maps(3)]] d by blast
    show ?thesis
    proof (cases r)
      case None
      with y' CaptureReg st(1) eq show ?thesis by simp
    next
      case (Some rst)
      then obtain i where i: "remap_signal (pr_signal rst) sm = Some (Inr i)" "r' = Some (rst\<lparr>pr_signal := i\<rparr>)"
        using y'(4) by (auto simp: try_bind_Inr)
      have "reset_active S' (rst\<lparr>pr_signal := i\<rparr>) = reset_active S rst"
        using reset_agree [OF maps(1) st(1) i(1)] st(2) CaptureReg Some eq by simp
      with up st(1) v Some i(2) y'(1) CaptureReg eq show ?thesis by simp
    qed
  next
    case (MemoryWrite m en a v)
    then obtain k en' a' v' where y': "y = MemoryWrite k en' a' v'"
      "remap_index ''memory write to unowned memory in slice'' m mm = Some (Inr k)"
      "remap_expr sm mm en = Some (Inr en')" "remap_expr sm mm a = Some (Inr a')" "remap_expr sm mm v = Some (Inr v')"
      using y by (auto simp: try_bind_Inr)
    have "eval_in st0' en' = eval_in st0 en" "eval_in st0' a' = eval_in st0 a" "eval_in st0' v' = eval_in st0 v"
      using val [OF y'(3)] val [OF y'(4)] val [OF y'(5)] st0(2) MemoryWrite by auto
    moreover have k: "k < length mo" "mo ! k = m" using remap_index_origin [OF maps(2) y'(2)] by simp_all
    moreover have "pm_depth (pp_memories q ! k) = pm_depth (pp_memories p ! m)" using pq k by (auto simp: renumbered_def)
    ultimately show ?thesis using agree_memory [OF st(1) [unfolded eq] maps(4) k(1)] st(1) y'(1) MemoryWrite eq by simp
  qed
qed

section \<open>Packets and streams\<close>

text \<open>The operations the slice emits read what the states agree on; the others change none of it.\<close>

definition slice_reads :: "masks \<Rightarrow> item set \<Rightarrow> packed_op list \<Rightarrow> bool" where
  "slice_reads present Y ops \<longleftrightarrow> (\<forall>x \<in> set ops. op_item x \<in> marks present \<longrightarrow> op_reads x \<subseteq> Y)"

definition slice_keeps :: "masks \<Rightarrow> item set \<Rightarrow> packed_op list \<Rightarrow> bool" where
  "slice_keeps present X ops \<longleftrightarrow> (\<forall>x \<in> set ops. op_item x \<notin> marks present \<longrightarrow> op_item x \<notin> X)"

lemma slice_reads_simps [simp]:
  "slice_reads present Y []" "slice_reads present Y (x # xs) \<longleftrightarrow> (op_item x \<in> marks present \<longrightarrow> op_reads x \<subseteq> Y) \<and> slice_reads present Y xs"
  by (auto simp: slice_reads_def)

lemma slice_keeps_simps [simp]:
  "slice_keeps present X []" "slice_keeps present X (x # xs) \<longleftrightarrow> (op_item x \<notin> marks present \<longrightarrow> op_item x \<notin> X) \<and> slice_keeps present X xs"
  by (auto simp: slice_keeps_def)

definition emitted :: "masks \<Rightarrow> packed_op list \<Rightarrow> item set" where
  "emitted present ops = \<Union> {op_assigned x |x. x \<in> set ops \<and> op_item x \<in> marks present}"

lemma emitted_simps:
  "emitted present [] = {}"
  "emitted present (x # xs) = (if op_item x \<in> marks present then op_assigned x else {}) \<union> emitted present xs"
  by (auto simp: emitted_def)

lemma emitted_mono: "set xs \<subseteq> set ys \<Longrightarrow> emitted present xs \<subseteq> emitted present ys"
  unfolding emitted_def by blast

lemma slice_keeps_more: "slice_keeps present X ops \<Longrightarrow> Z \<subseteq> marks present \<Longrightarrow> slice_keeps present (X \<union> Z) ops"
  by (auto simp: slice_keeps_def)

lemma slice_ops_Cons:
  assumes "op_ok p x" "masks_ok p present"
  shows "slice_ops present sm mm (x # xs) = Some (Inr ys) \<longleftrightarrow>
    (if op_item x \<in> marks present
     then \<exists>y zs. remap_op sm mm x = Some (Inr y) \<and> slice_ops present sm mm xs = Some (Inr zs) \<and> ys = y # zs
     else slice_ops present sm mm xs = Some (Inr ys))"
  using op_present_ok [OF assms] by (auto simp: try_bind_Inr)

lemma packet_agree:
  assumes pq: "renumbered p q sm mm so mo" "masks_ok p present" and st0: "agree so mo Y st0 st0'"
  shows "\<forall>x \<in> set ops. op_ok p x \<Longrightarrow> slice_ops present sm mm ops = Some (Inr ops') \<Longrightarrow> slice_reads present Y ops \<Longrightarrow>
    slice_reads present X ops \<Longrightarrow> slice_keeps present X ops \<Longrightarrow> agree so mo X st st' \<Longrightarrow>
    agree so mo (X \<union> emitted present ops) (fold (op_spec p st0) ops st) (fold (op_spec q st0') ops' st')"
proof (induction ops arbitrary: X st st' ops')
  case Nil
  then show ?case by (simp add: emitted_simps)
next
  case (Cons x ops)
  have ok: "op_ok p x" using Cons.prems(1) by simp
  show ?case
  proof (cases "op_item x \<in> marks present")
    case True
    then obtain y zs where y: "remap_op sm mm x = Some (Inr y)" "slice_ops present sm mm ops = Some (Inr zs)" "ops' = y # zs"
      using Cons.prems(2) unfolding slice_ops_Cons [OF ok pq(2)] by auto
    let ?X = "X \<union> op_assigned x"
    have "agree so mo ?X (op_spec p st0 x st) (op_spec q st0' y st')"
      using op_agree [OF pq(1) y(1) st0 _ Cons.prems(6)] Cons.prems(3,4) True by simp
    moreover have "slice_keeps present ?X ops"
      by (rule slice_keeps_more) (use Cons.prems(5) op_assigned_item [of x] True in auto)
    moreover have "slice_reads present ?X ops" using Cons.prems(4) by (auto simp: slice_reads_def)
    ultimately have "agree so mo (?X \<union> emitted present ops) (fold (op_spec p st0) ops (op_spec p st0 x st))
        (fold (op_spec q st0') zs (op_spec q st0' y st'))"
      using Cons.IH [OF _ y(2)] Cons.prems(1,3) by simp
    with True y(3) show ?thesis by (simp add: emitted_simps Un_assoc)
  next
    case False
    then have "slice_ops present sm mm ops = Some (Inr ops')" using Cons.prems(2) unfolding slice_ops_Cons [OF ok pq(2)] by simp
    moreover have "agree so mo X (op_spec p st0 x st) st'" using agree_other Cons.prems(5,6) False by simp
    ultimately show ?thesis using Cons.IH [of ops'] Cons.prems(1,3-5) False by (simp add: emitted_simps)
  qed
qed

lemma block_filter: "block_spec q (filter (\<lambda>ops. ops \<noteq> []) qs) st = block_spec q qs st"
  by (induction qs arbitrary: st) (simp_all add: block_spec_def packet_spec_def)

lemma block_agree:
  assumes pq: "renumbered p q sm mm so mo" "masks_ok p present"
  shows "stream_ok p ps \<Longrightarrow> try_map (slice_ops present sm mm) ps = Some (Inr qs) \<Longrightarrow> slice_reads present X (concat ps) \<Longrightarrow>
    slice_keeps present X (concat ps) \<Longrightarrow> emitted present (concat ps) \<subseteq> X \<Longrightarrow> agree so mo X st st' \<Longrightarrow>
    agree so mo X (block_spec p ps st) (block_spec q qs st')"
proof (induction ps arbitrary: st st' qs)
  case Nil
  then show ?case by (simp add: block_spec_def)
next
  case (Cons ops ps)
  obtain ops' rest where q: "slice_ops present sm mm ops = Some (Inr ops')" "try_map (slice_ops present sm mm) ps = Some (Inr rest)"
    "qs = ops' # rest" using Cons.prems(2) by (auto simp: try_bind_Inr)
  have "agree so mo (X \<union> emitted present ops) (fold (op_spec p st) ops st) (fold (op_spec q st') ops' st')"
    by (rule packet_agree [OF pq Cons.prems(6)])
      (use Cons.prems q(1) in \<open>auto simp: stream_ok_def slice_reads_def slice_keeps_def\<close>)
  then have "agree so mo X (packet_spec p ops st) (packet_spec q ops' st')"
    unfolding packet_spec_def by (rule agree_mono) blast
  moreover have "emitted present (concat ps) \<subseteq> X"
    using emitted_mono [of "concat ps" "concat (ops # ps)" present] Cons.prems(5) by auto
  moreover have "slice_reads present X (concat ps)" "slice_keeps present X (concat ps)" "stream_ok p ps"
    using Cons.prems(1,3,4) by (auto simp: slice_reads_def slice_keeps_def stream_ok_def)
  ultimately show ?case using Cons.IH [OF _ q(2)] by (simp add: q(3) block_spec_def)
qed

section \<open>Clock edges\<close>

lemma commit_agree:
  assumes pq: "renumbered p q sm mm so mo" "masks_ok p present" and st0: "agree so mo Y st0 st0'"
  shows "\<forall>x \<in> set ops. op_ok p x \<Longrightarrow> slice_ops present sm mm ops = Some (Inr ops') \<Longrightarrow> slice_reads present Y ops \<Longrightarrow>
    slice_keeps present X ops \<Longrightarrow> agree so mo X (S, R) (S', R') \<Longrightarrow>
    agree so mo X (commit_spec (concat (map (capture_spec p st0 st0) ops)) S, R)
      (commit_spec (concat (map (capture_spec q st0' st0') ops')) S', R')"
proof (induction ops arbitrary: S S' ops')
  case (Cons x ops)
  have maps: "index_map (length (pp_signals p)) sm so" "index_map (length (pp_memories p)) mm mo" "distinct so"
    using pq(1) by (auto simp: renumbered_def index_map_def)
  have ok: "op_ok p x" using Cons.prems(1) by simp
  have step: "commit_spec (xs @ ys) f = commit_spec ys (commit_spec xs f)" for xs ys f by (simp add: commit_spec_def)
  show ?case
  proof (cases "op_item x \<in> marks present")
    case True
    then obtain y zs where y: "remap_op sm mm x = Some (Inr y)" "slice_ops present sm mm ops = Some (Inr zs)" "ops' = y # zs"
      using Cons.prems(2) unfolding slice_ops_Cons [OF ok pq(2)] by auto
    have reads: "op_reads x \<subseteq> Y" using Cons.prems(3) True by simp
    have "agree so mo X (commit_spec (capture_spec p st0 st0 x) S, R) (commit_spec (capture_spec q st0' st0' y) S', R')"
    proof (cases x)
      case (CaptureReg d e r)
      then obtain j e' r' where y': "y = CaptureReg j e' r'" "remap_signal d sm = Some (Inr j)" "remap_expr sm mm e = Some (Inr e')"
        "remap_reset sm r = Some (Inr r')" using y(1) by (auto simp: try_bind_Inr)
      note d = remap_signal_origin [OF maps(1) y'(2)]
      have v: "eval_in st0' e' = eval_in st0 e"
        using remap_expr_value [OF maps(1,2) st0 y'(3)] reads CaptureReg by simp
      have w: "pl_width (ps_layout (pp_signals q ! j)) = pl_width (ps_layout (pp_signals p ! d))"
        using pq(1) d by (auto simp: renumbered_def)
      have "\<exists>z. capture_spec p st0 st0 x = [(d, z)] \<and> capture_spec q st0' st0' y = [(j, z)]"
      proof (cases r)
        case None
        with y' v CaptureReg show ?thesis by simp
      next
        case (Some rst)
        then obtain i where i: "remap_signal (pr_signal rst) sm = Some (Inr i)" "r' = Some (rst\<lparr>pr_signal := i\<rparr>)"
          using y'(4) by (auto simp: try_bind_Inr)
        have "reset_active (fst st0') (rst\<lparr>pr_signal := i\<rparr>) = reset_active (fst st0) rst"
          using reset_agree [OF maps(1) st0 i(1)] reads CaptureReg Some by simp
        with v w Some i(2) y'(1) CaptureReg show ?thesis by simp
      qed
      then obtain z where "capture_spec p st0 st0 x = [(d, z)]" "capture_spec q st0' st0' y = [(j, z)]" by blast
      with agree_mono [OF agree_signal [OF Cons.prems(5) maps(3), of j z]] d show ?thesis by (auto simp: commit_spec_def)
    next
      case (Assign d e)
      with y(1) Cons.prems(5) show ?thesis by (auto simp: try_bind_Inr commit_spec_def)
    next
      case (MemoryWrite m en a v)
      with y(1) Cons.prems(5) show ?thesis by (auto simp: try_bind_Inr commit_spec_def)
    qed
    with Cons.IH [OF _ y(2)] Cons.prems(1,3,4) y(3) show ?thesis by (simp add: step)
  next
    case False
    then have rest: "slice_ops present sm mm ops = Some (Inr ops')" using Cons.prems(2) unfolding slice_ops_Cons [OF ok pq(2)] by simp
    have "agree so mo X (commit_spec (capture_spec p st0 st0 x) S, R) (S', R')"
      using Cons.prems(4,5) False by (cases x) (auto simp: commit_spec_def agree_def)
    with Cons.IH [OF _ rest] Cons.prems(1,3,4) show ?thesis by (simp add: step)
  qed
qed (simp add: commit_spec_def)

lemma slice_ops_concat:
  "\<forall>x \<in> set (concat ps). op_ok p x \<Longrightarrow> masks_ok p present \<Longrightarrow> try_map (slice_ops present sm mm) ps = Some (Inr qs) \<Longrightarrow>
    slice_ops present sm mm (concat ps) = Some (Inr (concat qs))"
proof (induction ps arbitrary: qs)
  case (Cons ops ps)
  have append: "\<forall>x \<in> set xs. op_ok p x \<Longrightarrow> slice_ops present sm mm xs = Some (Inr xs') \<Longrightarrow> slice_ops present sm mm ys = Some (Inr ys') \<Longrightarrow>
      slice_ops present sm mm (xs @ ys) = Some (Inr (xs' @ ys'))" for xs xs' ys ys'
  proof (induction xs arbitrary: xs')
    case (Cons x xs)
    then have ok: "op_ok p x" by simp
    from Cons.prems(2) Cons.IH [OF _ _ Cons.prems(3)] Cons.prems(1) show ?case
      unfolding slice_ops_Cons [OF ok \<open>masks_ok p present\<close>] append_Cons by (auto split: if_splits)
  qed simp
  obtain ops' rest where "slice_ops present sm mm ops = Some (Inr ops')" "try_map (slice_ops present sm mm) ps = Some (Inr rest)"
    "qs = ops' # rest" using Cons.prems(3) by (auto simp: try_bind_Inr)
  with append [of ops ops' "concat ps" "concat rest"] Cons.IH [OF _ Cons.prems(2)] Cons.prems(1) show ?case by simp
qed simp

lemma concat_filter: "concat (filter (\<lambda>ops. ops \<noteq> []) qs) = concat qs"
  by (induction qs) simp_all

end
