(* ===== verification/Packed_Slice_Sound.thy ===== *)
theory Packed_Slice_Sound
  imports Packed_Agree
begin

text \<open>
  \<open>slice_present\<close> succeeds when the group holds the memories it reads, and the slice is a
  well-formed program that simulates the whole program stream by stream.
\<close>

section \<open>Renumbering operations\<close>

lemma remap_expr_ty: "remap_expr sm mm e = Some (Inr e') \<Longrightarrow> pe_ty e' = pe_ty e"
  by (cases e) (auto simp: remap_expr_Inr simp del: remap_expr.simps)

lemma remap_op_ok:
  assumes pq: "renumbered p q sm mm so mo" and x: "op_ok p x" "remap_op sm mm x = Some (Inr y)"
  shows "op_ok q y"
proof -
  have maps: "index_map (length (pp_signals p)) sm so" "index_map (length (pp_memories p)) mm mo"
    and len: "length so = length (pp_signals q)" "length mo = length (pp_memories q)"
    using pq by (auto simp: renumbered_def)
  have e: "expr_ok q e' \<and> pe_width e' = pe_width e" if "remap_expr sm mm e = Some (Inr e')" "expr_ok p e" for e e'
    using remap_expr_ok [OF maps len that] remap_expr_ty [OF that(1)] by (simp add: pe_width_def)
  have w: "j < length (pp_signals q) \<and> pl_width (ps_layout (pp_signals q ! j)) = pl_width (ps_layout (pp_signals p ! d))"
    if "remap_signal d sm = Some (Inr j)" for d j
    using remap_signal_origin [OF maps(1) that] pq by (auto simp: renumbered_def)
  have m: "k < length (pp_memories q) \<and> pl_width (pm_data_layout (pp_memories q ! k)) = pl_width (pm_data_layout (pp_memories p ! i))"
    if "remap_index msg i mm = Some (Inr k)" for i k msg
    using remap_index_origin [OF maps(2) that] pq by (auto simp: renumbered_def)
  show ?thesis
  proof (cases x)
    case (Assign d f)
    with x e w show ?thesis by (auto simp: try_bind_Inr)
  next
    case (CaptureReg d f r)
    then obtain j f' r' where y: "y = CaptureReg j f' r'" "remap_signal d sm = Some (Inr j)" "remap_expr sm mm f = Some (Inr f')"
      "remap_reset sm r = Some (Inr r')" using x(2) by (auto simp: try_bind_Inr)
    have "case r' of None \<Rightarrow> True | Some rst \<Rightarrow> pr_signal rst < length (pp_signals q)"
      using y(4) w by (cases r) (auto simp: try_bind_Inr)
    with e [OF y(3)] w [OF y(2)] x(1) CaptureReg y(1) show ?thesis by simp
  next
    case (MemoryWrite i en a v)
    then obtain k en' a' v' where y: "y = MemoryWrite k en' a' v'"
      "remap_index ''memory write to unowned memory in slice'' i mm = Some (Inr k)"
      "remap_expr sm mm en = Some (Inr en')" "remap_expr sm mm a = Some (Inr a')" "remap_expr sm mm v = Some (Inr v')"
      using x(2) by (auto simp: try_bind_Inr)
    with e [OF y(3)] e [OF y(4)] e [OF y(5)] m [OF y(2)] x(1) MemoryWrite show ?thesis by simp
  qed
qed

lemma remap_op_succeeds:
  assumes maps: "index_map n sm so" "index_map m mm mo" and reads: "op_reads x \<union> {op_item x} \<subseteq> Inl ` set so \<union> Inr ` set mo"
  shows "\<exists>y. remap_op sm mm x = Some (Inr y)"
proof -
  have e: "\<exists>e'. remap_expr sm mm e = Some (Inr e')" if "pe_reads e \<subseteq> Inl ` set so \<union> Inr ` set mo" for e
    using remap_expr_succeeds [OF maps that] .
  have s: "\<exists>j. remap_signal d sm = Some (Inr j)" if "Inl d \<in> Inl ` set so \<union> (Inr ` set mo :: item set)" for d
    unfolding remap_signal_def by (rule remap_index_succeeds [OF maps(1)]) (use that in auto)
  have w: "\<exists>k. remap_index msg i mm = Some (Inr k)" if "Inr i \<in> Inl ` set so \<union> Inr ` set mo" for i msg
    by (rule remap_index_succeeds [OF maps(2)]) (use that in auto)
  show ?thesis
  proof (cases x)
    case (Assign d f)
    with reads e [of f] s [of d] show ?thesis by (auto simp: try_bind_Inr)
  next
    case (CaptureReg d f r)
    have "\<exists>r'. remap_reset sm r = Some (Inr r')"
    proof (cases r)
      case (Some rst)
      with reads CaptureReg s [of "pr_signal rst"] show ?thesis by (auto simp: try_bind_Inr)
    qed simp
    with reads CaptureReg e [of f] s [of d] show ?thesis by (auto simp: try_bind_Inr)
  next
    case (MemoryWrite i en a v)
    with reads e [of en] e [of a] e [of v] w [of i] show ?thesis by (auto simp: try_bind_Inr)
  qed
qed

definition covers_ops :: "masks \<Rightarrow> item set \<Rightarrow> packed_op list \<Rightarrow> bool" where
  "covers_ops present M ops \<longleftrightarrow> (\<forall>x \<in> set ops. op_item x \<in> marks present \<longrightarrow> op_reads x \<union> {op_item x} \<subseteq> M)"

lemma slice_ops_succeeds:
  assumes maps: "index_map n sm so" "index_map m mm mo" and present: "masks_ok p present"
  shows "\<forall>x \<in> set ops. op_ok p x \<Longrightarrow> covers_ops present (Inl ` set so \<union> Inr ` set mo) ops \<Longrightarrow>
    \<exists>ops'. slice_ops present sm mm ops = Some (Inr ops')"
proof (induction ops)
  case (Cons x ops)
  then have "\<exists>ops'. slice_ops present sm mm ops = Some (Inr ops')" by (simp add: covers_ops_def)
  moreover have "\<exists>y. remap_op sm mm x = Some (Inr y)" if "op_item x \<in> marks present"
    by (rule remap_op_succeeds [OF maps]) (use Cons.prems(2) that in \<open>simp add: covers_ops_def\<close>)
  moreover have "op_ok p x" using Cons.prems(1) by simp
  note cons = slice_ops_Cons [OF this present]
  ultimately show ?case unfolding cons by auto
qed simp

lemma slice_ops_ok:
  assumes pq: "renumbered p q sm mm so mo" "masks_ok p present"
  shows "\<forall>x \<in> set ops. op_ok p x \<Longrightarrow> slice_ops present sm mm ops = Some (Inr ops') \<Longrightarrow> \<forall>y \<in> set ops'. op_ok q y"
proof (induction ops arbitrary: ops')
  case (Cons x ops)
  then have "op_ok p x" by simp
  from Cons.prems(2) [unfolded slice_ops_Cons [OF this pq(2)]] Cons.IH Cons.prems(1) remap_op_ok [OF pq(1) \<open>op_ok p x\<close>]
  show ?case by (auto split: if_splits)
qed simp

definition stream_sliced :: "masks \<Rightarrow> nat option list \<Rightarrow> nat option list \<Rightarrow> packed_packet list \<Rightarrow> packed_packet list \<Rightarrow> bool" where
  "stream_sliced present sm mm ps qs \<longleftrightarrow> (\<exists>rs. try_map (slice_ops present sm mm) ps = Some (Inr rs) \<and> qs = filter (\<lambda>ops. ops \<noteq> []) rs)"

lemma slice_stream_Inr: "slice_stream present sm mm ps = Some (Inr qs) \<longleftrightarrow> stream_sliced present sm mm ps qs"
  by (auto simp: slice_stream_def stream_sliced_def try_bind_Inr)

lemma slice_stream_succeeds:
  assumes "index_map n sm so" "index_map m mm mo" "masks_ok p present" "stream_ok p ps"
    and "covers_ops present (Inl ` set so \<union> Inr ` set mo) (concat ps)"
  shows "\<exists>qs. slice_stream present sm mm ps = Some (Inr qs)"
proof -
  have "\<forall>ops \<in> set ps. \<exists>ops'. slice_ops present sm mm ops = Some (Inr ops')"
    using slice_ops_succeeds [OF assms(1-3)] assms(4,5) by (auto simp: stream_ok_def covers_ops_def)
  then obtain f where "\<forall>ops \<in> set ps. slice_ops present sm mm ops = Some (Inr (f ops))" by metis
  from try_map_all [OF this] show ?thesis by (auto simp: slice_stream_def)
qed

lemma stream_sliced_ok:
  assumes "renumbered p q sm mm so mo" "masks_ok p present" "stream_ok p ps" "stream_sliced present sm mm ps qs"
  shows "stream_ok q qs"
proof -
  obtain rs where rs: "try_map (slice_ops present sm mm) ps = Some (Inr rs)" "qs = filter (\<lambda>ops. ops \<noteq> []) rs"
    using assms(4) by (auto simp: stream_sliced_def)
  have "list_all2 (\<lambda>ops ops'. (\<forall>x \<in> set ops. op_ok p x) \<longrightarrow> (\<forall>y \<in> set ops'. op_ok q y)) ps rs"
    using rs(1) unfolding try_map_Inr by (rule list_all2_mono) (use slice_ops_ok [OF assms(1,2)] in blast)
  then have "\<forall>ops' \<in> set rs. \<forall>y \<in> set ops'. op_ok q y"
    by (rule list_all2_right) (use assms(3) in \<open>auto simp: stream_ok_def\<close>)
  then show ?thesis by (auto simp: stream_ok_def rs(2))
qed

section \<open>The slice of a well-formed program\<close>

lemma read_pass_ok:
  assumes "streams_ok p" "masks_ok p present"
  shows "\<exists>reads. fold_opt (read_by_op present) (all_ops p)
      (replicate (length (pp_signals p)) False, replicate (length (pp_memories p)) False) = Some reads
    \<and> masks_ok p reads \<and> marks reads = \<Union> {op_reads x |x. x \<in> set (all_ops p) \<and> op_item x \<in> marks present}"
proof -
  let ?zero = "(replicate (length (pp_signals p)) False, replicate (length (pp_memories p)) False)"
  let ?D = "\<lambda>x. if op_item x \<in> marks present then op_reads x else {}"
  have "collects p (fold_opt (read_by_op present) (all_ops p) ?zero) (\<Union> (?D ` set (all_ops p))) ?zero"
  proof (rule collects_fold)
    fix x c assume "x \<in> set (all_ops p)" "masks_ok p c"
    with all_ops_ok [OF assms(1)] op_present_ok [OF _ assms(2)] show "collects p (read_by_op present x c) (?D x) c"
      by (simp add: read_by_op_def collect_op_reads_ok collects_none)
  qed (simp add: masks_ok_def)
  moreover have "marks ?zero = {}" by (auto simp: marks_def)
  moreover have "\<Union> (?D ` set (all_ops p)) = \<Union> {op_reads x |x. x \<in> set (all_ops p) \<and> op_item x \<in> marks present}" by auto
  ultimately show ?thesis by (auto simp: collects_def)
qed

lemma memories_held_ok:
  "\<forall>(m, used) \<in> set rs. used \<longrightarrow> m < length present \<and> present ! m \<Longrightarrow> memories_held p present rs = Some (Inr ())"
  by (induction rs) auto

definition handles_ok :: "packed_program \<Rightarrow> bool" where
  "handles_ok p \<longleftrightarrow> (\<forall>h i. pp_top_signal_indices p h = Some i \<longleftrightarrow> i < length (pp_signals p) \<and> ps_source (pp_signals p ! i) = Some h)"

lemma top_handles_range:
  "fold (\<lambda>(new, sg) m. case ps_source sg of None \<Rightarrow> m | Some h \<Rightarrow> m(h \<mapsto> new)) xs m h = Some j \<Longrightarrow>
    (\<exists>sg. (j, sg) \<in> set xs \<and> ps_source sg = Some h) \<or> m h = Some j"
proof (induction xs arbitrary: m)
  case (Cons x xs)
  obtain i sg where x: "x = (i, sg)" by (cases x)
  from Cons.IH [of "case ps_source sg of None \<Rightarrow> m | Some h \<Rightarrow> m(h \<mapsto> i)"] Cons.prems x show ?case
    by (auto split: option.splits if_splits)
qed simp

lemma top_handles_defined:
  "(i, sg) \<in> set xs \<Longrightarrow> ps_source sg = Some h \<Longrightarrow>
    fold (\<lambda>(new, sg) m. case ps_source sg of None \<Rightarrow> m | Some h \<Rightarrow> m(h \<mapsto> new)) xs m h \<noteq> None"
proof (induction xs arbitrary: m)
  case (Cons x xs)
  have keep: "m h \<noteq> None \<Longrightarrow> fold (\<lambda>(new, sg) m. case ps_source sg of None \<Rightarrow> m | Some h \<Rightarrow> m(h \<mapsto> new)) ys m h \<noteq> None" for ys m
    by (induction ys arbitrary: m) (auto split: option.splits)
  show ?case
  proof (cases "x = (i, sg)")
    case True
    with Cons.prems(2) keep [of "m(h \<mapsto> i)" xs] show ?thesis by simp
  next
    case False
    with Cons show ?thesis by (cases x) auto
  qed
qed simp

lemma top_handles_exact:
  assumes "\<And>i j. i < length sgs \<Longrightarrow> j < length sgs \<Longrightarrow> ps_source (sgs ! i) = Some h \<Longrightarrow> ps_source (sgs ! j) = Some h \<Longrightarrow> i = j"
  shows "top_handles sgs h = Some j \<longleftrightarrow> j < length sgs \<and> ps_source (sgs ! j) = Some h"
proof
  assume "top_handles sgs h = Some j"
  then show "j < length sgs \<and> ps_source (sgs ! j) = Some h"
    unfolding top_handles_def using top_handles_range [of "enumerate 0 sgs" Map.empty h j]
    by (fastforce simp: in_set_enumerate_eq)
next
  assume j: "j < length sgs \<and> ps_source (sgs ! j) = Some h"
  then have "(j, sgs ! j) \<in> set (enumerate 0 sgs)" by (simp add: in_set_enumerate_eq)
  then have "top_handles sgs h \<noteq> None" unfolding top_handles_def by (rule top_handles_defined) (use j in simp)
  then obtain k where k: "top_handles sgs h = Some k" by blast
  then have "k < length sgs \<and> ps_source (sgs ! k) = Some h"
    unfolding top_handles_def using top_handles_range [of "enumerate 0 sgs" Map.empty h k]
    by (fastforce simp: in_set_enumerate_eq)
  with assms [of j k] j k show "top_handles sgs h = Some j" by simp
qed

text \<open>
  What \<open>slice_present\<close> returns: a renumbered program whose streams are the sliced streams, the
  origins being what the group holds or reads, and the boundary what it reads and does not hold.
\<close>

definition op_read_set :: "packed_program \<Rightarrow> masks \<Rightarrow> item set" where
  "op_read_set p present = \<Union> {op_reads x |x. x \<in> set (all_ops p) \<and> op_item x \<in> marks present}"

definition slice_of :: "packed_program \<Rightarrow> masks \<Rightarrow> packed_slice \<Rightarrow> nat option list \<Rightarrow> nat option list \<Rightarrow> bool" where
  "slice_of p present sl sm mm \<longleftrightarrow>
     (let q = sl_program sl; so = sl_signal_origin sl; mo = sl_memory_origin sl in
       renumbered p q sm mm so mo \<and> program_ok q \<and> (handles_ok p \<longrightarrow> handles_ok q)
       \<and> (\<forall>j < length so. ps_source (pp_signals q ! j) = ps_source (pp_signals p ! (so ! j)))
       \<and> Inl ` set so \<union> Inr ` set mo = marks present \<union> op_read_set p present
       \<and> set (sl_boundary_inputs sl) = {j. j < length so \<and> Inl (so ! j) \<notin> marks present}
       \<and> stream_sliced present sm mm (st_async_reset_comb (pp_streams p)) (st_async_reset_comb (pp_streams q))
       \<and> stream_sliced present sm mm (st_comb (pp_streams p)) (st_comb (pp_streams q))
       \<and> stream_sliced present sm mm (st_tick_next (pp_streams p)) (st_tick_next (pp_streams q))
       \<and> stream_sliced present sm mm (st_tick_commit (pp_streams p)) (st_tick_commit (pp_streams q)))"

lemma placed_program:
  assumes p: "layouts_wf p"
    and sx: "signals_placed p here keep (length (pp_signals p)) sx"
    and mx: "memories_placed p held (length (pp_memories p)) mx"
    and q: "pp_signals q = sx_signals sx" "pp_memories q = mx_memories mx" "pp_total_signal_words q = sx_offset sx"
      "pp_total_memory_words_per_lane q = mx_offset mx"
  shows "renumbered p q (sx_map sx) (mx_map mx) (sx_origin sx) (mx_origin mx) \<and> layouts_wf q
    \<and> (\<forall>j < length (sx_origin sx). ps_source (pp_signals q ! j) = ps_source (pp_signals p ! (sx_origin sx ! j)))"
proof -
  have so: "index_map (length (pp_signals p)) (sx_map sx) (sx_origin sx)" "length (sx_origin sx) = length (sx_signals sx)"
    "\<And>j. j < length (sx_signals sx) \<Longrightarrow> placed_as p here (sx_offset sx) (sx_origin sx ! j) (sx_signals sx ! j)"
    using sx by (auto simp: signals_placed_def list_all2_conv_all_nth)
  have mo: "index_map (length (pp_memories p)) (mx_map mx) (mx_origin mx)" "length (mx_origin mx) = length (mx_memories mx)"
    "\<And>k. k < length (mx_memories mx) \<Longrightarrow> \<exists>off. mx_memories mx ! k = (pp_memories p ! (mx_origin mx ! k))\<lparr>pm_offset := off\<rparr>
       \<and> off + pm_depth (mx_memories mx ! k) * pl_limbs (pm_data_layout (mx_memories mx ! k)) \<le> mx_offset mx"
    using mx by (auto simp: memories_placed_def list_all2_conv_all_nth)
  have old: "sx_origin sx ! j < length (pp_signals p)" if "j < length (sx_signals sx)" for j
    using so(1,2) that unfolding index_map_def by (metis lessThan_iff nth_mem subsetD)
  have old_mem: "mx_origin mx ! k < length (pp_memories p)" if "k < length (mx_memories mx)" for k
    using mo(1,2) that unfolding index_map_def by (metis lessThan_iff nth_mem subsetD)
  have sig: "pl_width (ps_layout (sx_signals sx ! j)) = pl_width (ps_layout (pp_signals p ! (sx_origin sx ! j)))
      \<and> ps_source (sx_signals sx ! j) = ps_source (pp_signals p ! (sx_origin sx ! j)) \<and> layout_ok (ps_layout (sx_signals sx ! j))
      \<and> pl_offset (ps_layout (sx_signals sx ! j)) + pl_limbs (ps_layout (sx_signals sx ! j)) \<le> sx_offset sx"
    if j: "j < length (sx_signals sx)" for j
  proof -
    have "layout_ok (ps_layout (pp_signals p ! (sx_origin sx ! j)))" using p old [OF j] by (simp add: layouts_wf_def)
    moreover note placed_as_range [OF so(3) [OF j]]
    ultimately show ?thesis using so(3) [OF j] by (auto simp: placed_as_def layout_ok_def signal_range_def)
  qed
  have mem: "pm_depth (mx_memories mx ! k) = pm_depth (pp_memories p ! (mx_origin mx ! k))
      \<and> pm_data_layout (mx_memories mx ! k) = pm_data_layout (pp_memories p ! (mx_origin mx ! k))
      \<and> pm_offset (mx_memories mx ! k) + pm_depth (mx_memories mx ! k) * pl_limbs (pm_data_layout (mx_memories mx ! k)) \<le> mx_offset mx"
    if "k < length (mx_memories mx)" for k using mo(3) [OF that] by auto
  have memp: "layout_ok (pm_data_layout (pp_memories p ! (mx_origin mx ! k))) \<and> pm_depth (pp_memories p ! (mx_origin mx ! k)) < 2 ^ 64"
    if "k < length (mx_memories mx)" for k using p old_mem [OF that] by (simp add: layouts_wf_def)
  have "\<forall>sg \<in> set (sx_signals sx). layout_ok (ps_layout sg) \<and> pl_offset (ps_layout sg) + pl_limbs (ps_layout sg) \<le> sx_offset sx"
    using sig by (auto simp: in_set_conv_nth)
  moreover have "\<forall>m \<in> set (mx_memories mx). layout_ok (pm_data_layout m) \<and> pm_depth m < 2 ^ 64
      \<and> pm_offset m + pm_depth m * pl_limbs (pm_data_layout m) \<le> mx_offset mx"
  proof
    fix m assume "m \<in> set (mx_memories mx)"
    then obtain k where k: "k < length (mx_memories mx)" "mx_memories mx ! k = m" by (auto simp: in_set_conv_nth)
    from mem [OF k(1)] memp [OF k(1)] show "layout_ok (pm_data_layout m) \<and> pm_depth m < 2 ^ 64
        \<and> pm_offset m + pm_depth m * pl_limbs (pm_data_layout m) \<le> mx_offset mx" unfolding k(2) by auto
  qed
  moreover have "disjoint_ranges (map signal_range (sx_signals sx))" "disjoint_ranges (map memory_range (mx_memories mx))"
    using sx mx by (simp_all add: signals_placed_def memories_placed_def)
  ultimately have "layouts_wf q" using q by (simp add: layouts_wf_def)
  then show ?thesis using so(1,2) mo(1,2) sig mem q by (auto simp: renumbered_def)
qed

lemma slice_present_ok:
  assumes p: "program_ok p" "masks_ok p present"
    and held: "\<And>m. Inr m \<in> op_read_set p present \<Longrightarrow> Inr m \<in> marks present"
  shows "\<exists>sl sm mm. slice_present p present = Some (Inr sl) \<and> slice_of p present sl sm mm"
proof -
  have wf: "layouts_wf p" "streams_ok p" using p(1) by (simp_all add: program_ok_def)
  obtain reads where reads: "fold_opt (read_by_op present) (all_ops p)
      (replicate (length (pp_signals p)) False, replicate (length (pp_memories p)) False) = Some reads"
    "masks_ok p reads" "marks reads = op_read_set p present"
    using read_pass_ok [OF wf(2) p(2)] unfolding op_read_set_def by blast
  have len: "length (fst present) = length (pp_signals p)" "length (snd present) = length (pp_memories p)"
    "length (fst reads) = length (pp_signals p)" "length (snd reads) = length (pp_memories p)"
    using p(2) reads(2) by (auto simp: masks_ok_def split: prod.splits)
  have "memories_held p (snd present) (enumerate 0 (snd reads)) = Some (Inr ())"
  proof -
    have "m < length (snd present) \<and> snd present ! m" if "m < length (snd reads)" "snd reads ! m" for m
      using held [of m] that marks_memory [of m reads] unfolding reads(3) by simp
    then show ?thesis by (intro memories_held_ok) (auto simp: in_set_enumerate_eq)
  qed
  moreover obtain sx where sx: "fold_opt (place_signal (fst present) (fst reads)) (enumerate 0 (pp_signals p))
      \<lparr>sx_map = replicate (length (pp_signals p)) None, sx_signals = [], sx_origin = [], sx_boundary = [], sx_offset = 0\<rparr> = Some sx"
    "signals_placed p (\<lambda>i. fst present ! i) (\<lambda>i. fst present ! i \<or> fst reads ! i) (length (pp_signals p)) sx"
    using place_signals_ok [OF len(1,3)] by blast
  moreover obtain mx where mx: "fold_opt (place_memory (snd present)) (enumerate 0 (pp_memories p))
      \<lparr>mx_map = replicate (length (pp_memories p)) None, mx_memories = [], mx_origin = [], mx_offset = 0\<rparr> = Some mx"
    "memories_placed p (\<lambda>i. snd present ! i) (length (pp_memories p)) mx"
    using place_memories_ok [OF len(2)] by blast
  have maps: "index_map (length (pp_signals p)) (sx_map sx) (sx_origin sx)" "index_map (length (pp_memories p)) (mx_map mx) (mx_origin mx)"
    using sx(2) mx(2) by (simp_all add: signals_placed_def memories_placed_def)
  have origins: "Inl ` set (sx_origin sx) \<union> Inr ` set (mx_origin mx) = marks present \<union> op_read_set p present"
  proof (rule set_eqI)
    fix x :: item
    have "Inl i \<in> marks present \<union> op_read_set p present \<longleftrightarrow> i < length (pp_signals p) \<and> (fst present ! i \<or> fst reads ! i)" for i
      using len reads(3) [symmetric] by auto
    moreover have "Inr m \<in> marks present \<union> op_read_set p present \<longleftrightarrow> m < length (pp_memories p) \<and> snd present ! m" for m
      using len held by auto
    ultimately show "x \<in> Inl ` set (sx_origin sx) \<union> Inr ` set (mx_origin mx) \<longleftrightarrow> x \<in> marks present \<union> op_read_set p present"
      using sx(2) mx(2) by (cases x) (auto simp: signals_placed_def memories_placed_def)
  qed
  have cover: "covers_ops present (Inl ` set (sx_origin sx) \<union> Inr ` set (mx_origin mx)) ops" if "set ops \<subseteq> set (all_ops p)" for ops
    using that unfolding origins covers_ops_def op_read_set_def by blast
  let ?st = "pp_streams p"
  have ops: "set (concat (st_async_reset_comb ?st)) \<subseteq> set (all_ops p)" "set (concat (st_comb ?st)) \<subseteq> set (all_ops p)"
    "set (concat (st_tick_next ?st)) \<subseteq> set (all_ops p)" "set (concat (st_tick_commit ?st)) \<subseteq> set (all_ops p)"
    by (auto simp: all_ops_def Let_def)
  have streams: "stream_ok p (st_async_reset_comb ?st)" "stream_ok p (st_comb ?st)" "stream_ok p (st_tick_next ?st)" "stream_ok p (st_tick_commit ?st)"
    using wf(2) by (simp_all add: streams_ok_def)
  note run = slice_stream_succeeds [OF maps p(2)]
  obtain a where a: "slice_stream present (sx_map sx) (mx_map mx) (st_async_reset_comb ?st) = Some (Inr a)"
    using run [OF streams(1) cover [OF ops(1)]] by blast
  obtain c where c: "slice_stream present (sx_map sx) (mx_map mx) (st_comb ?st) = Some (Inr c)"
    using run [OF streams(2) cover [OF ops(2)]] by blast
  obtain n where n: "slice_stream present (sx_map sx) (mx_map mx) (st_tick_next ?st) = Some (Inr n)"
    using run [OF streams(3) cover [OF ops(3)]] by blast
  obtain t where t: "slice_stream present (sx_map sx) (mx_map mx) (st_tick_commit ?st) = Some (Inr t)"
    using run [OF streams(4) cover [OF ops(4)]] by blast
  define q where "q = \<lparr>pp_top = pp_top p, pp_signals = sx_signals sx, pp_memories = mx_memories mx,
     pp_streams = \<lparr>st_async_reset_comb = a, st_comb = c, st_tick_next = n, st_tick_commit = t\<rparr>,
     pp_top_signal_indices = top_handles (sx_signals sx), pp_total_signal_words = sx_offset sx,
     pp_total_memory_words_per_lane = mx_offset mx, pp_reg_clocks = Map.empty, pp_mem_clocks = Map.empty\<rparr>"
  define sl where "sl = \<lparr>sl_program = q, sl_signal_origin = sx_origin sx, sl_memory_origin = mx_origin mx, sl_boundary_inputs = sx_boundary sx\<rparr>"
  have placed: "renumbered p q (sx_map sx) (mx_map mx) (sx_origin sx) (mx_origin mx)" "layouts_wf q"
    "\<forall>j < length (sx_origin sx). ps_source (pp_signals q ! j) = ps_source (pp_signals p ! (sx_origin sx ! j))"
    using placed_program [OF wf(1) sx(2) mx(2), of q] by (simp_all add: q_def)
  have "slice_present p present = Some (Inr sl)"
    using calculation a c n t reads(1) mx(1) by (simp add: slice_present_def Let_def sl_def q_def)
  moreover have "slice_of p present sl (sx_map sx) (mx_map mx)"
  proof -
    have sliced: "stream_sliced present (sx_map sx) (mx_map mx) (st_async_reset_comb ?st) a" "stream_sliced present (sx_map sx) (mx_map mx) (st_comb ?st) c"
      "stream_sliced present (sx_map sx) (mx_map mx) (st_tick_next ?st) n" "stream_sliced present (sx_map sx) (mx_map mx) (st_tick_commit ?st) t"
      using a c n t by (simp_all add: slice_stream_Inr)
    have "streams_ok q" unfolding streams_ok_def
      using stream_sliced_ok [OF placed(1) p(2)] streams sliced by (simp add: q_def)
    moreover have "\<forall>i \<in> ran (pp_top_signal_indices q). i < length (pp_signals q)"
    proof
      fix i assume "i \<in> ran (pp_top_signal_indices q)"
      then obtain h where "fold (\<lambda>(new, sg) m. case ps_source sg of None \<Rightarrow> m | Some h \<Rightarrow> m(h \<mapsto> new))
          (enumerate 0 (sx_signals sx)) Map.empty h = Some i" by (auto simp: ran_def q_def top_handles_def)
      from top_handles_range [OF this] show "i < length (pp_signals q)"
        by (auto simp: in_set_enumerate_eq q_def)
    qed
    ultimately have "program_ok q" using placed(2) by (simp add: program_ok_def)
    moreover have "handles_ok q" if h: "handles_ok p"
    proof -
      have len': "length (pp_signals q) = length (sx_origin sx)" using placed(1) by (simp add: renumbered_def)
      have "i = j" if ij: "i < length (pp_signals q)" "j < length (pp_signals q)" "ps_source (pp_signals q ! i) = Some x"
          "ps_source (pp_signals q ! j) = Some x" for i j x
      proof -
        have less: "sx_origin sx ! k < length (pp_signals p)" if "k < length (sx_origin sx)" for k
          using maps(1) that unfolding index_map_def by (metis lessThan_iff nth_mem subsetD)
        have "pp_top_signal_indices p x = Some (sx_origin sx ! i)" "pp_top_signal_indices p x = Some (sx_origin sx ! j)"
          using h placed(3) ij less unfolding handles_ok_def len' by simp_all
        then have "sx_origin sx ! i = sx_origin sx ! j" by simp
        with maps(1) ij(1,2) show ?thesis unfolding index_map_def len' by (simp add: nth_eq_iff_index_eq)
      qed
      then have "top_handles (pp_signals q) x = Some j \<longleftrightarrow> j < length (pp_signals q) \<and> ps_source (pp_signals q ! j) = Some x" for x j
        by (intro top_handles_exact) blast
      then show ?thesis by (simp add: handles_ok_def q_def)
    qed
    moreover have "set (sx_boundary sx) = {j. j < length (sx_origin sx) \<and> Inl (sx_origin sx ! j) \<notin> marks present}"
    proof -
      have "sx_origin sx ! k < length (fst present)" if "k < length (sx_origin sx)" for k
        using maps(1) that unfolding index_map_def len(1) by (metis lessThan_iff nth_mem subsetD)
      then show ?thesis using sx(2) by (auto simp: signals_placed_def)
    qed
    ultimately show ?thesis using placed(1,3) origins sliced by (simp add: slice_of_def Let_def sl_def q_def)
  qed
  ultimately show ?thesis by blast
qed

end
