(* ===== verification/Packed_Lockstep.thy ===== *)
theory Packed_Lockstep
  imports Packed_Slice_Sound
begin

text \<open>
  The slice of a cone that is closed under reads runs in lockstep with the whole program, on the
  abstract machine and in the packed engine.
\<close>

section \<open>The abstract machines\<close>

definition closed_cone :: "packed_program \<Rightarrow> masks \<Rightarrow> bool" where
  "closed_cone p cone \<longleftrightarrow> masks_ok p cone \<and> closed_under_reads p (marks cone)"

lemma closed_cone_reads: "closed_cone p cone \<Longrightarrow> op_read_set p cone \<subseteq> marks cone"
  by (auto simp: closed_cone_def closed_under_reads_def op_read_set_def)

lemma cone_stream:
  assumes cone: "closed_cone p cone" and ops: "set ops \<subseteq> set (all_ops p)"
  shows "slice_reads cone (marks cone) ops" "slice_keeps cone (marks cone) ops" "emitted cone ops \<subseteq> marks cone"
  using assms op_assigned_item by (fastforce simp: closed_cone_def closed_under_reads_def slice_reads_def slice_keeps_def emitted_def)+

lemma stream_ops:
  "set (concat (st_async_reset_comb (pp_streams p))) \<subseteq> set (all_ops p)" "set (concat (st_comb (pp_streams p))) \<subseteq> set (all_ops p)"
  "set (concat (st_tick_next (pp_streams p))) \<subseteq> set (all_ops p)" "set (concat (st_tick_commit (pp_streams p))) \<subseteq> set (all_ops p)"
  by (auto simp: all_ops_def Let_def)

lemma stream_agree:
  assumes "renumbered p q sm mm so mo" "closed_cone p cone" "stream_sliced cone sm mm ps qs" "stream_ok p ps"
    and "set (concat ps) \<subseteq> set (all_ops p)" "agree so mo (marks cone) st st'"
  shows "agree so mo (marks cone) (block_spec p ps st) (block_spec q qs st')"
proof -
  obtain rs where rs: "try_map (slice_ops cone sm mm) ps = Some (Inr rs)" "qs = filter (\<lambda>ops. ops \<noteq> []) rs"
    using assms(3) by (auto simp: stream_sliced_def)
  have "masks_ok p cone" using assms(2) by (simp add: closed_cone_def)
  from block_agree [OF assms(1) this assms(4) rs(1) cone_stream [OF assms(2,5)] assms(6)] show ?thesis
    unfolding rs(2) block_filter .
qed

lemma slice_ofD:
  assumes "slice_of p present sl sm mm"
  shows "renumbered p (sl_program sl) sm mm (sl_signal_origin sl) (sl_memory_origin sl)" "program_ok (sl_program sl)"
    "handles_ok p \<Longrightarrow> handles_ok (sl_program sl)"
    "j < length (sl_signal_origin sl) \<Longrightarrow> ps_source (pp_signals (sl_program sl) ! j) = ps_source (pp_signals p ! (sl_signal_origin sl ! j))"
    "Inl ` set (sl_signal_origin sl) \<union> Inr ` set (sl_memory_origin sl) = marks present \<union> op_read_set p present"
    "set (sl_boundary_inputs sl) = {j. j < length (sl_signal_origin sl) \<and> Inl (sl_signal_origin sl ! j) \<notin> marks present}"
    "stream_sliced present sm mm (st_async_reset_comb (pp_streams p)) (st_async_reset_comb (pp_streams (sl_program sl)))"
    "stream_sliced present sm mm (st_comb (pp_streams p)) (st_comb (pp_streams (sl_program sl)))"
    "stream_sliced present sm mm (st_tick_next (pp_streams p)) (st_tick_next (pp_streams (sl_program sl)))"
    "stream_sliced present sm mm (st_tick_commit (pp_streams p)) (st_tick_commit (pp_streams (sl_program sl)))"
  using assms by (simp_all add: slice_of_def Let_def)

definition in_step :: "packed_slice \<Rightarrow> masks \<Rightarrow> lane_state \<Rightarrow> lane_state \<Rightarrow> bool" where
  "in_step sl cone = agree (sl_signal_origin sl) (sl_memory_origin sl) (marks cone)"

lemma settle_in_step:
  assumes sl: "slice_of p cone sl sm mm" "closed_cone p cone" "streams_ok p" and st: "in_step sl cone st st'"
  shows "in_step sl cone (settle_spec p st) (settle_spec (sl_program sl) st')"
  unfolding settle_spec_def in_step_def
  by (intro stream_agree [OF slice_ofD(1) [OF sl(1)] sl(2)] slice_ofD [OF sl(1)] stream_ops st [unfolded in_step_def])
    (use sl(3) in \<open>simp_all add: streams_ok_def\<close>)

lemma edge_in_step:
  assumes sl: "slice_of p cone sl sm mm" "closed_cone p cone" "streams_ok p" and st: "in_step sl cone st st'"
  shows "in_step sl cone (edge_spec p st) (edge_spec (sl_program sl) st')"
proof -
  let ?q = "sl_program sl" and ?next = "st_tick_next (pp_streams p)"
  have commit: "in_step sl cone (block_spec p (st_tick_commit (pp_streams p)) st) (block_spec ?q (st_tick_commit (pp_streams ?q)) st')"
    unfolding in_step_def
    by (intro stream_agree [OF slice_ofD(1) [OF sl(1)] sl(2)] slice_ofD [OF sl(1)] stream_ops st [unfolded in_step_def])
      (use sl(3) in \<open>simp add: streams_ok_def\<close>)
  obtain rs where rs: "try_map (slice_ops cone sm mm) ?next = Some (Inr rs)" "st_tick_next (pp_streams ?q) = filter (\<lambda>ops. ops \<noteq> []) rs"
    using slice_ofD(9) [OF sl(1)] by (auto simp: stream_sliced_def)
  have ok: "\<forall>x \<in> set (concat ?next). op_ok p x" using sl(3) by (auto simp: streams_ok_def stream_ok_def)
  have masks: "masks_ok p cone" using sl(2) by (simp add: closed_cone_def)
  note reads = cone_stream [OF sl(2) stream_ops(3)]
  obtain S R S' R' where eq: "block_spec p (st_tick_commit (pp_streams p)) st = (S, R)"
    "block_spec ?q (st_tick_commit (pp_streams ?q)) st' = (S', R')" by fastforce
  have "agree (sl_signal_origin sl) (sl_memory_origin sl) (marks cone)
      (commit_spec (concat (map (capture_spec p st st) (concat ?next))) S, R)
      (commit_spec (concat (map (capture_spec ?q st' st') (concat rs))) S', R')"
    by (rule commit_agree [OF slice_ofD(1) [OF sl(1)] masks st [unfolded in_step_def] ok slice_ops_concat [OF ok masks rs(1)] reads(1,2)])
      (use commit eq in \<open>simp add: in_step_def\<close>)
  then show ?thesis by (simp add: edge_spec_def next_registers_def in_step_def eq rs(2) concat_filter)
qed

lemma zero_in_step: "in_step sl cone zero_state zero_state"
  by (simp add: in_step_def agree_def zero_state_def)

lemma drive_in_step:
  assumes sl: "slice_of p cone sl sm mm" and st: "in_step sl cone st st'" and j: "j < length (sl_signal_origin sl)"
  shows "in_step sl cone (drive p (sl_signal_origin sl ! j) v st) (drive (sl_program sl) j v st')"
proof -
  obtain S R S' R' where eq: "st = (S, R)" "st' = (S', R')" by fastforce
  have d: "distinct (sl_signal_origin sl)"
    and w: "pl_width (ps_layout (pp_signals (sl_program sl) ! j)) = pl_width (ps_layout (pp_signals p ! (sl_signal_origin sl ! j)))"
    using slice_ofD(1) [OF sl] j by (auto simp: renumbered_def index_map_def)
  have "agree (sl_signal_origin sl) (sl_memory_origin sl) (marks cone) (S, R) (S', R')" using st by (simp add: in_step_def eq)
  from agree_mono [OF agree_signal [OF this d j] subset_insertI] show ?thesis by (simp add: in_step_def eq drive_def w)
qed

section \<open>The simulators\<close>

text \<open>What a client does with all lanes: drive a signal with a value per lane, or run clock ticks.\<close>

datatype lane_command = DriveLanes signal "u128 list" | Ticks nat

fun run_command :: "lane_command \<Rightarrow> packed_simulator \<Rightarrow> packed_simulator option" where
  "run_command (DriveLanes h vs) s = map_option fst (set_signal h vs s)"
| "run_command (Ticks n) s = packed_tick_many n s"

fun run_commands :: "lane_command list \<Rightarrow> packed_simulator \<Rightarrow> packed_simulator option" where
  "run_commands [] s = Some s"
| "run_commands (c # cs) s = Option.bind (run_command c s) (run_commands cs)"

definition tick_lanes :: "packed_program \<Rightarrow> nat \<Rightarrow> lane_state \<Rightarrow> lane_state" where
  "tick_lanes p n x = (if n = 0 then x else ((\<lambda>x. settle_spec p (edge_spec p x)) ^^ n) (settle_spec p x))"

lemma set_signal_ok:
  assumes s: "simulator_ok s" and i: "pp_top_signal_indices (pk_program s) h = Some i" "i < signal_count s"
  shows "\<exists>s' r. set_signal h vs s = Some (s', r) \<and> goes_on s s' \<and> (\<forall>l < pk_lanes s. lane_state s' l =
    (if length vs = pk_lanes s then settle_spec (pk_program s) (drive (pk_program s) i (uint (vs ! l)) (lane_state s l)) else lane_state s l))"
proof -
  have st: "storage_ok s" using goes_onD(1) [OF simulator_goes_on [OF s]] .
  let ?ws = "map (\<lambda>v. encode_u128_limbs v (pl_ty (signal_layout s i))) vs"
  have set: "set_signal h vs s = set_packed_signal_limbs i ?ws s"
    using i by (simp add: set_signal_def set_signal_limbs_def signal_index_def pp_signal_index_def or_fail_def)
  show ?thesis
  proof (cases "length vs = pk_lanes s")
    case False
    then show ?thesis unfolding set using simulator_goes_on [OF s] by (simp add: set_packed_signal_limbs_def)
  next
    case True
    have "\<forall>v \<in> set ?ws. length v = pl_limbs (signal_layout s i)" using encoded_length [OF st i(2)] by auto
    from set_packed_signal_limbs_ok [OF s i(2) _ this] True obtain s' where s': "set_packed_signal_limbs i ?ws s = Some (s', Inr ())"
      "goes_on s s'" "\<forall>l < pk_lanes s. lane_state s' l = settle_spec (pk_program s) (drive (pk_program s) i (lval (?ws ! l)) (lane_state s l))"
      by auto
    have "drive (pk_program s) i (lval (?ws ! l)) = drive (pk_program s) i (uint (vs ! l))" if "l < pk_lanes s" for l
      using True that encoded_value [OF st i(2)] by (simp add: drive_def)
    with s' True show ?thesis unfolding set by auto
  qed
qed

text \<open>The simulators of the whole program and of the slice, all lanes in step.\<close>

definition twins :: "packed_program \<Rightarrow> packed_slice \<Rightarrow> masks \<Rightarrow> packed_simulator \<Rightarrow> packed_simulator \<Rightarrow> bool" where
  "twins p sl cone s s' \<longleftrightarrow> simulator_ok s \<and> pk_program s = p \<and> simulator_ok s' \<and> pk_program s' = sl_program sl
     \<and> pk_lanes s' = pk_lanes s \<and> (\<forall>l < pk_lanes s. in_step sl cone (lane_state s l) (lane_state s' l))"

lemma tick_lanes_in_step:
  assumes "slice_of p cone sl sm mm" "closed_cone p cone" "streams_ok p" "in_step sl cone st st'"
  shows "in_step sl cone (tick_lanes p n st) (tick_lanes (sl_program sl) n st')"
proof -
  have "in_step sl cone (((\<lambda>x. settle_spec p (edge_spec p x)) ^^ k) st) (((\<lambda>x. settle_spec (sl_program sl) (edge_spec (sl_program sl) x)) ^^ k) st')"
    if "in_step sl cone st st'" for k st st'
    using that by (induction k) (auto intro!: settle_in_step [OF assms(1-3)] edge_in_step [OF assms(1-3)])
  then show ?thesis unfolding tick_lanes_def using assms(4) settle_in_step [OF assms] by auto
qed

lemma twins_goes_on:
  assumes "twins p sl cone s s'" "goes_on s t" "goes_on s' t'"
    and "\<forall>l < pk_lanes s. in_step sl cone (lane_state t l) (lane_state t' l)"
  shows "twins p sl cone t t'"
proof -
  have "simulator_ok t" "simulator_ok t'" using assms(1-3) simulator_ok_goes_on by (auto simp: twins_def)
  with assms(1,4) goes_onD(2,3) [OF assms(2)] goes_onD(2,3) [OF assms(3)] show ?thesis by (simp add: twins_def)
qed

definition cone_handle :: "packed_program \<Rightarrow> masks \<Rightarrow> signal \<Rightarrow> bool" where
  "cone_handle p cone h \<longleftrightarrow> (case pp_top_signal_indices p h of None \<Rightarrow> False | Some i \<Rightarrow> Inl i \<in> marks cone)"

text \<open>A handle of the cone names corresponding signals of both programs.\<close>

lemma cone_handle_index:
  assumes sl: "slice_of p cone sl sm mm" "closed_cone p cone" "handles_ok p" and h: "cone_handle p cone h"
  shows "\<exists>j. pp_top_signal_indices (sl_program sl) h = Some j \<and> j < length (sl_signal_origin sl)
    \<and> j < length (pp_signals (sl_program sl)) \<and> pp_top_signal_indices p h = Some (sl_signal_origin sl ! j)
    \<and> sl_signal_origin sl ! j < length (pp_signals p) \<and> Inl (sl_signal_origin sl ! j) \<in> marks cone"
proof -
  obtain i where i: "pp_top_signal_indices p h = Some i" "Inl i \<in> marks cone" using h by (auto simp: cone_handle_def split: option.splits)
  have src: "i < length (pp_signals p)" "ps_source (pp_signals p ! i) = Some h" using sl(3) i(1) by (auto simp: handles_ok_def)
  have "Inl i \<in> Inl ` set (sl_signal_origin sl) \<union> Inr ` set (sl_memory_origin sl)" unfolding slice_ofD(5) [OF sl(1)] using i(2) by blast
  then obtain j where j: "j < length (sl_signal_origin sl)" "sl_signal_origin sl ! j = i" by (auto simp: in_set_conv_nth)
  have "j < length (pp_signals (sl_program sl))" using slice_ofD(1) [OF sl(1)] j(1) by (simp add: renumbered_def)
  moreover have "ps_source (pp_signals (sl_program sl) ! j) = Some h" using slice_ofD(4) [OF sl(1) j(1)] j(2) src(2) by simp
  ultimately have "pp_top_signal_indices (sl_program sl) h = Some j" using slice_ofD(3) [OF sl(1,3)] by (simp add: handles_ok_def)
  with i src j \<open>j < length (pp_signals (sl_program sl))\<close> show ?thesis by auto
qed

lemma command_twins:
  assumes sl: "slice_of p cone sl sm mm" "closed_cone p cone" "program_ok p" "handles_ok p" and tw: "twins p sl cone s s'"
    and c: "case c of DriveLanes h vs \<Rightarrow> cone_handle p cone h | Ticks n \<Rightarrow> True"
  shows "\<exists>t t'. run_command c s = Some t \<and> run_command c s' = Some t' \<and> twins p sl cone t t' \<and> pk_lanes t = pk_lanes s"
proof -
  have streams: "streams_ok p" using sl(3) by (simp add: program_ok_def)
  have s: "simulator_ok s" "pk_program s = p" "simulator_ok s'" "pk_program s' = sl_program sl" "pk_lanes s' = pk_lanes s"
    "\<forall>l < pk_lanes s. in_step sl cone (lane_state s l) (lane_state s' l)" using tw by (simp_all add: twins_def)
  show ?thesis
  proof (cases c)
    case (DriveLanes h vs)
    then have "cone_handle p cone h" using c by simp
    from cone_handle_index [OF sl(1,2,4) this] obtain j where j: "pp_top_signal_indices (sl_program sl) h = Some j"
      "j < length (sl_signal_origin sl)" "j < length (pp_signals (sl_program sl))" "pp_top_signal_indices p h = Some (sl_signal_origin sl ! j)"
      "sl_signal_origin sl ! j < length (pp_signals p)" by blast
    obtain t r where t: "set_signal h vs s = Some (t, r)" "goes_on s t" "\<forall>l < pk_lanes s. lane_state t l =
        (if length vs = pk_lanes s then settle_spec p (drive p (sl_signal_origin sl ! j) (uint (vs ! l)) (lane_state s l)) else lane_state s l)"
      using set_signal_ok [OF s(1), of h "sl_signal_origin sl ! j" vs] j(4,5) by (auto simp: s(2))
    obtain t' r' where t': "set_signal h vs s' = Some (t', r')" "goes_on s' t'" "\<forall>l < pk_lanes s. lane_state t' l =
        (if length vs = pk_lanes s then settle_spec (sl_program sl) (drive (sl_program sl) j (uint (vs ! l)) (lane_state s' l)) else lane_state s' l)"
      using set_signal_ok [OF s(3), of h j vs] j(1,3) by (auto simp: s(4,5))
    have "in_step sl cone (lane_state t l) (lane_state t' l)" if "l < pk_lanes s" for l
      using t(3) t'(3) s(6) that settle_in_step [OF sl(1,2) streams drive_in_step [OF sl(1) _ j(2)]] by simp
    with twins_goes_on [OF tw t(2) t'(2)] t(1,2) t'(1) DriveLanes show ?thesis by (simp add: goes_onD(3))
  next
    case (Ticks n)
    obtain t where t: "packed_tick_many n s = Some t" "goes_on s t" "\<forall>l < pk_lanes s. lane_state t l = tick_lanes p n (lane_state s l)"
      using tick_many_run [OF s(1), of n] by (auto simp: lane_run_def tick_lanes_def s(2))
    obtain t' where t': "packed_tick_many n s' = Some t'" "goes_on s' t'"
      "\<forall>l < pk_lanes s. lane_state t' l = tick_lanes (sl_program sl) n (lane_state s' l)"
      using tick_many_run [OF s(3), of n] by (auto simp: lane_run_def tick_lanes_def s(4,5))
    have "in_step sl cone (lane_state t l) (lane_state t' l)" if "l < pk_lanes s" for l
      using t(3) t'(3) s(6) that tick_lanes_in_step [OF sl(1,2) streams] by simp
    with twins_goes_on [OF tw t(2) t'(2)] t(1,2) t'(1) Ticks show ?thesis by (simp add: goes_onD(3))
  qed
qed

lemma commands_twins:
  assumes sl: "slice_of p cone sl sm mm" "closed_cone p cone" "program_ok p" "handles_ok p"
  shows "twins p sl cone s s' \<Longrightarrow> \<forall>c \<in> set cs. case c of DriveLanes h vs \<Rightarrow> cone_handle p cone h | Ticks n \<Rightarrow> True \<Longrightarrow>
    \<exists>t t'. run_commands cs s = Some t \<and> run_commands cs s' = Some t' \<and> twins p sl cone t t'"
proof (induction cs arbitrary: s s')
  case (Cons c cs)
  obtain t t' where t: "run_command c s = Some t" "run_command c s' = Some t'" "twins p sl cone t t'"
    using command_twins [OF sl Cons.prems(1), of c] Cons.prems(2) by auto
  with Cons.IH [OF t(3)] Cons.prems(2) show ?case by auto
qed auto

lemma new_twins:
  assumes sl: "slice_of p cone sl sm mm" "closed_cone p cone" "program_ok p" "lanes \<noteq> 0"
  shows "\<exists>s s'. new_packed_simulator p lanes = Some (Inr s) \<and> new_packed_simulator (sl_program sl) lanes = Some (Inr s') \<and> twins p sl cone s s'"
proof -
  have ok: "layouts_wf p" "streams_ok p" "layouts_wf (sl_program sl)" "streams_ok (sl_program sl)"
    using sl(3) slice_ofD(2) [OF sl(1)] by (simp_all add: program_ok_def)
  from new_packed_simulator_runs [OF ok(1,2) sl(4)] new_packed_simulator_runs [OF ok(3,4) sl(4)] show ?thesis
    using settle_in_step [OF sl(1,2) ok(2) zero_in_step] by (fastforce simp: twins_def)
qed

lemma twins_read:
  assumes sl: "slice_of p cone sl sm mm" "closed_cone p cone" "handles_ok p" and tw: "twins p sl cone s s'" and h: "cone_handle p cone h"
  shows "\<exists>vs. get_signal s h = Some (Inr vs) \<and> get_signal s' h = Some (Inr vs)"
proof -
  obtain j where j: "pp_top_signal_indices (sl_program sl) h = Some j"
    "j < length (sl_signal_origin sl)" "j < length (pp_signals (sl_program sl))" "pp_top_signal_indices p h = Some (sl_signal_origin sl ! j)"
    "sl_signal_origin sl ! j < length (pp_signals p)" "Inl (sl_signal_origin sl ! j) \<in> marks cone"
    using cone_handle_index [OF sl h] by blast
  have s: "storage_ok s" "storage_ok s'" "pk_program s = p" "pk_program s' = sl_program sl" "pk_lanes s' = pk_lanes s"
    "\<forall>l < pk_lanes s. in_step sl cone (lane_state s l) (lane_state s' l)"
    using tw goes_onD(1) [OF simulator_goes_on] by (auto simp: twins_def)
  obtain vs where vs: "get_signal s h = Some (Inr vs)"
    "map uint vs = map (\<lambda>l. take_bit 128 (lane_signal s l (sl_signal_origin sl ! j))) [0..<pk_lanes s]"
    using get_signal_ok [OF s(1), of h] j(4,5) by (auto simp: s(3) pp_signal_index_def)
  obtain ws where ws: "get_signal s' h = Some (Inr ws)"
    "map uint ws = map (\<lambda>l. take_bit 128 (lane_signal s' l j)) [0..<pk_lanes s]"
    using get_signal_ok [OF s(2), of h] j(1,3) by (auto simp: s(4,5) pp_signal_index_def)
  have "lane_signal s' l j = lane_signal s l (sl_signal_origin sl ! j)" if "l < pk_lanes s" for l
    using s(6) that j(2,6) by (auto simp: in_step_def agree_def lane_state_def)
  then have "map uint ws = map uint vs" unfolding vs(2) ws(2) by simp
  then have "ws = vs" by (rule map_injective) (simp add: inj_def word_uint_eq_iff)
  with vs(1) ws(1) show ?thesis by simp
qed

end
