(* ===== verification/Packed_Slice_Properties.thy ===== *)
theory Packed_Slice_Properties
  imports Packed_Lockstep Packed_Properties
begin

text \<open>The properties of the cone of influence and of its slice, on the program of \<open>Packed_Properties\<close>.\<close>

section \<open>The cone of influence\<close>

text \<open>
  C35: The cone of influence of any observed signals and memories of a well-formed program is
  computed, its loop ending within as many passes as there are signals and memories, and it is the
  least set of signals and memories that has the observed ones and is closed under the reads of
  the operations that write it.
\<close>

theorem cone_least:
  assumes "program_ok p"
  shows "\<exists>cone. cone_of_influence p os oms = Some cone \<and> masks_ok p cone
    \<and> marks cone = \<Inter> {D. closed_under_reads p D \<and> observed_items p os oms \<subseteq> D}"
proof -
  have "streams_ok p" using assms by (simp add: program_ok_def)
  from cone_of_influence_ok [OF this, of os oms] obtain cone where c: "cone_of_influence p os oms = Some cone" "masks_ok p cone"
    "observed_items p os oms \<subseteq> marks cone" "closed_under_reads p (marks cone)"
    "\<forall>D. closed_under_reads p D \<longrightarrow> observed_items p os oms \<subseteq> D \<longrightarrow> marks cone \<subseteq> D" by blast
  then have "marks cone = \<Inter> {D. closed_under_reads p D \<and> observed_items p os oms \<subseteq> D}" by blast
  with c(1,2) show ?thesis by blast
qed

text \<open>The counter alone is observed: its successor and its reset are in the cone, the log is not.\<close>

lemma sample_cone: "cone_of_influence sample_program [1] [] = Some ([True, True, True], [False])"
  by code_simp

theorem cone_least_witness:
  "marks ([True, True, True], [False]) = \<Inter> {D. closed_under_reads sample_program D \<and> observed_items sample_program [1] [] \<subseteq> D}"
  using cone_least [OF sample_ok, of "[1]" "[]"] unfolding sample_cone by blast

section \<open>The slice\<close>

text \<open>
  C34: The slice of the cone of influence exists, needs no boundary input, and simulates the whole
  program: a simulator of it, built and driven with the same values and clocked as often as one of
  the whole program, returns from every operation and reads the same value on every lane of every
  observed signal.
\<close>

theorem cone_simulates:
  assumes "program_ok p" "handles_ok p" "lanes \<noteq> 0" "cone_of_influence p os oms = Some cone"
    and "\<forall>c \<in> set cs. case c of DriveLanes h vs \<Rightarrow> cone_handle p cone h | Ticks n \<Rightarrow> True"
    and "pp_top_signal_indices p x = Some i" "i \<in> set os"
  shows "\<exists>sl s s' t t' vs. slice_present p cone = Some (Inr sl) \<and> sl_boundary_inputs sl = []
    \<and> new_packed_simulator p lanes = Some (Inr s) \<and> new_packed_simulator (sl_program sl) lanes = Some (Inr s')
    \<and> run_commands cs s = Some t \<and> run_commands cs s' = Some t' \<and> get_signal t x = Some (Inr vs) \<and> get_signal t' x = Some (Inr vs)"
proof -
  have streams: "streams_ok p" using assms(1) by (simp add: program_ok_def)
  obtain c where "cone_of_influence p os oms = Some c" "masks_ok p c" "observed_items p os oms \<subseteq> marks c" "closed_under_reads p (marks c)"
    using cone_of_influence_ok [OF streams, of os oms] by blast
  then have cone: "closed_cone p cone" "observed_items p os oms \<subseteq> marks cone" using assms(4) by (simp_all add: closed_cone_def)
  have "masks_ok p cone" using cone(1) by (simp add: closed_cone_def)
  moreover note closed_cone_reads [OF cone(1)]
  ultimately obtain sl sm mm where sl: "slice_present p cone = Some (Inr sl)" "slice_of p cone sl sm mm"
    using slice_present_ok [OF assms(1)] by blast
  have "Inl (sl_signal_origin sl ! j) \<in> marks cone" if "j < length (sl_signal_origin sl)" for j
    using slice_ofD(5) [OF sl(2)] closed_cone_reads [OF cone(1)] nth_mem [OF that] by blast
  then have "set (sl_boundary_inputs sl) = {}" unfolding slice_ofD(6) [OF sl(2)] by blast
  then have inputs: "sl_boundary_inputs sl = []" by simp
  obtain s s' where s: "new_packed_simulator p lanes = Some (Inr s)" "new_packed_simulator (sl_program sl) lanes = Some (Inr s')"
    "twins p sl cone s s'" using new_twins [OF sl(2) cone(1) assms(1,3)] by blast
  obtain t t' where t: "run_commands cs s = Some t" "run_commands cs s' = Some t'" "twins p sl cone t t'"
    using commands_twins [OF sl(2) cone(1) assms(1,2) s(3) assms(5)] by blast
  have "i < length (pp_signals p)" using assms(2,6) by (simp add: handles_ok_def)
  then have "cone_handle p cone x" using cone(2) assms(6,7) by (auto simp: cone_handle_def observed_items_def)
  from twins_read [OF sl(2) cone(1) assms(2) t(3) this] sl(1) inputs s(1,2) t(1,2) show ?thesis by blast
qed

lemma sample_handles: "handles_ok sample_program"
proof -
  have "pp_top_signal_indices sample_program h = Some i \<longleftrightarrow>
      i < length (pp_signals sample_program) \<and> ps_source (pp_signals sample_program ! i) = Some h" for h i
  proof -
    consider "i = 0" | "i = 1" | "i = 2" | "3 \<le> i" by linarith
    then show ?thesis by cases (auto simp: sample_defs)
  qed
  then show ?thesis by (simp add: handles_ok_def)
qed

text \<open>The counter in reset, then counting for three ticks, without its log.\<close>

theorem cone_simulates_witness:
  "\<exists>sl s s' t t' vs. slice_present sample_program ([True, True, True], [False]) = Some (Inr sl) \<and> sl_boundary_inputs sl = []
    \<and> new_packed_simulator sample_program 2 = Some (Inr s) \<and> new_packed_simulator (sl_program sl) 2 = Some (Inr s')
    \<and> run_commands [Ticks 1, DriveLanes \<lparr>sig_module = 0, sig_id = 0\<rparr> [1, 0], Ticks 3] s = Some t
    \<and> run_commands [Ticks 1, DriveLanes \<lparr>sig_module = 0, sig_id = 0\<rparr> [1, 0], Ticks 3] s' = Some t'
    \<and> get_signal t \<lparr>sig_module = 0, sig_id = 1\<rparr> = Some (Inr vs) \<and> get_signal t' \<lparr>sig_module = 0, sig_id = 1\<rparr> = Some (Inr vs)"
  by (rule cone_simulates [OF sample_ok sample_handles _ sample_cone, where i = 1])
    (simp_all add: cone_handle_def sample_defs)

end
