(* ===== verification/Spec2Isabelle.thy ===== *)
theory Spec2Isabelle
  imports Engine_Properties Rv_Properties Packed_Slice_Properties
begin

text \<open>
  A verification library of RRTL, a register-transfer-level hardware description language and
  simulator in Rust.

  The program.  \<open>crates/rrtl-ir\<close> holds the intermediate representation: bit types, expressions,
  modules with signals, assignments, registers, memories and instances, and diagnostics.
  \<open>crates/rrtl-core\<close> checks a design (\<open>validate_design\<close>), compiles it to a typed form
  (\<open>compile_ir\<close>) and simulates it with a scalar simulator (\<open>Simulator\<close>) that keeps a hash map of
  values and evaluates the assignments until nothing changes.  \<open>crates/rrtl-sim-ir\<close> simulates many
  lanes of a design at once: a packed program is lowered to a machine form of single-assignment
  instructions in packets (\<open>lower_to_machine_program\<close>), checked by a verifier
  (\<open>analyze_machine_program\<close>), rescheduled under bounds (\<open>optimize_machine_program\<close>) and
  interpreted by \<open>PackedSimulator\<close> on vectors of 32-bit limbs.  The packed program itself is lowered
  from a compiled design (\<open>lower_to_packed_program\<close>), and \<open>slice_packed_program\<close> cuts it into
  programs of their own for a part of the signals.  \<open>crates/rrtl-riscv-asm\<close> is the assembler that
  makes the memory images of the processors simulated here.

  Theories and the code they model.
  \<^item> \<open>RRTL_Prelude\<close>: lemmas on words, lists, options and sums, and the error monad.
  \<^item> \<open>Ir\<close> (rrtl-ir \<open>src/lib.rs\<close>): every struct and enum of the crate as a record or datatype, the
    expression constructors, states, bundles and interfaces, lookups, diagnostics and their text.
  \<^item> \<open>Expr_Type\<close> (rrtl-core \<open>expr_type\<close>, \<open>fits_type\<close>, \<open>encode_value\<close>, \<open>signed_value\<close>): the type
    checker with its diagnostics, its typing relation, and the encoding of constants.
  \<^item> \<open>Scalar_Eval\<close> (\<open>Simulator::eval_expr\<close>): evaluation on 128-bit words, and the reference
    semantics that masks every node.
  \<^item> \<open>Scalar_Sim\<close>, \<open>Scalar_Tick\<close> (\<open>Simulator\<close>): instance trees, the combinational loop, clock edges
    with one or several clocks, asynchronous resets, cover points and assertions.
  \<^item> \<open>Scalar_Invariant\<close>: the interface of the stored values, and the invariant of every
    reachable simulator.
  \<^item> \<open>Scalar_Flat\<close>: flat modules: evaluation settles, an edge is the synchronous step.
  \<^item> \<open>Cycle_Search\<close> (\<open>has_cycle\<close>, \<open>has_hierarchy_cycle\<close>): the depth-first search that both
    cycle checks use; sound, complete and terminating on every graph.
  \<^item> \<open>Validate\<close>, \<open>Validate_Types\<close>, \<open>Validate_Design\<close> (\<open>validate_*\<close>): the checks in the order of
    the code, each returning its list of diagnostics with codes and messages.
  \<^item> \<open>Validate_Sound\<close>: what acceptance gives: a rank of the modules, an evaluation order of the
    assignments, instance ports of matching width.
  \<^item> \<open>Compile\<close> (\<open>compile_ir\<close>): the compiled records and the correctness of compilation.
  \<^item> \<open>Scalar_New\<close> (\<open>Simulator::new_with_init\<close>): the constructor.
  \<^item> \<open>Limbs\<close> (rrtl-sim-ir \<open>src/lib.rs\<close>, \<open>add_limbs\<close> to \<open>concat_limbs\<close>): numbers as lists of limbs and
    their operations, each shown to be the integer operation modulo two to the width.
  \<^item> \<open>Packed_Ir\<close>: layouts, packed expressions, streams, machine packets, and the integer semantics
    of an expression node.
  \<^item> \<open>Machine_Lower\<close> (\<open>lower_to_machine_program\<close>): value numbering with reuse and level scheduling;
    the instructions denote the expressions they were lowered from.
  \<^item> \<open>Packed_Sim\<close> (\<open>PackedSimulator\<close>): the interpreter: slots, loads and stores, blocks, streams,
    captures and commits, ticks.
  \<^item> \<open>Packed_Refine\<close>, \<open>Packed_Block\<close>, \<open>Packed_Spec\<close>, \<open>Packed_Run\<close>, \<open>Packed_Tick\<close>: the abstract machine
    of a lane (\<open>settle_spec\<close>, \<open>edge_spec\<close>, \<open>tick_spec\<close>) and the refinement of it, instruction by
    instruction; the interface \<open>block_handler\<close> is shared by the execution and the capture of a block.
  \<^item> \<open>Packed_Analysis\<close>: the verifier, shown exact; lowered programs are accepted.
  \<^item> \<open>Packed_Schedule\<close>, \<open>Packed_Optimize\<close>: list scheduling; it keeps its bounds and the meaning.
  \<^item> \<open>Packed_Api\<close>, \<open>Packed_Drive\<close>, \<open>Packed_Reach\<close>: constructor, snapshots, driving and reading; the
    reachable simulators and their invariant.
  \<^item> \<open>Packed_Order\<close>: ordered combinational streams settle in one run.
  \<^item> \<open>Levels\<close>: the scheduling by level that machine lowering and program lowering share.
  \<^item> \<open>Packed_Lower\<close> (\<open>lower_to_packed_program\<close>): flattening of the hierarchy into contexts, layouts,
    expressions, connections, registers, memory writes and the schedule, with the diagnostics.
  \<^item> \<open>Packed_Lower_Expr\<close>, \<open>Packed_Lower_Program\<close>, \<open>Packed_Lower_Schedule\<close>, \<open>Packed_Lower_Design\<close>,
    \<open>Packed_Layout\<close>: lowered expressions denote the reference semantics, the layouts are disjoint
    and in range, the schedule is complete and ordered, and the program is well formed.
  \<^item> \<open>Packed_Accepted\<close>, \<open>Packed_Lowers\<close>: what validation gives the lowering, and when it has no
    diagnostic.
  \<^item> \<open>Packed_Flat\<close>, \<open>Packed_Flat_Step\<close>, \<open>Packed_Flat_Edge\<close>, \<open>Packed_Flat_Run\<close>: the packed program of
    a flat module simulates the scalar simulator, for settling, a clock edge and a run.
  \<^item> \<open>Packed_Slice\<close> (\<open>classify_signal_owners\<close>, \<open>cone_of_influence\<close>, \<open>slice_packed_program\<close>,
    \<open>slice_present\<close>): ownership by instance path, the cone of influence and the renumbered slice.
  \<^item> \<open>Packed_Cone\<close>, \<open>Packed_Renumber\<close>, \<open>Packed_Space\<close>, \<open>Packed_Agree\<close>, \<open>Packed_Slice_Sound\<close>,
    \<open>Packed_Lockstep\<close>: the cone is a closure, renumbering keeps the meaning of operations, the
    spaces of a slice are disjoint, a slice is well formed, and the slice of a cone runs in lockstep
    with the whole program.
  \<^item> \<open>Rv_Asm\<close>, \<open>Rv_Encode\<close> (rrtl-riscv-asm \<open>src/lib.rs\<close>): lexing, operands, the two passes and the
    encoder, with errors and panics.
  \<^item> \<open>Rv_Format\<close>, \<open>Rv_Sound\<close>, \<open>Rv_Exec\<close>: the fields of the formats are read back, the two passes
    agree on addresses and sizes, and what the encoded instructions do.
  \<^item> \<open>Engine_Properties\<close>, \<open>Lower_Properties\<close>, \<open>Packed_Slice_Properties\<close>, \<open>Rv_Properties\<close>,
    \<open>Scalar_Properties\<close>, \<open>Validate_Properties\<close>, \<open>Packed_Properties\<close>: the properties and the concrete designs of their
    witnesses.

  Conventions.  A width is a natural number; \<open>u128\<close> and \<open>i128\<close> are 128-bit words, with \<open>None\<close> for a
  panic (arithmetic overflow with overflow checks on, division, shift or index out of range).
  A hash map is a map; where the code iterates one, the order is the parameter
  \<open>ord :: hash_order\<close>, of which only \<open>hash_iteration\<close> is assumed: it lists each key once.
  Strings are ASCII.

  Fuel.  \<open>eval_combinational\<close> recurses along the instance tree, which is finite, so that its fuel
  is the height of the tree; its loop is bounded in the code (\<open>comb_limit\<close>) and the model keeps
  that bound.  \<open>from_module\<close> takes a depth bound; \<open>construction_fuel\<close>, the number of modules, is
  enough for accepted designs.  The cycle searches and the port-dependency search take the number
  of keys, shown to be enough on every graph.  The levels of machine instructions are computed with the
  number of instructions as fuel, shown to be enough; \<open>fill_packet\<close> has the length of the ready
  list, of which every turn removes an element.  Flattening takes one more than the number of modules,
  which bounds the depth of an accepted hierarchy; the level of an assignment takes one more than
  the number of assignments, shown to be enough also when they are cyclic; the loop of the cone of
  influence takes one more than the number of signals and memories, as every turn but the last
  marks one.

  Not modelled: the builder methods, the VCD writer, trace replay, the SIMD, partitioned and native
  engines and the tools around them (see the manifest).
\<close>

end
